(* ===== verification/Prelude.thy ===== *)
theory Prelude
  imports Main "HOL-Library.Word"
begin

text \<open>
  The types, byte-buffer operations and generic lemmas that every component shares.
  A C buffer is a byte list; the pointer expression \<^verbatim>\<open>p + n\<close> is \<^verbatim>\<open>drop n p\<close> and
  a write of bytes at an offset is \<^verbatim>\<open>put\<close>. Fixed width encodings are instances of the
  locale \<^verbatim>\<open>codec\<close>, which carries the lemmas on reading a field back at its offset.
\<close>

unbundle bit_operations_syntax

type_synonym byte = "8 word"
type_synonym u8 = "8 word"
type_synonym u16 = "16 word"
type_synonym u32 = "32 word"
type_synonym u64 = "64 word"

named_theorems layout \<open>lengths and sub-buffers of encoded structures\<close>

abbreviation (input) UINT32_MAX :: nat where
  "UINT32_MAX \<equiv> 4294967295"

abbreviation (input) UINT64_MAX :: u64 where
  "UINT64_MAX \<equiv> 0xffffffffffffffff"

subsection \<open>Buffers\<close>

definition put :: "nat \<Rightarrow> byte list \<Rightarrow> byte list \<Rightarrow> byte list" where
  "put off bs buf = take off buf @ bs @ drop (off + length bs) buf"

definition str_bytes :: "string \<Rightarrow> byte list" where
  "str_bytes s = map of_char s"

lemma length_str_bytes [simp, layout]: "length (str_bytes s) = length s"
  by (simp add: str_bytes_def)

lemma length_put [simp]: "off + length bs \<le> length buf \<Longrightarrow> length (put off bs buf) = length buf"
  by (simp add: put_def)

lemma put_append [layout]:
  "length xs = off \<Longrightarrow> put off bs (xs @ ys) = xs @ bs @ drop (length bs) ys"
  by (simp add: put_def)

text \<open>Consecutive writes into a cleared buffer build a concatenation.\<close>

lemma put_start: "length bs \<le> n \<Longrightarrow> put 0 bs (replicate n 0) = bs @ replicate (n - length bs) 0"
  by (simp add: put_def)

lemma put_zeros:
  "length xs = off \<Longrightarrow> length bs \<le> n \<Longrightarrow>
   put off bs (xs @ replicate n 0) = (xs @ bs) @ replicate (n - length bs) 0"
  by (simp add: put_def)

lemma put_over_zeros:
  "length bs \<le> k \<Longrightarrow> off + k \<le> length buf \<Longrightarrow>
   put off bs (put off (replicate k 0) buf) = put off (bs @ replicate (k - length bs) 0) buf"
  by (simp add: put_def)

lemma put_split:
  "length xs = off \<Longrightarrow> length bs = length ys \<Longrightarrow> put off bs (xs @ ys @ zs) = xs @ bs @ zs"
  by (simp add: put_def)

lemma drop_put: "off \<le> length buf \<Longrightarrow> drop off (put off bs buf) = bs @ drop (off + length bs) buf"
  by (simp add: put_def)

lemma take_put: "off \<le> length buf \<Longrightarrow> take off (put off bs buf) = take off buf"
  by (simp add: put_def)

lemma put_put_same:
  "length bs = length cs \<Longrightarrow> off + length bs \<le> length buf \<Longrightarrow>
   put off cs (put off bs buf) = put off cs buf"
  by (simp add: put_def)

text \<open>The bytes of a C character array up to its first NUL, and the array read back.\<close>

definition strnlen :: "byte list \<Rightarrow> nat \<Rightarrow> nat" where
  "strnlen s n = length (takeWhile (\<lambda>c. c \<noteq> 0) (take n s))"

definition cstr :: "byte list \<Rightarrow> byte list" where
  "cstr s = takeWhile (\<lambda>c. c \<noteq> 0) s"

lemma strnlen_le [simp]: "strnlen s n \<le> n"
  unfolding strnlen_def by (rule order_trans [OF length_takeWhile_le]) simp

lemma strnlen_le_length: "strnlen s n \<le> length s"
  unfolding strnlen_def by (rule order_trans [OF length_takeWhile_le]) simp

lemma take_strnlen: "take (strnlen s n) s = takeWhile (\<lambda>c. c \<noteq> 0) (take n s)"
proof -
  have "take (strnlen s n) s = take (strnlen s n) (take n s)"
    by (simp add: min_absorb1)
  also have "\<dots> = takeWhile (\<lambda>c. c \<noteq> 0) (take n s)"
    unfolding strnlen_def by (rule takeWhile_eq_take [symmetric])
  finally show ?thesis .
qed

subsection \<open>Fixed width encodings\<close>

text \<open>
  A table is a list of records of one width; \<^verbatim>\<open>ok\<close> holds for the values the encoder lays
  out completely. A \<^verbatim>\<open>codec\<close> is the case without a condition.
\<close>

locale record_codec =
  fixes enc :: "'v \<Rightarrow> byte list"
    and dec :: "byte list \<Rightarrow> 'v"
    and width :: nat
    and ok :: "'v \<Rightarrow> bool"
  assumes record_length: "ok v \<Longrightarrow> length (enc v) = width"
    and record_dec: "ok v \<Longrightarrow> dec (enc v @ rest) = v"
begin

lemma length_table: "list_all ok vs \<Longrightarrow> length (concat (map enc vs)) = length vs * width"
  by (induction vs) (simp_all add: record_length)

lemma table_nth:
  "list_all ok vs \<Longrightarrow> i < length vs \<Longrightarrow>
   dec (take width (drop (i * width) (concat (map enc vs) @ rest))) = vs ! i"
proof (induction vs arbitrary: i)
  case Nil
  then show ?case by simp
next
  case (Cons v vs)
  show ?case
  proof (cases i)
    case 0
    with Cons.prems record_dec [of v "[]"] show ?thesis by (simp add: record_length)
  next
    case (Suc j)
    with Cons show ?thesis by (simp add: record_length)
  qed
qed

end

locale codec =
  fixes enc :: "'v \<Rightarrow> byte list"
    and dec :: "byte list \<Rightarrow> 'v"
    and width :: nat
  assumes enc_length: "length (enc v) = width"
    and dec_enc: "dec (enc v @ rest) = v"
begin

lemma dec_enc_exact: "dec (enc v) = v"
  using dec_enc [of v "[]"] by simp

lemma dec_at: "length pre = off \<Longrightarrow> dec (drop off (pre @ enc v @ rest)) = v"
  by (simp add: dec_enc)

lemma dec_put: "off \<le> length buf \<Longrightarrow> dec (drop off (put off (enc v) buf)) = v"
  by (simp add: drop_put dec_enc)

lemma enc_cancel: "enc v @ r = enc w @ s \<Longrightarrow> v = w \<and> r = s"
  by (metis append_eq_append_conv dec_enc enc_length)

lemma enc_inject: "enc v = enc w \<longleftrightarrow> v = w"
  by (metis dec_enc_exact)

end

sublocale codec \<subseteq> plain: record_codec enc dec width "\<lambda>_. True"
  by unfold_locales (simp_all add: enc_length dec_enc)

subsection \<open>Invariants of a step function, over whole runs\<close>

locale stepper =
  fixes step :: "'e \<Rightarrow> 's \<Rightarrow> 's"
    and inv :: "'s \<Rightarrow> bool"
  assumes step_inv: "inv s \<Longrightarrow> inv (step e s)"
begin

lemma run_inv: "inv s \<Longrightarrow> inv (fold step es s)"
  by (induction es arbitrary: s) (simp_all add: step_inv)

end

subsection \<open>Words\<close>

lemma of_nat_inject_le:
  "n < 2 ^ LENGTH('a) \<Longrightarrow> unat (of_nat n :: 'a::len word) = n"
  by (simp add: unat_of_nat take_bit_nat_eq_self)

lemma unat_u32_le: "unat (w :: u32) \<le> UINT32_MAX"
  using unsigned_less [of w, where 'a = nat] by simp

lemma unat_u64_less: "unat (w :: u64) < 18446744073709551616"
  by (rule unsigned_less [of w, simplified])

lemma unat_succ_u64: "(w :: u64) \<noteq> UINT64_MAX \<Longrightarrow> unat (w + 1) = Suc (unat w)"
proof -
  assume w: "w \<noteq> UINT64_MAX"
  have "1 + w \<noteq> 0"
  proof
    assume "1 + w = 0"
    then have "w = - 1" by (simp add: add_eq_0_iff)
    with w show False by simp
  qed
  then show ?thesis by (simp add: unatSuc add.commute)
qed

end
