(* ===== verification/Helper.thy ===== *)
theory Helper
  imports Prelude
begin

text \<open>
  \<^verbatim>\<open>src/helper.c\<close>: little endian integers, the CRC-32 of every on-disk structure and
  the framed chunk header. The encoders return the bytes the C code stores at its
  destination pointer.
\<close>

definition read_u32_le :: "byte list \<Rightarrow> u32" where
  "read_u32_le p =
     ucast (p ! 0) OR push_bit 8 (ucast (p ! 1)) OR push_bit 16 (ucast (p ! 2))
     OR push_bit 24 (ucast (p ! 3))"

definition read_u64_le :: "byte list \<Rightarrow> u64" where
  "read_u64_le p =
     ucast (p ! 0) OR push_bit 8 (ucast (p ! 1)) OR push_bit 16 (ucast (p ! 2))
     OR push_bit 24 (ucast (p ! 3)) OR push_bit 32 (ucast (p ! 4))
     OR push_bit 40 (ucast (p ! 5)) OR push_bit 48 (ucast (p ! 6))
     OR push_bit 56 (ucast (p ! 7))"

definition write_u32_le :: "u32 \<Rightarrow> byte list" where
  "write_u32_le value =
     [ucast (value AND 0xff), ucast (drop_bit 8 value AND 0xff),
      ucast (drop_bit 16 value AND 0xff), ucast (drop_bit 24 value AND 0xff)]"

definition write_u64_le :: "u64 \<Rightarrow> byte list" where
  "write_u64_le value =
     [ucast (value AND 0xff), ucast (drop_bit 8 value AND 0xff),
      ucast (drop_bit 16 value AND 0xff), ucast (drop_bit 24 value AND 0xff),
      ucast (drop_bit 32 value AND 0xff), ucast (drop_bit 40 value AND 0xff),
      ucast (drop_bit 48 value AND 0xff), ucast (drop_bit 56 value AND 0xff)]"

definition crc32_bit :: "u32 \<Rightarrow> u32" where
  "crc32_bit crc = drop_bit 1 crc XOR (0xedb88320 AND (- (crc AND 1)))"

definition crc32_byte :: "u32 \<Rightarrow> byte \<Rightarrow> u32" where
  "crc32_byte crc b = (crc32_bit ^^ 8) (crc XOR ucast b)"

definition recorder_crc32 :: "byte list \<Rightarrow> u32" where
  "recorder_crc32 data = NOT (foldl crc32_byte 0xffffffff data)"

lemma ucast_and_0xff: "(ucast ((w :: 'a::len word) AND 0xff) :: byte) = ucast w"
proof -
  have "(0xff :: 'a word) = mask 8"
    by (simp add: mask_eq_exp_minus_1)
  then have *: "w AND 0xff = take_bit 8 w"
    by (simp only: take_bit_eq_mask)
  show ?thesis
    unfolding * by (rule bit_word_eqI) (auto simp: bit_simps dest: bit_imp_le_length)
qed

lemma read_u32_write: "read_u32_le (write_u32_le v @ rest) = v"
proof (rule bit_word_eqI)
  fix n
  assume "n < LENGTH(32)"
  then consider "n < 8" | "8 \<le> n" "n < 16" | "16 \<le> n" "n < 24" | "24 \<le> n" "n < 32"
    by fastforce
  then show "bit (read_u32_le (write_u32_le v @ rest)) n = bit v n"
    by cases (simp_all add: read_u32_le_def write_u32_le_def ucast_and_0xff bit_simps less_diff_conv2)
qed

lemma read_u64_write: "read_u64_le (write_u64_le v @ rest) = v"
proof (rule bit_word_eqI)
  fix n
  assume "n < LENGTH(64)"
  then consider "n < 8" | "8 \<le> n" "n < 16" | "16 \<le> n" "n < 24" | "24 \<le> n" "n < 32"
    | "32 \<le> n" "n < 40" | "40 \<le> n" "n < 48" | "48 \<le> n" "n < 56" | "56 \<le> n" "n < 64"
    by fastforce
  then show "bit (read_u64_le (write_u64_le v @ rest)) n = bit v n"
    by cases (simp_all add: read_u64_le_def write_u64_le_def ucast_and_0xff bit_simps less_diff_conv2)
qed

interpretation le32: codec write_u32_le read_u32_le 4
  by unfold_locales (simp add: write_u32_le_def, rule read_u32_write)

interpretation le64: codec write_u64_le read_u64_le 8
  by unfold_locales (simp add: write_u64_le_def, rule read_u64_write)

lemmas le_simps [simp] = le32.enc_length le64.enc_length le32.dec_enc le64.dec_enc
  le32.dec_enc_exact le64.dec_enc_exact

declare le32.enc_length [layout] le64.enc_length [layout]

subsection \<open>CRC-32\<close>

text \<open>
  One bit step is a bijection on the 32 bit state: the polynomial has its top bit set, so
  the top bit of the result tells whether the bit shifted out was set. Hence two inputs
  of the same length that differ in one byte never share a checksum.
\<close>

lemma crc32_bit_odd: "bit c 0 \<Longrightarrow> crc32_bit c = drop_bit 1 c XOR 0xedb88320"
  by (simp add: crc32_bit_def and_one_eq odd_iff_mod_2_eq_one bit_0)

lemma crc32_bit_even: "\<not> bit c 0 \<Longrightarrow> crc32_bit c = drop_bit 1 c"
  by (simp add: crc32_bit_def and_one_eq even_iff_mod_2_eq_zero bit_0)

lemma crc32_bit_top: "bit (crc32_bit c) 31 \<longleftrightarrow> bit c 0"
  by (cases "bit c 0")
    (auto simp: crc32_bit_odd crc32_bit_even bit_simps dest: bit_imp_le_length)

lemma drop_bit_1_inject:
  assumes "drop_bit 1 (a :: u32) = drop_bit 1 b" and "bit a 0 = bit b 0"
  shows "a = b"
proof (rule bit_word_eqI)
  fix n
  show "bit a n = bit b n"
  proof (cases n)
    case 0
    with assms(2) show ?thesis by simp
  next
    case (Suc m)
    from assms(1) have "bit (drop_bit 1 a) m = bit (drop_bit 1 b) m" by simp
    with Suc show ?thesis by (simp add: bit_drop_bit_eq)
  qed
qed

lemma crc32_bit_inject: "crc32_bit a = crc32_bit b \<Longrightarrow> a = b"
proof -
  assume eq: "crc32_bit a = crc32_bit b"
  then have low: "bit a 0 = bit b 0"
    by (metis crc32_bit_top)
  have "drop_bit 1 a = drop_bit 1 b"
  proof (cases "bit a 0")
    case True
    with eq low have "drop_bit 1 a XOR 0xedb88320 = drop_bit 1 b XOR 0xedb88320"
      by (simp add: crc32_bit_odd)
    then have "(drop_bit 1 a XOR 0xedb88320) XOR 0xedb88320 =
        (drop_bit 1 b XOR 0xedb88320) XOR 0xedb88320" by simp
    then show ?thesis by (simp add: xor.assoc)
  next
    case False
    with eq low show ?thesis by (simp add: crc32_bit_even)
  qed
  then show ?thesis using low by (rule drop_bit_1_inject)
qed

lemma crc32_bits_inject: "(crc32_bit ^^ n) a = (crc32_bit ^^ n) b \<Longrightarrow> a = b"
  by (induction n) (auto dest: crc32_bit_inject)

lemma xor_cancel_right: "(a :: 'a::len word) XOR c = b XOR c \<longleftrightarrow> a = b"
  by (metis xor.assoc xor.right_neutral xor_self_eq)

lemma xor_cancel_left: "(c :: 'a::len word) XOR a = c XOR b \<longleftrightarrow> a = b"
  by (metis xor.commute xor_cancel_right)

lemma crc32_byte_inject_state: "crc32_byte a x = crc32_byte b x \<longleftrightarrow> a = b"
  unfolding crc32_byte_def by (auto dest: crc32_bits_inject simp: xor_cancel_right)

lemma ucast_byte_inject: "(ucast (x :: byte) :: u32) = ucast y \<longleftrightarrow> x = y"
proof
  assume eq: "(ucast x :: u32) = ucast y"
  show "x = y"
  proof (rule bit_word_eqI)
    fix n
    assume "n < LENGTH(8)"
    moreover have "bit (ucast x :: u32) n = bit (ucast y :: u32) n"
      using eq by simp
    ultimately show "bit x n = bit y n"
      by (simp add: bit_simps)
  qed
qed simp

lemma crc32_byte_inject_data: "crc32_byte a x = crc32_byte a y \<longleftrightarrow> x = y"
  unfolding crc32_byte_def
  by (auto dest: crc32_bits_inject simp: xor_cancel_left ucast_byte_inject)

lemma crc32_fold_inject:
  "foldl crc32_byte a xs = foldl crc32_byte b xs \<longleftrightarrow> a = b"
  by (induction xs arbitrary: a b) (simp_all add: crc32_byte_inject_state)

lemma crc32_one_byte:
  "recorder_crc32 (pre @ x # post) = recorder_crc32 (pre @ y # post) \<longleftrightarrow> x = y"
  by (simp add: recorder_crc32_def crc32_fold_inject crc32_byte_inject_data)

end
