(* ===== verification/CRuntime.thy ===== *)
theory CRuntime
  imports Prelude
begin

text \<open>
  What the sources use of the C library and the kernel. A stream opened for writing is its
  contents and a script of the outcomes of its next write calls: \<^verbatim>\<open>None\<close> accepts every
  byte, \<^verbatim>\<open>Some k\<close> accepts at most \<^verbatim>\<open>k\<close> bytes (a full device, an interrupted write); an
  empty script accepts everything. A theorem over all scripts is a theorem over all
  failures. \<^verbatim>\<open>errno\<close> names the error codes the sources set themselves.
\<close>

datatype errno = EINVAL | EOVERFLOW | EACCES | EIO | ENOTSUP | ESTALE | EPROTONOSUPPORT
  | ENAMETOOLONG | ENOSPC | EOTHER

record FILE =
  contents :: "byte list"
  wscript :: "nat option list"

definition fopen_w :: "nat option list \<Rightarrow> FILE" where
  "fopen_w s = \<lparr>contents = [], wscript = s\<rparr>"

fun fwrite :: "byte list \<Rightarrow> FILE \<Rightarrow> nat \<times> FILE" where
  "fwrite buf fp =
     (case wscript fp of
        [] \<Rightarrow> (length buf, fp\<lparr>contents := contents fp @ buf\<rparr>)
      | None # s \<Rightarrow> (length buf, fp\<lparr>contents := contents fp @ buf, wscript := s\<rparr>)
      | Some k # s \<Rightarrow>
          (min k (length buf),
           fp\<lparr>contents := contents fp @ take (min k (length buf)) buf, wscript := s\<rparr>))"

definition ftell :: "FILE \<Rightarrow> nat" where
  "ftell fp = length (contents fp)"

lemma fwrite_prefix:
  "fwrite buf fp = (n, fp') \<Longrightarrow> n \<le> length buf \<and> contents fp' = contents fp @ take n buf"
  by (auto split: list.splits option.splits)

lemma fwrite_script: "wscript fp = [] \<Longrightarrow> fwrite buf fp = (length buf, fp\<lparr>contents := contents fp @ buf\<rparr>)"
  by simp

lemma fwrite_full: "fwrite buf fp = (length buf, fp') \<Longrightarrow> contents fp' = contents fp @ buf"
  by (auto split: list.splits option.splits simp: min_def split: if_splits)

declare fwrite.simps [simp del]

end
