(* ===== verification/Crypto.thy ===== *)
theory Crypto
  imports CRuntime
begin

text \<open>
  \<^verbatim>\<open>src/recorder_crypto.c\<close> over the third-party libraries. OpenSSL, zstd and the flatcc
  verifier are not part of the sources: they are the functions of the record \<^verbatim>\<open>lib\<close>,
  an argument of every definition that calls them. What a theorem relies on of their
  documented behaviour is a named predicate over \<^verbatim>\<open>lib\<close>.
\<close>

type_synonym pkey = nat

datatype RecorderCryptoStatus =
    RECORDER_CRYPTO_OK
  | RECORDER_CRYPTO_ERR_ARGUMENT
  | RECORDER_CRYPTO_ERR_MEMORY
  | RECORDER_CRYPTO_ERR_IO
  | RECORDER_CRYPTO_ERR_KEY_FORMAT
  | RECORDER_CRYPTO_ERR_KEY_TYPE
  | RECORDER_CRYPTO_ERR_LENGTH
  | RECORDER_CRYPTO_ERR_RANDOM
  | RECORDER_CRYPTO_ERR_ENCRYPT
  | RECORDER_CRYPTO_ERR_DECRYPT
  | RECORDER_CRYPTO_ERR_AUTHENTICATION
  | RECORDER_CRYPTO_ERR_WRAPPED_KEY

record lib =
  BIO_new_file :: "string \<Rightarrow> byte list option"
  PEM_read_bio_PUBKEY :: "byte list \<Rightarrow> pkey option"
  PEM_read_bio_PrivateKey :: "byte list \<Rightarrow> pkey option"
  EVP_PKEY_is_RSA :: "pkey \<Rightarrow> bool"
  RAND_bytes :: "nat \<Rightarrow> nat \<Rightarrow> byte list option"
  EVP_PKEY_encrypt :: "pkey \<Rightarrow> byte list \<Rightarrow> byte list option"
  EVP_PKEY_decrypt :: "pkey \<Rightarrow> byte list \<Rightarrow> byte list option"
  EVP_aes_256_gcm_encrypt ::
    "byte list \<Rightarrow> byte list \<Rightarrow> byte list \<Rightarrow> byte list \<Rightarrow> (byte list \<times> byte list) option"
  EVP_aes_256_gcm_decrypt ::
    "byte list \<Rightarrow> byte list \<Rightarrow> byte list \<Rightarrow> byte list \<Rightarrow> byte list \<Rightarrow> byte list option"
  ZSTD_decompress :: "byte list \<Rightarrow> nat \<Rightarrow> byte list option"
  ZSTD_decompress_usingDict :: "byte list \<Rightarrow> byte list \<Rightarrow> nat \<Rightarrow> byte list option"
  ZSTD_compress :: "byte list \<Rightarrow> byte list option"
  ZSTD_compress_usingDict :: "byte list \<Rightarrow> byte list \<Rightarrow> byte list option"
  journal_Chunk_verify_as_root :: "byte list \<Rightarrow> bool"
  journal_DefaultChunk_verify_as_root :: "byte list \<Rightarrow> bool"

abbreviation (input) RECORDER_CRYPTO_DEK_SIZE :: nat where
  "RECORDER_CRYPTO_DEK_SIZE \<equiv> 32"

abbreviation (input) INT_MAX :: nat where
  "INT_MAX \<equiv> 2147483647"

subsection \<open>Keys\<close>

definition recorder_public_key_load_pem :: "lib \<Rightarrow> string \<Rightarrow> RecorderCryptoStatus + pkey" where
  "recorder_public_key_load_pem L path =
     (case BIO_new_file L path of
        None \<Rightarrow> Inl RECORDER_CRYPTO_ERR_IO
      | Some bio \<Rightarrow>
          (case PEM_read_bio_PUBKEY L bio of
             None \<Rightarrow> Inl RECORDER_CRYPTO_ERR_KEY_FORMAT
           | Some pkey \<Rightarrow>
               if \<not> EVP_PKEY_is_RSA L pkey then Inl RECORDER_CRYPTO_ERR_KEY_TYPE
               else Inr pkey))"

definition recorder_private_key_load_pem :: "lib \<Rightarrow> string \<Rightarrow> RecorderCryptoStatus + pkey" where
  "recorder_private_key_load_pem L path =
     (case BIO_new_file L path of
        None \<Rightarrow> Inl RECORDER_CRYPTO_ERR_IO
      | Some bio \<Rightarrow>
          (case PEM_read_bio_PrivateKey L bio of
             None \<Rightarrow> Inl RECORDER_CRYPTO_ERR_KEY_FORMAT
           | Some pkey \<Rightarrow>
               if \<not> EVP_PKEY_is_RSA L pkey then Inl RECORDER_CRYPTO_ERR_KEY_TYPE
               else Inr pkey))"

subsection \<open>Random bytes\<close>

text \<open>
  The loop draws at most \<^verbatim>\<open>INT_MAX\<close> bytes per call; \<^verbatim>\<open>k\<close> numbers the calls of
  \<^verbatim>\<open>RAND_bytes\<close>, so that two draws are two values.
\<close>

function recorder_crypto_random :: "lib \<Rightarrow> nat \<Rightarrow> nat \<Rightarrow> RecorderCryptoStatus + byte list" where
  "recorder_crypto_random L k len =
     (if len = 0 then Inr []
      else let chunk = (if len > INT_MAX then INT_MAX else len) in
        case RAND_bytes L k chunk of
          None \<Rightarrow> Inl RECORDER_CRYPTO_ERR_RANDOM
        | Some bs \<Rightarrow>
            (case recorder_crypto_random L (Suc k) (len - chunk) of
               Inl e \<Rightarrow> Inl e
             | Inr rest \<Rightarrow> Inr (bs @ rest)))"
  by pat_completeness auto
termination
  by (relation "measure (\<lambda>(L, k, len). len)") auto

declare recorder_crypto_random.simps [simp del]

subsection \<open>Key wrapping\<close>

definition recorder_crypto_wrap_dek :: "lib \<Rightarrow> pkey \<Rightarrow> byte list \<Rightarrow> RecorderCryptoStatus + byte list" where
  "recorder_crypto_wrap_dek L key dek =
     (case EVP_PKEY_encrypt L key (take RECORDER_CRYPTO_DEK_SIZE dek) of
        None \<Rightarrow> Inl RECORDER_CRYPTO_ERR_ENCRYPT
      | Some wrapped \<Rightarrow> Inr wrapped)"

definition recorder_crypto_unwrap_dek :: "lib \<Rightarrow> pkey \<Rightarrow> byte list \<Rightarrow> RecorderCryptoStatus + byte list" where
  "recorder_crypto_unwrap_dek L key wrapped =
     (if length wrapped = 0 then Inl RECORDER_CRYPTO_ERR_ARGUMENT
      else case EVP_PKEY_decrypt L key wrapped of
        None \<Rightarrow> Inl RECORDER_CRYPTO_ERR_WRAPPED_KEY
      | Some clear \<Rightarrow>
          if length clear \<noteq> RECORDER_CRYPTO_DEK_SIZE then Inl RECORDER_CRYPTO_ERR_WRAPPED_KEY
          else Inr clear)"

subsection \<open>AES-256-GCM\<close>

definition lengths_fit_evp :: "nat \<Rightarrow> nat \<Rightarrow> bool" where
  "lengths_fit_evp aad_len input_len \<longleftrightarrow> aad_len \<le> INT_MAX \<and> input_len \<le> INT_MAX"

text \<open>
  The local variable \<^verbatim>\<open>len\<close> holds the length EVP reported last: the call that feeds the
  additional data sets it to the length of that data, and only a payload call sets it
  again. The final call adds nothing in GCM mode.
\<close>

definition evp_outl :: "byte list \<Rightarrow> byte list \<Rightarrow> nat" where
  "evp_outl aad input =
     (let len = 0;
          len = (if length aad \<noteq> 0 then length aad else len);
          len = (if length input \<noteq> 0 then length input else len)
      in len)"

definition recorder_crypto_aes_gcm_encrypt ::
    "lib \<Rightarrow> byte list \<Rightarrow> byte list \<Rightarrow> byte list \<Rightarrow> byte list \<Rightarrow>
     RecorderCryptoStatus + (byte list \<times> byte list)" where
  "recorder_crypto_aes_gcm_encrypt L dek nonce aad plaintext =
     (if \<not> lengths_fit_evp (length aad) (length plaintext) then Inl RECORDER_CRYPTO_ERR_LENGTH
      else case EVP_aes_256_gcm_encrypt L dek nonce aad plaintext of
        None \<Rightarrow> Inl RECORDER_CRYPTO_ERR_ENCRYPT
      | Some (ciphertext, tag) \<Rightarrow>
          if evp_outl aad plaintext \<noteq> length plaintext then Inl RECORDER_CRYPTO_ERR_ENCRYPT
          else Inr (ciphertext, tag))"

definition recorder_crypto_aes_gcm_decrypt ::
    "lib \<Rightarrow> byte list \<Rightarrow> byte list \<Rightarrow> byte list \<Rightarrow> byte list \<Rightarrow> byte list \<Rightarrow>
     RecorderCryptoStatus + byte list" where
  "recorder_crypto_aes_gcm_decrypt L dek nonce aad ciphertext tag =
     (if \<not> lengths_fit_evp (length aad) (length ciphertext) then Inl RECORDER_CRYPTO_ERR_LENGTH
      else case EVP_aes_256_gcm_decrypt L dek nonce aad ciphertext tag of
        None \<Rightarrow> Inl RECORDER_CRYPTO_ERR_AUTHENTICATION
      | Some plaintext \<Rightarrow>
          if evp_outl aad ciphertext \<noteq> length ciphertext then Inl RECORDER_CRYPTO_ERR_DECRYPT
          else Inr plaintext)"

fun recorder_crypto_strerror :: "RecorderCryptoStatus \<Rightarrow> string" where
  "recorder_crypto_strerror RECORDER_CRYPTO_OK = ''success''"
| "recorder_crypto_strerror RECORDER_CRYPTO_ERR_ARGUMENT = ''invalid cryptography argument''"
| "recorder_crypto_strerror RECORDER_CRYPTO_ERR_MEMORY = ''cryptography allocation failed''"
| "recorder_crypto_strerror RECORDER_CRYPTO_ERR_IO = ''unable to open key file''"
| "recorder_crypto_strerror RECORDER_CRYPTO_ERR_KEY_FORMAT = ''invalid or encrypted PEM key''"
| "recorder_crypto_strerror RECORDER_CRYPTO_ERR_KEY_TYPE = ''key is not an RSA key''"
| "recorder_crypto_strerror RECORDER_CRYPTO_ERR_LENGTH = ''cryptography input is too large''"
| "recorder_crypto_strerror RECORDER_CRYPTO_ERR_RANDOM = ''secure random generation failed''"
| "recorder_crypto_strerror RECORDER_CRYPTO_ERR_ENCRYPT = ''encryption failed''"
| "recorder_crypto_strerror RECORDER_CRYPTO_ERR_DECRYPT = ''decryption failed''"
| "recorder_crypto_strerror RECORDER_CRYPTO_ERR_AUTHENTICATION = ''ciphertext authentication failed''"
| "recorder_crypto_strerror RECORDER_CRYPTO_ERR_WRAPPED_KEY = ''wrapped data key is invalid''"

subsection \<open>Documented behaviour of the libraries, as named predicates\<close>

definition rand_ok :: "lib \<Rightarrow> bool" where
  "rand_ok L \<longleftrightarrow> (\<forall>k n bs. RAND_bytes L k n = Some bs \<longrightarrow> length bs = n)"

definition gcm_ok :: "lib \<Rightarrow> bool" where
  "gcm_ok L \<longleftrightarrow>
     (\<forall>dek nonce aad pt ct tag. EVP_aes_256_gcm_encrypt L dek nonce aad pt = Some (ct, tag) \<longrightarrow>
        length ct = length pt \<and> length tag = 16 \<and>
        EVP_aes_256_gcm_decrypt L dek nonce aad ct tag = Some pt)"

definition rsa_pair :: "lib \<Rightarrow> pkey \<Rightarrow> pkey \<Rightarrow> bool" where
  "rsa_pair L pub priv \<longleftrightarrow>
     (\<forall>m c. EVP_PKEY_encrypt L pub m = Some c \<longrightarrow> c \<noteq> [] \<and> EVP_PKEY_decrypt L priv c = Some m)"

subsection \<open>Lemmas\<close>

lemma recorder_crypto_random_length:
  "rand_ok L \<Longrightarrow> recorder_crypto_random L k len = Inr bs \<Longrightarrow> length bs = len"
proof (induction L k len arbitrary: bs rule: recorder_crypto_random.induct)
  case (1 L k len)
  show ?case
  proof (cases "len = 0")
    case True
    with "1.prems" show ?thesis by (simp add: recorder_crypto_random.simps)
  next
    case False
    define chunk where "chunk = (if len > INT_MAX then INT_MAX else len)"
    from False "1.prems" obtain b rest where
      b: "RAND_bytes L k chunk = Some b" and
      rest: "recorder_crypto_random L (Suc k) (len - chunk) = Inr rest" and bs: "bs = b @ rest"
      by (simp add: recorder_crypto_random.simps [of L k len] chunk_def Let_def
          split: option.splits sum.splits if_splits)
    have "length rest = len - chunk"
      by (rule "1.IH" [OF False chunk_def b "1.prems"(1) rest])
    moreover have "length b = chunk"
      using "1.prems"(1) b by (auto simp: rand_ok_def)
    ultimately show ?thesis
      using bs by (simp add: chunk_def)
  qed
qed

lemma aes_gcm_roundtrip:
  assumes "gcm_ok L" and "recorder_crypto_aes_gcm_encrypt L dek nonce aad pt = Inr (ct, tag)"
  shows "recorder_crypto_aes_gcm_decrypt L dek nonce aad ct tag = Inr pt"
    and "length ct = length pt" and "length tag = 16"
proof -
  from assms(2) have fit: "lengths_fit_evp (length aad) (length pt)"
    and e: "EVP_aes_256_gcm_encrypt L dek nonce aad pt = Some (ct, tag)"
    and outl: "evp_outl aad pt = length pt"
    by (auto simp: recorder_crypto_aes_gcm_encrypt_def split: if_splits option.splits)
  from assms(1) e show len: "length ct = length pt" and "length tag = 16"
    by (auto simp: gcm_ok_def)
  have "evp_outl aad ct = length ct"
    using outl len by (auto simp: evp_outl_def Let_def split: if_splits)
  then show "recorder_crypto_aes_gcm_decrypt L dek nonce aad ct tag = Inr pt"
    using assms(1) e fit len by (auto simp: recorder_crypto_aes_gcm_decrypt_def gcm_ok_def)
qed

lemma unwrap_wrap:
  assumes "rsa_pair L pub priv" and "recorder_crypto_wrap_dek L pub dek = Inr wrapped"
    and "length dek = 32"
  shows "recorder_crypto_unwrap_dek L priv wrapped = Inr dek"
  using assms
  by (auto simp: rsa_pair_def recorder_crypto_wrap_dek_def recorder_crypto_unwrap_dek_def
      split: option.splits)

end
