(* ===== verification/Segment.thy ===== *)
theory Segment
  imports Helper Crypto
begin

text \<open>
  \<^verbatim>\<open>src/segment.h\<close> and the writers and header parser of \<^verbatim>\<open>src/segment.c\<close>. Sizes and
  offsets (\<^verbatim>\<open>size_t\<close>) are natural numbers, every subtraction under the guard the code
  checks first; values stored on disk keep their width. A pointer that may be NULL is an
  option. Allocation is taken to succeed.
\<close>

subsection \<open>Constants and types of \<open>segment.h\<close>\<close>

definition RECORDER_SEGMENT_MAGIC :: "byte list" where
  "RECORDER_SEGMENT_MAGIC = str_bytes ''RECSEG01''"

definition RECORDER_SEGMENT_FOOTER_MAGIC :: "byte list" where
  "RECORDER_SEGMENT_FOOTER_MAGIC = str_bytes ''RECEND01''"

definition SEGMENT_ENCRYPTION_EXTENSION_MAGIC :: "byte list" where
  "SEGMENT_ENCRYPTION_EXTENSION_MAGIC = str_bytes ''RECENC01''"

abbreviation (input) RECORDER_SEGMENT_VERSION :: u32 where "RECORDER_SEGMENT_VERSION \<equiv> 1"
abbreviation (input) SEGMENT_ENCRYPTION_EXTENSION_VERSION :: u32 where
  "SEGMENT_ENCRYPTION_EXTENSION_VERSION \<equiv> 1"
abbreviation (input) RECORDER_BOOT_ID_SIZE :: nat where "RECORDER_BOOT_ID_SIZE \<equiv> 32"
abbreviation (input) RECORDER_SEGMENT_TZ_SIZE :: nat where "RECORDER_SEGMENT_TZ_SIZE \<equiv> 64"
abbreviation (input) SEGMENT_HEADER_FIXED_SIZE :: nat where "SEGMENT_HEADER_FIXED_SIZE \<equiv> 152"
abbreviation (input) SEGMENT_FRAME_HEADER_SIZE :: nat where "SEGMENT_FRAME_HEADER_SIZE \<equiv> 16"
abbreviation (input) SEGMENT_ENCRYPTION_EXTENSION_FIXED_SIZE :: nat where
  "SEGMENT_ENCRYPTION_EXTENSION_FIXED_SIZE \<equiv> 32"
abbreviation (input) SEGMENT_DEK_SIZE :: nat where "SEGMENT_DEK_SIZE \<equiv> 32"
abbreviation (input) SEGMENT_NONCE_PREFIX_SIZE :: nat where "SEGMENT_NONCE_PREFIX_SIZE \<equiv> 4"
abbreviation (input) SEGMENT_GCM_TAG_SIZE :: nat where "SEGMENT_GCM_TAG_SIZE \<equiv> 16"
abbreviation (input) SEGMENT_KEY_WRAP_RSA_OAEP_SHA256 :: u32 where
  "SEGMENT_KEY_WRAP_RSA_OAEP_SHA256 \<equiv> 1"
abbreviation (input) SEGMENT_CIPHER_AES_256_GCM :: u32 where "SEGMENT_CIPHER_AES_256_GCM \<equiv> 1"
abbreviation (input) SEGMENT_FOOTER_SIZE :: nat where "SEGMENT_FOOTER_SIZE \<equiv> 48"

abbreviation (input) SEGMENT_FLAG_HAS_STATIC_DICT :: u32 where "SEGMENT_FLAG_HAS_STATIC_DICT \<equiv> 1"
abbreviation (input) SEGMENT_FLAG_WHOLE_COMPRESSED :: u32 where "SEGMENT_FLAG_WHOLE_COMPRESSED \<equiv> 2"
abbreviation (input) SEGMENT_FLAG_COMPACT_ENTRIES :: u32 where "SEGMENT_FLAG_COMPACT_ENTRIES \<equiv> 4"
abbreviation (input) SEGMENT_FLAG_ENCRYPTED :: u32 where "SEGMENT_FLAG_ENCRYPTED \<equiv> 8"
abbreviation (input) SEGMENT_FRAME_FLAG_NONE :: u32 where "SEGMENT_FRAME_FLAG_NONE \<equiv> 0"
abbreviation (input) SEGMENT_FRAME_FLAG_ZSTD :: u32 where "SEGMENT_FRAME_FLAG_ZSTD \<equiv> 1"
abbreviation (input) SEGMENT_FOOTER_FLAG_HAS_SIGNATURE :: u32 where
  "SEGMENT_FOOTER_FLAG_HAS_SIGNATURE \<equiv> 1"
abbreviation (input) SEGMENT_FOOTER_FLAG_REALTIME_NONMONOTONIC :: u32 where
  "SEGMENT_FOOTER_FLAG_REALTIME_NONMONOTONIC \<equiv> 2"

record SegmentHeader =
  sh_flags :: u32
  sh_segment_seq :: u64
  sh_boot_seq :: u32
  sh_boot_id :: "byte list"
  sh_timezone :: "byte list"
  sh_first_realtime_ts :: u64
  sh_first_monotonic_ts :: u64
  sh_dict_len :: u32

record SegmentFrameInfo =
  fi_flags :: u32
  fi_stored_len :: u32
  fi_uncompressed_len :: u32
  fi_file_offset :: u64
  fi_frame_len :: u32

record SegmentFooter =
  ft_flags :: u32
  ft_rotation_reason :: u32
  ft_entry_count :: u64
  ft_last_realtime_ts :: u64
  ft_last_monotonic_ts :: u64
  ft_present :: bool

record SegmentEncryptor =
  se_public_key :: pkey
  se_dek :: "byte list"
  se_nonce_prefix :: "byte list"
  se_frame_index :: u64
  se_initialized :: bool

record SegmentEncryptionInfo =
  ei_wrapped_dek :: "byte list"
  ei_nonce_prefix :: "byte list"

definition empty_footer :: SegmentFooter where
  "empty_footer =
     \<lparr>ft_flags = 0, ft_rotation_reason = 0, ft_entry_count = 0, ft_last_realtime_ts = 0,
      ft_last_monotonic_ts = 0, ft_present = False\<rparr>"

definition encrypted :: "SegmentHeader \<Rightarrow> bool" where
  "encrypted header \<longleftrightarrow> sh_flags header AND SEGMENT_FLAG_ENCRYPTED \<noteq> 0"

subsection \<open>Writing\<close>

definition segment_encryptor_create :: "lib \<Rightarrow> string \<Rightarrow> errno + SegmentEncryptor" where
  "segment_encryptor_create L public_key_pem_path =
     (case recorder_public_key_load_pem L public_key_pem_path of
        Inl _ \<Rightarrow> Inl EOTHER
      | Inr key \<Rightarrow>
          Inr \<lparr>se_public_key = key, se_dek = replicate SEGMENT_DEK_SIZE 0,
               se_nonce_prefix = replicate SEGMENT_NONCE_PREFIX_SIZE 0,
               se_frame_index = 0, se_initialized = False\<rparr>)"

definition segment_decryptor_create :: "lib \<Rightarrow> string \<Rightarrow> errno + pkey" where
  "segment_decryptor_create L private_key_pem_path =
     (case recorder_private_key_load_pem L private_key_pem_path of
        Inl _ \<Rightarrow> Inl EOTHER
      | Inr key \<Rightarrow> Inr key)"

definition write_all :: "byte list \<Rightarrow> FILE \<Rightarrow> bool \<times> FILE" where
  "write_all buf fp = (case fwrite buf fp of (n, fp') \<Rightarrow> (n = length buf, fp'))"

fun write_seq :: "byte list list \<Rightarrow> FILE \<Rightarrow> bool \<times> FILE" where
  "write_seq [] fp = (True, fp)"
| "write_seq (b # bs) fp =
     (case write_all b fp of (ok, fp') \<Rightarrow> if ok then write_seq bs fp' else (False, fp'))"

definition nonempty :: "byte list \<Rightarrow> byte list list" where
  "nonempty bs = (if length bs \<noteq> 0 then [bs] else [])"

definition segment_header_encoded_size :: nat where
  "segment_header_encoded_size = SEGMENT_HEADER_FIXED_SIZE"

definition segment_footer_encoded_size :: nat where
  "segment_footer_encoded_size = SEGMENT_FOOTER_SIZE"

text \<open>The fixed header up to its checksum, and the encryption extension.\<close>

definition header_fields :: "SegmentHeader \<Rightarrow> nat \<Rightarrow> nat \<Rightarrow> byte list" where
  "header_fields header dict_len extension_len =
     (let buf = replicate SEGMENT_HEADER_FIXED_SIZE 0;
          buf = put 0 RECORDER_SEGMENT_MAGIC buf;
          buf = put 8 (write_u32_le RECORDER_SEGMENT_VERSION) buf;
          buf = put 12 (write_u32_le (of_nat SEGMENT_HEADER_FIXED_SIZE + of_nat extension_len)) buf;
          buf = put 16 (write_u32_le (sh_flags header)) buf;
          buf = put 20 (write_u64_le (sh_segment_seq header)) buf;
          buf = put 28 (write_u32_le (sh_boot_seq header)) buf;
          buf = put 32 (replicate RECORDER_BOOT_ID_SIZE 0) buf;
          buf = put 32 (take (strnlen (sh_boot_id header) RECORDER_BOOT_ID_SIZE)
                          (sh_boot_id header)) buf;
          buf = put 64 (replicate RECORDER_SEGMENT_TZ_SIZE 0) buf;
          buf = put 64 (take (strnlen (sh_timezone header) (RECORDER_SEGMENT_TZ_SIZE - 1))
                          (sh_timezone header)) buf;
          buf = put 128 (write_u64_le (sh_first_realtime_ts header)) buf;
          buf = put 136 (write_u64_le (sh_first_monotonic_ts header)) buf;
          buf = put 144 (write_u32_le (of_nat dict_len)) buf
      in buf)"

definition header_crc :: "byte list \<Rightarrow> byte list \<Rightarrow> u32" where
  "header_crc buf extension =
     (let crc = recorder_crc32 (take 148 buf)
      in if length extension \<noteq> 0 then crc XOR recorder_crc32 extension else crc)"

definition header_buf :: "SegmentHeader \<Rightarrow> nat \<Rightarrow> byte list \<Rightarrow> byte list" where
  "header_buf header dict_len extension =
     (let buf = header_fields header dict_len (length extension)
      in put 148 (write_u32_le (header_crc buf extension)) buf)"

definition encryption_extension :: "byte list \<Rightarrow> byte list \<Rightarrow> byte list" where
  "encryption_extension nonce_prefix wrapped_dek =
     (let extension_len = SEGMENT_ENCRYPTION_EXTENSION_FIXED_SIZE +
            SEGMENT_NONCE_PREFIX_SIZE + length wrapped_dek;
          ext = replicate extension_len 0;
          ext = put 0 SEGMENT_ENCRYPTION_EXTENSION_MAGIC ext;
          ext = put 8 (write_u32_le SEGMENT_ENCRYPTION_EXTENSION_VERSION) ext;
          ext = put 12 (write_u32_le (of_nat extension_len)) ext;
          ext = put 16 (write_u32_le SEGMENT_KEY_WRAP_RSA_OAEP_SHA256) ext;
          ext = put 20 (write_u32_le SEGMENT_CIPHER_AES_256_GCM) ext;
          ext = put 24 (write_u32_le (of_nat (length wrapped_dek))) ext;
          ext = put 28 (write_u32_le (of_nat SEGMENT_NONCE_PREFIX_SIZE)) ext;
          ext = put 32 nonce_prefix ext;
          ext = put 36 wrapped_dek ext
      in ext)"

text \<open>The key material of one segment: a fresh DEK, a fresh nonce prefix, the wrapped DEK.\<close>

definition header_key_material ::
    "lib \<Rightarrow> nat \<Rightarrow> pkey \<Rightarrow> errno + (byte list \<times> byte list \<times> byte list)" where
  "header_key_material L k public_key =
     (case recorder_crypto_random L k SEGMENT_DEK_SIZE of
        Inl _ \<Rightarrow> Inl EOTHER
      | Inr dek \<Rightarrow>
          (case recorder_crypto_random L (Suc k) SEGMENT_NONCE_PREFIX_SIZE of
             Inl _ \<Rightarrow> Inl EOTHER
           | Inr nonce_prefix \<Rightarrow>
               (case recorder_crypto_wrap_dek L public_key dek of
                  Inl _ \<Rightarrow> Inl EOTHER
                | Inr wrapped_dek \<Rightarrow>
                    if length wrapped_dek > UINT32_MAX - SEGMENT_HEADER_FIXED_SIZE -
                         SEGMENT_ENCRYPTION_EXTENSION_FIXED_SIZE - SEGMENT_NONCE_PREFIX_SIZE
                    then Inl EOVERFLOW
                    else Inr (dek, nonce_prefix, wrapped_dek))))"

definition segment_write_header ::
    "lib \<Rightarrow> nat \<Rightarrow> FILE \<Rightarrow> SegmentHeader \<Rightarrow> byte list \<Rightarrow> SegmentEncryptor option \<Rightarrow>
     (errno + unit) \<times> FILE \<times> SegmentEncryptor option" where
  "segment_write_header L k fp header dict_bytes encryptor =
     (if length dict_bytes > UINT32_MAX then (Inl EOVERFLOW, fp, encryptor)
      else if encrypted header \<noteq> (encryptor \<noteq> None) then (Inl EINVAL, fp, encryptor)
      else case encryptor of
        None \<Rightarrow>
          (case write_seq (header_buf header (length dict_bytes) [] # nonempty dict_bytes) fp of
             (ok, fp') \<Rightarrow> (if ok then Inr () else Inl EOTHER, fp', None))
      | Some e \<Rightarrow>
          (let e0 = e\<lparr>se_initialized := False, se_dek := replicate SEGMENT_DEK_SIZE 0\<rparr> in
           case header_key_material L k (se_public_key e) of
             Inl er \<Rightarrow> (Inl er, fp, Some e0)
           | Inr (dek, nonce_prefix, wrapped_dek) \<Rightarrow>
               (let extension = encryption_extension nonce_prefix wrapped_dek in
                case write_seq (header_buf header (length dict_bytes) extension #
                                nonempty extension @ nonempty dict_bytes) fp of
                  (ok, fp') \<Rightarrow>
                    if ok
                    then (Inr (), fp', Some (e0\<lparr>se_dek := dek, se_nonce_prefix := nonce_prefix,
                            se_frame_index := 0, se_initialized := True\<rparr>))
                    else (Inl EOTHER, fp', Some e0))))"

definition frame_header :: "u32 \<Rightarrow> u32 \<Rightarrow> u32 \<Rightarrow> u32 \<Rightarrow> byte list" where
  "frame_header flags stored_len uncompressed_len frame_len =
     write_u32_le flags @ write_u32_le stored_len @ write_u32_le uncompressed_len @
     write_u32_le frame_len"

text \<open>The nonce of a frame: the segment's prefix and the frame index, big endian.\<close>

definition frame_nonce :: "byte list \<Rightarrow> u64 \<Rightarrow> byte list" where
  "frame_nonce nonce_prefix frame_index =
     nonce_prefix @ map (\<lambda>i. ucast (drop_bit (56 - i * 8) frame_index)) [0..<8]"

text \<open>The arguments \<^verbatim>\<open>payload\<close> and \<^verbatim>\<open>stored_len\<close> are one list of at most \<^verbatim>\<open>UINT32_MAX\<close> bytes.\<close>

definition segment_write_frame ::
    "lib \<Rightarrow> FILE \<Rightarrow> SegmentEncryptor option \<Rightarrow> u32 \<Rightarrow> byte list \<Rightarrow> u32 \<Rightarrow>
     (errno + unit) \<times> FILE \<times> SegmentEncryptor option" where
  "segment_write_frame L fp encryptor flags payload uncompressed_len =
     (if (case encryptor of None \<Rightarrow> False | Some e \<Rightarrow> \<not> se_initialized e)
      then (Inl EINVAL, fp, encryptor)
      else
        let stored_len = length payload;
            trailer_size = 4 + (if encryptor \<noteq> None then SEGMENT_GCM_TAG_SIZE else 0)
        in if stored_len > UINT32_MAX - SEGMENT_FRAME_HEADER_SIZE - trailer_size
           then (Inl EOVERFLOW, fp, encryptor)
           else
             let header = frame_header flags (of_nat stored_len) uncompressed_len
                   (of_nat (SEGMENT_FRAME_HEADER_SIZE + stored_len + trailer_size))
             in case encryptor of
                  None \<Rightarrow>
                    (let crc = recorder_crc32 header XOR recorder_crc32 payload in
                     case write_seq [header, payload, write_u32_le crc] fp of
                       (ok, fp') \<Rightarrow> (if ok then Inr () else Inl EOTHER, fp', None))
                | Some e \<Rightarrow>
                    if se_frame_index e = UINT64_MAX then (Inl EOVERFLOW, fp, encryptor)
                    else
                      (let e' = e\<lparr>se_frame_index := se_frame_index e + 1\<rparr>;
                           nonce = frame_nonce (se_nonce_prefix e) (se_frame_index e)
                       in case recorder_crypto_aes_gcm_encrypt L (se_dek e) nonce header payload of
                            Inl _ \<Rightarrow> (Inl EOTHER, fp, Some e')
                          | Inr (encrypted_payload, tag) \<Rightarrow>
                              (let crc = recorder_crc32 header XOR recorder_crc32 encrypted_payload
                                     XOR recorder_crc32 tag in
                               case write_seq [header, encrypted_payload, tag, write_u32_le crc] fp of
                                 (ok, fp') \<Rightarrow> (if ok then Inr () else Inl EOTHER, fp', Some e'))))"

definition footer_fields :: "SegmentFooter \<Rightarrow> byte list" where
  "footer_fields footer =
     (let buf = replicate SEGMENT_FOOTER_SIZE 0;
          buf = put 0 (write_u32_le (ft_flags footer)) buf;
          buf = put 4 (write_u32_le (ft_rotation_reason footer)) buf;
          buf = put 8 (write_u64_le (ft_entry_count footer)) buf;
          buf = put 16 (write_u64_le (ft_last_realtime_ts footer)) buf;
          buf = put 24 (write_u64_le (ft_last_monotonic_ts footer)) buf;
          buf = put 32 (write_u32_le 0) buf;
          buf = put 36 (write_u32_le RECORDER_SEGMENT_VERSION) buf;
          buf = put 40 RECORDER_SEGMENT_FOOTER_MAGIC buf
      in buf)"

definition footer_buf :: "SegmentFooter \<Rightarrow> byte list" where
  "footer_buf footer =
     (let buf = footer_fields footer
      in put 32 (write_u32_le (recorder_crc32 buf)) buf)"

definition segment_write_footer :: "FILE \<Rightarrow> SegmentFooter \<Rightarrow> (errno + unit) \<times> FILE" where
  "segment_write_footer fp footer =
     (if ft_flags footer AND SEGMENT_FOOTER_FLAG_HAS_SIGNATURE \<noteq> 0 then (Inl ENOTSUP, fp)
      else case write_all (footer_buf footer) fp of
        (ok, fp') \<Rightarrow> (if ok then Inr () else Inl EOTHER, fp'))"

subsection \<open>Parsing a header\<close>

definition parse_extension :: "byte list \<Rightarrow> SegmentEncryptionInfo option" where
  "parse_extension extension =
     (if length extension < SEGMENT_ENCRYPTION_EXTENSION_FIXED_SIZE + SEGMENT_NONCE_PREFIX_SIZE \<or>
         take 8 extension \<noteq> SEGMENT_ENCRYPTION_EXTENSION_MAGIC \<or>
         read_u32_le (drop 8 extension) \<noteq> SEGMENT_ENCRYPTION_EXTENSION_VERSION \<or>
         unat (read_u32_le (drop 12 extension)) \<noteq> length extension \<or>
         read_u32_le (drop 16 extension) \<noteq> SEGMENT_KEY_WRAP_RSA_OAEP_SHA256 \<or>
         read_u32_le (drop 20 extension) \<noteq> SEGMENT_CIPHER_AES_256_GCM
      then None
      else
        let wrapped_dek_len = unat (read_u32_le (drop 24 extension));
            nonce_prefix_len = unat (read_u32_le (drop 28 extension))
        in if nonce_prefix_len \<noteq> SEGMENT_NONCE_PREFIX_SIZE \<or> wrapped_dek_len = 0 \<or>
              wrapped_dek_len \<noteq> length extension - SEGMENT_ENCRYPTION_EXTENSION_FIXED_SIZE -
                nonce_prefix_len
           then None
           else Some \<lparr>ei_wrapped_dek = take wrapped_dek_len
                        (drop (SEGMENT_ENCRYPTION_EXTENSION_FIXED_SIZE + nonce_prefix_len) extension),
                      ei_nonce_prefix = take SEGMENT_NONCE_PREFIX_SIZE
                        (drop SEGMENT_ENCRYPTION_EXTENSION_FIXED_SIZE extension)\<rparr>)"

definition no_encryption :: SegmentEncryptionInfo where
  "no_encryption =
     \<lparr>ei_wrapped_dek = [], ei_nonce_prefix = replicate SEGMENT_NONCE_PREFIX_SIZE 0\<rparr>"

definition header_of_bytes :: "byte list \<Rightarrow> SegmentHeader" where
  "header_of_bytes bytes =
     \<lparr>sh_flags = read_u32_le (drop 16 bytes),
      sh_segment_seq = read_u64_le (drop 20 bytes),
      sh_boot_seq = read_u32_le (drop 28 bytes),
      sh_boot_id = take RECORDER_BOOT_ID_SIZE (drop 32 bytes) @ [0],
      sh_timezone = take (RECORDER_SEGMENT_TZ_SIZE - 1) (drop 64 bytes) @ [0],
      sh_first_realtime_ts = read_u64_le (drop 128 bytes),
      sh_first_monotonic_ts = read_u64_le (drop 136 bytes),
      sh_dict_len = read_u32_le (drop 144 bytes)\<rparr>"

definition segment_parse_header ::
    "byte list \<Rightarrow> (SegmentHeader \<times> nat \<times> SegmentEncryptionInfo) option" where
  "segment_parse_header buf =
     (if length buf < SEGMENT_HEADER_FIXED_SIZE then None
      else if take 8 buf \<noteq> RECORDER_SEGMENT_MAGIC then None
      else if read_u32_le (drop 8 buf) \<noteq> RECORDER_SEGMENT_VERSION then None
      else
        let header_size = unat (read_u32_le (drop 12 buf)) in
        if header_size < SEGMENT_HEADER_FIXED_SIZE \<or> header_size > length buf then None
        else
          let header = header_of_bytes buf;
              extension = take (header_size - SEGMENT_HEADER_FIXED_SIZE)
                (drop SEGMENT_HEADER_FIXED_SIZE buf)
          in case (if encrypted header then parse_extension extension
                   else if length extension \<noteq> 0 then None else Some no_encryption) of
               None \<Rightarrow> None
             | Some encryption \<Rightarrow>
                 if read_u32_le (drop 148 buf) \<noteq> header_crc buf extension then None
                 else if unat (sh_dict_len header) > length buf - header_size then None
                 else Some (header, header_size + unat (sh_dict_len header), encryption))"

definition segment_read_header :: "byte list \<Rightarrow> (SegmentHeader \<times> nat) option" where
  "segment_read_header buf =
     (case segment_parse_header buf of
        None \<Rightarrow> None
      | Some (header, offset, _) \<Rightarrow> Some (header, offset))"

text \<open>
  Reading the header of a file without mapping it: the fixed part first, then exactly
  the metadata it announces. The third component is the size of the file.
\<close>

definition read_metadata :: "byte list \<Rightarrow> byte list option" where
  "read_metadata file =
     (if length file < SEGMENT_HEADER_FIXED_SIZE then None
      else
        let fixed = take SEGMENT_HEADER_FIXED_SIZE file;
            header_size = unat (read_u32_le (drop 12 fixed));
            dict_len = unat (read_u32_le (drop 144 fixed))
        in if header_size < SEGMENT_HEADER_FIXED_SIZE \<or> header_size > length file \<or>
              dict_len > length file - header_size
           then None
           else Some (take (header_size + dict_len) file))"

definition segment_read_path_header :: "byte list \<Rightarrow> (SegmentHeader \<times> nat \<times> nat) option" where
  "segment_read_path_header file =
     (case read_metadata file of
        None \<Rightarrow> None
      | Some metadata \<Rightarrow>
          (case segment_parse_header metadata of
             None \<Rightarrow> None
           | Some (header, data_offset, _) \<Rightarrow> Some (header, data_offset, length file)))"


subsection \<open>Layout of the written structures\<close>

lemma length_magic [simp, layout]:
  "length RECORDER_SEGMENT_MAGIC = 8" "length RECORDER_SEGMENT_FOOTER_MAGIC = 8"
  "length SEGMENT_ENCRYPTION_EXTENSION_MAGIC = 8"
  by (simp_all add: RECORDER_SEGMENT_MAGIC_def RECORDER_SEGMENT_FOOTER_MAGIC_def
      SEGMENT_ENCRYPTION_EXTENSION_MAGIC_def)

definition pad :: "nat \<Rightarrow> byte list \<Rightarrow> byte list" where
  "pad n bs = bs @ replicate (n - length bs) 0"

lemma length_pad [simp]: "length bs \<le> n \<Longrightarrow> length (pad n bs) = n"
  by (simp add: pad_def)

abbreviation boot_id_bytes :: "SegmentHeader \<Rightarrow> byte list" where
  "boot_id_bytes h \<equiv> pad 32 (take (strnlen (sh_boot_id h) 32) (sh_boot_id h))"

abbreviation timezone_bytes :: "SegmentHeader \<Rightarrow> byte list" where
  "timezone_bytes h \<equiv> pad 64 (take (strnlen (sh_timezone h) 63) (sh_timezone h))"

lemma length_take_strnlen: "length (take (strnlen s n) s) \<le> n"
  unfolding length_take by (rule min.coboundedI2) (rule strnlen_le)

lemma strnlen_63_le_64 [simp]: "strnlen s 63 \<le> 64" "strnlen s (64 - 1) \<le> 64"
  by (rule order_trans [OF strnlen_le]; simp)+

lemma length_text_fields [simp]: "length (boot_id_bytes h) = 32" "length (timezone_bytes h) = 64"
  by (simp_all add: min.coboundedI2)

definition header_prefix :: "SegmentHeader \<Rightarrow> nat \<Rightarrow> nat \<Rightarrow> byte list" where
  "header_prefix h dict_len extension_len =
     RECORDER_SEGMENT_MAGIC @ write_u32_le 1 @ write_u32_le (152 + of_nat extension_len) @
     write_u32_le (sh_flags h) @ write_u64_le (sh_segment_seq h) @ write_u32_le (sh_boot_seq h) @
     boot_id_bytes h @ timezone_bytes h @
     write_u64_le (sh_first_realtime_ts h) @ write_u64_le (sh_first_monotonic_ts h) @
     write_u32_le (of_nat dict_len)"

lemma length_header_prefix [simp]: "length (header_prefix h d e) = 148"
  by (simp add: header_prefix_def del: append_assoc)

lemma header_fields_layout:
  "header_fields h dict_len extension_len = header_prefix h dict_len extension_len @ replicate 4 0"
proof -
  have z: "put 32 (take (strnlen (sh_boot_id h) 32) (sh_boot_id h)) (put 32 (replicate 32 0) buf) =
      put 32 (boot_id_bytes h) buf" if "length buf = 152" for buf
    unfolding pad_def using that by (subst put_over_zeros) (simp_all add: min.coboundedI2)
  have t: "put 64 (take (strnlen (sh_timezone h) 63) (sh_timezone h)) (put 64 (replicate 64 0) buf) =
      put 64 (timezone_bytes h) buf" if "length buf = 152" for buf
    unfolding pad_def using that by (subst put_over_zeros) (simp_all add: min.coboundedI2)
  show ?thesis
    unfolding header_fields_def Let_def header_prefix_def
    by (simp add: z t del: append_assoc) (simp add: put_start put_zeros del: append_assoc)
qed

lemma header_buf_layout:
  "header_buf h dict_len ext =
     header_prefix h dict_len (length ext) @
     write_u32_le (header_crc (header_prefix h dict_len (length ext)) ext)"
  unfolding header_buf_def Let_def header_fields_layout
  by (simp add: put_append header_crc_def)

lemma length_header_buf [simp]: "length (header_buf h d ext) = 152"
  by (simp add: header_buf_layout)

lemma extension_layout:
  assumes "length nonce_prefix = 4"
  shows "encryption_extension nonce_prefix wrapped_dek =
     SEGMENT_ENCRYPTION_EXTENSION_MAGIC @ write_u32_le 1 @
     write_u32_le (of_nat (36 + length wrapped_dek)) @ write_u32_le 1 @ write_u32_le 1 @
     write_u32_le (of_nat (length wrapped_dek)) @ write_u32_le 4 @ nonce_prefix @ wrapped_dek"
  unfolding encryption_extension_def Let_def
  using assms by (simp add: put_start put_zeros del: append_assoc of_nat_add)

lemma length_extension [simp]:
  "length nonce_prefix = 4 \<Longrightarrow> length (encryption_extension nonce_prefix w) = 36 + length w"
  by (simp add: extension_layout)

lemma footer_fields_layout:
  "footer_fields f =
     write_u32_le (ft_flags f) @ write_u32_le (ft_rotation_reason f) @
     write_u64_le (ft_entry_count f) @ write_u64_le (ft_last_realtime_ts f) @
     write_u64_le (ft_last_monotonic_ts f) @ write_u32_le 0 @ write_u32_le 1 @
     RECORDER_SEGMENT_FOOTER_MAGIC"
  unfolding footer_fields_def Let_def
  by (simp add: put_start put_zeros del: append_assoc)

lemma footer_buf_layout:
  "footer_buf f =
     write_u32_le (ft_flags f) @ write_u32_le (ft_rotation_reason f) @
     write_u64_le (ft_entry_count f) @ write_u64_le (ft_last_realtime_ts f) @
     write_u64_le (ft_last_monotonic_ts f) @ write_u32_le (recorder_crc32 (footer_fields f)) @
     write_u32_le 1 @ RECORDER_SEGMENT_FOOTER_MAGIC"
  by (simp add: footer_buf_def footer_fields_layout put_def)

lemma length_footer_buf [simp]: "length (footer_buf f) = 48"
  by (simp add: footer_buf_layout)

subsection \<open>Header round trip\<close>

text \<open>
  The header a reader sees: the text fields cut at their first NUL or at their capacity and
  padded with NULs, the dictionary length of the bytes really written.
\<close>

definition stored_header :: "SegmentHeader \<Rightarrow> nat \<Rightarrow> SegmentHeader" where
  "stored_header h dict_len =
     h\<lparr>sh_boot_id := boot_id_bytes h @ [0],
       sh_timezone := pad 63 (take (strnlen (sh_timezone h) 63) (sh_timezone h)) @ [0],
       sh_dict_len := of_nat dict_len\<rparr>"

lemma take_63_pad: "length bs \<le> 63 \<Longrightarrow> take 63 (pad 64 bs) = pad 63 bs"
  by (simp add: pad_def min_def)

lemma header_of_written:
  "header_of_bytes (header_buf h d ext @ rest) = stored_header h d"
proof -
  have tz: "take 63 (timezone_bytes h) = pad 63 (take (strnlen (sh_timezone h) 63) (sh_timezone h))"
    by (rule take_63_pad) (rule length_take_strnlen)
  show ?thesis
    unfolding header_of_bytes_def stored_header_def header_buf_layout header_prefix_def
    by (rule SegmentHeader.equality) (simp_all add: tz)
qed

lemma parse_extension_written:
  assumes "length nonce_prefix = 4" and "wrapped_dek \<noteq> []" and "length wrapped_dek \<le> UINT32_MAX - 188"
  shows "parse_extension (encryption_extension nonce_prefix wrapped_dek) =
    Some \<lparr>ei_wrapped_dek = wrapped_dek, ei_nonce_prefix = nonce_prefix\<rparr>"
proof -
  have l: "unat (of_nat (36 + length wrapped_dek) :: u32) = 36 + length wrapped_dek"
    "unat (of_nat (length wrapped_dek) :: u32) = length wrapped_dek"
    using assms(3) by (simp_all add: of_nat_inject_le del: of_nat_add)
  show ?thesis
    unfolding parse_extension_def length_extension [OF assms(1)] extension_layout [OF assms(1)]
    using assms l by (simp add: Let_def del: of_nat_add)
qed

lemma segment_parse_header_written:
  assumes ext: "if encrypted h then parse_extension ext = Some ei else ext = [] \<and> ei = no_encryption"
    and len: "length ext \<le> UINT32_MAX - 152" and dl: "length dict \<le> UINT32_MAX"
  shows "segment_parse_header (header_buf h (length dict) ext @ ext @ dict @ rest) =
    Some (stored_header h (length dict), 152 + length ext + length dict, ei)"
proof -
  let ?buf = "header_buf h (length dict) ext @ ext @ dict @ rest"
  have hs: "unat (152 + of_nat (length ext) :: u32) = 152 + length ext"
  proof -
    have "(152 + of_nat (length ext) :: u32) = of_nat (152 + length ext)" by simp
    then show ?thesis using len by (simp add: of_nat_inject_le del: of_nat_add)
  qed
  have d: "unat (of_nat (length dict) :: u32) = length dict"
    using dl by (simp add: of_nat_inject_le)
  have crc: "header_crc ?buf ext = header_crc (header_prefix h (length dict) (length ext)) ext"
    by (simp add: header_crc_def header_buf_layout)
  have enc: "encrypted (stored_header h (length dict)) = encrypted h"
    by (simp add: encrypted_def stored_header_def)
  have size: "unat (read_u32_le (drop 12 ?buf)) = 152 + length ext"
    and m: "take 8 ?buf = RECORDER_SEGMENT_MAGIC"
    and v: "read_u32_le (drop 8 ?buf) = 1"
    and c: "read_u32_le (drop 148 ?buf) = header_crc ?buf ext"
    unfolding crc by (simp_all add: header_buf_layout header_prefix_def hs)
  have e: "take (152 + length ext - 152) (drop 152 ?buf) = ext" by simp
  show ?thesis
    unfolding segment_parse_header_def Let_def header_of_written size m v e enc c
    using ext d by (auto simp: stored_header_def)
qed

end
