(* ===== verification/Segment_Scan.thy ===== *)
theory Segment_Scan
  imports Segment
begin

text \<open>
  The readers of \<^verbatim>\<open>src/segment.c\<close>: the sequential scan that recovery, the player and the
  index builder share, and the random access to one indexed frame. The callback of a scan
  is a function on an explicit context; \<^verbatim>\<open>None\<close> is the NULL callback of a metadata-only
  scan. The loop is total: an accepted frame is at least 20 bytes long.
\<close>

type_synonym 'c segment_frame_cb =
  "SegmentHeader \<Rightarrow> SegmentFrameInfo \<Rightarrow> byte list \<Rightarrow> 'c \<Rightarrow> int \<times> 'c"

datatype scan_error = ScanMalformed | ScanErrno errno | ScanCallback int

subsection \<open>Payload decoding\<close>

definition decompress_payload ::
    "lib \<Rightarrow> SegmentHeader \<Rightarrow> byte list \<Rightarrow> SegmentFrameInfo \<Rightarrow> byte list \<Rightarrow> byte list option" where
  "decompress_payload L header dict_bytes frame payload =
     (if fi_flags frame AND SEGMENT_FRAME_FLAG_ZSTD = 0
      then Some (take (unat (fi_stored_len frame)) payload)
      else
        case (if sh_flags header AND SEGMENT_FLAG_HAS_STATIC_DICT \<noteq> 0 \<and> sh_dict_len header \<noteq> 0
              then ZSTD_decompress_usingDict L dict_bytes
                     (take (unat (fi_stored_len frame)) payload) (unat (fi_uncompressed_len frame))
              else ZSTD_decompress L
                     (take (unat (fi_stored_len frame)) payload) (unat (fi_uncompressed_len frame))) of
          None \<Rightarrow> None
        | Some decoded \<Rightarrow>
            if length decoded \<noteq> unat (fi_uncompressed_len frame) then None else Some decoded)"

definition chunk_verify :: "lib \<Rightarrow> SegmentHeader \<Rightarrow> byte list \<Rightarrow> bool" where
  "chunk_verify L header chunk =
     (if sh_flags header AND SEGMENT_FLAG_COMPACT_ENTRIES \<noteq> 0
      then journal_DefaultChunk_verify_as_root L chunk
      else journal_Chunk_verify_as_root L chunk)"

definition tag_len :: "SegmentHeader \<Rightarrow> nat" where
  "tag_len header = (if encrypted header then SEGMENT_GCM_TAG_SIZE else 0)"

text \<open>A damaged payload ends a plaintext scan and fails an encrypted one.\<close>

datatype payload = Chunk "byte list" | StopScan | FailScan errno

definition damaged :: "SegmentHeader \<Rightarrow> payload" where
  "damaged header = (if encrypted header then FailScan EIO else StopScan)"

definition frame_payload ::
    "lib \<Rightarrow> SegmentHeader \<Rightarrow> SegmentEncryptionInfo \<Rightarrow> byte list \<Rightarrow> byte list \<Rightarrow> u64 \<Rightarrow>
     SegmentFrameInfo \<Rightarrow> byte list \<Rightarrow> payload" where
  "frame_payload L header encryption dek dict_bytes frame_index frame p =
     (let n = unat (fi_stored_len frame);
          stored = take n (drop SEGMENT_FRAME_HEADER_SIZE p);
          tag = take SEGMENT_GCM_TAG_SIZE (drop (SEGMENT_FRAME_HEADER_SIZE + n) p)
      in case (if encrypted header
               then recorder_crypto_aes_gcm_decrypt L dek
                      (frame_nonce (ei_nonce_prefix encryption) frame_index)
                      (take SEGMENT_FRAME_HEADER_SIZE p) stored tag
               else Inr stored) of
           Inl _ \<Rightarrow> FailScan EIO
         | Inr payload \<Rightarrow>
             (case decompress_payload L header dict_bytes frame payload of
                None \<Rightarrow> damaged header
              | Some chunk \<Rightarrow> if chunk_verify L header chunk then Chunk chunk else damaged header))"

subsection \<open>Frames and footers at an offset\<close>

definition footer_at :: "byte list \<Rightarrow> SegmentFooter option" where
  "footer_at p =
     (if length p \<ge> SEGMENT_FOOTER_SIZE \<and>
         take 8 (drop 40 p) = RECORDER_SEGMENT_FOOTER_MAGIC \<and>
         read_u32_le (drop 36 p) = RECORDER_SEGMENT_VERSION \<and>
         read_u32_le (drop 32 p) =
           recorder_crc32 (put 32 (write_u32_le 0) (take SEGMENT_FOOTER_SIZE p))
      then Some \<lparr>ft_flags = read_u32_le p, ft_rotation_reason = read_u32_le (drop 4 p),
                 ft_entry_count = read_u64_le (drop 8 p),
                 ft_last_realtime_ts = read_u64_le (drop 16 p),
                 ft_last_monotonic_ts = read_u64_le (drop 24 p), ft_present = True\<rparr>
      else None)"

definition frame_info :: "byte list \<Rightarrow> nat \<Rightarrow> SegmentFrameInfo" where
  "frame_info p offset =
     \<lparr>fi_flags = read_u32_le p, fi_stored_len = read_u32_le (drop 4 p),
      fi_uncompressed_len = read_u32_le (drop 8 p), fi_file_offset = of_nat offset,
      fi_frame_len = read_u32_le (drop 12 p)\<rparr>"

definition frame_crc :: "SegmentHeader \<Rightarrow> nat \<Rightarrow> byte list \<Rightarrow> u32" where
  "frame_crc header stored_len p =
     (let calc_crc = recorder_crc32 (take SEGMENT_FRAME_HEADER_SIZE p) XOR
            recorder_crc32 (take stored_len (drop SEGMENT_FRAME_HEADER_SIZE p))
      in if encrypted header
         then calc_crc XOR recorder_crc32
                (take (tag_len header) (drop (SEGMENT_FRAME_HEADER_SIZE + stored_len) p))
         else calc_crc)"

text \<open>
  The checks between the footer test and the callback, in the order of the code: too few
  bytes for a frame, a length that contradicts the stored length, more bytes than are left,
  a wrong checksum.
\<close>

datatype frame_status = FrameShort | FrameBadLength | FrameBeyondEnd | FrameBadCrc | FrameOk

definition expected_len :: "SegmentHeader \<Rightarrow> SegmentFrameInfo \<Rightarrow> nat" where
  "expected_len header frame =
     SEGMENT_FRAME_HEADER_SIZE + unat (fi_stored_len frame) + tag_len header + 4"

definition frame_check :: "SegmentHeader \<Rightarrow> SegmentFrameInfo \<Rightarrow> byte list \<Rightarrow> frame_status" where
  "frame_check header frame p =
     (if length p < SEGMENT_FRAME_HEADER_SIZE + 4 + tag_len header then FrameShort
      else if expected_len header frame > UINT32_MAX \<or>
              unat (fi_frame_len frame) \<noteq> expected_len header frame then FrameBadLength
      else if unat (fi_frame_len frame) > length p then FrameBeyondEnd
      else if read_u32_le (drop (SEGMENT_FRAME_HEADER_SIZE + unat (fi_stored_len frame) +
                tag_len header) p) \<noteq> frame_crc header (unat (fi_stored_len frame)) p
      then FrameBadCrc
      else FrameOk)"

lemma frame_ok_progress:
  "frame_check header frame p = FrameOk \<Longrightarrow> 20 \<le> unat (fi_frame_len frame)"
  by (auto simp: frame_check_def expected_len_def split: if_splits)

lemma frame_ok_fits:
  "frame_check header frame p = FrameOk \<Longrightarrow> unat (fi_frame_len frame) \<le> length p"
  by (auto simp: frame_check_def split: if_splits)

subsection \<open>The scan loop\<close>

text \<open>
  The loop state is the offset, the frame index and the callback's context. The committed
  end always equals the offset where the loop stops (or the end of the footer).
\<close>

record 'c scan_env =
  env_lib :: lib
  env_header :: SegmentHeader
  env_encryption :: SegmentEncryptionInfo
  env_dek :: "byte list"
  env_dict :: "byte list"
  env_cb :: "'c segment_frame_cb option"
  env_min :: nat

definition frame_callback ::
    "'c scan_env \<Rightarrow> u64 \<Rightarrow> SegmentFrameInfo \<Rightarrow> byte list \<Rightarrow> nat \<Rightarrow> 'c \<Rightarrow>
     (scan_error + bool) \<times> 'c" where
  "frame_callback env frame_index frame p offset ctx =
     (case env_cb env of
        None \<Rightarrow> (Inr True, ctx)
      | Some cb \<Rightarrow>
          if offset < env_min env then (Inr True, ctx)
          else
            (case frame_payload (env_lib env) (env_header env) (env_encryption env)
                    (env_dek env) (env_dict env) frame_index frame p of
               FailScan e \<Rightarrow> (Inl (ScanErrno e), ctx)
             | StopScan \<Rightarrow> (Inr False, ctx)
             | Chunk chunk \<Rightarrow>
                 (case cb (env_header env) frame chunk ctx of
                    (cb_rv, ctx') \<Rightarrow>
                      (if cb_rv \<noteq> 0 then Inl (ScanCallback cb_rv) else Inr True, ctx'))))"

function segment_scan_loop ::
    "'c scan_env \<Rightarrow> byte list \<Rightarrow> nat \<Rightarrow> u64 \<Rightarrow> 'c \<Rightarrow>
     (scan_error + SegmentFooter \<times> nat) \<times> 'c" where
  "segment_scan_loop env buf offset frame_index ctx =
     (if offset < length buf
      then
        let p = drop offset buf; frame = frame_info p offset in
        case footer_at p of
          Some footer \<Rightarrow> (Inr (footer, offset + SEGMENT_FOOTER_SIZE), ctx)
        | None \<Rightarrow>
            (case frame_check (env_header env) frame p of
               FrameOk \<Rightarrow>
                 (case frame_callback env frame_index frame p offset ctx of
                    (Inl e, ctx') \<Rightarrow> (Inl e, ctx')
                  | (Inr False, ctx') \<Rightarrow> (Inr (empty_footer, offset), ctx')
                  | (Inr True, ctx') \<Rightarrow>
                      if encrypted (env_header env) \<and> frame_index = UINT64_MAX
                      then (Inl (ScanErrno EOVERFLOW), ctx')
                      else segment_scan_loop env buf (offset + unat (fi_frame_len frame))
                             (frame_index + 1) ctx')
             | FrameShort \<Rightarrow> (Inr (empty_footer, offset), ctx)
             | FrameBeyondEnd \<Rightarrow> (Inr (empty_footer, offset), ctx)
             | _ \<Rightarrow>
                 if encrypted (env_header env) then (Inl (ScanErrno EIO), ctx)
                 else (Inr (empty_footer, offset), ctx))
      else (Inr (empty_footer, offset), ctx))"
  by pat_completeness auto
termination
  by (relation "measure (\<lambda>(env, buf, offset, frame_index, ctx). length buf - offset)")
    (auto dest!: frame_ok_progress)

declare segment_scan_loop.simps [simp del]

definition segment_scan_impl ::
    "lib \<Rightarrow> byte list \<Rightarrow> pkey option \<Rightarrow> 'c segment_frame_cb option \<Rightarrow> 'c \<Rightarrow> nat \<Rightarrow>
     (scan_error + SegmentHeader \<times> SegmentFooter \<times> nat) \<times> 'c" where
  "segment_scan_impl L buf decryptor cb ctx min_frame_offset =
     (case segment_parse_header buf of
        None \<Rightarrow> (Inl ScanMalformed, ctx)
      | Some (header, offset, encryption) \<Rightarrow>
          (case (if encrypted header \<and> cb \<noteq> None
                 then (case decryptor of
                         None \<Rightarrow> Inl EACCES
                       | Some key \<Rightarrow>
                           (case recorder_crypto_unwrap_dek L key (ei_wrapped_dek encryption) of
                              Inl _ \<Rightarrow> Inl EACCES
                            | Inr dek \<Rightarrow> Inr dek))
                 else Inr (replicate SEGMENT_DEK_SIZE 0)) of
             Inl e \<Rightarrow> (Inl (ScanErrno e), ctx)
           | Inr dek \<Rightarrow>
               (let dict_bytes = take (unat (sh_dict_len header))
                      (drop (offset - unat (sh_dict_len header)) buf);
                    env = \<lparr>env_lib = L, env_header = header, env_encryption = encryption,
                           env_dek = dek, env_dict = dict_bytes, env_cb = cb,
                           env_min = min_frame_offset\<rparr>
                in case segment_scan_loop env buf offset 0 ctx of
                     (Inl e, ctx') \<Rightarrow> (Inl e, ctx')
                   | (Inr (footer, committed_end), ctx') \<Rightarrow>
                       (Inr (header, footer, committed_end), ctx'))))"

definition segment_scan_buffer ::
    "lib \<Rightarrow> byte list \<Rightarrow> pkey option \<Rightarrow> 'c segment_frame_cb option \<Rightarrow> 'c \<Rightarrow>
     (scan_error + SegmentHeader \<times> SegmentFooter \<times> nat) \<times> 'c" where
  "segment_scan_buffer L buf decryptor cb ctx = segment_scan_impl L buf decryptor cb ctx 0"

text \<open>Scanning a path: \<^verbatim>\<open>None\<close> is a file that cannot be opened; an empty file is refused.\<close>

definition segment_scan_path_from_offset ::
    "lib \<Rightarrow> byte list option \<Rightarrow> pkey option \<Rightarrow> 'c segment_frame_cb option \<Rightarrow> 'c \<Rightarrow> nat \<Rightarrow>
     (scan_error + SegmentHeader \<times> SegmentFooter \<times> nat) \<times> 'c" where
  "segment_scan_path_from_offset L file decryptor cb ctx min_frame_offset =
     (case file of
        None \<Rightarrow> (Inl (ScanErrno EOTHER), ctx)
      | Some buf \<Rightarrow>
          if length buf = 0 then (Inl (ScanErrno EINVAL), ctx)
          else segment_scan_impl L buf decryptor cb ctx min_frame_offset)"

definition segment_scan_path ::
    "lib \<Rightarrow> byte list option \<Rightarrow> pkey option \<Rightarrow> 'c segment_frame_cb option \<Rightarrow> 'c \<Rightarrow>
     (scan_error + SegmentHeader \<times> SegmentFooter \<times> nat) \<times> 'c" where
  "segment_scan_path L file decryptor cb ctx =
     (case file of
        None \<Rightarrow> (Inl (ScanErrno EOTHER), ctx)
      | Some buf \<Rightarrow>
          if length buf = 0 then (Inl (ScanErrno EINVAL), ctx)
          else segment_scan_impl L buf decryptor cb ctx 0)"


subsection \<open>Bounds of a scan\<close>

lemmas scan_unfold = segment_scan_loop.simps [unfolded Let_def]

lemma scan_step_ok:
  assumes "offset < length buf" and "footer_at (drop offset buf) = None"
    and "frame = frame_info (drop offset buf) offset"
    and "frame_check (env_header env) frame (drop offset buf) = FrameOk"
    and "frame_callback env idx frame (drop offset buf) offset ctx = (Inr True, c)"
    and "\<not> (encrypted (env_header env) \<and> idx = UINT64_MAX)"
  shows "segment_scan_loop env buf offset idx ctx =
    segment_scan_loop env buf (offset + unat (fi_frame_len frame)) (idx + 1) c"
  using assms by (subst scan_unfold) auto

lemma index_step: "(idx :: u64) + of_nat (length (f # fs)) = idx + 1 + of_nat (length fs)"
  by simp

lemma footer_at_length: "footer_at p = Some f \<Longrightarrow> 48 \<le> length p"
  by (auto simp: footer_at_def split: if_splits)

lemma scan_loop_bounds:
  "segment_scan_loop env buf offset idx ctx = (Inr (footer, e), ctx') \<Longrightarrow> offset \<le> length buf \<Longrightarrow>
   offset \<le> e \<and> e \<le> length buf"
proof (induction env buf offset idx ctx rule: segment_scan_loop.induct)
  case (1 env buf offset idx ctx)
  show ?case
  proof (cases "offset < length buf")
    case False
    with "1.prems" show ?thesis by (simp add: scan_unfold)
  next
    case True
    let ?p = "drop offset buf"
    let ?fr = "frame_info ?p offset"
    show ?thesis
    proof (cases "footer_at ?p")
      case (Some f)
      with True "1.prems" footer_at_length [OF Some] show ?thesis
        by (auto simp: scan_unfold [of env buf offset])
    next
      case None
      show ?thesis
      proof (cases "frame_check (env_header env) ?fr ?p = FrameOk \<and>
          (\<exists>c. frame_callback env idx ?fr ?p offset ctx = (Inr True, c) \<and>
            \<not> (encrypted (env_header env) \<and> idx = UINT64_MAX))")
        case False
        with True None "1.prems" show ?thesis
          by (auto simp: scan_unfold [of env buf offset]
              split: frame_status.splits prod.splits sum.splits bool.splits if_splits)
      next
        case ok: True
        then obtain c where c: "frame_callback env idx ?fr ?p offset ctx = (Inr True, c)" by blast
        from ok have le: "unat (fi_frame_len ?fr) \<le> length ?p"
          by (blast dest: frame_ok_fits)
        from True None ok c "1.prems" have
          "segment_scan_loop env buf (offset + unat (fi_frame_len ?fr)) (idx + 1) c = (Inr (footer, e), ctx')"
          by (metis scan_step_ok)
        with "1.IH" [OF True refl refl None _ c [symmetric] refl refl] ok le "1.prems"(2) True
        show ?thesis by fastforce
      qed
    qed
  qed
qed

subsection \<open>Runs of valid frames\<close>

inductive good_frames ::
    "'c scan_env \<Rightarrow> byte list \<Rightarrow> nat \<Rightarrow> u64 \<Rightarrow> (SegmentFrameInfo \<times> byte list) list \<Rightarrow> nat \<Rightarrow> bool" where
  good_nil: "good_frames env buf offset idx [] offset"
| good_cons:
    "offset < length buf \<Longrightarrow> footer_at (drop offset buf) = None \<Longrightarrow>
     frame = frame_info (drop offset buf) offset \<Longrightarrow>
     frame_check (env_header env) frame (drop offset buf) = FrameOk \<Longrightarrow>
     frame_payload (env_lib env) (env_header env) (env_encryption env) (env_dek env) (env_dict env)
       idx frame (drop offset buf) = Chunk chunk \<Longrightarrow>
     \<not> (encrypted (env_header env) \<and> idx = UINT64_MAX) \<Longrightarrow>
     good_frames env buf (offset + unat (fi_frame_len frame)) (idx + 1) fs e \<Longrightarrow>
     good_frames env buf offset idx ((frame, chunk) # fs) e"

inductive_cases good_consE: "good_frames env buf offset idx (f # fs) e"
inductive_simps good_nil_iff: "good_frames env buf offset idx [] e"

text \<open>Handing the frames to the callback, until it asks to stop.\<close>

fun run_cb ::
    "'c segment_frame_cb \<Rightarrow> SegmentHeader \<Rightarrow> (SegmentFrameInfo \<times> byte list) list \<Rightarrow> 'c \<Rightarrow> int \<times> 'c" where
  "run_cb cb header [] ctx = (0, ctx)"
| "run_cb cb header ((frame, chunk) # fs) ctx =
     (case cb header frame chunk ctx of
        (rv, ctx') \<Rightarrow> if rv \<noteq> 0 then (rv, ctx') else run_cb cb header fs ctx')"

lemma scan_good_frames:
  assumes "good_frames env buf offset idx fs e" and "env_cb env = Some cb" and "env_min env \<le> offset"
  shows "segment_scan_loop env buf offset idx ctx =
    (case run_cb cb (env_header env) fs ctx of
       (rv, c) \<Rightarrow> if rv \<noteq> 0 then (Inl (ScanCallback rv), c)
                  else segment_scan_loop env buf e (idx + of_nat (length fs)) c)"
  using assms
proof (induction arbitrary: ctx rule: good_frames.induct)
  case (good_nil env buf offset idx)
  then show ?case by simp
next
  case (good_cons offset buf frame env idx chunk fs e)
  obtain rv c where cb: "cb (env_header env) frame chunk ctx = (rv, c)" by fastforce
  have cbk: "frame_callback env idx frame (drop offset buf) offset ctx =
      (if rv \<noteq> 0 then Inl (ScanCallback rv) else Inr True, c)"
    using good_cons cb by (simp add: frame_callback_def)
  show ?case
  proof (cases "rv = 0")
    case False
    with good_cons cb cbk show ?thesis
      by (simp add: scan_unfold [of env buf offset])
  next
    case True
    with cbk have "segment_scan_loop env buf offset idx ctx =
        segment_scan_loop env buf (offset + unat (fi_frame_len frame)) (idx + 1) c"
      using good_cons.hyps by (intro scan_step_ok) simp_all
    with good_cons cb True show ?thesis
      unfolding index_step by simp
  qed
qed

lemma scan_good_frames_metadata:
  assumes "good_frames env buf offset idx fs e" and "env_cb env = None"
  shows "segment_scan_loop env buf offset idx ctx =
    segment_scan_loop env buf e (idx + of_nat (length fs)) ctx"
  using assms
proof (induction arbitrary: ctx rule: good_frames.induct)
  case (good_nil env buf offset idx)
  then show ?case by simp
next
  case (good_cons offset buf frame env idx chunk fs e)
  have "segment_scan_loop env buf offset idx ctx =
      segment_scan_loop env buf (offset + unat (fi_frame_len frame)) (idx + 1) ctx"
    using good_cons by (intro scan_step_ok) (simp_all add: frame_callback_def)
  with good_cons show ?case
    unfolding index_step by simp
qed

text \<open>Where the scan stops: the end of the buffer, a footer, a damaged frame.\<close>

lemma scan_at_end: "length buf \<le> e \<Longrightarrow> segment_scan_loop env buf e idx ctx = (Inr (empty_footer, e), ctx)"
  by (simp add: scan_unfold)

lemma scan_at_footer:
  "footer_at (drop e buf) = Some f \<Longrightarrow>
   segment_scan_loop env buf e idx ctx = (Inr (f, e + 48), ctx)"
  using footer_at_length [of "drop e buf" f] by (simp add: scan_unfold)

lemma scan_at_bad_frame:
  assumes "footer_at (drop e buf) = None"
    and "frame_check (env_header env) (frame_info (drop e buf) e) (drop e buf) \<noteq> FrameOk"
    and "\<not> encrypted (env_header env)"
  shows "segment_scan_loop env buf e idx ctx = (Inr (empty_footer, e), ctx)"
  using assms by (auto simp: scan_unfold [of env buf e] split: frame_status.splits)

lemma scan_at_bad_frame_encrypted:
  assumes "footer_at (drop e buf) = None"
    and "frame_check (env_header env) (frame_info (drop e buf) e) (drop e buf) \<in> {FrameBadLength, FrameBadCrc}"
    and "encrypted (env_header env)"
  shows "segment_scan_loop env buf e idx ctx = (Inl (ScanErrno EIO), ctx)"
  using assms
  by (auto simp: scan_unfold [of env buf e] frame_check_def split: if_splits)


subsection \<open>What a write leaves in the file\<close>

lemma write_seq_effect:
  "write_seq bs fp = (ok, fp') \<Longrightarrow>
   \<exists>n. contents fp' = contents fp @ take n (concat bs) \<and> n \<le> length (concat bs) \<and>
       (ok \<longleftrightarrow> n = length (concat bs))"
proof (induction bs arbitrary: fp)
  case Nil
  then show ?case by simp
next
  case (Cons b bs)
  obtain m fp1 where w: "fwrite b fp = (m, fp1)" by fastforce
  with fwrite_prefix have m: "m \<le> length b" "contents fp1 = contents fp @ take m b" by auto
  show ?case
  proof (cases "m = length b")
    case True
    with Cons.prems w have "write_seq bs fp1 = (ok, fp')"
      by (simp add: write_all_def)
    from Cons.IH [OF this] obtain n where n:
      "contents fp' = contents fp1 @ take n (concat bs)" "n \<le> length (concat bs)"
      "ok \<longleftrightarrow> n = length (concat bs)" by blast
    show ?thesis
      by (rule exI [of _ "length b + n"]) (use n m True in auto)
  next
    case False
    with Cons.prems w have "\<not> ok" "fp' = fp1" by (auto simp: write_all_def)
    then show ?thesis
      by (intro exI [of _ m]) (use m False in auto)
  qed
qed

lemma write_seq_ok: "write_seq bs fp = (True, fp') \<Longrightarrow> contents fp' = contents fp @ concat bs"
  using write_seq_effect by fastforce

lemma write_seq_unscripted:
  "wscript fp = [] \<Longrightarrow> write_seq bs fp = (True, fp\<lparr>contents := contents fp @ concat bs\<rparr>)"
  by (induction bs arbitrary: fp) (simp_all add: write_all_def fwrite_script)

lemma crc32_nil [simp]: "recorder_crc32 [] = 0"
  by (simp add: recorder_crc32_def)

lemma length_frame_header [simp]: "length (frame_header a b c d) = 16"
  by (simp add: frame_header_def)

text \<open>A frame as it lies in the file: header, stored payload, tag, checksum.\<close>

definition frame_raw :: "u32 \<Rightarrow> u32 \<Rightarrow> byte list \<Rightarrow> byte list \<Rightarrow> byte list" where
  "frame_raw flags ulen stored tag =
     (let hdr = frame_header flags (of_nat (length stored)) ulen
                  (of_nat (20 + length stored + length tag))
      in hdr @ stored @ tag @
         write_u32_le (recorder_crc32 hdr XOR recorder_crc32 stored XOR recorder_crc32 tag))"

lemma length_frame_raw [simp]: "length (frame_raw fl ul st tg) = 20 + length st + length tg"
  by (simp add: frame_raw_def Let_def)

lemma frame_info_raw:
  "frame_info (frame_raw fl ul st tg @ rest) off =
     \<lparr>fi_flags = fl, fi_stored_len = of_nat (length st), fi_uncompressed_len = ul,
      fi_file_offset = of_nat off, fi_frame_len = of_nat (20 + length st + length tg)\<rparr>"
  by (simp add: frame_info_def frame_raw_def frame_header_def Let_def del: of_nat_add)

lemma frame_check_raw:
  assumes "length tg = tag_len h" and "20 + length st + length tg \<le> UINT32_MAX"
  shows "frame_check h (frame_info (frame_raw fl ul st tg @ rest) off) (frame_raw fl ul st tg @ rest) = FrameOk"
proof -
  have l: "unat (of_nat (20 + length st + length tg) :: u32) = 20 + length st + length tg"
    and s: "unat (of_nat (length st) :: u32) = length st"
    using assms(2) by (simp_all add: of_nat_inject_le del: of_nat_add)
  let ?hdr = "frame_header fl (of_nat (length st)) ul (of_nat (20 + length st + length tg))"
  let ?crc = "recorder_crc32 ?hdr XOR recorder_crc32 st XOR recorder_crc32 tg"
  have fr: "frame_raw fl ul st tg @ rest = ?hdr @ st @ tg @ write_u32_le ?crc @ rest"
    by (simp add: frame_raw_def Let_def del: of_nat_add)
  have crc: "frame_crc h (length st) (?hdr @ st @ tg @ write_u32_le ?crc @ rest) = ?crc"
    using assms(1) by (auto simp: frame_crc_def Let_def tag_len_def xor.assoc split: if_splits)
  have rd: "read_u32_le (drop (16 + length st + tag_len h) (?hdr @ st @ tg @ write_u32_le ?crc @ rest)) = ?crc"
    using assms(1) by simp
  show ?thesis
    unfolding frame_check_def frame_info_raw expected_len_def
    using assms l s crc rd by (simp add: fr del: of_nat_add)
qed

lemma unat_frame_len_raw:
  "20 + length st + length tg \<le> UINT32_MAX \<Longrightarrow>
   unat (fi_frame_len (frame_info (frame_raw fl ul st tg @ rest) off)) = 20 + length st + length tg"
  unfolding frame_info_raw by (simp add: of_nat_inject_le del: of_nat_add)

subsection \<open>The frame writer\<close>

lemma segment_write_frame_plain:
  assumes "segment_write_frame L fp None flags payload ulen = (r, fp', e')"
    and "length payload \<le> UINT32_MAX - 20"
  shows "e' = None"
    and "\<exists>n. contents fp' = contents fp @ take n (frame_raw flags ulen payload []) \<and>
           n \<le> 20 + length payload \<and> (r = Inr () \<longleftrightarrow> n = 20 + length payload)"
proof -
  let ?hdr = "frame_header flags (of_nat (length payload)) ulen (of_nat (20 + length payload))"
  let ?parts = "[?hdr, payload, write_u32_le (recorder_crc32 ?hdr XOR recorder_crc32 payload)]"
  obtain ok fp1 where w: "write_seq ?parts fp = (ok, fp1)" by fastforce
  have hdr: "frame_header flags (of_nat (length payload)) ulen (of_nat (16 + length payload + 4)) = ?hdr"
    by (simp add: add.commute)
  from assms w have r: "r = (if ok then Inr () else Inl EOTHER)" "fp' = fp1" "e' = None"
    by (simp_all add: segment_write_frame_def Let_def hdr add.commute del: of_nat_add)
  show "e' = None" by (fact r)
  have cat: "concat ?parts = frame_raw flags ulen payload []"
    by (simp add: frame_raw_def Let_def)
  from write_seq_effect [OF w, unfolded cat] r
  show "\<exists>n. contents fp' = contents fp @ take n (frame_raw flags ulen payload []) \<and>
           n \<le> 20 + length payload \<and> (r = Inr () \<longleftrightarrow> n = 20 + length payload)"
    by auto
qed

lemma segment_write_frame_encrypted:
  assumes w: "segment_write_frame L fp (Some e) flags payload ulen = (Inr (), fp', e')"
    and ok: "gcm_ok L"
  shows "\<exists>ct tag. contents fp' = contents fp @ frame_raw flags ulen ct tag \<and>
      e' = Some (e\<lparr>se_frame_index := se_frame_index e + 1\<rparr>) \<and>
      se_initialized e \<and> se_frame_index e \<noteq> UINT64_MAX \<and>
      length ct = length payload \<and> length tag = 16 \<and> length payload \<le> UINT32_MAX - 36 \<and>
      recorder_crypto_aes_gcm_decrypt L (se_dek e)
        (frame_nonce (se_nonce_prefix e) (se_frame_index e))
        (take 16 (frame_raw flags ulen ct tag)) ct tag = Inr payload"
proof -
  let ?hdr = "frame_header flags (of_nat (length payload)) ulen (of_nat (36 + length payload))"
  let ?nonce = "frame_nonce (se_nonce_prefix e) (se_frame_index e)"
  have hdr: "frame_header flags (of_nat (length payload)) ulen (of_nat (16 + length payload + 20)) = ?hdr"
    by (simp add: add.commute)
  from w have init: "se_initialized e" and len: "length payload \<le> UINT32_MAX - 36"
    and idx: "se_frame_index e \<noteq> UINT64_MAX"
    by (auto simp: segment_write_frame_def Let_def split: if_splits)
  with w obtain ct tag where
    enc: "recorder_crypto_aes_gcm_encrypt L (se_dek e) ?nonce ?hdr payload = Inr (ct, tag)"
    by (auto simp: segment_write_frame_def Let_def hdr add.commute split: sum.splits simp del: of_nat_add)
  let ?parts = "[?hdr, ct, tag, write_u32_le (recorder_crc32 ?hdr XOR recorder_crc32 ct XOR recorder_crc32 tag)]"
  from w init len idx enc have wr: "write_seq ?parts fp = (True, fp')"
    and e': "e' = Some (e\<lparr>se_frame_index := se_frame_index e + 1\<rparr>)"
    by (auto simp: segment_write_frame_def Let_def hdr add.commute split: prod.splits if_splits
        simp del: of_nat_add write_seq.simps)
  note rt = aes_gcm_roundtrip [OF ok enc]
  have raw: "frame_raw flags ulen ct tag = concat ?parts"
    using rt by (simp add: frame_raw_def Let_def)
  have "take 16 (frame_raw flags ulen ct tag) = ?hdr"
    unfolding raw by simp
  with write_seq_ok [OF wr] raw e' init idx len rt show ?thesis
    by (intro exI [of _ ct] exI [of _ tag]) simp
qed

end
