(* ===== verification/Segment_File.thy ===== *)
theory Segment_File
  imports Segment_Scan
begin

text \<open>
  Whole segment files: what a scan returns for a file the writers produced, for a torn or
  damaged tail, and for one frame read at its indexed offset. \<^verbatim>\<open>write_frames\<close> is the
  sequence of frame writes a segment sees between its header and its footer.
\<close>

type_synonym wframe = "u32 \<times> u32 \<times> byte list"

fun write_frames ::
    "lib \<Rightarrow> FILE \<Rightarrow> SegmentEncryptor option \<Rightarrow> wframe list \<Rightarrow>
     (errno + unit) \<times> FILE \<times> SegmentEncryptor option" where
  "write_frames L fp enc [] = (Inr (), fp, enc)"
| "write_frames L fp enc ((flags, ulen, payload) # ws) =
     (case segment_write_frame L fp enc flags payload ulen of
        (Inl e, fp', enc') \<Rightarrow> (Inl e, fp', enc')
      | (Inr _, fp', enc') \<Rightarrow> write_frames L fp' enc' ws)"

subsection \<open>Random access to one frame\<close>

record SegmentFrameReader =
  fr_file :: "byte list"
  fr_data_offset :: nat
  fr_header :: SegmentHeader
  fr_encryption :: SegmentEncryptionInfo
  fr_metadata :: "byte list"
  fr_dek :: "byte list"

definition segment_frame_reader_open ::
    "lib \<Rightarrow> byte list option \<Rightarrow> pkey option \<Rightarrow> errno + SegmentFrameReader" where
  "segment_frame_reader_open L file decryptor =
     (case file of
        None \<Rightarrow> Inl EOTHER
      | Some buf \<Rightarrow>
          (case read_metadata buf of
             None \<Rightarrow> Inl EOTHER
           | Some metadata \<Rightarrow>
               (case segment_parse_header metadata of
                  None \<Rightarrow> Inl EOTHER
                | Some (header, data_offset, encryption) \<Rightarrow>
                    (case (if encrypted header
                           then (case decryptor of
                                   None \<Rightarrow> Inl EACCES
                                 | Some key \<Rightarrow>
                                     (case recorder_crypto_unwrap_dek L key (ei_wrapped_dek encryption) of
                                        Inl _ \<Rightarrow> Inl EACCES
                                      | Inr dek \<Rightarrow> Inr dek))
                           else Inr (replicate SEGMENT_DEK_SIZE 0)) of
                       Inl e \<Rightarrow> Inl e
                     | Inr dek \<Rightarrow>
                         Inr \<lparr>fr_file = buf, fr_data_offset = data_offset, fr_header = header,
                              fr_encryption = encryption, fr_metadata = metadata, fr_dek = dek\<rparr>))))"

text \<open>
  The reads at \<^verbatim>\<open>file_offset\<close> are of the 16 byte frame header and then of exactly the
  frame; a frame that reaches beyond the file, a wrong length or a wrong checksum fail.
\<close>

definition segment_frame_reader_scan ::
    "lib \<Rightarrow> SegmentFrameReader \<Rightarrow> 'c segment_frame_cb \<Rightarrow> 'c \<Rightarrow> nat \<Rightarrow> u64 \<Rightarrow>
     (scan_error + int) \<times> 'c" where
  "segment_frame_reader_scan L reader cb ctx file_offset frame_index =
     (let size = length (fr_file reader); header = fr_header reader in
      if file_offset < fr_data_offset reader \<or> file_offset > size - SEGMENT_FRAME_HEADER_SIZE - 4
      then (Inl ScanMalformed, ctx)
      else
        let frame = frame_info (take SEGMENT_FRAME_HEADER_SIZE (drop file_offset (fr_file reader)))
                      file_offset;
            total = unat (fi_frame_len frame)
        in if expected_len header frame > UINT32_MAX \<or> total \<noteq> expected_len header frame \<or>
              total > size - file_offset
           then (Inl (ScanErrno EIO), ctx)
           else
             let p = take total (drop file_offset (fr_file reader));
                 dict_bytes = take (unat (sh_dict_len header))
                   (drop (fr_data_offset reader - unat (sh_dict_len header)) (fr_metadata reader))
             in if read_u32_le (drop (SEGMENT_FRAME_HEADER_SIZE + unat (fi_stored_len frame) +
                     tag_len header) p) \<noteq> frame_crc header (unat (fi_stored_len frame)) p
                then (Inl (ScanErrno EIO), ctx)
                else
                  (case frame_payload L header (fr_encryption reader) (fr_dek reader) dict_bytes
                          frame_index frame p of
                     FailScan e \<Rightarrow> (Inl (ScanErrno e), ctx)
                   | StopScan \<Rightarrow> (Inl ScanMalformed, ctx)
                   | Chunk chunk \<Rightarrow>
                       (case cb header frame chunk ctx of (rv, ctx') \<Rightarrow> (Inr rv, ctx'))))"

text \<open>
  \<^verbatim>\<open>segment_scan_path_frame\<close> is the same read with the header parsed and the key unwrapped
  inside the call: the bounds and the checksum are tested before the key is unwrapped.
\<close>

definition segment_scan_path_frame ::
    "lib \<Rightarrow> byte list option \<Rightarrow> pkey option \<Rightarrow> 'c segment_frame_cb \<Rightarrow> 'c \<Rightarrow> nat \<Rightarrow> u64 \<Rightarrow>
     (scan_error + int) \<times> 'c" where
  "segment_scan_path_frame L file decryptor cb ctx file_offset frame_index =
     (case file of
        None \<Rightarrow> (Inl ScanMalformed, ctx)
      | Some buf \<Rightarrow>
          (case read_metadata buf of
             None \<Rightarrow> (Inl ScanMalformed, ctx)
           | Some metadata \<Rightarrow>
               (case segment_parse_header metadata of
                  None \<Rightarrow> (Inl ScanMalformed, ctx)
                | Some (header, data_offset, encryption) \<Rightarrow>
                    if file_offset < data_offset \<or>
                       file_offset > length buf - SEGMENT_FRAME_HEADER_SIZE - 4
                    then (Inl ScanMalformed, ctx)
                    else
                      let frame = frame_info (take SEGMENT_FRAME_HEADER_SIZE (drop file_offset buf))
                                    file_offset;
                          total_len = unat (fi_frame_len frame)
                      in if expected_len header frame > UINT32_MAX \<or>
                            total_len \<noteq> expected_len header frame \<or>
                            total_len > length buf - file_offset
                         then (Inl (ScanErrno EIO), ctx)
                         else
                           let p = take total_len (drop file_offset buf);
                               dict_bytes = take (unat (sh_dict_len header))
                                 (drop (data_offset - unat (sh_dict_len header)) metadata)
                           in if read_u32_le (drop (SEGMENT_FRAME_HEADER_SIZE +
                                   unat (fi_stored_len frame) + tag_len header) p) \<noteq>
                                 frame_crc header (unat (fi_stored_len frame)) p
                              then (Inl (ScanErrno EIO), ctx)
                              else
                                (case (if encrypted header
                                       then (case decryptor of
                                               None \<Rightarrow> Inl EACCES
                                             | Some key \<Rightarrow>
                                                 (case recorder_crypto_unwrap_dek L key
                                                         (ei_wrapped_dek encryption) of
                                                    Inl _ \<Rightarrow> Inl EACCES
                                                  | Inr dek \<Rightarrow> Inr dek))
                                       else Inr (replicate SEGMENT_DEK_SIZE 0)) of
                                   Inl e \<Rightarrow> (Inl (ScanErrno e), ctx)
                                 | Inr dek \<Rightarrow>
                                     (case frame_payload L header encryption dek dict_bytes
                                             frame_index frame p of
                                        FailScan e \<Rightarrow> (Inl (ScanErrno e), ctx)
                                      | StopScan \<Rightarrow> (Inl ScanMalformed, ctx)
                                      | Chunk chunk \<Rightarrow>
                                          (case cb header frame chunk ctx of
                                             (rv, ctx') \<Rightarrow> (Inr rv, ctx')))))))"

subsection \<open>Written frames are valid frames\<close>

definition trailer_len :: "SegmentEncryptor option \<Rightarrow> nat" where
  "trailer_len enc = 20 + (if enc = None then 0 else SEGMENT_GCM_TAG_SIZE)"

fun frame_offsets :: "nat \<Rightarrow> nat \<Rightarrow> wframe list \<Rightarrow> nat list" where
  "frame_offsets base overhead [] = []"
| "frame_offsets base overhead ((flags, ulen, payload) # ws) =
     base # frame_offsets (base + overhead + length payload) overhead ws"

fun frame_list :: "nat \<Rightarrow> nat \<Rightarrow> wframe list \<Rightarrow> SegmentFrameInfo list" where
  "frame_list base overhead [] = []"
| "frame_list base overhead ((flags, ulen, payload) # ws) =
     \<lparr>fi_flags = flags, fi_stored_len = of_nat (length payload), fi_uncompressed_len = ulen,
      fi_file_offset = of_nat base, fi_frame_len = of_nat (overhead + length payload)\<rparr>
     # frame_list (base + overhead + length payload) overhead ws"

definition decodes :: "lib \<Rightarrow> SegmentHeader \<Rightarrow> byte list \<Rightarrow> wframe \<Rightarrow> byte list \<Rightarrow> bool" where
  "decodes L header dict w chunk \<longleftrightarrow>
     (case w of (flags, ulen, payload) \<Rightarrow>
        decompress_payload L header dict
          \<lparr>fi_flags = flags, fi_stored_len = of_nat (length payload), fi_uncompressed_len = ulen,
           fi_file_offset = 0, fi_frame_len = 0\<rparr> payload = Some chunk \<and>
        chunk_verify L header chunk)"

definition no_false_footer :: "byte list \<Rightarrow> nat list \<Rightarrow> bool" where
  "no_false_footer buf offsets \<longleftrightarrow> list_all (\<lambda>off. footer_at (drop off buf) = None) offsets"

definition env_matches :: "'c scan_env \<Rightarrow> lib \<Rightarrow> SegmentEncryptor option \<Rightarrow> u64 \<Rightarrow> bool" where
  "env_matches env L enc idx \<longleftrightarrow>
     env_lib env = L \<and>
     (case enc of
        None \<Rightarrow> \<not> encrypted (env_header env)
      | Some e \<Rightarrow> encrypted (env_header env) \<and> env_dek env = se_dek e \<and>
          ei_nonce_prefix (env_encryption env) = se_nonce_prefix e \<and> idx = se_frame_index e \<and>
          gcm_ok L)"

lemma decompress_payload_cong:
  "fi_flags f = fi_flags g \<Longrightarrow> fi_stored_len f = fi_stored_len g \<Longrightarrow>
   fi_uncompressed_len f = fi_uncompressed_len g \<Longrightarrow>
   decompress_payload L h d f p = decompress_payload L h d g p"
  by (simp add: decompress_payload_def cong: if_cong option.case_cong)

text \<open>
  A successful frame write appends one raw frame whose stored bytes and tag decrypt to the
  payload, in both modes.
\<close>

definition stored_as ::
    "'c scan_env \<Rightarrow> u64 \<Rightarrow> wframe \<Rightarrow> byte list \<Rightarrow> byte list \<Rightarrow> bool" where
  "stored_as env idx w st tg \<longleftrightarrow>
     (case w of (flags, ulen, payload) \<Rightarrow>
        length st = length payload \<and> length tg = tag_len (env_header env) \<and>
        20 + length st + length tg \<le> UINT32_MAX \<and>
        (if encrypted (env_header env)
         then recorder_crypto_aes_gcm_decrypt (env_lib env) (env_dek env)
                (frame_nonce (ei_nonce_prefix (env_encryption env)) idx)
                (take 16 (frame_raw flags ulen st tg)) st tg = Inr payload
         else st = payload))"

lemma segment_write_frame_raw:
  assumes w: "segment_write_frame L fp enc flags payload ulen = (Inr (), fp', enc')"
    and env: "env_matches env L enc idx"
  obtains st tg where "contents fp' = contents fp @ frame_raw flags ulen st tg"
    and "stored_as env idx (flags, ulen, payload) st tg"
    and "20 + length tg = trailer_len enc" and "trailer_len enc' = trailer_len enc"
    and "env_matches env L enc' (idx + 1)"
    and "\<not> (encrypted (env_header env) \<and> idx = UINT64_MAX)"
proof (cases enc)
  case None
  from w None have len: "length payload \<le> UINT32_MAX - 20"
    by (auto simp: segment_write_frame_def Let_def split: if_splits)
  from segment_write_frame_plain [OF w [unfolded None] len] have
    "contents fp' = contents fp @ frame_raw flags ulen payload []" and "enc' = None"
    by auto
  with len env None show thesis
    by (intro that [of payload "[]"])
      (auto simp: env_matches_def stored_as_def tag_len_def trailer_len_def)
next
  case (Some e0)
  with env have ok: "gcm_ok L" by (simp add: env_matches_def)
  from segment_write_frame_encrypted [OF w [unfolded Some] ok] obtain ct tag where ct:
    "contents fp' = contents fp @ frame_raw flags ulen ct tag"
    "enc' = Some (e0\<lparr>se_frame_index := se_frame_index e0 + 1\<rparr>)"
    "se_frame_index e0 \<noteq> UINT64_MAX" "length ct = length payload" "length tag = 16"
    "length payload \<le> UINT32_MAX - 36"
    "recorder_crypto_aes_gcm_decrypt L (se_dek e0)
      (frame_nonce (se_nonce_prefix e0) (se_frame_index e0))
      (take 16 (frame_raw flags ulen ct tag)) ct tag = Inr payload"
    by blast
  with env Some show thesis
    by (intro that [of ct tag])
      (auto simp: env_matches_def stored_as_def tag_len_def trailer_len_def)
qed

lemma frame_payload_raw:
  assumes st: "stored_as env idx (flags, ulen, payload) st tg"
    and dec: "decodes (env_lib env) (env_header env) (env_dict env) (flags, ulen, payload) chunk"
  shows "frame_payload (env_lib env) (env_header env) (env_encryption env) (env_dek env)
      (env_dict env) idx (frame_info (frame_raw flags ulen st tg @ rest) off)
      (frame_raw flags ulen st tg @ rest) = Chunk chunk"
proof -
  let ?p = "frame_raw flags ulen st tg @ rest"
  let ?fi = "frame_info ?p off"
  from st have len: "length st = length payload" "length tg = tag_len (env_header env)"
    and sl: "unat (of_nat (length payload) :: u32) = length payload"
    by (simp_all add: stored_as_def of_nat_inject_le)
  have n: "unat (fi_stored_len ?fi) = length payload"
    by (simp add: frame_info_raw len sl)
  have parts: "take (length payload) (drop 16 ?p) = st"
    "take 16 ?p = take 16 (frame_raw flags ulen st tg)"
    "encrypted (env_header env) \<Longrightarrow> take 16 (drop (16 + length payload) ?p) = tg"
    using len by (simp_all add: frame_raw_def Let_def tag_len_def del: of_nat_add)
  have "decompress_payload (env_lib env) (env_header env) (env_dict env) ?fi payload =
      decompress_payload (env_lib env) (env_header env) (env_dict env)
        \<lparr>fi_flags = flags, fi_stored_len = of_nat (length payload), fi_uncompressed_len = ulen,
         fi_file_offset = 0, fi_frame_len = 0\<rparr> payload"
    by (rule decompress_payload_cong) (simp_all add: frame_info_raw len)
  with dec have dp: "decompress_payload (env_lib env) (env_header env) (env_dict env) ?fi payload = Some chunk"
    "chunk_verify (env_lib env) (env_header env) chunk"
    by (simp_all add: decodes_def)
  show ?thesis
    unfolding frame_payload_def Let_def n
    using st dp parts by (auto simp: stored_as_def)
qed

lemma segment_write_frame_good:
  assumes w: "segment_write_frame L fp enc flags payload ulen = (Inr (), fp', enc')"
    and env: "env_matches env L enc idx"
    and dec: "decodes L (env_header env) (env_dict env) (flags, ulen, payload) chunk"
    and nf: "footer_at (drop (length (contents fp)) (contents fp' @ rest)) = None"
    and rest: "good_frames env (contents fp' @ rest) (length (contents fp')) (idx + 1) fs e"
  shows "good_frames env (contents fp' @ rest) (length (contents fp)) idx
      ((\<lparr>fi_flags = flags, fi_stored_len = of_nat (length payload), fi_uncompressed_len = ulen,
         fi_file_offset = of_nat (length (contents fp)),
         fi_frame_len = of_nat (trailer_len enc + length payload)\<rparr>, chunk) # fs) e"
proof -
  obtain st tg where raw: "contents fp' = contents fp @ frame_raw flags ulen st tg"
    and st: "stored_as env idx (flags, ulen, payload) st tg"
    and tr: "20 + length tg = trailer_len enc"
    and idx: "\<not> (encrypted (env_header env) \<and> idx = UINT64_MAX)"
    using segment_write_frame_raw [OF w env] by blast
  let ?p = "frame_raw flags ulen st tg @ rest"
  let ?off = "length (contents fp)"
  have len: "length st = length payload" "length tg = tag_len (env_header env)"
    "20 + length st + length tg \<le> UINT32_MAX"
    using st by (simp_all add: stored_as_def)
  have lt: "20 + length st + length tg = trailer_len enc + length payload"
    using len tr by simp
  have dr: "drop ?off (contents fp' @ rest) = ?p" using raw by simp
  have fi: "frame_info ?p ?off = \<lparr>fi_flags = flags, fi_stored_len = of_nat (length payload),
      fi_uncompressed_len = ulen, fi_file_offset = of_nat ?off,
      fi_frame_len = of_nat (trailer_len enc + length payload)\<rparr>"
    by (simp only: frame_info_raw lt) (simp add: len(1))
  have L: "env_lib env = L" using env by (simp add: env_matches_def)
  have "good_frames env (contents fp' @ rest) ?off idx ((frame_info ?p ?off, chunk) # fs) e"
  proof (rule good_cons)
    show "frame_check (env_header env) (frame_info ?p ?off) (drop ?off (contents fp' @ rest)) = FrameOk"
      unfolding dr by (rule frame_check_raw) (use len in simp_all)
    show "good_frames env (contents fp' @ rest) (?off + unat (fi_frame_len (frame_info ?p ?off))) (idx + 1) fs e"
      using rest raw len by (simp add: unat_frame_len_raw)
    show "frame_payload (env_lib env) (env_header env) (env_encryption env) (env_dek env)
        (env_dict env) idx (frame_info ?p ?off) (drop ?off (contents fp' @ rest)) = Chunk chunk"
      unfolding dr by (rule frame_payload_raw) (use st dec L in auto)
  qed (use raw nf idx in auto)
  then show ?thesis
    unfolding fi .
qed


lemma write_frames_extends:
  "write_frames L fp enc ws = (Inr (), fp', enc') \<Longrightarrow> env_matches env L enc idx \<Longrightarrow>
   \<exists>bs. contents fp' = contents fp @ bs"
proof (induction ws arbitrary: fp enc idx)
  case Nil
  then show ?case by simp
next
  case (Cons w ws)
  obtain flags ulen payload where w: "w = (flags, ulen, payload)" by (cases w)
  from Cons.prems(1) obtain fp1 enc1 where
    w1: "segment_write_frame L fp enc flags payload ulen = (Inr (), fp1, enc1)" and
    rest: "write_frames L fp1 enc1 ws = (Inr (), fp', enc')"
    by (auto simp: w split: prod.splits sum.splits)
  from segment_write_frame_raw [OF w1 Cons.prems(2)] obtain st tg where
    "contents fp1 = contents fp @ frame_raw flags ulen st tg" "env_matches env L enc1 (idx + 1)" by blast
  with Cons.IH [OF rest] show ?case by fastforce
qed

lemma write_frames_good:
  assumes "write_frames L fp enc ws = (Inr (), fp', enc')"
    and "env_matches env L enc idx"
    and "list_all2 (decodes L (env_header env) (env_dict env)) ws chunks"
    and "no_false_footer (contents fp' @ rest) (frame_offsets (length (contents fp)) (trailer_len enc) ws)"
  shows "good_frames env (contents fp' @ rest) (length (contents fp)) idx
      (zip (frame_list (length (contents fp)) (trailer_len enc) ws) chunks) (length (contents fp'))"
  using assms
proof (induction ws arbitrary: fp enc idx chunks)
  case Nil
  then show ?case by (simp add: good_nil)
next
  case (Cons w ws)
  obtain flags ulen payload where w: "w = (flags, ulen, payload)" by (cases w)
  from Cons.prems(1) obtain fp1 enc1 where
    w1: "segment_write_frame L fp enc flags payload ulen = (Inr (), fp1, enc1)" and
    ws: "write_frames L fp1 enc1 ws = (Inr (), fp', enc')"
    by (auto simp: w split: prod.splits sum.splits)
  from segment_write_frame_raw [OF w1 Cons.prems(2)] obtain st tg where
    raw: "contents fp1 = contents fp @ frame_raw flags ulen st tg"
    and st: "stored_as env idx (flags, ulen, payload) st tg"
    and tr: "20 + length tg = trailer_len enc" "trailer_len enc1 = trailer_len enc"
    and env1: "env_matches env L enc1 (idx + 1)" by blast
  from Cons.prems(3) obtain chunk cs where chunks: "chunks = chunk # cs"
    and dec: "decodes L (env_header env) (env_dict env) (flags, ulen, payload) chunk"
    and decs: "list_all2 (decodes L (env_header env) (env_dict env)) ws cs"
    by (auto simp: list_all2_Cons1 w)
  have len: "length (contents fp1) = length (contents fp) + trailer_len enc + length payload"
    using raw tr st by (simp add: stored_as_def)
  from write_frames_extends [OF ws env1] obtain more where more: "contents fp' = contents fp1 @ more" ..
  have good: "good_frames env (contents fp' @ rest) (length (contents fp1)) (idx + 1)
      (zip (frame_list (length (contents fp1)) (trailer_len enc1) ws) cs) (length (contents fp'))"
    using Cons.prems(4) len tr
    by (intro Cons.IH [OF ws env1 decs]) (simp add: w no_false_footer_def)
  have nf: "footer_at (drop (length (contents fp)) (contents fp1 @ more @ rest)) = None"
    using Cons.prems(4) more by (simp add: w no_false_footer_def)
  have "good_frames env (contents fp1 @ more @ rest) (length (contents fp1)) (idx + 1)
      (zip (frame_list (length (contents fp1)) (trailer_len enc1) ws) cs) (length (contents fp'))"
    using good more by simp
  from segment_write_frame_good [OF w1 Cons.prems(2) dec nf this]
  show ?case
    using more len tr by (simp add: w chunks)
qed

subsection \<open>Headers and footers as written\<close>

lemma concat_nonempty [simp]: "concat (nonempty bs) = bs"
  by (simp add: nonempty_def)

lemma segment_write_header_plain:
  assumes "segment_write_header L k fp h dict None = (Inr (), fp', enc')"
  shows "contents fp' = contents fp @ header_buf h (length dict) [] @ dict" and "enc' = None"
    and "\<not> encrypted h" and "length dict \<le> UINT32_MAX"
proof -
  from assms have w: "write_seq (header_buf h (length dict) [] # nonempty dict) fp = (True, fp')"
    and "enc' = None" "\<not> encrypted h" "length dict \<le> UINT32_MAX"
    by (auto simp: segment_write_header_def simp del: write_seq.simps split: if_splits prod.splits)
  then show "contents fp' = contents fp @ header_buf h (length dict) [] @ dict" and "enc' = None"
    and "\<not> encrypted h" and "length dict \<le> UINT32_MAX"
    using write_seq_ok [OF w] by simp_all
qed

lemma segment_write_header_encrypted:
  assumes w: "segment_write_header L k fp h dict (Some e) = (Inr (), fp', enc')" and "rand_ok L"
  obtains dek np wrapped where
    "contents fp' = contents fp @ header_buf h (length dict) (encryption_extension np wrapped) @
       encryption_extension np wrapped @ dict"
    and "enc' = Some (e\<lparr>se_dek := dek, se_nonce_prefix := np, se_frame_index := 0, se_initialized := True\<rparr>)"
    and "length np = 4" and "length dek = 32" and "length wrapped \<le> UINT32_MAX - 188"
    and "recorder_crypto_wrap_dek L (se_public_key e) dek = Inr wrapped"
    and "encrypted h" and "length dict \<le> UINT32_MAX"
proof -
  from w obtain dek np wrapped where
    km: "header_key_material L k (se_public_key e) = Inr (dek, np, wrapped)"
    by (auto simp: segment_write_header_def Let_def split: if_splits sum.splits)
  let ?ext = "encryption_extension np wrapped"
  from w km have wr: "write_seq (header_buf h (length dict) ?ext # nonempty ?ext @ nonempty dict) fp = (True, fp')"
    and e': "enc' = Some (e\<lparr>se_dek := dek, se_nonce_prefix := np, se_frame_index := 0, se_initialized := True\<rparr>)"
    and "encrypted h" "length dict \<le> UINT32_MAX"
    by (auto simp: segment_write_header_def Let_def simp del: write_seq.simps split: if_splits prod.splits)
  moreover from km \<open>rand_ok L\<close> have "length np = 4" "length dek = 32" "length wrapped \<le> UINT32_MAX - 188"
    "recorder_crypto_wrap_dek L (se_public_key e) dek = Inr wrapped"
    by (auto simp: header_key_material_def dest: recorder_crypto_random_length split: sum.splits if_splits)
  ultimately show thesis
    using write_seq_ok [OF wr] by (intro that) simp_all
qed

lemma footer_at_written: "footer_at (footer_buf f @ rest) = Some (f\<lparr>ft_present := True\<rparr>)"
proof -
  have t: "take 48 (footer_buf f @ rest) = footer_buf f" by simp
  have z: "put 32 (write_u32_le 0) (footer_buf f) = footer_fields f"
    by (simp add: footer_buf_layout footer_fields_layout put_def)
  show ?thesis
    unfolding footer_at_def t z by (simp add: footer_buf_layout)
qed

lemma segment_write_footer_ok:
  assumes "segment_write_footer fp f = (Inr (), fp')"
  shows "contents fp' = contents fp @ footer_buf f"
proof -
  from assms have "write_seq [footer_buf f] fp = (True, fp')"
    by (auto simp: segment_write_footer_def split: if_splits prod.splits)
  from write_seq_ok [OF this] show ?thesis by simp
qed


subsection \<open>Scanning a written segment\<close>

text \<open>What a reader needs to decrypt a segment of this encryptor; nothing for plaintext.\<close>

definition can_decrypt :: "lib \<Rightarrow> SegmentEncryptor option \<Rightarrow> pkey option \<Rightarrow> bool" where
  "can_decrypt L enc decryptor \<longleftrightarrow>
     (case enc of
        None \<Rightarrow> True
      | Some e \<Rightarrow> rand_ok L \<and> gcm_ok L \<and>
          (case decryptor of None \<Rightarrow> False | Some key \<Rightarrow> rsa_pair L (se_public_key e) key))"

lemma encrypted_stored_header [simp]: "encrypted (stored_header h n) = encrypted h"
  by (simp add: encrypted_def stored_header_def)

lemma written_header_parses:
  assumes w: "segment_write_header L k (fopen_w s) h dict enc = (Inr (), fp1, enc1)"
    and dec: "can_decrypt L enc decryptor"
  obtains ei dek where
    "\<And>tail. segment_parse_header (contents fp1 @ tail) =
       Some (stored_header h (length dict), length (contents fp1), ei)"
    and "\<And>tail. take (unat (sh_dict_len (stored_header h (length dict))))
       (drop (length (contents fp1) - unat (sh_dict_len (stored_header h (length dict))))
         (contents fp1 @ tail)) = dict"
    and "if encrypted h
         then (\<exists>key. decryptor = Some key \<and> recorder_crypto_unwrap_dek L key (ei_wrapped_dek ei) = Inr dek)
         else dek = replicate 32 0"
    and "case enc1 of None \<Rightarrow> \<not> encrypted h
         | Some e \<Rightarrow> encrypted h \<and> dek = se_dek e \<and> ei_nonce_prefix ei = se_nonce_prefix e \<and>
             se_frame_index e = 0 \<and> gcm_ok L"
    and "trailer_len enc1 = trailer_len enc"
proof (cases enc)
  case None
  note p = segment_write_header_plain [OF w [unfolded None]]
  have c: "contents fp1 = header_buf h (length dict) [] @ dict" using p by (simp add: fopen_w_def)
  have d: "unat (of_nat (length dict) :: u32) = length dict"
    using p(4) by (simp add: of_nat_inject_le)
  show thesis
  proof (rule that [of no_encryption "replicate 32 0"])
    fix tail
    show "segment_parse_header (contents fp1 @ tail) =
        Some (stored_header h (length dict), length (contents fp1), no_encryption)"
      using segment_parse_header_written [of h "[]" no_encryption dict tail] p by (simp add: c)
    show "take (unat (sh_dict_len (stored_header h (length dict))))
       (drop (length (contents fp1) - unat (sh_dict_len (stored_header h (length dict))))
         (contents fp1 @ tail)) = dict"
      by (simp add: stored_header_def d c)
  qed (use p None in simp_all)
next
  case (Some e)
  with dec have "rand_ok L" "gcm_ok L" by (simp_all add: can_decrypt_def)
  from dec Some obtain key where key: "decryptor = Some key" "rsa_pair L (se_public_key e) key"
    by (auto simp: can_decrypt_def split: option.splits)
  obtain dek np wrapped where
    c0: "contents fp1 = contents (fopen_w s) @ header_buf h (length dict) (encryption_extension np wrapped) @
       encryption_extension np wrapped @ dict"
    and e1: "enc1 = Some (e\<lparr>se_dek := dek, se_nonce_prefix := np, se_frame_index := 0, se_initialized := True\<rparr>)"
    and l: "length np = 4" "length dek = 32" "length wrapped \<le> UINT32_MAX - 188"
    and wd: "recorder_crypto_wrap_dek L (se_public_key e) dek = Inr wrapped"
    and p: "encrypted h" "length dict \<le> UINT32_MAX"
    using segment_write_header_encrypted [OF w [unfolded Some] \<open>rand_ok L\<close>] by blast
  from c0 have c: "contents fp1 = header_buf h (length dict) (encryption_extension np wrapped) @
       encryption_extension np wrapped @ dict" by (simp add: fopen_w_def)
  have d: "unat (of_nat (length dict) :: u32) = length dict"
    using p(2) by (simp add: of_nat_inject_le)
  have "wrapped \<noteq> []"
    using wd key(2) by (auto simp: recorder_crypto_wrap_dek_def rsa_pair_def split: option.splits)
  note pe = parse_extension_written [OF l(1) this l(3)]
  show thesis
  proof (rule that [of "\<lparr>ei_wrapped_dek = wrapped, ei_nonce_prefix = np\<rparr>" dek])
    fix tail
    show "segment_parse_header (contents fp1 @ tail) =
        Some (stored_header h (length dict), length (contents fp1), \<lparr>ei_wrapped_dek = wrapped, ei_nonce_prefix = np\<rparr>)"
      using segment_parse_header_written [of h "encryption_extension np wrapped" _ dict tail] p pe l
      by (simp add: c)
    show "take (unat (sh_dict_len (stored_header h (length dict))))
       (drop (length (contents fp1) - unat (sh_dict_len (stored_header h (length dict))))
         (contents fp1 @ tail)) = dict"
      by (simp add: stored_header_def d c)
    show "if encrypted h
         then (\<exists>key. decryptor = Some key \<and> recorder_crypto_unwrap_dek L key
            (ei_wrapped_dek \<lparr>ei_wrapped_dek = wrapped, ei_nonce_prefix = np\<rparr>) = Inr dek)
         else dek = replicate 32 0"
      using unwrap_wrap [OF key(2) wd l(2)] key(1) p by simp
  qed (use p e1 \<open>gcm_ok L\<close> Some in \<open>simp_all add: trailer_len_def\<close>)
qed

text \<open>The scan of a written header followed by any bytes is the loop behind the header.\<close>

lemma scan_behind_header:
  assumes w: "segment_write_header L k (fopen_w s) h dict enc = (Inr (), fp1, enc1)"
    and dec: "can_decrypt L enc decryptor"
  obtains env where "env_matches env L enc1 0" and "env_header env = stored_header h (length dict)"
    and "env_dict env = dict" and "env_cb env = Some cb" and "env_min env = 0"
    and "trailer_len enc1 = trailer_len enc"
    and "\<And>tail ctx. segment_scan_buffer L (contents fp1 @ tail) decryptor (Some cb) ctx =
      (case segment_scan_loop env (contents fp1 @ tail) (length (contents fp1)) 0 ctx of
         (Inl e, c) \<Rightarrow> (Inl e, c)
       | (Inr (ft, ce), c) \<Rightarrow> (Inr (stored_header h (length dict), ft, ce), c))"
proof -
  obtain ei dek where
    ph: "\<And>tail. segment_parse_header (contents fp1 @ tail) =
       Some (stored_header h (length dict), length (contents fp1), ei)"
    and d: "\<And>tail. take (unat (sh_dict_len (stored_header h (length dict))))
       (drop (length (contents fp1) - unat (sh_dict_len (stored_header h (length dict))))
         (contents fp1 @ tail)) = dict"
    and key: "if encrypted h
         then (\<exists>key. decryptor = Some key \<and> recorder_crypto_unwrap_dek L key (ei_wrapped_dek ei) = Inr dek)
         else dek = replicate 32 0"
    and m: "case enc1 of None \<Rightarrow> \<not> encrypted h
         | Some e \<Rightarrow> encrypted h \<and> dek = se_dek e \<and> ei_nonce_prefix ei = se_nonce_prefix e \<and>
             se_frame_index e = 0 \<and> gcm_ok L"
    and tr: "trailer_len enc1 = trailer_len enc"
    using written_header_parses [OF w dec] by blast
  let ?env = "\<lparr>env_lib = L, env_header = stored_header h (length dict), env_encryption = ei,
      env_dek = dek, env_dict = dict, env_cb = Some cb, env_min = 0\<rparr>"
  show thesis
  proof (rule that [of ?env])
    show "env_matches ?env L enc1 0"
      using m by (auto simp: env_matches_def split: option.splits)
    fix tail ctx
    show "segment_scan_buffer L (contents fp1 @ tail) decryptor (Some cb) ctx =
      (case segment_scan_loop ?env (contents fp1 @ tail) (length (contents fp1)) 0 ctx of
         (Inl e, c) \<Rightarrow> (Inl e, c)
       | (Inr (ft, ce), c) \<Rightarrow> (Inr (stored_header h (length dict), ft, ce), c))"
      unfolding segment_scan_buffer_def segment_scan_impl_def ph option.case prod.case Let_def d
      using key by auto
  qed (simp_all add: tr)
qed

text \<open>
  Header, frames and any tail: the callback sees every frame in order and the result is the
  one of the loop at the start of the tail.
\<close>

lemma scan_written_frames:
  assumes w: "segment_write_header L k (fopen_w s) h dict enc = (Inr (), fp1, enc1)"
    and ws: "write_frames L fp1 enc1 ws = (Inr (), fp2, enc2)"
    and key: "can_decrypt L enc decryptor"
    and dec: "list_all2 (decodes L (stored_header h (length dict)) dict) ws chunks"
    and nf: "no_false_footer (contents fp2 @ tail)
      (frame_offsets (length (contents fp1)) (trailer_len enc) ws)"
  obtains env where "env_header env = stored_header h (length dict)"
    and "\<And>ctx. segment_scan_buffer L (contents fp2 @ tail) decryptor (Some cb) ctx =
      (case run_cb cb (stored_header h (length dict))
              (zip (frame_list (length (contents fp1)) (trailer_len enc) ws) chunks) ctx of
         (rv, c) \<Rightarrow>
           if rv \<noteq> 0 then (Inl (ScanCallback rv), c)
           else (case segment_scan_loop env (contents fp2 @ tail) (length (contents fp2))
                        (of_nat (length (zip (frame_list (length (contents fp1)) (trailer_len enc) ws) chunks))) c of
                   (Inl e, c') \<Rightarrow> (Inl e, c')
                 | (Inr (ft, ce), c') \<Rightarrow> (Inr (stored_header h (length dict), ft, ce), c')))"
proof -
  obtain env where em: "env_matches env L enc1 0" and eh: "env_header env = stored_header h (length dict)"
    and ed: "env_dict env = dict" and ec: "env_cb env = Some cb" and mn: "env_min env = 0"
    and tr: "trailer_len enc1 = trailer_len enc"
    and sc: "\<And>tail ctx. segment_scan_buffer L (contents fp1 @ tail) decryptor (Some cb) ctx =
      (case segment_scan_loop env (contents fp1 @ tail) (length (contents fp1)) 0 ctx of
         (Inl e, c) \<Rightarrow> (Inl e, c)
       | (Inr (ft, ce), c) \<Rightarrow> (Inr (stored_header h (length dict), ft, ce), c))"
    using scan_behind_header [OF w key, of cb] by blast
  from write_frames_extends [OF ws em] obtain bs where bs: "contents fp2 = contents fp1 @ bs" ..
  have gf: "good_frames env (contents fp2 @ tail) (length (contents fp1)) 0
      (zip (frame_list (length (contents fp1)) (trailer_len enc) ws) chunks) (length (contents fp2))"
    using write_frames_good [OF ws em, of chunks tail] dec nf eh ed tr by simp
  show thesis
  proof (rule that [OF eh])
    fix ctx
    show "segment_scan_buffer L (contents fp2 @ tail) decryptor (Some cb) ctx =
      (case run_cb cb (stored_header h (length dict))
              (zip (frame_list (length (contents fp1)) (trailer_len enc) ws) chunks) ctx of
         (rv, c) \<Rightarrow>
           if rv \<noteq> 0 then (Inl (ScanCallback rv), c)
           else (case segment_scan_loop env (contents fp2 @ tail) (length (contents fp2))
                        (of_nat (length (zip (frame_list (length (contents fp1)) (trailer_len enc) ws) chunks))) c of
                   (Inl e, c') \<Rightarrow> (Inl e, c')
                 | (Inr (ft, ce), c') \<Rightarrow> (Inr (stored_header h (length dict), ft, ce), c')))"
      using sc [of "bs @ tail" ctx] scan_good_frames [OF gf ec, of ctx] mn eh
      by (auto simp: bs split: prod.splits)
  qed
qed


subsection \<open>Readers look only at the bytes they have checked\<close>

lemma read_u32_take: "n + 4 \<le> e \<Longrightarrow> read_u32_le (drop n (take e buf)) = read_u32_le (drop n buf)"
  if "e \<le> length buf"
  using that by (simp add: read_u32_le_def)

lemma read_u64_take: "n + 8 \<le> e \<Longrightarrow> read_u64_le (drop n (take e buf)) = read_u64_le (drop n buf)"
  if "e \<le> length buf"
  using that by (simp add: read_u64_le_def)

lemma take_drop_take: "n + k \<le> e \<Longrightarrow> take k (drop n (take e buf)) = take k (drop n buf)"
  by (simp add: drop_take min_def)

lemma header_of_bytes_take:
  "152 \<le> e \<Longrightarrow> e \<le> length buf \<Longrightarrow> header_of_bytes (take e buf) = header_of_bytes buf"
  unfolding header_of_bytes_def
  by (simp add: read_u32_take read_u64_take take_drop_take del: drop_take)

lemma header_crc_take: "148 \<le> e \<Longrightarrow> header_crc (take e buf) ext = header_crc buf ext"
  by (simp add: header_crc_def min_def)

lemma segment_parse_header_iff:
  "segment_parse_header buf = Some (h, off, ei) \<longleftrightarrow>
   152 \<le> length buf \<and> take 8 buf = RECORDER_SEGMENT_MAGIC \<and> read_u32_le (drop 8 buf) = 1 \<and>
   152 \<le> unat (read_u32_le (drop 12 buf)) \<and> unat (read_u32_le (drop 12 buf)) \<le> length buf \<and>
   h = header_of_bytes buf \<and>
   (if encrypted h then parse_extension (take (unat (read_u32_le (drop 12 buf)) - 152) (drop 152 buf)) = Some ei
    else take (unat (read_u32_le (drop 12 buf)) - 152) (drop 152 buf) = [] \<and> ei = no_encryption) \<and>
   read_u32_le (drop 148 buf) =
     header_crc buf (take (unat (read_u32_le (drop 12 buf)) - 152) (drop 152 buf)) \<and>
   unat (sh_dict_len h) \<le> length buf - unat (read_u32_le (drop 12 buf)) \<and>
   off = unat (read_u32_le (drop 12 buf)) + unat (sh_dict_len h)"
  unfolding segment_parse_header_def Let_def
  by (simp split: option.split) (auto split: if_splits)

lemma segment_parse_header_bounds:
  "segment_parse_header buf = Some (h, off, ei) \<Longrightarrow>
   152 + unat (sh_dict_len h) \<le> off \<and> off \<le> length buf \<and> h = header_of_bytes buf \<and>
   off = unat (read_u32_le (drop 12 buf)) + unat (sh_dict_len h) \<and>
   152 \<le> unat (read_u32_le (drop 12 buf))"
  by (auto simp: segment_parse_header_iff)

lemma segment_parse_header_take:
  assumes p: "segment_parse_header buf = Some (h, off, ei)" and e: "off \<le> e" "e \<le> length buf"
  shows "segment_parse_header (take e buf) = Some (h, off, ei)"
proof -
  let ?hs = "unat (read_u32_le (drop 12 buf))"
  from segment_parse_header_bounds [OF p] e have b: "152 \<le> e" "?hs + unat (sh_dict_len h) \<le> e"
    and hs: "152 \<le> ?hs" by auto
  have r: "read_u32_le (drop 8 (take e buf)) = read_u32_le (drop 8 buf)"
    "read_u32_le (drop 12 (take e buf)) = read_u32_le (drop 12 buf)"
    "read_u32_le (drop 148 (take e buf)) = read_u32_le (drop 148 buf)"
    using b e by (simp_all add: read_u32_take)
  have x: "take (?hs - 152) (drop 152 (take e buf)) = take (?hs - 152) (drop 152 buf)"
    using b hs by (intro take_drop_take) simp
  have m: "take 8 (take e buf) = take 8 buf" using b by (simp add: min_def)
  have hb: "header_of_bytes (take e buf) = header_of_bytes buf"
    using b e by (intro header_of_bytes_take)
  have c: "header_crc (take e buf) ext = header_crc buf ext" for ext
    using b by (intro header_crc_take) simp
  have l: "length (take e buf) = e" using e by simp
  show ?thesis
    using p b unfolding segment_parse_header_iff r x m hb c l by auto
qed

lemma read_metadata_of_parsed:
  assumes p: "segment_parse_header buf = Some (h, off, ei)"
  shows "read_metadata buf = Some (take off buf)"
proof -
  from segment_parse_header_bounds [OF p] have b: "152 + unat (sh_dict_len h) \<le> off" "off \<le> length buf"
    and h: "h = header_of_bytes buf" and o: "off = unat (read_u32_le (drop 12 buf)) + unat (sh_dict_len h)"
    by auto
  from segment_parse_header_bounds [OF p] have hs: "152 \<le> unat (read_u32_le (drop 12 buf))" by simp
  have d: "unat (read_u32_le (drop 144 (take 152 buf))) = unat (sh_dict_len h)"
    "read_u32_le (drop 12 (take 152 buf)) = read_u32_le (drop 12 buf)"
    using b by (simp_all add: h header_of_bytes_def read_u32_take)
  show ?thesis
    unfolding read_metadata_def Let_def d
    using b hs o by auto
qed

lemma segment_read_path_header_of_parsed:
  assumes p: "segment_parse_header buf = Some (h, off, ei)"
  shows "segment_read_path_header buf = Some (h, off, length buf)"
proof -
  have "segment_parse_header (take off buf) = Some (h, off, ei)"
    using segment_parse_header_bounds [OF p] by (intro segment_parse_header_take [OF p]) auto
  then show ?thesis
    by (simp add: segment_read_path_header_def read_metadata_of_parsed [OF p])
qed

lemma footer_at_take:
  assumes "48 \<le> e" "e \<le> length p"
  shows "footer_at (take e p) = footer_at p"
proof -
  have r: "read_u32_le (take e p) = read_u32_le p"
    using assms read_u32_take [of e p 0] by simp
  have t: "take 48 (take e p) = take 48 p" using assms by (simp add: min_def)
  have "take 8 (drop 40 (take e p)) = take 8 (drop 40 p)"
    using assms by (intro take_drop_take) simp
  then show ?thesis
    unfolding footer_at_def t using assms r
    by (simp add: read_u32_take read_u64_take del: drop_take)
qed

lemma footer_at_take_None: "footer_at p = None \<Longrightarrow> footer_at (take e p) = None"
proof (cases "48 \<le> e \<and> e \<le> length p")
  case True
  then show "footer_at p = None \<Longrightarrow> footer_at (take e p) = None" by (simp add: footer_at_take)
next
  case False
  then show "footer_at p = None \<Longrightarrow> footer_at (take e p) = None"
    by (cases "e < 48") (auto simp: footer_at_def)
qed

lemma frame_info_take:
  "16 \<le> e \<Longrightarrow> e \<le> length p \<Longrightarrow> frame_info (take e p) off = frame_info p off"
  unfolding frame_info_def using read_u32_take [of e p 0] by (simp add: read_u32_take del: drop_take)

lemma frame_check_take:
  assumes ok: "frame_check h (frame_info p off) p = FrameOk"
    and e: "unat (fi_frame_len (frame_info p off)) \<le> e" "e \<le> length p"
  shows "frame_check h (frame_info (take e p) off) (take e p) = FrameOk"
proof -
  let ?fi = "frame_info p off"
  let ?n = "unat (fi_stored_len ?fi)"
  from ok have len: "unat (fi_frame_len ?fi) = 16 + ?n + tag_len h + 4"
    and crc: "read_u32_le (drop (16 + ?n + tag_len h) p) = frame_crc h ?n p"
    and u: "expected_len h ?fi \<le> UINT32_MAX"
    by (auto simp: frame_check_def expected_len_def split: if_splits)
  have fi: "frame_info (take e p) off = ?fi" using e len by (simp add: frame_info_take)
  have "frame_crc h ?n (take e p) = frame_crc h ?n p"
    using e len unfolding frame_crc_def Let_def
    by (simp add: take_drop_take min_def del: drop_take)
  then show ?thesis
    unfolding frame_check_def fi using e len crc u
    by (simp add: read_u32_take expected_len_def del: drop_take)
qed


subsection \<open>Damaged tails\<close>

lemma torn_frame_check:
  assumes "n < 20 + length st + length tg" and "length tg = tag_len h"
    and "20 + length st + length tg \<le> UINT32_MAX"
  shows "frame_check h (frame_info (take n (frame_raw fl ul st tg)) off)
    (take n (frame_raw fl ul st tg)) \<in> {FrameShort, FrameBeyondEnd}"
proof (cases "n < 20 + tag_len h")
  case True
  then show ?thesis using assms by (simp add: frame_check_def)
next
  case False
  have fi: "frame_info (take n (frame_raw fl ul st tg)) off = frame_info (frame_raw fl ul st tg) off"
    using False assms by (intro frame_info_take) simp_all
  have l: "unat (of_nat (20 + length st + length tg) :: u32) = 20 + length st + length tg"
    and s: "unat (of_nat (length st) :: u32) = length st"
    using assms by (simp_all add: of_nat_inject_le del: of_nat_add)
  show ?thesis
    unfolding frame_check_def fi expected_len_def frame_info_raw [of _ _ _ _ "[]", simplified append_Nil2]
    using False assms l s by (simp del: of_nat_add)
qed

lemma corrupt_frame_check:
  assumes "x \<noteq> y" and "length tg = tag_len h" and "20 + length (a @ x # b) + length tg \<le> UINT32_MAX"
    and raw: "frame_raw fl ul (a @ x # b) tg = hdr @ (a @ x # b) @ rest" and "length hdr = 16"
  shows "frame_check h (frame_info (hdr @ (a @ y # b) @ rest @ tail) off)
    (hdr @ (a @ y # b) @ rest @ tail) = FrameBadCrc"
proof -
  let ?st = "a @ x # b" and ?st' = "a @ y # b"
  let ?h = "frame_header fl (of_nat (length ?st)) ul (of_nat (20 + length ?st + length tg))"
  let ?crc = "recorder_crc32 ?h XOR recorder_crc32 ?st XOR recorder_crc32 tg"
  have eq: "?h @ ?st @ tg @ write_u32_le ?crc = hdr @ ?st @ rest"
    using raw by (simp add: frame_raw_def Let_def del: of_nat_add)
  have "length ?h = length hdr" using \<open>length hdr = 16\<close> by (simp del: of_nat_add)
  from iffD1 [OF append_eq_append_conv [OF disjI1 [OF this]] eq]
  have both: "?h = hdr \<and> ?st @ tg @ write_u32_le ?crc = ?st @ rest" .
  have hdr: "hdr = ?h" by (rule conjunct1 [OF both, symmetric])
  have rest: "rest = tg @ write_u32_le ?crc"
    using conjunct2 [OF both] unfolding same_append_eq by (rule sym)
  have l: "unat (of_nat (20 + length ?st + length tg) :: u32) = 20 + length ?st + length tg"
    and s: "unat (of_nat (length ?st) :: u32) = length ?st"
    by (rule of_nat_inject_le, use assms(3) in simp)+
  let ?p = "hdr @ ?st' @ rest @ tail"
  have fi: "frame_info ?p off = \<lparr>fi_flags = fl, fi_stored_len = of_nat (length ?st),
      fi_uncompressed_len = ul, fi_file_offset = of_nat off,
      fi_frame_len = of_nat (20 + length ?st + length tg)\<rparr>"
    by (simp add: frame_info_def hdr frame_header_def del: of_nat_add)
  have crc: "frame_crc h (length ?st) ?p = recorder_crc32 ?h XOR recorder_crc32 ?st' XOR recorder_crc32 tg"
  proof -
    have "take (length ?st) (drop 16 ?p) = ?st'" "take 16 ?p = ?h"
      "take (tag_len h) (drop (16 + length ?st) ?p) = tg"
      using assms(2) by (simp_all add: hdr rest del: of_nat_add)
    then show ?thesis
      using assms(2) by (auto simp: frame_crc_def Let_def tag_len_def xor.assoc split: if_splits)
  qed
  have rd: "read_u32_le (drop (16 + length ?st + tag_len h) ?p) = ?crc"
    using assms(2) by (simp add: hdr rest del: of_nat_add)
  have ne: "?crc \<noteq> recorder_crc32 ?h XOR recorder_crc32 ?st' XOR recorder_crc32 tg"
    using assms(1) by (simp add: xor_cancel_right xor_cancel_left crc32_one_byte)
  have lp: "length ?p = 20 + length ?st + length tg + length tail"
    by (simp add: hdr rest)
  show ?thesis
    unfolding frame_check_def fi expected_len_def SegmentFrameInfo.simps s l crc rd lp
    using assms(2,3) ne by simp
qed

subsection \<open>A scan of the committed prefix finds the same segment\<close>

lemma scan_loop_committed_prefix:
  "segment_scan_loop env buf offset idx ctx = (Inr (ft, e), ctx') \<Longrightarrow> env_cb env = None \<Longrightarrow>
   offset \<le> length buf \<Longrightarrow>
   segment_scan_loop env (take e buf) offset idx ctx = (Inr (ft, e), ctx')"
proof (induction env buf offset idx ctx rule: segment_scan_loop.induct)
  case (1 env buf offset idx ctx)
  let ?p = "drop offset buf"
  let ?fr = "frame_info ?p offset"
  note bounds = scan_loop_bounds [OF "1.prems"(1,3)]
  have cb: "frame_callback env idx fr p offset ctx = (Inr True, ctx)" for fr p
    using "1.prems"(2) by (simp add: frame_callback_def)
  show ?case
  proof (cases "offset < length buf")
    case False
    with "1.prems" show ?thesis by (simp add: scan_unfold)
  next
    case lt: True
    show ?thesis
    proof (cases "footer_at ?p")
      case (Some f)
      then have r: "f = ft" "e = offset + 48" "ctx' = ctx"
        using "1.prems"(1) scan_at_footer [OF Some, of env idx ctx] by simp_all
      have "footer_at (drop offset (take e buf)) = Some f"
        using Some footer_at_length [OF Some] footer_at_take [of 48 ?p] by (simp add: r drop_take)
      from scan_at_footer [OF this] show ?thesis using r by simp
    next
      case None
      show ?thesis
      proof (cases "frame_check (env_header env) ?fr ?p = FrameOk \<and>
          \<not> (encrypted (env_header env) \<and> idx = UINT64_MAX)")
        case False
        then have "ft = empty_footer" "e = offset" "ctx' = ctx"
          using "1.prems" lt None cb
          by (auto simp: scan_unfold [of env buf offset] split: frame_status.splits if_splits)
        then show ?thesis by (simp add: scan_at_end)
      next
        case ok: True
        have step: "segment_scan_loop env buf (offset + unat (fi_frame_len ?fr)) (idx + 1) ctx = (Inr (ft, e), ctx')"
          using "1.prems"(1) scan_step_ok [OF lt None refl _ cb] ok by simp
        have fits: "unat (fi_frame_len ?fr) \<le> length ?p" using ok by (blast dest: frame_ok_fits)
        have le: "offset + unat (fi_frame_len ?fr) \<le> e"
          using scan_loop_bounds [OF step] fits lt by simp
        have prog: "20 \<le> unat (fi_frame_len ?fr)" using ok by (blast dest: frame_ok_progress)
        have dp: "drop offset (take e buf) = take (e - offset) ?p" by (simp add: drop_take)
        have fi: "frame_info (drop offset (take e buf)) offset = ?fr"
          unfolding dp using le prog bounds by (intro frame_info_take) auto
        have fc: "frame_check (env_header env) (frame_info (drop offset (take e buf)) offset)
            (drop offset (take e buf)) = FrameOk"
          unfolding dp using ok le bounds by (intro frame_check_take) auto
        have nf: "footer_at (drop offset (take e buf)) = None"
          unfolding dp by (rule footer_at_take_None [OF None])
        have "segment_scan_loop env (take e buf) (offset + unat (fi_frame_len ?fr)) (idx + 1) ctx = (Inr (ft, e), ctx')"
          using "1.IH" [OF lt refl refl None _ cb [symmetric] refl refl] ok step "1.prems"(2) fits lt by simp
        moreover have "offset < length (take e buf)" using lt le prog by simp
        from scan_step_ok [OF this nf refl fc cb] have
          "segment_scan_loop env (take e buf) offset idx ctx =
           segment_scan_loop env (take e buf) (offset + unat (fi_frame_len ?fr)) (idx + 1) ctx"
          using ok fi by simp
        ultimately show ?thesis by simp
      qed
    qed
  qed
qed

subsection \<open>Nonces\<close>

lemma frame_nonce_bytes:
  "map (\<lambda>i. ucast (drop_bit (56 - i * 8) (x :: u64)) :: byte) [0..<8] = rev (write_u64_le x)"
  by (simp add: write_u64_le_def ucast_and_0xff upt_rec)

lemma frame_nonce_inject:
  assumes "length np = length np'"
  shows "frame_nonce np i = frame_nonce np' j \<longleftrightarrow> np = np' \<and> i = j"
  using assms unfolding frame_nonce_def frame_nonce_bytes by (auto simp: le64.enc_inject)

end
