(* ===== verification/Index.thy ===== *)
theory Index
  imports Segment_File
begin

text \<open>
  \<^verbatim>\<open>src/index.c\<close>: the advisory frame index beside a segment. A path that is read is the
  bytes of its file or \<^verbatim>\<open>None\<close>; the index writer holds its unbuffered stream, so that the
  contents of the stream are the contents of the file at any time. The FlatBuffers
  accessors are generated code: they are the functions of the record \<^verbatim>\<open>flatcc\<close>.
\<close>

subsection \<open>Chunks\<close>

record ChunkEntry =
  ce_realtime_ts :: u64
  ce_monotonic_ts :: u64
  ce_priority :: u8
  ce_unit :: "byte list option"

record flatcc =
  journal_Chunk_entries :: "byte list \<Rightarrow> ChunkEntry list"
  journal_DefaultChunk_entries :: "byte list \<Rightarrow> ChunkEntry list"

definition chunk_entries :: "flatcc \<Rightarrow> SegmentHeader \<Rightarrow> byte list \<Rightarrow> ChunkEntry list" where
  "chunk_entries F header chunk =
     (if sh_flags header AND SEGMENT_FLAG_COMPACT_ENTRIES \<noteq> 0
      then journal_DefaultChunk_entries F chunk
      else journal_Chunk_entries F chunk)"

subsection \<open>Records\<close>

definition RECORDER_INDEX_MAGIC :: "byte list" where
  "RECORDER_INDEX_MAGIC = str_bytes ''RECIDX01''"

definition RECORDER_INDEX_FOOTER_MAGIC :: "byte list" where
  "RECORDER_INDEX_FOOTER_MAGIC = str_bytes ''RECIF001''"

abbreviation (input) RECORDER_INDEX_VERSION :: u32 where "RECORDER_INDEX_VERSION \<equiv> 1"
abbreviation (input) RECORDER_INDEX_HEADER_SIZE :: nat where "RECORDER_INDEX_HEADER_SIZE \<equiv> 24"
abbreviation (input) RECORDER_INDEX_FOOTER_SIZE :: nat where "RECORDER_INDEX_FOOTER_SIZE \<equiv> 28"
abbreviation (input) RECORDER_SERVICE_HASH_SLOTS :: nat where "RECORDER_SERVICE_HASH_SLOTS \<equiv> 4"
abbreviation (input) RECORDER_INDEX_RECORD_SIZE :: nat where "RECORDER_INDEX_RECORD_SIZE \<equiv> 83"

record IndexFrame =
  ix_file_offset :: u64
  ix_frame_len :: u32
  ix_min_realtime_ts :: u64
  ix_max_realtime_ts :: u64
  ix_min_monotonic_ts :: u64
  ix_max_monotonic_ts :: u64
  ix_priority :: u8
  ix_entry_count :: u32
  ix_service_filter_kind :: u8
  ix_service_hashes :: "u64 list"
  ix_service_overflow :: u8

definition fnv1a64 :: "byte list \<Rightarrow> u64" where
  "fnv1a64 s =
     foldl (\<lambda>hash c. (hash XOR ucast c) * 1099511628211) 1469598103934665603 (cstr s)"

text \<open>The accumulators \<^verbatim>\<open>index_add_entry\<close> updates through its pointer arguments.\<close>

record index_acc =
  ia_min_rt :: u64
  ia_max_rt :: u64
  ia_min_mono :: u64
  ia_max_mono :: u64
  ia_priority :: u8
  ia_service_hashes :: "u64 list"
  ia_service_count :: nat
  ia_overflow :: u8

definition index_add_entry :: "ChunkEntry \<Rightarrow> nat \<Rightarrow> index_acc \<Rightarrow> index_acc" where
  "index_add_entry e entry_index a =
     (let rt = ce_realtime_ts e; mono = ce_monotonic_ts e;
          a = a\<lparr>ia_min_rt := (if entry_index = 0 \<or> rt < ia_min_rt a then rt else ia_min_rt a)\<rparr>;
          a = a\<lparr>ia_max_rt := (if entry_index = 0 \<or> rt > ia_max_rt a then rt else ia_max_rt a)\<rparr>;
          a = a\<lparr>ia_min_mono := (if entry_index = 0 \<or> mono < ia_min_mono a then mono else ia_min_mono a)\<rparr>;
          a = a\<lparr>ia_max_mono := (if entry_index = 0 \<or> mono > ia_max_mono a then mono else ia_max_mono a)\<rparr>;
          a = a\<lparr>ia_priority := ce_priority e\<rparr>
      in case ce_unit e of
           None \<Rightarrow> a
         | Some unit \<Rightarrow>
             (let hash = fnv1a64 unit in
              if hash \<in> set (take (ia_service_count a) (ia_service_hashes a)) then a
              else if ia_service_count a < RECORDER_SERVICE_HASH_SLOTS
              then a\<lparr>ia_service_hashes := (ia_service_hashes a)[ia_service_count a := hash],
                     ia_service_count := ia_service_count a + 1\<rparr>
              else a\<lparr>ia_overflow := 1\<rparr>))"

fun index_add_entries :: "ChunkEntry list \<Rightarrow> nat \<Rightarrow> index_acc \<Rightarrow> index_acc" where
  "index_add_entries [] i a = a"
| "index_add_entries (e # es) i a = index_add_entries es (i + 1) (index_add_entry e i a)"

definition empty_acc :: index_acc where
  "empty_acc =
     \<lparr>ia_min_rt = 0, ia_max_rt = 0, ia_min_mono = 0, ia_max_mono = 0, ia_priority = 0,
      ia_service_hashes = replicate RECORDER_SERVICE_HASH_SLOTS 0, ia_service_count = 0,
      ia_overflow = 0\<rparr>"

definition index_frame_of :: "flatcc \<Rightarrow> SegmentHeader \<Rightarrow> SegmentFrameInfo \<Rightarrow> byte list \<Rightarrow> IndexFrame" where
  "index_frame_of F header frame chunk =
     (let entries = chunk_entries F header chunk;
          a = index_add_entries entries 0 empty_acc
      in \<lparr>ix_file_offset = fi_file_offset frame, ix_frame_len = fi_frame_len frame,
          ix_min_realtime_ts = ia_min_rt a, ix_max_realtime_ts = ia_max_rt a,
          ix_min_monotonic_ts = ia_min_mono a, ix_max_monotonic_ts = ia_max_mono a,
          ix_priority = ia_priority a, ix_entry_count = of_nat (length entries),
          ix_service_filter_kind = 1, ix_service_hashes = ia_service_hashes a,
          ix_service_overflow = ia_overflow a\<rparr>)"

text \<open>The stores of \<^verbatim>\<open>write_index_frame\<close>, in their order.\<close>

definition index_record_parts :: "IndexFrame \<Rightarrow> byte list list" where
  "index_record_parts f =
     [write_u64_le (ix_file_offset f), write_u32_le (ix_frame_len f),
      write_u64_le (ix_min_realtime_ts f), write_u64_le (ix_max_realtime_ts f),
      write_u64_le (ix_min_monotonic_ts f), write_u64_le (ix_max_monotonic_ts f),
      [ix_priority f], write_u32_le (ix_entry_count f), [ix_service_filter_kind f]] @
     map write_u64_le (ix_service_hashes f) @ [[ix_service_overflow f]]"

definition decode_index_frame :: "byte list \<Rightarrow> IndexFrame" where
  "decode_index_frame record =
     \<lparr>ix_file_offset = read_u64_le record, ix_frame_len = read_u32_le (drop 8 record),
      ix_min_realtime_ts = read_u64_le (drop 12 record),
      ix_max_realtime_ts = read_u64_le (drop 20 record),
      ix_min_monotonic_ts = read_u64_le (drop 28 record),
      ix_max_monotonic_ts = read_u64_le (drop 36 record),
      ix_priority = record ! 44, ix_entry_count = read_u32_le (drop 45 record),
      ix_service_filter_kind = record ! 49,
      ix_service_hashes =
        map (\<lambda>i. read_u64_le (drop (50 + i * 8) record)) [0..<RECORDER_SERVICE_HASH_SLOTS],
      ix_service_overflow = record ! 82\<rparr>"

definition index_frame_may_contain_service :: "IndexFrame \<Rightarrow> byte list \<Rightarrow> bool" where
  "index_frame_may_contain_service frame unit =
     (if ix_service_filter_kind frame \<noteq> 1 \<or> ix_service_overflow frame \<noteq> 0 then True
      else fnv1a64 unit \<in> set (take RECORDER_SERVICE_HASH_SLOTS (ix_service_hashes frame)))"

subsection \<open>Writing\<close>

text \<open>
  The stores are not checked one by one: \<^verbatim>\<open>ferror\<close> is set by any short write and stays set,
  and later stores still go to the stream.
\<close>

record IndexWriter =
  iw_fp :: FILE
  iw_ferror :: bool
  iw_path :: string
  iw_record_count :: u64

fun store_parts :: "byte list list \<Rightarrow> FILE \<times> bool \<Rightarrow> FILE \<times> bool" where
  "store_parts [] s = s"
| "store_parts (b # bs) (fp, err) =
     (case fwrite b fp of (n, fp') \<Rightarrow> store_parts bs (fp', err \<or> n \<noteq> length b))"

definition write_index_frame ::
    "flatcc \<Rightarrow> SegmentHeader \<Rightarrow> SegmentFrameInfo \<Rightarrow> byte list \<Rightarrow> IndexWriter \<Rightarrow> bool \<times> IndexWriter" where
  "write_index_frame F header frame chunk w =
     (case store_parts (index_record_parts (index_frame_of F header frame chunk))
             (iw_fp w, iw_ferror w) of
        (fp, err) \<Rightarrow> (\<not> err, w\<lparr>iw_fp := fp, iw_ferror := err\<rparr>))"

definition index_header :: "u64 \<Rightarrow> u32 \<Rightarrow> byte list" where
  "index_header segment_seq flags =
     RECORDER_INDEX_MAGIC @ write_u32_le RECORDER_INDEX_VERSION @ write_u64_le segment_seq @
     write_u32_le flags"

text \<open>
  Opening truncates the file. The stream the \<^verbatim>\<open>fopen\<close> call returned is an argument
  (\<^verbatim>\<open>None\<close>: the call failed); a failed write of the header closes it and unlinks the path.
\<close>

definition index_writer_open :: "FILE option \<Rightarrow> string \<Rightarrow> u64 \<Rightarrow> u32 \<Rightarrow> IndexWriter option" where
  "index_writer_open opened path segment_seq flags =
     (case opened of
        None \<Rightarrow> None
      | Some fp \<Rightarrow>
          (case fwrite (index_header segment_seq flags) fp of
             (n, fp') \<Rightarrow>
               if n \<noteq> RECORDER_INDEX_HEADER_SIZE then None
               else Some \<lparr>iw_fp = fp', iw_ferror = False, iw_path = path, iw_record_count = 0\<rparr>))"

definition index_writer_append ::
    "flatcc \<Rightarrow> SegmentHeader \<Rightarrow> SegmentFrameInfo \<Rightarrow> byte list \<Rightarrow> IndexWriter \<Rightarrow> bool \<times> IndexWriter" where
  "index_writer_append F header frame chunk w =
     (case write_index_frame F header frame chunk w of
        (ok, w') \<Rightarrow>
          if \<not> ok then (False, w')
          else (True, w'\<lparr>iw_record_count := iw_record_count w' + 1\<rparr>))"

definition index_footer :: "IndexWriter \<Rightarrow> u64 \<Rightarrow> byte list" where
  "index_footer w segment_committed_end =
     RECORDER_INDEX_FOOTER_MAGIC @ write_u64_le (iw_record_count w) @
     write_u64_le segment_committed_end @ write_u32_le (recorder_crc32 (contents (iw_fp w)))"

definition index_writer_close :: "IndexWriter \<Rightarrow> u64 \<Rightarrow> bool \<times> FILE" where
  "index_writer_close w segment_committed_end =
     (case fwrite (index_footer w segment_committed_end) (iw_fp w) of
        (n, fp) \<Rightarrow> (n = RECORDER_INDEX_FOOTER_SIZE, fp))"

type_synonym files = "string \<rightharpoonup> byte list"

definition index_writer_abort :: "IndexWriter \<Rightarrow> bool \<Rightarrow> files \<Rightarrow> files" where
  "index_writer_abort w unlink_path fs =
     (if unlink_path then fs(iw_path w := None)
      else fs(iw_path w \<mapsto> contents (iw_fp w)))"

definition append_index_frame_cb :: "flatcc \<Rightarrow> IndexWriter segment_frame_cb" where
  "append_index_frame_cb F header frame chunk w =
     (case index_writer_append F header frame chunk w of (ok, w') \<Rightarrow> (if ok then 0 else - 1, w'))"

definition snprintf_str :: "nat \<Rightarrow> string \<Rightarrow> string" where
  "snprintf_str n s = take (n - 1) s"

text \<open>
  Rebuilding: \<^verbatim>\<open>opened\<close> is the outcome of \<^verbatim>\<open>fopen\<close> on the temporary path, \<^verbatim>\<open>rename_ok\<close>
  of the final \<^verbatim>\<open>rename\<close>. The index appears under its name only complete.
\<close>

definition index_rebuild_for_segment ::
    "lib \<Rightarrow> flatcc \<Rightarrow> files \<Rightarrow> string \<Rightarrow> string \<Rightarrow> pkey option \<Rightarrow> FILE option \<Rightarrow> bool \<Rightarrow>
     bool \<times> files" where
  "index_rebuild_for_segment L F fs segment_path index_path decryptor opened rename_ok =
     (let tmp_path = snprintf_str 512 (index_path @ ''.tmp'') in
      case segment_scan_path L (fs segment_path) decryptor None () of
        (Inl _, _) \<Rightarrow> (False, fs(tmp_path := None))
      | (Inr (header, footer, committed_end), _) \<Rightarrow>
          (case index_writer_open opened tmp_path (sh_segment_seq header) (sh_flags header) of
             None \<Rightarrow> (False, if opened = None then fs else fs(tmp_path := None))
           | Some writer \<Rightarrow>
               (case segment_scan_path L (fs segment_path) decryptor
                       (Some (append_index_frame_cb F)) writer of
                  (Inl _, writer') \<Rightarrow> (False, index_writer_abort writer' True fs)
                | (Inr _, writer') \<Rightarrow>
                    (case index_writer_close writer' (of_nat committed_end) of
                       (ok, fp) \<Rightarrow>
                         if \<not> ok \<or> \<not> rename_ok then (False, fs(tmp_path := None))
                         else (True, fs(tmp_path := None, index_path \<mapsto> contents fp))))))"

subsection \<open>Reading\<close>

definition index_pread_frame :: "byte list \<Rightarrow> nat \<Rightarrow> IndexFrame option" where
  "index_pread_frame file index =
     (let record = take RECORDER_INDEX_RECORD_SIZE
            (drop (RECORDER_INDEX_HEADER_SIZE + index * RECORDER_INDEX_RECORD_SIZE) file)
      in if length record \<noteq> RECORDER_INDEX_RECORD_SIZE then None
         else Some (decode_index_frame record))"

text \<open>The loop of \<^verbatim>\<open>index_validate_segment\<close>: frames \<^verbatim>\<open>i\<close> to \<^verbatim>\<open>count - 1\<close>, contiguous from \<^verbatim>\<open>expected_end\<close>.\<close>

function index_validate_frames :: "byte list \<Rightarrow> nat \<Rightarrow> nat \<Rightarrow> nat \<Rightarrow> nat \<Rightarrow> nat option" where
  "index_validate_frames file segment_size count i expected_end =
     (if i < count
      then
        (case index_pread_frame file i of
           None \<Rightarrow> None
         | Some frame \<Rightarrow>
             if ix_frame_len frame < 20 \<or> unat (ix_file_offset frame) \<noteq> expected_end \<or>
                unat (ix_frame_len frame) > segment_size - expected_end
             then None
             else index_validate_frames file segment_size count (i + 1)
                    (expected_end + unat (ix_frame_len frame)))
      else Some expected_end)"
  by pat_completeness auto
termination
  by (relation "measure (\<lambda>(file, segment_size, count, i, expected_end). count - i)") auto

declare index_validate_frames.simps [simp del]

definition index_validate_segment ::
    "byte list \<Rightarrow> nat \<Rightarrow> u64 \<Rightarrow> u32 \<Rightarrow> bool \<Rightarrow> u64 \<Rightarrow> byte list option \<Rightarrow> errno + unit" where
  "index_validate_segment file count index_segment_seq index_flags has_footer committed_end segment =
     (case (case segment of None \<Rightarrow> None | Some buf \<Rightarrow> segment_read_path_header buf) of
        None \<Rightarrow> Inl EINVAL
      | Some (header, data_offset, segment_size) \<Rightarrow>
          if sh_segment_seq header \<noteq> index_segment_seq \<or> sh_flags header \<noteq> index_flags
          then Inl EINVAL
          else
            (case index_validate_frames file segment_size count 0 data_offset of
               None \<Rightarrow> Inl EINVAL
             | Some expected_end \<Rightarrow>
                 if has_footer \<and> unat committed_end \<noteq> segment_size \<or>
                    \<not> has_footer \<and> expected_end \<noteq> segment_size
                 then Inl ESTALE
                 else Inr ()))"

definition index_open_read :: "byte list option \<Rightarrow> byte list option \<Rightarrow> errno + nat" where
  "index_open_read index segment =
     (case index of
        None \<Rightarrow> Inl EOTHER
      | Some file \<Rightarrow>
          (let st_size = length file in
           if st_size < RECORDER_INDEX_HEADER_SIZE then Inl EOTHER
           else if take 8 file \<noteq> RECORDER_INDEX_MAGIC then Inl EINVAL
           else if read_u32_le (drop 8 file) \<noteq> RECORDER_INDEX_VERSION then Inl EPROTONOSUPPORT
           else
             (let indexed_size = st_size - RECORDER_INDEX_HEADER_SIZE;
                  footer = drop (st_size - RECORDER_INDEX_FOOTER_SIZE) file
              in case (if st_size \<ge> RECORDER_INDEX_HEADER_SIZE + RECORDER_INDEX_FOOTER_SIZE \<and>
                          take 8 footer = RECORDER_INDEX_FOOTER_MAGIC
                       then
                         (let available = (indexed_size - RECORDER_INDEX_FOOTER_SIZE) div
                                RECORDER_INDEX_RECORD_SIZE;
                              count = unat (read_u64_le (drop 8 footer))
                          in if count \<noteq> available \<or>
                                (indexed_size - RECORDER_INDEX_FOOTER_SIZE) mod
                                  RECORDER_INDEX_RECORD_SIZE \<noteq> 0
                             then Inl EPROTONOSUPPORT
                             else if recorder_crc32 (take (st_size - RECORDER_INDEX_FOOTER_SIZE) file) \<noteq>
                                     read_u32_le (drop 24 footer)
                             then Inl EINVAL
                             else Inr (True, count, read_u64_le (drop 16 footer)))
                       else if indexed_size mod RECORDER_INDEX_RECORD_SIZE \<noteq> 0 then Inl EINVAL
                       else Inr (False, indexed_size div RECORDER_INDEX_RECORD_SIZE, 0)) of
                   Inl e \<Rightarrow> Inl e
                 | Inr (has_footer, count, committed_end) \<Rightarrow>
                     (case index_validate_segment file count (read_u64_le (drop 12 file))
                             (read_u32_le (drop 20 file)) has_footer committed_end segment of
                        Inl e \<Rightarrow> Inl e
                      | Inr _ \<Rightarrow> Inr count))))"

record IndexReader =
  ir_file :: "byte list"
  ir_frame_count :: nat

definition index_reader_open :: "byte list option \<Rightarrow> byte list option \<Rightarrow> errno + IndexReader" where
  "index_reader_open index segment =
     (case index_open_read index segment of
        Inl e \<Rightarrow> Inl e
      | Inr count \<Rightarrow> Inr \<lparr>ir_file = the index, ir_frame_count = count\<rparr>)"

definition index_reader_frame_count :: "IndexReader option \<Rightarrow> nat" where
  "index_reader_frame_count reader = (case reader of None \<Rightarrow> 0 | Some r \<Rightarrow> ir_frame_count r)"

definition index_reader_read_frame :: "IndexReader \<Rightarrow> nat \<Rightarrow> IndexFrame option" where
  "index_reader_read_frame reader frame_index =
     (if frame_index \<ge> ir_frame_count reader then None
      else index_pread_frame (ir_file reader) frame_index)"

definition index_get_frame_count :: "byte list option \<Rightarrow> byte list option \<Rightarrow> nat option" where
  "index_get_frame_count index segment =
     (case index_open_read index segment of Inl _ \<Rightarrow> None | Inr count \<Rightarrow> Some count)"

definition index_read_frame :: "byte list option \<Rightarrow> byte list option \<Rightarrow> nat \<Rightarrow> IndexFrame option" where
  "index_read_frame index segment frame_index =
     (case index_open_read index segment of
        Inl _ \<Rightarrow> None
      | Inr count \<Rightarrow>
          if frame_index < count then index_pread_frame (the index) frame_index else None)"

function index_scan_loop ::
    "(IndexFrame \<Rightarrow> 'u \<Rightarrow> int \<times> 'u) \<Rightarrow> byte list \<Rightarrow> nat \<Rightarrow> nat \<Rightarrow> 'u \<Rightarrow> bool \<times> 'u" where
  "index_scan_loop callback file count i userdata =
     (if i < count
      then
        (case index_pread_frame file i of
           None \<Rightarrow> (False, userdata)
         | Some frame \<Rightarrow>
             (case callback frame userdata of
                (rv, userdata') \<Rightarrow>
                  if rv \<noteq> 0 then (False, userdata')
                  else index_scan_loop callback file count (i + 1) userdata'))
      else (True, userdata))"
  by pat_completeness auto
termination
  by (relation "measure (\<lambda>(callback, file, count, i, userdata). count - i)") auto

declare index_scan_loop.simps [simp del]

definition index_scan_frames ::
    "byte list option \<Rightarrow> byte list option \<Rightarrow> (IndexFrame \<Rightarrow> 'u \<Rightarrow> int \<times> 'u) \<Rightarrow> 'u \<Rightarrow> bool \<times> 'u" where
  "index_scan_frames index segment callback userdata =
     (case index_open_read index segment of
        Inl _ \<Rightarrow> (False, userdata)
      | Inr count \<Rightarrow> index_scan_loop callback (the index) count 0 userdata)"

text \<open>
  The binary searches: the loop is the same in the three functions, over the key the
  function compares. \<^verbatim>\<open>NotFound\<close> is the return value 1.
\<close>

function index_lower_bound ::
    "(IndexFrame \<Rightarrow> u64) \<Rightarrow> u64 \<Rightarrow> byte list \<Rightarrow> nat \<Rightarrow> nat \<Rightarrow> nat option" where
  "index_lower_bound key usec file lo hi =
     (if lo < hi
      then
        let mid = lo + (hi - lo) div 2 in
        (case index_pread_frame file mid of
           None \<Rightarrow> None
         | Some frame \<Rightarrow>
             if key frame < usec then index_lower_bound key usec file (mid + 1) hi
             else index_lower_bound key usec file lo mid)
      else Some lo)"
  by pat_completeness auto
termination
  by (relation "measure (\<lambda>(key, usec, file, lo, hi). hi - lo)") (auto simp: Let_def)

declare index_lower_bound.simps [simp del]

datatype find_result = FindError | NotFound | Found IndexFrame nat

definition index_find_realtime_frame :: "byte list option \<Rightarrow> byte list option \<Rightarrow> u64 \<Rightarrow> find_result" where
  "index_find_realtime_frame index segment usec =
     (case index_open_read index segment of
        Inl _ \<Rightarrow> FindError
      | Inr count \<Rightarrow>
          (case index_lower_bound ix_max_realtime_ts usec (the index) 0 count of
             None \<Rightarrow> FindError
           | Some lo \<Rightarrow>
               if lo < count
               then (case index_pread_frame (the index) lo of
                       None \<Rightarrow> FindError
                     | Some frame \<Rightarrow> Found frame lo)
               else NotFound))"

definition index_find_monotonic_frame :: "byte list option \<Rightarrow> byte list option \<Rightarrow> u64 \<Rightarrow> find_result" where
  "index_find_monotonic_frame index segment usec =
     (case index_open_read index segment of
        Inl _ \<Rightarrow> FindError
      | Inr count \<Rightarrow>
          (case index_lower_bound ix_max_monotonic_ts usec (the index) 0 count of
             None \<Rightarrow> FindError
           | Some lo \<Rightarrow>
               if lo < count
               then (case index_pread_frame (the index) lo of
                       None \<Rightarrow> FindError
                     | Some frame \<Rightarrow> Found frame lo)
               else NotFound))"

definition index_find_offset_frame :: "byte list option \<Rightarrow> byte list option \<Rightarrow> u64 \<Rightarrow> find_result" where
  "index_find_offset_frame index segment file_offset =
     (case index_open_read index segment of
        Inl _ \<Rightarrow> FindError
      | Inr count \<Rightarrow>
          (case index_lower_bound ix_file_offset file_offset (the index) 0 count of
             None \<Rightarrow> FindError
           | Some lo \<Rightarrow>
               if lo < count
               then (case index_pread_frame (the index) lo of
                       None \<Rightarrow> FindError
                     | Some frame \<Rightarrow>
                         if ix_file_offset frame = file_offset then Found frame lo else FindError)
               else FindError))"


subsection \<open>The record codec\<close>

definition index_record :: "IndexFrame \<Rightarrow> byte list" where
  "index_record f = concat (index_record_parts f)"

lemma four_hashes: "length hs = 4 \<Longrightarrow> \<exists>a b c d. hs = [a, b, c, d]"
  by (cases hs; cases "tl hs"; cases "tl (tl hs)"; cases "tl (tl (tl hs))") auto

lemma index_record_layout:
  "length (ix_service_hashes f) = 4 \<Longrightarrow>
   length (index_record f) = 83 \<and> decode_index_frame (index_record f @ rest) = f"
proof -
  assume "length (ix_service_hashes f) = 4"
  then obtain a b c d where hs: "ix_service_hashes f = [a, b, c, d]" using four_hashes by blast
  then show ?thesis
    by (simp add: index_record_def index_record_parts_def decode_index_frame_def upt_rec nth_append)
qed

interpretation ixrec: record_codec index_record decode_index_frame 83
    "\<lambda>f. length (ix_service_hashes f) = 4"
  by unfold_locales (simp_all add: index_record_layout)

subsection \<open>What a record says of its chunk\<close>

text \<open>The state of the accumulators after some of the entries.\<close>

definition acc_inv :: "ChunkEntry list \<Rightarrow> index_acc \<Rightarrow> bool" where
  "acc_inv es a \<longleftrightarrow>
     length (ia_service_hashes a) = 4 \<and> ia_service_count a \<le> 4 \<and>
     (\<forall>e \<in> set es.
        ia_min_rt a \<le> ce_realtime_ts e \<and> ce_realtime_ts e \<le> ia_max_rt a \<and>
        ia_min_mono a \<le> ce_monotonic_ts e \<and> ce_monotonic_ts e \<le> ia_max_mono a \<and>
        (\<forall>u. ce_unit e = Some u \<longrightarrow>
           ia_overflow a \<noteq> 0 \<or> fnv1a64 u \<in> set (take (ia_service_count a) (ia_service_hashes a))))"

lemma take_update_next: "n < length xs \<Longrightarrow> take (Suc n) (xs[n := x]) = take n xs @ [x]"
  by (simp add: take_Suc_conv_app_nth)

lemma add_entry_times:
  "ia_min_rt (index_add_entry e i a) = (if i = 0 \<or> ce_realtime_ts e < ia_min_rt a then ce_realtime_ts e else ia_min_rt a)"
  "ia_max_rt (index_add_entry e i a) = (if i = 0 \<or> ce_realtime_ts e > ia_max_rt a then ce_realtime_ts e else ia_max_rt a)"
  "ia_min_mono (index_add_entry e i a) =
     (if i = 0 \<or> ce_monotonic_ts e < ia_min_mono a then ce_monotonic_ts e else ia_min_mono a)"
  "ia_max_mono (index_add_entry e i a) =
     (if i = 0 \<or> ce_monotonic_ts e > ia_max_mono a then ce_monotonic_ts e else ia_max_mono a)"
  by (simp_all add: index_add_entry_def Let_def split: option.split)

lemma add_entry_service_state:
  "(ia_service_hashes (index_add_entry e i a), ia_service_count (index_add_entry e i a),
    ia_overflow (index_add_entry e i a)) =
   (case ce_unit e of
      None \<Rightarrow> (ia_service_hashes a, ia_service_count a, ia_overflow a)
    | Some u \<Rightarrow>
        if fnv1a64 u \<in> set (take (ia_service_count a) (ia_service_hashes a))
        then (ia_service_hashes a, ia_service_count a, ia_overflow a)
        else if ia_service_count a < 4
        then ((ia_service_hashes a)[ia_service_count a := fnv1a64 u], ia_service_count a + 1, ia_overflow a)
        else (ia_service_hashes a, ia_service_count a, 1))"
  by (simp add: index_add_entry_def Let_def split: option.split)

lemma add_entry_services:
  assumes l: "length (ia_service_hashes a) = 4" "ia_service_count a \<le> 4" and a': "a' = index_add_entry e i a"
  shows "length (ia_service_hashes a') = 4 \<and> ia_service_count a' \<le> 4 \<and>
    (ia_overflow a \<noteq> 0 \<longrightarrow> ia_overflow a' \<noteq> 0) \<and>
    set (take (ia_service_count a) (ia_service_hashes a)) \<subseteq> set (take (ia_service_count a') (ia_service_hashes a')) \<and>
    (\<forall>u. ce_unit e = Some u \<longrightarrow>
      ia_overflow a' \<noteq> 0 \<or> fnv1a64 u \<in> set (take (ia_service_count a') (ia_service_hashes a')))"
proof (cases "ce_unit e")
  case None
  with add_entry_service_state [of e i a] l show ?thesis by (simp add: a')
next
  case (Some u)
  note st = add_entry_service_state [of e i a, unfolded Some option.case]
  consider (seen) "fnv1a64 u \<in> set (take (ia_service_count a) (ia_service_hashes a))"
    | (slot) "fnv1a64 u \<notin> set (take (ia_service_count a) (ia_service_hashes a))" "ia_service_count a < 4"
    | (full) "fnv1a64 u \<notin> set (take (ia_service_count a) (ia_service_hashes a))" "\<not> ia_service_count a < 4"
    by blast
  then show ?thesis
  proof cases
    case slot
    with st l have "ia_service_hashes a' = (ia_service_hashes a)[ia_service_count a := fnv1a64 u]"
      "ia_service_count a' = Suc (ia_service_count a)" "ia_overflow a' = ia_overflow a"
      by (simp_all add: a')
    with slot l Some show ?thesis by (auto simp: take_update_next)
  qed (use st l Some in \<open>simp_all add: a'\<close>)
qed

definition in_bounds :: "index_acc \<Rightarrow> ChunkEntry \<Rightarrow> bool" where
  "in_bounds a e \<longleftrightarrow>
     ia_min_rt a \<le> ce_realtime_ts e \<and> ce_realtime_ts e \<le> ia_max_rt a \<and>
     ia_min_mono a \<le> ce_monotonic_ts e \<and> ce_monotonic_ts e \<le> ia_max_mono a"

lemma add_entry_in_bounds: "in_bounds (index_add_entry e i a) e"
  by (simp add: in_bounds_def add_entry_times linorder_not_less)

lemma add_entry_keeps_bounds: "in_bounds a x \<Longrightarrow> i \<noteq> 0 \<Longrightarrow> in_bounds (index_add_entry e i a) x"
  by (simp add: in_bounds_def add_entry_times)
    (meson less_imp_le order.trans)

lemma index_add_entry_inv:
  assumes "acc_inv es a"
  shows "acc_inv (es @ [e]) (index_add_entry e (length es) a)"
proof -
  let ?a = "index_add_entry e (length es) a"
  from assms have l: "length (ia_service_hashes a) = 4" "ia_service_count a \<le> 4"
    and old: "\<forall>x \<in> set es. in_bounds a x \<and> (\<forall>u. ce_unit x = Some u \<longrightarrow>
        ia_overflow a \<noteq> 0 \<or> fnv1a64 u \<in> set (take (ia_service_count a) (ia_service_hashes a)))"
    by (auto simp: acc_inv_def in_bounds_def)
  note sv = add_entry_services [OF l refl, where e = e and i = "length es"]
  have "in_bounds ?a x" if "x \<in> set (es @ [e])" for x
  proof (cases "x \<in> set es")
    case True
    then have "length es \<noteq> 0" by auto
    with True old show ?thesis by (intro add_entry_keeps_bounds) auto
  next
    case False
    with that show ?thesis by (simp add: add_entry_in_bounds)
  qed
  moreover have "ia_overflow ?a \<noteq> 0 \<or> fnv1a64 u \<in> set (take (ia_service_count ?a) (ia_service_hashes ?a))"
    if "x \<in> set (es @ [e])" "ce_unit x = Some u" for x u
    using that old sv by auto
  ultimately show ?thesis
    using sv by (simp add: acc_inv_def in_bounds_def)
qed

lemma index_add_entries_inv:
  "acc_inv es a \<Longrightarrow> acc_inv (es @ es') (index_add_entries es' (length es) a)"
proof (induction es' arbitrary: es a)
  case Nil
  then show ?case by simp
next
  case (Cons e es')
  from Cons.IH [OF index_add_entry_inv [OF Cons.prems, of e]] show ?case by simp
qed

lemma acc_inv_empty: "acc_inv [] empty_acc"
  by (simp add: acc_inv_def empty_acc_def)

lemma index_frame_acc:
  "acc_inv (chunk_entries F header chunk) (index_add_entries (chunk_entries F header chunk) 0 empty_acc)"
  using index_add_entries_inv [OF acc_inv_empty] by simp

lemma index_frame_hashes [simp]: "length (ix_service_hashes (index_frame_of F header frame chunk)) = 4"
  using index_frame_acc [of F header chunk] by (simp add: index_frame_of_def acc_inv_def Let_def)


subsection \<open>Any two callbacks see the same frames\<close>

definition with_cb :: "'c scan_env \<Rightarrow> 'd segment_frame_cb \<Rightarrow> 'd scan_env" where
  "with_cb env cb =
     \<lparr>env_lib = env_lib env, env_header = env_header env, env_encryption = env_encryption env,
      env_dek = env_dek env, env_dict = env_dict env, env_cb = Some cb, env_min = 0\<rparr>"

lemma with_cb_fields [simp]:
  "env_header (with_cb env cb) = env_header env" "env_cb (with_cb env cb) = Some cb" "env_min (with_cb env cb) = 0"
  "env_lib (with_cb env cb) = env_lib env" "env_encryption (with_cb env cb) = env_encryption env"
  "env_dek (with_cb env cb) = env_dek env" "env_dict (with_cb env cb) = env_dict env"
  by (simp_all add: with_cb_def)

text \<open>Frames that follow each other without a gap from an offset on, inside a file.\<close>

fun contiguous :: "nat \<Rightarrow> nat \<Rightarrow> (nat \<times> nat) list \<Rightarrow> bool" where
  "contiguous n off [] \<longleftrightarrow> off \<le> n"
| "contiguous n off ((o', len) # fs) \<longleftrightarrow>
     o' = off \<and> 20 \<le> len \<and> off + len \<le> n \<and> contiguous n (off + len) fs"

lemma contiguous_le: "contiguous n off fs \<Longrightarrow> off \<le> n"
  by (cases fs) auto

definition spans :: "(SegmentFrameInfo \<times> byte list) list \<Rightarrow> (nat \<times> nat) list" where
  "spans fs = map (\<lambda>(fr, _). (unat (fi_file_offset fr), unat (fi_frame_len fr))) fs"

lemma scan_loop_frames:
  "segment_scan_loop env buf offset idx ctx = (Inr (ft, e), ctx') \<Longrightarrow> env_cb env = Some cb \<Longrightarrow>
   env_min env = 0 \<Longrightarrow> offset \<le> length buf \<Longrightarrow> length buf < 2 ^ 64 \<Longrightarrow>
   \<exists>fs. run_cb cb (env_header env) fs ctx = (0, ctx') \<and> contiguous (length buf) offset (spans fs) \<and>
     (\<forall>c. segment_scan_loop (with_cb env (cb' :: 'd segment_frame_cb)) buf offset idx c =
        (case run_cb cb' (env_header env) fs c of
           (rv, c') \<Rightarrow> if rv \<noteq> 0 then (Inl (ScanCallback rv), c') else (Inr (ft, e), c')))"
proof (induction env buf offset idx ctx rule: segment_scan_loop.induct)
  case (1 env buf offset idx ctx)
  let ?p = "drop offset buf"
  let ?fr = "frame_info ?p offset"
  let ?pl = "frame_payload (env_lib env) (env_header env) (env_encryption env) (env_dek env) (env_dict env) idx ?fr ?p"
  have cbd: "frame_callback env idx ?fr ?p offset ctx =
      (case ?pl of FailScan e \<Rightarrow> (Inl (ScanErrno e), ctx) | StopScan \<Rightarrow> (Inr False, ctx)
       | Chunk chunk \<Rightarrow> (case cb (env_header env) ?fr chunk ctx of
            (rv, c) \<Rightarrow> (if rv \<noteq> 0 then Inl (ScanCallback rv) else Inr True, c)))"
    using "1.prems"(2,3) by (simp add: frame_callback_def)
  have cbd': "frame_callback (with_cb env cb') idx ?fr ?p offset c =
      (case ?pl of FailScan e \<Rightarrow> (Inl (ScanErrno e), c) | StopScan \<Rightarrow> (Inr False, c)
       | Chunk chunk \<Rightarrow> (case cb' (env_header env) ?fr chunk c of
            (rv, c) \<Rightarrow> (if rv \<noteq> 0 then Inl (ScanCallback rv) else Inr True, c)))" for c
    by (simp add: frame_callback_def split: payload.split)
  show ?case
  proof (cases "offset < length buf \<and> footer_at ?p = None \<and> frame_check (env_header env) ?fr ?p = FrameOk \<and>
      (\<exists>chunk. ?pl = Chunk chunk)")
    case False
    then have "ctx' = ctx" and
      "segment_scan_loop (with_cb env cb') buf offset idx c = (Inr (ft, e), c)" for c
      using "1.prems"(1) cbd cbd' [of c]
      by (auto simp: scan_unfold [of _ buf offset] split: option.splits frame_status.splits payload.splits if_splits)
    then show ?thesis
      using "1.prems"(4) by (intro exI [of _ "[]"]) (simp add: spans_def)
  next
    case True
    then obtain chunk where here: "offset < length buf" "footer_at ?p = None"
      "frame_check (env_header env) ?fr ?p = FrameOk" and pl: "?pl = Chunk chunk" by blast
    obtain rv c where cb: "cb (env_header env) ?fr chunk ctx = (rv, c)" by fastforce
    have rv: "rv = 0" and ne: "\<not> (encrypted (env_header env) \<and> idx = UINT64_MAX)" and
      rest: "segment_scan_loop env buf (offset + unat (fi_frame_len ?fr)) (idx + 1) c = (Inr (ft, e), ctx')"
      using "1.prems"(1) here pl cb cbd
      by (auto simp: scan_unfold [of _ buf offset] split: if_splits)
    have fits: "offset + unat (fi_frame_len ?fr) \<le> length buf" "20 \<le> unat (fi_frame_len ?fr)"
      using frame_ok_fits [OF here(3)] frame_ok_progress [OF here(3)] here(1) by simp_all
    have off: "unat (fi_file_offset ?fr) = offset"
      using "1.prems"(5) here(1) by (simp add: frame_info_def of_nat_inject_le)
    have cbt: "frame_callback env idx ?fr ?p offset ctx = (Inr True, c)"
      using cbd pl cb rv by simp
    from "1.IH" [OF here(1) refl refl here(2,3) cbt [symmetric] refl refl ne rest "1.prems"(2,3) fits(1) "1.prems"(5)]
    obtain fs where fs: "run_cb cb (env_header env) fs c = (0, ctx')"
      "contiguous (length buf) (offset + unat (fi_frame_len ?fr)) (spans fs)"
      "\<And>c. segment_scan_loop (with_cb env cb') buf (offset + unat (fi_frame_len ?fr)) (idx + 1) c =
        (case run_cb cb' (env_header env) fs c of
           (rv, c') \<Rightarrow> if rv \<noteq> 0 then (Inl (ScanCallback rv), c') else (Inr (ft, e), c'))" by blast
    have "segment_scan_loop (with_cb env cb') buf offset idx c0 =
        (case run_cb cb' (env_header env) ((?fr, chunk) # fs) c0 of
           (rv, c') \<Rightarrow> if rv \<noteq> 0 then (Inl (ScanCallback rv), c') else (Inr (ft, e), c'))" for c0
    proof -
      obtain rv0 c1 where cb0: "cb' (env_header env) ?fr chunk c0 = (rv0, c1)" by fastforce
      show ?thesis
        using here pl cbd' [of c0] cb0 fs(3) ne
        by (subst scan_unfold) auto
    qed
    moreover have "run_cb cb (env_header env) ((?fr, chunk) # fs) ctx = (0, ctx')"
      using cb rv fs(1) by simp
    moreover have "contiguous (length buf) offset (spans ((?fr, chunk) # fs))"
      using fits off fs(2) by (simp add: spans_def)
    ultimately show ?thesis by blast
  qed
qed

end
