(* ===== verification/Store.thy ===== *)
theory Store
  imports Index "HOL-Library.Char_ord"
begin

text \<open>
  The log directory as the recorder sees it, and the helpers of \<^verbatim>\<open>src/recorder.c\<close> and
  \<^verbatim>\<open>src/helper.c\<close> that work on it: path building, sequence numbers, the segment directories,
  atomic state files. The kernel is a \<^verbatim>\<open>world\<close>: directories and regular files by full path, in
  the order \<^verbatim>\<open>readdir\<close> lists them, and a script of failures: each call that may fail
  consumes one element, \<^verbatim>\<open>True\<close> makes it fail, an exhausted script lets every call succeed.
  Theorems quantify over the script.
\<close>

record sfile =
  f_data :: "byte list"
  f_mtime :: int

record world =
  w_log_dir :: string
  w_dirs :: "string list"
  w_files :: "(string \<times> sfile) list"
  w_faults :: "bool list"
  w_time :: int

definition fault :: "world \<Rightarrow> bool \<times> world" where
  "fault w = (case w_faults w of [] \<Rightarrow> (False, w) | b # bs \<Rightarrow> (b, w\<lparr>w_faults := bs\<rparr>))"

definition stat :: "string \<Rightarrow> world \<Rightarrow> sfile option" where
  "stat path w = map_of (w_files w) path"

definition read_file :: "string \<Rightarrow> world \<Rightarrow> byte list option" where
  "read_file path w = map_option f_data (stat path w)"

fun assoc_put :: "string \<Rightarrow> sfile \<Rightarrow> (string \<times> sfile) list \<Rightarrow> (string \<times> sfile) list" where
  "assoc_put p f [] = [(p, f)]"
| "assoc_put p f ((q, g) # fs) = (if p = q then (q, f) # fs else (q, g) # assoc_put p f fs)"

definition put_file :: "string \<Rightarrow> byte list \<Rightarrow> world \<Rightarrow> world" where
  "put_file path data w =
     w\<lparr>w_files := assoc_put path \<lparr>f_data = data, f_mtime = w_time w\<rparr> (w_files w)\<rparr>"

definition remove_file :: "string \<Rightarrow> world \<Rightarrow> world" where
  "remove_file path w = w\<lparr>w_files := filter (\<lambda>(p, f). p \<noteq> path) (w_files w)\<rparr>"

definition unlink :: "string \<Rightarrow> world \<Rightarrow> bool \<times> world" where
  "unlink path w =
     (case fault w of
        (failed, w') \<Rightarrow>
          if failed \<or> stat path w' = None then (False, w') else (True, remove_file path w'))"

definition rename :: "string \<Rightarrow> string \<Rightarrow> world \<Rightarrow> bool \<times> world" where
  "rename from dest w =
     (case fault w of
        (failed, w') \<Rightarrow>
          (case stat from w' of
             None \<Rightarrow> (False, w')
           | Some f \<Rightarrow>
               if failed then (False, w')
               else if from = dest then (True, w')
               else (True, put_file dest (f_data f) (remove_file from w'))))"

definition truncate_path :: "string \<Rightarrow> nat \<Rightarrow> world \<Rightarrow> bool \<times> world" where
  "truncate_path path n w =
     (case fault w of
        (failed, w') \<Rightarrow>
          (case stat path w' of
             None \<Rightarrow> (False, w')
           | Some f \<Rightarrow> if failed then (False, w') else (True, put_file path (take n (f_data f)) w')))"

text \<open>The names \<^verbatim>\<open>readdir\<close> gives for a directory, regular files and directories.\<close>

definition dir_entries :: "string \<Rightarrow> string list \<Rightarrow> string list" where
  "dir_entries d ps =
     map (drop (length d + 1))
       (filter (\<lambda>p. take (length d + 1) p = d @ ''/'' \<and> p \<noteq> d @ ''/'' \<and>
                    CHR ''/'' \<notin> set (drop (length d + 1) p)) ps)"

definition readdir_files :: "string \<Rightarrow> world \<Rightarrow> string list" where
  "readdir_files d w = dir_entries d (map fst (w_files w))"

definition readdir_dirs :: "string \<Rightarrow> world \<Rightarrow> string list" where
  "readdir_dirs d w = dir_entries d (w_dirs w)"

subsection \<open>\<open>mkdir_p\<close> and \<open>fsync_dir_path\<close>\<close>

definition mkdir :: "string \<Rightarrow> world \<Rightarrow> bool \<times> world" where
  "mkdir path w =
     (if path \<in> set (w_dirs w) then (True, w)
      else case fault w of
        (failed, w') \<Rightarrow>
          if failed then (False, w') else (True, w'\<lparr>w_dirs := w_dirs w' @ [path]\<rparr>))"

fun mkdir_all :: "string list \<Rightarrow> world \<Rightarrow> bool \<times> world" where
  "mkdir_all [] w = (True, w)"
| "mkdir_all (p # ps) w =
     (case mkdir p w of (ok, w') \<Rightarrow> if ok then mkdir_all ps w' else (False, w'))"

definition mkdir_p :: "string \<Rightarrow> world \<Rightarrow> bool \<times> world" where
  "mkdir_p path w =
     (let tmp = snprintf_str 512 path;
          tmp = (if tmp \<noteq> [] \<and> last tmp = CHR ''/'' then butlast tmp else tmp)
      in mkdir_all (map (\<lambda>i. take i tmp) (filter (\<lambda>i. tmp ! i = CHR ''/'') [1..<length tmp]) @ [tmp]) w)"

definition fsync_dir_path :: "string \<Rightarrow> world \<Rightarrow> bool \<times> world" where
  "fsync_dir_path path w =
     (case fault w of
        (open_failed, w') \<Rightarrow>
          if open_failed \<or> path \<notin> set (w_dirs w') then (False, w')
          else (case fault w' of (sync_failed, w'') \<Rightarrow> (\<not> sync_failed, w'')))"

subsection \<open>Paths\<close>

abbreviation (input) PATH_MAX :: nat where "PATH_MAX \<equiv> 4096"
abbreviation (input) MAX_GROUP_NAME_LEN :: nat where "MAX_GROUP_NAME_LEN \<equiv> 63"

definition join_path_suffix :: "nat \<Rightarrow> string \<Rightarrow> string \<Rightarrow> string option" where
  "join_path_suffix path_size base suffix =
     (if length base \<ge> path_size \<or> length suffix \<ge> path_size - length base then None
      else Some (base @ suffix))"

definition join_path_component :: "nat \<Rightarrow> string \<Rightarrow> string \<Rightarrow> string option" where
  "join_path_component path_size base name =
     (if length base \<ge> path_size \<or> length name \<ge> path_size - length base \<or>
         path_size - length base - length name \<le> 1
      then None
      else Some (base @ ''/'' @ name))"

definition build_log_path :: "world \<Rightarrow> nat \<Rightarrow> string \<Rightarrow> string option" where
  "build_log_path w path_size suffix = join_path_suffix path_size (w_log_dir w) suffix"

definition is_alnum :: "char \<Rightarrow> bool" where
  "is_alnum c \<longleftrightarrow>
     CHR ''0'' \<le> c \<and> c \<le> CHR ''9'' \<or> CHR ''A'' \<le> c \<and> c \<le> CHR ''Z'' \<or>
     CHR ''a'' \<le> c \<and> c \<le> CHR ''z''"

definition valid_group_name :: "string \<Rightarrow> bool" where
  "valid_group_name name \<longleftrightarrow>
     name \<noteq> [] \<and> list_all (\<lambda>ch. is_alnum ch \<or> ch = CHR ''_'' \<or> ch = CHR ''-'') name"

definition is_state_dir_name :: "string \<Rightarrow> bool" where
  "is_state_dir_name name \<longleftrightarrow> name = ''state''"

definition is_segment_dir_name :: "string \<Rightarrow> bool" where
  "is_segment_dir_name name \<longleftrightarrow> valid_group_name name \<and> \<not> is_state_dir_name name"

definition build_segment_dir :: "world \<Rightarrow> nat \<Rightarrow> string \<Rightarrow> string option" where
  "build_segment_dir w bufsz dir_name = join_path_component bufsz (w_log_dir w) dir_name"

definition build_state_segment_seq_path :: "world \<Rightarrow> nat \<Rightarrow> string option" where
  "build_state_segment_seq_path w bufsz = build_log_path w bufsz ''/state/segment_seq''"

definition build_state_boots_path :: "world \<Rightarrow> nat \<Rightarrow> string option" where
  "build_state_boots_path w bufsz = build_log_path w bufsz ''/state/boots''"

definition build_state_lock_path :: "world \<Rightarrow> nat \<Rightarrow> string option" where
  "build_state_lock_path w bufsz = build_log_path w bufsz ''/state/store.lock''"

definition build_state_store_id_path :: "world \<Rightarrow> nat \<Rightarrow> string option" where
  "build_state_store_id_path w bufsz = build_log_path w bufsz ''/state/store-id''"

text \<open>Decimal output (\<^verbatim>\<open>PRIu64\<close>).\<close>

definition digit_char :: "nat \<Rightarrow> char" where
  "digit_char d = char_of (48 + d)"

function decimal :: "nat \<Rightarrow> string" where
  "decimal n = (if n < 10 then [digit_char n] else decimal (n div 10) @ [digit_char (n mod 10)])"
  by pat_completeness auto
termination by (relation "measure id") auto

declare decimal.simps [simp del]

definition build_seq_path :: "world \<Rightarrow> nat \<Rightarrow> string \<Rightarrow> u64 \<Rightarrow> string \<Rightarrow> string option" where
  "build_seq_path w bufsz dir_name sq ext =
     (case build_segment_dir w PATH_MAX dir_name of
        None \<Rightarrow> None
      | Some dir \<Rightarrow>
          (let name = decimal (unat sq) @ ext in
           if length name \<ge> 32 then None else join_path_component bufsz dir name))"

definition build_segment_path :: "world \<Rightarrow> nat \<Rightarrow> string \<Rightarrow> u64 \<Rightarrow> string option" where
  "build_segment_path w bufsz dir_name sq = build_seq_path w bufsz dir_name sq ''.seg''"

definition build_segment_tmp_path :: "world \<Rightarrow> nat \<Rightarrow> string \<Rightarrow> u64 \<Rightarrow> string option" where
  "build_segment_tmp_path w bufsz dir_name sq = build_seq_path w bufsz dir_name sq ''.seg.tmp''"

definition build_index_path :: "world \<Rightarrow> nat \<Rightarrow> string \<Rightarrow> u64 \<Rightarrow> string option" where
  "build_index_path w bufsz dir_name sq = build_seq_path w bufsz dir_name sq ''.idx''"

subsection \<open>Parsing numbers\<close>

text \<open>
  \<^verbatim>\<open>strtoull\<close> in base 10: leading white space, an optional sign, digits. A minus sign
  negates modulo \<^verbatim>\<open>2 ^ 64\<close>; too large a value saturates and sets \<^verbatim>\<open>errno\<close>; without digits
  the value is 0 and the end pointer is the start of the text.
\<close>

definition is_digit :: "char \<Rightarrow> bool" where
  "is_digit c \<longleftrightarrow> CHR ''0'' \<le> c \<and> c \<le> CHR ''9''"

definition is_space :: "char \<Rightarrow> bool" where
  "is_space c \<longleftrightarrow> of_char c = (32 :: nat) \<or> (9 :: nat) \<le> of_char c \<and> of_char c \<le> (13 :: nat)"

definition digit_val :: "char \<Rightarrow> nat" where
  "digit_val c = of_char c - 48"

definition decimal_value :: "string \<Rightarrow> nat" where
  "decimal_value ds = foldl (\<lambda>v c. 10 * v + digit_val c) 0 ds"

record strtoull_result =
  st_value :: u64
  st_range_error :: bool
  st_end :: string

definition strtoull :: "string \<Rightarrow> strtoull_result" where
  "strtoull text =
     (let s = dropWhile is_space text;
          neg = (s \<noteq> [] \<and> hd s = CHR ''-'');
          s' = (if s \<noteq> [] \<and> (hd s = CHR ''-'' \<or> hd s = CHR ''+'') then tl s else s);
          ds = takeWhile is_digit s'
      in if ds = [] then \<lparr>st_value = 0, st_range_error = False, st_end = text\<rparr>
         else if decimal_value ds > 18446744073709551615
         then \<lparr>st_value = UINT64_MAX, st_range_error = True, st_end = dropWhile is_digit s'\<rparr>
         else \<lparr>st_value = (if neg then - of_nat (decimal_value ds) else of_nat (decimal_value ds)),
               st_range_error = False, st_end = dropWhile is_digit s'\<rparr>)"

definition segment_seq_from_name :: "string \<Rightarrow> u64 option" where
  "segment_seq_from_name name =
     (let r = strtoull name in
      if st_range_error r \<or> st_end r \<noteq> ''.seg'' then None else Some (st_value r))"

definition parse_size_string :: "string \<Rightarrow> u64 option" where
  "parse_size_string text =
     (let r = strtoull text; e = st_end r in
      if st_range_error r \<or> e = text then None
      else
        case (if e = [] then Some 1
              else if tl e \<noteq> [] then None
              else if hd e \<in> {CHR ''k'', CHR ''K''} then Some 1024
              else if hd e \<in> {CHR ''m'', CHR ''M''} then Some (1024 * 1024)
              else if hd e \<in> {CHR ''g'', CHR ''G''} then Some (1024 * 1024 * 1024)
              else None) of
          None \<Rightarrow> None
        | Some (scale :: u64) \<Rightarrow>
            if st_value r > UINT64_MAX div scale then None else Some (st_value r * scale))"

subsection \<open>Segment directories and sequence numbers\<close>

definition segment_dirs :: "world \<Rightarrow> string list" where
  "segment_dirs w =
     filter (\<lambda>d. is_segment_dir_name d \<and> build_segment_dir w PATH_MAX d \<noteq> None)
       (readdir_dirs (w_log_dir w) w)"

definition for_each_segment_dir :: "(string \<Rightarrow> world \<times> 'c \<Rightarrow> world \<times> 'c) \<Rightarrow> world \<times> 'c \<Rightarrow> world \<times> 'c" where
  "for_each_segment_dir fn s = fold fn (segment_dirs (fst s)) s"

definition segment_dir_names :: "string \<Rightarrow> world \<Rightarrow> string list" where
  "segment_dir_names dir_name w =
     (case build_segment_dir w PATH_MAX dir_name of None \<Rightarrow> [] | Some d \<Rightarrow> readdir_files d w)"

record ScanMaxCtx =
  sm_max_seq :: u64
  sm_found :: bool

definition scan_max_step :: "string \<Rightarrow> ScanMaxCtx \<Rightarrow> ScanMaxCtx" where
  "scan_max_step name scan =
     (case segment_seq_from_name name of
        None \<Rightarrow> scan
      | Some sq \<Rightarrow>
          if \<not> sm_found scan \<or> sq > sm_max_seq scan
          then \<lparr>sm_max_seq = sq, sm_found = True\<rparr> else scan)"

definition scan_existing_segment_seq_max_cb :: "string \<Rightarrow> world \<times> ScanMaxCtx \<Rightarrow> world \<times> ScanMaxCtx" where
  "scan_existing_segment_seq_max_cb dir_name s =
     (case s of (w, scan) \<Rightarrow> (w, fold scan_max_step (segment_dir_names dir_name w) scan))"

definition scan_existing_segment_seq_max :: "world \<Rightarrow> u64" where
  "scan_existing_segment_seq_max w =
     (let ctx = snd (for_each_segment_dir scan_existing_segment_seq_max_cb
                       (w, \<lparr>sm_max_seq = 0, sm_found = False\<rparr>))
      in if sm_found ctx then sm_max_seq ctx else 0)"

definition bytes_str :: "byte list \<Rightarrow> string" where
  "bytes_str bs = map (\<lambda>b. char_of (unat b)) bs"

definition read_persisted_next_segment_seq :: "world \<Rightarrow> u64 option" where
  "read_persisted_next_segment_seq w =
     (case build_state_segment_seq_path w 512 of
        None \<Rightarrow> None
      | Some path \<Rightarrow>
          (case read_file path w of
             None \<Rightarrow> None
           | Some raw \<Rightarrow>
               (let r = strtoull (bytes_str (cstr raw)) in
                if st_range_error r \<or> \<not> (st_end r = [] \<or> hd (st_end r) = CHR 0x0A) then None
                else Some (st_value r))))"

text \<open>
  Replacing a state file: the directory is created, the text goes to a temporary file that is
  flushed and synced, then renamed over the old one.
\<close>

definition dir_of_path :: "string \<Rightarrow> string option" where
  "dir_of_path path =
     (if CHR ''/'' \<in> set path
      then Some (rev (drop 1 (dropWhile (\<lambda>c. c \<noteq> CHR ''/'') (rev path)))) else None)"

definition atomic_write_text_file :: "string \<Rightarrow> string \<Rightarrow> world \<Rightarrow> bool \<times> world" where
  "atomic_write_text_file path text w =
     (case dir_of_path path of
        None \<Rightarrow> (True, w)
      | Some dir_path \<Rightarrow>
          (case mkdir_p dir_path w of
             (False, w1) \<Rightarrow> (False, w1)
           | (True, w1) \<Rightarrow>
               (let tmp_path = snprintf_str 512 (path @ ''.tmp'') in
                case fault w1 of
                  (True, w2) \<Rightarrow> (False, w2)
                | (False, w2) \<Rightarrow>
                    (case fault (put_file tmp_path (str_bytes text) w2) of
                       (True, w3) \<Rightarrow> (False, snd (unlink tmp_path w3))
                     | (False, w3) \<Rightarrow>
                         (case rename tmp_path path w3 of
                            (False, w4) \<Rightarrow> (False, snd (unlink tmp_path w4))
                          | (True, w4) \<Rightarrow> fsync_dir_path dir_path w4)))))"

definition persist_next_segment_seq :: "u64 \<Rightarrow> world \<Rightarrow> bool \<times> world" where
  "persist_next_segment_seq value w =
     (case build_state_segment_seq_path w 512 of
        None \<Rightarrow> (False, w)
      | Some path \<Rightarrow> atomic_write_text_file path (decimal (unat value) @ [CHR 0x0A]) w)"


subsection \<open>Decimal numbers round trip\<close>

lemma digit_char_facts:
  assumes "d < 10"
  shows "is_digit (digit_char d)" and "digit_val (digit_char d) = d" and "\<not> is_space (digit_char d)"
    and "digit_char d \<noteq> CHR ''-''" and "digit_char d \<noteq> CHR ''+''" and "digit_char d \<noteq> CHR ''/''"
proof -
  have "\<forall>d \<in> set [0..<10]. is_digit (digit_char d) \<and> digit_val (digit_char d) = d \<and>
      \<not> is_space (digit_char d) \<and> digit_char d \<noteq> CHR ''-'' \<and> digit_char d \<noteq> CHR ''+'' \<and> digit_char d \<noteq> CHR ''/''"
    by code_simp
  with assms show "is_digit (digit_char d)" "digit_val (digit_char d) = d" "\<not> is_space (digit_char d)"
    "digit_char d \<noteq> CHR ''-''" "digit_char d \<noteq> CHR ''+''" "digit_char d \<noteq> CHR ''/''"
    by simp_all
qed

lemma decimal_digits: "list_all (\<lambda>c. \<exists>d < 10. c = digit_char d) (decimal n)"
proof (induction n rule: decimal.induct)
  case (1 n)
  have "\<exists>d < 10. digit_char (n mod 10) = digit_char d" by (rule exI [of _ "n mod 10"]) simp
  then show ?case
    by (subst decimal.simps) (use 1 in auto)
qed

lemma decimal_nonempty [simp]: "decimal n \<noteq> []"
  by (subst decimal.simps) simp

lemma decimal_value_snoc: "decimal_value (ds @ [c]) = 10 * decimal_value ds + digit_val c"
  by (simp add: decimal_value_def)

lemma decimal_value_decimal [simp]: "decimal_value (decimal n) = n"
proof (induction n rule: decimal.induct)
  case (1 n)
  show ?case
  proof (cases "n < 10")
    case True
    then show ?thesis
      by (subst decimal.simps) (simp add: decimal_value_def digit_char_facts)
  next
    case False
    with 1 show ?thesis
      by (subst decimal.simps) (simp add: decimal_value_snoc digit_char_facts)
  qed
qed

lemma decimal_is_digits: "list_all is_digit (decimal n)"
  using decimal_digits [of n] by (auto simp: list_all_iff digit_char_facts)

lemma length_decimal: "n < 10 ^ k \<Longrightarrow> 0 < k \<Longrightarrow> length (decimal n) \<le> k"
proof (induction n arbitrary: k rule: decimal.induct)
  case (1 n)
  show ?case
  proof (cases "n < 10")
    case True
    then show ?thesis using 1 by (subst decimal.simps) simp
  next
    case False
    with 1(2) obtain j where k: "k = Suc j" "0 < j" by (cases k; cases "k - 1") auto
    have "n div 10 < 10 ^ j" using 1(2) k by (simp add: div_less_iff_less_mult mult.commute)
    from 1(1) [OF False this k(2)] False k show ?thesis by (subst decimal.simps) simp
  qed
qed

lemma length_decimal_u64: "length (decimal (unat (n :: u64))) \<le> 20"
proof -
  have "unat n < 2 ^ 64" by (rule order_less_le_trans [OF unsigned_less]) simp
  also have "(2 :: nat) ^ 64 < 10 ^ 20" by simp
  finally show ?thesis by (rule length_decimal) simp
qed

lemma decimal_head:
  obtains d ds where "decimal n = digit_char d # ds" and "d < 10"
  using decimal_digits [of n] by (cases "decimal n") auto

definition no_digit_head :: "string \<Rightarrow> bool" where
  "no_digit_head s \<longleftrightarrow> (case s of [] \<Rightarrow> True | c # _ \<Rightarrow> \<not> is_digit c)"

lemma digits_split:
  assumes "list_all is_digit ds" and "no_digit_head rest"
  shows "takeWhile is_digit (ds @ rest) = ds" and "dropWhile is_digit (ds @ rest) = rest"
  using assms
  by (induction ds) (auto simp: no_digit_head_def split: list.splits)

lemma strtoull_decimal:
  assumes "n \<le> 18446744073709551615" and "no_digit_head rest"
  shows "strtoull (decimal n @ rest) = \<lparr>st_value = of_nat n, st_range_error = False, st_end = rest\<rparr>"
proof -
  obtain d ds where h: "decimal n = digit_char d # ds" "d < 10" by (rule decimal_head)
  have sp: "dropWhile is_space (decimal n @ rest) = decimal n @ rest"
    using h by (simp add: digit_char_facts)
  have sg: "hd (decimal n @ rest) \<noteq> CHR ''-''" "hd (decimal n @ rest) \<noteq> CHR ''+''"
    using h by (simp_all add: digit_char_facts)
  show ?thesis
    unfolding strtoull_def Let_def sp
    using sg digits_split [OF decimal_is_digits assms(2)] assms(1) by simp
qed

lemma seq_name_roundtrip: "segment_seq_from_name (decimal (unat sq) @ ''.seg'') = Some sq"
proof -
  have "no_digit_head ''.seg''" by (simp add: no_digit_head_def is_digit_def)
  moreover have "unat sq \<le> 18446744073709551615" using unat_u64_less [of sq] by simp
  ultimately show ?thesis
    by (simp add: segment_seq_from_name_def strtoull_decimal)
qed

definition suffix_scale :: "string \<Rightarrow> nat option" where
  "suffix_scale s =
     (if s = '''' then Some 1
      else if s \<in> {''k'', ''K''} then Some 1024
      else if s \<in> {''m'', ''M''} then Some (1024 ^ 2)
      else if s \<in> {''g'', ''G''} then Some (1024 ^ 3) else None)"

lemma scale_fits:
  assumes "n \<le> 18446744073709551615" and "0 < k" and "k < 18446744073709551616"
  shows "(if (of_nat n :: u64) > UINT64_MAX div of_nat k then None else Some (of_nat n * of_nat k)) =
    (if n * k \<le> 18446744073709551615 then Some (of_nat (n * k)) else (None :: u64 option))"
proof -
  have u: "unat (of_nat n :: u64) = n" "unat (of_nat k :: u64) = k"
    using assms by (simp_all add: of_nat_inject_le)
  have "(of_nat n :: u64) > UINT64_MAX div of_nat k \<longleftrightarrow> n > 18446744073709551615 div k"
    unfolding word_less_nat_alt unat_div u by simp
  also have "\<dots> \<longleftrightarrow> \<not> n * k \<le> 18446744073709551615"
    using assms(2) by (simp add: div_less_iff_less_mult linorder_not_le)
  finally show ?thesis by simp
qed

text \<open>
  C14. A size in the configuration is parsed exactly: a decimal number with no suffix or with
  one of the suffixes K, M and G in either case gives the number times its power of 1024 when that fits in
  64 bits, and is refused, never wrapped, when it does not.
\<close>

theorem parse_size_exact:
  assumes "n \<le> 18446744073709551615" and "suffix_scale s = Some k"
  shows "parse_size_string (decimal n @ s) =
    (if n * k \<le> 18446744073709551615 then Some (of_nat (n * k)) else None)"
proof -
  have cases: "s = [] \<and> k = 1 \<or> s \<in> {''k'', ''K''} \<and> k = 1024 \<or> s \<in> {''m'', ''M''} \<and> k = 1024 ^ 2 \<or>
      s \<in> {''g'', ''G''} \<and> k = 1024 ^ 3"
    using assms(2) unfolding suffix_scale_def by (metis option.distinct(1) option.inject)
  have k: "0 < k" "k < 18446744073709551616" using cases by auto
  have nd: "no_digit_head s"
    using cases by (elim disjE conjE insertE) (simp_all add: no_digit_head_def is_digit_def)
  have sc: "(if s = [] then Some 1
              else if tl s \<noteq> [] then None
              else if hd s \<in> {CHR ''k'', CHR ''K''} then Some 1024
              else if hd s \<in> {CHR ''m'', CHR ''M''} then Some (1024 * 1024)
              else if hd s \<in> {CHR ''g'', CHR ''G''} then Some (1024 * 1024 * 1024)
              else None) = Some (of_nat k :: u64)"
    using cases by (elim disjE conjE insertE) simp_all
  have ne: "s \<noteq> decimal n @ s" by simp
  show ?thesis
    unfolding parse_size_string_def Let_def strtoull_decimal [OF assms(1) nd] strtoull_result.simps sc
      option.case
    using scale_fits [OF assms(1) k] ne by simp
qed

lemma digit_chars:
  "digit_char 0 = CHR ''0''" "digit_char (Suc 0) = CHR ''1''" "digit_char 4 = CHR ''4''" "digit_char 6 = CHR ''6''"
  "digit_char 7 = CHR ''7''" "digit_char 8 = CHR ''8''" "digit_char 9 = CHR ''9''"
  by code_simp+

theorem parse_size_exact_witness:
  "parse_size_string ''64M'' = Some 67108864 \<and> parse_size_string ''17179869184g'' = None"
proof -
  have d: "decimal 64 = ''64''" "decimal 17179869184 = ''17179869184''"
    by (simp_all add: decimal.simps digit_chars)
  show ?thesis
    using parse_size_exact [of 64 "''M''" "1024 ^ 2"] parse_size_exact [of 17179869184 "''g''" "1024 ^ 3"]
    by (simp add: d suffix_scale_def)
qed


subsection \<open>Effects of the file system calls\<close>

lemma map_of_assoc_put: "map_of (assoc_put p f fs) = (map_of fs)(p \<mapsto> f)"
  by (induction fs) (auto simp: fun_eq_iff)

lemma read_put [simp]: "read_file p (put_file q d w) = (if p = q then Some d else read_file p w)"
  by (simp add: read_file_def stat_def put_file_def map_of_assoc_put)

lemma stat_remove [simp]: "stat p (remove_file q w) = (if p = q then None else stat p w)"
proof -
  have "map_of (filter (\<lambda>(r, f). r \<noteq> q) fs) p = (if p = q then None else map_of fs p)" for fs :: "(string \<times> sfile) list"
    by (induction fs) auto
  then show ?thesis by (simp add: stat_def remove_file_def)
qed

lemma read_remove [simp]: "read_file p (remove_file q w) = (if p = q then None else read_file p w)"
  by (simp add: read_file_def)

lemma read_none: "read_file p w = None \<longleftrightarrow> stat p w = None"
  by (simp add: read_file_def)

lemma world_put [simp]: "w_log_dir (put_file p d w) = w_log_dir w" "w_dirs (put_file p d w) = w_dirs w"
    "w_faults (put_file p d w) = w_faults w" "w_time (put_file p d w) = w_time w"
  by (simp_all add: put_file_def)

lemma world_remove [simp]: "w_log_dir (remove_file p w) = w_log_dir w" "w_dirs (remove_file p w) = w_dirs w"
    "w_faults (remove_file p w) = w_faults w" "w_time (remove_file p w) = w_time w"
  by (simp_all add: remove_file_def)

text \<open>Calls that touch no file contents: what they leave alone.\<close>

definition same_files :: "world \<Rightarrow> world \<Rightarrow> bool" where
  "same_files w w' \<longleftrightarrow> w_files w' = w_files w \<and> w_log_dir w' = w_log_dir w \<and> w_time w' = w_time w"

lemma same_files_refl [simp]: "same_files w w" by (simp add: same_files_def)

lemma same_files_trans: "same_files a b \<Longrightarrow> same_files b c \<Longrightarrow> same_files a c"
  by (simp add: same_files_def)

lemma same_files_read: "same_files w w' \<Longrightarrow> read_file p w' = read_file p w \<and> stat p w' = stat p w"
  by (simp add: same_files_def read_file_def stat_def)

lemma fault_same: "fault w = (b, w') \<Longrightarrow> same_files w w' \<and> w_dirs w' = w_dirs w"
  by (auto simp: fault_def same_files_def split: list.splits)

lemma mkdir_same: "mkdir p w = (b, w') \<Longrightarrow> same_files w w'"
  using fault_same by (fastforce simp: mkdir_def same_files_def split: if_splits prod.splits)

lemma mkdir_all_same: "mkdir_all ps w = (b, w') \<Longrightarrow> same_files w w'"
proof (induction ps arbitrary: w)
  case Nil
  then show ?case by simp
next
  case (Cons p ps)
  obtain ok w1 where m: "mkdir p w = (ok, w1)" by fastforce
  from mkdir_same [OF m] Cons m show ?case
    by (cases ok) (auto intro: same_files_trans)
qed

lemma mkdir_p_same: "mkdir_p p w = (b, w') \<Longrightarrow> same_files w w'"
  unfolding mkdir_p_def Let_def by (rule mkdir_all_same)

lemma fsync_dir_same: "fsync_dir_path p w = (b, w') \<Longrightarrow> same_files w w'"
proof -
  assume a: "fsync_dir_path p w = (b, w')"
  obtain b1 w1 where f1: "fault w = (b1, w1)" by fastforce
  obtain b2 w2 where f2: "fault w1 = (b2, w2)" by fastforce
  from fault_same [OF f1] fault_same [OF f2] a f1 f2 show ?thesis
    by (auto simp: fsync_dir_path_def same_files_def split: if_splits)
qed

lemma unlink_effect:
  assumes "unlink p w = (b, w')"
  shows "read_file q w' = (if b \<and> q = p then None else read_file q w) \<and> w_log_dir w' = w_log_dir w"
proof -
  obtain f w1 where f: "fault w = (f, w1)" by fastforce
  from fault_same [OF f] have "same_files w w1" by simp
  from same_files_read [OF this] this assms f show ?thesis
    by (auto simp: unlink_def same_files_def split: if_splits)
qed

lemma rename_effect:
  assumes "rename a b w = (ok, w')" and "a \<noteq> b"
  shows "read_file q w' =
      (if ok \<and> q = b then read_file a w else if ok \<and> q = a then None else read_file q w) \<and>
    w_log_dir w' = w_log_dir w"
proof -
  obtain f w1 where f: "fault w = (f, w1)" by fastforce
  from fault_same [OF f] have s: "same_files w w1" by simp
  show ?thesis
  proof (cases "stat a w1")
    case None
    with assms f s show ?thesis using same_files_read [OF s] by (auto simp: rename_def same_files_def)
  next
    case (Some x)
    then have "read_file a w = Some (f_data x)" using same_files_read [OF s] by (simp add: read_file_def)
    with Some assms f s show ?thesis using same_files_read [OF s]
      by (auto simp: rename_def same_files_def split: if_splits)
  qed
qed

text \<open>
  The text of a state file after an attempt to replace it is the old one or the new one.
\<close>

lemma atomic_write_effect:
  assumes wr: "atomic_write_text_file path text w = (ok, w')" and slash: "CHR ''/'' \<in> set path"
    and len: "length path \<le> 507"
  shows "(read_file path w' = read_file path w \<or> read_file path w' = Some (str_bytes text)) \<and>
    (ok \<longrightarrow> read_file path w' = Some (str_bytes text)) \<and>
    (\<forall>q. q \<noteq> path \<and> q \<noteq> path @ ''.tmp'' \<longrightarrow> read_file q w' = read_file q w) \<and>
    w_log_dir w' = w_log_dir w"
proof -
  obtain dir where dir: "dir_of_path path = Some dir" using slash by (simp add: dir_of_path_def)
  let ?tmp = "path @ ''.tmp''"
  have tmp: "snprintf_str 512 ?tmp = ?tmp" "?tmp \<noteq> path" using len by (simp_all add: snprintf_str_def)
  obtain b1 w1 where m: "mkdir_p dir w = (b1, w1)" by fastforce
  note s1 = mkdir_p_same [OF m]
  obtain b2 w2 where f2: "fault w1 = (b2, w2)" by fastforce
  note s2 = same_files_trans [OF s1 conjunct1 [OF fault_same [OF f2]]]
  let ?w2 = "put_file ?tmp (str_bytes text) w2"
  obtain b3 w3 where f3: "fault ?w2 = (b3, w3)" by fastforce
  note s3 = conjunct1 [OF fault_same [OF f3]]
  have r3: "read_file q w3 = (if q = ?tmp then Some (str_bytes text) else read_file q w)" "w_log_dir w3 = w_log_dir w" for q
    using same_files_read [OF s3, of q] same_files_read [OF s2, of q] s2 s3
    by (simp_all add: same_files_def)
  obtain b4 w4 where rn: "rename ?tmp path w3 = (b4, w4)" by fastforce
  note r4 = rename_effect [OF rn tmp(2)]
  obtain b5 w5 where u3: "unlink ?tmp w3 = (b5, w5)" by fastforce
  note r5 = unlink_effect [OF u3]
  obtain b6 w6 where u4: "unlink ?tmp w4 = (b6, w6)" by fastforce
  note r6 = unlink_effect [OF u4]
  obtain b7 w7 where fs: "fsync_dir_path dir w4 = (b7, w7)" by fastforce
  note s7 = fsync_dir_same [OF fs]
  consider "\<not> b1" "w' = w1" "\<not> ok" | "b1" "b2" "w' = w2" "\<not> ok" | "b1" "\<not> b2" "b3" "w' = w5" "\<not> ok"
    | "b1" "\<not> b2" "\<not> b3" "\<not> b4" "w' = w6" "\<not> ok" | "b1" "\<not> b2" "\<not> b3" "b4" "w' = w7"
    using wr m f2 f3 rn u3 u4 fs unfolding atomic_write_text_file_def dir option.case Let_def tmp(1)
    by (cases b1; cases b2; cases b3; cases b4) auto
  then show ?thesis
  proof cases
    case 1 then show ?thesis using same_files_read [OF s1] s1 by (simp add: same_files_def)
  next
    case 2 then show ?thesis using same_files_read [OF s2] s2 by (simp add: same_files_def)
  next
    case 3 then show ?thesis using r5 r3 by auto
  next
    case 4 then show ?thesis using r6 r4 r3 by auto
  next
    case 5 then show ?thesis using r4 r3 same_files_read [OF s7] s7 by (auto simp: same_files_def)
  qed
qed


lemma bytes_str_bytes: "bytes_str (str_bytes s) = s"
proof -
  have "char_of (unat (of_char c :: byte)) = c" for c
  proof -
    have "unat (of_char c :: byte) = of_char c"
      by (cases c) (simp add: unat_of_nat flip: of_char_of)
    then show ?thesis by simp
  qed
  then show ?thesis by (simp add: bytes_str_def str_bytes_def comp_def)
qed

lemma cstr_no_nul: "CHR 0x00 \<notin> set s \<Longrightarrow> cstr (str_bytes s) = str_bytes s"
proof -
  assume a: "CHR 0x00 \<notin> set s"
  have "c = CHR 0x00" if "(of_char c :: byte) = 0" for c
  proof -
    have "unat (of_char c :: byte) = 0" using that by simp
    with bytes_str_bytes [of "[c]"] show ?thesis by (simp add: bytes_str_def str_bytes_def char_of_def)
  qed
  with a show ?thesis by (auto simp: cstr_def str_bytes_def takeWhile_eq_all_conv)
qed

lemma decimal_no_nul: "CHR 0x00 \<notin> set (decimal n)"
  using decimal_is_digits [of n] by (auto simp: list_all_iff is_digit_def less_eq_char_def)

lemma read_persisted_new:
  assumes "build_state_segment_seq_path w 512 = Some path"
    and "read_file path w = Some (str_bytes (decimal (unat v) @ [CHR 0x0A]))"
  shows "read_persisted_next_segment_seq w = Some v"
proof -
  have nd: "no_digit_head [CHR 0x0A]" by (simp add: no_digit_head_def is_digit_def less_eq_char_def)
  have le: "unat v \<le> 18446744073709551615" using unat_u64_less [of v] by simp
  have "bytes_str (cstr (str_bytes (decimal (unat v) @ [CHR 0x0A]))) = decimal (unat v) @ [CHR 0x0A]"
    by (simp add: cstr_no_nul decimal_no_nul bytes_str_bytes)
  then show ?thesis
    using assms by (simp add: read_persisted_next_segment_seq_def strtoull_decimal [OF le nd])
qed

text \<open>
  C15. The next segment number is replaced atomically. Whatever system call fails, the
  state file afterwards holds the value it held before or the new one, the new one when success is
  reported, and no file but the state file and its temporary is touched.
\<close>

theorem segment_seq_state_atomic:
  assumes pst: "persist_next_segment_seq v w = (ok, w')" and len: "length (w_log_dir w) \<le> 480"
  shows "read_persisted_next_segment_seq w' \<in> {read_persisted_next_segment_seq w, Some v} \<and>
    (ok \<longrightarrow> read_persisted_next_segment_seq w' = Some v) \<and>
    (\<forall>q. q \<noteq> w_log_dir w @ ''/state/segment_seq'' \<and> q \<noteq> w_log_dir w @ ''/state/segment_seq.tmp'' \<longrightarrow>
      read_file q w' = read_file q w)"
proof -
  let ?path = "w_log_dir w @ ''/state/segment_seq''"
  have path: "build_state_segment_seq_path w 512 = Some ?path"
    using len by (simp add: build_state_segment_seq_path_def build_log_path_def join_path_suffix_def)
  have aw: "atomic_write_text_file ?path (decimal (unat v) @ [CHR 0x0A]) w = (ok, w')"
    using pst path by (simp add: persist_next_segment_seq_def)
  note eff = atomic_write_effect [OF aw]
  have path': "build_state_segment_seq_path w' 512 = Some ?path"
    using eff len path by (simp add: build_state_segment_seq_path_def build_log_path_def)
  have old: "read_persisted_next_segment_seq w' = read_persisted_next_segment_seq w"
    if "read_file ?path w' = read_file ?path w"
    using that path path' by (simp add: read_persisted_next_segment_seq_def)
  show ?thesis
    using eff len old read_persisted_new [OF path', of v] by auto
qed


definition demo_world :: "bool list \<Rightarrow> world" where
  "demo_world faults = \<lparr>w_log_dir = ''/l'', w_dirs = [''/l'', ''/l/state'', ''/l/p3''],
     w_files = [(''/l/state/segment_seq'', \<lparr>f_data = str_bytes ''4'', f_mtime = 0\<rparr>),
                (''/l/p3/6.seg'', \<lparr>f_data = [1, 2], f_mtime = 1\<rparr>)],
     w_faults = faults, w_time = 9\<rparr>"

theorem segment_seq_state_atomic_witness:
  "read_persisted_next_segment_seq (snd (persist_next_segment_seq 7 (demo_world [False, False, True]))) \<in>
    {read_persisted_next_segment_seq (demo_world [False, False, True]), Some 7}"
proof -
  obtain ok w' where p: "persist_next_segment_seq 7 (demo_world [False, False, True]) = (ok, w')" by fastforce
  have "length (w_log_dir (demo_world [False, False, True])) \<le> 480" by (simp add: demo_world_def)
  from segment_seq_state_atomic [OF p this] show ?thesis by (simp add: p)
qed

subsection \<open>Fresh sequence numbers\<close>

definition init_next_segment_seq :: "world \<Rightarrow> u64" where
  "init_next_segment_seq w =
     (let scanned_next = scan_existing_segment_seq_max w + 1 in
      case read_persisted_next_segment_seq w of
        Some persisted_next \<Rightarrow> if persisted_next > scanned_next then persisted_next else scanned_next
      | None \<Rightarrow> scanned_next)"

lemma scan_max_step_mono:
  "(sm_found c \<longrightarrow> sm_found (scan_max_step n c) \<and> sm_max_seq c \<le> sm_max_seq (scan_max_step n c)) \<and>
   (segment_seq_from_name n = Some sq \<longrightarrow> sm_found (scan_max_step n c) \<and> sq \<le> sm_max_seq (scan_max_step n c))"
  by (auto simp: scan_max_step_def split: option.splits)

lemma scan_max_fold_mono:
  "sm_found c \<Longrightarrow> sm_found (fold scan_max_step ns c) \<and> sm_max_seq c \<le> sm_max_seq (fold scan_max_step ns c)"
proof (induction ns arbitrary: c)
  case (Cons n ns)
  from scan_max_step_mono [of c n] Cons.prems Cons.IH [of "scan_max_step n c"] show ?case
    by (auto intro: order_trans)
qed simp

lemma scan_max_fold_bound:
  "n \<in> set ns \<Longrightarrow> segment_seq_from_name n = Some sq \<Longrightarrow>
    sm_found (fold scan_max_step ns c) \<and> sq \<le> sm_max_seq (fold scan_max_step ns c)"
proof (induction ns arbitrary: c)
  case (Cons m ns)
  then show ?case
    using scan_max_step_mono [of c m] scan_max_fold_mono [of "scan_max_step m c" ns] Cons.IH [of "scan_max_step m c"]
    by (cases "n = m") (auto intro: order_trans)
qed simp

lemma scan_existing_flat:
  "fold scan_existing_segment_seq_max_cb ds (w, c) =
    (w, fold scan_max_step (concat (map (\<lambda>d. segment_dir_names d w) ds)) c)"
  by (induction ds arbitrary: c) (simp_all add: scan_existing_segment_seq_max_cb_def)

lemma scan_existing_bound:
  assumes "d \<in> set (segment_dirs w)" and "n \<in> set (segment_dir_names d w)" and "segment_seq_from_name n = Some sq"
  shows "sq \<le> scan_existing_segment_seq_max w"
proof -
  have "n \<in> set (concat (map (\<lambda>d. segment_dir_names d w) (segment_dirs w)))" using assms by auto
  from scan_max_fold_bound [OF this assms(3)] show ?thesis
    by (simp add: scan_existing_segment_seq_max_def for_each_segment_dir_def scan_existing_flat)
qed

lemma init_next_bounds:
  assumes "scan_existing_segment_seq_max w \<noteq> UINT64_MAX"
  shows "scan_existing_segment_seq_max w < init_next_segment_seq w"
    and "read_persisted_next_segment_seq w = Some p \<Longrightarrow> p \<le> init_next_segment_seq w"
proof -
  have "scan_existing_segment_seq_max w < scan_existing_segment_seq_max w + 1"
    using assms by (simp add: word_less_nat_alt unat_succ_u64)
  then show "scan_existing_segment_seq_max w < init_next_segment_seq w"
    by (auto simp: init_next_segment_seq_def Let_def split: option.splits)
qed (auto simp: init_next_segment_seq_def Let_def)

lemma dir_entries_mem:
  "d @ ''/'' @ n \<in> set ps \<Longrightarrow> n \<noteq> [] \<Longrightarrow> CHR ''/'' \<notin> set n \<Longrightarrow> n \<in> set (dir_entries d ps)"
  unfolding dir_entries_def by (force simp: image_iff)

lemma decimal_no_slash: "CHR ''/'' \<notin> set (decimal n)"
  using decimal_digits [of n] digit_char_facts(6) by (fastforce simp: list_all_iff)

lemma seg_file_listed:
  assumes "build_segment_dir w PATH_MAX d = Some dp" and "stat (dp @ ''/'' @ decimal n @ ''.seg'') w \<noteq> None"
  shows "decimal n @ ''.seg'' \<in> set (segment_dir_names d w)"
proof -
  have "dp @ ''/'' @ decimal n @ ''.seg'' \<in> set (map fst (w_files w))"
    using assms(2) unfolding stat_def by (simp only: map_of_eq_None_iff not_not set_map)
  from dir_entries_mem [OF this] assms(1) show ?thesis
    by (simp add: segment_dir_names_def readdir_files_def decimal_no_slash)
qed

text \<open>
  C16. The sequence number chosen at start is fresh. Unless the store already holds the segment
  number 2^64 - 1, the chosen number exceeds that of every segment file in every segment
  directory, is no smaller than the persisted one, and the path of a new segment with that
  number names no existing file.
\<close>

theorem next_segment_seq_fresh:
  assumes "scan_existing_segment_seq_max w \<noteq> UINT64_MAX" and "d \<in> set (segment_dirs w)"
  shows "(\<forall>n sq. n \<in> set (segment_dir_names d w) \<and> segment_seq_from_name n = Some sq \<longrightarrow>
        sq < init_next_segment_seq w) \<and>
    (\<forall>p. read_persisted_next_segment_seq w = Some p \<longrightarrow> p \<le> init_next_segment_seq w) \<and>
    (\<forall>path. build_segment_path w PATH_MAX d (init_next_segment_seq w) = Some path \<longrightarrow> stat path w = None)"
proof (intro conjI allI impI)
  fix n sq
  assume "n \<in> set (segment_dir_names d w) \<and> segment_seq_from_name n = Some sq"
  then show "sq < init_next_segment_seq w"
    using scan_existing_bound [OF assms(2)] init_next_bounds(1) [OF assms(1)] by fastforce
next
  fix path
  assume b: "build_segment_path w PATH_MAX d (init_next_segment_seq w) = Some path"
  let ?n = "decimal (unat (init_next_segment_seq w)) @ ''.seg''"
  obtain dp where dp: "build_segment_dir w PATH_MAX d = Some dp" "path = dp @ ''/'' @ ?n"
    using b by (auto simp: build_segment_path_def build_seq_path_def join_path_component_def Let_def
        split: option.splits if_splits)
  show "stat path w = None"
  proof (rule ccontr)
    assume "stat path w \<noteq> None"
    then have "?n \<in> set (segment_dir_names d w)" using seg_file_listed [OF dp(1)] dp(2) by simp
    from scan_existing_bound [OF assms(2) this seq_name_roundtrip] init_next_bounds(1) [OF assms(1)]
    show False by simp
  qed
qed (rule init_next_bounds(2) [OF assms(1)])

lemma demo_world_scan:
  "segment_dirs (demo_world []) = [''p3'']" "segment_dir_names ''p3'' (demo_world []) = [''6.seg'']"
  "segment_seq_from_name ''6.seg'' = Some 6"
  "scan_existing_segment_seq_max (demo_world []) = 6"
proof -
  show d: "segment_dirs (demo_world []) = [''p3'']" "segment_dir_names ''p3'' (demo_world []) = [''6.seg'']"
    by code_simp+
  show n: "segment_seq_from_name ''6.seg'' = Some 6"
    using seq_name_roundtrip [of 6] by (simp add: decimal.simps digit_chars)
  show "scan_existing_segment_seq_max (demo_world []) = 6"
    by (simp add: scan_existing_segment_seq_max_def for_each_segment_dir_def scan_existing_segment_seq_max_cb_def d n scan_max_step_def)
qed

theorem next_segment_seq_fresh_witness:
  "(6 :: u64) < init_next_segment_seq (demo_world []) \<and> stat ''/l/p3/7.seg'' (demo_world []) = None"
proof -
  have f: "read_file ''/l/state/segment_seq'' (demo_world []) = Some (str_bytes (decimal 4))"
    by (simp add: read_file_def stat_def demo_world_def decimal.simps digit_chars)
  have nd: "no_digit_head []" by (simp add: no_digit_head_def)
  have p: "build_state_segment_seq_path (demo_world []) 512 = Some ''/l/state/segment_seq''"
    by (simp add: build_state_segment_seq_path_def build_log_path_def join_path_suffix_def demo_world_def)
  have "read_persisted_next_segment_seq (demo_world []) = Some 4"
    using f p strtoull_decimal [OF _ nd, of 4]
    by (simp add: read_persisted_next_segment_seq_def cstr_no_nul decimal_no_nul bytes_str_bytes)
  then have init: "init_next_segment_seq (demo_world []) = 7"
    by (simp add: init_next_segment_seq_def demo_world_scan)
  have "build_segment_path (demo_world []) PATH_MAX ''p3'' 7 = Some ''/l/p3/7.seg''"
    by (simp add: build_segment_path_def build_seq_path_def build_segment_dir_def join_path_component_def
        demo_world_def decimal.simps digit_chars)
  with next_segment_seq_fresh [of "demo_world []" "''p3''"] init demo_world_scan show ?thesis by simp
qed

end
