(* ===== verification/Json.thy ===== *)
theory Json
  imports Prelude
begin

text \<open>
  The Jansson library as the recorder uses it. A document is a value of type \<^verbatim>\<open>json\<close> (integers
  at their 64 bits, strings as the bytes of a C string, \<^verbatim>\<open>JOther\<close> for null and reals); parsing
  and printing are the fields of \<^verbatim>\<open>jansson\<close>, and \<^verbatim>\<open>jansson_ok\<close> states that a printed
  document is read back. \<^verbatim>\<open>json_utf8\<close> decides which strings \<^verbatim>\<open>json_string\<close> accepts.
\<close>

datatype json =
    JString "byte list"
  | JInteger u64
  | JArray "json list"
  | JObject "(string \<times> json) list"
  | JBool bool
  | JOther

record jansson =
  json_utf8 :: "byte list \<Rightarrow> bool"
  json_dumps :: "json \<Rightarrow> string option"
  json_loads :: "string \<Rightarrow> json option"

definition jansson_ok :: "jansson \<Rightarrow> bool" where
  "jansson_ok J \<longleftrightarrow>
     (\<forall>v s. json_dumps J v = Some s \<longrightarrow> json_loads J s = Some v \<and> CHR 0x00 \<notin> set s)"

fun json_object_get :: "json \<Rightarrow> string \<Rightarrow> json option" where
  "json_object_get (JObject kvs) key = map_of kvs key"
| "json_object_get _ key = None"

end
