(* ===== verification/Segment_Props.thy ===== *)
theory Segment_Props
  imports Segment_File
begin

text \<open>
  The properties of the segment format, over whole files, and the concrete library and
  segment their witnesses use.
\<close>

subsection \<open>Writes on a healthy device succeed\<close>

lemma write_frame_plain_unscripted:
  assumes "wscript fp = []" and "length payload \<le> UINT32_MAX - 20"
  shows "segment_write_frame L fp None flags payload ulen =
    (Inr (), fp\<lparr>contents := contents fp @ frame_raw flags ulen payload []\<rparr>, None)"
proof -
  have n: "16 + length payload + 4 = 20 + length payload" by simp
  show ?thesis
    using assms
    by (simp add: segment_write_frame_def Let_def write_seq_unscripted frame_raw_def n
        del: write_seq.simps of_nat_add)
qed

lemma write_frame_encrypted_unscripted:
  assumes "wscript fp = []" and "length payload \<le> UINT32_MAX - 36"
    and "se_initialized e" "se_frame_index e \<noteq> UINT64_MAX"
    and "recorder_crypto_aes_gcm_encrypt L (se_dek e)
      (frame_nonce (se_nonce_prefix e) (se_frame_index e))
      (frame_header flags (of_nat (length payload)) ulen (of_nat (36 + length payload))) payload = Inr (ct, tag)"
    and "length ct = length payload" "length tag = 16"
  shows "segment_write_frame L fp (Some e) flags payload ulen =
    (Inr (), fp\<lparr>contents := contents fp @ frame_raw flags ulen ct tag\<rparr>,
     Some (e\<lparr>se_frame_index := se_frame_index e + 1\<rparr>))"
proof -
  have n: "16 + length payload + (4 + 16) = 36 + length payload"
    "20 + length ct + length tag = 36 + length payload" using assms by simp_all
  show ?thesis
    unfolding segment_write_frame_def Let_def frame_raw_def n
    using assms
    by (simp add: write_seq_unscripted del: write_seq.simps of_nat_add)
qed

subsection \<open>A concrete instance of the third-party functions\<close>

definition demo_lib :: lib where
  "demo_lib =
     \<lparr>BIO_new_file = (\<lambda>path. Some [1]), PEM_read_bio_PUBKEY = (\<lambda>pem. Some 5),
      PEM_read_bio_PrivateKey = (\<lambda>pem. Some 2), EVP_PKEY_is_RSA = (\<lambda>k. True),
      RAND_bytes = (\<lambda>k n. Some (replicate n (of_nat k))),
      EVP_PKEY_encrypt = (\<lambda>k m. if k = 5 then Some (0x52 # rev m) else None),
      EVP_PKEY_decrypt = (\<lambda>k c. if k = 2 \<and> c \<noteq> [] then Some (rev (tl c)) else None),
      EVP_aes_256_gcm_encrypt = (\<lambda>dek nonce aad pt. Some (map (\<lambda>b. b XOR 0x5a) pt, replicate 16 7)),
      EVP_aes_256_gcm_decrypt = (\<lambda>dek nonce aad ct tag.
        if tag = replicate 16 7 then Some (map (\<lambda>b. b XOR 0x5a) ct) else None),
      ZSTD_decompress = (\<lambda>src n. None), ZSTD_decompress_usingDict = (\<lambda>d src n. None),
      ZSTD_compress = (\<lambda>src. None), ZSTD_compress_usingDict = (\<lambda>d src. None),
      journal_Chunk_verify_as_root = (\<lambda>bs. bs \<noteq> []),
      journal_DefaultChunk_verify_as_root = (\<lambda>bs. bs \<noteq> [])\<rparr>"

lemma demo_lib_ok: "rand_ok demo_lib" "gcm_ok demo_lib" "rsa_pair demo_lib 5 2"
  by (auto simp: demo_lib_def rand_ok_def gcm_ok_def rsa_pair_def xor.assoc comp_def)

definition demo_header :: "bool \<Rightarrow> SegmentHeader" where
  "demo_header enc =
     \<lparr>sh_flags = (if enc then 8 else 0), sh_segment_seq = 3, sh_boot_seq = 1,
      sh_boot_id = replicate 32 0x61, sh_timezone = [0x55, 0x54, 0x43, 0],
      sh_first_realtime_ts = 1000, sh_first_monotonic_ts = 10, sh_dict_len = 0\<rparr>"

definition demo_encryptor :: SegmentEncryptor where
  "demo_encryptor =
     \<lparr>se_public_key = 5, se_dek = replicate 32 0, se_nonce_prefix = replicate 4 0,
      se_frame_index = 0, se_initialized = False\<rparr>"

definition demo_frames :: "wframe list" where
  "demo_frames = [(0, 0, replicate 50 1), (0, 0, replicate 50 2)]"

definition demo_footer :: SegmentFooter where
  "demo_footer =
     \<lparr>ft_flags = 0, ft_rotation_reason = 1, ft_entry_count = 2, ft_last_realtime_ts = 1001,
      ft_last_monotonic_ts = 11, ft_present = False\<rparr>"

definition collect :: "SegmentHeader \<Rightarrow> SegmentFrameInfo \<Rightarrow> byte list \<Rightarrow> byte list list \<Rightarrow> int \<times> byte list list" where
  "collect header frame chunk ctx = (0, ctx @ [chunk])"

text \<open>The files of the witnesses: header, then frames, both modes; writes never fail.\<close>

definition demo_enc :: "bool \<Rightarrow> SegmentEncryptor option" where
  "demo_enc enc = (if enc then Some demo_encryptor else None)"

definition demo_head :: "bool \<Rightarrow> FILE \<times> SegmentEncryptor option" where
  "demo_head enc = snd (segment_write_header demo_lib 0 (fopen_w []) (demo_header enc) [] (demo_enc enc))"

definition demo_body :: "bool \<Rightarrow> FILE \<times> SegmentEncryptor option" where
  "demo_body enc = snd (write_frames demo_lib (fst (demo_head enc)) (snd (demo_head enc)) demo_frames)"

lemma random_small:
  "0 < n \<Longrightarrow> n \<le> 2147483647 \<Longrightarrow> recorder_crypto_random demo_lib k n = Inr (replicate n (of_nat k))"
  by (subst recorder_crypto_random.simps, subst recorder_crypto_random.simps) (simp add: demo_lib_def Let_def)

lemma demo_key_material:
  "header_key_material demo_lib 0 5 = Inr (replicate 32 0, replicate 4 1, 0x52 # replicate 32 0)"
proof -
  have "recorder_crypto_wrap_dek demo_lib 5 (replicate 32 0) = Inr (0x52 # replicate 32 0)"
    by (simp add: recorder_crypto_wrap_dek_def demo_lib_def)
  then show ?thesis
    by (simp add: header_key_material_def random_small)
qed

lemma demo_head_ok:
  "segment_write_header demo_lib 0 (fopen_w []) (demo_header enc) [] (demo_enc enc) =
     (Inr (), fst (demo_head enc), snd (demo_head enc))"
  by (simp add: demo_head_def segment_write_header_def encrypted_def demo_header_def demo_enc_def
      write_seq_unscripted fopen_w_def demo_key_material demo_encryptor_def Let_def
      del: write_seq.simps split: prod.splits)

lemma demo_head_state:
  "wscript (fst (demo_head enc)) = []"
  "snd (demo_head enc) = (if enc then Some (demo_encryptor\<lparr>se_nonce_prefix := replicate 4 1,
     se_initialized := True\<rparr>) else None)"
  by (simp_all add: demo_head_def segment_write_header_def encrypted_def demo_header_def demo_enc_def
      write_seq_unscripted fopen_w_def demo_key_material demo_encryptor_def Let_def
      del: write_seq.simps split: prod.splits)

lemma demo_encrypt:
  "pt \<noteq> [] \<Longrightarrow> length pt \<le> 2147483647 \<Longrightarrow> length aad \<le> 2147483647 \<Longrightarrow>
   recorder_crypto_aes_gcm_encrypt demo_lib dek nonce aad pt =
     Inr (map (\<lambda>b. b XOR 0x5a) pt, replicate 16 7)"
  by (simp add: recorder_crypto_aes_gcm_encrypt_def lengths_fit_evp_def evp_outl_def demo_lib_def Let_def)

definition demo_stored :: "bool \<Rightarrow> byte \<Rightarrow> byte list" where
  "demo_stored enc b = frame_raw 0 0 (replicate 50 (if enc then b XOR 0x5a else b))
     (if enc then replicate 16 7 else [])"

lemma demo_write:
  assumes "wscript fp = []" and "case e of None \<Rightarrow> \<not> enc
    | Some x \<Rightarrow> enc \<and> se_initialized x \<and> se_frame_index x \<noteq> UINT64_MAX"
  shows "segment_write_frame demo_lib fp e 0 (replicate 50 b) 0 =
    (Inr (), fp\<lparr>contents := contents fp @ demo_stored enc b\<rparr>,
     map_option (\<lambda>x. x\<lparr>se_frame_index := se_frame_index x + 1\<rparr>) e)"
proof (cases e)
  case None
  with assms show ?thesis by (simp add: write_frame_plain_unscripted demo_stored_def)
next
  case (Some x)
  with assms show ?thesis
    by (simp add: demo_stored_def)
      (rule write_frame_encrypted_unscripted; simp add: demo_encrypt)
qed

lemma demo_body_eq:
  "write_frames demo_lib (fst (demo_head enc)) (snd (demo_head enc)) demo_frames =
     (Inr (), \<lparr>contents = contents (fst (demo_head enc)) @ demo_stored enc 1 @ demo_stored enc 2,
               wscript = []\<rparr>,
      if enc then Some (demo_encryptor\<lparr>se_nonce_prefix := replicate 4 1,
        se_frame_index := 2, se_initialized := True\<rparr>) else None)"
  using demo_head_state [of enc]
  by (auto simp: demo_frames_def demo_write [where enc = enc] demo_encryptor_def intro: FILE.equality)

lemma demo_body_ok:
  "write_frames demo_lib (fst (demo_head enc)) (snd (demo_head enc)) demo_frames =
     (Inr (), fst (demo_body enc), snd (demo_body enc))"
  "wscript (fst (demo_body enc)) = []"
  "contents (fst (demo_body enc)) = contents (fst (demo_head enc)) @ demo_stored enc 1 @ demo_stored enc 2"
  by (simp_all add: demo_body_def demo_body_eq)

lemma demo_decodes:
  "list_all2 (decodes demo_lib (stored_header (demo_header enc) (length ([] :: byte list))) []) demo_frames
     [replicate 50 1, replicate 50 2]"
  by (simp add: demo_frames_def decodes_def decompress_payload_def chunk_verify_def demo_lib_def)

lemma demo_can_decrypt: "can_decrypt demo_lib (demo_enc enc) (Some 2)"
  using demo_lib_ok by (simp add: can_decrypt_def demo_enc_def demo_encryptor_def)

text \<open>A frame whose payload is constant cannot be taken for a footer.\<close>

lemma constant_no_footer:
  assumes "32 \<le> n"
  shows "footer_at (frame_raw fl ul (replicate n b) tg @ rest) = None"
proof -
  have "take 8 (drop 40 (frame_raw fl ul (replicate n b) tg @ rest)) = replicate 8 b"
    using assms by (simp add: frame_raw_def Let_def del: of_nat_add)
  moreover have "replicate 8 b \<noteq> RECORDER_SEGMENT_FOOTER_MAGIC"
    by (simp add: RECORDER_SEGMENT_FOOTER_MAGIC_def str_bytes_def numeral_eq_Suc)
  ultimately show ?thesis
    by (simp add: footer_at_def)
qed

lemma demo_no_footer:
  "no_false_footer (contents (fst (demo_body enc)) @ rest)
     (frame_offsets (length (contents (fst (demo_head enc)))) (trailer_len (demo_enc enc)) demo_frames)"
  by (cases enc)
   (simp_all add: demo_body_ok demo_stored_def no_false_footer_def demo_frames_def constant_no_footer demo_enc_def trailer_len_def
     del: replicate.simps)


subsection \<open>The end of a scan decides its result\<close>

text \<open>
  Behind a written header and written frames, the loop is at the start of the tail with the
  callback's context of all frames: what the loop returns there is what the scan returns.
\<close>

lemma scan_written_stop:
  assumes w: "segment_write_header L k (fopen_w s) h dict enc = (Inr (), fp1, enc1)"
    and ws: "write_frames L fp1 enc1 ws = (Inr (), fp2, enc2)"
    and key: "can_decrypt L enc decryptor"
    and dec: "list_all2 (decodes L (stored_header h (length dict)) dict) ws chunks"
    and nf: "no_false_footer (contents fp2 @ tail)
      (frame_offsets (length (contents fp1)) (trailer_len enc) ws)"
    and stop: "\<And>(env :: 'c scan_env) i c. env_header env = stored_header h (length dict) \<Longrightarrow>
      segment_scan_loop env (contents fp2 @ tail) (length (contents fp2)) i c = (r, c)"
  shows "segment_scan_buffer L (contents fp2 @ tail) decryptor (Some (cb :: 'c segment_frame_cb)) ctx =
    (case run_cb cb (stored_header h (length dict))
            (zip (frame_list (length (contents fp1)) (trailer_len enc) ws) chunks) ctx of
       (rv, c) \<Rightarrow> if rv \<noteq> 0 then (Inl (ScanCallback rv), c)
         else (map_sum id (Pair (stored_header h (length dict))) r, c))"
proof (rule scan_written_frames [OF w ws key dec nf, where cb = cb], goal_cases)
  case (1 env)
  show ?case
    unfolding 1(2) stop [OF 1(1)] by (cases r) (auto split: prod.splits)
qed

text \<open>A metadata scan never looks at the key.\<close>

lemma frame_callback_metadata: "env_cb env = None \<Longrightarrow> frame_callback env i fr p off c = (Inr True, c)"
  by (simp add: frame_callback_def)

lemma scan_metadata_dek:
  "env_cb env = None \<Longrightarrow>
   segment_scan_loop (env\<lparr>env_dek := d\<rparr>) buf offset idx ctx = segment_scan_loop env buf offset idx ctx"
proof (induction env buf offset idx ctx rule: segment_scan_loop.induct)
  case (1 env buf offset idx ctx)
  let ?p = "drop offset buf"
  let ?fr = "frame_info ?p offset"
  have cb: "frame_callback env idx ?fr ?p offset ctx = (Inr True, ctx)"
    using "1.prems" by (simp add: frame_callback_metadata)
  show ?case
  proof (cases "offset < length buf \<and> footer_at ?p = None \<and> frame_check (env_header env) ?fr ?p = FrameOk \<and>
      \<not> (encrypted (env_header env) \<and> idx = UINT64_MAX)")
    case True
    then show ?thesis
      using "1.IH" [OF _ refl refl _ _ cb [symmetric] refl refl] "1.prems"
      by (auto simp: scan_unfold [of _ buf offset] frame_callback_metadata)
  next
    case False
    then show ?thesis
      using "1.prems"
      by (auto simp: scan_unfold [of _ buf offset] frame_callback_metadata split: option.splits frame_status.splits)
  qed
qed

lemma scan_written_metadata:
  assumes w: "segment_write_header L k (fopen_w s) h dict enc = (Inr (), fp1, enc1)"
    and ws: "write_frames L fp1 enc1 ws = (Inr (), fp2, enc2)"
    and key: "can_decrypt L enc priv"
    and dec: "list_all2 (decodes L (stored_header h (length dict)) dict) ws chunks"
    and nf: "no_false_footer (contents fp2 @ tail)
      (frame_offsets (length (contents fp1)) (trailer_len enc) ws)"
    and stop: "\<And>(env :: 'c scan_env) i c. env_header env = stored_header h (length dict) \<Longrightarrow>
      segment_scan_loop env (contents fp2 @ tail) (length (contents fp2)) i c = (r, c)"
  shows "segment_scan_buffer L (contents fp2 @ tail) decryptor (None :: 'c segment_frame_cb option) ctx =
    (map_sum id (Pair (stored_header h (length dict))) r, ctx)"
proof -
  obtain ei dek where
    ph: "\<And>tail. segment_parse_header (contents fp1 @ tail) =
       Some (stored_header h (length dict), length (contents fp1), ei)"
    and d: "\<And>tail. take (unat (sh_dict_len (stored_header h (length dict))))
       (drop (length (contents fp1) - unat (sh_dict_len (stored_header h (length dict))))
         (contents fp1 @ tail)) = dict"
    and "if encrypted h
         then (\<exists>key. priv = Some key \<and> recorder_crypto_unwrap_dek L key (ei_wrapped_dek ei) = Inr dek)
         else dek = replicate 32 0"
    and m: "case enc1 of None \<Rightarrow> \<not> encrypted h
         | Some e \<Rightarrow> encrypted h \<and> dek = se_dek e \<and> ei_nonce_prefix ei = se_nonce_prefix e \<and>
             se_frame_index e = 0 \<and> gcm_ok L"
    and tr: "trailer_len enc1 = trailer_len enc"
    using written_header_parses [OF w key] by blast
  let ?env = "\<lparr>env_lib = L, env_header = stored_header h (length dict), env_encryption = ei,
      env_dek = dek, env_dict = dict, env_cb = (None :: 'c segment_frame_cb option), env_min = 0\<rparr>"
  have em: "env_matches ?env L enc1 0"
    using m by (auto simp: env_matches_def split: option.splits)
  from write_frames_extends [OF ws em] obtain bs where bs: "contents fp2 = contents fp1 @ bs" ..
  have gf: "good_frames ?env (contents fp2 @ tail) (length (contents fp1)) 0
      (zip (frame_list (length (contents fp1)) (trailer_len enc) ws) chunks) (length (contents fp2))"
    using write_frames_good [OF ws em, of chunks tail] dec nf tr by simp
  let ?md = "?env\<lparr>env_dek := replicate 32 0\<rparr>"
  have loop: "segment_scan_loop ?md (contents fp2 @ tail) (length (contents fp1)) 0 ctx = (r, ctx)"
  proof -
    have "segment_scan_loop ?md (contents fp2 @ tail) (length (contents fp1)) 0 ctx =
        segment_scan_loop ?env (contents fp2 @ tail) (length (contents fp1)) 0 ctx"
      by (rule scan_metadata_dek) simp
    also have "\<dots> = segment_scan_loop ?env (contents fp2 @ tail) (length (contents fp2)) 
       (0 + of_nat (length (zip (frame_list (length (contents fp1)) (trailer_len enc) ws) chunks))) ctx"
      by (rule scan_good_frames_metadata [OF gf]) simp
    also have "\<dots> = (r, ctx)"
      by (rule stop) simp
    finally show ?thesis .
  qed
  have ph2: "segment_parse_header (contents fp2 @ tail) =
       Some (stored_header h (length dict), length (contents fp1), ei)"
    using ph [of "bs @ tail"] unfolding bs append_assoc .
  have d2: "take (unat (sh_dict_len (stored_header h (length dict))))
       (drop (length (contents fp1) - unat (sh_dict_len (stored_header h (length dict))))
         (contents fp2 @ tail)) = dict"
    using d [of "bs @ tail"] unfolding bs append_assoc .
  show ?thesis
    unfolding segment_scan_buffer_def segment_scan_impl_def ph2 option.case prod.case Let_def d2
    using loop by (cases r) simp_all
qed


subsection \<open>Round trip of a closed segment\<close>

lemma scan_closed_segment:
  assumes "segment_write_header L k (fopen_w s) h dict enc = (Inr (), fp1, enc1)"
    and "write_frames L fp1 enc1 ws = (Inr (), fp2, enc2)"
    and "segment_write_footer fp2 f = (Inr (), fp3)"
    and "can_decrypt L enc decryptor"
    and "list_all2 (decodes L (stored_header h (length dict)) dict) ws chunks"
    and "no_false_footer (contents fp3) (frame_offsets (length (contents fp1)) (trailer_len enc) ws)"
  shows "segment_scan_path L (Some (contents fp3)) decryptor (Some cb) ctx =
    (case run_cb cb (stored_header h (length dict))
            (zip (frame_list (length (contents fp1)) (trailer_len enc) ws) chunks) ctx of
       (rv, c) \<Rightarrow> if rv \<noteq> 0 then (Inl (ScanCallback rv), c)
         else (Inr (stored_header h (length dict), f\<lparr>ft_present := True\<rparr>, length (contents fp3)), c))"
proof -
  have c3: "contents fp3 = contents fp2 @ footer_buf f"
    using assms(3) by (rule segment_write_footer_ok)
  have "segment_scan_loop env (contents fp2 @ footer_buf f) (length (contents fp2)) i c =
      (Inr (f\<lparr>ft_present := True\<rparr>, length (contents fp3)), c)" for env :: "'a scan_env" and i c
    using footer_at_written [of f "[]"]
    by (subst scan_at_footer [of _ _ "f\<lparr>ft_present := True\<rparr>"]) (simp_all add: c3)
  from scan_written_stop [OF assms(1,2,4,5) assms(6) [unfolded c3] this, of cb ctx]
  show ?thesis
    by (simp add: segment_scan_path_def segment_scan_buffer_def c3 split: prod.splits)
qed

text \<open>
  C1. A segment written by \<^verbatim>\<open>segment_write_header\<close>, any number of \<^verbatim>\<open>segment_write_frame\<close>
  calls and \<^verbatim>\<open>segment_write_footer\<close>, plaintext or encrypted, is read back completely by
  \<^verbatim>\<open>segment_scan_path\<close>: the callback sees every frame, in order, with its file offset and its
  decoded chunk; the scan returns the header, the footer marked present and the whole file as
  committed. The only hypothesis on the bytes is that no frame looks like a footer.
\<close>

theorem segment_roundtrip:
  assumes "segment_write_header L k (fopen_w s) h dict enc = (Inr (), fp1, enc1)"
    and "write_frames L fp1 enc1 ws = (Inr (), fp2, enc2)"
    and "segment_write_footer fp2 f = (Inr (), fp3)"
    and "can_decrypt L enc decryptor"
    and "list_all2 (decodes L (stored_header h (length dict)) dict) ws chunks"
    and "no_false_footer (contents fp3) (frame_offsets (length (contents fp1)) (trailer_len enc) ws)"
  shows "segment_scan_path L (Some (contents fp3)) decryptor (Some cb) ctx =
    (case run_cb cb (stored_header h (length dict))
            (zip (frame_list (length (contents fp1)) (trailer_len enc) ws) chunks) ctx of
       (rv, c) \<Rightarrow> if rv \<noteq> 0 then (Inl (ScanCallback rv), c)
         else (Inr (stored_header h (length dict), f\<lparr>ft_present := True\<rparr>, length (contents fp3)), c))"
  using assms by (rule scan_closed_segment)

definition demo_file :: "bool \<Rightarrow> FILE" where
  "demo_file enc = snd (segment_write_footer (fst (demo_body enc)) demo_footer)"

lemma demo_file_ok: "segment_write_footer (fst (demo_body enc)) demo_footer = (Inr (), demo_file enc)"
  by (simp add: demo_file_def segment_write_footer_def write_all_def fwrite_script demo_body_ok
      demo_footer_def)

theorem segment_roundtrip_witness:
  "segment_scan_path demo_lib (Some (contents (demo_file True))) (Some 2) (Some collect) [] =
     (Inr (stored_header (demo_header True) 0, demo_footer\<lparr>ft_present := True\<rparr>,
           length (contents (demo_file True))), [replicate 50 1, replicate 50 2])"
proof -
  have "contents (demo_file True) = contents (fst (demo_body True)) @ footer_buf demo_footer"
    using demo_file_ok by (rule segment_write_footer_ok)
  then show ?thesis
    using segment_roundtrip [where cb = collect and ctx = "[]",
      OF demo_head_ok [of True] demo_body_ok(1) [of True] demo_file_ok [of True]
        demo_can_decrypt [of True] demo_decodes [of True]]
      demo_no_footer [of True "footer_buf demo_footer"]
    by (simp add: demo_frames_def collect_def del: replicate.simps)
qed

subsection \<open>Torn writes\<close>

lemma segment_write_frame_torn:
  assumes w: "segment_write_frame L fp enc flags payload ulen = (Inl er, fp', enc')"
    and ok: "enc \<noteq> None \<longrightarrow> gcm_ok L"
  obtains n st tg where "contents fp' = contents fp @ take n (frame_raw flags ulen st tg)"
    and "n < 20 + length st + length tg" and "length tg + 20 = trailer_len enc"
    and "20 + length st + length tg \<le> UINT32_MAX"
proof (cases enc)
  case None
  show thesis
  proof (cases "length payload \<le> UINT32_MAX - 20")
    case True
    from segment_write_frame_plain [OF w [unfolded None] True] obtain n where
      "contents fp' = contents fp @ take n (frame_raw flags ulen payload [])" "n \<le> 20 + length payload"
      "n \<noteq> 20 + length payload" by auto
    with True None show thesis by (intro that [of n payload "[]"]) (auto simp: trailer_len_def)
  next
    case False
    with w None have "fp' = fp" by (simp add: segment_write_frame_def)
    with None show thesis by (intro that [of 0 "[]" "[]"]) (simp_all add: trailer_len_def)
  qed
next
  case (Some e)
  let ?hdr = "frame_header flags (of_nat (length payload)) ulen (of_nat (36 + length payload))"
  let ?enc = "recorder_crypto_aes_gcm_encrypt L (se_dek e)
    (frame_nonce (se_nonce_prefix e) (se_frame_index e)) ?hdr payload"
  show thesis
  proof (cases "fp' = fp")
    case True
    with Some show thesis by (intro that [of 0 "[]" "replicate 16 0"]) (simp_all add: trailer_len_def)
  next
    case False
    have n: "16 + length payload + (4 + 16) = 36 + length payload" by simp
    from w Some False obtain ct tag where enc: "?enc = Inr (ct, tag)"
      and len: "length payload \<le> UINT32_MAX - 36"
      and wr: "write_seq [?hdr, ct, tag, write_u32_le (recorder_crc32 ?hdr XOR recorder_crc32 ct XOR recorder_crc32 tag)] fp = (False, fp')"
      by (auto simp: segment_write_frame_def Let_def n split: if_splits sum.splits prod.splits
          simp del: write_seq.simps of_nat_add)
    from ok Some have "gcm_ok L" by simp
    note rt = aes_gcm_roundtrip [OF this enc]
    have raw: "concat [?hdr, ct, tag, write_u32_le (recorder_crc32 ?hdr XOR recorder_crc32 ct XOR recorder_crc32 tag)] =
        frame_raw flags ulen ct tag"
      using rt by (simp add: frame_raw_def Let_def)
    from write_seq_effect [OF wr, unfolded raw] obtain m where
      "contents fp' = contents fp @ take m (frame_raw flags ulen ct tag)" "m < 20 + length ct + length tag"
      by auto
    with rt len Some show thesis by (intro that [of m ct tag]) (simp_all add: trailer_len_def)
  qed
qed


lemma scan_at_torn_frame:
  assumes "footer_at (drop e buf) = None"
    and "frame_check (env_header env) (frame_info (drop e buf) e) (drop e buf) \<in> {FrameShort, FrameBeyondEnd}"
  shows "segment_scan_loop env buf e idx ctx = (Inr (empty_footer, e), ctx)"
  using assms by (auto simp: scan_unfold [of env buf e])

lemma frame_offsets_append:
  "frame_offsets base ov (ws @ ws') =
   frame_offsets base ov ws @ frame_offsets (base + (\<Sum>(fl, ul, p)\<leftarrow>ws. ov + length p)) ov ws'"
  by (induction ws arbitrary: base) (auto simp: algebra_simps)

lemma write_frames_length:
  "write_frames L fp enc ws = (Inr (), fp', enc') \<Longrightarrow> env_matches env L enc idx \<Longrightarrow>
   length (contents fp') = length (contents fp) + (\<Sum>(fl, ul, p)\<leftarrow>ws. trailer_len enc + length p) \<and>
   trailer_len enc' = trailer_len enc \<and> env_matches env L enc' (idx + of_nat (length ws))"
proof (induction ws arbitrary: fp enc idx)
  case Nil
  then show ?case by simp
next
  case (Cons w ws)
  obtain flags ulen payload where w: "w = (flags, ulen, payload)" by (cases w)
  from Cons.prems(1) obtain fp1 enc1 where
    w1: "segment_write_frame L fp enc flags payload ulen = (Inr (), fp1, enc1)" and
    rest: "write_frames L fp1 enc1 ws = (Inr (), fp', enc')"
    by (auto simp: w split: prod.splits sum.splits)
  from segment_write_frame_raw [OF w1 Cons.prems(2)] obtain st tg where
    r: "contents fp1 = contents fp @ frame_raw flags ulen st tg"
      "stored_as env idx (flags, ulen, payload) st tg" "20 + length tg = trailer_len enc"
      "trailer_len enc1 = trailer_len enc" "env_matches env L enc1 (idx + 1)" by blast
  from Cons.IH [OF rest r(5)] r show ?case
    by (simp add: w stored_as_def add.assoc)
qed

text \<open>The offsets of the frames and the one behind them, in terms of the files written.\<close>

lemma no_false_footer_snoc:
  assumes w: "segment_write_header L k (fopen_w s) h dict enc = (Inr (), fp1, enc1)"
    and ws: "write_frames L fp1 enc1 ws = (Inr (), fp2, enc2)"
    and key: "can_decrypt L enc decryptor"
  shows "no_false_footer buf (frame_offsets (length (contents fp1)) (trailer_len enc) (ws @ [w])) \<longleftrightarrow>
    no_false_footer buf (frame_offsets (length (contents fp1)) (trailer_len enc) ws) \<and>
    footer_at (drop (length (contents fp2)) buf) = None"
    and "trailer_len enc2 = trailer_len enc"
proof -
  obtain env :: "unit scan_env" where em: "env_matches env L enc1 0"
    and tr: "trailer_len enc1 = trailer_len enc"
    using scan_behind_header [OF w key] by metis
  note wl = write_frames_length [OF ws em]
  obtain fl ul p where wd: "w = (fl, ul, p)" by (cases w)
  show "no_false_footer buf (frame_offsets (length (contents fp1)) (trailer_len enc) (ws @ [w])) \<longleftrightarrow>
    no_false_footer buf (frame_offsets (length (contents fp1)) (trailer_len enc) ws) \<and>
    footer_at (drop (length (contents fp2)) buf) = None"
    using wl tr by (simp add: no_false_footer_def frame_offsets_append wd)
  show "trailer_len enc2 = trailer_len enc" using wl tr by simp
qed

lemma trailer_tag_len:
  assumes w: "segment_write_header L k (fopen_w s) h dict enc = (Inr (), fp1, enc1)"
  shows "trailer_len enc = 20 + tag_len (stored_header h n)"
  using assms by (auto simp: segment_write_header_def trailer_len_def tag_len_def split: if_splits option.splits)

lemma torn_tail:
  assumes w: "segment_write_header L k (fopen_w s) h dict enc = (Inr (), fp1, enc1)"
    and ws: "write_frames L fp1 enc1 ws = (Inr (), fp2, enc2)"
    and torn: "segment_write_frame L fp2 enc2 flags payload ulen = (Inl er, fp3, enc3)"
    and key: "can_decrypt L enc decryptor"
    and nf: "no_false_footer (contents fp3)
      (frame_offsets (length (contents fp1)) (trailer_len enc) (ws @ [(flags, ulen, payload)]))"
  obtains t where "contents fp3 = contents fp2 @ t"
    and "no_false_footer (contents fp2 @ t) (frame_offsets (length (contents fp1)) (trailer_len enc) ws)"
    and "\<And>(env :: 'c scan_env) i c. env_header env = stored_header h (length dict) \<Longrightarrow>
      segment_scan_loop env (contents fp2 @ t) (length (contents fp2)) i c =
      (Inr (empty_footer, length (contents fp2)), c)"
proof -
  note snoc = no_false_footer_snoc [OF w ws key]
  have "enc2 \<noteq> None \<longrightarrow> gcm_ok L"
    using snoc(2) key by (auto simp: can_decrypt_def trailer_len_def split: option.splits if_splits)
  from segment_write_frame_torn [OF torn this] obtain n st tg where
    c3: "contents fp3 = contents fp2 @ take n (frame_raw flags ulen st tg)"
    and b: "n < 20 + length st + length tg" "20 + length st + length tg \<le> UINT32_MAX"
    and tr: "length tg + 20 = trailer_len enc2" by blast
  have tg: "length tg = tag_len (stored_header h (length dict))"
    using tr snoc(2) trailer_tag_len [OF w, of "length dict"] by simp
  show thesis
  proof (rule that [OF c3])
    show "no_false_footer (contents fp2 @ take n (frame_raw flags ulen st tg))
        (frame_offsets (length (contents fp1)) (trailer_len enc) ws)"
      using nf unfolding snoc(1) c3 by simp
    have "footer_at (take n (frame_raw flags ulen st tg)) = None"
      using nf unfolding snoc(1) c3 by simp
    then show "segment_scan_loop env (contents fp2 @ take n (frame_raw flags ulen st tg))
        (length (contents fp2)) i c = (Inr (empty_footer, length (contents fp2)), c)"
      if "env_header env = stored_header h (length dict)" for env :: "'c scan_env" and i c
      using torn_frame_check [OF b(1) tg b(2), of flags ulen] that
      by (intro scan_at_torn_frame) simp_all
  qed
qed

text \<open>
  C2. When a frame write fails at any byte (or before the first), in either mode, a reader
  still sees exactly the frames written before it: the scan succeeds, reports no footer and
  commits the file up to the end of the last complete frame. The metadata scan that recovery
  runs, without the private key, finds the same committed end.
\<close>

theorem torn_write_recovered:
  assumes w: "segment_write_header L k (fopen_w s) h dict enc = (Inr (), fp1, enc1)"
    and ws: "write_frames L fp1 enc1 ws = (Inr (), fp2, enc2)"
    and torn: "segment_write_frame L fp2 enc2 flags payload ulen = (Inl er, fp3, enc3)"
    and key: "can_decrypt L enc decryptor"
    and dec: "list_all2 (decodes L (stored_header h (length dict)) dict) ws chunks"
    and nf: "no_false_footer (contents fp3)
      (frame_offsets (length (contents fp1)) (trailer_len enc) (ws @ [(flags, ulen, payload)]))"
  shows "segment_scan_buffer L (contents fp3) decryptor (Some cb) ctx =
      (case run_cb cb (stored_header h (length dict))
              (zip (frame_list (length (contents fp1)) (trailer_len enc) ws) chunks) ctx of
         (rv, c) \<Rightarrow> if rv \<noteq> 0 then (Inl (ScanCallback rv), c)
           else (Inr (stored_header h (length dict), empty_footer, length (contents fp2)), c)) \<and>
    segment_scan_buffer L (contents fp3) None (None :: 'c segment_frame_cb option) ctx =
      (Inr (stored_header h (length dict), empty_footer, length (contents fp2)), ctx)"
proof -
  obtain t where c3: "contents fp3 = contents fp2 @ t"
    and nf': "no_false_footer (contents fp2 @ t) (frame_offsets (length (contents fp1)) (trailer_len enc) ws)"
    and stop: "\<And>(env :: 'c scan_env) i c. env_header env = stored_header h (length dict) \<Longrightarrow>
      segment_scan_loop env (contents fp2 @ t) (length (contents fp2)) i c =
      (Inr (empty_footer, length (contents fp2)), c)"
    using torn_tail [OF w ws torn key nf] by blast
  show ?thesis
    unfolding c3
    using scan_written_stop [OF w ws key dec nf' stop, of cb ctx]
      scan_written_metadata [OF w ws key dec nf' stop, of None ctx] by (simp split: prod.splits)
qed

text \<open>The witness: one frame, then a device that takes nine bytes of the second payload.\<close>

lemma write_seq_scripted:
  "take (length bs) (wscript fp) = replicate (length bs) None \<Longrightarrow>
   write_seq bs fp = (True, fp\<lparr>contents := contents fp @ concat bs, wscript := drop (length bs) (wscript fp)\<rparr>)"
proof (induction bs arbitrary: fp)
  case Nil
  then show ?case by simp
next
  case (Cons b bs)
  then obtain s where "wscript fp = None # s" by (cases "wscript fp") auto
  with Cons show ?case by (simp add: write_all_def fwrite.simps)
qed

definition torn_head :: "FILE \<times> SegmentEncryptor option" where
  "torn_head = snd (segment_write_header demo_lib 0
     (fopen_w [None, None, None, None, None, None, None, Some 9]) (demo_header True) [] (demo_enc True))"

definition torn_body :: "FILE \<times> SegmentEncryptor option" where
  "torn_body = snd (write_frames demo_lib (fst torn_head) (snd torn_head) [(0, 0, replicate 50 1)])"

definition torn_last :: "FILE \<times> SegmentEncryptor option" where
  "torn_last = snd (segment_write_frame demo_lib (fst torn_body) (snd torn_body) 0 (replicate 50 2) 0)"

lemma extension_nonempty: "length np = 4 \<Longrightarrow> encryption_extension np w \<noteq> []"
  using length_extension [of np w] by (cases "encryption_extension np w") simp_all

lemma torn_head_eq:
  "segment_write_header demo_lib 0 (fopen_w [None, None, None, None, None, None, None, Some 9])
     (demo_header True) [] (demo_enc True) = (Inr (), fst torn_head, snd torn_head)"
  "snd torn_head = Some (demo_encryptor\<lparr>se_nonce_prefix := replicate 4 1, se_initialized := True\<rparr>)"
  "wscript (fst torn_head) = [None, None, None, None, None, Some 9]"
  by (simp_all add: torn_head_def segment_write_header_def fopen_w_def write_seq_scripted nonempty_def extension_nonempty
      demo_key_material demo_encryptor_def demo_header_def demo_enc_def encrypted_def Let_def
      del: write_seq.simps)

lemma torn_body_eq:
  "write_frames demo_lib (fst torn_head) (snd torn_head) [(0, 0, replicate 50 1)] =
     (Inr (), fst torn_body, snd torn_body)"
  "snd torn_body = Some (demo_encryptor\<lparr>se_nonce_prefix := replicate 4 1, se_initialized := True,
     se_frame_index := 1\<rparr>)"
  "wscript (fst torn_body) = [None, Some 9]"
  "contents (fst torn_body) = contents (fst torn_head) @ demo_stored True 1"
  by (simp_all add: torn_body_def segment_write_frame_def torn_head_eq(2,3) write_seq_scripted
      demo_encryptor_def demo_encrypt demo_stored_def frame_raw_def Let_def del: write_seq.simps)

lemma torn_last_eq:
  "segment_write_frame demo_lib (fst torn_body) (snd torn_body) 0 (replicate 50 2) 0 =
     (Inl EOTHER, fst torn_last, snd torn_last)"
  "contents (fst torn_last) = contents (fst torn_body) @ frame_header 0 50 0 86 @ replicate 9 88"
  by (simp_all add: torn_last_def segment_write_frame_def torn_body_eq(2,3) write_all_def fwrite.simps
      demo_encryptor_def demo_encrypt Let_def)

theorem torn_write_recovered_witness:
  "segment_scan_buffer demo_lib (contents (fst torn_last)) (Some 2) (Some collect) [] =
     (Inr (stored_header (demo_header True) 0, empty_footer, length (contents (fst torn_body))), [replicate 50 1])"
proof -
  have dec: "list_all2 (decodes demo_lib (stored_header (demo_header True) (length ([] :: byte list))) [])
      [(0, 0, replicate 50 1)] [replicate 50 1]"
    using demo_decodes [of True] by (simp add: demo_frames_def)
  have "footer_at (frame_header 0 50 0 86 @ replicate 9 88) = None"
    by (simp add: footer_at_def)
  then have nf: "no_false_footer (contents (fst torn_last))
      (frame_offsets (length (contents (fst torn_head))) (trailer_len (demo_enc True))
        ([(0, 0, replicate 50 1)] @ [(0, 0, replicate 50 2)]))"
    by (simp add: no_false_footer_def torn_last_eq torn_body_eq(4) demo_stored_def constant_no_footer
        demo_enc_def trailer_len_def)
  from torn_write_recovered [OF torn_head_eq(1) torn_body_eq(1) torn_last_eq(1) demo_can_decrypt dec nf,
    of collect "[]"]
  show ?thesis by (simp add: collect_def)
qed


subsection \<open>Recovery is idempotent\<close>

lemma committed_scan_again:
  assumes scan: "segment_scan_buffer L buf decryptor (None :: 'c segment_frame_cb option) ctx =
      (Inr (header, footer, committed_end), ctx')"
  shows "committed_end \<le> length buf \<and>
    segment_scan_buffer L (take committed_end buf) decryptor (None :: 'c segment_frame_cb option) ctx =
      (Inr (header, footer, committed_end), ctx') \<and>
    length (take committed_end buf) = committed_end \<and> 152 \<le> committed_end"
proof -
  from scan obtain off ei where ph: "segment_parse_header buf = Some (header, off, ei)"
    and loop: "segment_scan_loop \<lparr>env_lib = L, env_header = header, env_encryption = ei,
       env_dek = replicate 32 0, env_dict = take (unat (sh_dict_len header))
         (drop (off - unat (sh_dict_len header)) buf), env_cb = (None :: 'c segment_frame_cb option),
       env_min = 0\<rparr> buf off 0 ctx = (Inr (footer, committed_end), ctx')"
    by (auto simp: segment_scan_buffer_def segment_scan_impl_def Let_def
        split: option.splits prod.splits sum.splits)
  note b = segment_parse_header_bounds [OF ph]
  have le: "off \<le> length buf" using b by blast
  have e: "off \<le> committed_end" "committed_end \<le> length buf"
    using scan_loop_bounds [OF loop le] by auto
  have ph': "segment_parse_header (take committed_end buf) = Some (header, off, ei)"
    by (rule segment_parse_header_take [OF ph e])
  have d: "take (unat (sh_dict_len header)) (drop (off - unat (sh_dict_len header)) (take committed_end buf)) =
      take (unat (sh_dict_len header)) (drop (off - unat (sh_dict_len header)) buf)"
    using b e by (intro take_drop_take) auto
  have "segment_scan_buffer L (take committed_end buf) decryptor (None :: 'c segment_frame_cb option) ctx =
      (Inr (header, footer, committed_end), ctx')"
    unfolding segment_scan_buffer_def segment_scan_impl_def ph' option.case prod.case Let_def d
    using scan_loop_committed_prefix [OF loop _ le] by simp
  with e b show ?thesis by auto
qed

text \<open>
  C3. Truncating a segment at the committed end a metadata scan reports, as recovery does,
  loses nothing and settles the file: the end lies inside the file and behind the header, and
  scanning the truncated file gives the same header, the same footer and the same end, which
  is now its size.
\<close>

theorem recovery_scan_idempotent:
  assumes scan: "segment_scan_buffer L buf decryptor (None :: 'c segment_frame_cb option) ctx =
      (Inr (header, footer, committed_end), ctx')"
  shows "committed_end \<le> length buf \<and>
    segment_scan_buffer L (take committed_end buf) decryptor (None :: 'c segment_frame_cb option) ctx =
      (Inr (header, footer, committed_end), ctx') \<and>
    length (take committed_end buf) = committed_end \<and> 152 \<le> committed_end"
  using committed_scan_again [OF scan] by simp

definition torn_plain :: "byte list" where
  "torn_plain = contents (fst (demo_body False)) @ [1, 2, 3]"

lemma torn_plain_scan:
  "segment_scan_buffer demo_lib torn_plain None (None :: unit segment_frame_cb option) () =
     (Inr (stored_header (demo_header False) 0, empty_footer, length (contents (fst (demo_body False)))), ())"
proof -
  have "segment_scan_loop env (contents (fst (demo_body False)) @ [1, 2, 3])
      (length (contents (fst (demo_body False)))) i c =
      (Inr (empty_footer, length (contents (fst (demo_body False)))), c)"
    for env :: "unit scan_env" and i c
    by (rule scan_at_torn_frame) (simp_all add: footer_at_def frame_check_def)
  from scan_written_metadata [OF demo_head_ok demo_body_ok(1) demo_can_decrypt demo_decodes
    demo_no_footer this, of None "()"]
  show ?thesis by (simp add: torn_plain_def)
qed

theorem recovery_scan_idempotent_witness:
  "segment_scan_buffer demo_lib (take (length (contents (fst (demo_body False)))) torn_plain) None
     (None :: unit segment_frame_cb option) () =
   (Inr (stored_header (demo_header False) 0, empty_footer, length (contents (fst (demo_body False)))), ())"
  using recovery_scan_idempotent [OF torn_plain_scan] by simp

subsection \<open>Nonces\<close>

lemma write_frames_index:
  "write_frames L fp (Some e) ws = (Inr (), fp', enc') \<Longrightarrow>
   \<exists>e'. enc' = Some e' \<and> se_nonce_prefix e' = se_nonce_prefix e \<and> se_dek e' = se_dek e \<and>
     unat (se_frame_index e') = unat (se_frame_index e) + length ws"
proof (induction ws arbitrary: fp e)
  case Nil
  then show ?case by auto
next
  case (Cons w ws)
  obtain flags ulen payload where w: "w = (flags, ulen, payload)" by (cases w)
  from Cons.prems obtain fp1 enc1 where
    w1: "segment_write_frame L fp (Some e) flags payload ulen = (Inr (), fp1, enc1)" and
    rest: "write_frames L fp1 enc1 ws = (Inr (), fp', enc')"
    by (auto simp: w split: prod.splits sum.splits)
  from w1 have ne: "se_frame_index e \<noteq> UINT64_MAX" and
    e1: "enc1 = Some (e\<lparr>se_frame_index := se_frame_index e + 1\<rparr>)"
    by (auto simp: segment_write_frame_def Let_def simp del: write_seq.simps split: if_splits sum.splits prod.splits)
  have "unat (se_frame_index e + 1) = Suc (unat (se_frame_index e))"
    using ne by (rule unat_succ_u64)
  with Cons.IH [OF rest [unfolded e1]] show ?case by auto
qed


definition demo_keyed :: "SegmentEncryptor" where
  "demo_keyed = demo_encryptor\<lparr>se_nonce_prefix := replicate 4 1, se_initialized := True\<rparr>"


subsection \<open>One damaged byte\<close>

lemma frame_raw_split:
  assumes "i < length st"
  obtains hdr rest where "frame_raw fl ul st tg = hdr @ (take i st @ st ! i # drop (Suc i) st) @ rest"
    and "length hdr = 16"
  using assms by (intro that) (simp_all add: frame_raw_def Let_def flip: id_take_nth_drop del: of_nat_add, simp)

text \<open>
  C4. One changed byte anywhere in the stored payload of a frame is detected: a plaintext
  scan ends in front of that frame, with every earlier frame delivered; a scan of an encrypted
  segment fails with \<^verbatim>\<open>EIO\<close> after delivering them. Whatever follows the frame is irrelevant.
\<close>

theorem corrupt_byte_detected:
  assumes w: "segment_write_header L k (fopen_w s) h dict enc = (Inr (), fp1, enc1)"
    and ws: "write_frames L fp1 enc1 ws = (Inr (), fp2, enc2)"
    and fr: "segment_write_frame L fp2 enc2 flags payload ulen = (Inr (), fp3, enc3)"
    and i: "i < length payload" "y \<noteq> contents fp3 ! (length (contents fp2) + 16 + i)"
    and buf: "buf = (contents fp3 @ tail)[length (contents fp2) + 16 + i := y]"
    and key: "can_decrypt L enc decryptor"
    and dec: "list_all2 (decodes L (stored_header h (length dict)) dict) ws chunks"
    and nf: "no_false_footer buf
      (frame_offsets (length (contents fp1)) (trailer_len enc) (ws @ [(flags, ulen, payload)]))"
  shows "segment_scan_buffer L buf decryptor (Some cb) ctx =
    (case run_cb cb (stored_header h (length dict))
            (zip (frame_list (length (contents fp1)) (trailer_len enc) ws) chunks) ctx of
       (rv, c) \<Rightarrow> if rv \<noteq> 0 then (Inl (ScanCallback rv), c)
         else (if encrypted h then Inl (ScanErrno EIO)
               else Inr (stored_header h (length dict), empty_footer, length (contents fp2)), c))"
proof -
  note snoc = no_false_footer_snoc [OF w ws key]
  obtain env0 :: "unit scan_env" where em: "env_matches env0 L enc1 0"
    and eh: "env_header env0 = stored_header h (length dict)"
    using scan_behind_header [OF w key] by metis
  from write_frames_length [OF ws em] have em2: "env_matches env0 L enc2 (of_nat (length ws))" by simp
  obtain st tg where raw: "contents fp3 = contents fp2 @ frame_raw flags ulen st tg"
    and st: "stored_as env0 (of_nat (length ws)) (flags, ulen, payload) st tg"
    using segment_write_frame_raw [OF fr em2] by blast
  from st eh have len: "length st = length payload" "length tg = tag_len (stored_header h (length dict))"
    "20 + length st + length tg \<le> UINT32_MAX" by (simp_all add: stored_as_def)
  let ?a = "take i st" and ?b = "drop (Suc i) st"
  obtain hdr rest where sp: "frame_raw flags ulen st tg = hdr @ (?a @ st ! i # ?b) @ rest"
    and lh: "length hdr = 16"
    using frame_raw_split [of i st] i len by metis
  let ?p = "hdr @ (?a @ y # ?b) @ rest @ tail"
  have st_eq: "?a @ st ! i # ?b = st" using i len by (simp add: id_take_nth_drop [symmetric])
  have b: "buf = contents fp2 @ ?p"
    using i len lh by (simp add: buf raw sp list_update_append nth_append)
  have "y \<noteq> st ! i" using i len lh by (simp add: raw sp nth_append)
  then have chk: "frame_check (stored_header h (length dict)) (frame_info ?p off) ?p = FrameBadCrc" for off
    using sp len lh unfolding st_eq by (intro corrupt_frame_check [of "st ! i"]) (simp_all add: st_eq)
  have nf': "no_false_footer (contents fp2 @ ?p) (frame_offsets (length (contents fp1)) (trailer_len enc) ws)"
    and nft: "footer_at ?p = None"
    using nf unfolding snoc(1) b by simp_all
  have "segment_scan_loop env (contents fp2 @ ?p) (length (contents fp2)) j c =
      (if encrypted h then Inl (ScanErrno EIO) else Inr (empty_footer, length (contents fp2)), c)"
    if "env_header env = stored_header h (length dict)" for env :: "'a scan_env" and j c
    using that nft chk
    by (cases "encrypted h") (simp_all add: scan_at_bad_frame scan_at_bad_frame_encrypted)
  from scan_written_stop [OF w ws key dec nf' this, of cb ctx] show ?thesis
    unfolding b by (simp split: prod.splits)
qed

lemma constant_magic_no_footer: "take 8 (drop 40 p) = replicate 8 b \<Longrightarrow> footer_at p = None"
  by (auto simp: footer_at_def RECORDER_SEGMENT_FOOTER_MAGIC_def str_bytes_def numeral_eq_Suc)

definition third_frame :: FILE where
  "third_frame = \<lparr>contents = contents (fst (demo_body False)) @ demo_stored False 3, wscript = []\<rparr>"

lemma third_frame_ok:
  "segment_write_frame demo_lib (fst (demo_body False)) (snd (demo_body False)) 0 (replicate 50 3) 0 =
     (Inr (), third_frame, None)"
  using demo_body_eq [of False] demo_body_ok(1) [of False]
  by (simp add: demo_write [where enc = False] third_frame_def)

theorem corrupt_byte_detected_witness:
  "segment_scan_buffer demo_lib
     ((contents third_frame @ [9, 9])[length (contents (fst (demo_body False))) + 16 + 5 := 4])
     None (Some collect) [] =
   (Inr (stored_header (demo_header False) 0, empty_footer, length (contents (fst (demo_body False)))),
    [replicate 50 1, replicate 50 2])"
proof -
  let ?n = "length (contents (fst (demo_body False)))"
  let ?buf = "(contents third_frame @ [9, 9])[?n + 16 + 5 := 4]"
  have b: "?buf = contents (fst (demo_body False)) @ (demo_stored False 3 @ [9, 9])[21 := 4]"
    by (simp add: third_frame_def list_update_append)
  have nth: "contents third_frame ! (?n + 16 + 5) = 3"
    by (simp add: third_frame_def nth_append demo_stored_def frame_raw_def Let_def)
  have key: "can_decrypt demo_lib (demo_enc False) None" by (simp add: can_decrypt_def demo_enc_def)
  have "footer_at ((demo_stored False 3 @ [9, 9])[21 := 4]) = None"
    by (rule constant_magic_no_footer [where b = 3]) (simp add: demo_stored_def frame_raw_def Let_def)
  then have nf: "no_false_footer ?buf
      (frame_offsets (length (contents (fst (demo_head False)))) (trailer_len (demo_enc False))
        (demo_frames @ [(0, 0, replicate 50 3)]))"
    unfolding no_false_footer_snoc [OF demo_head_ok demo_body_ok(1) key] b
    using demo_no_footer [of False] by simp
  show ?thesis
    using corrupt_byte_detected [OF demo_head_ok demo_body_ok(1) third_frame_ok, where i = 5 and y = 4
      and tail = "[9, 9]" and decryptor = None and cb = collect and ctx = "[]",
      OF _ _ refl key demo_decodes nf] nth
    by (simp add: demo_frames_def collect_def demo_header_def encrypted_def)
qed


subsection \<open>Random access\<close>

lemma frame_payload_take:
  assumes "frame_check h fr p = FrameOk"
  shows "frame_payload L h ei dek d i fr (take (unat (fi_frame_len fr)) p) = frame_payload L h ei dek d i fr p"
proof -
  from assms have "unat (fi_frame_len fr) = 16 + unat (fi_stored_len fr) + tag_len h + 4"
    by (auto simp: frame_check_def expected_len_def split: if_splits)
  moreover have "encrypted h \<Longrightarrow> tag_len h = 16" by (simp add: tag_len_def)
  ultimately show ?thesis
    unfolding frame_payload_def Let_def
    by (cases "encrypted h") (simp_all add: take_drop_take min_def del: drop_take)
qed

text \<open>What the reader of one frame needs to find at its offset.\<close>

definition frame_at ::
    "lib \<Rightarrow> SegmentHeader \<Rightarrow> SegmentEncryptionInfo \<Rightarrow> byte list \<Rightarrow> byte list \<Rightarrow> byte list \<Rightarrow> nat \<Rightarrow> u64 \<Rightarrow>
     SegmentFrameInfo \<Rightarrow> byte list \<Rightarrow> bool" where
  "frame_at L h ei dek d buf off i fr chunk \<longleftrightarrow>
     frame_check h fr (drop off buf) = FrameOk \<and> fr = frame_info (drop off buf) off \<and>
     frame_payload L h ei dek d i fr (drop off buf) = Chunk chunk"

lemma frame_at_facts:
  assumes "frame_at L h ei dek d buf off i fr chunk"
  shows "frame_info (take 16 (drop off buf)) off = fr" and "off \<le> length buf - 16 - 4"
    and "expected_len h fr \<le> UINT32_MAX" and "unat (fi_frame_len fr) = expected_len h fr"
    and "unat (fi_frame_len fr) \<le> length buf - off"
    and "read_u32_le (drop (16 + unat (fi_stored_len fr) + tag_len h) (take (unat (fi_frame_len fr)) (drop off buf))) =
      frame_crc h (unat (fi_stored_len fr)) (take (unat (fi_frame_len fr)) (drop off buf))"
    and "frame_payload L h ei dek d i fr (take (unat (fi_frame_len fr)) (drop off buf)) = Chunk chunk"
proof -
  from assms have ok: "frame_check h fr (drop off buf) = FrameOk" and fr: "fr = frame_info (drop off buf) off"
    and pl: "frame_payload L h ei dek d i fr (drop off buf) = Chunk chunk"
    unfolding frame_at_def by blast+
  note ff = frame_ok_fits [OF ok] frame_ok_progress [OF ok]
  show "frame_info (take 16 (drop off buf)) off = fr"
    unfolding fr using ff by (intro frame_info_take) simp_all
  show "off \<le> length buf - 16 - 4" using ff by simp
  have "frame_check h (frame_info (take (unat (fi_frame_len fr)) (drop off buf)) off)
      (take (unat (fi_frame_len fr)) (drop off buf)) = FrameOk"
    using ok ff unfolding fr by (intro frame_check_take) simp_all
  moreover have "frame_info (take (unat (fi_frame_len fr)) (drop off buf)) off = fr"
    using ff unfolding fr by (intro frame_info_take) simp_all
  ultimately have "frame_check h fr (take (unat (fi_frame_len fr)) (drop off buf)) = FrameOk" by simp
  then show "expected_len h fr \<le> UINT32_MAX" "unat (fi_frame_len fr) = expected_len h fr"
    "read_u32_le (drop (16 + unat (fi_stored_len fr) + tag_len h) (take (unat (fi_frame_len fr)) (drop off buf))) =
      frame_crc h (unat (fi_stored_len fr)) (take (unat (fi_frame_len fr)) (drop off buf))"
    by (auto simp: frame_check_def split: if_splits)
  show "unat (fi_frame_len fr) \<le> length buf - off" using ff by simp
  show "frame_payload L h ei dek d i fr (take (unat (fi_frame_len fr)) (drop off buf)) = Chunk chunk"
    using frame_payload_take [OF ok] pl by simp
qed

lemma good_frames_at:
  assumes "good_frames env buf base idx (zip (frame_list base ov ws) chunks) e"
    and "list_all (\<lambda>(fl, ul, p). ov + length p \<le> UINT32_MAX) ws"
    and "length chunks = length ws" and "j < length ws"
  shows "frame_at (env_lib env) (env_header env) (env_encryption env) (env_dek env) (env_dict env) buf
    (frame_offsets base ov ws ! j) (idx + of_nat j) (frame_list base ov ws ! j) (chunks ! j) \<and>
    base \<le> frame_offsets base ov ws ! j"
  using assms
proof (induction ws arbitrary: base idx chunks j)
  case Nil
  then show ?case by simp
next
  case (Cons w ws)
  obtain fl ul p where w: "w = (fl, ul, p)" by (cases w)
  obtain c cs where cs: "chunks = c # cs" using Cons.prems(3) by (cases chunks) auto
  let ?fr = "\<lparr>fi_flags = fl, fi_stored_len = of_nat (length p), fi_uncompressed_len = ul,
      fi_file_offset = of_nat base, fi_frame_len = of_nat (ov + length p)\<rparr> :: SegmentFrameInfo"
  have n: "unat (of_nat (ov + length p) :: u32) = ov + length p"
    using Cons.prems(2) by (intro of_nat_inject_le) (simp add: w)
  from Cons.prems(1) have g: "good_frames env buf base idx ((?fr, c) # zip (frame_list (base + ov + length p) ov ws) cs) e"
    by (simp add: w cs)
  from g have here: "frame_at (env_lib env) (env_header env) (env_encryption env) (env_dek env) (env_dict env) buf
      base idx ?fr c"
    by (rule good_consE) (auto simp: frame_at_def)
  from g have rest: "good_frames env buf (base + ov + length p) (idx + 1) (zip (frame_list (base + ov + length p) ov ws) cs) e"
  proof (rule good_consE)
    fix frame chunk
    assume "(?fr, c) = (frame, chunk)" and "good_frames env buf (base + unat (fi_frame_len frame)) (idx + 1)
      (zip (frame_list (base + ov + length p) ov ws) cs) e"
    moreover from this(1) have "unat (fi_frame_len frame) = ov + length p" using n by auto
    ultimately show ?thesis by (simp add: add.assoc)
  qed
  show ?case
  proof (cases j)
    case 0
    with here show ?thesis by (simp add: w cs del: of_nat_add)
  next
    case (Suc j')
    have "j' < length ws" "length cs = length ws" "list_all (\<lambda>(fl, ul, p). ov + length p \<le> UINT32_MAX) ws"
      using Cons.prems Suc by (simp_all add: cs)
    from Cons.IH [OF rest this(3,2,1)] show ?thesis
      by (simp add: w cs Suc add.assoc)
  qed
qed

lemma write_frames_sizes:
  "write_frames L fp enc ws = (Inr (), fp', enc') \<Longrightarrow> env_matches env L enc idx \<Longrightarrow>
   list_all (\<lambda>(fl, ul, p). trailer_len enc + length p \<le> UINT32_MAX) ws"
proof (induction ws arbitrary: fp enc idx)
  case Nil
  then show ?case by simp
next
  case (Cons w ws)
  obtain flags ulen payload where w: "w = (flags, ulen, payload)" by (cases w)
  from Cons.prems(1) obtain fp1 enc1 where
    w1: "segment_write_frame L fp enc flags payload ulen = (Inr (), fp1, enc1)" and
    rest: "write_frames L fp1 enc1 ws = (Inr (), fp', enc')"
    by (auto simp: w split: prod.splits sum.splits)
  from segment_write_frame_raw [OF w1 Cons.prems(2)] obtain st tg where
    r: "stored_as env idx (flags, ulen, payload) st tg" "20 + length tg = trailer_len enc"
      "trailer_len enc1 = trailer_len enc" "env_matches env L enc1 (idx + 1)" by blast
  from Cons.IH [OF rest r(4)] r show ?case
    by (simp add: w stored_as_def)
qed

lemma frame_list_length [simp]: "length (frame_list base ov ws) = length ws"
  by (induction ws arbitrary: base) auto

lemma written_frames_at:
  assumes w: "segment_write_header L k (fopen_w s) h dict enc = (Inr (), fp1, enc1)"
    and ws: "write_frames L fp1 enc1 ws = (Inr (), fp2, enc2)"
    and key: "can_decrypt L enc decryptor"
    and dec: "list_all2 (decodes L (stored_header h (length dict)) dict) ws chunks"
    and nf: "no_false_footer (contents fp2 @ tail)
      (frame_offsets (length (contents fp1)) (trailer_len enc) ws)"
  obtains ei dek where
    "segment_parse_header (contents fp2 @ tail) = Some (stored_header h (length dict), length (contents fp1), ei)"
    and "take (unat (sh_dict_len (stored_header h (length dict))))
       (drop (length (contents fp1) - unat (sh_dict_len (stored_header h (length dict)))) (contents fp1)) = dict"
    and "if encrypted h
         then (\<exists>key. decryptor = Some key \<and> recorder_crypto_unwrap_dek L key (ei_wrapped_dek ei) = Inr dek)
         else dek = replicate 32 0"
    and "\<And>j. j < length ws \<Longrightarrow>
      frame_at L (stored_header h (length dict)) ei dek dict (contents fp2 @ tail)
        (frame_offsets (length (contents fp1)) (trailer_len enc) ws ! j) (of_nat j)
        (frame_list (length (contents fp1)) (trailer_len enc) ws ! j) (chunks ! j) \<and>
      length (contents fp1) \<le> frame_offsets (length (contents fp1)) (trailer_len enc) ws ! j"
    and "take (length (contents fp1)) (contents fp2 @ tail) = contents fp1"
proof -
  obtain ei dek where
    ph: "\<And>tail. segment_parse_header (contents fp1 @ tail) =
       Some (stored_header h (length dict), length (contents fp1), ei)"
    and d: "\<And>tail. take (unat (sh_dict_len (stored_header h (length dict))))
       (drop (length (contents fp1) - unat (sh_dict_len (stored_header h (length dict))))
         (contents fp1 @ tail)) = dict"
    and dk: "if encrypted h
         then (\<exists>key. decryptor = Some key \<and> recorder_crypto_unwrap_dek L key (ei_wrapped_dek ei) = Inr dek)
         else dek = replicate 32 0"
    and m: "case enc1 of None \<Rightarrow> \<not> encrypted h
         | Some e \<Rightarrow> encrypted h \<and> dek = se_dek e \<and> ei_nonce_prefix ei = se_nonce_prefix e \<and>
             se_frame_index e = 0 \<and> gcm_ok L"
    and tr: "trailer_len enc1 = trailer_len enc"
    using written_header_parses [OF w key] by blast
  let ?env = "\<lparr>env_lib = L, env_header = stored_header h (length dict), env_encryption = ei,
      env_dek = dek, env_dict = dict, env_cb = (None :: unit segment_frame_cb option), env_min = 0\<rparr>"
  have em: "env_matches ?env L enc1 0"
    using m by (auto simp: env_matches_def split: option.splits)
  from write_frames_extends [OF ws em] obtain bs where bs: "contents fp2 = contents fp1 @ bs" ..
  have gf: "good_frames ?env (contents fp2 @ tail) (length (contents fp1)) 0
      (zip (frame_list (length (contents fp1)) (trailer_len enc) ws) chunks) (length (contents fp2))"
    using write_frames_good [OF ws em, of chunks tail] dec nf tr by simp
  have sz: "list_all (\<lambda>(fl, ul, p). trailer_len enc + length p \<le> UINT32_MAX) ws"
    using write_frames_sizes [OF ws em] tr by simp
  have lc: "length chunks = length ws" using dec by (simp add: list_all2_lengthD)
  show thesis
  proof (rule that [of ei dek])
    show "segment_parse_header (contents fp2 @ tail) = Some (stored_header h (length dict), length (contents fp1), ei)"
      using ph [of "bs @ tail"] unfolding bs append_assoc .
    show "take (unat (sh_dict_len (stored_header h (length dict))))
       (drop (length (contents fp1) - unat (sh_dict_len (stored_header h (length dict)))) (contents fp1)) = dict"
      using d [of "[]"] by (simp only: append_Nil2)
    show "frame_at L (stored_header h (length dict)) ei dek dict (contents fp2 @ tail)
        (frame_offsets (length (contents fp1)) (trailer_len enc) ws ! j) (of_nat j)
        (frame_list (length (contents fp1)) (trailer_len enc) ws ! j) (chunks ! j) \<and>
      length (contents fp1) \<le> frame_offsets (length (contents fp1)) (trailer_len enc) ws ! j"
      if "j < length ws" for j
      using good_frames_at [OF gf sz lc that] by simp
  qed (use dk bs in simp_all)
qed

text \<open>
  C6. Random access agrees with the sequential scan: in a written segment, opening a frame
  reader succeeds, and reading the frame at its recorded offset with its index, through the
  open reader or through \<^verbatim>\<open>segment_scan_path_frame\<close>, hands the callback the same frame
  description and the same chunk as the sequential scan does, whatever lies behind the frames.
\<close>

theorem random_access_matches_scan:
  assumes w: "segment_write_header L k (fopen_w s) h dict enc = (Inr (), fp1, enc1)"
    and ws: "write_frames L fp1 enc1 ws = (Inr (), fp2, enc2)"
    and key: "can_decrypt L enc decryptor"
    and dec: "list_all2 (decodes L (stored_header h (length dict)) dict) ws chunks"
    and nf: "no_false_footer (contents fp2 @ tail)
      (frame_offsets (length (contents fp1)) (trailer_len enc) ws)"
    and j: "j < length ws"
    and off: "off = frame_offsets (length (contents fp1)) (trailer_len enc) ws ! j"
    and fr: "fr = frame_list (length (contents fp1)) (trailer_len enc) ws ! j"
  shows "\<exists>reader. segment_frame_reader_open L (Some (contents fp2 @ tail)) decryptor = Inr reader \<and>
    segment_frame_reader_scan L reader cb ctx off (of_nat j) =
      (case cb (stored_header h (length dict)) fr (chunks ! j) ctx of (rv, c) \<Rightarrow> (Inr rv, c)) \<and>
    segment_scan_path_frame L (Some (contents fp2 @ tail)) decryptor cb ctx off (of_nat j) =
      (case cb (stored_header h (length dict)) fr (chunks ! j) ctx of (rv, c) \<Rightarrow> (Inr rv, c))"
proof -
  let ?h = "stored_header h (length dict)" and ?buf = "contents fp2 @ tail" and ?o = "length (contents fp1)"
  obtain ei dek where ph: "segment_parse_header ?buf = Some (?h, ?o, ei)"
    and d: "take (unat (sh_dict_len ?h)) (drop (?o - unat (sh_dict_len ?h)) (contents fp1)) = dict"
    and dk: "if encrypted h
         then (\<exists>key. decryptor = Some key \<and> recorder_crypto_unwrap_dek L key (ei_wrapped_dek ei) = Inr dek)
         else dek = replicate 32 0"
    and at: "frame_at L ?h ei dek dict ?buf off (of_nat j) fr (chunks ! j) \<and> ?o \<le> off"
    and tk: "take ?o ?buf = contents fp1"
    using written_frames_at [OF w ws key dec nf] j unfolding off fr by metis
  have le: "?o \<le> length ?buf" using segment_parse_header_bounds [OF ph] by blast
  have md: "read_metadata ?buf = Some (contents fp1)"
    using read_metadata_of_parsed [OF ph] tk by simp
  have ph': "segment_parse_header (contents fp1) = Some (?h, ?o, ei)"
    using segment_parse_header_take [OF ph order_refl le] tk by simp
  note facts = frame_at_facts [OF conjunct1 [OF at]] conjunct2 [OF at]
  have key': "(if encrypted ?h
      then (case decryptor of None \<Rightarrow> Inl EACCES
            | Some key \<Rightarrow> (case recorder_crypto_unwrap_dek L key (ei_wrapped_dek ei) of
                  Inl _ \<Rightarrow> Inl EACCES | Inr dek \<Rightarrow> Inr dek))
      else Inr (replicate 32 0)) = Inr dek"
    using dk by (auto split: if_splits)
  have op: "segment_frame_reader_open L (Some ?buf) decryptor =
      Inr \<lparr>fr_file = ?buf, fr_data_offset = ?o, fr_header = ?h, fr_encryption = ei,
           fr_metadata = contents fp1, fr_dek = dek\<rparr>"
    unfolding segment_frame_reader_open_def option.case md ph' prod.case key' sum.case ..
  show ?thesis
    unfolding op segment_frame_reader_scan_def segment_scan_path_frame_def option.case md ph' prod.case key' sum.case Let_def
      SegmentFrameReader.simps
    using facts by (simp add: d del: length_append split: prod.splits)
qed

theorem random_access_matches_scan_witness:
  "\<exists>reader. segment_frame_reader_open demo_lib (Some (contents (fst (demo_body True)) @ [1, 2])) (Some 2) = Inr reader \<and>
     segment_frame_reader_scan demo_lib reader collect []
       (86 + length (contents (fst (demo_head True)))) 1 = (Inr 0, [replicate 50 2])"
  using random_access_matches_scan [OF demo_head_ok demo_body_ok(1) demo_can_decrypt demo_decodes
      demo_no_footer [of True "[1, 2]"], where j = 1 and cb = collect and ctx = "[]", OF _ refl refl]
  by (auto simp: demo_frames_def collect_def demo_enc_def trailer_len_def)

subsection \<open>Tails that are not torn frames\<close>

lemma zero_tail_check:
  assumes "20 + tag_len h \<le> n"
  shows "frame_check h (frame_info (replicate n 0) off) (replicate n 0) = FrameBadLength"
  using assms by (simp add: frame_check_def frame_info_def read_u32_le_def expected_len_def)

text \<open>
  C7. Behind the frames of an encrypted segment, a tail of zeros as long as a frame header,
  tag and checksum (a preallocated or partly flushed file) is not skipped like a torn frame:
  every scan, the key-less scan of recovery included, fails with \<^verbatim>\<open>EIO\<close>. The same tail behind
  plaintext frames ends the scan at the last frame.
\<close>

theorem zero_tail_scan:
  assumes w: "segment_write_header L k (fopen_w s) h dict enc = (Inr (), fp1, enc1)"
    and ws: "write_frames L fp1 enc1 ws = (Inr (), fp2, enc2)"
    and key: "can_decrypt L enc decryptor"
    and dec: "list_all2 (decodes L (stored_header h (length dict)) dict) ws chunks"
    and nf: "no_false_footer (contents fp2 @ replicate n 0)
      (frame_offsets (length (contents fp1)) (trailer_len enc) ws)"
    and n: "36 \<le> n"
  shows "segment_scan_buffer L (contents fp2 @ replicate n 0) None (None :: 'c segment_frame_cb option) ctx =
    (if encrypted h then Inl (ScanErrno EIO)
     else Inr (stored_header h (length dict), empty_footer, length (contents fp2)), ctx)"
proof -
  have chk: "frame_check (stored_header h (length dict)) (frame_info (replicate n 0) off) (replicate n 0) = FrameBadLength" for off
    using n by (intro zero_tail_check) (simp add: tag_len_def)
  have nft: "footer_at (replicate n 0) = None"
  proof (cases "n < 48")
    case True
    then show ?thesis by (simp add: footer_at_def)
  next
    case False
    then show ?thesis by (intro constant_magic_no_footer [where b = 0]) simp
  qed
  have "segment_scan_loop env (contents fp2 @ replicate n 0) (length (contents fp2)) j c =
      (if encrypted h then Inl (ScanErrno EIO) else Inr (empty_footer, length (contents fp2)), c)"
    if "env_header env = stored_header h (length dict)" for env :: "'c scan_env" and j c
    using that nft chk
    by (cases "encrypted h") (simp_all add: scan_at_bad_frame scan_at_bad_frame_encrypted)
  from scan_written_metadata [OF w ws key dec nf this, of None ctx] show ?thesis
    by (simp split: if_splits)
qed

theorem zero_tail_scan_witness:
  "segment_scan_buffer demo_lib (contents (fst (demo_body True)) @ replicate 64 0) None
     (None :: unit segment_frame_cb option) () = (Inl (ScanErrno EIO), ())"
  using zero_tail_scan [OF demo_head_ok demo_body_ok(1) demo_can_decrypt demo_decodes
    demo_no_footer [of True "replicate 64 0"], where ctx = "()"]
  by (simp add: demo_header_def encrypted_def)

text \<open>
  C8. \<^verbatim>\<open>recorder_crypto_aes_gcm_encrypt\<close> never encrypts an empty payload under additional data:
  it compares the length EVP reported for the additional data with the empty payload. A frame
  with an empty payload is therefore never written to an encrypted segment.
\<close>

theorem empty_payload_never_encrypted:
  assumes "se_initialized e"
  shows "\<exists>er enc'. segment_write_frame L fp (Some e) flags [] ulen = (Inl er, fp, enc')"
proof -
  have "\<exists>st. recorder_crypto_aes_gcm_encrypt L dek nonce (frame_header a b c d) [] = Inl st" for dek nonce a b c d
    using length_frame_header [of a b c d]
    by (auto simp: recorder_crypto_aes_gcm_encrypt_def evp_outl_def Let_def split: option.splits)
  then obtain st where "recorder_crypto_aes_gcm_encrypt L (se_dek e)
      (frame_nonce (se_nonce_prefix e) (se_frame_index e)) (frame_header flags 0 ulen 36) [] = Inl st" by blast
  then show ?thesis using assms
    by (simp add: segment_write_frame_def Let_def)
qed

theorem empty_payload_never_encrypted_witness:
  "\<exists>er enc'. segment_write_frame demo_lib (fopen_w []) (Some demo_keyed) 0 [] 0 = (Inl er, fopen_w [], enc')"
  by (rule empty_payload_never_encrypted) (simp add: demo_keyed_def)

end
