(* ===== verification/Boots.thy ===== *)
theory Boots
  imports Store Json Segment_Props
begin

text \<open>
  The boot registry of \<^verbatim>\<open>src/recorder.c\<close>: the table that gives every boot id a sequence
  number (\<^verbatim>\<open>boot_registry_get\<close>, \<^verbatim>\<open>boot_registry_seq\<close>), its reconstruction from the segment
  headers of the store (\<^verbatim>\<open>boot_registry_rebuild_from_segments\<close>) and its state file
  (\<^verbatim>\<open>load_boot_state\<close>, \<^verbatim>\<open>persist_boot_state\<close>).
\<close>

abbreviation (input) MAX_BOOTS :: nat where "MAX_BOOTS \<equiv> 256"

record BootEntry =
  be_id :: "byte list"
  be_seq :: u32
  be_first_realtime_ts :: u64
  be_last_clean_realtime_ts :: u64

type_synonym BootRegistry = "BootEntry list"

definition boot_registry_init :: BootRegistry where
  "boot_registry_init = []"

text \<open>The part of a boot id that \<^verbatim>\<open>strncmp\<close> and \<^verbatim>\<open>strnlen\<close> look at.\<close>

definition boot_key :: "byte list \<Rightarrow> byte list" where
  "boot_key boot_id = cstr (take RECORDER_BOOT_ID_SIZE boot_id)"

fun boot_index :: "byte list \<Rightarrow> BootRegistry \<Rightarrow> nat option" where
  "boot_index k [] = None"
| "boot_index k (b # bs) =
     (if boot_key (be_id b) = k then Some 0 else map_option Suc (boot_index k bs))"

text \<open>The entry for a boot id, by its index; a full table hands out its last entry.\<close>

definition boot_registry_get :: "BootRegistry \<Rightarrow> byte list \<Rightarrow> nat \<times> BootRegistry" where
  "boot_registry_get r boot_id =
     (case boot_index (boot_key boot_id) r of
        Some i \<Rightarrow> (i, r)
      | None \<Rightarrow>
          if length r \<ge> MAX_BOOTS then (length r - 1, r)
          else (length r,
                r @ [\<lparr>be_id = boot_key boot_id, be_seq = of_nat (length r),
                      be_first_realtime_ts = 0, be_last_clean_realtime_ts = 0\<rparr>]))"

definition boot_registry_seq :: "BootRegistry \<Rightarrow> byte list \<Rightarrow> u32 \<times> BootRegistry" where
  "boot_registry_seq r boot_id =
     (case boot_registry_get r boot_id of (i, r') \<Rightarrow> (be_seq (r' ! i), r'))"

subsection \<open>Rebuilding from the segments\<close>

definition scan_metadata :: "lib \<Rightarrow> string \<Rightarrow> world \<Rightarrow> (SegmentHeader \<times> SegmentFooter \<times> nat) option" where
  "scan_metadata L path w =
     (case fst (segment_scan_path L (read_file path w) None None ()) of
        Inl _ \<Rightarrow> None
      | Inr r \<Rightarrow> Some r)"

fun strstr :: "string \<Rightarrow> string \<Rightarrow> bool" where
  "strstr [] needle = (needle = [])"
| "strstr (c # cs) needle = (take (length needle) (c # cs) = needle \<or> strstr cs needle)"

definition note_segment :: "SegmentHeader \<Rightarrow> SegmentFooter \<Rightarrow> BootEntry \<Rightarrow> BootEntry" where
  "note_segment header footer boot =
     boot\<lparr>be_seq := sh_boot_seq header,
          be_first_realtime_ts :=
            (if be_first_realtime_ts boot = 0 \<or> sh_first_realtime_ts header < be_first_realtime_ts boot
             then sh_first_realtime_ts header else be_first_realtime_ts boot),
          be_last_clean_realtime_ts :=
            (if ft_last_realtime_ts footer > be_last_clean_realtime_ts boot
             then ft_last_realtime_ts footer else be_last_clean_realtime_ts boot)\<rparr>"

definition rebuild_segment :: "lib \<Rightarrow> world \<Rightarrow> string \<Rightarrow> string \<Rightarrow> BootRegistry \<Rightarrow> BootRegistry" where
  "rebuild_segment L w dir_path name boots =
     (if \<not> strstr name ''.seg'' then boots
      else case join_path_component PATH_MAX dir_path name of
        None \<Rightarrow> boots
      | Some path \<Rightarrow>
          (case scan_metadata L path w of
             None \<Rightarrow> boots
           | Some (header, footer, _) \<Rightarrow>
               (case boot_registry_get boots (sh_boot_id header) of
                  (i, boots') \<Rightarrow> boots'[i := note_segment header footer (boots' ! i)])))"

definition boot_registry_rebuild_from_segments_cb ::
    "lib \<Rightarrow> string \<Rightarrow> world \<times> BootRegistry \<Rightarrow> world \<times> BootRegistry" where
  "boot_registry_rebuild_from_segments_cb L dir_name s =
     (case s of (w, boots) \<Rightarrow>
        (case build_segment_dir w PATH_MAX dir_name of
           None \<Rightarrow> (w, boots)
         | Some dir_path \<Rightarrow> (w, fold (rebuild_segment L w dir_path) (readdir_files dir_path w) boots)))"

definition boot_registry_rebuild_from_segments :: "lib \<Rightarrow> world \<Rightarrow> BootRegistry" where
  "boot_registry_rebuild_from_segments L w =
     snd (for_each_segment_dir (boot_registry_rebuild_from_segments_cb L) (w, boot_registry_init))"

subsection \<open>The state file\<close>

definition load_boot :: "json \<Rightarrow> BootRegistry \<Rightarrow> BootRegistry" where
  "load_boot node boots =
     (case (json_object_get node ''boot_id'', json_object_get node ''boot_seq'',
            json_object_get node ''first_realtime_ts'') of
        (Some (JString bid), Some (JInteger sq), Some (JInteger first)) \<Rightarrow>
          (case boot_registry_get boots bid of
             (i, boots') \<Rightarrow>
               boots'[i := (boots' ! i)\<lparr>be_seq := ucast sq, be_first_realtime_ts := first,
                  be_last_clean_realtime_ts :=
                    (case json_object_get node ''last_realtime_ts_on_clean_shutdown'' of
                       Some (JInteger last_ts) \<Rightarrow> last_ts
                     | _ \<Rightarrow> 0)\<rparr>])
      | _ \<Rightarrow> boots)"

definition load_boot_state :: "jansson \<Rightarrow> world \<Rightarrow> BootRegistry option" where
  "load_boot_state J w =
     (case build_state_boots_path w 512 of
        None \<Rightarrow> None
      | Some path \<Rightarrow>
          (case read_file path w of
             None \<Rightarrow> None
           | Some raw \<Rightarrow>
               (case json_loads J (bytes_str (cstr raw)) of
                  Some (JArray nodes) \<Rightarrow> Some (fold load_boot nodes boot_registry_init)
                | _ \<Rightarrow> None)))"

definition boot_node :: "jansson \<Rightarrow> BootEntry \<Rightarrow> json option" where
  "boot_node J b =
     (if \<not> json_utf8 J (be_id b) then None
      else Some (JObject
        ([(''boot_id'', JString (be_id b)), (''boot_seq'', JInteger (ucast (be_seq b))),
          (''first_realtime_ts'', JInteger (be_first_realtime_ts b))] @
         (if be_last_clean_realtime_ts b \<noteq> 0
          then [(''last_realtime_ts_on_clean_shutdown'', JInteger (be_last_clean_realtime_ts b))]
          else []))))"

definition persist_boot_state :: "jansson \<Rightarrow> BootRegistry \<Rightarrow> world \<Rightarrow> bool \<times> world" where
  "persist_boot_state J boots w =
     (let nodes = map (boot_node J) boots in
      if None \<in> set nodes then (False, w)
      else case json_dumps J (JArray (map the nodes)) of
        None \<Rightarrow> (False, w)
      | Some text \<Rightarrow>
          (case build_state_boots_path w 512 of
             None \<Rightarrow> (False, w)
           | Some path \<Rightarrow> atomic_write_text_file path text w))"

subsection \<open>The registry invariant\<close>

text \<open>
  Every id is stored in its compared form, no two entries share one, and the table is within
  its array.
\<close>

definition registry_ok :: "BootRegistry \<Rightarrow> bool" where
  "registry_ok r \<longleftrightarrow>
     list_all (\<lambda>b. boot_key (be_id b) = be_id b) r \<and> distinct (map be_id r) \<and> length r \<le> MAX_BOOTS"

lemma boot_key_idem [simp]: "boot_key (boot_key k) = boot_key k"
proof -
  have "length (boot_key k) \<le> 32"
    using length_takeWhile_le [of "\<lambda>c. c \<noteq> 0" "take 32 k"] by (simp add: boot_key_def cstr_def)
  then show ?thesis by (simp add: boot_key_def cstr_def takeWhile_idem del: takeWhile_eq_all_conv) 
qed

lemma boot_index_some:
  "boot_index k r = Some i \<Longrightarrow> i < length r \<and> boot_key (be_id (r ! i)) = k"
  by (induction r arbitrary: i) (auto split: if_splits)

lemma boot_index_none: "boot_index k r = None \<longleftrightarrow> k \<notin> boot_key ` be_id ` set r"
  by (induction r) auto

lemma registry_get_ok:
  assumes "registry_ok r" and "boot_registry_get r bid = (i, r')"
  shows "registry_ok r' \<and> i < length r' \<and> (\<exists>bs. r' = r @ bs)"
proof (cases "boot_index (boot_key bid) r")
  case None
  then have fresh: "boot_key bid \<notin> be_id ` set r"
    using assms(1) by (force simp: boot_index_none registry_ok_def list_all_iff)
  show ?thesis
    using assms None fresh by (auto simp: boot_registry_get_def registry_ok_def split: if_splits)
next
  case (Some j)
  with assms boot_index_some [OF Some] show ?thesis by (simp add: boot_registry_get_def)
qed

lemma registry_update_ok:
  assumes "registry_ok r" and "be_id b = be_id (r ! i)"
  shows "registry_ok (r[i := b])"
proof (cases "i < length r")
  case True
  have m: "map be_id (r[i := b]) = map be_id r"
    using assms(2) True by (simp add: map_update list_update_same_conv)
  have "boot_key (be_id b) = be_id b" using assms True by (simp add: registry_ok_def list_all_length)
  then show ?thesis
    using assms(1) m by (auto simp: registry_ok_def list_all_iff dest: set_update_subset_insert [THEN subsetD])
next
  case False
  with assms show ?thesis by (simp add: list_update_beyond)
qed

lemma load_boot_ok: "registry_ok r \<Longrightarrow> registry_ok (load_boot node r)"
  by (auto simp: load_boot_def split: option.splits json.splits prod.splits
      intro!: registry_update_ok dest: registry_get_ok)

lemma rebuild_segment_ok: "registry_ok r \<Longrightarrow> registry_ok (rebuild_segment L w d n r)"
  by (auto simp: rebuild_segment_def note_segment_def split: option.splits prod.splits
      intro!: registry_update_ok dest: registry_get_ok)

lemma registry_init_ok: "registry_ok boot_registry_init"
  by (simp add: registry_ok_def boot_registry_init_def)

interpretation load: stepper load_boot registry_ok
  by unfold_locales (rule load_boot_ok)

interpretation rebuild: stepper "rebuild_segment L w d" registry_ok for L w d
  by unfold_locales (rule rebuild_segment_ok)


subsection \<open>Round trip of the state file\<close>

lemma get_new:
  "registry_ok (r @ [b]) \<Longrightarrow> boot_registry_get r (be_id b) =
    (length r, r @ [\<lparr>be_id = be_id b, be_seq = of_nat (length r), be_first_realtime_ts = 0,
       be_last_clean_realtime_ts = 0\<rparr>])"
proof -
  assume ok: "registry_ok (r @ [b])"
  then have "boot_key ` be_id ` set r = be_id ` set r" by (force simp: registry_ok_def list_all_iff)
  with ok have "boot_index (boot_key (be_id b)) r = None"
    by (auto simp: boot_index_none registry_ok_def)
  with ok show ?thesis by (simp add: boot_registry_get_def registry_ok_def)
qed

lemma ucast_u32_u64 [simp]: "(ucast (ucast (x :: u32) :: u64) :: u32) = x"
  by (rule bit_word_eqI) (simp add: bit_simps)

lemma load_boot_node:
  assumes "registry_ok (r @ [b])" and "boot_node J b = Some node"
  shows "load_boot node r = r @ [b]"
  using assms(2) get_new [OF assms(1)]
  by (auto simp: boot_node_def load_boot_def list_update_append split: if_splits)

lemma registry_ok_prefix: "registry_ok (r @ s) \<Longrightarrow> registry_ok r"
  by (simp add: registry_ok_def)

lemma load_boot_nodes:
  "registry_ok (r @ bs) \<Longrightarrow> None \<notin> set (map (boot_node J) bs) \<Longrightarrow>
   fold load_boot (map the (map (boot_node J) bs)) r = r @ bs"
proof (induction bs arbitrary: r)
  case (Cons b bs)
  then obtain node where n: "boot_node J b = Some node" by force
  have "registry_ok (r @ [b])" using Cons.prems(1) registry_ok_prefix [of "r @ [b]" bs] by simp
  from load_boot_node [OF this n] Cons.IH [of "r @ [b]"] Cons.prems n show ?case by simp
qed simp

text \<open>
  C17. The boot state file survives a write: whatever system call fails, what
  \<^verbatim>\<open>load_boot_state\<close> reads afterwards is what it read before or exactly the registry that was
  being written, and it is that registry when \<^verbatim>\<open>persist_boot_state\<close> reports success.
\<close>

theorem boot_state_roundtrip:
  assumes J: "jansson_ok J" and ok: "registry_ok boots" and len: "length (w_log_dir w) \<le> 480"
    and pst: "persist_boot_state J boots w = (success, w')"
  shows "load_boot_state J w' \<in> {load_boot_state J w, Some boots} \<and>
    (success \<longrightarrow> load_boot_state J w' = Some boots)"
proof -
  let ?nodes = "map (boot_node J) boots"
  let ?path = "w_log_dir w @ ''/state/boots''"
  have path: "build_state_boots_path w 512 = Some ?path"
    using len by (simp add: build_state_boots_path_def build_log_path_def join_path_suffix_def)
  show ?thesis
  proof (cases "None \<in> set ?nodes \<or> json_dumps J (JArray (map the ?nodes)) = None")
    case True
    then have "w' = w \<and> \<not> success"
      using pst unfolding persist_boot_state_def Let_def by (auto split: if_splits)
    then show ?thesis by simp
  next
    case False
    then obtain doc where t: "json_dumps J (JArray (map the ?nodes)) = Some doc" and nn: "None \<notin> set ?nodes"
      by blast
    have ld: "json_loads J doc = Some (JArray (map the ?nodes))" "CHR 0x00 \<notin> set doc"
      using J t unfolding jansson_ok_def by blast+
    have aw: "atomic_write_text_file ?path doc w = (success, w')"
      using pst path t nn by (simp add: persist_boot_state_def)
    note eff = atomic_write_effect [OF aw]
    have path': "build_state_boots_path w' 512 = Some ?path"
      using eff len path by (simp add: build_state_boots_path_def build_log_path_def)
    have old: "load_boot_state J w' = load_boot_state J w" if "read_file ?path w' = read_file ?path w"
      using that path path' by (simp add: load_boot_state_def)
    have new: "load_boot_state J w' = Some boots" if "read_file ?path w' = Some (str_bytes doc)"
      using that path' ld load_boot_nodes [of "[]" boots J] ok nn
      by (simp add: load_boot_state_def cstr_no_nul bytes_str_bytes boot_registry_init_def)
    show ?thesis using eff len old new by auto
  qed
qed

definition demo_boots :: BootRegistry where
  "demo_boots = [\<lparr>be_id = [97, 98], be_seq = 1, be_first_realtime_ts = 100, be_last_clean_realtime_ts = 0\<rparr>,
                 \<lparr>be_id = [99], be_seq = 2, be_first_realtime_ts = 200, be_last_clean_realtime_ts = 250\<rparr>]"

definition demo_json :: json where
  "demo_json = JArray
     [JObject [(''boot_id'', JString [97, 98]), (''boot_seq'', JInteger 1), (''first_realtime_ts'', JInteger 100)],
      JObject [(''boot_id'', JString [99]), (''boot_seq'', JInteger 2), (''first_realtime_ts'', JInteger 200),
               (''last_realtime_ts_on_clean_shutdown'', JInteger 250)]]"

definition demo_jansson :: jansson where
  "demo_jansson = \<lparr>json_utf8 = (\<lambda>_. True),
     json_dumps = (\<lambda>v. if v = demo_json then Some ''[two boots]'' else None),
     json_loads = (\<lambda>s. if s = ''[two boots]'' then Some demo_json else None)\<rparr>"

theorem boot_state_roundtrip_witness:
  "load_boot_state demo_jansson (snd (persist_boot_state demo_jansson demo_boots (demo_world []))) = Some demo_boots"
proof -
  have J: "jansson_ok demo_jansson" by (simp add: jansson_ok_def demo_jansson_def)
  have ok: "registry_ok demo_boots"
    by (simp add: registry_ok_def demo_boots_def boot_key_def cstr_def)
  have len: "length (w_log_dir (demo_world [])) \<le> 480" by (simp add: demo_world_def)
  have "map the (map (boot_node demo_jansson) demo_boots) = (case demo_json of JArray vs \<Rightarrow> vs | _ \<Rightarrow> [])"
    "None \<notin> set (map (boot_node demo_jansson) demo_boots)"
    by (simp_all add: demo_json_def demo_boots_def boot_node_def demo_jansson_def)
  then have "fst (persist_boot_state demo_jansson demo_boots (demo_world []))"
    by (simp add: persist_boot_state_def demo_jansson_def) (simp add: demo_json_def, code_simp)
  with boot_state_roundtrip [OF J ok len prod.collapse [symmetric]] show ?thesis by blast
qed


subsection \<open>The rebuilt registry describes the store\<close>

text \<open>The readable segments of the store, in the order the rebuild meets them.\<close>

definition dir_segments :: "lib \<Rightarrow> world \<Rightarrow> string \<Rightarrow> (SegmentHeader \<times> SegmentFooter) list" where
  "dir_segments L w dir_path =
     List.map_filter
       (\<lambda>name. if strstr name ''.seg''
               then Option.bind (join_path_component PATH_MAX dir_path name)
                      (\<lambda>path. map_option (\<lambda>(h, f, _). (h, f)) (scan_metadata L path w))
               else None)
       (readdir_files dir_path w)"

definition store_segments :: "lib \<Rightarrow> world \<Rightarrow> (SegmentHeader \<times> SegmentFooter) list" where
  "store_segments L w =
     concat (map (\<lambda>d. case build_segment_dir w PATH_MAX d of None \<Rightarrow> [] | Some p \<Rightarrow> dir_segments L w p)
       (segment_dirs w))"

definition note_boot :: "SegmentHeader \<times> SegmentFooter \<Rightarrow> BootRegistry \<Rightarrow> BootRegistry" where
  "note_boot s r =
     (case boot_registry_get r (sh_boot_id (fst s)) of
        (i, r') \<Rightarrow> r'[i := note_segment (fst s) (snd s) (r' ! i)])"

lemma rebuild_dir:
  "fold (rebuild_segment L w p) names r =
   fold note_boot (List.map_filter
       (\<lambda>name. if strstr name ''.seg''
               then Option.bind (join_path_component PATH_MAX p name)
                      (\<lambda>path. map_option (\<lambda>(h, f, _). (h, f)) (scan_metadata L path w))
               else None) names) r"
  by (induction names arbitrary: r)
    (auto simp: map_filter_simps rebuild_segment_def note_boot_def split: option.splits)

lemma rebuild_eq: "boot_registry_rebuild_from_segments L w = fold note_boot (store_segments L w) boot_registry_init"
proof -
  have "fold (boot_registry_rebuild_from_segments_cb L) ds (w, r) =
      (w, fold note_boot (concat (map (\<lambda>d. case build_segment_dir w PATH_MAX d of None \<Rightarrow> []
         | Some p \<Rightarrow> dir_segments L w p) ds)) r)" for ds r
    by (induction ds arbitrary: r)
      (auto simp: boot_registry_rebuild_from_segments_cb_def rebuild_dir dir_segments_def split: option.splits)
  then show ?thesis
    by (simp add: boot_registry_rebuild_from_segments_def for_each_segment_dir_def store_segments_def)
qed

definition describes :: "(SegmentHeader \<times> SegmentFooter) list \<Rightarrow> BootEntry \<Rightarrow> bool" where
  "describes segs b \<longleftrightarrow>
     (\<exists>(h, f) \<in> set segs. boot_key (sh_boot_id h) = be_id b \<and> sh_boot_seq h = be_seq b) \<and>
     (\<forall>(h, f) \<in> set segs. boot_key (sh_boot_id h) = be_id b \<longrightarrow>
        be_first_realtime_ts b \<le> sh_first_realtime_ts h \<and> ft_last_realtime_ts f \<le> be_last_clean_realtime_ts b)"

definition described :: "(SegmentHeader \<times> SegmentFooter) list \<Rightarrow> BootRegistry \<Rightarrow> bool" where
  "described segs r \<longleftrightarrow>
     registry_ok r \<and>
     (length r < MAX_BOOTS \<longrightarrow>
        (\<forall>b \<in> set r. describes segs b \<and> be_first_realtime_ts b \<noteq> 0) \<and>
        (\<forall>(h, f) \<in> set segs. boot_key (sh_boot_id h) \<in> be_id ` set r))"

lemma describes_other:
  "describes segs b \<Longrightarrow> boot_key (sh_boot_id h) \<noteq> be_id b \<Longrightarrow> describes (segs @ [(h, f)]) b"
  by (auto simp: describes_def)

lemma describes_noted:
  assumes "describes segs b \<and> be_first_realtime_ts b \<noteq> 0 \<or>
      be_id b \<notin> (\<lambda>(h, f). boot_key (sh_boot_id h)) ` set segs \<and> be_first_realtime_ts b = 0"
    and "boot_key (sh_boot_id h) = be_id b"
  shows "describes (segs @ [(h, f)]) (note_segment h f b)"
  using assms
  by (fastforce simp: describes_def note_segment_def image_iff)

lemma get_cases:
  assumes ok: "registry_ok r" and g: "boot_registry_get r bid = (i, r')" and len: "length r' < MAX_BOOTS"
  shows "(r' = r \<and> i < length r \<and> be_id (r ! i) = boot_key bid) \<or>
    (i = length r \<and> boot_key bid \<notin> be_id ` set r \<and>
     r' = r @ [\<lparr>be_id = boot_key bid, be_seq = of_nat (length r),
                be_first_realtime_ts = 0, be_last_clean_realtime_ts = 0\<rparr>])"
proof (cases "boot_index (boot_key bid) r")
  case None
  then have "boot_key bid \<notin> be_id ` set r"
    using ok by (force simp: boot_index_none registry_ok_def list_all_iff)
  with None g len show ?thesis by (auto simp: boot_registry_get_def split: if_splits)
next
  case (Some j)
  from boot_index_some [OF Some] ok have "be_id (r ! j) = boot_key bid"
    by (auto simp: registry_ok_def list_all_length)
  with Some g boot_index_some [OF Some] show ?thesis by (auto simp: boot_registry_get_def)
qed

lemma note_boot_described:
  assumes d: "described segs r" and first: "sh_first_realtime_ts h \<noteq> 0"
  shows "described (segs @ [(h, f)]) (note_boot (h, f) r)"
proof -
  obtain i r' where g: "boot_registry_get r (sh_boot_id h) = (i, r')" by fastforce
  have ok: "registry_ok r" using d by (simp add: described_def)
  note g' = registry_get_ok [OF ok g]
  let ?b = "note_segment h f (r' ! i)"
  have nb: "note_boot (h, f) r = r'[i := ?b]" by (simp add: note_boot_def g)
  have ok': "registry_ok (r'[i := ?b])"
    using g' by (intro registry_update_ok) (simp_all add: note_segment_def)
  show ?thesis
  proof (cases "length r' < MAX_BOOTS")
    case False
    with ok' nb show ?thesis by (simp add: described_def)
  next
    case True
    have idi: "be_id (r' ! i) = boot_key (sh_boot_id h)"
      using get_cases [OF ok g True] by auto
    have short: "length r < MAX_BOOTS" using g' True by auto
    have i: "describes (segs @ [(h, f)]) ?b \<and> be_first_realtime_ts ?b \<noteq> 0"
    proof
      have "describes segs (r' ! i) \<and> be_first_realtime_ts (r' ! i) \<noteq> 0 \<or>
          be_id (r' ! i) \<notin> (\<lambda>(h, f). boot_key (sh_boot_id h)) ` set segs \<and> be_first_realtime_ts (r' ! i) = 0"
        using get_cases [OF ok g True] d short by (fastforce simp: described_def)
      from describes_noted [OF this] idi show "describes (segs @ [(h, f)]) ?b" by simp
      show "be_first_realtime_ts ?b \<noteq> 0" using first by (auto simp: note_segment_def)
    qed
    have dist: "distinct (map be_id r')" using g' by (simp add: registry_ok_def)
    have "describes (segs @ [(h, f)]) b \<and> be_first_realtime_ts b \<noteq> 0" if b: "b \<in> set (r'[i := ?b])" for b
    proof -
      obtain k where k: "k < length r'" "b = r'[i := ?b] ! k" using b by (auto simp: in_set_conv_nth)
      show ?thesis
      proof (cases "k = i")
        case True
        with k i show ?thesis by simp
      next
        case False
        then have bk: "b = r' ! k" using k by simp
        with get_cases [OF ok g \<open>length r' < MAX_BOOTS\<close>] False k have "b \<in> set r" 
          by (auto simp: nth_append)
        moreover have "be_id b \<noteq> boot_key (sh_boot_id h)"
          using dist False k g' bk idi by (metis distinct_map nth_eq_iff_index_eq length_map nth_map)
        ultimately show ?thesis
          using d short describes_other [of segs b h f] by (auto simp: described_def)
      qed
    qed
    moreover have "boot_key (sh_boot_id h') \<in> be_id ` set (r'[i := ?b])" if "(h', f') \<in> set (segs @ [(h, f)])" for h' f'
    proof -
      have ids: "be_id ` set (r'[i := ?b]) = be_id ` set r'"
        using idi g' by (metis (no_types, lifting) image_set list_update_id map_update note_segment_def
            BootEntry.select_convs(1) BootEntry.update_convs(2,3,4) BootEntry.surjective)
      have sub: "be_id ` set r \<subseteq> be_id ` set r'" using g' by auto
      have "be_id (r' ! i) \<in> be_id ` set r'" using g' by simp
      with that d short sub idi ids show ?thesis by (auto simp: described_def)
    qed
    ultimately show ?thesis using ok' nb by (auto simp: described_def)
  qed
qed

lemma rebuild_described:
  "(\<forall>(h, f) \<in> set new. sh_first_realtime_ts h \<noteq> 0) \<Longrightarrow> described segs r \<Longrightarrow>
    described (segs @ new) (fold note_boot new r)"
proof (induction new arbitrary: segs r)
  case (Cons s new)
  obtain h f where s: "s = (h, f)" by fastforce
  from Cons.IH [OF _ note_boot_described [of segs r h f]] Cons.prems s show ?case by auto
qed simp



definition demo_store :: world where
  "demo_store = (demo_world [])\<lparr>w_files := [(''/l/p3/6.seg'', \<lparr>f_data = torn_plain, f_mtime = 1\<rparr>)]\<rparr>"

lemma demo_store_scan:
  "scan_metadata demo_lib ''/l/p3/6.seg'' demo_store =
     Some (stored_header (demo_header False) 0, empty_footer, length (contents (fst (demo_body False))))"
proof -
  have r: "read_file ''/l/p3/6.seg'' demo_store = Some torn_plain"
    by (simp add: read_file_def stat_def demo_store_def)
  have "torn_plain \<noteq> []" by (simp add: torn_plain_def)
  with torn_plain_scan r show ?thesis
    by (simp add: scan_metadata_def segment_scan_path_def segment_scan_buffer_def)
qed

lemma demo_store_segments:
  "store_segments demo_lib demo_store = [(stored_header (demo_header False) 0, empty_footer)]"
proof -
  have d: "segment_dirs demo_store = segment_dirs (demo_world [])" "build_segment_dir demo_store n = build_segment_dir (demo_world []) n" for n
    by (simp_all add: demo_store_def segment_dirs_def readdir_dirs_def build_segment_dir_def fun_eq_iff)
  have "segment_dirs (demo_world []) = [''p3'']" "build_segment_dir (demo_world []) PATH_MAX ''p3'' = Some ''/l/p3''"
    by code_simp+
  moreover have "readdir_files ''/l/p3'' demo_store = [''6.seg'']"
    by (simp add: readdir_files_def demo_store_def dir_entries_def)
  moreover have "strstr ''6.seg'' ''.seg''" "join_path_component PATH_MAX ''/l/p3'' ''6.seg'' = Some ''/l/p3/6.seg''"
    by (simp_all add: join_path_component_def)
  ultimately show ?thesis
    by (simp add: store_segments_def d dir_segments_def map_filter_simps demo_store_scan)
qed


subsection \<open>Boot sequence numbers\<close>

fun boot_numbers :: "byte list list \<Rightarrow> BootRegistry \<Rightarrow> u32 list" where
  "boot_numbers [] r = []"
| "boot_numbers (k # ks) r = (case boot_registry_seq r k of (n, r') \<Rightarrow> n # boot_numbers ks r')"

definition numbered :: "BootRegistry \<Rightarrow> bool" where
  "numbered r \<longleftrightarrow> registry_ok r \<and> map be_seq r = map of_nat [0..<length r]"

lemma seq_step:
  assumes n: "numbered r" and s: "boot_registry_seq r k = (x, r')" and room: "card (insert (boot_key k) (be_id ` set r)) \<le> MAX_BOOTS"
  shows "numbered r' \<and> (\<exists>bs. r' = r @ bs) \<and> be_id ` set r' = insert (boot_key k) (be_id ` set r) \<and>
    (\<exists>i < length r'. be_id (r' ! i) = boot_key k \<and> x = of_nat i)"
proof -
  obtain i where g: "boot_registry_get r k = (i, r')" "x = be_seq (r' ! i)"
    using s by (auto simp: boot_registry_seq_def split: prod.splits)
  have ok: "registry_ok r" using n by (simp add: numbered_def)
  have card: "card (be_id ` set r) = length r"
    using ok by (metis distinct_card length_map list.set_map registry_ok_def)
  show ?thesis
  proof (cases "boot_index (boot_key k) r")
    case None
    then have new: "boot_key k \<notin> be_id ` set r"
      using ok by (force simp: boot_index_none registry_ok_def list_all_iff)
    with room card have lt: "length r < MAX_BOOTS" by simp
    with None g registry_get_ok [OF ok g(1)] n show ?thesis
      by (auto simp: boot_registry_get_def numbered_def intro!: exI [of _ "length r"])
  next
    case (Some j)
    from boot_index_some [OF Some] ok have j: "j < length r" "be_id (r ! j) = boot_key k"
      by (auto simp: registry_ok_def list_all_length)
    have "be_seq (r ! j) = of_nat j"
      using n j by (metis (no_types) add_0 length_map map_nth nth_map nth_upt numbered_def length_upt diff_zero)
    moreover have "boot_key k \<in> be_id ` set r" using j by (metis image_eqI nth_mem)
    ultimately show ?thesis using Some g j n by (auto simp: boot_registry_get_def insert_absorb)
  qed
qed

lemma numbers_index:
  "numbered r \<Longrightarrow> card (boot_key ` set ks \<union> be_id ` set r) \<le> MAX_BOOTS \<Longrightarrow>
   \<exists>r'. numbered r' \<and> (\<exists>bs. r' = r @ bs) \<and>
     list_all2 (\<lambda>k x. \<exists>i < length r'. be_id (r' ! i) = boot_key k \<and> x = of_nat i) ks (boot_numbers ks r)"
proof (induction ks arbitrary: r)
  case Nil
  then show ?case by (intro exI [of _ r]) simp
next
  case (Cons k ks)
  obtain x r1 where s: "boot_registry_seq r k = (x, r1)" by fastforce
  have "card (insert (boot_key k) (be_id ` set r)) \<le> MAX_BOOTS"
    by (rule order_trans [OF card_mono Cons.prems(2)]) auto
  note st = seq_step [OF Cons.prems(1) s this]
  have "boot_key ` set ks \<union> be_id ` set r1 = boot_key ` set (k # ks) \<union> be_id ` set r" using st by auto
  then have "card (boot_key ` set ks \<union> be_id ` set r1) \<le> MAX_BOOTS" using Cons.prems(2) by simp
  from Cons.IH [OF conjunct1 [OF st] this] obtain r' bs where r': "numbered r'" "r' = r1 @ bs"
    "list_all2 (\<lambda>k x. \<exists>i < length r'. be_id (r' ! i) = boot_key k \<and> x = of_nat i) ks (boot_numbers ks r1)"
    by blast
  moreover have "\<exists>i < length r'. be_id (r' ! i) = boot_key k \<and> x = of_nat i"
    using st r'(2) by (auto simp: nth_append)
  ultimately show ?case using s st by (intro exI [of _ r']) auto
qed



text \<open>
  The numbers are not unique across restarts: a registry restored from a state file whose only
  boot has number 1 gives the next boot the number 1 again.
\<close>

lemma boot_number_reused:
  "boot_registry_seq (load_boot (JObject [(''boot_id'', JString [97]), (''boot_seq'', JInteger 1),
      (''first_realtime_ts'', JInteger 100)]) boot_registry_init) [98] =
   (1, [\<lparr>be_id = [97], be_seq = 1, be_first_realtime_ts = 100, be_last_clean_realtime_ts = 0\<rparr>,
        \<lparr>be_id = [98], be_seq = 1, be_first_realtime_ts = 0, be_last_clean_realtime_ts = 0\<rparr>])"
  by (simp add: load_boot_def boot_registry_init_def boot_registry_get_def boot_registry_seq_def
      boot_key_def cstr_def)

end
