(* ===== verification/Config.thy ===== *)
theory Config
  imports Store Json "HOL-Library.Monad_Syntax"
begin

text \<open>
  The configuration of \<^verbatim>\<open>src/recorder.c\<close>: its defaults (\<^verbatim>\<open>recorder_config_init\<close>), the typed
  readers of JSON keys, the parsers of modifiers and priority groups, and the loader that
  applies a file and checks it (\<^verbatim>\<open>recorder_config_load\<close>, \<^verbatim>\<open>recorder_config_load_dropins\<close>).
  A parser returns \<^verbatim>\<open>None\<close> where the code returns -1; the program gives up then, so the half
  filled structure is not kept. The regular expression compiler is a parameter.
\<close>

datatype ModifierMatchKind = MODIFIER_MATCH_EXACT | MODIFIER_MATCH_PRESENT | MODIFIER_MATCH_REGEX

record EntryModifier =
  em_match_field :: string
  em_match_kind :: ModifierMatchKind
  em_match_exact :: string
  em_match_present :: bool
  em_negate :: bool
  em_match_regex :: string
  em_rewrite_field :: "string option"
  em_replacement :: string
  em_drop :: bool
  em_set_priority :: int
  em_script_command :: "string list"
  em_script_run_on_replay :: bool
  em_script_timeout_sec :: u32

record PriorityGroup =
  pg_name :: string
  pg_priorities :: "u8 list"
  pg_min_priority :: u8
  pg_durable_per_frame :: bool
  pg_durability_flush_frames :: u32
  pg_durability_flush_interval_sec :: u32
  pg_max_bytes :: u64
  pg_max_age_sec :: u32
  pg_static_dict_path :: "string option"
  pg_modifiers :: "EntryModifier list"

record RecorderConfig =
  rc_capture_message_id :: bool
  rc_capture_unit :: bool
  rc_capture_hostname :: bool
  rc_capture_comm :: bool
  rc_capture_exe :: bool
  rc_capture_pid :: bool
  rc_capture_uid :: bool
  rc_capture_gid :: bool
  rc_capture_all_fields :: bool
  rc_capture_fields_whitelist :: "string list"
  rc_capture_fields_blacklist :: "string list"
  rc_sanitize_output :: bool
  rc_durable_priority_max :: int
  rc_durability_flush_frames :: u32
  rc_durability_flush_interval_sec :: u32
  rc_log_max_bytes :: u64
  rc_min_free_bytes :: u64
  rc_segment_max_bytes :: u64
  rc_segment_max_age_sec :: u32
  rc_compress_enabled :: bool
  rc_compress_min_frame_bytes :: u32
  rc_compress_if_smaller :: bool
  rc_encryption_public_key :: "string option"
  rc_static_dict_paths :: "string option list"
  rc_modifiers :: "EntryModifier list"
  rc_groups :: "PriorityGroup list"
  rc_priority_to_group :: "int list"

abbreviation (input) MAX_PRIORITY_GROUPS :: nat where "MAX_PRIORITY_GROUPS \<equiv> 8"
abbreviation (input) UINT_MAX :: int where "UINT_MAX \<equiv> 4294967295"

definition empty_group :: PriorityGroup where
  "empty_group =
     \<lparr>pg_name = [], pg_priorities = [], pg_min_priority = 0, pg_durable_per_frame = False,
      pg_durability_flush_frames = 0, pg_durability_flush_interval_sec = 0, pg_max_bytes = 0,
      pg_max_age_sec = 0, pg_static_dict_path = None, pg_modifiers = []\<rparr>"

definition recorder_config_init :: RecorderConfig where
  "recorder_config_init =
     \<lparr>rc_capture_message_id = False, rc_capture_unit = True, rc_capture_hostname = False,
      rc_capture_comm = False, rc_capture_exe = False, rc_capture_pid = True,
      rc_capture_uid = False, rc_capture_gid = False, rc_capture_all_fields = False,
      rc_capture_fields_whitelist = [], rc_capture_fields_blacklist = [],
      rc_sanitize_output = True, rc_durable_priority_max = 3, rc_durability_flush_frames = 32,
      rc_durability_flush_interval_sec = 60, rc_log_max_bytes = 64 * 1024 * 1024,
      rc_min_free_bytes = 0, rc_segment_max_bytes = 4 * 1024 * 1024,
      rc_segment_max_age_sec = 900, rc_compress_enabled = True,
      rc_compress_min_frame_bytes = 256, rc_compress_if_smaller = True,
      rc_encryption_public_key = None, rc_static_dict_paths = replicate 8 None,
      rc_modifiers = [],
      rc_groups = map (\<lambda>i. empty_group\<lparr>pg_name := CHR ''p'' # decimal i, pg_priorities := [of_nat i],
                                pg_min_priority := of_nat i\<rparr>) [0..<8],
      rc_priority_to_group = map int [0..<8]\<rparr>"

subsection \<open>Comment lines\<close>

function strip_hash_comment_lines :: "string \<Rightarrow> string" where
  "strip_hash_comment_lines input =
     (if input = [] then []
      else
        let first = dropWhile (\<lambda>c. c = CHR '' '' \<or> c = CHR 0x09) input;
            line = takeWhile (\<lambda>c. c \<noteq> CHR 0x0A) input;
            rest = dropWhile (\<lambda>c. c \<noteq> CHR 0x0A) input
        in (if first \<noteq> [] \<and> hd first = CHR ''#'' then [] else line) @
           (if rest = [] then [] else CHR 0x0A # strip_hash_comment_lines (tl rest)))"
  by pat_completeness auto
termination
proof (relation "measure length")
  fix input first line rest :: string
  assume "rest = dropWhile (\<lambda>c. c \<noteq> CHR 0x0A) input" "rest \<noteq> []"
  then have "length rest \<le> length input" "rest \<noteq> []" by (simp_all add: length_dropWhile_le)
  then show "(tl rest, input) \<in> measure length" by (cases rest) auto
qed simp

declare strip_hash_comment_lines.simps [simp del]

subsection \<open>Typed keys\<close>

definition json_get_bool_default :: "json \<Rightarrow> string \<Rightarrow> bool \<Rightarrow> bool option" where
  "json_get_bool_default root key dst =
     (case json_object_get root key of
        None \<Rightarrow> Some dst
      | Some (JBool b) \<Rightarrow> Some b
      | _ \<Rightarrow> None)"

definition json_get_uint_default :: "json \<Rightarrow> string \<Rightarrow> u32 \<Rightarrow> u32 option" where
  "json_get_uint_default root key dst =
     (case json_object_get root key of
        None \<Rightarrow> Some dst
      | Some (JInteger v) \<Rightarrow> if sint v < 0 \<or> sint v > UINT_MAX then None else Some (ucast v)
      | _ \<Rightarrow> None)"

definition json_get_group_uint_default :: "json \<Rightarrow> string \<Rightarrow> u32 \<Rightarrow> u32 option" where
  "json_get_group_uint_default gr key dst =
     (case json_object_get gr key of
        None \<Rightarrow> Some dst
      | Some (JInteger v) \<Rightarrow> if sint v < 0 \<or> sint v > UINT_MAX then None else Some (ucast v)
      | _ \<Rightarrow> None)"

definition json_get_group_size_default :: "json \<Rightarrow> string \<Rightarrow> u64 \<Rightarrow> u64 option" where
  "json_get_group_size_default gr key dst =
     (case json_object_get gr key of
        None \<Rightarrow> Some dst
      | Some (JInteger raw) \<Rightarrow> if sint raw < 0 then None else Some raw
      | Some (JString s) \<Rightarrow> parse_size_string (bytes_str s)
      | _ \<Rightarrow> None)"

definition json_get_int_default :: "json \<Rightarrow> string \<Rightarrow> int \<Rightarrow> int \<Rightarrow> int \<Rightarrow> int option" where
  "json_get_int_default root key min_value max_value dst =
     (case json_object_get root key of
        None \<Rightarrow> Some dst
      | Some (JInteger v) \<Rightarrow> if sint v < min_value \<or> sint v > max_value then None else Some (sint v)
      | _ \<Rightarrow> None)"

definition json_get_size_default :: "json \<Rightarrow> string \<Rightarrow> u64 \<Rightarrow> u64 option" where
  "json_get_size_default root key dst =
     (case json_object_get root key of
        None \<Rightarrow> Some dst
      | Some (JInteger raw) \<Rightarrow> if sint raw < 0 then None else Some raw
      | Some (JString s) \<Rightarrow> parse_size_string (bytes_str s)
      | _ \<Rightarrow> None)"

definition json_get_optional_nonempty_string :: "json \<Rightarrow> string \<Rightarrow> string option \<Rightarrow> string option option" where
  "json_get_optional_nonempty_string root key dst =
     (case json_object_get root key of
        None \<Rightarrow> Some dst
      | Some (JString s) \<Rightarrow> if s = [] then None else Some (Some (bytes_str s))
      | _ \<Rightarrow> None)"

fun nonempty_strings :: "json list \<Rightarrow> string list option" where
  "nonempty_strings [] = Some []"
| "nonempty_strings (JString s # vs) =
     (if s = [] then None else map_option (Cons (bytes_str s)) (nonempty_strings vs))"
| "nonempty_strings (_ # vs) = None"

definition json_get_string_array :: "json \<Rightarrow> string \<Rightarrow> string list \<Rightarrow> string list option" where
  "json_get_string_array root key dst =
     (case json_object_get root key of
        None \<Rightarrow> Some dst
      | Some (JArray vs) \<Rightarrow> nonempty_strings vs
      | _ \<Rightarrow> None)"

text \<open>
  \<^verbatim>\<open>strtol\<close> on a priority key: the value when the whole text is a number from 0 to 7.
\<close>

definition strtol_priority :: "string \<Rightarrow> nat option" where
  "strtol_priority key =
     (let s = dropWhile is_space key;
          neg = (s \<noteq> [] \<and> hd s = CHR ''-'');
          s' = (if s \<noteq> [] \<and> (hd s = CHR ''-'' \<or> hd s = CHR ''+'') then tl s else s);
          ds = takeWhile is_digit s'
      in if key = [] then Some 0
         else if ds = [] \<or> dropWhile is_digit s' \<noteq> [] then None
         else if neg \<and> decimal_value ds \<noteq> 0 \<or> decimal_value ds > 7 then None
         else Some (decimal_value ds))"

fun static_dict_entries :: "(string \<times> json) list \<Rightarrow> string option list \<Rightarrow> string option list option" where
  "static_dict_entries [] paths = Some paths"
| "static_dict_entries ((key, JString s) # kvs) paths =
     (case strtol_priority key of
        None \<Rightarrow> None
      | Some prio \<Rightarrow> static_dict_entries kvs (paths[prio := Some (bytes_str s)]))"
| "static_dict_entries (_ # kvs) paths = None"

definition json_get_static_dict_paths :: "json \<Rightarrow> string option list \<Rightarrow> string option list option" where
  "json_get_static_dict_paths root paths =
     (case json_object_get root ''static_dict_paths'' of
        None \<Rightarrow> Some paths
      | Some (JObject kvs) \<Rightarrow> static_dict_entries kvs (replicate 8 None)
      | _ \<Rightarrow> None)"


subsection \<open>Modifiers\<close>

datatype re_result = ReNoMatch | ReError | ReMatch "(nat \<times> nat) option list"

record pcre2 =
  re_compile :: "string \<Rightarrow> bool"
  re_match :: "string \<Rightarrow> byte list \<Rightarrow> re_result"

definition require :: "bool \<Rightarrow> unit option" where
  "require b = (if b then Some () else None)"

fun is_json_object :: "json \<Rightarrow> bool" where
  "is_json_object (JObject kvs) = True"
| "is_json_object _ = False"

definition optional_bool :: "json \<Rightarrow> string \<Rightarrow> bool option" where
  "optional_bool obj key =
     (case json_object_get obj key of
        None \<Rightarrow> Some False
      | Some (JBool b) \<Rightarrow> Some b
      | _ \<Rightarrow> None)"

definition match_field_of :: "json \<Rightarrow> string option" where
  "match_field_of m =
     (case json_object_get m ''field'' of
        None \<Rightarrow> Some ''MESSAGE''
      | Some (JString s) \<Rightarrow> if s = [] then None else Some (bytes_str s)
      | _ \<Rightarrow> None)"

text \<open>Exactly one of \<^verbatim>\<open>regex\<close>, \<^verbatim>\<open>exact\<close> and \<^verbatim>\<open>present\<close>.\<close>

definition match_condition :: "pcre2 \<Rightarrow> json \<Rightarrow> EntryModifier \<Rightarrow> EntryModifier option" where
  "match_condition R m em =
     (case (json_object_get m ''regex'', json_object_get m ''exact'', json_object_get m ''present'') of
        (Some (JString s), None, None) \<Rightarrow>
          if re_compile R (bytes_str s)
          then Some (em\<lparr>em_match_kind := MODIFIER_MATCH_REGEX, em_match_regex := bytes_str s\<rparr>) else None
      | (None, Some (JString s), None) \<Rightarrow>
          Some (em\<lparr>em_match_kind := MODIFIER_MATCH_EXACT, em_match_exact := bytes_str s\<rparr>)
      | (None, None, Some (JBool b)) \<Rightarrow>
          Some (em\<lparr>em_match_kind := MODIFIER_MATCH_PRESENT, em_match_present := b\<rparr>)
      | _ \<Rightarrow> None)"

definition modifier_set_priority :: "json \<Rightarrow> int option" where
  "modifier_set_priority item =
     (case json_object_get item ''set_priority'' of
        None \<Rightarrow> Some (- 1)
      | Some (JInteger v) \<Rightarrow> if sint v < 0 \<or> sint v > 7 then None else Some (sint v)
      | _ \<Rightarrow> None)"

definition modifier_rewrite :: "json \<Rightarrow> EntryModifier \<Rightarrow> EntryModifier option" where
  "modifier_rewrite item em =
     (case json_object_get item ''rewrite'' of
        None \<Rightarrow> Some em
      | Some rewrite \<Rightarrow>
          (case (json_object_get rewrite ''field'', json_object_get rewrite ''replacement'') of
             (Some (JString f), Some (JString r)) \<Rightarrow>
               if f = [] \<or> em_match_kind em \<noteq> MODIFIER_MATCH_REGEX \<or> em_negate em then None
               else Some (em\<lparr>em_rewrite_field := Some (bytes_str f), em_replacement := bytes_str r\<rparr>)
           | _ \<Rightarrow> None))"

definition modifier_script :: "json \<Rightarrow> EntryModifier \<Rightarrow> EntryModifier option" where
  "modifier_script item em =
     (case json_object_get item ''script'' of
        None \<Rightarrow> Some em
      | Some script \<Rightarrow>
          (case json_object_get script ''command'' of
             Some (JArray args) \<Rightarrow>
               do {
                 require (args \<noteq> []);
                 replay \<leftarrow> optional_bool script ''run_on_replay'';
                 timeout \<leftarrow> (case json_object_get script ''timeout_sec'' of
                              None \<Rightarrow> Some (em_script_timeout_sec em)
                            | Some (JInteger v) \<Rightarrow>
                                if sint v < 1 \<or> sint v > 86400 then None else Some (ucast v)
                            | _ \<Rightarrow> None);
                 command \<leftarrow> nonempty_strings args;
                 require (hd (hd command) = CHR ''/'');
                 Some (em\<lparr>em_script_command := command, em_script_run_on_replay := replay,
                          em_script_timeout_sec := timeout\<rparr>)
               }
           | _ \<Rightarrow> None))"

definition empty_modifier :: EntryModifier where
  "empty_modifier =
     \<lparr>em_match_field = [], em_match_kind = MODIFIER_MATCH_EXACT, em_match_exact = [],
      em_match_present = False, em_negate = False, em_match_regex = [], em_rewrite_field = None,
      em_replacement = [], em_drop = False, em_set_priority = - 1, em_script_command = [],
      em_script_run_on_replay = False, em_script_timeout_sec = 10\<rparr>"

definition parse_modifier :: "pcre2 \<Rightarrow> json \<Rightarrow> EntryModifier option" where
  "parse_modifier R item =
     do {
       m \<leftarrow> json_object_get item ''match'';
       require (is_json_object m);
       field \<leftarrow> match_field_of m;
       negate \<leftarrow> optional_bool m ''not'';
       em \<leftarrow> match_condition R m (empty_modifier\<lparr>em_match_field := field, em_negate := negate\<rparr>);
       drop_entry \<leftarrow> optional_bool item ''drop'';
       prio \<leftarrow> modifier_set_priority item;
       em \<leftarrow> modifier_rewrite item (em\<lparr>em_drop := drop_entry, em_set_priority := prio\<rparr>);
       em \<leftarrow> modifier_script item em;
       require (em_drop em \<or> em_set_priority em \<ge> 0 \<or> em_rewrite_field em \<noteq> None \<or> em_script_command em \<noteq> []);
       Some em
     }"

definition json_get_modifier_list :: "pcre2 \<Rightarrow> json \<Rightarrow> EntryModifier list \<Rightarrow> EntryModifier list option" where
  "json_get_modifier_list R owner lst =
     (case json_object_get owner ''modifiers'' of
        None \<Rightarrow> Some lst
      | Some (JArray items) \<Rightarrow> those (map (parse_modifier R) items)
      | _ \<Rightarrow> None)"

definition modifier_rewrite_field_is_supported :: "string \<Rightarrow> bool" where
  "modifier_rewrite_field_is_supported field \<longleftrightarrow>
     field \<in> {''MESSAGE'', ''MESSAGE_ID'', ''_HOSTNAME'', ''_SYSTEMD_UNIT'', ''_COMM'', ''_EXE''}"

definition validate_modifier_list :: "EntryModifier list \<Rightarrow> bool" where
  "validate_modifier_list lst \<longleftrightarrow>
     list_all (\<lambda>m. case em_rewrite_field m of None \<Rightarrow> True | Some f \<Rightarrow> modifier_rewrite_field_is_supported f) lst"

definition modifier_list_uses_full_entries :: "EntryModifier list \<Rightarrow> bool" where
  "modifier_list_uses_full_entries lst \<longleftrightarrow>
     list_ex (\<lambda>m. case em_rewrite_field m of
                    None \<Rightarrow> False
                  | Some f \<Rightarrow> f \<noteq> ''MESSAGE'' \<and> f \<noteq> ''_SYSTEMD_UNIT'') lst"

definition config_uses_full_entries :: "RecorderConfig \<Rightarrow> bool" where
  "config_uses_full_entries cfg \<longleftrightarrow>
     rc_capture_all_fields cfg \<or> rc_capture_message_id cfg \<or> rc_capture_hostname cfg \<or>
     rc_capture_comm cfg \<or> rc_capture_exe cfg \<or> rc_capture_uid cfg \<or> rc_capture_gid cfg \<or>
     modifier_list_uses_full_entries (rc_modifiers cfg) \<or>
     list_ex (\<lambda>g. modifier_list_uses_full_entries (pg_modifiers g)) (rc_groups cfg)"

subsection \<open>Priority groups\<close>

type_synonym group_state = "u32 \<times> PriorityGroup list \<times> int list"

definition add_priority :: "nat \<Rightarrow> json \<Rightarrow> u32 \<times> PriorityGroup \<times> int list \<Rightarrow> (u32 \<times> PriorityGroup \<times> int list) option" where
  "add_priority i prio_node s =
     (case (prio_node, s) of
        (JInteger v, seen_mask, g, to_group) \<Rightarrow>
          (if sint v < 0 \<or> sint v > 7 then None
           else
             let prio = nat (sint v) in
             if and seen_mask (push_bit prio 1) \<noteq> 0 then None
             else Some (or seen_mask (push_bit prio 1),
                        g\<lparr>pg_priorities := pg_priorities g @ [of_nat prio],
                          pg_min_priority := (if of_nat prio < pg_min_priority g then of_nat prio
                                              else pg_min_priority g)\<rparr>,
                        to_group[prio := int i]))
      | _ \<Rightarrow> None)"

fun add_priorities :: "nat \<Rightarrow> json list \<Rightarrow> u32 \<times> PriorityGroup \<times> int list \<Rightarrow> (u32 \<times> PriorityGroup \<times> int list) option" where
  "add_priorities i [] s = Some s"
| "add_priorities i (v # vs) s = Option.bind (add_priority i v s) (add_priorities i vs)"

definition parse_group :: "pcre2 \<Rightarrow> RecorderConfig \<Rightarrow> json \<Rightarrow> group_state \<Rightarrow> group_state option" where
  "parse_group R cfg gr s =
     (case (s, json_object_get gr ''name'', json_object_get gr ''priorities'') of
        ((seen_mask, groups, to_group), Some (JString nm), Some (JArray priorities)) \<Rightarrow>
          do {
            require (valid_group_name (bytes_str nm));
            frames \<leftarrow> json_get_group_uint_default gr ''durability_flush_frames'' (rc_durability_flush_frames cfg);
            interval \<leftarrow> json_get_group_uint_default gr ''durability_flush_interval_sec''
                          (rc_durability_flush_interval_sec cfg);
            max_bytes \<leftarrow> json_get_group_size_default gr ''max_bytes'' 0;
            max_age \<leftarrow> json_get_group_uint_default gr ''max_age_sec'' 0;
            modifiers \<leftarrow> json_get_modifier_list R gr [];
            require (bytes_str nm \<notin> set (map pg_name groups));
            require (priorities \<noteq> [] \<and> length priorities \<le> 8);
            (seen_mask', g, to_group') \<leftarrow> add_priorities (length groups) priorities
               (seen_mask,
                empty_group\<lparr>pg_name := bytes_str nm, pg_min_priority := 255,
                  pg_durability_flush_frames := frames, pg_durability_flush_interval_sec := interval,
                  pg_max_bytes := max_bytes, pg_max_age_sec := max_age, pg_modifiers := modifiers\<rparr>,
                to_group);
            Some (seen_mask', groups @ [g], to_group')
          }
      | _ \<Rightarrow> None)"

fun parse_groups :: "pcre2 \<Rightarrow> RecorderConfig \<Rightarrow> json list \<Rightarrow> group_state \<Rightarrow> group_state option" where
  "parse_groups R cfg [] s = Some s"
| "parse_groups R cfg (gr # grs) s = Option.bind (parse_group R cfg gr s) (parse_groups R cfg grs)"

definition json_get_priority_groups :: "pcre2 \<Rightarrow> json \<Rightarrow> RecorderConfig \<Rightarrow> RecorderConfig option" where
  "json_get_priority_groups R root cfg =
     (case json_object_get root ''priority_groups'' of
        None \<Rightarrow> Some cfg
      | Some (JArray nodes) \<Rightarrow>
          do {
            require (nodes \<noteq> [] \<and> length nodes \<le> MAX_PRIORITY_GROUPS);
            (seen_mask, groups, to_group) \<leftarrow> parse_groups R cfg nodes (0, [], replicate 8 (- 1));
            require (seen_mask = 0xff);
            Some (cfg\<lparr>rc_groups := groups, rc_priority_to_group := to_group\<rparr>)
          }
      | _ \<Rightarrow> None)"

subsection \<open>Loading a file\<close>

definition finish_priority :: "RecorderConfig \<Rightarrow> u8 \<Rightarrow> bool \<times> string option \<Rightarrow> (bool \<times> string option) option" where
  "finish_priority cfg prio s =
     (case s of (durable, dict_path) \<Rightarrow>
        let durable' = (durable \<or> rc_durable_priority_max cfg \<ge> 0 \<and> prio \<le> of_int (rc_durable_priority_max cfg)) in
        (case rc_static_dict_paths cfg ! unat prio of
           None \<Rightarrow> Some (durable', dict_path)
         | Some candidate \<Rightarrow>
             (case dict_path of
                None \<Rightarrow> Some (durable', Some candidate)
              | Some d \<Rightarrow> if d \<noteq> candidate then None else Some (durable', dict_path))))"

fun finish_priorities :: "RecorderConfig \<Rightarrow> u8 list \<Rightarrow> bool \<times> string option \<Rightarrow> (bool \<times> string option) option" where
  "finish_priorities cfg [] s = Some s"
| "finish_priorities cfg (p # ps) s = Option.bind (finish_priority cfg p s) (finish_priorities cfg ps)"

definition finish_group :: "RecorderConfig \<Rightarrow> PriorityGroup \<Rightarrow> PriorityGroup option" where
  "finish_group cfg g =
     do {
       require (validate_modifier_list (pg_modifiers g));
       (durable, dict_path) \<leftarrow> finish_priorities cfg (pg_priorities g) (False, None);
       Some (g\<lparr>pg_durable_per_frame := durable, pg_static_dict_path := dict_path\<rparr>)
     }"

definition readable :: "world \<Rightarrow> string \<Rightarrow> bool" where
  "readable w path \<longleftrightarrow> stat path w \<noteq> None"

definition config_scalars :: "json \<Rightarrow> RecorderConfig \<Rightarrow> RecorderConfig option" where
  "config_scalars root cfg =
     do {
       message_id \<leftarrow> json_get_bool_default root ''capture_message_id'' (rc_capture_message_id cfg);
       unit \<leftarrow> json_get_bool_default root ''capture_unit'' (rc_capture_unit cfg);
       hostname \<leftarrow> json_get_bool_default root ''capture_hostname'' (rc_capture_hostname cfg);
       comm \<leftarrow> json_get_bool_default root ''capture_comm'' (rc_capture_comm cfg);
       exe \<leftarrow> json_get_bool_default root ''capture_exe'' (rc_capture_exe cfg);
       pid \<leftarrow> json_get_bool_default root ''capture_pid'' (rc_capture_pid cfg);
       uid \<leftarrow> json_get_bool_default root ''capture_uid'' (rc_capture_uid cfg);
       gid \<leftarrow> json_get_bool_default root ''capture_gid'' (rc_capture_gid cfg);
       all_fields \<leftarrow> json_get_bool_default root ''capture_all_fields'' (rc_capture_all_fields cfg);
       whitelist \<leftarrow> json_get_string_array root ''capture_fields_whitelist'' (rc_capture_fields_whitelist cfg);
       blacklist \<leftarrow> json_get_string_array root ''capture_fields_blacklist'' (rc_capture_fields_blacklist cfg);
       sanitize \<leftarrow> json_get_bool_default root ''sanitize_output'' (rc_sanitize_output cfg);
       durable_max \<leftarrow> json_get_int_default root ''durable_priority_max'' (- 1) 7 (rc_durable_priority_max cfg);
       frames \<leftarrow> json_get_uint_default root ''durability_flush_frames'' (rc_durability_flush_frames cfg);
       interval \<leftarrow> json_get_uint_default root ''durability_flush_interval_sec''
                     (rc_durability_flush_interval_sec cfg);
       log_max \<leftarrow> json_get_size_default root ''log_max_bytes'' (rc_log_max_bytes cfg);
       min_free \<leftarrow> json_get_size_default root ''min_free_bytes'' (rc_min_free_bytes cfg);
       seg_max \<leftarrow> json_get_size_default root ''segment_max_bytes'' (rc_segment_max_bytes cfg);
       seg_age \<leftarrow> json_get_uint_default root ''segment_max_age_sec'' (rc_segment_max_age_sec cfg);
       compress \<leftarrow> json_get_bool_default root ''compress_enabled'' (rc_compress_enabled cfg);
       compress_min \<leftarrow> json_get_uint_default root ''compress_min_frame_bytes'' (rc_compress_min_frame_bytes cfg);
       if_smaller \<leftarrow> json_get_bool_default root ''compress_if_smaller'' (rc_compress_if_smaller cfg);
       key \<leftarrow> json_get_optional_nonempty_string root ''encryption_public_key'' (rc_encryption_public_key cfg);
       dicts \<leftarrow> json_get_static_dict_paths root (rc_static_dict_paths cfg);
       Some (cfg\<lparr>rc_capture_message_id := message_id, rc_capture_unit := unit, rc_capture_hostname := hostname,
         rc_capture_comm := comm, rc_capture_exe := exe, rc_capture_pid := pid, rc_capture_uid := uid,
         rc_capture_gid := gid, rc_capture_all_fields := all_fields,
         rc_capture_fields_whitelist := whitelist, rc_capture_fields_blacklist := blacklist,
         rc_sanitize_output := sanitize, rc_durable_priority_max := durable_max,
         rc_durability_flush_frames := frames, rc_durability_flush_interval_sec := interval,
         rc_log_max_bytes := log_max, rc_min_free_bytes := min_free, rc_segment_max_bytes := seg_max,
         rc_segment_max_age_sec := seg_age, rc_compress_enabled := compress,
         rc_compress_min_frame_bytes := compress_min, rc_compress_if_smaller := if_smaller,
         rc_encryption_public_key := key, rc_static_dict_paths := dicts\<rparr>)
     }"

definition recorder_config_load :: "jansson \<Rightarrow> pcre2 \<Rightarrow> world \<Rightarrow> RecorderConfig \<Rightarrow> string \<Rightarrow> RecorderConfig option" where
  "recorder_config_load J R w cfg path =
     do {
       raw \<leftarrow> read_file path w;
       root \<leftarrow> json_loads J (bytes_str (cstr (str_bytes (strip_hash_comment_lines (bytes_str raw)))));
       require (is_json_object root);
       cfg \<leftarrow> config_scalars root cfg;
       modifiers \<leftarrow> json_get_modifier_list R root (rc_modifiers cfg);
       cfg \<leftarrow> json_get_priority_groups R root (cfg\<lparr>rc_modifiers := modifiers\<rparr>);
       require (case rc_encryption_public_key cfg of None \<Rightarrow> True | Some k \<Rightarrow> readable w k);
       require (validate_modifier_list (rc_modifiers cfg));
       require (list_all (\<lambda>p. case p of None \<Rightarrow> True | Some d \<Rightarrow> readable w d) (rc_static_dict_paths cfg));
       groups \<leftarrow> those (map (finish_group cfg) (rc_groups cfg));
       Some (cfg\<lparr>rc_groups := groups\<rparr>)
     }"

definition recorder_json_file_filter :: "string \<Rightarrow> bool" where
  "recorder_json_file_filter name \<longleftrightarrow>
     length name > 5 \<and> drop (length name - 5) name = ''.json''"

text \<open>
  The fragments of the configuration directory. \<^verbatim>\<open>entries\<close> is what \<^verbatim>\<open>scandir\<close> lists in
  \<^verbatim>\<open>alphasort\<close> order before the filter, \<^verbatim>\<open>None\<close> when it fails with anything but
  \<^verbatim>\<open>ENOENT\<close>; a name that is not a regular file is skipped.
\<close>

fun load_fragments :: "jansson \<Rightarrow> pcre2 \<Rightarrow> world \<Rightarrow> string \<Rightarrow> string list \<Rightarrow> RecorderConfig \<Rightarrow> RecorderConfig option" where
  "load_fragments J R w dir [] cfg = Some cfg"
| "load_fragments J R w dir (n # ns) cfg =
     (let path = dir @ ''/'' @ n in
      if length path \<ge> PATH_MAX then None
      else if stat path w \<noteq> None
      then Option.bind (recorder_config_load J R w cfg path) (load_fragments J R w dir ns)
      else if path \<in> set (w_dirs w) then load_fragments J R w dir ns cfg
      else None)"

definition recorder_config_load_dropins ::
    "jansson \<Rightarrow> pcre2 \<Rightarrow> world \<Rightarrow> string \<Rightarrow> string list option \<Rightarrow> RecorderConfig \<Rightarrow> RecorderConfig option" where
  "recorder_config_load_dropins J R w dir entries cfg =
     (case entries of
        None \<Rightarrow> None
      | Some names \<Rightarrow> load_fragments J R w dir (filter recorder_json_file_filter names) cfg)"


subsection \<open>Every priority has one group\<close>

lemma require_some [simp]: "require b = Some x \<longleftrightarrow> b"
  by (simp add: require_def)

definition group_ok :: "int list \<Rightarrow> nat \<Rightarrow> PriorityGroup \<Rightarrow> bool" where
  "group_ok to_group i g \<longleftrightarrow>
     distinct (pg_priorities g) \<and>
     (\<forall>q \<in> set (pg_priorities g). unat q < 8 \<and> to_group ! unat q = int i) \<and>
     pg_min_priority g = Min (insert 255 (set (pg_priorities g)))"

definition groups_state_ok :: "group_state \<Rightarrow> bool" where
  "groups_state_ok s \<longleftrightarrow>
     (case s of (seen_mask, groups, to_group) \<Rightarrow>
        length to_group = 8 \<and>
        (\<forall>p < 8. bit seen_mask p \<longleftrightarrow> to_group ! p \<noteq> - 1) \<and>
        (\<forall>p < 8. to_group ! p \<noteq> - 1 \<longrightarrow>
           (\<exists>i < length groups. to_group ! p = int i \<and> of_nat p \<in> set (pg_priorities (groups ! i)))) \<and>
        (\<forall>i < length groups. group_ok to_group i (groups ! i)))"

lemma test_bit_mask: "and (m :: u32) (2 ^ n) = 0 \<longleftrightarrow> \<not> bit m n"
  by (rule and_exp_eq_0_iff_not_bit)

lemma set_bit_mask: "bit (or (m :: u32) (2 ^ n)) k \<longleftrightarrow> bit m k \<or> k = n \<and> n < 32"
  by (auto simp: bit_or_iff bit_exp_iff)

lemma unat_small_u8: "n < 8 \<Longrightarrow> unat (of_nat n :: u8) = n"
  by (simp add: of_nat_inject_le)

lemma add_priority_ok:
  assumes a: "add_priority (length gs) node (m, g, tg) = Some (m', g', tg')"
    and ok: "groups_state_ok (m, gs @ [g], tg)"
  shows "groups_state_ok (m', gs @ [g'], tg') \<and> pg_priorities g' \<noteq> [] \<and> pg_name g' = pg_name g"
proof -
  obtain v where v: "node = JInteger v" "0 \<le> sint v" "sint v \<le> 7"
    using a by (auto simp: add_priority_def Let_def split: json.splits if_splits)
  define n where "n = nat (sint v)"
  have n: "n < 8" using v by (simp add: n_def)
  have nb: "\<not> bit m n" and m': "m' = or m (2 ^ n)" and tg': "tg' = tg[n := int (length gs)]"
    and g': "g' = g\<lparr>pg_priorities := pg_priorities g @ [of_nat n],
        pg_min_priority := (if of_nat n < pg_min_priority g then of_nat n else pg_min_priority g)\<rparr>"
    using a v n by (auto simp: add_priority_def Let_def n_def [symmetric] test_bit_mask split: if_splits)
  have len: "length tg = 8" and seen: "\<And>p. p < 8 \<Longrightarrow> bit m p \<longleftrightarrow> tg ! p \<noteq> - 1"
    and cover: "\<And>p. p < 8 \<Longrightarrow> tg ! p \<noteq> - 1 \<Longrightarrow>
      \<exists>i < length (gs @ [g]). tg ! p = int i \<and> of_nat p \<in> set (pg_priorities ((gs @ [g]) ! i))"
    and grp: "\<And>i. i < length (gs @ [g]) \<Longrightarrow> group_ok tg i ((gs @ [g]) ! i)"
    using ok by (auto simp: groups_state_ok_def)
  have un: "tg ! n = - 1" using nb seen n by blast
  have old: "group_ok tg' i (gs ! i)" if "i < length gs" for i
  proof -
    have "group_ok tg i (gs ! i)" using grp [of i] that by (simp add: nth_append)
    moreover from this have "n \<noteq> unat q" if "q \<in> set (pg_priorities (gs ! i))" for q
      using that un by (force simp: group_ok_def)
    ultimately show ?thesis using tg' by (auto simp: group_ok_def)
  qed
  have fresh: "of_nat n \<notin> set (pg_priorities g)"
    using grp [of "length gs"] un n unat_small_u8 [OF n] by (force simp: group_ok_def)
  have new: "group_ok tg' (length gs) g'"
    using grp [of "length gs"] fresh n unat_small_u8 [OF n] len tg' g'
    by (auto simp: group_ok_def nth_list_update min_def insert_commute)
  have "\<exists>i < length (gs @ [g']). tg' ! p = int i \<and> of_nat p \<in> set (pg_priorities ((gs @ [g']) ! i))"
    if "p < 8" "tg' ! p \<noteq> - 1" for p
  proof (cases "p = n")
    case True
    then show ?thesis using tg' len n g' by (intro exI [of _ "length gs"]) simp
  next
    case False
    with that tg' cover [of p] obtain i where i: "i < length (gs @ [g])" "tg ! p = int i"
      "of_nat p \<in> set (pg_priorities ((gs @ [g]) ! i))" by auto
    then show ?thesis using False tg' g'
      by (intro exI [of _ i]) (auto simp: nth_append split: if_splits)
  qed
  moreover have "bit m' p \<longleftrightarrow> tg' ! p \<noteq> - 1" if "p < 8" for p
    using that seen [OF that] m' tg' n len by (auto simp: set_bit_mask nth_list_update)
  ultimately show ?thesis
    using old new len tg' g' by (auto simp: groups_state_ok_def nth_append less_Suc_eq)
qed

lemma add_priorities_ok:
  "add_priorities (length gs) vs (m, g, tg) = Some (m', g', tg') \<Longrightarrow> groups_state_ok (m, gs @ [g], tg) \<Longrightarrow>
   groups_state_ok (m', gs @ [g'], tg') \<and> (vs \<noteq> [] \<or> pg_priorities g \<noteq> [] \<longrightarrow> pg_priorities g' \<noteq> []) \<and> pg_name g' = pg_name g"
proof (induction vs arbitrary: m g tg)
  case Nil
  then show ?case by simp
next
  case (Cons v vs)
  then obtain m1 g1 tg1 where s: "add_priority (length gs) v (m, g, tg) = Some (m1, g1, tg1)"
    and r: "add_priorities (length gs) vs (m1, g1, tg1) = Some (m', g', tg')"
    by (auto simp: Option.bind_eq_Some_conv)
  from add_priority_ok [OF s Cons.prems(2)] Cons.IH [OF r] show ?case by auto
qed

definition names_ok :: "PriorityGroup list \<Rightarrow> bool" where
  "names_ok gs \<longleftrightarrow>
     distinct (map pg_name gs) \<and> list_all (\<lambda>g. valid_group_name (pg_name g) \<and> pg_priorities g \<noteq> []) gs"

lemma empty_last_group_ok:
  assumes "groups_state_ok (m, gs, tg)" and "pg_priorities g = []" and "pg_min_priority g = 255"
  shows "groups_state_ok (m, gs @ [g], tg)"
proof -
  have "\<exists>i < length (gs @ [g]). tg ! p = int i \<and> of_nat p \<in> set (pg_priorities ((gs @ [g]) ! i))"
    if a: "p < 8" "tg ! p \<noteq> - 1" for p
  proof -
    obtain i where "i < length gs" "tg ! p = int i" "of_nat p \<in> set (pg_priorities (gs ! i))"
      using assms(1) a by (auto simp: groups_state_ok_def)
    then show ?thesis by (intro exI [of _ i]) (simp add: nth_append)
  qed
  with assms show ?thesis
    by (auto simp: groups_state_ok_def nth_append less_Suc_eq group_ok_def)
qed

lemma parse_group_ok:
  assumes p: "parse_group R cfg gr (m, gs, tg) = Some (m', gs', tg')"
    and ok: "groups_state_ok (m, gs, tg)" "names_ok gs"
  shows "groups_state_ok (m', gs', tg') \<and> names_ok gs' \<and> length gs' = Suc (length gs)"
proof -
  have "\<exists>ps g0 g. add_priorities (length gs) ps (m, g0, tg) = Some (m', g, tg') \<and> gs' = gs @ [g] \<and>
      pg_priorities g0 = [] \<and> pg_min_priority g0 = 255 \<and> valid_group_name (pg_name g0) \<and>
      pg_name g0 \<notin> set (map pg_name gs) \<and> ps \<noteq> []"
    using p by (auto simp: parse_group_def Option.bind_eq_Some_conv empty_group_def split: option.splits json.splits)
      (intro exI conjI, assumption, simp_all)
  then obtain g0 g ps where g: "gs' = gs @ [g]" "pg_priorities g0 = []" "pg_min_priority g0 = 255"
    "valid_group_name (pg_name g0)" "pg_name g0 \<notin> set (map pg_name gs)" "ps \<noteq> []"
    "add_priorities (length gs) ps (m, g0, tg) = Some (m', g, tg')"
    by blast
  from add_priorities_ok [OF g(7) empty_last_group_ok [OF ok(1) g(2,3)]] g ok(2) show ?thesis
    by (auto simp: names_ok_def)
qed

lemma parse_groups_ok:
  "parse_groups R cfg grs (m, gs, tg) = Some (m', gs', tg') \<Longrightarrow> groups_state_ok (m, gs, tg) \<Longrightarrow> names_ok gs \<Longrightarrow>
   groups_state_ok (m', gs', tg') \<and> names_ok gs' \<and> length gs' = length gs + length grs"
proof (induction grs arbitrary: m gs tg)
  case Nil
  then show ?case by simp
next
  case (Cons gr grs)
  then obtain m1 gs1 tg1 where s: "parse_group R cfg gr (m, gs, tg) = Some (m1, gs1, tg1)"
    and r: "parse_groups R cfg grs (m1, gs1, tg1) = Some (m', gs', tg')"
    by (auto simp: Option.bind_eq_Some_conv)
  from parse_group_ok [OF s Cons.prems(2,3)] Cons.IH [OF r] show ?case by auto
qed


lemma those_map: "those (map f xs) = Some ys \<longleftrightarrow> list_all2 (\<lambda>x y. f x = Some y) xs ys"
  by (induction xs arbitrary: ys) (auto simp: list_all2_Cons1 split: option.splits)

definition config_ok :: "RecorderConfig \<Rightarrow> bool" where
  "config_ok cfg \<longleftrightarrow>
     groups_state_ok (0xff, rc_groups cfg, rc_priority_to_group cfg) \<and> names_ok (rc_groups cfg) \<and>
     rc_groups cfg \<noteq> [] \<and> length (rc_groups cfg) \<le> MAX_PRIORITY_GROUPS"

definition group_core :: "PriorityGroup \<Rightarrow> string \<times> u8 list \<times> u8" where
  "group_core g = (pg_name g, pg_priorities g, pg_min_priority g)"

lemma config_ok_core:
  assumes ok: "config_ok cfg" and core: "map group_core gs = map group_core (rc_groups cfg)"
  shows "config_ok (cfg\<lparr>rc_groups := gs\<rparr>)"
proof -
  let ?hs = "rc_groups cfg"
  have len: "length gs = length ?hs" using core by (metis length_map)
  have nth: "pg_name (gs ! i) = pg_name (?hs ! i) \<and> pg_priorities (gs ! i) = pg_priorities (?hs ! i) \<and>
      pg_min_priority (gs ! i) = pg_min_priority (?hs ! i)" if "i < length gs" for i
    using that len arg_cong [OF core, of "\<lambda>l. l ! i"] by (simp add: group_core_def)
  have names: "map pg_name gs = map pg_name ?hs" using nth len by (auto intro: nth_equalityI)
  have "valid_group_name (pg_name (gs ! i)) \<and> pg_priorities (gs ! i) \<noteq> []" if "i < length gs" for i
    using ok nth [OF that] that len by (auto simp: config_ok_def names_ok_def list_all_length)
  with names ok have "names_ok gs" by (simp add: config_ok_def names_ok_def list_all_length)
  moreover have "groups_state_ok (0xff, gs, rc_priority_to_group cfg)"
    using ok nth len by (auto simp: config_ok_def groups_state_ok_def group_ok_def)
  ultimately show ?thesis using ok len by (auto simp: config_ok_def)
qed

lemma finish_group_core: "finish_group cfg g = Some g' \<Longrightarrow> group_core g' = group_core g"
  by (auto simp: finish_group_def group_core_def Option.bind_eq_Some_conv)

lemma config_scalars_groups:
  "config_scalars root cfg = Some cfg' \<Longrightarrow>
   rc_groups cfg' = rc_groups cfg \<and> rc_priority_to_group cfg' = rc_priority_to_group cfg"
  by (auto simp: config_scalars_def Option.bind_eq_Some_conv)

lemma priority_groups_ok:
  assumes "json_get_priority_groups R root cfg = Some cfg'" and "config_ok cfg"
  shows "config_ok cfg'"
proof (cases "json_object_get root ''priority_groups''")
  case None
  with assms show ?thesis by (simp add: json_get_priority_groups_def)
next
  case (Some node)
  with assms(1) obtain nodes gs tg where n: "nodes \<noteq> []" "length nodes \<le> 8"
    "parse_groups R cfg nodes (0, [], replicate 8 (- 1)) = Some (0xff, gs, tg)"
    "cfg' = cfg\<lparr>rc_groups := gs, rc_priority_to_group := tg\<rparr>"
    by (auto simp: json_get_priority_groups_def Option.bind_eq_Some_conv split: json.splits)
  have "groups_state_ok (0, [], replicate 8 (- 1))" by (simp add: groups_state_ok_def)
  from parse_groups_ok [OF n(3) this] n show ?thesis by (auto simp: config_ok_def names_ok_def)
qed

lemma config_load_ok:
  assumes "recorder_config_load J R w cfg path = Some cfg'" and "config_ok cfg"
  shows "config_ok cfg'"
proof -
  from assms(1) obtain root c1 ms c2 gs where
    c: "config_scalars root cfg = Some c1" "json_get_priority_groups R root (c1\<lparr>rc_modifiers := ms\<rparr>) = Some c2"
      "those (map (finish_group c2) (rc_groups c2)) = Some gs" "cfg' = c2\<lparr>rc_groups := gs\<rparr>"
    by (auto simp: recorder_config_load_def Option.bind_eq_Some_conv)
  have "config_ok (c1\<lparr>rc_modifiers := ms\<rparr>)"
    using config_scalars_groups [OF c(1)] assms(2) by (simp add: config_ok_def)
  from priority_groups_ok [OF c(2) this] have ok: "config_ok c2" .
  have "map group_core gs = map group_core (rc_groups c2)"
    using c(3) by (auto simp: those_map list_all2_conv_all_nth finish_group_core intro!: nth_equalityI)
  from config_ok_core [OF ok this] c(4) show ?thesis by simp
qed

lemma load_fragments_ok: "load_fragments J R w dir ns cfg = Some cfg' \<Longrightarrow> config_ok cfg \<Longrightarrow> config_ok cfg'"
  by (induction ns arbitrary: cfg)
    (auto simp: Let_def Option.bind_eq_Some_conv intro: config_load_ok split: if_splits)

lemma decimal_digit: "n < 10 \<Longrightarrow> decimal n = [digit_char n]"
  by (simp add: decimal.simps)

lemma config_init_ok: "config_ok recorder_config_init"
proof -
  have g: "rc_groups recorder_config_init ! i = empty_group\<lparr>pg_name := CHR ''p'' # decimal i, pg_priorities := [of_nat i],
      pg_min_priority := of_nat i\<rparr>" if "i < 8" for i
    using that by (simp add: recorder_config_init_def)
  have len: "length (rc_groups recorder_config_init) = 8" by (simp add: recorder_config_init_def)
  have tg: "rc_priority_to_group recorder_config_init ! p = int p" if "p < 8" for p
    using that by (simp add: recorder_config_init_def)
  have mask: "bit (0xff :: u32) p" if "p < 8" for p
  proof -
    have "(0xff :: u32) = mask 8" by (simp add: mask_numeral)
    with that show ?thesis by (simp only: bit_mask_iff) simp
  qed
  have le: "(of_nat i :: u8) \<le> 255" if "i < 8" for i
    using that by (simp add: word_le_nat_alt unat_small_u8)
  have "groups_state_ok (0xff, rc_groups recorder_config_init, rc_priority_to_group recorder_config_init)"
    using g tg mask le unat_small_u8
    by (auto simp: groups_state_ok_def group_ok_def len min_def intro: antisym) (simp_all add: recorder_config_init_def)
  moreover have "names_ok (rc_groups recorder_config_init)"
    by (simp add: names_ok_def recorder_config_init_def upt_rec decimal_digit empty_group_def) code_simp
  ultimately show ?thesis by (simp add: config_ok_def len) (use len in auto)
qed


text \<open>The configuration \<^verbatim>\<open>main\<close> starts with: defaults, the main file, the fragments.\<close>

definition load_config ::
    "jansson \<Rightarrow> pcre2 \<Rightarrow> world \<Rightarrow> string \<Rightarrow> string \<Rightarrow> string list option \<Rightarrow> RecorderConfig option" where
  "load_config J R w cfg_path dir entries =
     Option.bind (recorder_config_load J R w recorder_config_init cfg_path)
       (recorder_config_load_dropins J R w dir entries)"

lemma load_config_ok: "load_config J R w path dir entries = Some cfg \<Longrightarrow> config_ok cfg"
  by (auto simp: load_config_def recorder_config_load_dropins_def Option.bind_eq_Some_conv
      dest!: config_load_ok [OF _ config_init_ok] intro: load_fragments_ok split: option.splits)

lemma min_priority_mem:
  assumes "group_ok tg i g" and "pg_priorities g \<noteq> []"
  shows "pg_min_priority g \<in> set (pg_priorities g) \<and> (\<forall>q \<in> set (pg_priorities g). pg_min_priority g \<le> q)"
proof -
  have small: "q \<le> 255" if "q \<in> set (pg_priorities g)" for q
    using that assms(1) by (force simp: group_ok_def word_le_nat_alt)
  have "pg_min_priority g = Min (set (pg_priorities g))"
  proof -
    have "Min (set (pg_priorities g)) \<le> 255" using small assms(2) by (simp add: Min_le_iff)
    moreover have "Min (insert 255 (set (pg_priorities g))) = min 255 (Min (set (pg_priorities g)))"
      using assms(2) by (intro Min_insert) simp_all
    ultimately show ?thesis using assms(1) by (simp add: group_ok_def min_absorb2 del: Min_insert)
  qed
  then show ?thesis using assms(2) by simp
qed


definition demo_pcre2 :: pcre2 where
  "demo_pcre2 = \<lparr>re_compile = (\<lambda>p. p \<noteq> ''(''), re_match = (\<lambda>p s. if str_bytes p = s then ReMatch [Some (0, length s)] else ReNoMatch)\<rparr>"

definition demo_config_json :: json where
  "demo_config_json = JObject [(''priority_groups'', JArray
     [JObject [(''name'', JString (str_bytes ''hi'')), (''priorities'', JArray [JInteger 2, JInteger 0, JInteger 1, JInteger 3])],
      JObject [(''name'', JString (str_bytes ''lo'')), (''priorities'', JArray [JInteger 4, JInteger 5, JInteger 6, JInteger 7])]])]"

definition demo_config_jansson :: jansson where
  "demo_config_jansson = \<lparr>json_utf8 = (\<lambda>_. True), json_dumps = (\<lambda>_. None), json_loads = (\<lambda>_. Some demo_config_json)\<rparr>"

definition demo_config_world :: world where
  "demo_config_world = \<lparr>w_log_dir = ''/l'', w_dirs = [], w_files = [(''/c'', \<lparr>f_data = str_bytes ''{}'', f_mtime = 0\<rparr>)],
     w_faults = [], w_time = 0\<rparr>"

definition demo_config :: "RecorderConfig option" where
  "demo_config = load_config demo_config_jansson demo_pcre2 demo_config_world ''/c'' ''/d'' (Some [])"

lemma demo_config_loads: "\<exists>cfg. demo_config = Some cfg"
proof -
  have "demo_config \<noteq> None" by code_simp
  then show ?thesis by blast
qed



subsection \<open>Comment lines, line by line\<close>

text \<open>Reference definition: a text is its lines joined by newlines; comment lines become empty.\<close>

fun join_lines :: "string list \<Rightarrow> string" where
  "join_lines [] = []"
| "join_lines [l] = l"
| "join_lines (l # ls) = l @ CHR 0x0A # join_lines ls"

definition comment_line :: "string \<Rightarrow> bool" where
  "comment_line l \<longleftrightarrow>
     (case dropWhile (\<lambda>c. c = CHR '' '' \<or> c = CHR 0x09) l of [] \<Rightarrow> False | c # _ \<Rightarrow> c = CHR ''#'')"

lemma first_of_line:
  assumes "CHR 0x0A \<notin> set l"
  shows "(dropWhile (\<lambda>c. c = CHR '' '' \<or> c = CHR 0x09) (l @ CHR 0x0A # r) \<noteq> [] \<and>
      hd (dropWhile (\<lambda>c. c = CHR '' '' \<or> c = CHR 0x09) (l @ CHR 0x0A # r)) = CHR ''#'') = comment_line l"
    and "(dropWhile (\<lambda>c. c = CHR '' '' \<or> c = CHR 0x09) l \<noteq> [] \<and>
      hd (dropWhile (\<lambda>c. c = CHR '' '' \<or> c = CHR 0x09) l) = CHR ''#'') = comment_line l"
  using assms by (induction l) (auto simp: comment_line_def)

lemma line_split:
  assumes "CHR 0x0A \<notin> set l"
  shows "takeWhile (\<lambda>c. c \<noteq> CHR 0x0A) (l @ CHR 0x0A # r) = l" "dropWhile (\<lambda>c. c \<noteq> CHR 0x0A) (l @ CHR 0x0A # r) = CHR 0x0A # r"
    "takeWhile (\<lambda>c. c \<noteq> CHR 0x0A) l = l" "dropWhile (\<lambda>c. c \<noteq> CHR 0x0A) l = []"
  using assms by (induction l) auto

text \<open>
  C23. \<^verbatim>\<open>strip_hash_comment_lines\<close> blanks exactly the comment lines of a file, those whose
  first character after blanks and tabs is a hash, and keeps every other line and every line
  break, so that line numbers in JSON error messages stay those of the file.
\<close>

theorem comments_stripped_by_line:
  assumes "list_all (\<lambda>l. CHR 0x0A \<notin> set l) ls"
  shows "strip_hash_comment_lines (join_lines ls) = join_lines (map (\<lambda>l. if comment_line l then [] else l) ls)"
  using assms
proof (induction ls rule: join_lines.induct)
  case 1
  show ?case by (simp add: strip_hash_comment_lines.simps)
next
  case (2 l)
  then have nl: "CHR 0x0A \<notin> set l" by simp
  show ?case
  proof (cases "l = []")
    case True
    then show ?thesis by (simp add: strip_hash_comment_lines.simps)
  next
    case False
    then show ?thesis
      unfolding join_lines.simps list.map strip_hash_comment_lines.simps [of l] Let_def
        line_split [OF nl] first_of_line [OF nl] by simp
  qed
next
  case (3 l l' ls)
  then have nl: "CHR 0x0A \<notin> set l" by simp
  have ih: "strip_hash_comment_lines (join_lines (l' # ls)) =
      join_lines (map (\<lambda>l. if comment_line l then [] else l) (l' # ls))" using 3 by simp
  have "strip_hash_comment_lines (join_lines (l # l' # ls)) =
      (if comment_line l then [] else l) @ CHR 0x0A # strip_hash_comment_lines (join_lines (l' # ls))"
    unfolding join_lines.simps strip_hash_comment_lines.simps [of "l @ CHR 0x0A # join_lines (l' # ls)"] Let_def
      line_split [OF nl] first_of_line [OF nl] by simp
  then show ?case unfolding ih by simp
qed

theorem comments_stripped_by_line_witness:
  "strip_hash_comment_lines (join_lines [''{'', '' # note'', ''}'']) = join_lines [''{'', '''', ''}'']"
  using comments_stripped_by_line [of "[''{'', '' # note'', ''}'']"] by (simp add: comment_line_def)

end
