(* ===== verification/Recorder_State.thy ===== *)
theory Recorder_State
  imports Boots Config
begin

text \<open>
  The data of the recording process of \<^verbatim>\<open>src/recorder.c\<close>: log entries, the writer of a
  priority group and the recorder itself, with the fields of the C structures. A null or
  absent string field is \<^verbatim>\<open>None\<close>; the FlatBuffers builder of a writer is the list of entries
  it holds. The clock is a parameter: it stands still during one operation.
\<close>

record LogEntry =
  le_realtime_ts :: u64
  le_monotonic_ts :: u64
  le_monotonic_tie_order :: u16
  le_pid :: u32
  le_uid :: u32
  le_gid :: u32
  le_boot_seq :: u32
  le_priority :: u8
  le_errno_value :: u16
  le_boot_id :: "byte list"
  le_message :: "byte list option"
  le_message_id :: "byte list option"
  le_hostname :: "byte list option"
  le_unit :: "byte list option"
  le_comm :: "byte list option"
  le_exe :: "byte list option"
  le_extra_fields :: "(byte list \<times> byte list) list"

record PriorityWriter =
  pw_group_index :: nat
  pw_fp :: "FILE option"
  pw_open :: bool
  pw_path :: string
  pw_tmp_path :: string
  pw_group_name :: string
  pw_boot_id :: "byte list"
  pw_timezone :: "byte list"
  pw_boot_seq :: u32
  pw_segment_seq :: u64
  pw_clock_jump_seen_seq :: u64
  pw_bytes_written :: u64
  pw_entry_count :: u64
  pw_first_realtime_ts :: u64
  pw_first_monotonic_ts :: u64
  pw_previous_realtime_ts :: u64
  pw_max_realtime_ts :: u64
  pw_last_monotonic_ts :: u64
  pw_realtime_nonmonotonic :: bool
  pw_opened_mono_sec :: int
  pw_last_chunk_flush_mono_sec :: int
  pw_last_sync_mono_sec :: int
  pw_unsynced_frames :: u32
  pw_compress_enabled :: bool
  pw_compress_min_frame_bytes :: u32
  pw_compress_if_smaller :: bool
  pw_encryptor :: "SegmentEncryptor option"
  pw_index_writer :: "IndexWriter option"
  pw_index_header :: SegmentHeader
  pw_durable_per_frame :: bool
  pw_durability_flush_frames :: u32
  pw_durability_flush_interval_sec :: u32
  pw_dict_bytes :: "byte list"
  pw_use_compact_entries :: bool
  pw_entries :: "LogEntry list"

record Recorder =
  r_config :: RecorderConfig
  r_boots :: BootRegistry
  r_next_segment_seq :: u64
  r_current_entry_pending :: bool
  r_cursor_enabled :: bool
  r_runtime_cursor_is_volatile :: bool
  r_persistent_cursor_enabled :: bool
  r_cursor_path :: string
  r_persistent_cursor_path :: string
  r_pending_cursor :: "string option"
  r_writers :: "PriorityWriter list"
  r_clock_jump_seq :: u64
  r_clock_jump_usec :: int
  r_clock_offset_initialized :: bool
  r_last_clock_offset_usec :: int
  r_last_received_monotonic_ts :: u64
  r_last_received_boot_seq :: u32
  r_monotonic_tie_order :: u16
  r_have_last_received_monotonic_ts :: bool
  r_startup_catchup :: bool

record clock =
  ck_mono_sec :: int
  ck_realtime_usec :: "int option"
  ck_boottime_usec :: "int option"
  ck_timezone :: "byte list"

abbreviation (input) CHUNK_SIZE :: nat where "CHUNK_SIZE \<equiv> 512"
abbreviation (input) DEFAULT_SEGMENT_MAX_BYTES :: u64 where "DEFAULT_SEGMENT_MAX_BYTES \<equiv> 4194304"

definition recorder_segment_limit :: "Recorder \<Rightarrow> u64" where
  "recorder_segment_limit r =
     (if rc_segment_max_bytes (r_config r) \<noteq> 0 then rc_segment_max_bytes (r_config r)
      else DEFAULT_SEGMENT_MAX_BYTES)"

definition path_is_active_segment :: "Recorder \<Rightarrow> string \<Rightarrow> bool" where
  "path_is_active_segment r path \<longleftrightarrow> list_ex (\<lambda>w. pw_open w \<and> pw_path w = path) (r_writers r)"

definition zero_header :: SegmentHeader where
  "zero_header =
     \<lparr>sh_flags = 0, sh_segment_seq = 0, sh_boot_seq = 0, sh_boot_id = [], sh_timezone = [],
      sh_first_realtime_ts = 0, sh_first_monotonic_ts = 0, sh_dict_len = 0\<rparr>"

definition writer_init :: "PriorityGroup \<Rightarrow> nat \<Rightarrow> PriorityWriter" where
  "writer_init g group_index =
     \<lparr>pw_group_index = group_index, pw_fp = None, pw_open = False, pw_path = [], pw_tmp_path = [],
      pw_group_name = pg_name g, pw_boot_id = [], pw_timezone = [], pw_boot_seq = 0,
      pw_segment_seq = 0, pw_clock_jump_seen_seq = 0, pw_bytes_written = 0, pw_entry_count = 0,
      pw_first_realtime_ts = 0, pw_first_monotonic_ts = 0, pw_previous_realtime_ts = 0,
      pw_max_realtime_ts = 0, pw_last_monotonic_ts = 0, pw_realtime_nonmonotonic = False,
      pw_opened_mono_sec = 0, pw_last_chunk_flush_mono_sec = 0, pw_last_sync_mono_sec = 0,
      pw_unsynced_frames = 0, pw_compress_enabled = False, pw_compress_min_frame_bytes = 0,
      pw_compress_if_smaller = False, pw_encryptor = None, pw_index_writer = None,
      pw_index_header = zero_header, pw_durable_per_frame = False, pw_durability_flush_frames = 0,
      pw_durability_flush_interval_sec = 0, pw_dict_bytes = [], pw_use_compact_entries = False,
      pw_entries = []\<rparr>"

text \<open>A recorder that has nothing open, for the examples.\<close>

definition idle_recorder :: "RecorderConfig \<Rightarrow> Recorder" where
  "idle_recorder cfg =
     \<lparr>r_config = cfg, r_boots = boot_registry_init, r_next_segment_seq = 7,
      r_current_entry_pending = False, r_cursor_enabled = False,
      r_runtime_cursor_is_volatile = False, r_persistent_cursor_enabled = False,
      r_cursor_path = [], r_persistent_cursor_path = [], r_pending_cursor = None, r_writers = [],
      r_clock_jump_seq = 0, r_clock_jump_usec = 0, r_clock_offset_initialized = False,
      r_last_clock_offset_usec = 0, r_last_received_monotonic_ts = 0, r_last_received_boot_seq = 0,
      r_monotonic_tie_order = 0, r_have_last_received_monotonic_ts = False, r_startup_catchup = True\<rparr>"

end
