(* ===== verification/Index_Props.thy ===== *)
theory Index_Props
  imports Index Segment_Props
begin

text \<open>
  The properties of the frame index: a rebuilt index is accepted and complete, its records
  cover their chunks, its searches are exact, damage is detected. The two searches by time
  share the contract \<^verbatim>\<open>index_lookup\<close>.
\<close>

subsection \<open>A table of records in an index file\<close>

definition span :: "IndexFrame \<Rightarrow> nat \<times> nat" where
  "span f = (unat (ix_file_offset f), unat (ix_frame_len f))"

definition table_ok :: "IndexFrame list \<Rightarrow> bool" where
  "table_ok ixs \<longleftrightarrow> list_all (\<lambda>f. length (ix_service_hashes f) = 4) ixs"

lemma pread_table:
  assumes "length hdr = 24" and "table_ok ixs" and "i < length ixs"
  shows "index_pread_frame (hdr @ concat (map index_record ixs) @ rest) i = Some (ixs ! i)"
proof -
  let ?t = "concat (map index_record ixs)"
  have len: "length ?t = length ixs * 83"
    using assms(2) by (simp add: ixrec.length_table table_ok_def)
  have d: "drop (24 + i * 83) (hdr @ ?t @ rest) = drop (i * 83) (?t @ rest)"
    using assms(1) by simp
  have "i * 83 + 83 \<le> length ixs * 83" using assms(3) by simp
  then have "length (take 83 (drop (i * 83) (?t @ rest))) = 83" using len by simp
  then show ?thesis
    using ixrec.table_nth [of ixs i rest] assms(2,3)
    unfolding index_pread_frame_def Let_def d by (simp add: table_ok_def)
qed

lemma validate_table:
  assumes tab: "length hdr = 24" "table_ok ixs"
  shows "i \<le> length ixs \<Longrightarrow> contiguous n off (map span (drop i ixs)) \<Longrightarrow>
    \<exists>e. index_validate_frames (hdr @ concat (map index_record ixs) @ rest) n (length ixs) i off = Some e"
proof (induction "length ixs - i" arbitrary: i off)
  case 0
  then show ?case by (subst index_validate_frames.simps) simp
next
  case (Suc k)
  then have i: "i < length ixs" by simp
  have dr: "drop i ixs = ixs ! i # drop (Suc i) ixs" using i by (simp add: Cons_nth_drop_Suc)
  from Suc.prems(2) have c: "unat (ix_file_offset (ixs ! i)) = off" "20 \<le> unat (ix_frame_len (ixs ! i))"
    "off + unat (ix_frame_len (ixs ! i)) \<le> n"
    "contiguous n (off + unat (ix_frame_len (ixs ! i))) (map span (drop (Suc i) ixs))"
    by (simp_all add: dr span_def)
  have "\<not> ix_frame_len (ixs ! i) < 20" using c(2) by (simp add: word_less_nat_alt)
  moreover have "k = length ixs - Suc i" "Suc i \<le> length ixs" using Suc.hyps(2) i by simp_all
  note Suc.hyps(1) [OF this c(4)]
  ultimately show ?case
    using i c(1-3) pread_table [OF tab i, of rest]
    by (subst index_validate_frames.simps) simp
qed

lemma contiguous_count: "contiguous n off fs \<Longrightarrow> off + 20 * length fs \<le> n"
  by (induction n off fs rule: contiguous.induct) auto

text \<open>An index with a valid header, contiguous records and a matching footer is accepted.\<close>

definition index_file :: "u64 \<Rightarrow> u32 \<Rightarrow> IndexFrame list \<Rightarrow> u64 \<Rightarrow> byte list" where
  "index_file sq flags ixs committed_end =
     (let body = index_header sq flags @ concat (map index_record ixs)
      in body @ RECORDER_INDEX_FOOTER_MAGIC @ write_u64_le (of_nat (length ixs)) @
         write_u64_le committed_end @ write_u32_le (recorder_crc32 body))"

lemma length_index_magic [simp]: "length RECORDER_INDEX_MAGIC = 8" "length RECORDER_INDEX_FOOTER_MAGIC = 8"
  by (simp_all add: RECORDER_INDEX_MAGIC_def RECORDER_INDEX_FOOTER_MAGIC_def)

lemma length_index_header [simp]: "length (index_header sq flags) = 24"
  by (simp add: index_header_def)

lemma index_open_read_table:
  assumes ok: "table_ok ixs" and c: "contiguous (length buf) data_offset (map span ixs)"
    and n: "length buf < 2 ^ 64"
    and h: "segment_read_path_header buf = Some (header, data_offset, length buf)"
  shows "index_open_read (Some (index_file (sh_segment_seq header) (sh_flags header) ixs (of_nat (length buf)))) (Some buf) =
    Inr (length ixs)"
proof -
  let ?hd = "index_header (sh_segment_seq header) (sh_flags header)"
  let ?body = "?hd @ concat (map index_record ixs)"
  let ?ft = "RECORDER_INDEX_FOOTER_MAGIC @ write_u64_le (of_nat (length ixs)) @
         write_u64_le (of_nat (length buf)) @ write_u32_le (recorder_crc32 ?body)"
  have f: "index_file (sh_segment_seq header) (sh_flags header) ixs (of_nat (length buf)) = ?body @ ?ft"
    by (simp add: index_file_def Let_def)
  have lt: "length (concat (map index_record ixs)) = length ixs * 83"
    using ok by (simp add: ixrec.length_table table_ok_def)
  have lft: "length ?ft = 28" by simp
  have sz: "length (?body @ ?ft) = 24 + length ixs * 83 + 28" using lt by simp
  have ft: "drop (24 + length ixs * 83 + 28 - 28) (?body @ ?ft) = ?ft"
    "take (24 + length ixs * 83 + 28 - 28) (?body @ ?ft) = ?body" using lt by simp_all
  have k: "unat (of_nat (length ixs) :: u64) = length ixs" "unat (of_nat (length buf) :: u64) = length buf"
    using contiguous_count [OF c] n by (simp_all add: of_nat_inject_le)
  have hd: "take 8 (?body @ ?ft) = RECORDER_INDEX_MAGIC" "read_u32_le (drop 8 (?body @ ?ft)) = 1"
    "read_u64_le (drop 12 (?body @ ?ft)) = sh_segment_seq header"
    "read_u32_le (drop 20 (?body @ ?ft)) = sh_flags header"
    by (simp_all add: index_header_def)
  obtain e where e: "index_validate_frames (?body @ ?ft) (length buf) (length ixs) 0 data_offset = Some e"
    using validate_table [OF length_index_header ok, where i = 0 and n = "length buf" and off = data_offset] c
    by fastforce
  have v: "index_validate_segment (?body @ ?ft) (length ixs) (sh_segment_seq header) (sh_flags header) True
      (of_nat (length buf)) (Some buf) = Inr ()"
    by (simp add: index_validate_segment_def h e [simplified] k)
  show ?thesis
    unfolding f index_open_read_def option.case Let_def sz hd ft
    using v k by simp
qed

subsection \<open>What the writer leaves\<close>

lemma store_parts_ok:
  "store_parts bs (fp, err) = (fp', False) \<Longrightarrow> \<not> err \<and> contents fp' = contents fp @ concat bs"
proof (induction bs arbitrary: fp err)
  case Nil
  then show ?case by simp
next
  case (Cons b bs)
  obtain n fp1 where w: "fwrite b fp = (n, fp1)" by fastforce
  with Cons.prems have "store_parts bs (fp1, err \<or> n \<noteq> length b) = (fp', False)" by simp
  from Cons.IH [OF this] have "\<not> err" "n = length b" "contents fp' = contents fp1 @ concat bs" by auto
  with w fwrite_full [of b fp fp1] show ?case by simp
qed

lemma append_ok:
  assumes "append_index_frame_cb F h fr ch w = (0, w')"
  shows "contents (iw_fp w') = contents (iw_fp w) @ index_record (index_frame_of F h fr ch)"
    and "iw_record_count w' = iw_record_count w + 1" and "iw_path w' = iw_path w"
proof -
  from assms obtain fp where st: "store_parts (index_record_parts (index_frame_of F h fr ch)) (iw_fp w, iw_ferror w) = (fp, False)"
    and w': "w' = w\<lparr>iw_fp := fp, iw_ferror := False, iw_record_count := iw_record_count w + 1\<rparr>"
    by (auto simp: append_index_frame_cb_def index_writer_append_def write_index_frame_def
        split: prod.splits if_splits)
  from store_parts_ok [OF st] w' show
    "contents (iw_fp w') = contents (iw_fp w) @ index_record (index_frame_of F h fr ch)"
    "iw_record_count w' = iw_record_count w + 1" "iw_path w' = iw_path w"
    by (simp_all add: index_record_def)
qed

lemma run_append:
  "run_cb (append_index_frame_cb F) h fs w = (0, w') \<Longrightarrow>
   contents (iw_fp w') = contents (iw_fp w) @ concat (map index_record (map (\<lambda>(fr, ch). index_frame_of F h fr ch) fs)) \<and>
   iw_record_count w' = iw_record_count w + of_nat (length fs) \<and> iw_path w' = iw_path w"
proof (induction fs arbitrary: w)
  case Nil
  then show ?case by simp
next
  case (Cons x fs)
  obtain fr ch where x: "x = (fr, ch)" by (cases x)
  obtain rv w1 where a: "append_index_frame_cb F h fr ch w = (rv, w1)" by fastforce
  from Cons.prems a x have rv: "rv = 0" by (auto split: if_splits)
  with Cons.prems a x have "run_cb (append_index_frame_cb F) h fs w1 = (0, w')" by simp
  from Cons.IH [OF this] append_ok [OF a [unfolded rv]] show ?case
    by (simp add: x)
qed

definition collect_frames ::
    "SegmentHeader \<Rightarrow> SegmentFrameInfo \<Rightarrow> byte list \<Rightarrow> (SegmentFrameInfo \<times> byte list) list \<Rightarrow>
     int \<times> (SegmentFrameInfo \<times> byte list) list" where
  "collect_frames header frame chunk ctx = (0, ctx @ [(frame, chunk)])"

lemma run_collect: "run_cb collect_frames h fs ctx = (0, ctx @ fs)"
  by (induction fs arbitrary: ctx) (auto simp: collect_frames_def)

lemma index_open_contents:
  assumes "index_writer_open (Some (fopen_w s)) path sq flags = Some w"
  shows "contents (iw_fp w) = index_header sq flags" and "iw_record_count w = 0" and "iw_path w = path"
proof -
  obtain n fp where fw: "fwrite (index_header sq flags) (fopen_w s) = (n, fp)" by fastforce
  with assms have n: "n = 24" and w: "w = \<lparr>iw_fp = fp, iw_ferror = False, iw_path = path, iw_record_count = 0\<rparr>"
    by (auto simp: index_writer_open_def split: if_splits)
  show "contents (iw_fp w) = index_header sq flags" "iw_record_count w = 0" "iw_path w = path"
    using fwrite_full [of "index_header sq flags" "fopen_w s" fp] fw n w by (simp_all add: fopen_w_def)
qed

text \<open>A scan with a callback, in terms of the frames any callback sees.\<close>

lemma scan_path_frames:
  assumes "segment_scan_path L (Some buf) decryptor (Some cb) ctx = (Inr (header, footer, e), ctx')"
    and "length buf < 2 ^ 64"
  obtains fs off where "run_cb cb header fs ctx = (0, ctx')" and "contiguous (length buf) off (spans fs)"
    and "segment_read_path_header buf = Some (header, off, length buf)"
    and "\<And>c. segment_scan_path L (Some buf) decryptor (Some (cb' :: 'd segment_frame_cb)) c =
        (case run_cb cb' header fs c of
           (rv, c') \<Rightarrow> if rv \<noteq> 0 then (Inl (ScanCallback rv), c') else (Inr (header, footer, e), c'))"
proof -
  from assms(1) obtain off ei dek where ph: "segment_parse_header buf = Some (header, off, ei)"
    and ne: "buf \<noteq> []"
    and key: "(if encrypted header
                 then (case decryptor of
                         None \<Rightarrow> Inl EACCES
                       | Some key \<Rightarrow>
                           (case recorder_crypto_unwrap_dek L key (ei_wrapped_dek ei) of
                              Inl _ \<Rightarrow> Inl EACCES
                            | Inr dek \<Rightarrow> Inr dek))
                 else Inr (replicate SEGMENT_DEK_SIZE 0)) = Inr dek"
    and loop: "segment_scan_loop \<lparr>env_lib = L, env_header = header, env_encryption = ei,
       env_dek = dek, env_dict = take (unat (sh_dict_len header))
         (drop (off - unat (sh_dict_len header)) buf), env_cb = Some cb,
       env_min = 0\<rparr> buf off 0 ctx = (Inr (footer, e), ctx')"
    by (auto simp: segment_scan_path_def segment_scan_impl_def Let_def
        split: option.splits prod.splits sum.splits if_splits)
  let ?env = "\<lparr>env_lib = L, env_header = header, env_encryption = ei,
       env_dek = dek, env_dict = take (unat (sh_dict_len header))
         (drop (off - unat (sh_dict_len header)) buf), env_cb = Some cb,
       env_min = 0\<rparr>"
  have le: "off \<le> length buf" using segment_parse_header_bounds [OF ph] by blast
  obtain fs where fs: "run_cb cb header fs ctx = (0, ctx')" "contiguous (length buf) off (spans fs)"
    and two: "\<And>c. segment_scan_loop (with_cb ?env cb') buf off 0 c =
        (case run_cb cb' header fs c of
           (rv, c') \<Rightarrow> if rv \<noteq> 0 then (Inl (ScanCallback rv), c') else (Inr (footer, e), c'))"
    using scan_loop_frames [OF loop _ _ le assms(2), of cb cb'] by auto
  show thesis
  proof (rule that [OF fs])
    show "segment_read_path_header buf = Some (header, off, length buf)"
      by (rule segment_read_path_header_of_parsed [OF ph])
    show "segment_scan_path L (Some buf) decryptor (Some cb') c =
        (case run_cb cb' header fs c of
           (rv, c') \<Rightarrow> if rv \<noteq> 0 then (Inl (ScanCallback rv), c') else (Inr (header, footer, e), c'))" for c
      using key two [of c] ne
      by (simp add: segment_scan_path_def segment_scan_impl_def ph Let_def with_cb_def split: prod.splits)
  qed
qed

subsection \<open>Rebuilding\<close>

lemma rebuild_file:
  assumes rb: "index_rebuild_for_segment L F fs segp idxp decryptor (Some (fopen_w s)) ren = (True, fs')"
    and seg: "fs segp = Some buf" "length buf < 2 ^ 64"
    and md: "segment_scan_path L (Some buf) decryptor None () = (Inr (header, footer, ce), ())"
  obtains frames r off where
    "segment_scan_path L (Some buf) decryptor (Some collect_frames) [] = (Inr r, frames)"
    and "contiguous (length buf) off (spans frames)"
    and "segment_read_path_header buf = Some (header, off, length buf)"
    and "fs' idxp = Some (index_file (sh_segment_seq header) (sh_flags header)
       (map (\<lambda>(fr, ch). index_frame_of F header fr ch) frames) (of_nat ce))"
proof -
  let ?tmp = "snprintf_str 512 (idxp @ ''.tmp'')"
  from rb obtain w where wo: "index_writer_open (Some (fopen_w s)) ?tmp (sh_segment_seq header) (sh_flags header) = Some w"
    unfolding index_rebuild_for_segment_def Let_def seg(1) md
    by (auto split: option.splits)
  from rb wo obtain h1 f1 e1 w1 fp where
    sc: "segment_scan_path L (Some buf) decryptor (Some (append_index_frame_cb F)) w = (Inr (h1, f1, e1), w1)"
    and cl: "index_writer_close w1 (of_nat ce) = (True, fp)"
    and fs': "fs' = fs(?tmp := None, idxp \<mapsto> contents fp)"
    unfolding index_rebuild_for_segment_def Let_def seg(1) md
    by (auto split: prod.splits sum.splits if_splits)
  obtain frames off where run: "run_cb (append_index_frame_cb F) h1 frames w = (0, w1)"
    and ct: "contiguous (length buf) off (spans frames)"
    and rh: "segment_read_path_header buf = Some (h1, off, length buf)"
    and two: "\<And>c. segment_scan_path L (Some buf) decryptor (Some collect_frames) c =
        (case run_cb collect_frames h1 frames c of
           (rv, c') \<Rightarrow> if rv \<noteq> 0 then (Inl (ScanCallback rv), c') else (Inr (h1, f1, e1), c'))"
    by (rule scan_path_frames [OF sc seg(2), where cb' = collect_frames]) blast
  have h1: "h1 = header"
    using sc md by (auto simp: segment_scan_path_def segment_scan_impl_def Let_def
        split: option.splits prod.splits sum.splits if_splits)
  let ?ixs = "map (\<lambda>(fr, ch). index_frame_of F header fr ch) frames"
  note o = index_open_contents [OF wo]
  have w1: "contents (iw_fp w1) = index_header (sh_segment_seq header) (sh_flags header) @ concat (map index_record ?ixs)"
    "iw_record_count w1 = of_nat (length ?ixs)"
    using run_append [OF run] o h1 by simp_all
  obtain n where fw: "fwrite (index_footer w1 (of_nat ce)) (iw_fp w1) = (n, fp)" and n: "n = 28"
    using cl by (auto simp: index_writer_close_def split: prod.splits)
  have "contents fp = contents (iw_fp w1) @ index_footer w1 (of_nat ce)"
    using fwrite_full fw n by (simp add: index_footer_def)
  then have "fs' idxp = Some (index_file (sh_segment_seq header) (sh_flags header) ?ixs (of_nat ce))"
    by (simp add: fs' index_file_def index_footer_def w1 Let_def)
  moreover have "segment_scan_path L (Some buf) decryptor (Some collect_frames) [] = (Inr (h1, f1, e1), frames)"
    using two [of "[]"] by (simp add: run_collect)
  ultimately show thesis using that ct rh h1 by blast
qed

lemma table_ok_frames: "table_ok (map (\<lambda>(fr, ch). index_frame_of F header fr ch) frames)"
  by (simp add: table_ok_def list_all_iff case_prod_beta)

lemma span_frames: "map span (map (\<lambda>(fr, ch). index_frame_of F header fr ch) frames) = spans frames"
  by (simp add: spans_def span_def index_frame_of_def Let_def case_prod_beta)

lemma rebuilt_index_records:
  assumes rb: "index_rebuild_for_segment L F fs segp idxp decryptor (Some (fopen_w s)) ren = (True, fs')"
    and seg: "fs segp = Some buf" "length buf < 2 ^ 64"
    and md: "segment_scan_path L (Some buf) decryptor None () = (Inr (header, footer, length buf), ())"
  obtains frames r where "segment_scan_path L (Some buf) decryptor (Some collect_frames) [] = (Inr r, frames)"
    and "index_open_read (fs' idxp) (Some buf) = Inr (length frames)"
    and "\<And>j. j < length frames \<Longrightarrow> index_pread_frame (the (fs' idxp)) j =
       Some (index_frame_of F header (fst (frames ! j)) (snd (frames ! j)))"
proof -
  obtain frames r off where sc: "segment_scan_path L (Some buf) decryptor (Some collect_frames) [] = (Inr r, frames)"
    and ct: "contiguous (length buf) off (spans frames)"
    and rh: "segment_read_path_header buf = Some (header, off, length buf)"
    and f: "fs' idxp = Some (index_file (sh_segment_seq header) (sh_flags header)
       (map (\<lambda>(fr, ch). index_frame_of F header fr ch) frames) (of_nat (length buf)))"
    using rebuild_file [OF rb seg md] by metis
  let ?ixs = "map (\<lambda>(fr, ch). index_frame_of F header fr ch) frames"
  have op: "index_open_read (fs' idxp) (Some buf) = Inr (length frames)"
    using index_open_read_table [OF table_ok_frames, of buf off F header frames header] ct rh seg(2)
    unfolding f span_frames by simp
  have "index_pread_frame (the (fs' idxp)) j = Some (index_frame_of F header (fst (frames ! j)) (snd (frames ! j)))"
    if "j < length frames" for j
  proof -
    have "index_pread_frame (the (fs' idxp)) j = Some (?ixs ! j)"
      unfolding f option.sel index_file_def Let_def append_assoc
      using that by (intro pread_table [OF length_index_header table_ok_frames]) simp
    with that show ?thesis by (simp add: case_prod_beta)
  qed
  with sc op show thesis by (rule that)
qed

text \<open>
  C9. An index that \<^verbatim>\<open>index_rebuild_for_segment\<close> reports as built, for a segment whose whole
  file is committed, is accepted by the reader: it holds one record per frame the sequential
  scan delivers, and record \<^verbatim>\<open>j\<close> read back is the summary of frame \<^verbatim>\<open>j\<close>, whatever the script of
  write outcomes was.
\<close>

theorem rebuilt_index_accepted:
  assumes rb: "index_rebuild_for_segment L F fs segp idxp decryptor (Some (fopen_w s)) ren = (True, fs')"
    and seg: "fs segp = Some buf" "length buf < 2 ^ 64"
    and md: "segment_scan_path L (Some buf) decryptor None () = (Inr (header, footer, length buf), ())"
  shows "\<exists>frames r. segment_scan_path L (Some buf) decryptor (Some collect_frames) [] = (Inr r, frames) \<and>
    index_open_read (fs' idxp) (Some buf) = Inr (length frames) \<and>
    (\<forall>j < length frames. index_read_frame (fs' idxp) (Some buf) j =
       Some (index_frame_of F header (fst (frames ! j)) (snd (frames ! j))))"
proof -
  obtain frames r where "segment_scan_path L (Some buf) decryptor (Some collect_frames) [] = (Inr r, frames)"
    "index_open_read (fs' idxp) (Some buf) = Inr (length frames)"
    "\<And>j. j < length frames \<Longrightarrow> index_pread_frame (the (fs' idxp)) j =
       Some (index_frame_of F header (fst (frames ! j)) (snd (frames ! j)))"
    using rebuilt_index_records [OF assms] by blast
  then show ?thesis by (intro exI [of _ frames] exI [of _ r]) (simp add: index_read_frame_def)
qed

lemma store_parts_healthy:
  "wscript fp = [] \<Longrightarrow> store_parts bs (fp, False) = (fp\<lparr>contents := contents fp @ concat bs\<rparr>, False)"
  by (induction bs arbitrary: fp) (simp_all add: fwrite_script)

lemma run_append_healthy:
  "wscript (iw_fp w) = [] \<Longrightarrow> \<not> iw_ferror w \<Longrightarrow>
   \<exists>w'. run_cb (append_index_frame_cb F) h fs w = (0, w') \<and> wscript (iw_fp w') = []"
  by (induction fs arbitrary: w)
    (auto simp: append_index_frame_cb_def index_writer_append_def write_index_frame_def store_parts_healthy)

lemma rebuild_healthy:
  assumes md: "segment_scan_path L (Some buf) decryptor None () = (Inr (header, footer, ce), ())"
    and sc: "segment_scan_path L (Some buf) decryptor (Some collect_frames) [] = (Inr r, frames)"
    and seg: "fs segp = Some buf" "length buf < 2 ^ 64"
  shows "\<exists>fs'. index_rebuild_for_segment L F fs segp idxp decryptor (Some (fopen_w [])) True = (True, fs')"
proof -
  let ?tmp = "snprintf_str 512 (idxp @ ''.tmp'')"
  let ?w = "\<lparr>iw_fp = \<lparr>contents = index_header (sh_segment_seq header) (sh_flags header), wscript = []\<rparr>,
    iw_ferror = False, iw_path = ?tmp, iw_record_count = 0\<rparr>"
  obtain h1 f1 e1 where r: "r = (h1, f1, e1)" by (cases r)
  have wo: "index_writer_open (Some (fopen_w [])) ?tmp (sh_segment_seq header) (sh_flags header) = Some ?w"
    by (simp add: index_writer_open_def fopen_w_def fwrite_script)
  obtain fs0 where two: "segment_scan_path L (Some buf) decryptor (Some (append_index_frame_cb F)) ?w =
        (case run_cb (append_index_frame_cb F) h1 fs0 ?w of
           (rv, c') \<Rightarrow> if rv \<noteq> 0 then (Inl (ScanCallback rv), c') else (Inr (h1, f1, e1), c'))"
    by (rule scan_path_frames [OF sc [unfolded r] seg(2), where cb' = "append_index_frame_cb F"]) blast
  obtain w' where w': "run_cb (append_index_frame_cb F) h1 fs0 ?w = (0, w')" "wscript (iw_fp w') = []"
    using run_append_healthy [of ?w F h1 fs0] by auto
  have "fst (index_writer_close w' (of_nat ce))"
    using w'(2) by (simp add: index_writer_close_def fwrite_script index_footer_def)
  then show ?thesis
    unfolding index_rebuild_for_segment_def Let_def seg(1) md sum.case prod.case wo option.case two w'(1)
    by (auto split: prod.splits)
qed

subsection \<open>A concrete index\<close>

definition demo_flatcc :: flatcc where
  "demo_flatcc =
     \<lparr>journal_Chunk_entries = (\<lambda>bs. [\<lparr>ce_realtime_ts = 1000 + ucast (hd bs), ce_monotonic_ts = ucast (hd bs),
        ce_priority = 6, ce_unit = Some [0x73]\<rparr>]),
      journal_DefaultChunk_entries = (\<lambda>bs. [])\<rparr>"

lemma demo_file_contents: "contents (demo_file enc) = contents (fst (demo_body enc)) @ footer_buf demo_footer"
  using demo_file_ok by (rule segment_write_footer_ok)

lemma demo_file_stop:
  "segment_scan_loop env (contents (fst (demo_body enc)) @ footer_buf demo_footer)
     (length (contents (fst (demo_body enc)))) i c =
   (Inr (demo_footer\<lparr>ft_present := True\<rparr>, length (contents (demo_file enc))), c)"
  using footer_at_written [of demo_footer "[]"]
  by (subst scan_at_footer [of _ _ "demo_footer\<lparr>ft_present := True\<rparr>"]) (simp_all add: demo_file_contents)

lemma demo_file_nonempty: "contents (demo_file enc) \<noteq> []"
  using demo_file_contents [of enc] length_footer_buf [of demo_footer]
  by (metis append_is_Nil_conv list.size(3) zero_neq_numeral)

definition demo_frame_infos :: "bool \<Rightarrow> SegmentFrameInfo list" where
  "demo_frame_infos enc = frame_list (length (contents (fst (demo_head enc)))) (trailer_len (demo_enc enc)) demo_frames"

lemma demo_file_scans:
  "segment_scan_path demo_lib (Some (contents (demo_file enc))) (Some 2) None () =
     (Inr (stored_header (demo_header enc) 0, demo_footer\<lparr>ft_present := True\<rparr>, length (contents (demo_file enc))), ())"
  "segment_scan_path demo_lib (Some (contents (demo_file enc))) (Some 2) (Some collect_frames) [] =
     (Inr (stored_header (demo_header enc) 0, demo_footer\<lparr>ft_present := True\<rparr>, length (contents (demo_file enc))),
      zip (demo_frame_infos enc) [replicate 50 1, replicate 50 2])"
proof -
  note w = demo_head_ok demo_body_ok(1) demo_can_decrypt demo_decodes
    demo_no_footer [of enc "footer_buf demo_footer"] demo_file_stop
  show "segment_scan_path demo_lib (Some (contents (demo_file enc))) (Some 2) None () =
     (Inr (stored_header (demo_header enc) 0, demo_footer\<lparr>ft_present := True\<rparr>, length (contents (demo_file enc))), ())"
    using scan_written_metadata [OF w, of "Some 2" "()"] demo_file_nonempty [of enc]
    by (simp add: segment_scan_path_def segment_scan_buffer_def demo_file_contents)
  show "segment_scan_path demo_lib (Some (contents (demo_file enc))) (Some 2) (Some collect_frames) [] =
     (Inr (stored_header (demo_header enc) 0, demo_footer\<lparr>ft_present := True\<rparr>, length (contents (demo_file enc))),
      zip (demo_frame_infos enc) [replicate 50 1, replicate 50 2])"
    using scan_written_stop [OF w, of collect_frames "[]"] demo_file_nonempty [of enc]
    by (simp add: segment_scan_path_def segment_scan_buffer_def demo_file_contents run_collect demo_frame_infos_def)
qed

lemma demo_file_length: "length (contents (demo_file enc)) < 2 ^ 64"
proof -
  have "length (contents (fst (demo_head enc))) \<le> 300"
    by (simp add: demo_head_def segment_write_header_def encrypted_def demo_header_def demo_enc_def
      write_seq_unscripted fopen_w_def demo_key_material demo_encryptor_def Let_def nonempty_def
      del: write_seq.simps split: prod.splits)
  then show ?thesis by (cases enc) (simp_all add: demo_file_contents demo_body_ok demo_stored_def)
qed

definition demo_fs :: files where
  "demo_fs = [''s.seg'' \<mapsto> contents (demo_file True)]"

definition demo_index :: files where
  "demo_index = snd (index_rebuild_for_segment demo_lib demo_flatcc demo_fs ''s.seg'' ''s.idx'' (Some 2)
     (Some (fopen_w [])) True)"

lemma demo_index_built:
  "index_rebuild_for_segment demo_lib demo_flatcc demo_fs ''s.seg'' ''s.idx'' (Some 2) (Some (fopen_w [])) True =
     (True, demo_index)"
  using rebuild_healthy [OF demo_file_scans(1,2) [of True] _ demo_file_length,
    where fs = demo_fs and segp = "''s.seg''" and F = demo_flatcc and idxp = "''s.idx''"]
  by (auto simp: demo_index_def demo_fs_def)

theorem rebuilt_index_accepted_witness:
  "index_open_read (demo_index ''s.idx'') (Some (contents (demo_file True))) = Inr 2 \<and>
   map_option ix_max_realtime_ts (index_read_frame (demo_index ''s.idx'') (Some (contents (demo_file True))) 1) = Some 1002"
proof -
  have fs: "demo_fs ''s.seg'' = Some (contents (demo_file True))" by (simp add: demo_fs_def)
  obtain frames r where sc: "segment_scan_path demo_lib (Some (contents (demo_file True))) (Some 2) (Some collect_frames) [] = (Inr r, frames)"
    and op: "index_open_read (demo_index ''s.idx'') (Some (contents (demo_file True))) = Inr (length frames)"
    and rd: "\<forall>j < length frames. index_read_frame (demo_index ''s.idx'') (Some (contents (demo_file True))) j =
       Some (index_frame_of demo_flatcc (stored_header (demo_header True) 0) (fst (frames ! j)) (snd (frames ! j)))"
    using rebuilt_index_accepted [OF demo_index_built fs demo_file_length demo_file_scans(1)] by blast
  have fr: "frames = zip (demo_frame_infos True) [replicate 50 1, replicate 50 2]"
    using sc demo_file_scans(2) [of True] by simp
  have l: "length frames = 2" and n: "snd (frames ! 1) = replicate 50 2"
    by (simp_all add: fr demo_frame_infos_def demo_frames_def)
  have "index_read_frame (demo_index ''s.idx'') (Some (contents (demo_file True))) 1 =
      Some (index_frame_of demo_flatcc (stored_header (demo_header True) 0) (fst (frames ! 1)) (replicate 50 2))"
    using rd l n by simp
  then show ?thesis
    using op l by (simp add: index_frame_of_def chunk_entries_def stored_header_def demo_header_def
        demo_flatcc_def index_add_entry_def empty_acc_def Let_def)
qed

subsection \<open>What a record promises\<close>

text \<open>
  C10. The record of a frame covers its chunk: every entry lies inside the record's realtime and
  monotonic bounds, and the service filter lets every unit of the chunk pass, also when more
  than four distinct units overflow the hash slots. The filter has no false negatives.
\<close>

theorem index_record_covers_chunk:
  assumes "e \<in> set (chunk_entries F header chunk)" and "f = index_frame_of F header frame chunk"
  shows "ix_min_realtime_ts f \<le> ce_realtime_ts e \<and> ce_realtime_ts e \<le> ix_max_realtime_ts f \<and>
    ix_min_monotonic_ts f \<le> ce_monotonic_ts e \<and> ce_monotonic_ts e \<le> ix_max_monotonic_ts f \<and>
    (\<forall>u. ce_unit e = Some u \<longrightarrow> index_frame_may_contain_service f u)"
  using index_frame_acc [of F header chunk] assms
  by (auto simp: acc_inv_def index_frame_of_def index_frame_may_contain_service_def Let_def dest: in_set_takeD)

theorem index_record_covers_chunk_witness:
  "index_frame_may_contain_service (index_frame_of demo_flatcc (demo_header False)
     \<lparr>fi_flags = 0, fi_stored_len = 1, fi_uncompressed_len = 1, fi_file_offset = 152, fi_frame_len = 21\<rparr> [7]) [0x73]"
  using index_record_covers_chunk [where F = demo_flatcc and header = "demo_header False" and chunk = "[7]"
      and e = "\<lparr>ce_realtime_ts = 1007, ce_monotonic_ts = 7, ce_priority = 6, ce_unit = Some [0x73]\<rparr>", OF _ refl]
  by (simp add: chunk_entries_def demo_header_def demo_flatcc_def)

subsection \<open>Acceptance is sound\<close>

text \<open>The records an index file holds.\<close>

definition index_frames :: "byte list \<Rightarrow> nat \<Rightarrow> IndexFrame list" where
  "index_frames file count = map (\<lambda>i. the (index_pread_frame file i)) [0..<count]"

lemma length_index_frames [simp]: "length (index_frames file count) = count"
  by (simp add: index_frames_def)

lemma nth_index_frames: "i < count \<Longrightarrow> index_frames file count ! i = the (index_pread_frame file i)"
  by (simp add: index_frames_def)

lemma validate_frames_sound:
  "index_validate_frames bs n count i off = Some e \<Longrightarrow> off \<le> n \<Longrightarrow> i \<le> count \<Longrightarrow>
   contiguous n off (map span (drop i (index_frames bs count))) \<and>
   (\<forall>j. i \<le> j \<and> j < count \<longrightarrow> index_pread_frame bs j \<noteq> None)"
proof (induction bs n count i off rule: index_validate_frames.induct)
  case (1 bs n count i off)
  show ?case
  proof (cases "i < count")
    case False
    with "1.prems" show ?thesis by auto
  next
    case True
    from "1.prems"(1) True obtain fr where fr: "index_pread_frame bs i = Some fr"
      and ok: "\<not> (ix_frame_len fr < 20 \<or> unat (ix_file_offset fr) \<noteq> off \<or> unat (ix_frame_len fr) > n - off)"
      and rest: "index_validate_frames bs n count (i + 1) (off + unat (ix_frame_len fr)) = Some e"
      by (subst (asm) index_validate_frames.simps) (auto split: option.splits if_splits)
    have le: "off + unat (ix_frame_len fr) \<le> n" using ok "1.prems"(2) by (metis le_diff_conv2 add.commute linorder_not_less)
    have dr: "drop i (index_frames bs count) = fr # drop (i + 1) (index_frames bs count)"
      using True fr by (simp add: Cons_nth_drop_Suc [symmetric] nth_index_frames)
    from "1.IH" [OF True fr ok rest le] True have
      ih: "contiguous n (off + unat (ix_frame_len fr)) (map span (drop (i + 1) (index_frames bs count)))"
      "\<forall>j. i + 1 \<le> j \<and> j < count \<longrightarrow> index_pread_frame bs j \<noteq> None" by simp_all
    have "index_pread_frame bs j \<noteq> None" if "i \<le> j" "j < count" for j
      using that ih(2) fr by (cases "j = i") auto
    moreover have "span fr = (off, unat (ix_frame_len fr))" "20 \<le> unat (ix_frame_len fr)"
      using ok by (simp_all add: span_def word_less_nat_alt)
    ultimately show ?thesis
      using ih(1) le by (simp add: dr)
  qed
qed

lemma index_open_read_sound:
  assumes "index_open_read (Some bs) (Some buf) = Inr count"
  obtains header off where "segment_read_path_header buf = Some (header, off, length buf)"
    and "contiguous (length buf) off (map span (index_frames bs count))"
    and "\<And>j. j < count \<Longrightarrow> index_pread_frame bs j \<noteq> None"
    and "sh_segment_seq header = read_u64_le (drop 12 bs)" "sh_flags header = read_u32_le (drop 20 bs)"
proof -
  from assms obtain hf ce where v: "index_validate_segment bs count (read_u64_le (drop 12 bs))
      (read_u32_le (drop 20 bs)) hf ce (Some buf) = Inr ()"
    by (auto simp: index_open_read_def Let_def split: if_splits sum.splits)
  then obtain header off sz e where h: "segment_read_path_header buf = Some (header, off, sz)"
    and m: "sh_segment_seq header = read_u64_le (drop 12 bs)" "sh_flags header = read_u32_le (drop 20 bs)"
    and vf: "index_validate_frames bs sz count 0 off = Some e"
    by (auto simp: index_validate_segment_def split: option.splits if_splits)
  from h have "sz = length buf" "off \<le> length buf"
    by (auto simp: segment_read_path_header_def read_metadata_def Let_def
        dest: segment_parse_header_bounds split: option.splits if_splits)
  with validate_frames_sound [OF vf] h m show thesis
    by (intro that [of header off]) auto
qed

lemma contiguous_sorted:
  "contiguous n off fs \<Longrightarrow> i < j \<Longrightarrow> j < length fs \<Longrightarrow> fst (fs ! i) + 20 \<le> fst (fs ! j)"
proof (induction n off fs arbitrary: i j rule: contiguous.induct)
  case (1 n off)
  then show ?case by simp
next
  case (2 n off o' len fs)
  have first: "off + len \<le> fst (fs ! k)" if "k < length fs" "contiguous n (off + len) fs" for k
    using that
  proof (induction k arbitrary: )
    case 0
    then show ?case by (cases fs) auto
  next
    case (Suc k)
    then show ?case using "2.IH" [of k "Suc k"] by simp
  qed
  show ?case
  proof (cases i)
    case 0
    with 2 first [of "j - 1"] show ?thesis by (cases j) auto
  next
    case (Suc i')
    with 2 show ?thesis by (cases j) auto
  qed
qed

subsection \<open>Binary search\<close>

lemma index_lower_bound_correct:
  "\<forall>i < n. \<exists>fr. index_pread_frame bs i = Some fr \<and> key fr = k i \<Longrightarrow>
   \<forall>i j. i \<le> j \<and> j < n \<longrightarrow> k i \<le> k j \<Longrightarrow>
   lo \<le> hi \<Longrightarrow> hi \<le> n \<Longrightarrow> \<forall>i < lo. k i < usec \<Longrightarrow> \<forall>i. hi \<le> i \<and> i < n \<longrightarrow> usec \<le> k i \<Longrightarrow>
   \<exists>r \<le> n. index_lower_bound key usec bs lo hi = Some r \<and>
     (\<forall>i < r. k i < usec) \<and> (\<forall>i. r \<le> i \<and> i < n \<longrightarrow> usec \<le> k i)"
proof (induction key usec bs lo hi rule: index_lower_bound.induct)
  case (1 key usec bs lo hi)
  show ?case
  proof (cases "lo < hi")
    case False
    with "1.prems" show ?thesis by (subst index_lower_bound.simps) auto
  next
    case True
    define mid where "mid = lo + (hi - lo) div 2"
    have mid: "lo \<le> mid" "mid < hi" "mid < n" "mid + 1 \<le> hi" "mid \<le> n" "lo \<le> mid + 1"
      using True "1.prems"(4) by (simp_all add: mid_def)
    obtain fr where fr: "index_pread_frame bs mid = Some fr" "key fr = k mid" using "1.prems"(1) mid by blast
    show ?thesis
    proof (cases "key fr < usec")
      case lt: True
      have low: "\<forall>i < mid + 1. k i < usec"
      proof (intro allI impI)
        fix i assume "i < mid + 1"
        then have "k i \<le> k mid" using "1.prems"(2) mid(3) by simp
        with lt fr(2) show "k i < usec" by simp
      qed
      show ?thesis
        using "1.IH"(1) [OF True mid_def fr(1) lt "1.prems"(1,2) mid(4) "1.prems"(4) low "1.prems"(6)] True fr lt
        by (subst index_lower_bound.simps) (simp add: mid_def)
    next
      case ge: False
      have high: "\<forall>i. mid \<le> i \<and> i < n \<longrightarrow> usec \<le> k i"
      proof (intro allI impI)
        fix i assume "mid \<le> i \<and> i < n"
        then have "k mid \<le> k i" using "1.prems"(2) by blast
        with ge fr(2) show "usec \<le> k i" by simp
      qed
      show ?thesis
        using "1.IH"(2) [OF True mid_def fr(1) ge "1.prems"(1,2) mid(1,5) "1.prems"(5) high] True fr ge
        by (subst index_lower_bound.simps) (simp add: mid_def)
    qed
  qed
qed

lemma index_search:
  assumes "\<forall>i < n. \<exists>fr. index_pread_frame bs i = Some fr \<and> key fr = k i"
    and "\<forall>i j. i \<le> j \<and> j < n \<longrightarrow> k i \<le> k j"
  obtains r where "r \<le> n" and "index_lower_bound key usec bs 0 n = Some r"
    and "\<forall>i < r. k i < usec" and "\<forall>i. r \<le> i \<and> i < n \<longrightarrow> usec \<le> k i"
proof -
  have "\<forall>i < 0. k i < usec" "\<forall>i. n \<le> i \<and> i < n \<longrightarrow> usec \<le> k i" by auto
  from index_lower_bound_correct [OF assms le0 order_refl this] show thesis using that by blast
qed

lemma frames_readable:
  assumes "\<And>j. j < count \<Longrightarrow> index_pread_frame bs j \<noteq> None"
  shows "\<forall>i < count. \<exists>fr. index_pread_frame bs i = Some fr \<and> key fr = key (index_frames bs count ! i)"
proof (intro allI impI)
  fix i assume i: "i < count"
  then obtain f where "index_pread_frame bs i = Some f" using assms by blast
  with i show "\<exists>fr. index_pread_frame bs i = Some fr \<and> key fr = key (index_frames bs count ! i)"
    by (simp add: nth_index_frames)
qed

text \<open>
  The contract of a lookup function: it opens the index and searches the lower bound of its
  key. The lemma holds for every function that keeps the contract.
\<close>

locale index_lookup =
  fixes key :: "IndexFrame \<Rightarrow> u64"
    and find :: "byte list option \<Rightarrow> byte list option \<Rightarrow> u64 \<Rightarrow> find_result"
  assumes find_error: "index_open_read index segment = Inl e \<Longrightarrow> find index segment usec = FindError"
    and find_found: "index_open_read index segment = Inr count \<Longrightarrow>
      index_lower_bound key usec (the index) 0 count = Some lo \<Longrightarrow> lo < count \<Longrightarrow>
      index_pread_frame (the index) lo = Some frame \<Longrightarrow> find index segment usec = Found frame lo"
    and find_none: "index_open_read index segment = Inr count \<Longrightarrow>
      index_lower_bound key usec (the index) 0 count = Some count \<Longrightarrow> find index segment usec = NotFound"
begin

lemma finds_first:
  assumes op: "index_open_read (Some bs) (Some buf) = Inr count"
    and sorted: "\<forall>i j. i \<le> j \<and> j < count \<longrightarrow>
      key (index_frames bs count ! i) \<le> key (index_frames bs count ! j)"
  shows "case find (Some bs) (Some buf) usec of
      FindError \<Rightarrow> False
    | NotFound \<Rightarrow> (\<forall>i < count. key (index_frames bs count ! i) < usec)
    | Found frame r \<Rightarrow> r < count \<and> frame = index_frames bs count ! r \<and> usec \<le> key frame \<and>
        (\<forall>i < r. key (index_frames bs count ! i) < usec)"
proof -
  obtain header off where rd: "\<And>j. j < count \<Longrightarrow> index_pread_frame bs j \<noteq> None"
    using index_open_read_sound [OF op] by blast
  let ?k = "\<lambda>i. key (index_frames bs count ! i)"
  obtain r where r: "r \<le> count" "index_lower_bound key usec bs 0 count = Some r"
    "\<forall>i < r. ?k i < usec" "\<forall>i. r \<le> i \<and> i < count \<longrightarrow> usec \<le> ?k i"
    using index_search [OF frames_readable [OF rd] sorted, of usec] by blast
  show ?thesis
  proof (cases "r < count")
    case True
    with rd obtain f where f: "index_pread_frame bs r = Some f" by blast
    have "find (Some bs) (Some buf) usec = Found f r"
      by (rule find_found [OF op]) (use r True f in simp_all)
    moreover have "index_frames bs count ! r = f" using True f by (simp add: nth_index_frames)
    ultimately show ?thesis using True r(3,4) by auto
  next
    case False
    with r have "r = count" by simp
    then have "find (Some bs) (Some buf) usec = NotFound"
      using find_none [OF op] r(2) by simp
    with \<open>r = count\<close> r show ?thesis by simp
  qed
qed

end

interpretation by_realtime: index_lookup ix_max_realtime_ts index_find_realtime_frame
  by unfold_locales (simp_all add: index_find_realtime_frame_def)

interpretation by_monotonic: index_lookup ix_max_monotonic_ts index_find_monotonic_frame
  by unfold_locales (simp_all add: index_find_monotonic_frame_def)


lemma accepted_offsets:
  assumes op: "index_open_read (Some bs) (Some buf) = Inr count"
  shows "i < j \<Longrightarrow> j < count \<Longrightarrow>
    unat (ix_file_offset (index_frames bs count ! i)) < unat (ix_file_offset (index_frames bs count ! j))"
    and "j < count \<Longrightarrow> index_pread_frame bs j \<noteq> None"
proof -
  obtain header d where "segment_read_path_header buf = Some (header, d, length buf)"
    and ct: "contiguous (length buf) d (map span (index_frames bs count))"
    and rd: "\<And>j. j < count \<Longrightarrow> index_pread_frame bs j \<noteq> None"
    and "sh_segment_seq header = read_u64_le (drop 12 bs)" "sh_flags header = read_u32_le (drop 20 bs)"
    by (rule index_open_read_sound [OF op]) blast
  show "unat (ix_file_offset (index_frames bs count ! i)) < unat (ix_file_offset (index_frames bs count ! j))"
    if "i < j" "j < count"
    using contiguous_sorted [OF ct that(1)] that by (simp add: span_def)
  show "j < count \<Longrightarrow> index_pread_frame bs j \<noteq> None" by (rule rd)
qed

lemma offset_lower_bound:
  assumes op: "index_open_read (Some bs) (Some buf) = Inr count"
  obtains lo where "lo \<le> count" "index_lower_bound ix_file_offset off bs 0 count = Some lo"
    "\<forall>i < lo. ix_file_offset (index_frames bs count ! i) < off"
    "\<forall>i. lo \<le> i \<and> i < count \<longrightarrow> off \<le> ix_file_offset (index_frames bs count ! i)"
proof -
  note strict = accepted_offsets(1) [OF op]
  have sorted: "\<forall>i j. i \<le> j \<and> j < count \<longrightarrow>
      ix_file_offset (index_frames bs count ! i) \<le> ix_file_offset (index_frames bs count ! j)"
  proof (intro allI impI)
    fix i j assume "i \<le> j \<and> j < count"
    then show "ix_file_offset (index_frames bs count ! i) \<le> ix_file_offset (index_frames bs count ! j)"
      using strict [of i j] by (cases "i = j") (simp_all add: word_le_nat_alt)
  qed
  show thesis
    by (rule index_search [OF frames_readable [OF accepted_offsets(2) [OF op]] sorted, of off])
      (assumption | rule that)+
qed

text \<open>
  Offset lookup needs no assumption on the clock: on any accepted index
  \<^verbatim>\<open>index_find_offset_frame\<close> finds the frame with the given file offset if there is one, at
  its position, and fails if there is none.
\<close>

lemma index_find_offset_exact:
  assumes op: "index_open_read (Some bs) (Some buf) = Inr count"
  shows "index_find_offset_frame (Some bs) (Some buf) off = Found frame r \<longleftrightarrow>
    r < count \<and> frame = index_frames bs count ! r \<and> ix_file_offset frame = off"
proof -
  let ?k = "\<lambda>i. ix_file_offset (index_frames bs count ! i)"
  obtain lo where lo: "lo \<le> count" "index_lower_bound ix_file_offset off bs 0 count = Some lo"
    "\<forall>i < lo. ?k i < off" "\<forall>i. lo \<le> i \<and> i < count \<longrightarrow> off \<le> ?k i"
    using offset_lower_bound [OF op] by blast
  have find: "index_find_offset_frame (Some bs) (Some buf) off =
      (if lo < count \<and> ?k lo = off then Found (index_frames bs count ! lo) lo else FindError)"
  proof (cases "lo < count")
    case True
    with accepted_offsets(2) [OF op] obtain f where f: "index_pread_frame bs lo = Some f" by blast
    then have "index_frames bs count ! lo = f" using True by (simp add: nth_index_frames)
    with True f show ?thesis by (simp add: index_find_offset_frame_def op lo(2))
  next
    case False
    then show ?thesis by (simp add: index_find_offset_frame_def op lo(2))
  qed
  have here: "lo = r" if "r < count" "?k r = off"
  proof (cases r lo rule: linorder_cases)
    case less
    with lo(3) that have "off < off" by blast
    then show ?thesis by simp
  next
    case greater
    with accepted_offsets(1) [OF op, of lo r] that have "?k lo < off" by (simp add: word_less_nat_alt)
    moreover have "off \<le> ?k lo" using lo(4) greater that(1) by simp
    ultimately show ?thesis by simp
  qed simp
  then show ?thesis unfolding find by (auto split: if_splits)
qed

lemma index_file_split:
  assumes "table_ok ixs"
  obtains body ft where "index_file sq fl ixs ce = body @ ft" and "length ft = 28"
    and "length body = 24 + length ixs * 83" and "take 8 ft = RECORDER_INDEX_FOOTER_MAGIC"
    and "read_u64_le (drop 8 ft) = of_nat (length ixs)" and "read_u32_le (drop 24 ft) = recorder_crc32 body"
proof -
  let ?body = "index_header sq fl @ concat (map index_record ixs)"
  let ?ft = "RECORDER_INDEX_FOOTER_MAGIC @ write_u64_le (of_nat (length ixs)) @ write_u64_le ce @
    write_u32_le (recorder_crc32 ?body)"
  have "length (concat (map index_record ixs)) = length ixs * 83"
    using assms unfolding table_ok_def by (rule ixrec.length_table)
  then show thesis
    by (intro that [of ?body ?ft]) (simp_all only: index_file_def Let_def append_assoc, simp_all)
qed

text \<open>
  C13. Damage to an index is detected: changing any one byte of the header or of the records of
  a closed index makes the reader refuse it, for any segment.
\<close>

theorem index_damage_detected:
  assumes ok: "table_ok ixs" "length ixs < 2 ^ 64"
    and bs: "bs = index_file sq fl ixs ce" and i: "i < length bs - 28" "y \<noteq> bs ! i"
  shows "\<exists>e. index_open_read (Some (bs[i := y])) segment = Inl e"
proof (rule ccontr)
  assume "\<nexists>e. index_open_read (Some (bs[i := y])) segment = Inl e"
  then obtain count where acc: "index_open_read (Some (bs[i := y])) segment = Inr count"
    by (cases "index_open_read (Some (bs[i := y])) segment") auto
  obtain body ft where b: "bs = body @ ft" "length ft = 28" "length body = 24 + length ixs * 83"
    "take 8 ft = RECORDER_INDEX_FOOTER_MAGIC" "read_u64_le (drop 8 ft) = of_nat (length ixs)"
    "read_u32_le (drop 24 ft) = recorder_crc32 body"
    using index_file_split [OF ok(1)] unfolding bs by metis
  have ib: "i < length body" using i b by simp
  have upd: "bs[i := y] = body[i := y] @ ft" using ib by (simp add: b(1) list_update_append)
  have k: "unat (of_nat (length ixs) :: u64) = length ixs" using ok(2) by (simp add: of_nat_inject_le)
  have crc: "recorder_crc32 (body[i := y]) = recorder_crc32 body"
    using acc b k unfolding upd index_open_read_def Let_def
    by (auto split: if_splits)
  have "body = take i body @ body ! i # drop (Suc i) body" using ib by (rule id_take_nth_drop)
  moreover have "body[i := y] = take i body @ y # drop (Suc i) body" using ib by (simp add: upd_conv_take_nth_drop)
  ultimately have "body ! i = y" using crc crc32_one_byte by metis
  with i ib show False by (simp add: b(1) nth_append)
qed


subsection \<open>Witnesses on the rebuilt index\<close>

definition demo_records :: "IndexFrame list" where
  "demo_records = map (\<lambda>(fr, ch). index_frame_of demo_flatcc (stored_header (demo_header True) 0) fr ch)
     (zip (demo_frame_infos True) [replicate 50 1, replicate 50 2])"

definition demo_index_bytes :: "byte list" where
  "demo_index_bytes = index_file 3 8 demo_records (of_nat (length (contents (demo_file True))))"

lemma demo_segment_in_fs: "demo_fs ''s.seg'' = Some (contents (demo_file True))"
  by (simp add: demo_fs_def)

lemma demo_index_eq:
  "demo_index ''s.idx'' = Some demo_index_bytes"
  "index_open_read (Some demo_index_bytes) (Some (contents (demo_file True))) = Inr 2"
proof -
  obtain frames r off where sc: "segment_scan_path demo_lib (Some (contents (demo_file True))) (Some 2) (Some collect_frames) [] = (Inr r, frames)"
    and ct: "contiguous (length (contents (demo_file True))) off (spans frames)"
    and rh: "segment_read_path_header (contents (demo_file True)) = Some (stored_header (demo_header True) 0, off, length (contents (demo_file True)))"
    and f: "demo_index ''s.idx'' = Some (index_file (sh_segment_seq (stored_header (demo_header True) 0))
       (sh_flags (stored_header (demo_header True) 0))
       (map (\<lambda>(fr, ch). index_frame_of demo_flatcc (stored_header (demo_header True) 0) fr ch) frames)
       (of_nat (length (contents (demo_file True)))))"
    using rebuild_file [OF demo_index_built demo_segment_in_fs demo_file_length demo_file_scans(1)] by blast
  have fr: "frames = zip (demo_frame_infos True) [replicate 50 1, replicate 50 2]"
    using sc demo_file_scans(2) [of True] by simp
  have sq: "sh_segment_seq (stored_header (demo_header True) 0) = 3" "sh_flags (stored_header (demo_header True) 0) = 8"
    by (simp_all add: stored_header_def demo_header_def)
  have rec: "map (\<lambda>(fr, ch). index_frame_of demo_flatcc (stored_header (demo_header True) 0) fr ch) frames = demo_records"
    by (simp add: demo_records_def fr)
  show "demo_index ''s.idx'' = Some demo_index_bytes"
    using f unfolding sq rec demo_index_bytes_def .
  have "length demo_records = 2" by (simp add: demo_records_def demo_frame_infos_def demo_frames_def)
  moreover have "table_ok demo_records" unfolding demo_records_def by (rule table_ok_frames)
  moreover have "contiguous (length (contents (demo_file True))) off (map span demo_records)"
    using ct unfolding rec [symmetric] span_frames .
  ultimately show "index_open_read (Some demo_index_bytes) (Some (contents (demo_file True))) = Inr 2"
    using index_open_read_table [OF _ _ demo_file_length rh] unfolding sq demo_index_bytes_def by simp
qed

lemma demo_records_ok: "table_ok demo_records" "length demo_records = 2"
  unfolding demo_records_def by (rule table_ok_frames) (simp add: demo_frame_infos_def demo_frames_def)

lemma demo_index_frames: "index_frames demo_index_bytes 2 = demo_records"
proof (rule nth_equalityI)
  show "length (index_frames demo_index_bytes 2) = length demo_records" by (simp add: demo_records_ok)
  fix i assume "i < length (index_frames demo_index_bytes 2)"
  then have i: "i < 2" by simp
  have "index_pread_frame demo_index_bytes i = Some (demo_records ! i)"
    unfolding demo_index_bytes_def index_file_def Let_def append_assoc
    using i by (intro pread_table [OF length_index_header demo_records_ok(1)]) (simp add: demo_records_ok)
  with i show "index_frames demo_index_bytes 2 ! i = demo_records ! i" by (simp add: nth_index_frames)
qed

lemma demo_records_values:
  "map ix_max_realtime_ts demo_records = [1001, 1002]"
  by (simp add: demo_records_def demo_frame_infos_def demo_frames_def index_frame_of_def chunk_entries_def
      stored_header_def demo_header_def demo_flatcc_def index_add_entry_def empty_acc_def Let_def)


theorem index_damage_detected_witness:
  "\<exists>e. index_open_read (Some (demo_index_bytes[0 := 0])) (Some (contents (demo_file True))) = Inl e"
proof -
  have "demo_index_bytes ! 0 \<noteq> 0"
    by (simp add: demo_index_bytes_def index_file_def Let_def index_header_def RECORDER_INDEX_MAGIC_def str_bytes_def)
  moreover have "0 < length demo_index_bytes - 28"
    by (simp add: demo_index_bytes_def index_file_def Let_def)
  ultimately show ?thesis
    using index_damage_detected [OF demo_records_ok(1) _ demo_index_bytes_def, of 0 0] demo_records_ok(2) by simp
qed

end
