(* ===== verification/Recovery.thy ===== *)
theory Recovery
  imports Boots Index_Props
begin

text \<open>
  Startup recovery of \<^verbatim>\<open>src/recorder.c\<close>: leftover temporary files are removed
  (\<^verbatim>\<open>cleanup_segment_dir_cb\<close>), then every segment file is scanned, dropped when it has no valid
  header, cut back to its committed end, and given an index when it was closed
  (\<^verbatim>\<open>recover_segment_dir_cb\<close>, \<^verbatim>\<open>recover_store\<close>). Directory listings are taken when the
  directory is opened.
\<close>

definition ends_with :: "string \<Rightarrow> string \<Rightarrow> bool" where
  "ends_with s suf \<longleftrightarrow> length suf \<le> length s \<and> drop (length s - length suf) s = suf"

definition cleanup_name :: "string \<Rightarrow> string \<Rightarrow> world \<times> bool \<Rightarrow> world \<times> bool" where
  "cleanup_name dir_path name s =
     (case s of (w, changed) \<Rightarrow>
        if length name > 8 \<and> (ends_with name ''.seg.tmp'' \<or> ends_with name ''.idx.tmp'')
        then (case join_path_component 512 dir_path name of
                None \<Rightarrow> (w, changed)
              | Some path \<Rightarrow> (case unlink path w of (ok, w') \<Rightarrow> (w', changed \<or> ok)))
        else (w, changed))"

definition sync_if_changed :: "string \<Rightarrow> world \<times> bool \<Rightarrow> world" where
  "sync_if_changed dir_path s =
     (case s of (w, changed) \<Rightarrow> if changed then snd (fsync_dir_path dir_path w) else w)"

definition cleanup_segment_dir_cb :: "string \<Rightarrow> world \<times> unit \<Rightarrow> world \<times> unit" where
  "cleanup_segment_dir_cb dir_name s =
     (case build_segment_dir (fst s) PATH_MAX dir_name of
        None \<Rightarrow> s
      | Some dir_path \<Rightarrow>
          (sync_if_changed dir_path
             (fold (cleanup_name dir_path) (readdir_files dir_path (fst s)) (fst s, False)), ()))"

text \<open>An empty or unreadable segment goes, its index first.\<close>

definition drop_segment :: "string \<Rightarrow> u64 \<Rightarrow> string \<Rightarrow> world \<times> bool \<Rightarrow> world \<times> bool" where
  "drop_segment dir_name sq path s =
     (case s of (w, changed) \<Rightarrow>
        let w1 = (case build_index_path w 512 dir_name sq of
                    None \<Rightarrow> w
                  | Some idx_path \<Rightarrow> snd (unlink idx_path w))
        in case unlink path w1 of (ok, w2) \<Rightarrow> (w2, changed \<or> ok))"

text \<open>The index writer of the index component, run on the file system.\<close>

definition store_file :: "string \<Rightarrow> byte list option \<Rightarrow> world \<Rightarrow> world" where
  "store_file path content w =
     (case content of
        None \<Rightarrow> remove_file path w
      | Some d \<Rightarrow> if read_file path w = Some d then w else put_file path d w)"

definition rebuild_index :: "lib \<Rightarrow> flatcc \<Rightarrow> string \<Rightarrow> string \<Rightarrow> world \<Rightarrow> bool \<times> world" where
  "rebuild_index L F segment_path index_path w =
     (case fault w of (open_failed, w1) \<Rightarrow>
      case fault w1 of (write_failed, w2) \<Rightarrow>
      case fault w2 of (rename_failed, w3) \<Rightarrow>
        (case index_rebuild_for_segment L F (\<lambda>p. read_file p w3) segment_path index_path None
                (if open_failed then None else Some (fopen_w (if write_failed then [Some 0] else [])))
                (\<not> rename_failed) of
           (ok, fs) \<Rightarrow>
             (ok, store_file index_path (fs index_path)
                    (store_file (snprintf_str 512 (index_path @ ''.tmp''))
                       (fs (snprintf_str 512 (index_path @ ''.tmp''))) w3))))"

definition recover_segment :: "lib \<Rightarrow> flatcc \<Rightarrow> string \<Rightarrow> string \<Rightarrow> string \<Rightarrow> world \<times> bool \<Rightarrow> world \<times> bool" where
  "recover_segment L F dir_name dir_path name s =
     (case s of (w, changed) \<Rightarrow>
        if length name < 5 \<or> \<not> ends_with name ''.seg'' then (w, changed)
        else
          let sq = (case segment_seq_from_name name of None \<Rightarrow> 0 | Some v \<Rightarrow> v) in
          case join_path_component PATH_MAX dir_path name of
            None \<Rightarrow> (w, changed)
          | Some path \<Rightarrow>
              (case stat path w of
                 None \<Rightarrow> (w, changed)
               | Some st \<Rightarrow>
                   if f_data st = [] then drop_segment dir_name sq path (w, changed)
                   else
                     (case scan_metadata L path w of
                        None \<Rightarrow> drop_segment dir_name sq path (w, changed)
                      | Some (header, footer, committed_end) \<Rightarrow>
                          (case (if committed_end < length (f_data st) then truncate_path path committed_end w
                                 else (False, w)) of
                             (shortened, w1) \<Rightarrow>
                               (if ft_present footer
                                then (case build_index_path w1 512 dir_name (sh_segment_seq header) of
                                        None \<Rightarrow> w1
                                      | Some idx_path \<Rightarrow>
                                          if \<not> encrypted header \<and>
                                             index_get_frame_count (read_file idx_path w1) (read_file path w1) = None
                                          then snd (rebuild_index L F path idx_path w1) else w1)
                                else w1, changed \<or> shortened)))))"

definition recover_segment_dir_cb :: "lib \<Rightarrow> flatcc \<Rightarrow> string \<Rightarrow> world \<times> unit \<Rightarrow> world \<times> unit" where
  "recover_segment_dir_cb L F dir_name s =
     (case build_segment_dir (fst s) PATH_MAX dir_name of
        None \<Rightarrow> s
      | Some dir_path \<Rightarrow>
          (sync_if_changed dir_path
             (fold (recover_segment L F dir_name dir_path) (readdir_files dir_path (fst s)) (fst s, False)), ()))"

definition recover_store :: "lib \<Rightarrow> flatcc \<Rightarrow> world \<Rightarrow> world" where
  "recover_store L F w =
     fst (for_each_segment_dir (recover_segment_dir_cb L F)
            (for_each_segment_dir cleanup_segment_dir_cb (w, ())))"

subsection \<open>What recovery leaves alone\<close>

definition steady :: "world \<Rightarrow> world \<Rightarrow> bool" where
  "steady w w' \<longleftrightarrow> w_log_dir w' = w_log_dir w \<and> w_dirs w' = w_dirs w \<and> (w_faults w = [] \<longrightarrow> w_faults w' = [])"

lemma steady_refl [simp]: "steady w w" by (simp add: steady_def)

lemma steady_trans: "steady a b \<Longrightarrow> steady b c \<Longrightarrow> steady a c"
  by (simp add: steady_def)

lemma fault_none [simp]: "w_faults w = [] \<Longrightarrow> fault w = (False, w)"
  by (simp add: fault_def)

lemma fault_steady: "fault w = (b, w') \<Longrightarrow> steady w w' \<and> (\<forall>p. read_file p w' = read_file p w \<and> stat p w' = stat p w)"
  using fault_same [of w b w'] same_files_read [of w w']
  by (auto simp: steady_def same_files_def fault_def split: list.splits)

lemma unlink_steady: "unlink p w = (b, w') \<Longrightarrow> steady w w'"
proof -
  assume a: "unlink p w = (b, w')"
  obtain f w1 where f: "fault w = (f, w1)" by fastforce
  from conjunct1 [OF fault_steady [OF f]] a f show ?thesis
    by (auto simp: unlink_def steady_def split: if_splits)
qed

lemma truncate_effect:
  assumes "truncate_path p n w = (ok, w')"
  shows "steady w w'"
    and "read_file q w' = (if ok \<and> q = p then map_option (take n) (read_file p w) else read_file q w)"
    and "w_faults w = [] \<Longrightarrow> read_file p w \<noteq> None \<Longrightarrow> ok"
proof -
  obtain f w1 where f: "fault w = (f, w1)" by fastforce
  have s: "steady w w1" "\<And>p. stat p w1 = stat p w" "\<And>p. read_file p w1 = read_file p w"
    using fault_steady [OF f] by auto
  have eq: "(ok, w') = (case stat p w of None \<Rightarrow> (False, w1)
      | Some x \<Rightarrow> if f then (False, w1) else (True, put_file p (take n (f_data x)) w1))"
    using assms f s(2) by (simp add: truncate_path_def)
  then show "steady w w'" using s(1) by (auto simp: steady_def split: option.splits if_splits)
  show "read_file q w' = (if ok \<and> q = p then map_option (take n) (read_file p w) else read_file q w)"
    using eq s(3) by (auto simp: read_file_def [of p w] split: option.splits if_splits)
  show ok if "w_faults w = []" "read_file p w \<noteq> None"
    using that eq f by (auto simp: read_file_def split: option.splits)
qed

lemma fsync_steady:
  assumes "fsync_dir_path p w = (b, w')"
  shows "steady w w' \<and> (\<forall>q. read_file q w' = read_file q w)"
proof -
  obtain b1 w1 where f1: "fault w = (b1, w1)" by fastforce
  obtain b2 w2 where f2: "fault w1 = (b2, w2)" by fastforce
  from fault_steady [OF f1] fault_steady [OF f2] assms f1 f2 show ?thesis
    by (auto simp: fsync_dir_path_def steady_def split: if_splits)
qed

lemma sync_if_changed_steady:
  "steady w (sync_if_changed d (w, c)) \<and> (\<forall>q. read_file q (sync_if_changed d (w, c)) = read_file q w)"
  using fsync_steady [of d w] by (cases "fsync_dir_path d w") (simp add: sync_if_changed_def)

lemma store_file_effect:
  "read_file q (store_file p c w) = (if q = p then c else read_file q w) \<and> steady w (store_file p c w)"
  by (auto simp: store_file_def steady_def split: option.splits)

lemma rebuild_index_effect:
  assumes "rebuild_index L F sp ip w = (ok, w')"
    and "q \<noteq> ip" and "q \<noteq> snprintf_str 512 (ip @ ''.tmp'')"
  shows "read_file q w' = read_file q w \<and> steady w w'"
proof -
  obtain a w1 where f1: "fault w = (a, w1)" by fastforce
  obtain b w2 where f2: "fault w1 = (b, w2)" by fastforce
  obtain c w3 where f3: "fault w2 = (c, w3)" by fastforce
  have s3: "read_file q w3 = read_file q w" "steady w w3"
    using fault_steady [OF f1] fault_steady [OF f2] fault_steady [OF f3] by (auto simp: steady_def)
  from assms f1 f2 f3 show ?thesis
    by (auto simp: rebuild_index_def s3 store_file_effect split: prod.splits
        intro: steady_trans [OF s3(2)] steady_trans conjunct2 [OF store_file_effect])
qed


subsection \<open>The contents of a recovered segment file\<close>

definition scan_data :: "lib \<Rightarrow> byte list \<Rightarrow> (SegmentHeader \<times> SegmentFooter \<times> nat) option" where
  "scan_data L d =
     (if d = [] then None
      else case fst (segment_scan_buffer L d None (None :: unit segment_frame_cb option) ()) of
        Inl _ \<Rightarrow> None
      | Inr r \<Rightarrow> Some r)"

lemma scan_metadata_data: "scan_metadata L p w = Option.bind (read_file p w) (scan_data L)"
  by (cases "read_file p w")
    (simp_all add: scan_metadata_def scan_data_def segment_scan_path_def segment_scan_buffer_def)

lemma scan_data_take:
  assumes "scan_data L d = Some (h, f, e)"
  shows "e \<le> length d" and "scan_data L (take e d) = Some (h, f, e)"
proof -
  have "segment_scan_buffer L d None (None :: unit segment_frame_cb option) () = (Inr (h, f, e), ())"
    using assms by (cases "segment_scan_buffer L d None (None :: unit segment_frame_cb option) ()")
      (auto simp: scan_data_def split: if_splits sum.splits)
  from committed_scan_again [OF this] assms show "e \<le> length d" "scan_data L (take e d) = Some (h, f, e)"
    by (auto simp: scan_data_def split: if_splits)
qed

text \<open>
  A segment file after recovery: unchanged, gone if it had no valid header, or cut back to its
  committed end. A settled one is committed up to its last byte.
\<close>

definition recovered :: "lib \<Rightarrow> byte list option \<Rightarrow> byte list option \<Rightarrow> bool" where
  "recovered L old new \<longleftrightarrow>
     new = old \<or>
     (case old of
        None \<Rightarrow> False
      | Some d \<Rightarrow> (case scan_data L d of None \<Rightarrow> new = None | Some (h, f, e) \<Rightarrow> new = Some (take e d)))"

definition settled :: "lib \<Rightarrow> byte list option \<Rightarrow> bool" where
  "settled L c \<longleftrightarrow>
     (case c of
        None \<Rightarrow> True
      | Some d \<Rightarrow> (case scan_data L d of None \<Rightarrow> False | Some (h, f, e) \<Rightarrow> e = length d))"

lemma recovered_refl [simp]: "recovered L c c"
  by (simp add: recovered_def)

lemma recovered_trans: "recovered L a b \<Longrightarrow> recovered L b c \<Longrightarrow> recovered L a c"
  using scan_data_take by (fastforce simp: recovered_def split: option.splits prod.splits)

lemma settled_recovered: "settled L a \<Longrightarrow> recovered L a b \<Longrightarrow> settled L b"
  by (auto simp: recovered_def settled_def split: option.splits prod.splits)

lemma settled_take: "scan_data L d = Some (h, f, e) \<Longrightarrow> settled L (Some (take e d))"
  using scan_data_take by (fastforce simp: settled_def)

lemma ends_with_append: "ends_with s suf \<longleftrightarrow> (\<exists>p. s = p @ suf)"
  unfolding ends_with_def by (metis append_take_drop_id diff_diff_cancel diff_le_self drop_append length_append
      append_eq_conv_conj le_add2 diff_add_inverse2)

lemma ends_four: "ends_with s suf \<Longrightarrow> length suf = 4 \<Longrightarrow> drop (length s - 4) s = suf"
  by (simp add: ends_with_def)

lemma index_path_ends: "build_index_path w 512 d sq = Some ip \<Longrightarrow> ends_with ip ''.idx'' \<and> length ip \<le> 511"
  by (auto simp: build_index_path_def build_seq_path_def join_path_component_def ends_with_append Let_def
      split: option.splits if_splits)

lemma index_tmp_not_seg:
  assumes "ends_with ip ''.idx''" and "length ip \<le> 511" and "ends_with q ''.seg''"
  shows "q \<noteq> ip" and "q \<noteq> snprintf_str 512 (ip @ ''.tmp'')"
proof -
  have dq: "drop (length q - 4) q = ''.seg''" using ends_four [OF assms(3)] by simp
  obtain x where x: "ip = x @ ''.idx''" using assms(1) by (auto simp: ends_with_append)
  show "q \<noteq> ip" using dq x by auto
  have k: "snprintf_str 512 (ip @ ''.tmp'') = ip @ take (511 - length ip) ''.tmp''"
    using assms(2) by (simp add: snprintf_str_def)
  have "511 - length ip = 0 \<or> 511 - length ip = 1 \<or> 511 - length ip = 2 \<or> 511 - length ip = 3 \<or> 511 - length ip \<ge> 4"
    by linarith
  then show "q \<noteq> snprintf_str 512 (ip @ ''.tmp'')"
    unfolding k using dq x by (elim disjE) (auto simp: numeral_2_eq_2 numeral_3_eq_3)
qed


subsection \<open>One step of recovery\<close>

lemma unlink_no_fault: "w_faults w = [] \<Longrightarrow> unlink p w = (b, w') \<Longrightarrow> read_file p w' = None"
  by (auto simp: unlink_def read_none split: if_splits)

lemma drop_segment_effect:
  assumes d: "drop_segment dn sq path (w, c) = (w', c')" and q: "ends_with q ''.seg''"
  shows "steady w w'"
    and "read_file q w' = read_file q w \<or> q = path \<and> read_file q w' = None"
    and "w_faults w = [] \<Longrightarrow> read_file path w' = None"
proof -
  obtain w1 where w1: "steady w w1" "read_file q w1 = read_file q w" and u: "unlink path w1 = (c' \<and> \<not> c \<or> fst (unlink path w1), w')"
  proof (cases "build_index_path w 512 dn sq")
    case None
    then show ?thesis
      using that [of w] d by (cases "unlink path w") (auto simp: drop_segment_def)
  next
    case (Some ip)
    obtain b w1 where ip: "unlink ip w = (b, w1)" by fastforce
    have "q \<noteq> ip" using index_path_ends [OF Some] index_tmp_not_seg q by blast
    then show ?thesis
      using that [of w1] d Some ip unlink_steady [OF ip] unlink_effect [OF ip, of q]
      by (cases "unlink path w1") (auto simp: drop_segment_def)
  qed
  obtain b where b: "unlink path w1 = (b, w')" using u by metis
  show "steady w w'" using w1 unlink_steady [OF b] steady_trans by blast
  show "read_file q w' = read_file q w \<or> q = path \<and> read_file q w' = None"
    using unlink_effect [OF b, of q] w1 by auto
  show "read_file path w' = None" if "w_faults w = []"
    using unlink_no_fault [OF _ b] w1 that by (simp add: steady_def)
qed

lemma recover_segment_effect:
  assumes r: "recover_segment L F dn dp name (w, c) = (w', c')" and q: "ends_with q ''.seg''"
  shows "steady w w' \<and> recovered L (read_file q w) (read_file q w') \<and>
    (w_faults w = [] \<and> 5 \<le> length name \<and> ends_with name ''.seg'' \<and>
       join_path_component PATH_MAX dp name = Some q \<longrightarrow> settled L (read_file q w'))"
proof (cases "length name < 5 \<or> \<not> ends_with name ''.seg'' \<or> join_path_component PATH_MAX dp name = None")
  case True
  with r have "w' = w" unfolding recover_segment_def Let_def prod.case by (auto split: if_splits)
  with True show ?thesis by auto
next
  case False
  then obtain path where path: "join_path_component PATH_MAX dp name = Some path" and
    nm: "\<not> (length name < 5 \<or> \<not> ends_with name ''.seg'')" by blast
  let ?sq = "case segment_seq_from_name name of None \<Rightarrow> 0 | Some v \<Rightarrow> v"
  show ?thesis
  proof (cases "stat path w")
    case None
    with r path nm have "w' = w" by (simp add: recover_segment_def Let_def)
    with None path show ?thesis by (auto simp: settled_def read_file_def)
  next
    case (Some st)
    then have rd: "read_file path w = Some (f_data st)" by (simp add: read_file_def)
    have sm: "scan_metadata L path w = scan_data L (f_data st)" by (simp add: scan_metadata_data rd)
    show ?thesis
    proof (cases "scan_data L (f_data st)")
      case none: None
      with r path nm Some sm have d: "drop_segment dn ?sq path (w, c) = (w', c')"
        by (auto simp: recover_segment_def Let_def split: if_splits)
      note e = drop_segment_effect [OF d]
      from e(1) [OF q] e(2) [OF q] e(3) [OF q] rd none path show ?thesis
        by (auto simp: recovered_def settled_def)
    next
      case scanned: (Some x)
      obtain h f e where x: "x = (h, f, e)" by (cases x)
      have ne: "f_data st \<noteq> []" using scanned by (auto simp: scan_data_def)
      obtain b w1 where t: "(if e < length (f_data st) then truncate_path path e w else (False, w)) = (b, w1)"
        by fastforce
      have w': "w' = (if ft_present f
          then (case build_index_path w1 512 dn (sh_segment_seq h) of
                  None \<Rightarrow> w1
                | Some ip \<Rightarrow>
                    if \<not> encrypted h \<and> index_get_frame_count (read_file ip w1) (read_file path w1) = None
                    then snd (rebuild_index L F path ip w1) else w1)
          else w1)"
        using r nm path Some sm scanned x ne t by (simp add: recover_segment_def Let_def)
      have s1: "steady w w1" and
        r1: "read_file q w1 = (if b \<and> q = path then Some (take e (f_data st)) else read_file q w)" and
        b: "w_faults w = [] \<Longrightarrow> b \<or> e = length (f_data st)"
        using t truncate_effect [of path e w b w1] rd scan_data_take(1) [OF scanned [unfolded x]]
        by (auto split: if_splits)
      have "read_file q w' = read_file q w1 \<and> steady w1 w'"
      proof (cases "build_index_path w1 512 dn (sh_segment_seq h)")
        case (Some ip)
        note n = index_tmp_not_seg [OF conjunct1 [OF index_path_ends [OF Some]] conjunct2 [OF index_path_ends [OF Some]] q]
        show ?thesis
          using rebuild_index_effect [OF prod.collapse [symmetric] n] Some w' by auto
      qed (use w' in auto)
      with s1 r1 b rd scanned x path settled_take [of L "f_data st" h f e] show ?thesis
        by (auto simp: recovered_def settled_def intro: steady_trans)
    qed
  qed
qed


subsection \<open>Recovery of the whole store\<close>

lemma recover_names_effect:
  assumes "fold (recover_segment L F dn dp) names (w, c) = (w', c')" and q: "ends_with q ''.seg''"
  shows "steady w w' \<and> recovered L (read_file q w) (read_file q w') \<and>
    (w_faults w = [] \<and> (\<exists>name \<in> set names. 5 \<le> length name \<and> ends_with name ''.seg'' \<and>
       join_path_component PATH_MAX dp name = Some q) \<longrightarrow> settled L (read_file q w'))"
  using assms(1)
proof (induction names arbitrary: w c)
  case Nil
  then show ?case by simp
next
  case (Cons n names)
  obtain w1 c1 where r: "recover_segment L F dn dp n (w, c) = (w1, c1)" by fastforce
  note e1 = recover_segment_effect [OF r q]
  from Cons.prems r have "fold (recover_segment L F dn dp) names (w1, c1) = (w', c')" by simp
  note e2 = Cons.IH [OF this]
  show ?case
    using e1 e2 steady_trans [of w w1 w'] recovered_trans [of L "read_file q w" "read_file q w1"]
      settled_recovered [of L "read_file q w1" "read_file q w'"]
    by (auto simp: steady_def)
qed

lemma cleanup_names_effect:
  assumes "fold (cleanup_name dp) names (w, c) = (w', c')" and q: "ends_with q ''.seg''"
  shows "steady w w' \<and> read_file q w' = read_file q w"
  using assms(1)
proof (induction names arbitrary: w c)
  case Nil
  then show ?case by simp
next
  case (Cons n names)
  have "steady w (fst (cleanup_name dp n (w, c))) \<and> read_file q (fst (cleanup_name dp n (w, c))) = read_file q w"
  proof (cases "ends_with n ''.seg.tmp'' \<or> ends_with n ''.idx.tmp''")
    case True
    then obtain x where x: "n = x @ ''.tmp''" by (auto simp: ends_with_append)
    show ?thesis
    proof (cases "join_path_component 512 dp n")
      case (Some path)
      then have "path \<noteq> q" using x q by (auto simp: join_path_component_def ends_with_append split: if_splits)
      obtain b w1 where u: "unlink path w = (b, w1)" by fastforce
      with Some True \<open>path \<noteq> q\<close> unlink_steady [OF u] unlink_effect [OF u, of q] show ?thesis
        by (simp add: cleanup_name_def)
    qed (simp add: cleanup_name_def)
  qed (simp add: cleanup_name_def)
  with Cons.IH [of "fst (cleanup_name dp n (w, c))" "snd (cleanup_name dp n (w, c))"] Cons.prems steady_trans
  show ?case by fastforce
qed

lemma cleanup_dir_effect:
  assumes "ends_with q ''.seg''"
  shows "steady (fst s) (fst (cleanup_segment_dir_cb dn s)) \<and>
    read_file q (fst (cleanup_segment_dir_cb dn s)) = read_file q (fst s)"
proof (cases "build_segment_dir (fst s) PATH_MAX dn")
  case (Some dp)
  obtain w1 c1 where f: "fold (cleanup_name dp) (readdir_files dp (fst s)) (fst s, False) = (w1, c1)" by fastforce
  from cleanup_names_effect [OF f assms] sync_if_changed_steady [of w1 dp c1] steady_trans show ?thesis
    by (auto simp: cleanup_segment_dir_cb_def Some f)
qed (simp add: cleanup_segment_dir_cb_def)

lemma cleanup_store_effect:
  assumes "ends_with q ''.seg''"
  shows "steady (fst s) (fst (fold cleanup_segment_dir_cb ds s)) \<and>
    read_file q (fst (fold cleanup_segment_dir_cb ds s)) = read_file q (fst s)"
proof (induction ds arbitrary: s)
  case (Cons d ds)
  from cleanup_dir_effect [OF assms, of s d] Cons [of "cleanup_segment_dir_cb d s"] show ?case
    by (auto intro: steady_trans)
qed simp

lemma recover_dir_effect:
  assumes "ends_with q ''.seg''"
  shows "steady (fst s) (fst (recover_segment_dir_cb L F dn s)) \<and>
    recovered L (read_file q (fst s)) (read_file q (fst (recover_segment_dir_cb L F dn s))) \<and>
    (w_faults (fst s) = [] \<and> (\<exists>dp name. build_segment_dir (fst s) PATH_MAX dn = Some dp \<and>
       name \<in> set (readdir_files dp (fst s)) \<and> 5 \<le> length name \<and> ends_with name ''.seg'' \<and>
       join_path_component PATH_MAX dp name = Some q) \<longrightarrow>
     settled L (read_file q (fst (recover_segment_dir_cb L F dn s))))"
proof (cases "build_segment_dir (fst s) PATH_MAX dn")
  case (Some dp)
  obtain w1 c1 where f: "fold (recover_segment L F dn dp) (readdir_files dp (fst s)) (fst s, False) = (w1, c1)"
    by fastforce
  from recover_names_effect [OF f assms] sync_if_changed_steady [of w1 dp c1] steady_trans [of "fst s" w1]
  show ?thesis by (auto simp: recover_segment_dir_cb_def Some f)
qed (simp add: recover_segment_dir_cb_def)


definition segment_file_of :: "world \<Rightarrow> string \<Rightarrow> string \<Rightarrow> string \<Rightarrow> bool" where
  "segment_file_of w dn name q \<longleftrightarrow>
     5 \<le> length name \<and> ends_with name ''.seg'' \<and> CHR ''/'' \<notin> set name \<and>
     (case build_segment_dir w PATH_MAX dn of
        None \<Rightarrow> False
      | Some dp \<Rightarrow> join_path_component PATH_MAX dp name = Some q)"

lemma segment_file_of_steady: "steady w w' \<Longrightarrow> segment_file_of w' dn name q = segment_file_of w dn name q"
  by (simp add: segment_file_of_def steady_def build_segment_dir_def)

lemma segment_file_of_ends: "segment_file_of w dn name q \<Longrightarrow> ends_with q ''.seg''"
  by (auto simp: segment_file_of_def join_path_component_def ends_with_append split: option.splits if_splits)

lemma segment_file_listed:
  assumes "segment_file_of w dn name q" and "read_file q w \<noteq> None"
  shows "\<exists>dp. build_segment_dir w PATH_MAX dn = Some dp \<and> name \<in> set (readdir_files dp w) \<and>
    join_path_component PATH_MAX dp name = Some q"
proof -
  obtain dp where dp: "build_segment_dir w PATH_MAX dn = Some dp" "join_path_component PATH_MAX dp name = Some q"
    using assms(1) by (auto simp: segment_file_of_def split: option.splits)
  then have q: "q = dp @ ''/'' @ name" by (auto simp: join_path_component_def split: if_splits)
  have "q \<in> set (map fst (w_files w))"
    using assms(2) unfolding read_none stat_def by (simp add: map_of_eq_None_iff)
  moreover have "name \<noteq> []" using assms(1) by (auto simp: segment_file_of_def)
  ultimately have "name \<in> set (dir_entries dp (map fst (w_files w)))"
    using dir_entries_mem [of dp name] assms(1) q by (simp add: segment_file_of_def)
  with assms(1) dp show ?thesis
    by (auto simp: segment_file_of_def readdir_files_def)
qed

lemma recover_dirs_effect:
  assumes "ends_with q ''.seg''"
  shows "steady (fst s) (fst (fold (recover_segment_dir_cb L F) ds s)) \<and>
    recovered L (read_file q (fst s)) (read_file q (fst (fold (recover_segment_dir_cb L F) ds s))) \<and>
    (w_faults (fst s) = [] \<and> (\<exists>dn \<in> set ds. \<exists>name. segment_file_of (fst s) dn name q) \<longrightarrow>
       settled L (read_file q (fst (fold (recover_segment_dir_cb L F) ds s))))"
proof (induction ds arbitrary: s)
  case (Cons d ds)
  let ?s1 = "recover_segment_dir_cb L F d s"
  note e1 = recover_dir_effect [OF assms, of s L F d]
  note e2 = Cons [of ?s1]
  have st: "settled L (read_file q (fst ?s1))" if "w_faults (fst s) = []" "segment_file_of (fst s) d name q" for name
  proof (cases "read_file q (fst s) = None")
    case True
    with e1 show ?thesis by (auto simp: recovered_def settled_def)
  next
    case False
    from segment_file_listed [OF that(2) False] that e1 show ?thesis
      by (auto simp: segment_file_of_def)
  qed
  have st': "settled L (read_file q (fst (fold (recover_segment_dir_cb L F) (d # ds) s)))"
    if a: "w_faults (fst s) = []" "dn \<in> set (d # ds)" "segment_file_of (fst s) dn name q" for dn name
  proof (cases "dn = d")
    case True
    with st a e2 show ?thesis by (auto intro: settled_recovered)
  next
    case False
    with a e1 e2 segment_file_of_steady [of "fst s" "fst ?s1"] show ?thesis
      by (auto simp: steady_def)
  qed
  from e1 e2 have "steady (fst s) (fst (fold (recover_segment_dir_cb L F) (d # ds) s))"
    "recovered L (read_file q (fst s)) (read_file q (fst (fold (recover_segment_dir_cb L F) (d # ds) s)))"
    by (auto intro: steady_trans recovered_trans)
  with st' show ?case by blast
qed simp

lemma segment_dirs_steady: "steady w w' \<Longrightarrow> segment_dirs w' = segment_dirs w"
  by (simp add: segment_dirs_def readdir_dirs_def build_segment_dir_def steady_def)

lemma recover_store_effect:
  assumes "ends_with q ''.seg''"
  shows "steady w (recover_store L F w) \<and> recovered L (read_file q w) (read_file q (recover_store L F w)) \<and>
    (w_faults w = [] \<and> (\<exists>dn \<in> set (segment_dirs w). \<exists>name. segment_file_of w dn name q) \<longrightarrow>
       settled L (read_file q (recover_store L F w)))"
proof -
  let ?s = "fold cleanup_segment_dir_cb (segment_dirs w) (w, ())"
  have c: "steady w (fst ?s)" "read_file q (fst ?s) = read_file q w"
    using cleanup_store_effect [OF assms, of "(w, ())" "segment_dirs w"] by simp_all
  from recover_dirs_effect [OF assms, of ?s L F "segment_dirs w"] c segment_dirs_steady [OF c(1)]
    segment_file_of_steady [OF c(1)] steady_trans [OF c(1)]
  show ?thesis by (auto simp: recover_store_def for_each_segment_dir_def steady_def)
qed



text \<open>
  C21. When no system call fails, recovery leaves every segment file of every segment directory
  committed to its last byte: the metadata scan accepts it and its committed end is its size, so
  that a new recovery has nothing to cut.
\<close>

theorem recovery_settles_store:
  assumes "w_faults w = []" and "dn \<in> set (segment_dirs w)" and "segment_file_of w dn name q"
  shows "case read_file q (recover_store L F w) of
      None \<Rightarrow> True
    | Some d \<Rightarrow> (\<exists>header footer. scan_data L d = Some (header, footer, length d))"
  using recover_store_effect [OF segment_file_of_ends [OF assms(3)], of w L F] assms
  by (auto simp: settled_def split: option.splits)

theorem recovery_settles_store_witness:
  "read_file ''/l/p3/6.seg'' (recover_store demo_lib demo_flatcc demo_store) =
     Some (take (length (contents (fst (demo_body False)))) torn_plain)"
proof -
  have r: "read_file ''/l/p3/6.seg'' demo_store = Some torn_plain"
    by (simp add: read_file_def stat_def demo_store_def)
  have sc: "scan_data demo_lib torn_plain =
      Some (stored_header (demo_header False) 0, empty_footer, length (contents (fst (demo_body False))))"
    using demo_store_scan r by (simp add: scan_metadata_data)
  have e: "ends_with ''/l/p3/6.seg'' ''.seg''" by (simp add: ends_with_def)
  have d: "''p3'' \<in> set (segment_dirs demo_store)"
    using demo_world_scan(1) by (simp add: demo_store_def segment_dirs_def readdir_dirs_def build_segment_dir_def)
  have f: "segment_file_of demo_store ''p3'' ''6.seg'' ''/l/p3/6.seg''"
    by (simp add: segment_file_of_def ends_with_def build_segment_dir_def join_path_component_def demo_store_def demo_world_def)
  have "w_faults demo_store = []" by (simp add: demo_store_def demo_world_def)
  from recovery_settles_store [OF this d f, where L = demo_lib and F = demo_flatcc] recover_store_effect [OF e, of demo_store demo_lib demo_flatcc]
  show ?thesis using r sc by (auto simp: recovered_def torn_plain_def)
qed

end
