(* ===== verification/Retention.thy ===== *)
theory Retention
  imports Recorder_State Recovery "HOL-Library.Multiset" "HOL-Library.Sublist"
begin

text \<open>
  Retention of \<^verbatim>\<open>src/recorder.c\<close>: the size of the store, the list of closed segments, the order
  in which they may go, and the two policies that remove them: quota and age
  (\<^verbatim>\<open>retention_enforce\<close>) and free space for a more important entry
  (\<^verbatim>\<open>retention_reclaim_lower_priority\<close>). Free space as \<^verbatim>\<open>statvfs\<close> reports it is a function of
  the file system.
\<close>

record RetainedFile =
  rf_path :: string
  rf_dir_name :: string
  rf_min_priority :: u8
  rf_group_index :: int
  rf_segment_seq :: u64
  rf_size :: u64
  rf_modified_at :: int

subsection \<open>Size of the store\<close>

definition file_bytes :: "world \<Rightarrow> string option \<Rightarrow> u64" where
  "file_bytes w path =
     (case path of
        None \<Rightarrow> 0
      | Some p \<Rightarrow> (case stat p w of None \<Rightarrow> 0 | Some st \<Rightarrow> of_nat (length (f_data st))))"

definition count_store_bytes_cb :: "string \<Rightarrow> world \<times> u64 \<Rightarrow> world \<times> u64" where
  "count_store_bytes_cb dir_name s =
     (case s of (w, total_bytes) \<Rightarrow>
        (case build_segment_dir w PATH_MAX dir_name of
           None \<Rightarrow> (w, total_bytes)
         | Some dir_path \<Rightarrow>
             (w, fold (\<lambda>name t. t + file_bytes w (join_path_component PATH_MAX dir_path name))
                   (readdir_files dir_path w) total_bytes)))"

definition count_store_bytes :: "world \<Rightarrow> u64" where
  "count_store_bytes w =
     (let total_bytes = snd (for_each_segment_dir count_store_bytes_cb (w, 0)) in
      case build_log_path w PATH_MAX ''/state'' of
        None \<Rightarrow> total_bytes
      | Some state_dir \<Rightarrow>
          fold (\<lambda>name t. t + file_bytes w (build_log_path w PATH_MAX (''/state/'' @ name)))
            (readdir_files state_dir w) total_bytes)"

subsection \<open>Closed segments\<close>

definition group_of_dir :: "RecorderConfig \<Rightarrow> string \<Rightarrow> (u8 \<times> int) option" where
  "group_of_dir cfg dir_name =
     map_option (\<lambda>g. (pg_min_priority (rc_groups cfg ! nat g), g))
       (List.find (\<lambda>g. g \<ge> 0 \<and> pg_name (rc_groups cfg ! nat g) = dir_name) (rc_priority_to_group cfg))"

definition collect_segment ::
    "lib \<Rightarrow> Recorder \<Rightarrow> world \<Rightarrow> string \<Rightarrow> string \<Rightarrow> string \<Rightarrow> RetainedFile list \<Rightarrow> RetainedFile list" where
  "collect_segment L r w dir_name dir_path name files =
     (if length files \<ge> 4096 then files
      else case (segment_seq_from_name name, join_path_component PATH_MAX dir_path name) of
        (Some sq, Some path) \<Rightarrow>
          (case stat path w of
             None \<Rightarrow> files
           | Some st \<Rightarrow>
               if path_is_active_segment r path \<or> length path \<ge> 512 then files
               else
                 let known = (if scan_metadata L path w \<noteq> None then group_of_dir (r_config r) dir_name else None)
                 in files @ [\<lparr>rf_path = path, rf_dir_name = dir_name,
                     rf_min_priority = (case known of None \<Rightarrow> 7 | Some (p, _) \<Rightarrow> p),
                     rf_group_index = (case known of None \<Rightarrow> - 1 | Some (_, g) \<Rightarrow> g),
                     rf_segment_seq = sq, rf_size = of_nat (length (f_data st)),
                     rf_modified_at = f_mtime st\<rparr>])
      | _ \<Rightarrow> files)"

definition collect_closed_segments_cb ::
    "lib \<Rightarrow> Recorder \<Rightarrow> string \<Rightarrow> world \<times> RetainedFile list \<Rightarrow> world \<times> RetainedFile list" where
  "collect_closed_segments_cb L r dir_name s =
     (case s of (w, files) \<Rightarrow>
        (case build_segment_dir w PATH_MAX dir_name of
           None \<Rightarrow> (w, files)
         | Some dir_path \<Rightarrow>
             (w, fold (collect_segment L r w dir_name dir_path) (readdir_files dir_path w) files)))"

definition collect_closed_segments :: "lib \<Rightarrow> Recorder \<Rightarrow> world \<Rightarrow> RetainedFile list" where
  "collect_closed_segments L r w = snd (for_each_segment_dir (collect_closed_segments_cb L r) (w, []))"

subsection \<open>Order of removal\<close>

definition goes_before :: "RetainedFile \<Rightarrow> RetainedFile \<Rightarrow> bool" where
  "goes_before a b \<longleftrightarrow>
     rf_min_priority a > rf_min_priority b \<or>
     rf_min_priority a = rf_min_priority b \<and> rf_segment_seq a < rf_segment_seq b"

text \<open>
  The exchange sort: \<^verbatim>\<open>sort_inner x ys\<close> is the inner loop with \<^verbatim>\<open>x\<close> at position \<^verbatim>\<open>i\<close> and
  \<^verbatim>\<open>ys\<close> from position \<^verbatim>\<open>j\<close> on; an exchange puts the old element in the place of the new one.
\<close>

fun sort_inner :: "RetainedFile \<Rightarrow> RetainedFile list \<Rightarrow> RetainedFile \<times> RetainedFile list" where
  "sort_inner x [] = (x, [])"
| "sort_inner x (y # ys) =
     (if goes_before y x then (case sort_inner y ys of (m, r) \<Rightarrow> (m, x # r))
      else (case sort_inner x ys of (m, r) \<Rightarrow> (m, y # r)))"

lemma sort_inner_length: "length (snd (sort_inner x ys)) = length ys"
  by (induction ys arbitrary: x) (simp_all add: case_prod_beta)

function retention_sort :: "RetainedFile list \<Rightarrow> RetainedFile list" where
  "retention_sort [] = []"
| "retention_sort (x # xs) = (case sort_inner x xs of (m, r) \<Rightarrow> m # retention_sort r)"
  by pat_completeness auto
termination
proof (relation "measure length")
  fix x :: RetainedFile and xs m r
  assume "(m, r) = sort_inner x xs"
  with sort_inner_length [of x xs] show "(r, x # xs) \<in> measure length" by (metis in_measure length_Cons lessI snd_conv)
qed simp

subsection \<open>Removing\<close>

definition unlink_index_of :: "RetainedFile \<Rightarrow> world \<Rightarrow> world" where
  "unlink_index_of f w =
     (case build_index_path w 512 (rf_dir_name f) (rf_segment_seq f) of
        None \<Rightarrow> w
      | Some idx_path \<Rightarrow> snd (unlink idx_path w))"

definition sync_dir_of :: "RetainedFile \<Rightarrow> world \<Rightarrow> world" where
  "sync_dir_of f w =
     (case build_segment_dir w PATH_MAX (rf_dir_name f) of
        None \<Rightarrow> w
      | Some dir_path \<Rightarrow> snd (fsync_dir_path dir_path w))"

definition retention_remove_file ::
    "RetainedFile \<Rightarrow> world \<times> u64 \<times> u64 list \<Rightarrow> bool \<times> world \<times> u64 \<times> u64 list" where
  "retention_remove_file f s =
     (case s of (w, total_bytes, group_bytes) \<Rightarrow>
        (case unlink (rf_path f) w of
           (False, w1) \<Rightarrow> (False, w1, total_bytes, group_bytes)
         | (True, w1) \<Rightarrow>
             (let total_bytes' = (if total_bytes > rf_size f then total_bytes - rf_size f else 0);
                  g = nat (rf_group_index f);
                  group_bytes' = (if rf_group_index f \<ge> 0 \<and> group_bytes ! g \<ge> rf_size f
                                  then group_bytes[g := group_bytes ! g - rf_size f] else group_bytes)
              in (True, sync_dir_of f (unlink_index_of f w1), total_bytes', group_bytes'))))"

definition must_remove :: "RecorderConfig \<Rightarrow> int \<Rightarrow> RetainedFile \<Rightarrow> u64 \<Rightarrow> u64 list \<Rightarrow> bool" where
  "must_remove cfg now f total_bytes group_bytes \<longleftrightarrow>
     rc_log_max_bytes cfg \<noteq> 0 \<and> total_bytes > rc_log_max_bytes cfg \<or>
     rf_group_index f \<ge> 0 \<and>
       (let g = rc_groups cfg ! nat (rf_group_index f) in
        pg_max_bytes g \<noteq> 0 \<and> group_bytes ! nat (rf_group_index f) > pg_max_bytes g \<or>
        pg_max_age_sec g \<noteq> 0 \<and> now > rf_modified_at f \<and>
          now - rf_modified_at f \<ge> int (unat (pg_max_age_sec g)))"

fun enforce_loop ::
    "RecorderConfig \<Rightarrow> int \<Rightarrow> RetainedFile list \<Rightarrow> world \<times> u64 \<times> u64 list \<Rightarrow> bool \<Rightarrow>
     bool \<times> world \<times> u64 \<times> u64 list" where
  "enforce_loop cfg now [] s changed = (changed, s)"
| "enforce_loop cfg now (f # fs) s changed =
     (if must_remove cfg now f (fst (snd s)) (snd (snd s))
      then (case retention_remove_file f s of (removed, s') \<Rightarrow> enforce_loop cfg now fs s' (changed \<or> removed))
      else enforce_loop cfg now fs s changed)"

definition sum_group_bytes :: "RetainedFile list \<Rightarrow> u64 list" where
  "sum_group_bytes files =
     fold (\<lambda>f gb. if rf_group_index f \<ge> 0
                  then gb[nat (rf_group_index f) := gb ! nat (rf_group_index f) + rf_size f] else gb)
       files (replicate MAX_PRIORITY_GROUPS 0)"

text \<open>After a removal the boot registry follows the remaining segments.\<close>

definition refresh_boots :: "lib \<Rightarrow> jansson \<Rightarrow> bool \<Rightarrow> Recorder \<times> world \<Rightarrow> Recorder \<times> world" where
  "refresh_boots L J changed s =
     (case s of (r, w) \<Rightarrow>
        if changed
        then (let boots = boot_registry_rebuild_from_segments L w in
              (r\<lparr>r_boots := boots\<rparr>, snd (persist_boot_state J boots w)))
        else (r, w))"

definition retention_enforce :: "lib \<Rightarrow> jansson \<Rightarrow> Recorder \<times> world \<Rightarrow> Recorder \<times> world" where
  "retention_enforce L J s =
     (case s of (r, w) \<Rightarrow>
        let total_bytes = count_store_bytes w;
            files = collect_closed_segments L r w
        in case enforce_loop (r_config r) (w_time w) (retention_sort files)
                  (w, total_bytes, sum_group_bytes files) False of
             (changed, w', _) \<Rightarrow> refresh_boots L J changed (r, w'))"

fun reclaim_loop ::
    "(world \<Rightarrow> u64 option) \<Rightarrow> u8 \<Rightarrow> u64 \<Rightarrow> RetainedFile list \<Rightarrow> world \<times> u64 list \<Rightarrow> bool \<Rightarrow> bool \<times> world" where
  "reclaim_loop avail priority required [] s changed = (changed, fst s)"
| "reclaim_loop avail priority required (f # fs) s changed =
     (if rf_min_priority f \<le> priority then reclaim_loop avail priority required fs s changed
      else case retention_remove_file f (fst s, 0, snd s) of
        (removed, w', _, group_bytes) \<Rightarrow>
          (case avail w' of
             Some available \<Rightarrow>
               if available \<ge> required then (changed \<or> removed, w')
               else reclaim_loop avail priority required fs (w', group_bytes) (changed \<or> removed)
           | None \<Rightarrow> reclaim_loop avail priority required fs (w', group_bytes) (changed \<or> removed)))"

definition retention_reclaim_lower_priority ::
    "lib \<Rightarrow> jansson \<Rightarrow> (world \<Rightarrow> u64 option) \<Rightarrow> u8 \<Rightarrow> u64 \<Rightarrow> Recorder \<times> world \<Rightarrow> bool \<times> Recorder \<times> world" where
  "retention_reclaim_lower_priority L J avail priority required s =
     (case s of (r, w) \<Rightarrow>
        (case avail w of
           None \<Rightarrow> (False, r, w)
         | Some available \<Rightarrow>
             if available \<ge> required then (False, r, w)
             else
               let files = collect_closed_segments L r w in
               (case reclaim_loop avail priority required (retention_sort files) (w, sum_group_bytes files) False of
                  (changed, w') \<Rightarrow> (changed, refresh_boots L J changed (r, w')))))"


subsection \<open>The order is a sort\<close>

lemma sort_inner_mset: "add_mset (fst (sort_inner x ys)) (mset (snd (sort_inner x ys))) = add_mset x (mset ys)"
proof (induction ys arbitrary: x)
  case (Cons y ys)
  from Cons [of x] Cons [of y] show ?case
    by (auto simp: case_prod_beta add_mset_commute)
qed simp

lemma not_before_trans: "\<not> goes_before b a \<Longrightarrow> \<not> goes_before c b \<Longrightarrow> \<not> goes_before c a"
  by (auto simp: goes_before_def)

lemma before_asym: "goes_before a b \<Longrightarrow> \<not> goes_before b a"
  by (auto simp: goes_before_def)

lemma sort_inner_least: "z \<in> insert x (set ys) \<Longrightarrow> \<not> goes_before z (fst (sort_inner x ys))"
proof (induction ys arbitrary: x z)
  case Nil
  then show ?case by (auto simp: goes_before_def)
next
  case (Cons y ys)
  let ?m = "if goes_before y x then y else x"
  have f: "fst (sort_inner x (y # ys)) = fst (sort_inner ?m ys)" by (cases "goes_before y x") (simp_all add: case_prod_beta)
  have m: "\<not> goes_before ?m (fst (sort_inner ?m ys))" using Cons.IH [of ?m ?m] by blast
  have "\<not> goes_before z ?m" if "z \<in> {x, y}" using that by (auto simp: goes_before_def)
  then have "\<not> goes_before z (fst (sort_inner ?m ys))" if "z \<in> {x, y}"
    using that not_before_trans [OF m] by blast
  moreover have "\<not> goes_before z (fst (sort_inner ?m ys))" if "z \<in> set ys"
    using that Cons.IH [of z ?m] by blast
  ultimately show ?case unfolding f using Cons.prems by auto
qed

lemma retention_sort_mset: "mset (retention_sort xs) = mset xs"
proof (induction xs rule: retention_sort.induct)
  case (2 x xs)
  obtain m r where mr: "sort_inner x xs = (m, r)" by fastforce
  from 2 [OF mr [symmetric]] sort_inner_mset [of x xs] mr show ?case by simp
qed simp

lemma retention_sort_set [simp]: "set (retention_sort xs) = set xs"
  by (rule mset_eq_setD [OF retention_sort_mset])

lemma retention_sort_sorted: "sorted_wrt (\<lambda>a b. \<not> goes_before b a) (retention_sort xs)"
proof (induction xs rule: retention_sort.induct)
  case (2 x xs)
  obtain m r where mr: "sort_inner x xs = (m, r)" by fastforce
  have "set_mset (add_mset m (mset r)) = set_mset (add_mset x (mset xs))" using sort_inner_mset [of x xs] mr by simp
  then have "\<not> goes_before z m" if "z \<in> set r" for z
    using sort_inner_least [of z x xs] mr that by auto
  with 2 [OF mr [symmetric]] mr show ?case by simp
qed simp

text \<open>
  The order in which segments may be removed is a permutation of the closed segments
  sorted by falling minimum priority number, that is by rising importance, and within one
  priority by rising segment number, oldest first.
\<close>

lemma retention_order:
  "mset (retention_sort files) = mset files \<and>
   sorted_wrt (\<lambda>a b. rf_min_priority a > rf_min_priority b \<or>
     rf_min_priority a = rf_min_priority b \<and> rf_segment_seq a \<le> rf_segment_seq b) (retention_sort files)"
proof -
  have "rf_min_priority a > rf_min_priority b \<or> rf_min_priority a = rf_min_priority b \<and> rf_segment_seq a \<le> rf_segment_seq b"
    if "\<not> goes_before b a" for a b
    using that by (auto simp: goes_before_def)
  then have "sorted_wrt (\<lambda>a b. rf_min_priority a > rf_min_priority b \<or>
     rf_min_priority a = rf_min_priority b \<and> rf_segment_seq a \<le> rf_segment_seq b) (retention_sort files)"
    by (rule sorted_wrt_mono_rel [OF _ retention_sort_sorted])
  with retention_sort_mset show ?thesis by simp
qed

subsection \<open>What removal touches\<close>

lemma remove_file_effect:
  assumes r: "retention_remove_file f (w, t, gb) = (ok, w', t', gb')" and q: "ends_with q ''.seg''"
  shows "steady w w' \<and> (read_file q w' = read_file q w \<or> q = rf_path f \<and> read_file q w' = None) \<and>
    (w_faults w = [] \<and> stat (rf_path f) w \<noteq> None \<longrightarrow> ok \<and> (q = rf_path f \<longrightarrow> read_file q w' = None)) \<and>
    (if ok then t' = (if t > rf_size f then t - rf_size f else 0) else t' = t)"
proof -
  obtain b w1 where u: "unlink (rf_path f) w = (b, w1)" by fastforce
  note u1 = unlink_steady [OF u] unlink_effect [OF u, of q]
  have b: "w_faults w = [] \<and> stat (rf_path f) w \<noteq> None \<longrightarrow> b"
    using u by (auto simp: unlink_def split: if_splits)
  show ?thesis
  proof (cases b)
    case False
    with r u u1 b show ?thesis by (auto simp: retention_remove_file_def)
  next
    case True
    let ?w2 = "unlink_index_of f w1"
    have w2: "steady w1 ?w2 \<and> read_file q ?w2 = read_file q w1"
    proof (cases "build_index_path w1 512 (rf_dir_name f) (rf_segment_seq f)")
      case (Some ip)
      obtain c w2' where c: "unlink ip w1 = (c, w2')" by fastforce
      have "q \<noteq> ip" using index_path_ends [OF Some] index_tmp_not_seg q by blast
      with c Some unlink_steady [OF c] unlink_effect [OF c, of q] show ?thesis by (simp add: unlink_index_of_def)
    qed (simp add: unlink_index_of_def)
    have w': "w' = sync_dir_of f ?w2" "ok" "t' = (if t > rf_size f then t - rf_size f else 0)"
      using r u True by (auto simp: retention_remove_file_def Let_def)
    have "steady ?w2 w' \<and> read_file q w' = read_file q ?w2"
    proof (cases "build_segment_dir ?w2 PATH_MAX (rf_dir_name f)")
      case (Some d)
      from fsync_steady [OF prod.collapse [symmetric], where p = d and w = ?w2] Some w' show ?thesis by (simp add: sync_dir_of_def)
    qed (simp add: w' sync_dir_of_def)
    then have "steady w w'" "read_file q w' = read_file q w1"
      using u1(1) w2 by (auto intro: steady_trans)
    with u1(2) w'(2,3) True show ?thesis by auto
  qed
qed

lemma enforce_loop_effect:
  assumes "enforce_loop cfg now fs s c = (c', w', x)" and q: "ends_with q ''.seg''"
  shows "steady (fst s) w' \<and> (read_file q w' = read_file q (fst s) \<or> q \<in> rf_path ` set fs \<and> read_file q w' = None)"
  using assms(1)
proof (induction fs arbitrary: s c)
  case Nil
  then show ?case by auto
next
  case (Cons f fs)
  obtain w t gb where s: "s = (w, t, gb)" by (cases s)
  obtain ok w1 t1 gb1 where r: "retention_remove_file f (w, t, gb) = (ok, w1, t1, gb1)" by (cases "retention_remove_file f (w, t, gb)")
  note e = remove_file_effect [OF r q]
  show ?case
  proof (cases "must_remove cfg now f t gb")
    case True
    with Cons.prems s r have "enforce_loop cfg now fs (w1, t1, gb1) (c \<or> ok) = (c', w', x)" by simp
    from Cons.IH [OF this] e s show ?thesis by (auto intro: steady_trans)
  next
    case False
    with Cons.prems s have "enforce_loop cfg now fs s c = (c', w', x)" by simp
    from Cons.IH [OF this] show ?thesis by auto
  qed
qed

lemma reclaim_loop_effect:
  assumes "reclaim_loop av p req fs s c = (c', w')" and q: "ends_with q ''.seg''"
  shows "steady (fst s) w' \<and> (read_file q w' = read_file q (fst s) \<or>
    (\<exists>f \<in> set fs. rf_path f = q \<and> rf_min_priority f > p) \<and> read_file q w' = None)"
  using assms(1)
proof (induction fs arbitrary: s c)
  case Nil
  then show ?case by auto
next
  case (Cons f fs)
  show ?case
  proof (cases "rf_min_priority f \<le> p")
    case True
    with Cons.IH [of s c] Cons.prems show ?thesis by auto
  next
    case False
    obtain ok w1 t1 gb1 where r: "retention_remove_file f (fst s, 0, snd s) = (ok, w1, t1, gb1)"
      by (cases "retention_remove_file f (fst s, 0, snd s)")
    note e = remove_file_effect [OF r q]
    consider "w' = w1" | "reclaim_loop av p req fs (w1, gb1) (c \<or> ok) = (c', w')"
      using Cons.prems False r by (auto split: option.splits if_splits)
    then show ?thesis
    proof cases
      case 1
      with e False show ?thesis by auto
    next
      case 2
      from Cons.IH [OF 2] e False show ?thesis by (auto intro: steady_trans)
    qed
  qed
qed


lemma persist_boots_effect:
  assumes p: "persist_boot_state J boots w = (ok, w')" and len: "length (w_log_dir w) \<le> 480"
    and q: "ends_with q ''.seg''"
  shows "read_file q w' = read_file q w \<and> w_log_dir w' = w_log_dir w"
proof -
  let ?path = "w_log_dir w @ ''/state/boots''"
  have path: "build_state_boots_path w 512 = Some ?path"
    using len by (simp add: build_state_boots_path_def build_log_path_def join_path_suffix_def)
  have n: "q \<noteq> ?path" "q \<noteq> ?path @ ''.tmp''"
    using q by (auto simp: ends_with_append append_eq_append_conv2 append_eq_Cons_conv Cons_eq_append_conv)
  consider "w' = w" | doc where "atomic_write_text_file ?path doc w = (ok, w')"
    using p path unfolding persist_boot_state_def Let_def by (auto split: if_splits option.splits)
  then show ?thesis
  proof cases
    case 2
    from atomic_write_effect [OF 2] len n show ?thesis by simp
  qed simp
qed

lemma refresh_boots_effect:
  assumes r: "refresh_boots L J c (r, w) = (r', w')" and len: "length (w_log_dir w) \<le> 480"
    and q: "ends_with q ''.seg''"
  shows "read_file q w' = read_file q w"
proof -
  obtain ok w1 where p: "persist_boot_state J (boot_registry_rebuild_from_segments L w) w = (ok, w1)" by fastforce
  from persist_boots_effect [OF p len q] p r show ?thesis
    by (auto simp: refresh_boots_def Let_def split: if_splits)
qed

lemma strtoull_suffix: "suffix (st_end (strtoull s)) s"
proof -
  let ?s = "dropWhile is_space s"
  let ?t = "if ?s \<noteq> [] \<and> (hd ?s = CHR ''-'' \<or> hd ?s = CHR ''+'') then tl ?s else ?s"
  have "suffix (dropWhile is_digit ?t) ?t" "suffix ?t ?s" "suffix ?s s"
    by (simp_all add: suffix_dropWhile suffix_tl)
  then have "suffix (dropWhile is_digit ?t) s" by (blast intro: suffix_order.trans)
  then show ?thesis by (simp add: strtoull_def Let_def)
qed

lemma collect_segment_inactive:
  "\<forall>f \<in> set files. \<not> path_is_active_segment r (rf_path f) \<and> ends_with (rf_path f) ''.seg'' \<Longrightarrow>
   f \<in> set (collect_segment L r w d dp n files) \<Longrightarrow>
   \<not> path_is_active_segment r (rf_path f) \<and> ends_with (rf_path f) ''.seg''"
proof -
  assume old: "\<forall>f \<in> set files. \<not> path_is_active_segment r (rf_path f) \<and> ends_with (rf_path f) ''.seg''"
    and f: "f \<in> set (collect_segment L r w d dp n files)"
  have "ends_with n ''.seg''" if "segment_seq_from_name n = Some sq" for sq
  proof -
    from that strtoull_suffix [of n] show ?thesis
      by (auto simp: segment_seq_from_name_def Let_def ends_with_append suffix_def split: if_splits)
  qed
  with old f show ?thesis
    by (auto simp: collect_segment_def Let_def join_path_component_def ends_with_append
        split: if_splits option.splits)
qed

lemma collect_inactive:
  assumes "f \<in> set (collect_closed_segments L r w)"
  shows "\<not> path_is_active_segment r (rf_path f) \<and> ends_with (rf_path f) ''.seg''"
proof -
  let ?ok = "\<lambda>files. \<forall>f \<in> set files. \<not> path_is_active_segment r (rf_path f) \<and> ends_with (rf_path f) ''.seg''"
  have one: "?ok files \<Longrightarrow> ?ok (fold (collect_segment L r w d dp) ns files)" for d dp ns files
  proof (induction ns arbitrary: files)
    case (Cons n ns)
    have "?ok (collect_segment L r w d dp n files)"
      using collect_segment_inactive [OF Cons.prems] by blast
    from Cons.IH [OF this] show ?case by simp
  qed simp
  have "?ok (snd s) \<and> fst s = w \<Longrightarrow> ?ok (snd (fold (collect_closed_segments_cb L r) ds s)) \<and> fst (fold (collect_closed_segments_cb L r) ds s) = w" for ds s
  proof (induction ds arbitrary: s)
    case (Cons d ds)
    obtain files where s: "s = (w, files)" "?ok files" using Cons.prems by (cases s) simp
    have "?ok (snd (collect_closed_segments_cb L r d s)) \<and> fst (collect_closed_segments_cb L r d s) = w"
    proof (cases "build_segment_dir w PATH_MAX d")
      case None
      with s show ?thesis by (simp add: collect_closed_segments_cb_def)
    next
      case (Some dp)
      from one [OF s(2), of d dp "readdir_files dp w"] Some s(1) show ?thesis
        by (simp add: collect_closed_segments_cb_def)
    qed
    from Cons.IH [OF this] show ?case by simp
  qed simp
  from this [of "(w, [])"] assms show ?thesis
    by (simp add: collect_closed_segments_def for_each_segment_dir_def)
qed


text \<open>
  C25. Retention never touches a segment that is being written. Whatever system calls fail,
  the only segment files it changes are closed segments it has listed, and those it removes
  whole; the path of an open writer is never among them.
\<close>

theorem retention_keeps_active:
  assumes "ends_with q ''.seg''" and "length (w_log_dir w) \<le> 480"
    and "retention_enforce L J (r, w) = (r', w')"
  shows "(read_file q w' = read_file q w \<or>
      read_file q w' = None \<and> (\<exists>f \<in> set (collect_closed_segments L r w). rf_path f = q)) \<and>
    (path_is_active_segment r q \<longrightarrow> read_file q w' = read_file q w)"
proof -
  obtain c w1 x where l: "enforce_loop (r_config r) (w_time w) (retention_sort (collect_closed_segments L r w))
      (w, count_store_bytes w, sum_group_bytes (collect_closed_segments L r w)) False = (c, w1, x)"
    by (cases "enforce_loop (r_config r) (w_time w) (retention_sort (collect_closed_segments L r w))
      (w, count_store_bytes w, sum_group_bytes (collect_closed_segments L r w)) False")
  have rf: "refresh_boots L J c (r, w1) = (r', w')" using assms(3) l by (simp add: retention_enforce_def Let_def)
  note e = enforce_loop_effect [OF l assms(1), simplified]
  have "length (w_log_dir w1) \<le> 480" using e assms(2) by (simp add: steady_def)
  from refresh_boots_effect [OF rf this assms(1)] e collect_inactive show ?thesis by auto
qed


subsection \<open>The store quota\<close>

definition left_after :: "u64 \<Rightarrow> RetainedFile list \<Rightarrow> nat" where
  "left_after t fs = unat t - sum_list (map (\<lambda>f. unat (rf_size f)) fs)"

lemma left_after_step:
  "left_after (if t > rf_size f then t - rf_size f else 0) fs = left_after t (f # fs)"
proof (cases "t > rf_size f")
  case True
  then have "unat (t - rf_size f) = unat t - unat (rf_size f)" by (intro unat_sub) simp
  with True show ?thesis by (simp add: left_after_def)
next
  case False
  then have "unat t \<le> unat (rf_size f)" by (simp add: not_less word_le_nat_alt)
  with False show ?thesis by (simp add: left_after_def)
qed

lemma enforce_loop_quota:
  assumes "enforce_loop cfg now fs (w, t, gb) c = (c', w', x)"
    and "w_faults w = []" and "rc_log_max_bytes cfg \<noteq> 0" and "distinct (map rf_path fs)"
    and "\<forall>f \<in> set fs. stat (rf_path f) w \<noteq> None \<and> ends_with (rf_path f) ''.seg''"
    and "\<forall>f \<in> set fs. rf_group_index f \<ge> 0 \<longrightarrow>
      pg_max_bytes (rc_groups cfg ! nat (rf_group_index f)) = 0 \<and> pg_max_age_sec (rc_groups cfg ! nat (rf_group_index f)) = 0"
  shows "\<exists>k \<le> length fs. (\<forall>f \<in> set (take k fs). read_file (rf_path f) w' = None) \<and>
    (\<forall>f \<in> set (drop k fs). read_file (rf_path f) w' = read_file (rf_path f) w) \<and>
    (\<forall>j < k. left_after t (take j fs) > unat (rc_log_max_bytes cfg)) \<and>
    (k < length fs \<longrightarrow> left_after t (take k fs) \<le> unat (rc_log_max_bytes cfg))"
  using assms
proof (induction fs arbitrary: w t gb c)
  case Nil
  then show ?case by simp
next
  case (Cons f fs)
  have mr: "must_remove cfg now f t gb \<longleftrightarrow> t > rc_log_max_bytes cfg"
    using Cons.prems(3,6) by (auto simp: must_remove_def Let_def)
  show ?case
  proof (cases "t > rc_log_max_bytes cfg")
    case True
    obtain ok w1 t1 gb1 where r: "retention_remove_file f (w, t, gb) = (ok, w1, t1, gb1)" by (cases "retention_remove_file f (w, t, gb)")
    have fseg: "ends_with (rf_path f) ''.seg''" "stat (rf_path f) w \<noteq> None" using Cons.prems(5) by auto
    note e = remove_file_effect [OF r fseg(1)]
    have ok: ok "read_file (rf_path f) w1 = None" "t1 = (if t > rf_size f then t - rf_size f else 0)" "w_faults w1 = []"
      using e fseg Cons.prems(2) by (auto simp: steady_def)
    have loop: "enforce_loop cfg now fs (w1, t1, gb1) (c \<or> ok) = (c', w', x)" using Cons.prems(1) True mr r by simp
    have same: "read_file (rf_path g) w1 = read_file (rf_path g) w" if "g \<in> set fs" for g
    proof -
      have "rf_path g \<noteq> rf_path f" using that Cons.prems(4) by (metis distinct.simps(2) image_eqI list.set_map list.simps(9))
      with remove_file_effect [OF r, of "rf_path g"] that Cons.prems(5) show ?thesis by auto
    qed
    have ex: "\<forall>g \<in> set fs. stat (rf_path g) w1 \<noteq> None \<and> ends_with (rf_path g) ''.seg''"
      using same Cons.prems(5) by (auto simp: read_none [symmetric])
    obtain k where k: "k \<le> length fs" "\<forall>g \<in> set (take k fs). read_file (rf_path g) w' = None"
      "\<forall>g \<in> set (drop k fs). read_file (rf_path g) w' = read_file (rf_path g) w1"
      "\<forall>j < k. left_after t1 (take j fs) > unat (rc_log_max_bytes cfg)"
      "k < length fs \<longrightarrow> left_after t1 (take k fs) \<le> unat (rc_log_max_bytes cfg)"
      using Cons.IH [OF loop ok(4) Cons.prems(3) _ ex] Cons.prems(4,6) by auto
    have gone: "read_file (rf_path f) w' = None"
      using enforce_loop_effect [OF loop fseg(1)] ok(2) by auto
    have la: "left_after t (take (Suc j) (f # fs)) = left_after t1 (take j fs)" for j
      using left_after_step [of f t "take j fs"] ok(3) by simp
    have lt: "\<forall>j < Suc k. left_after t (take j (f # fs)) > unat (rc_log_max_bytes cfg)"
    proof (intro allI impI)
      fix j assume "j < Suc k"
      then show "left_after t (take j (f # fs)) > unat (rc_log_max_bytes cfg)"
        using k(4) la True by (cases j) (auto simp: left_after_def word_less_nat_alt)
    qed
    have sub: "set (drop k fs) \<subseteq> set fs" by (rule set_drop_subset)
    show ?thesis
      by (rule exI [of _ "Suc k"]) (use k gone same lt sub la in auto)
  next
    case False
    with Cons.prems(1) mr have loop: "enforce_loop cfg now fs (w, t, gb) c = (c', w', x)" by simp
    have dist: "distinct (map rf_path fs)" using Cons.prems(4) by simp
    have "\<exists>k \<le> length fs. (\<forall>f \<in> set (take k fs). read_file (rf_path f) w' = None) \<and>
      (\<forall>f \<in> set (drop k fs). read_file (rf_path f) w' = read_file (rf_path f) w) \<and>
      (\<forall>j < k. left_after t (take j fs) > unat (rc_log_max_bytes cfg))"
      using Cons.IH [OF loop Cons.prems(2,3) dist] Cons.prems(5,6) by auto
    then obtain k where k: "\<forall>f \<in> set (drop k fs). read_file (rf_path f) w' = read_file (rf_path f) w"
      "\<forall>j < k. left_after t (take j fs) > unat (rc_log_max_bytes cfg)" by blast
    have t: "unat t \<le> unat (rc_log_max_bytes cfg)" using False by (simp add: word_less_nat_alt)
    with k(2) have "k = 0" by (cases k) (auto simp: left_after_def)
    with k have all: "\<forall>g \<in> set fs. read_file (rf_path g) w' = read_file (rf_path g) w" by simp
    have "read_file (rf_path f) w' = read_file (rf_path f) w"
    proof -
      have "rf_path f \<notin> rf_path ` set fs" using Cons.prems(4) by simp
      with enforce_loop_effect [OF loop, of "rf_path f"] Cons.prems(5) show ?thesis by auto
    qed
    with all t show ?thesis by (intro exI [of _ 0]) (simp add: left_after_def)
  qed
qed


text \<open>A store in which no file and no directory is listed twice has no segment collected twice.\<close>

definition listed_once :: "world \<Rightarrow> bool" where
  "listed_once w \<longleftrightarrow> distinct (map fst (w_files w)) \<and> distinct (w_dirs w)"

lemma dir_entries_distinct: "distinct ps \<Longrightarrow> distinct (dir_entries d ps)"
proof -
  assume "distinct ps"
  moreover have "inj_on (drop (length d + 1)) {p. take (length d + 1) p = d @ ''/''}"
  proof (rule inj_onI)
    fix p q
    assume "p \<in> {p. take (length d + 1) p = d @ ''/''}" "q \<in> {p. take (length d + 1) p = d @ ''/''}"
      and eq: "drop (length d + 1) p = drop (length d + 1) q"
    then have "take (length d + 1) p = take (length d + 1) q" by simp
    with eq show "p = q" by (metis append_take_drop_id)
  qed
  then have "inj_on (drop (length d + 1)) (set (filter (\<lambda>p. take (length d + 1) p = d @ ''/'' \<and> p \<noteq> d @ ''/'' \<and>
      CHR ''/'' \<notin> set (drop (length d + 1) p)) ps))"
    by (rule inj_on_subset) auto
  ultimately show ?thesis
    unfolding dir_entries_def distinct_map by simp
qed

lemma dir_entries_no_slash: "n \<in> set (dir_entries d ps) \<Longrightarrow> CHR ''/'' \<notin> set n"
  by (auto simp: dir_entries_def)

lemma separator_unique: "c \<notin> set xs \<Longrightarrow> c \<notin> set ys \<Longrightarrow> xs @ c # zs = ys @ c # ws \<Longrightarrow> xs = ys \<and> zs = ws"
proof (induction xs arbitrary: ys)
  case Nil
  then show ?case by (cases ys) auto
next
  case (Cons x xs)
  then show ?case by (cases ys) auto
qed

lemma subseq_distinct: "subseq xs ys \<Longrightarrow> distinct ys \<Longrightarrow> distinct xs"
  by (induction rule: list_emb.induct) (auto dest: list_emb_set)

definition segment_names :: "world \<Rightarrow> (string \<times> string) list" where
  "segment_names w =
     concat (map (\<lambda>d. map (Pair d) (readdir_files (w_log_dir w @ ''/'' @ d) w)) (segment_dirs w))"

lemma segment_names_distinct:
  assumes "listed_once w"
  shows "distinct (map (\<lambda>(d, n). w_log_dir w @ ''/'' @ d @ ''/'' @ n) (segment_names w))"
proof -
  have dirs: "distinct (segment_dirs w)"
    using assms by (auto simp: segment_dirs_def readdir_dirs_def listed_once_def intro: dir_entries_distinct distinct_filter)
  have names: "distinct (readdir_files p w)" for p
    using assms by (auto simp: readdir_files_def listed_once_def intro: dir_entries_distinct)
  have "distinct (concat (map (\<lambda>d. map (Pair d) (readdir_files (w_log_dir w @ ''/'' @ d) w)) ds))" if "distinct ds" for ds
    using that
  proof (induction ds)
    case (Cons d ds)
    have "distinct (map (Pair d) (readdir_files (w_log_dir w @ ''/'' @ d) w))"
      using names by (simp add: distinct_map inj_on_def)
    with Cons show ?case by auto
  qed simp
  from this [OF dirs] have "distinct (segment_names w)" by (simp add: segment_names_def)
  moreover have "inj_on (\<lambda>(d, n). w_log_dir w @ ''/'' @ d @ ''/'' @ n) (set (segment_names w))"
  proof (rule inj_onI)
    fix a b
    assume a: "a \<in> set (segment_names w)" and b: "b \<in> set (segment_names w)" and
      eq: "(case a of (d, n) \<Rightarrow> w_log_dir w @ ''/'' @ d @ ''/'' @ n) = (case b of (d, n) \<Rightarrow> w_log_dir w @ ''/'' @ d @ ''/'' @ n)"
    have "CHR ''/'' \<notin> set (fst a)" "CHR ''/'' \<notin> set (fst b)"
      using a b by (auto simp: segment_names_def segment_dirs_def readdir_dirs_def dir_entries_no_slash)
    with eq separator_unique [of "CHR ''/''" "fst a" "fst b" "snd a" "snd b"] show "a = b"
      by (simp add: case_prod_beta prod_eq_iff)
  qed
  ultimately show ?thesis by (simp add: distinct_map)
qed

lemma collect_segment_path:
  "collect_segment L r w d dp n files = files \<or>
   (\<exists>f. collect_segment L r w d dp n files = files @ [f] \<and> rf_path f = dp @ ''/'' @ n \<and> stat (rf_path f) w \<noteq> None)"
  by (auto simp: collect_segment_def Let_def join_path_component_def split: option.splits if_splits)

lemma collect_dir_subseq:
  "subseq (map rf_path (fold (collect_segment L r w d dp) ns files)) (map rf_path files @ map (\<lambda>n. dp @ ''/'' @ n) ns)"
proof (induction ns arbitrary: files)
  case (Cons n ns)
  have "subseq (map rf_path (collect_segment L r w d dp n files)) (map rf_path files @ [dp @ ''/'' @ n])"
    using collect_segment_path [of L r w d dp n files] by auto
  then have "subseq (map rf_path (collect_segment L r w d dp n files) @ map (\<lambda>n. dp @ ''/'' @ n) ns)
      ((map rf_path files @ [dp @ ''/'' @ n]) @ map (\<lambda>n. dp @ ''/'' @ n) ns)"
    by (intro list_emb_append_mono) auto
  with Cons [of "collect_segment L r w d dp n files"] show ?case
    by (auto intro: subseq_order.trans)
qed simp

lemma collect_distinct:
  assumes "listed_once w"
  shows "distinct (map rf_path (collect_closed_segments L r w))"
proof -
  let ?names = "\<lambda>d. map (\<lambda>n. w_log_dir w @ ''/'' @ d @ ''/'' @ n) (readdir_files (w_log_dir w @ ''/'' @ d) w)"
  have cb: "fst (collect_closed_segments_cb L r d (w, files)) = w \<and>
      subseq (map rf_path (snd (collect_closed_segments_cb L r d (w, files)))) (map rf_path files @ ?names d)" for d files
  proof (cases "build_segment_dir w PATH_MAX d")
    case None
    have "subseq (map rf_path files) (map rf_path files @ ?names d)" by (rule subseq_rev_drop_many) simp
    with None show ?thesis by (simp add: collect_closed_segments_cb_def)
  next
    case (Some dp)
    then have "dp = w_log_dir w @ ''/'' @ d"
      by (auto simp: build_segment_dir_def join_path_component_def split: if_splits)
    with Some collect_dir_subseq [of L r w d dp "readdir_files dp w" files] show ?thesis
      by (simp add: collect_closed_segments_cb_def)
  qed
  have "fst (fold (collect_closed_segments_cb L r) ds (w, files)) = w \<and>
      subseq (map rf_path (snd (fold (collect_closed_segments_cb L r) ds (w, files)))) (map rf_path files @ concat (map ?names ds))"
    for ds files
  proof (induction ds arbitrary: files)
    case (Cons d ds)
    obtain files' where f: "collect_closed_segments_cb L r d (w, files) = (w, files')"
      using cb [of d files] by (cases "collect_closed_segments_cb L r d (w, files)") simp
    have "subseq (map rf_path files' @ concat (map ?names ds)) ((map rf_path files @ ?names d) @ concat (map ?names ds))"
      using cb [of d files] f by (intro list_emb_append_mono) auto
    from subseq_order.trans [OF conjunct2 [OF Cons [of files']] this] conjunct1 [OF Cons [of files']] f
    show ?case by simp
  qed simp
  from this [of "segment_dirs w" "[]"] have
    s: "subseq (map rf_path (collect_closed_segments L r w)) (concat (map ?names (segment_dirs w)))"
    by (simp add: collect_closed_segments_def for_each_segment_dir_def)
  have "concat (map ?names (segment_dirs w)) = map (\<lambda>(d, n). w_log_dir w @ ''/'' @ d @ ''/'' @ n) (segment_names w)"
    by (simp add: segment_names_def map_concat comp_def)
  then have "distinct (concat (map ?names (segment_dirs w)))" using segment_names_distinct [OF assms] by simp
  from subseq_distinct [OF s this] show ?thesis .
qed


lemma collect_invariant:
  assumes init: "P []" and step: "\<And>d dp n files. P files \<Longrightarrow> P (collect_segment L r w d dp n files)"
  shows "P (collect_closed_segments L r w)"
proof -
  have one: "P files \<Longrightarrow> P (fold (collect_segment L r w d dp) ns files)" for d dp ns files
    by (induction ns arbitrary: files) (simp_all add: step)
  have "P files \<Longrightarrow> \<exists>files'. fold (collect_closed_segments_cb L r) ds (w, files) = (w, files') \<and> P files'" for ds files
  proof (induction ds arbitrary: files)
    case (Cons d ds)
    have "\<exists>files'. collect_closed_segments_cb L r d (w, files) = (w, files') \<and> P files'"
      using one [OF Cons.prems] Cons.prems by (cases "build_segment_dir w PATH_MAX d") (simp_all add: collect_closed_segments_cb_def)
    with Cons.IH show ?case by fastforce
  qed simp
  from this [OF init, of "segment_dirs w"] show ?thesis
    by (auto simp: collect_closed_segments_def for_each_segment_dir_def)
qed

lemma collect_exists: "f \<in> set (collect_closed_segments L r w) \<Longrightarrow> stat (rf_path f) w \<noteq> None"
proof -
  have "\<forall>f \<in> set (collect_closed_segments L r w). stat (rf_path f) w \<noteq> None"
  proof (rule collect_invariant)
    fix d dp n and files :: "RetainedFile list"
    assume "\<forall>f \<in> set files. stat (rf_path f) w \<noteq> None"
    then show "\<forall>f \<in> set (collect_segment L r w d dp n files). stat (rf_path f) w \<noteq> None"
      using collect_segment_path [of L r w d dp n files] by auto
  qed simp
  then show "f \<in> set (collect_closed_segments L r w) \<Longrightarrow> stat (rf_path f) w \<noteq> None" by blast
qed

lemma group_of_dir_range:
  assumes "config_ok cfg" and "group_of_dir cfg d = Some (p, g)"
  shows "0 \<le> g \<and> nat g < length (rc_groups cfg) \<and> p = pg_min_priority (rc_groups cfg ! nat g) \<and>
    pg_name (rc_groups cfg ! nat g) = d"
proof -
  from assms(2) obtain i where i: "i < length (rc_priority_to_group cfg)" "rc_priority_to_group cfg ! i = g" "g \<ge> 0"
    "pg_name (rc_groups cfg ! nat g) = d" "p = pg_min_priority (rc_groups cfg ! nat g)"
    by (auto simp: group_of_dir_def find_Some_iff)
  with assms(1) show ?thesis by (fastforce simp: config_ok_def groups_state_ok_def)
qed

lemma collect_group_range:
  assumes "config_ok (r_config r)" and "f \<in> set (collect_closed_segments L r w)" and "rf_group_index f \<ge> 0"
  shows "nat (rf_group_index f) < length (rc_groups (r_config r))"
proof -
  let ?P = "\<lambda>files :: RetainedFile list. \<forall>f \<in> set files. rf_group_index f \<ge> 0 \<longrightarrow> nat (rf_group_index f) < length (rc_groups (r_config r))"
  have "?P (collect_closed_segments L r w)"
  proof (rule collect_invariant)
    fix d dp n and files :: "RetainedFile list"
    assume "?P files"
    then show "?P (collect_segment L r w d dp n files)"
      using group_of_dir_range [OF assms(1), of d]
      by (auto simp: collect_segment_def Let_def split: if_splits option.splits prod.splits)
  qed simp
  with assms show ?thesis by blast
qed

text \<open>
  C26. The store quota removes no more than it must, least important first. With a store quota
  and no group limits, and when no system call fails, \<^verbatim>\<open>retention_enforce\<close> removes exactly
  the shortest prefix of the removal order that brings the counted size of the store
  down to the quota, or every closed segment when that does not suffice.
\<close>

theorem quota_removes_shortest_prefix:
  assumes "retention_enforce L J (r, w) = (r', w')" and "config_ok (r_config r)"
    and "\<forall>g \<in> set (rc_groups (r_config r)). pg_max_bytes g = 0 \<and> pg_max_age_sec g = 0"
    and "rc_log_max_bytes (r_config r) \<noteq> 0" and "w_faults w = []" and "listed_once w"
    and "length (w_log_dir w) \<le> 480"
  shows "\<exists>k \<le> length (collect_closed_segments L r w).
    (\<forall>f \<in> set (take k (retention_sort (collect_closed_segments L r w))). read_file (rf_path f) w' = None) \<and>
    (\<forall>f \<in> set (drop k (retention_sort (collect_closed_segments L r w))). read_file (rf_path f) w' = read_file (rf_path f) w) \<and>
    (\<forall>j < k. left_after (count_store_bytes w) (take j (retention_sort (collect_closed_segments L r w))) >
       unat (rc_log_max_bytes (r_config r))) \<and>
    (k < length (collect_closed_segments L r w) \<longrightarrow>
       left_after (count_store_bytes w) (take k (retention_sort (collect_closed_segments L r w))) \<le>
       unat (rc_log_max_bytes (r_config r)))"
proof -
  let ?fs = "collect_closed_segments L r w"
  obtain c w1 x where l: "enforce_loop (r_config r) (w_time w) (retention_sort ?fs)
      (w, count_store_bytes w, sum_group_bytes ?fs) False = (c, w1, x)"
    by (cases "enforce_loop (r_config r) (w_time w) (retention_sort ?fs)
      (w, count_store_bytes w, sum_group_bytes ?fs) False")
  have rf: "refresh_boots L J c (r, w1) = (r', w')" using assms(1) l by (simp add: retention_enforce_def Let_def)
  have dist: "distinct (map rf_path (retention_sort ?fs))"
    using collect_distinct [OF assms(6), of L r] by (metis mset_eq_imp_distinct_iff mset_map retention_sort_mset)
  have ex: "\<forall>f \<in> set (retention_sort ?fs). stat (rf_path f) w \<noteq> None \<and> ends_with (rf_path f) ''.seg''"
    using collect_exists collect_inactive by auto
  have lim: "\<forall>f \<in> set (retention_sort ?fs). rf_group_index f \<ge> 0 \<longrightarrow>
      pg_max_bytes (rc_groups (r_config r) ! nat (rf_group_index f)) = 0 \<and>
      pg_max_age_sec (rc_groups (r_config r) ! nat (rf_group_index f)) = 0"
    using collect_group_range [OF assms(2)] assms(3) by auto
  have log: "w_log_dir w1 = w_log_dir w"
    using enforce_loop_effect [OF l, of "''.seg''"] by (simp add: ends_with_def steady_def)
  have same: "read_file (rf_path f) w' = read_file (rf_path f) w1" if "f \<in> set (retention_sort ?fs)" for f
    using refresh_boots_effect [OF rf, of "rf_path f"] that ex log assms(7) by auto
  have len: "length (retention_sort ?fs) = length ?fs" by (metis retention_sort_mset size_mset)
  from enforce_loop_quota [OF l assms(5,4) dist ex lim] obtain k where
    "k \<le> length ?fs" "\<forall>f \<in> set (take k (retention_sort ?fs)). read_file (rf_path f) w1 = None"
    "\<forall>f \<in> set (drop k (retention_sort ?fs)). read_file (rf_path f) w1 = read_file (rf_path f) w"
    "\<forall>j < k. left_after (count_store_bytes w) (take j (retention_sort ?fs)) > unat (rc_log_max_bytes (r_config r))"
    "k < length ?fs \<longrightarrow> left_after (count_store_bytes w) (take k (retention_sort ?fs)) \<le> unat (rc_log_max_bytes (r_config r))"
    unfolding len by blast
  moreover have "set (take k (retention_sort ?fs)) \<subseteq> set (retention_sort ?fs)" "set (drop k (retention_sort ?fs)) \<subseteq> set (retention_sort ?fs)" for k
    by (rule set_take_subset, rule set_drop_subset)
  ultimately show ?thesis using same by (intro exI [of _ k]) (auto simp: subset_iff)
qed


subsection \<open>A store with one closed segment\<close>

definition small_quota :: RecorderConfig where
  "small_quota = recorder_config_init\<lparr>rc_log_max_bytes := 1\<rparr>"

definition demo_segment_file :: RetainedFile where
  "demo_segment_file =
     \<lparr>rf_path = ''/l/p3/6.seg'', rf_dir_name = ''p3'', rf_min_priority = 3, rf_group_index = 3,
      rf_segment_seq = 6, rf_size = of_nat (length torn_plain), rf_modified_at = 1\<rparr>"

lemma demo_dirs:
  "segment_dirs demo_store = [''p3'']" "build_segment_dir demo_store PATH_MAX ''p3'' = Some ''/l/p3''"
  "readdir_files ''/l/p3'' demo_store = [''6.seg'']"
  using demo_world_scan(1)
  by (simp_all add: demo_store_def segment_dirs_def readdir_dirs_def build_segment_dir_def readdir_files_def dir_entries_def)
    (simp add: demo_world_def join_path_component_def)

lemma demo_stat: "stat ''/l/p3/6.seg'' demo_store = Some \<lparr>f_data = torn_plain, f_mtime = 1\<rparr>"
  by (simp add: stat_def demo_store_def)

lemma demo_group: "group_of_dir small_quota ''p3'' = Some (3, 3)"
  by (simp add: group_of_dir_def small_quota_def recorder_config_init_def upt_rec decimal_digit digit_chars empty_group_def)
    code_simp

lemma demo_collected: "collect_closed_segments demo_lib (idle_recorder small_quota) demo_store = [demo_segment_file]"
  by (simp add: collect_closed_segments_def for_each_segment_dir_def demo_dirs collect_closed_segments_cb_def
      collect_segment_def demo_world_scan(3) join_path_component_def demo_stat demo_store_scan demo_group
      idle_recorder_def path_is_active_segment_def demo_segment_file_def)

lemma length_torn_plain: "length torn_plain = 295"
  by (simp add: torn_plain_def demo_body_ok demo_stored_def frame_raw_def demo_head_def segment_write_header_def
      demo_enc_def demo_header_def encrypted_def write_seq_unscripted fopen_w_def nonempty_def Let_def del: write_seq.simps)

lemma demo_total: "count_store_bytes demo_store = 295"
proof -
  have st: "build_log_path demo_store PATH_MAX ''/state'' = Some ''/l/state''" "readdir_files ''/l/state'' demo_store = []"
    by (simp_all add: build_log_path_def join_path_suffix_def demo_store_def demo_world_def readdir_files_def dir_entries_def)
  show ?thesis
    by (simp add: count_store_bytes_def for_each_segment_dir_def demo_dirs count_store_bytes_cb_def st
        file_bytes_def join_path_component_def demo_stat length_torn_plain)
qed

lemma small_quota_ok:
  "config_ok small_quota" "\<forall>g \<in> set (rc_groups small_quota). pg_max_bytes g = 0 \<and> pg_max_age_sec g = 0"
  "rc_log_max_bytes small_quota = 1"
  using config_init_ok
  by (auto simp: config_ok_def small_quota_def recorder_config_init_def empty_group_def)

lemma demo_store_ok: "w_faults demo_store = []" "listed_once demo_store" "length (w_log_dir demo_store) \<le> 480"
  by (simp_all add: demo_store_def demo_world_def listed_once_def)

theorem quota_removes_shortest_prefix_witness:
  "read_file ''/l/p3/6.seg'' (snd (retention_enforce demo_lib demo_jansson (idle_recorder small_quota, demo_store))) = None"
proof -
  let ?r = "idle_recorder small_quota"
  have cfg: "r_config ?r = small_quota" by (simp add: idle_recorder_def)
  have sorted: "retention_sort [demo_segment_file] = [demo_segment_file]" by simp
  obtain r' w' where e: "retention_enforce demo_lib demo_jansson (?r, demo_store) = (r', w')" by fastforce
  from quota_removes_shortest_prefix [OF e] obtain k where
    k: "k \<le> 1" "\<forall>f \<in> set (take k [demo_segment_file]). read_file (rf_path f) w' = None"
    "k < 1 \<longrightarrow> left_after 295 (take k [demo_segment_file]) \<le> 1"
    by (auto simp: cfg small_quota_ok demo_store_ok demo_collected sorted demo_total)
  have "k = 1"
  proof (rule ccontr)
    assume "k \<noteq> 1"
    with k(1) have "k = 0" by simp
    with k(3) show False by (simp add: left_after_def)
  qed
  with k(2) e show ?thesis by (simp add: demo_segment_file_def)
qed

theorem retention_keeps_active_witness:
  "read_file ''/l/p3/6.seg'' (snd (retention_enforce demo_lib demo_jansson
     ((idle_recorder small_quota)\<lparr>r_writers := [(writer_init empty_group 0)\<lparr>pw_open := True, pw_path := ''/l/p3/6.seg''\<rparr>]\<rparr>,
      demo_store))) = Some torn_plain"
proof -
  let ?r = "(idle_recorder small_quota)\<lparr>r_writers := [(writer_init empty_group 0)\<lparr>pw_open := True, pw_path := ''/l/p3/6.seg''\<rparr>]\<rparr>"
  obtain r' w' where e: "retention_enforce demo_lib demo_jansson (?r, demo_store) = (r', w')" by fastforce
  have s: "ends_with ''/l/p3/6.seg'' ''.seg''" by (simp add: ends_with_def)
  have "path_is_active_segment ?r ''/l/p3/6.seg''" by (simp add: path_is_active_segment_def)
  with retention_keeps_active [OF s demo_store_ok(3) e] e demo_stat show ?thesis by (simp add: read_file_def)
qed


end
