(* ===== verification/Writer.thy ===== *)
theory Writer
  imports Retention
begin

text \<open>
  The writer of one priority group in \<^verbatim>\<open>src/recorder.c\<close>: when to rotate, opening a segment
  under a temporary name, flushing a chunk of entries as one frame, closing with a footer, and
  syncing. What the process gets from outside is the record \<^verbatim>\<open>host\<close>: the libraries, the clock,
  the FlatBuffers builder (\<^verbatim>\<open>h_serialize\<close> tells whether it takes an entry, \<^verbatim>\<open>h_build\<close> gives the buffer
  of a list of entries, compact or full), the write failures of the files it opens, and whether a
  failure left \<^verbatim>\<open>ENOSPC\<close> or \<^verbatim>\<open>EDQUOT\<close> in \<^verbatim>\<open>errno\<close> (\<^verbatim>\<open>h_nospace\<close>). An open file appears in the file system with what
  has been written to it.
\<close>

record host =
  h_lib :: lib
  h_flatcc :: flatcc
  h_jansson :: jansson
  h_pcre2 :: pcre2
  h_avail :: "world \<Rightarrow> u64 option"
  h_clock :: clock
  h_rand :: nat
  h_segment_script :: "nat option list"
  h_index_script :: "nat option list"
  h_serialize :: "bool \<Rightarrow> LogEntry \<Rightarrow> bool"
  h_build :: "bool \<Rightarrow> LogEntry list \<Rightarrow> byte list option"
  h_nospace :: "world \<Rightarrow> bool"
  h_cursor_write :: "nat option"

subsection \<open>Rotation\<close>

datatype RotateReason =
    ROTATE_REASON_NONE
  | ROTATE_REASON_BOOT_ID
  | ROTATE_REASON_TIMEZONE
  | ROTATE_REASON_CLOCK_BACKWARD
  | ROTATE_REASON_CLOCK_FORWARD
  | ROTATE_REASON_AGE
  | ROTATE_REASON_SIZE

fun rotate_reason_code :: "RotateReason \<Rightarrow> u32" where
  "rotate_reason_code ROTATE_REASON_NONE = 0"
| "rotate_reason_code ROTATE_REASON_BOOT_ID = 1"
| "rotate_reason_code ROTATE_REASON_TIMEZONE = 2"
| "rotate_reason_code ROTATE_REASON_CLOCK_BACKWARD = 3"
| "rotate_reason_code ROTATE_REASON_CLOCK_FORWARD = 4"
| "rotate_reason_code ROTATE_REASON_AGE = 5"
| "rotate_reason_code ROTATE_REASON_SIZE = 6"

fun rotate_reason_text :: "RotateReason \<Rightarrow> string" where
  "rotate_reason_text ROTATE_REASON_BOOT_ID = ''boot_id changed''"
| "rotate_reason_text ROTATE_REASON_TIMEZONE = ''timezone changed''"
| "rotate_reason_text ROTATE_REASON_CLOCK_BACKWARD = ''realtime clock jumped backwards''"
| "rotate_reason_text ROTATE_REASON_CLOCK_FORWARD = ''realtime clock jumped forwards''"
| "rotate_reason_text ROTATE_REASON_AGE = ''segment age limit reached''"
| "rotate_reason_text ROTATE_REASON_SIZE = ''segment size limit reached''"
| "rotate_reason_text ROTATE_REASON_NONE = ''none''"

record RotateDecision =
  rd_reason :: RotateReason
  rd_delta_diff :: int

definition writer_should_rotate :: "clock \<Rightarrow> Recorder \<Rightarrow> PriorityWriter \<Rightarrow> LogEntry \<Rightarrow> RotateDecision" where
  "writer_should_rotate ck r w entry =
     (if \<not> pw_open w then \<lparr>rd_reason = ROTATE_REASON_NONE, rd_delta_diff = 0\<rparr>
      else if pw_clock_jump_seen_seq w \<noteq> r_clock_jump_seq r
      then \<lparr>rd_reason = (if r_clock_jump_usec r < 0 then ROTATE_REASON_CLOCK_BACKWARD
                         else ROTATE_REASON_CLOCK_FORWARD), rd_delta_diff = r_clock_jump_usec r\<rparr>
      else if le_realtime_ts entry < pw_first_realtime_ts w \<and>
              pw_first_realtime_ts w - le_realtime_ts entry > 1000
      then \<lparr>rd_reason = ROTATE_REASON_CLOCK_BACKWARD, rd_delta_diff = - 1000\<rparr>
      else if cstr (pw_boot_id w) \<noteq> [] \<and> cstr (le_boot_id entry) \<noteq> [] \<and>
              cstr (pw_boot_id w) \<noteq> cstr (le_boot_id entry)
      then \<lparr>rd_reason = ROTATE_REASON_BOOT_ID, rd_delta_diff = 0\<rparr>
      else if cstr (pw_timezone w) \<noteq> cstr (ck_timezone ck)
      then \<lparr>rd_reason = ROTATE_REASON_TIMEZONE, rd_delta_diff = 0\<rparr>
      else if rc_segment_max_age_sec (r_config r) \<noteq> 0 \<and>
              ck_mono_sec ck - pw_opened_mono_sec w \<ge> int (unat (rc_segment_max_age_sec (r_config r)))
      then \<lparr>rd_reason = ROTATE_REASON_AGE, rd_delta_diff = 0\<rparr>
      else if pw_bytes_written w \<ge> recorder_segment_limit r
      then \<lparr>rd_reason = ROTATE_REASON_SIZE, rd_delta_diff = 0\<rparr>
      else \<lparr>rd_reason = ROTATE_REASON_NONE, rd_delta_diff = 0\<rparr>)"

subsection \<open>Opening a segment\<close>

definition open_header :: "host \<Rightarrow> Recorder \<Rightarrow> PriorityWriter \<Rightarrow> LogEntry \<Rightarrow> bool \<Rightarrow> SegmentHeader" where
  "open_header H r w entry has_dict =
     zero_header\<lparr>sh_segment_seq := pw_segment_seq w, sh_boot_seq := le_boot_seq entry,
       sh_boot_id := take RECORDER_BOOT_ID_SIZE (le_boot_id entry),
       sh_timezone := ck_timezone (h_clock H),
       sh_first_realtime_ts := le_realtime_ts entry, sh_first_monotonic_ts := le_monotonic_ts entry,
       sh_flags :=
         (if config_uses_full_entries (r_config r) then 0 else SEGMENT_FLAG_COMPACT_ENTRIES) OR
         (if pw_encryptor w \<noteq> None then SEGMENT_FLAG_ENCRYPTED else 0) OR
         (if has_dict then SEGMENT_FLAG_HAS_STATIC_DICT else 0)\<rparr>"

text \<open>The fields of a freshly opened writer.\<close>

definition start_segment ::
    "host \<Rightarrow> Recorder \<Rightarrow> LogEntry \<Rightarrow> SegmentHeader \<Rightarrow> byte list \<Rightarrow> FILE \<Rightarrow> SegmentEncryptor option \<Rightarrow>
     IndexWriter \<Rightarrow> PriorityWriter \<Rightarrow> PriorityWriter" where
  "start_segment H r entry header dict_bytes fp enc iw w =
     (let now = ck_mono_sec (h_clock H); g = rc_groups (r_config r) ! pw_group_index w in
      w\<lparr>pw_fp := Some fp, pw_encryptor := enc, pw_index_writer := Some iw, pw_index_header := header,
        pw_boot_id := sh_boot_id header, pw_timezone := sh_timezone header,
        pw_boot_seq := le_boot_seq entry, pw_bytes_written := of_nat (ftell fp),
        pw_entry_count := 0, pw_first_realtime_ts := le_realtime_ts entry,
        pw_first_monotonic_ts := le_monotonic_ts entry,
        pw_previous_realtime_ts := le_realtime_ts entry, pw_max_realtime_ts := le_realtime_ts entry,
        pw_last_monotonic_ts := le_monotonic_ts entry, pw_realtime_nonmonotonic := False,
        pw_clock_jump_seen_seq := r_clock_jump_seq r, pw_opened_mono_sec := now,
        pw_last_chunk_flush_mono_sec := now, pw_last_sync_mono_sec := now,
        pw_unsynced_frames := 0, pw_compress_enabled := rc_compress_enabled (r_config r),
        pw_compress_min_frame_bytes := rc_compress_min_frame_bytes (r_config r),
        pw_compress_if_smaller := rc_compress_if_smaller (r_config r),
        pw_use_compact_entries := \<not> config_uses_full_entries (r_config r),
        pw_durable_per_frame := pg_durable_per_frame g,
        pw_durability_flush_frames := pg_durability_flush_frames g,
        pw_durability_flush_interval_sec := pg_durability_flush_interval_sec g,
        pw_dict_bytes := dict_bytes, pw_open := True\<rparr>)"

definition no_stream :: "PriorityWriter \<Rightarrow> PriorityWriter" where
  "no_stream w = w\<lparr>pw_fp := None, pw_encryptor := None, pw_index_writer := None\<rparr>"

text \<open>
  From the header on: the header goes to the temporary file, the index is created, the file is
  synced and renamed, the directory is synced. A failure removes what was created, except that a
  failed header write leaves the temporary file and a failed directory sync the segment.
\<close>

definition finish_open ::
    "host \<Rightarrow> Recorder \<Rightarrow> LogEntry \<Rightarrow> string \<Rightarrow> byte list \<Rightarrow> bool \<Rightarrow> PriorityWriter \<times> world \<Rightarrow>
     bool \<times> PriorityWriter \<times> world" where
  "finish_open H r entry dir dict_bytes has_dict s =
     (case s of (w, s0) \<Rightarrow>
        let header = open_header H r w entry has_dict in
        case segment_write_header (h_lib H) (h_rand H) (fopen_w (h_segment_script H)) header dict_bytes
               (pw_encryptor w) of
          (Inl _, fp, _) \<Rightarrow> (False, no_stream w, put_file (pw_tmp_path w) (contents fp) s0)
        | (Inr _, fp, enc) \<Rightarrow>
            (let s1 = put_file (pw_tmp_path w) (contents fp) s0 in
             case build_index_path s1 512 (pw_group_name w) (pw_segment_seq w) of
               None \<Rightarrow> (False, no_stream w, snd (unlink (pw_tmp_path w) s1))
             | Some idx_path \<Rightarrow>
                 (case fault s1 of (open_failed, s2) \<Rightarrow>
                    (case index_writer_open
                            (if open_failed then None else Some (fopen_w (h_index_script H)))
                            idx_path (sh_segment_seq header) (sh_flags header) of
                       None \<Rightarrow> (False, no_stream w,
                          snd (unlink (pw_tmp_path w) (if open_failed then s2 else remove_file idx_path s2)))
                     | Some iw \<Rightarrow>
                         (let s3 = put_file idx_path (contents (iw_fp iw)) s2 in
                          case fault s3 of
                            (True, s4) \<Rightarrow>
                              (False, (no_stream w)\<lparr>pw_index_header := header\<rparr>,
                               snd (unlink (pw_tmp_path w) (snd (unlink idx_path s4))))
                          | (False, s4) \<Rightarrow>
                              (case rename (pw_tmp_path w) (pw_path w) s4 of
                                 (False, s5) \<Rightarrow>
                                   (False, (no_stream w)\<lparr>pw_index_header := header\<rparr>,
                                    snd (unlink (pw_tmp_path w) (snd (unlink idx_path s5))))
                               | (True, s5) \<Rightarrow>
                                   (case fsync_dir_path dir s5 of
                                      (False, s6) \<Rightarrow>
                                        (False, (no_stream w)\<lparr>pw_index_header := header\<rparr>,
                                         snd (unlink idx_path s6))
                                    | (True, s6) \<Rightarrow>
                                        (True, start_segment H r entry header dict_bytes fp enc iw w, s6))))))))"

definition open_encryptor :: "host \<Rightarrow> RecorderConfig \<Rightarrow> PriorityWriter \<Rightarrow> PriorityWriter option" where
  "open_encryptor H cfg w =
     (case rc_encryption_public_key cfg of
        None \<Rightarrow> Some w
      | Some key_path \<Rightarrow>
          (case segment_encryptor_create (h_lib H) key_path of
             Inl _ \<Rightarrow> None
           | Inr e \<Rightarrow> Some (w\<lparr>pw_encryptor := Some e\<rparr>)))"

definition open_dict :: "PriorityGroup \<Rightarrow> world \<Rightarrow> (byte list \<times> bool) option" where
  "open_dict g s =
     (case pg_static_dict_path g of
        None \<Rightarrow> Some ([], False)
      | Some path \<Rightarrow>
          (case read_file path s of
             None \<Rightarrow> None
           | Some dict \<Rightarrow> if dict = [] then None else Some (dict, True)))"

definition writer_open_segment ::
    "host \<Rightarrow> LogEntry \<Rightarrow> Recorder \<times> PriorityWriter \<times> world \<Rightarrow> bool \<times> Recorder \<times> PriorityWriter \<times> world" where
  "writer_open_segment H entry s =
     (case s of (r, w, s0) \<Rightarrow>
        case build_segment_dir s0 256 (pw_group_name w) of
          None \<Rightarrow> (False, r, w, s0)
        | Some dir \<Rightarrow>
            (case mkdir_p dir s0 of
               (False, s1) \<Rightarrow> (False, r, w, s1)
             | (True, s1) \<Rightarrow>
                 (let w1 = w\<lparr>pw_segment_seq := r_next_segment_seq r\<rparr>;
                      r1 = r\<lparr>r_next_segment_seq := r_next_segment_seq r + 1\<rparr>
                  in case persist_next_segment_seq (r_next_segment_seq r1) s1 of
                       (False, s2) \<Rightarrow> (False, r1, w1, s2)
                     | (True, s2) \<Rightarrow>
                         (case (build_segment_path s2 512 (pw_group_name w) (pw_segment_seq w1),
                                build_segment_tmp_path s2 512 (pw_group_name w) (pw_segment_seq w1)) of
                            (Some path, Some tmp_path) \<Rightarrow>
                              (let w2 = w1\<lparr>pw_path := path, pw_tmp_path := tmp_path\<rparr> in
                               case fault s2 of
                                 (True, s3) \<Rightarrow> (False, r1, w2\<lparr>pw_fp := None\<rparr>, s3)
                               | (False, s3) \<Rightarrow>
                                   (let s4 = put_file tmp_path [] s3 in
                                    case open_encryptor H (r_config r) w2 of
                                      None \<Rightarrow> (False, r1, w2\<lparr>pw_fp := None\<rparr>, snd (unlink tmp_path s4))
                                    | Some w3 \<Rightarrow>
                                        (case open_dict (rc_groups (r_config r) ! pw_group_index w) s4 of
                                           None \<Rightarrow> (False, r1, no_stream w3, snd (unlink tmp_path s4))
                                         | Some (dict_bytes, has_dict) \<Rightarrow>
                                             (case finish_open H r1 entry dir dict_bytes has_dict (w3, s4) of
                                                (ok, w4, s5) \<Rightarrow> (ok, r1, w4, s5)))))
                          | _ \<Rightarrow> (False, r1, w1, s2)))))"

subsection \<open>Flushing a chunk\<close>

definition compress_chunk :: "lib \<Rightarrow> PriorityWriter \<Rightarrow> byte list \<Rightarrow> u32 \<times> byte list" where
  "compress_chunk L w raw =
     (if pw_compress_enabled w \<and> length raw \<ge> unat (pw_compress_min_frame_bytes w)
      then
        case (if pw_dict_bytes w \<noteq> [] then ZSTD_compress_usingDict L (pw_dict_bytes w) raw else ZSTD_compress L raw) of
          None \<Rightarrow> (SEGMENT_FRAME_FLAG_NONE, raw)
        | Some z \<Rightarrow>
            if \<not> pw_compress_if_smaller w \<or> length z < length raw then (SEGMENT_FRAME_FLAG_ZSTD, z)
            else (SEGMENT_FRAME_FLAG_NONE, raw)
      else (SEGMENT_FRAME_FLAG_NONE, raw))"

definition sync_due :: "clock \<Rightarrow> PriorityWriter \<Rightarrow> bool" where
  "sync_due ck w \<longleftrightarrow>
     pw_durable_per_frame w \<or>
     pw_durability_flush_interval_sec w \<noteq> 0 \<and>
       ck_mono_sec ck - pw_last_sync_mono_sec w \<ge> int (unat (pw_durability_flush_interval_sec w))"

definition synced :: "clock \<Rightarrow> PriorityWriter \<Rightarrow> PriorityWriter" where
  "synced ck w = w\<lparr>pw_unsynced_frames := 0, pw_last_sync_mono_sec := ck_mono_sec ck\<rparr>"

definition chunk_frame :: "PriorityWriter \<Rightarrow> u32 \<Rightarrow> byte list \<Rightarrow> byte list \<Rightarrow> nat \<Rightarrow> SegmentFrameInfo" where
  "chunk_frame w flags raw stored offset =
     \<lparr>fi_flags = flags, fi_stored_len = of_nat (length stored), fi_uncompressed_len = of_nat (length raw),
      fi_file_offset = of_nat offset,
      fi_frame_len = 16 + of_nat (length stored) + 4 + (if pw_encryptor w \<noteq> None then 16 else 0)\<rparr>"

text \<open>The body of \<^verbatim>\<open>writer_flush_chunk\<close> up to its exit label, which forgets the entries.\<close>

definition flush_body ::
    "host \<Rightarrow> byte list \<Rightarrow> FILE \<Rightarrow> IndexWriter \<Rightarrow> PriorityWriter \<times> world \<Rightarrow> bool \<times> PriorityWriter \<times> world" where
  "flush_body H raw fp iw s =
     (case s of (w, s0) \<Rightarrow>
        case compress_chunk (h_lib H) w raw of (flags, whole) \<Rightarrow>
        let stored = take (unat (of_nat (length whole) :: u32)) whole in
        (case segment_write_frame (h_lib H) fp (pw_encryptor w) flags stored (of_nat (length raw)) of
           (res, fp', enc') \<Rightarrow>
             (let w1 = w\<lparr>pw_fp := Some fp', pw_encryptor := enc'\<rparr>;
                  s1 = put_file (pw_path w) (contents fp') s0
              in case res of
                   Inl _ \<Rightarrow> (False, w1, s1)
                 | Inr _ \<Rightarrow>
                     (case fault s1 of
                        (True, s2) \<Rightarrow> (False, w1, s2)
                      | (False, s2) \<Rightarrow>
                          (case index_writer_append (h_flatcc H) (pw_index_header w)
                                  (chunk_frame w flags raw stored (ftell fp)) raw iw of
                             (ok, iw') \<Rightarrow>
                               (let w2 = w1\<lparr>pw_index_writer := Some iw'\<rparr>;
                                    s3 = put_file (iw_path iw') (contents (iw_fp iw')) s2
                                in if \<not> ok then (False, w2, s3)
                                   else
                                     let w3 = w2\<lparr>pw_bytes_written := of_nat (ftell fp'),
                                                 pw_unsynced_frames := pw_unsynced_frames w2 + 1\<rparr>
                                     in if sync_due (h_clock H) w3 \<or>
                                           pw_durability_flush_frames w3 \<noteq> 0 \<and>
                                           pw_unsynced_frames w3 \<ge> pw_durability_flush_frames w3
                                        then (case fault s3 of
                                                (True, s4) \<Rightarrow> (False, w3, s4)
                                              | (False, s4) \<Rightarrow> (True, synced (h_clock H) w3, s4))
                                        else (True, w3, s3)))))))"

definition drop_pending :: "clock \<Rightarrow> PriorityWriter \<Rightarrow> PriorityWriter" where
  "drop_pending ck w = w\<lparr>pw_entries := [], pw_last_chunk_flush_mono_sec := ck_mono_sec ck\<rparr>"

definition writer_flush_chunk :: "host \<Rightarrow> PriorityWriter \<times> world \<Rightarrow> bool \<times> PriorityWriter \<times> world" where
  "writer_flush_chunk H s =
     (case s of (w, s0) \<Rightarrow>
        if pw_entries w = [] then (True, w, s0)
        else
          (case (h_build H (pw_use_compact_entries w) (pw_entries w), pw_fp w, pw_index_writer w) of
             (Some raw, Some fp, Some iw) \<Rightarrow>
               if length raw > UINT32_MAX then (False, drop_pending (h_clock H) w, s0)
               else (case flush_body H raw fp iw (w, s0) of
                       (ok, w1, s1) \<Rightarrow> (ok, drop_pending (h_clock H) w1, s1))
           | _ \<Rightarrow> (False, drop_pending (h_clock H) w, s0)))"

subsection \<open>Closing and syncing\<close>

definition writer_footer :: "PriorityWriter \<Rightarrow> u32 \<Rightarrow> SegmentFooter" where
  "writer_footer w rotation_reason =
     \<lparr>ft_flags = (if pw_realtime_nonmonotonic w then SEGMENT_FOOTER_FLAG_REALTIME_NONMONOTONIC else 0),
      ft_rotation_reason = rotation_reason, ft_entry_count = pw_entry_count w,
      ft_last_realtime_ts = pw_max_realtime_ts w, ft_last_monotonic_ts = pw_last_monotonic_ts w,
      ft_present = False\<rparr>"

definition closed_writer :: "PriorityWriter \<Rightarrow> PriorityWriter" where
  "closed_writer w = w\<lparr>pw_fp := None, pw_encryptor := None, pw_open := False\<rparr>"

definition writer_close_segment :: "host \<Rightarrow> u32 \<Rightarrow> PriorityWriter \<times> world \<Rightarrow> bool \<times> PriorityWriter \<times> world" where
  "writer_close_segment H rotation_reason s =
     (if \<not> pw_open (fst s) then (True, s)
      else case writer_flush_chunk H s of
        (False, w1, s1) \<Rightarrow> (False, w1, s1)
      | (True, w1, s1) \<Rightarrow>
          (case (pw_fp w1, pw_index_writer w1) of
             (Some fp, Some iw) \<Rightarrow>
               (case segment_write_footer fp (writer_footer w1 rotation_reason) of
                  (res, fp') \<Rightarrow>
                    (let s2 = put_file (pw_path w1) (contents fp') s1 in
                     case res of
                       Inl _ \<Rightarrow> (False, closed_writer w1, s2)
                     | Inr _ \<Rightarrow>
                         (case fault s2 of
                            (True, s3) \<Rightarrow> (False, closed_writer w1, s3)
                          | (False, s3) \<Rightarrow>
                              (let w2 = w1\<lparr>pw_bytes_written := of_nat (ftell fp')\<rparr> in
                               case index_writer_close iw (pw_bytes_written w2) of
                                 (ok, ifp) \<Rightarrow>
                                   (let s4 = put_file (iw_path iw) (contents ifp) s3 in
                                    if \<not> ok
                                    then (False, (closed_writer w2)\<lparr>pw_index_writer := None\<rparr>, s4)
                                    else
                                      (True,
                                       (closed_writer w2)\<lparr>pw_index_writer := None, pw_boot_id := [],
                                          pw_timezone := [], pw_dict_bytes := []\<rparr>,
                                       case build_segment_dir s4 256 (pw_group_name w2) of
                                         None \<Rightarrow> s4
                                       | Some dir \<Rightarrow> snd (fsync_dir_path dir s4)))))))
           | _ \<Rightarrow> (False, w1, s1)))"

definition writer_sync_if_due :: "host \<Rightarrow> PriorityWriter \<times> world \<Rightarrow> bool \<times> PriorityWriter \<times> world" where
  "writer_sync_if_due H s =
     (case s of (w, s0) \<Rightarrow>
        if \<not> pw_open w \<or> pw_fp w = None \<or> pw_unsynced_frames w = 0 then (True, w, s0)
        else if sync_due (h_clock H) w
        then (case fault s0 of
                (True, s1) \<Rightarrow> (False, w, s1)
              | (False, s1) \<Rightarrow> (True, synced (h_clock H) w, s1))
        else (True, w, s0))"

subsection \<open>Taking an entry\<close>

text \<open>
  What \<^verbatim>\<open>recorder_submit_entry\<close> does to the writer's fields once the entry is serialized: it joins
  the pending chunk, and the figures of the footer are kept up to date.
\<close>

definition accept_entry :: "LogEntry \<Rightarrow> PriorityWriter \<Rightarrow> PriorityWriter" where
  "accept_entry entry w =
     w\<lparr>pw_entries := pw_entries w @ [entry], pw_entry_count := pw_entry_count w + 1,
       pw_realtime_nonmonotonic :=
         (pw_realtime_nonmonotonic w \<or> le_realtime_ts entry < pw_previous_realtime_ts w),
       pw_previous_realtime_ts := le_realtime_ts entry,
       pw_max_realtime_ts :=
         (if le_realtime_ts entry > pw_max_realtime_ts w then le_realtime_ts entry else pw_max_realtime_ts w),
       pw_last_monotonic_ts := le_monotonic_ts entry\<rparr>"

end
