(* ===== verification/Fallback.thy ===== *)
theory Fallback
  imports Store
begin

text \<open>
  \<^verbatim>\<open>src/fallback_source.c\<close>: the input without journald, a syslog datagram socket and the kernel
  message buffer. The parsers are modelled completely. What the kernel returns (files of
  \<^verbatim>\<open>/proc\<close>, the results of \<^verbatim>\<open>poll\<close>, \<^verbatim>\<open>recvmsg\<close> and \<^verbatim>\<open>read\<close>) are arguments; the socket's name is a
  file of the store's world, since \<^verbatim>\<open>bind\<close> creates it and refuses an existing one.
\<close>

record FallbackSource =
  fs_syslog_open :: bool
  fs_kmsg_open :: bool
  fs_unlink_syslog_path :: bool
  fs_syslog_path :: string
  fs_hostname :: "byte list"
  fs_boot_id :: "byte list"

record FallbackRecord =
  fr_realtime_ts :: u64
  fr_monotonic_ts :: u64
  fr_pid :: u32
  fr_uid :: u32
  fr_gid :: u32
  fr_priority :: u8
  fr_boot_id :: "byte list"
  fr_hostname :: "byte list"
  fr_comm :: "byte list"
  fr_exe :: "byte list"
  fr_message :: "byte list option"

abbreviation (input) FALLBACK_MESSAGE_MAX :: nat where "FALLBACK_MESSAGE_MAX \<equiv> 65536"

record procfs =
  proc_read :: "string \<Rightarrow> byte list option"
  proc_readlink :: "string \<Rightarrow> byte list option"

subsection \<open>Process metadata\<close>

definition read_text_file :: "procfs \<Rightarrow> string \<Rightarrow> nat \<Rightarrow> byte list" where
  "read_text_file P path dst_size =
     (case proc_read P path of
        None \<Rightarrow> []
      | Some bs \<Rightarrow> takeWhile (\<lambda>c. c \<noteq> 0 \<and> c \<noteq> 0x0d \<and> c \<noteq> 0x0a) (take (dst_size - 1) bs))"

definition isxdigit :: "byte \<Rightarrow> bool" where
  "isxdigit c \<longleftrightarrow> 0x30 \<le> c \<and> c \<le> 0x39 \<or> 0x41 \<le> c \<and> c \<le> 0x46 \<or> 0x61 \<le> c \<and> c \<le> 0x66"

definition read_boot_id :: "procfs \<Rightarrow> byte list" where
  "read_boot_id P =
     (let out = take 32 (filter isxdigit (read_text_file P ''/proc/sys/kernel/random/boot_id'' 64))
      in if length out \<noteq> 32 then [] else out)"

definition read_process_metadata :: "procfs \<Rightarrow> FallbackRecord \<Rightarrow> FallbackRecord" where
  "read_process_metadata P r =
     (if fr_pid r = 0 then r
      else
        let pid = decimal (unat (fr_pid r));
            r = (if cstr (fr_comm r) = []
                 then r\<lparr>fr_comm := read_text_file P (''/proc/'' @ pid @ ''/comm'') 256\<rparr> else r)
        in case proc_readlink P (''/proc/'' @ pid @ ''/exe'') of
             None \<Rightarrow> r
           | Some target \<Rightarrow> if target = [] then r else r\<lparr>fr_exe := take (PATH_MAX - 1) target\<rparr>)"

subsection \<open>Syslog datagrams\<close>

definition byte_is_digit :: "byte \<Rightarrow> bool" where
  "byte_is_digit c \<longleftrightarrow> 0x30 \<le> c \<and> c \<le> 0x39"

text \<open>
  The priority in angle brackets: up to fifteen digits are looked at. The number and what follows
  it; a number above 191 keeps the text but is returned all the same.
\<close>

definition parse_pri :: "byte list \<Rightarrow> u64 \<times> byte list" where
  "parse_pri data =
     (if length data \<ge> 3 \<and> hd data = 0x3c
      then
        let ds = takeWhile byte_is_digit (take 15 (tl data)); i = 1 + length ds
        in if ds \<noteq> [] \<and> i < length data \<and> data ! i = 0x3e
           then let pri = st_value (strtoull (bytes_str ds))
                in (pri, if pri \<le> 191 then drop (i + 1) data else data)
           else (13, data)
      else (13, data))"

text \<open>The conventional \<^verbatim>\<open>TAG[PID]: message\<close>: the tag and the rest, if the text has that form.\<close>

definition parse_tag :: "byte list \<Rightarrow> (byte list \<times> byte list) option" where
  "parse_tag message =
     (if 0x3a \<in> set message
      then
        let before = takeWhile (\<lambda>c. c \<noteq> 0x3a) message; colon = length before;
            tag = takeWhile (\<lambda>c. c \<noteq> 0x5b) before
        in if colon + 1 < length message \<and> message ! (colon + 1) = 0x20 \<and> colon < 256 \<and> tag \<noteq> []
           then Some (tag, drop (colon + 2) message) else None
      else None)"

definition parse_syslog_payload :: "byte list \<Rightarrow> FallbackRecord \<Rightarrow> FallbackRecord" where
  "parse_syslog_payload data r =
     (case parse_pri data of
        (pri, message) \<Rightarrow>
          let r = r\<lparr>fr_priority := ucast (pri AND 7)\<rparr>
          in case parse_tag message of
               None \<Rightarrow> r\<lparr>fr_message := Some message\<rparr>
             | Some (tag, rest) \<Rightarrow> r\<lparr>fr_comm := tag, fr_message := Some rest\<rparr>)"

datatype recv_result =
    RecvAgain
  | RecvError
  | RecvTruncated
  | RecvData "byte list" "(u32 \<times> u32 \<times> u32) option"

datatype next_result = NextError | NextNone | NextRecord FallbackRecord

definition receive_syslog :: "procfs \<Rightarrow> recv_result \<Rightarrow> FallbackRecord \<Rightarrow> next_result" where
  "receive_syslog P recv r =
     (case recv of
        RecvAgain \<Rightarrow> NextNone
      | RecvError \<Rightarrow> NextError
      | RecvTruncated \<Rightarrow> NextNone
      | RecvData data cred \<Rightarrow>
          let r = (case cred of
                     None \<Rightarrow> r
                   | Some (pid, uid, gid) \<Rightarrow> r\<lparr>fr_pid := pid, fr_uid := uid, fr_gid := gid\<rparr>)
          in NextRecord (read_process_metadata P (parse_syslog_payload data r)))"

subsection \<open>Kernel messages\<close>

datatype kmsg_result = KmsgAgain | KmsgError | KmsgEof | KmsgData "byte list"

definition parse_kmsg :: "byte list \<Rightarrow> FallbackRecord \<Rightarrow> FallbackRecord" where
  "parse_kmsg data r =
     (let priority =
            (if 0x2c \<in> set data
             then st_value (strtoull (bytes_str (cstr (takeWhile (\<lambda>c. c \<noteq> 0x2c) data)))) else 6);
          message = (if 0x3b \<in> set data then tl (dropWhile (\<lambda>c. c \<noteq> 0x3b) data) else data)
      in r\<lparr>fr_priority := (if priority \<le> 7 then ucast priority else 6),
           fr_comm := str_bytes ''kernel'', fr_message := Some (cstr message)\<rparr>)"

definition receive_kmsg :: "kmsg_result \<Rightarrow> FallbackRecord \<Rightarrow> next_result" where
  "receive_kmsg k r =
     (case k of
        KmsgAgain \<Rightarrow> NextNone
      | KmsgError \<Rightarrow> NextError
      | KmsgEof \<Rightarrow> NextNone
      | KmsgData data \<Rightarrow> NextRecord (parse_kmsg (take (FALLBACK_MESSAGE_MAX - 1) data) r))"

subsection \<open>The source\<close>

definition fallback_source_close :: "FallbackSource \<times> world \<Rightarrow> FallbackSource \<times> world" where
  "fallback_source_close s =
     (case s of (src, w) \<Rightarrow>
        (src\<lparr>fs_syslog_open := False, fs_kmsg_open := False\<rparr>,
         if fs_unlink_syslog_path src \<and> fs_syslog_path src \<noteq> [] then snd (unlink (fs_syslog_path src) w) else w))"

text \<open>\<^verbatim>\<open>bind\<close> creates the socket's name and fails where the name exists.\<close>

definition bind_path :: "string \<Rightarrow> world \<Rightarrow> bool \<times> world" where
  "bind_path path w =
     (case fault w of
        (failed, w') \<Rightarrow>
          if failed \<or> stat path w' \<noteq> None then (False, w') else (True, put_file path [] w'))"

definition open_syslog :: "string \<Rightarrow> FallbackSource \<times> world \<Rightarrow> bool \<times> FallbackSource \<times> world" where
  "open_syslog path s =
     (case s of (src, w) \<Rightarrow>
        if length path \<ge> 108 then (False, src, w)
        else case fault w of
          (True, w1) \<Rightarrow> (False, src, w1)
        | (False, w1) \<Rightarrow>
            let src = src\<lparr>fs_syslog_open := True\<rparr> in
            case bind_path path w1 of
              (False, w2) \<Rightarrow> (False, src, w2)
            | (True, w2) \<Rightarrow>
                (case fault w2 of
                   (True, w3) \<Rightarrow> (False, src, w3)
                 | (False, w3) \<Rightarrow>
                     (True, src\<lparr>fs_syslog_path := path, fs_unlink_syslog_path := True\<rparr>, w3)))"

definition open_kmsg :: "string \<Rightarrow> FallbackSource \<times> world \<Rightarrow> bool \<times> FallbackSource \<times> world" where
  "open_kmsg path s =
     (case s of (src, w) \<Rightarrow>
        case fault w of
          (True, w1) \<Rightarrow> (False, src, w1)
        | (False, w1) \<Rightarrow> (True, src\<lparr>fs_kmsg_open := True\<rparr>, w1))"

definition optionally :: "('p \<Rightarrow> 's \<Rightarrow> bool \<times> 's) \<Rightarrow> 'p option \<Rightarrow> 's \<Rightarrow> bool \<times> 's" where
  "optionally f p s = (case p of None \<Rightarrow> (True, s) | Some x \<Rightarrow> f x s)"

definition fallback_source_open ::
    "procfs \<Rightarrow> byte list option \<Rightarrow> string option \<Rightarrow> string option \<Rightarrow> world \<Rightarrow> bool \<times> FallbackSource \<times> world" where
  "fallback_source_open P hostname syslog_path kernel_path w =
     (let src = \<lparr>fs_syslog_open = False, fs_kmsg_open = False, fs_unlink_syslog_path = False,
                 fs_syslog_path = [], fs_hostname = (case hostname of None \<Rightarrow> [] | Some h \<Rightarrow> take 255 h),
                 fs_boot_id = read_boot_id P\<rparr>
      in case optionally open_syslog syslog_path (src, w) of
           (False, s1) \<Rightarrow> (False, fallback_source_close s1)
         | (True, s1) \<Rightarrow>
             (case optionally open_kmsg kernel_path s1 of
                (False, s2) \<Rightarrow> (False, fallback_source_close s2)
              | (True, s2) \<Rightarrow>
                  if syslog_path \<noteq> None \<or> kernel_path \<noteq> None then (True, s2)
                  else (False, fallback_source_close s2)))"

record poll_result =
  po_rc :: int
  po_syslog_error :: bool
  po_syslog_in :: bool
  po_kmsg_error :: bool
  po_kmsg_in :: bool
  po_realtime :: u64
  po_monotonic :: u64
  po_recv :: recv_result
  po_kmsg :: kmsg_result

definition zero_record :: FallbackRecord where
  "zero_record =
     \<lparr>fr_realtime_ts = 0, fr_monotonic_ts = 0, fr_pid = 0, fr_uid = 0, fr_gid = 0, fr_priority = 0,
      fr_boot_id = [], fr_hostname = [], fr_comm = [], fr_exe = [], fr_message = None\<rparr>"

definition fallback_source_next :: "procfs \<Rightarrow> FallbackSource \<Rightarrow> poll_result \<Rightarrow> next_result" where
  "fallback_source_next P src p =
     (if po_rc p < 0 then NextError
      else if po_rc p = 0 then NextNone
      else if fs_syslog_open src \<and> po_syslog_error p \<or> fs_kmsg_open src \<and> po_kmsg_error p then NextError
      else
        let r = zero_record\<lparr>fr_realtime_ts := po_realtime p, fr_monotonic_ts := po_monotonic p,
                            fr_boot_id := fs_boot_id src, fr_hostname := fs_hostname src\<rparr>
        in if fs_syslog_open src \<and> po_syslog_in p then receive_syslog P (po_recv p) r
           else if fs_kmsg_open src \<and> po_kmsg_in p then receive_kmsg (po_kmsg p) r
           else NextNone)"


subsection \<open>Syslog round trip\<close>

lemma digit_chars_more: "digit_char 2 = CHR ''2''" "digit_char 3 = CHR ''3''" "digit_char 5 = CHR ''5''"
  by code_simp+

lemma bytes_of_decimal:
  "takeWhile byte_is_digit (str_bytes (decimal n) @ 0x3e # rest) = str_bytes (decimal n)"
proof -
  have "byte_is_digit (of_char (digit_char d))" if "d < 10" for d
  proof -
    have "d \<in> {0, 1, 2, 3, 4, 5, 6, 7, 8, 9}" using that by auto
    then show ?thesis by (elim insertE emptyE) (simp_all add: digit_chars digit_chars_more byte_is_digit_def)
  qed
  with decimal_digits [of n] have "\<forall>c \<in> set (str_bytes (decimal n)). byte_is_digit c"
    by (auto simp: str_bytes_def list_all_iff)
  then show ?thesis
    by (subst takeWhile_append2) (auto simp: byte_is_digit_def)
qed

lemma parse_pri_printed:
  assumes "n \<le> 999999999999999"
  shows "parse_pri (str_bytes (''<'' @ decimal n @ ''>'') @ rest) =
    (of_nat n, if n \<le> 191 then rest else str_bytes (''<'' @ decimal n @ ''>'') @ rest)"
proof -
  have l: "length (decimal n) \<le> 15" using assms by (intro length_decimal) simp_all
  have d: "str_bytes (''<'' @ decimal n @ ''>'') @ rest = 0x3c # str_bytes (decimal n) @ 0x3e # rest"
    by (simp add: str_bytes_def)
  have "takeWhile byte_is_digit (take 15 (str_bytes (decimal n) @ 0x3e # rest)) = str_bytes (decimal n)"
  proof (cases "length (decimal n) = 15")
    case True
    then have "take 15 (str_bytes (decimal n) @ 0x3e # rest) = str_bytes (decimal n)" by simp
    then show ?thesis using bytes_of_decimal [of n "[]"] 
      by (metis (no_types) append_Nil2 takeWhile_append1 takeWhile_eq_all_conv)
  next
    case False
    with l obtain k where k: "15 = Suc (length (decimal n) + k)" by (metis le_neq_implies_less less_iff_Suc_add)
    have "take 15 (str_bytes (decimal n) @ 0x3e # rest) = str_bytes (decimal n) @ 0x3e # take k rest"
      unfolding k by simp
    then show ?thesis by (simp add: bytes_of_decimal)
  qed
  moreover have "strtoull (bytes_str (str_bytes (decimal n))) = \<lparr>st_value = of_nat n, st_range_error = False, st_end = []\<rparr>"
    using strtoull_decimal [of n "[]"] assms by (simp add: bytes_str_bytes no_digit_head_def)
  moreover have "(of_nat n :: u64) \<le> 191 \<longleftrightarrow> n \<le> 191"
    using assms by (simp add: word_le_nat_alt unat_of_nat)
  moreover have "Suc 0 \<le> length (decimal n)" using decimal_nonempty [of n] by (simp add: Suc_le_eq)
  ultimately show ?thesis
    unfolding d by (simp add: parse_pri_def Let_def nth_append str_bytes_def)
qed


lemma parse_tag_printed:
  assumes tag: "tag \<noteq> []" "0x3a \<notin> set tag" "0x5b \<notin> set tag"
    and pid: "pid = [] \<or> hd pid = 0x5b" "0x3a \<notin> set pid" and len: "length tag + length pid < 256"
  shows "parse_tag (tag @ pid @ [0x3a, 0x20] @ msg) = Some (tag, msg)"
proof -
  have b: "takeWhile (\<lambda>c. c \<noteq> 0x3a) (tag @ pid @ [0x3a, 0x20] @ msg) = tag @ pid"
    using tag(2) pid(2) by (subst append_assoc [symmetric], subst takeWhile_append2) auto
  have t: "takeWhile (\<lambda>c. c \<noteq> 0x5b) (tag @ pid) = tag"
    using tag(3) pid(1) by (subst takeWhile_append2) (auto, cases pid, auto)
  show ?thesis
    unfolding parse_tag_def b t Let_def using tag(1) len by (simp add: nth_append)
qed

text \<open>
  C32. A syslog datagram in the conventional form, a priority number up to 191 in angle brackets,
  a tag, optionally a process id in brackets, a colon, a blank and the text, is parsed into
  exactly these parts: the priority is the number modulo 8, the tag becomes the command name and
  the text the message. A datagram without a number keeps its text and gets priority 5.
\<close>

theorem syslog_datagram_parsed:
  assumes "pri \<le> 191" and "tag \<noteq> []" and "0x3a \<notin> set tag" and "0x5b \<notin> set tag"
    and "pid = [] \<or> hd pid = 0x5b" and "0x3a \<notin> set pid" and "length tag + length pid < 256"
  shows "parse_syslog_payload (str_bytes (''<'' @ decimal pri @ ''>'') @ tag @ pid @ [0x3a, 0x20] @ msg) r =
      r\<lparr>fr_priority := of_nat (pri mod 8), fr_comm := tag, fr_message := Some msg\<rparr> \<and>
    (hd tag \<noteq> 0x3c \<longrightarrow> parse_syslog_payload (tag @ pid) r = r\<lparr>fr_priority := 5, fr_message := Some (tag @ pid)\<rparr>)"
proof -
  have m: "(7 :: u64) = mask 3" by (simp add: mask_eq_exp_minus_1)
  have "unat ((of_nat pri :: u64) AND 7) = pri mod 8"
    unfolding m take_bit_eq_mask [symmetric] unsigned_take_bit_eq
    using assms(1) by (simp add: unat_of_nat take_bit_eq_mod)
  then have p: "ucast ((of_nat pri :: u64) AND 7) = (of_nat (pri mod 8) :: u8)"
    by (metis of_nat_unat)
  have tg: "parse_tag (tag @ pid @ [0x3a, 0x20] @ msg) = Some (tag, msg)"
    by (rule parse_tag_printed [OF assms(2-7)])
  have "parse_syslog_payload (str_bytes (''<'' @ decimal pri @ ''>'') @ tag @ pid @ [0x3a, 0x20] @ msg) r =
      r\<lparr>fr_priority := of_nat (pri mod 8), fr_comm := tag, fr_message := Some msg\<rparr>"
    unfolding parse_syslog_payload_def using assms(1) parse_pri_printed [of pri] tg p by simp
  moreover have "parse_syslog_payload (tag @ pid) r = r\<lparr>fr_priority := 5, fr_message := Some (tag @ pid)\<rparr>" if "hd tag \<noteq> 0x3c"
    using that assms(2,3,6) by (simp add: parse_syslog_payload_def parse_pri_def parse_tag_def)
  ultimately show ?thesis by blast
qed

theorem syslog_datagram_parsed_witness:
  "parse_syslog_payload (str_bytes ''<30>cron[7]: hello'') zero_record =
     zero_record\<lparr>fr_priority := 6, fr_comm := str_bytes ''cron'', fr_message := Some (str_bytes ''hello'')\<rparr>"
proof -
  have "decimal 30 = ''30''" by (simp add: decimal.simps digit_chars digit_chars_more)
  then show ?thesis
    using syslog_datagram_parsed [of 30 "str_bytes ''cron''" "str_bytes ''[7]''" "str_bytes ''hello''" zero_record]
    by (simp add: str_bytes_def)
qed

end
