(* ===== verification/Entries.thy ===== *)
theory Entries
  imports Recorder_State Fallback
begin

text \<open>
  From a journal record or a fallback record to a \<^verbatim>\<open>LogEntry\<close>, and the modifiers applied to it
  (\<^verbatim>\<open>src/recorder.c\<close>, built with systemd and PCRE2). What \<^verbatim>\<open>sd-journal\<close> returns for its current record
  is the record \<^verbatim>\<open>sd_entry\<close>; without a journal it is absent. A field is \<^verbatim>\<open>None\<close> where the C structure
  holds a null pointer. Allocation does not fail.
\<close>

record sd_entry =
  sd_get_data :: "string \<Rightarrow> byte list option"
  sd_enumerate :: "byte list list"
  sd_realtime :: "u64 option"
  sd_monotonic :: "u64 option"
  sd_cursor :: "string option"

subsection \<open>Journal fields\<close>

abbreviation (input) EQ :: byte where "EQ \<equiv> 0x3d"

definition journal_get_field :: "sd_entry option \<Rightarrow> string \<Rightarrow> byte list option" where
  "journal_get_field j field =
     (case j of
        None \<Rightarrow> None
      | Some e \<Rightarrow>
          (case sd_get_data e field of
             None \<Rightarrow> None
           | Some data \<Rightarrow> if EQ \<in> set data then Some (tl (dropWhile (\<lambda>c. c \<noteq> EQ) data)) else None))"

definition journal_get_u64 :: "sd_entry option \<Rightarrow> string \<Rightarrow> u64" where
  "journal_get_u64 j field =
     (case journal_get_field j field of
        None \<Rightarrow> 0
      | Some v \<Rightarrow> if v = [] then 0 else st_value (strtoull (bytes_str (cstr (take 31 v)))))"

definition journal_get_u32 :: "sd_entry option \<Rightarrow> string \<Rightarrow> u32" where
  "journal_get_u32 j field = ucast (journal_get_u64 j field)"

definition journal_field_nonempty :: "byte list option \<Rightarrow> byte list option" where
  "journal_field_nonempty v = (if v = Some [] then None else v)"

definition clamp_u16 :: "u64 \<Rightarrow> u16" where
  "clamp_u16 v = (if v > 65535 then 65535 else ucast v)"

definition copy_journal_field :: "nat \<Rightarrow> byte list option \<Rightarrow> byte list" where
  "copy_journal_field dst_size v = (case v of None \<Rightarrow> [] | Some bs \<Rightarrow> take (dst_size - 1) bs)"

definition hex_digit :: "nat \<Rightarrow> char" where
  "hex_digit d = char_of (if d < 10 then 48 + d else 55 + d)"

text \<open>What \<^verbatim>\<open>print_journal_field\<close> sends to standard output.\<close>

definition print_journal_field :: "byte list option \<Rightarrow> bool \<Rightarrow> byte list" where
  "print_journal_field v sanitize =
     (case v of
        None \<Rightarrow> []
      | Some bs \<Rightarrow>
          concat (map (\<lambda>c. if sanitize \<and> (c < 0x20 \<and> c \<noteq> 0x0a \<and> c \<noteq> 0x09 \<or> c = 0x7f)
                           then str_bytes [CHR 0x5C, CHR ''x'', hex_digit (unat c div 16), hex_digit (unat c mod 16)]
                           else [c]) bs))"

definition journal_basename_field :: "byte list option \<Rightarrow> byte list option" where
  "journal_basename_field v =
     (case v of
        None \<Rightarrow> None
      | Some bs \<Rightarrow> Some (rev (takeWhile (\<lambda>c. c \<noteq> 0x2f) (rev bs))))"

subsection \<open>Capturing\<close>

definition fixed_fields :: "string list" where
  "fixed_fields = [''MESSAGE'', ''MESSAGE_ID'', ''_SYSTEMD_UNIT'', ''_HOSTNAME'', ''_COMM'', ''_EXE'',
     ''_PID'', ''_UID'', ''_GID'', ''PRIORITY'', ''ERRNO'']"

definition journal_field_name_is_listed :: "byte list \<Rightarrow> string list \<Rightarrow> bool" where
  "journal_field_name_is_listed name lst \<longleftrightarrow> list_ex (\<lambda>s. str_bytes s = name) lst"

definition journal_field_name_is_fixed :: "byte list \<Rightarrow> bool" where
  "journal_field_name_is_fixed name \<longleftrightarrow> journal_field_name_is_listed name fixed_fields"

definition captured_extra_field :: "RecorderConfig \<Rightarrow> byte list \<Rightarrow> (byte list \<times> byte list) option" where
  "captured_extra_field cfg data =
     (if EQ \<notin> set data then None
      else
        let name = takeWhile (\<lambda>c. c \<noteq> EQ) data
        in if name = [] \<or> journal_field_name_is_fixed name \<or>
              rc_capture_fields_whitelist cfg \<noteq> [] \<and>
                \<not> journal_field_name_is_listed name (rc_capture_fields_whitelist cfg) \<or>
              journal_field_name_is_listed name (rc_capture_fields_blacklist cfg)
           then None
           else Some (name, drop (length name + 1) data))"

definition capture_extra_journal_fields :: "RecorderConfig \<Rightarrow> sd_entry option \<Rightarrow> (byte list \<times> byte list) list" where
  "capture_extra_journal_fields cfg j =
     (case j of None \<Rightarrow> [] | Some e \<Rightarrow> List.map_filter (captured_extra_field cfg) (sd_enumerate e))"

definition journal_field_for_capture :: "sd_entry option \<Rightarrow> string \<Rightarrow> bool \<Rightarrow> byte list option" where
  "journal_field_for_capture j name capture_all_fields =
     (let v = journal_get_field j name in if capture_all_fields then v else journal_field_nonempty v)"

definition entry_boot_seq :: "BootRegistry \<Rightarrow> byte list \<Rightarrow> u32 \<times> BootRegistry" where
  "entry_boot_seq boots boot_id = (if cstr boot_id = [] then (0, boots) else boot_registry_seq boots boot_id)"

definition note_first_realtime :: "BootRegistry \<Rightarrow> byte list \<Rightarrow> u64 \<Rightarrow> BootRegistry" where
  "note_first_realtime boots boot_id ts =
     (case boot_registry_get boots boot_id of
        (i, boots') \<Rightarrow>
          if be_first_realtime_ts (boots' ! i) = 0
          then boots'[i := (boots' ! i)\<lparr>be_first_realtime_ts := ts\<rparr>] else boots')"

definition zero_entry :: LogEntry where
  "zero_entry =
     \<lparr>le_realtime_ts = 0, le_monotonic_ts = 0, le_monotonic_tie_order = 0, le_pid = 0, le_uid = 0,
      le_gid = 0, le_boot_seq = 0, le_priority = 0, le_errno_value = 0, le_boot_id = [],
      le_message = None, le_message_id = None, le_hostname = None, le_unit = None, le_comm = None,
      le_exe = None, le_extra_fields = []\<rparr>"

definition extract_entry ::
    "RecorderConfig \<Rightarrow> sd_entry \<Rightarrow> BootRegistry \<Rightarrow> LogEntry \<times> BootRegistry" where
  "extract_entry cfg e boots =
     (let j = Some e; all_fields = rc_capture_all_fields cfg;
          boot_id = copy_journal_field 33 (journal_field_nonempty (journal_get_field j ''_BOOT_ID''));
          realtime = (case sd_realtime e of None \<Rightarrow> 0 | Some t \<Rightarrow> t);
          (boot_seq, boots1) = entry_boot_seq boots boot_id;
          capture = (\<lambda>wanted name. if all_fields \<or> wanted then journal_field_for_capture j name all_fields else None)
      in (zero_entry
            \<lparr>le_boot_id := boot_id, le_realtime_ts := realtime,
             le_monotonic_ts := (case sd_monotonic e of None \<Rightarrow> 0 | Some t \<Rightarrow> t),
             le_priority := ucast (journal_get_u32 j ''PRIORITY''),
             le_errno_value := clamp_u16 (journal_get_u64 j ''ERRNO''), le_boot_seq := boot_seq,
             le_message := capture True ''MESSAGE'',
             le_message_id := capture (rc_capture_message_id cfg) ''MESSAGE_ID'',
             le_unit := capture (rc_capture_unit cfg) ''_SYSTEMD_UNIT'',
             le_hostname := capture (rc_capture_hostname cfg) ''_HOSTNAME'',
             le_comm := capture (rc_capture_comm cfg) ''_COMM'',
             le_exe := capture (rc_capture_exe cfg) ''_EXE'',
             le_pid := (if all_fields \<or> rc_capture_pid cfg \<or> \<not> config_uses_full_entries cfg
                        then journal_get_u32 j ''_PID'' else 0),
             le_uid := (if all_fields \<or> rc_capture_uid cfg then journal_get_u32 j ''_UID'' else 0),
             le_gid := (if all_fields \<or> rc_capture_gid cfg then journal_get_u32 j ''_GID'' else 0),
             le_extra_fields := (if all_fields then capture_extra_journal_fields cfg j else [])\<rparr>,
          note_first_realtime boots1 boot_id realtime))"

subsection \<open>Fallback records\<close>

definition set_owned_log_field :: "byte list \<Rightarrow> byte list option" where
  "set_owned_log_field v = (if cstr v = [] then None else Some (cstr v))"

definition extract_fallback_entry ::
    "RecorderConfig \<Rightarrow> FallbackRecord \<Rightarrow> BootRegistry \<Rightarrow> (LogEntry \<times> BootRegistry) option" where
  "extract_fallback_entry cfg r boots =
     (let all_fields = rc_capture_all_fields cfg; boot_id = cstr (fr_boot_id r);
          capture = (\<lambda>wanted v. if all_fields \<or> wanted then set_owned_log_field v else None)
      in if length boot_id \<ge> 33 then None
         else
           let (boot_seq, boots1) = entry_boot_seq boots boot_id
           in Some
                (zero_entry
                   \<lparr>le_realtime_ts := fr_realtime_ts r, le_monotonic_ts := fr_monotonic_ts r,
                    le_priority := (if fr_priority r \<le> 7 then fr_priority r else 5),
                    le_pid := (if all_fields \<or> rc_capture_pid cfg \<or> \<not> config_uses_full_entries cfg
                               then fr_pid r else 0),
                    le_uid := (if all_fields \<or> rc_capture_uid cfg then fr_uid r else 0),
                    le_gid := (if all_fields \<or> rc_capture_gid cfg then fr_gid r else 0),
                    le_boot_id := boot_id, le_boot_seq := boot_seq,
                    le_message := (case fr_message r of None \<Rightarrow> None | Some m \<Rightarrow> set_owned_log_field m),
                    le_hostname := capture (rc_capture_hostname cfg) (fr_hostname r),
                    le_comm := capture (rc_capture_comm cfg) (fr_comm r),
                    le_exe := capture (rc_capture_exe cfg) (fr_exe r)\<rparr>,
                 note_first_realtime boots1 boot_id (fr_realtime_ts r)))"

subsection \<open>Modifiers\<close>

definition entry_field_for_modifier :: "LogEntry \<Rightarrow> string \<Rightarrow> byte list option" where
  "entry_field_for_modifier e name =
     (if name = ''MESSAGE'' then le_message e
      else if name = ''MESSAGE_ID'' then le_message_id e
      else if name = ''_HOSTNAME'' then le_hostname e
      else if name = ''_SYSTEMD_UNIT'' then le_unit e
      else if name = ''_COMM'' then le_comm e
      else if name = ''_EXE'' then le_exe e
      else None)"

definition entry_field_for_rewrite :: "LogEntry \<Rightarrow> string \<Rightarrow> byte list \<Rightarrow> LogEntry option" where
  "entry_field_for_rewrite e name v =
     (if name = ''MESSAGE'' then Some (e\<lparr>le_message := Some v\<rparr>)
      else if name = ''MESSAGE_ID'' then Some (e\<lparr>le_message_id := Some v\<rparr>)
      else if name = ''_HOSTNAME'' then Some (e\<lparr>le_hostname := Some v\<rparr>)
      else if name = ''_SYSTEMD_UNIT'' then Some (e\<lparr>le_unit := Some v\<rparr>)
      else if name = ''_COMM'' then Some (e\<lparr>le_comm := Some v\<rparr>)
      else if name = ''_EXE'' then Some (e\<lparr>le_exe := Some v\<rparr>)
      else None)"

text \<open>
  The replacement text: \<^verbatim>\<open>$$\<close> is a dollar sign, \<^verbatim>\<open>$0\<close> to \<^verbatim>\<open>$9\<close> a group of the match, empty where
  the group is unset. A group whose end lies before its start asks for an impossible length.
\<close>

fun build_regex_replacement ::
    "string \<Rightarrow> byte list \<Rightarrow> (nat \<times> nat) option list \<Rightarrow> byte list option" where
  "build_regex_replacement [] subj ov = Some []"
| "build_regex_replacement (c # cs) subj ov =
     (if c = CHR ''$'' \<and> cs \<noteq> [] \<and> hd cs = CHR ''$''
      then map_option ((@) [0x24]) (build_regex_replacement (tl cs) subj ov)
      else if c = CHR ''$'' \<and> cs \<noteq> [] \<and> is_digit (hd cs)
      then
        let group = digit_val (hd cs); rest = build_regex_replacement (tl cs) subj ov
        in if group \<ge> length ov then rest
           else case ov ! group of
             None \<Rightarrow> rest
           | Some (a, b) \<Rightarrow> if b < a then None else map_option ((@) (take (b - a) (drop a subj))) rest
      else map_option ((@) [of_char c]) (build_regex_replacement cs subj ov))"

text \<open>
  Whether a modifier matches, with the groups of a match; \<^verbatim>\<open>None\<close> where the matcher fails.
\<close>

definition modifier_matches ::
    "pcre2 \<Rightarrow> EntryModifier \<Rightarrow> byte list option \<Rightarrow> (bool \<times> (nat \<times> nat) option list) option" where
  "modifier_matches R m subj =
     (case em_match_kind m of
        MODIFIER_MATCH_PRESENT \<Rightarrow> Some ((subj \<noteq> None) = em_match_present m, [])
      | MODIFIER_MATCH_EXACT \<Rightarrow> Some (subj = Some (str_bytes (em_match_exact m)), [])
      | MODIFIER_MATCH_REGEX \<Rightarrow>
          (case subj of
             None \<Rightarrow> Some (False, [])
           | Some s \<Rightarrow>
               (case re_match R (em_match_regex m) s of
                  ReNoMatch \<Rightarrow> Some (False, [])
                | ReError \<Rightarrow> None
                | ReMatch ov \<Rightarrow> Some (True, ov))))"

record ScriptJobSpec =
  sj_argv :: "string list"
  sj_json_payload :: string
  sj_env :: "(string \<times> byte list) list"
  sj_timeout_sec :: u32

definition script_field_ok :: "jansson \<Rightarrow> byte list \<Rightarrow> bool" where
  "script_field_ok J v \<longleftrightarrow> v \<noteq> [] \<and> length v \<le> 64 * 1024 \<and> 0 \<notin> set v \<and> json_utf8 J v"

definition script_fields :: "LogEntry \<Rightarrow> (string \<times> byte list option) list" where
  "script_fields e =
     (let num = (\<lambda>n. Some (str_bytes (decimal n))) in
      [(''REC_REALTIME_TS'', num (unat (le_realtime_ts e))), (''REC_MONOTONIC_TS'', num (unat (le_monotonic_ts e))),
       (''REC_BOOT_SEQ'', num (unat (le_boot_seq e))), (''REC_PRIORITY'', num (unat (le_priority e))),
       (''REC_PID'', num (unat (le_pid e))), (''REC_UID'', num (unat (le_uid e))), (''REC_GID'', num (unat (le_gid e))),
       (''REC_BOOT_ID'', Some (cstr (le_boot_id e))), (''REC_MESSAGE'', le_message e),
       (''REC_MESSAGE_ID'', le_message_id e), (''REC_HOSTNAME'', le_hostname e),
       (''REC_SYSTEMD_UNIT'', le_unit e), (''REC_COMM'', le_comm e), (''REC_EXE'', le_exe e)])"

text \<open>The job a matching script modifier hands to the worker, if any.\<close>

definition recorder_script_modifier_enqueue ::
    "jansson \<Rightarrow> EntryModifier \<Rightarrow> LogEntry \<Rightarrow> bool \<Rightarrow> ScriptJobSpec option" where
  "recorder_script_modifier_enqueue J m e is_replay =
     (if is_replay \<and> \<not> em_script_run_on_replay m then None
      else
        let env = List.map_filter
              (\<lambda>(n, v). case v of None \<Rightarrow> None | Some bs \<Rightarrow> if script_field_ok J bs then Some (n, bs) else None)
              (script_fields e)
        in case json_dumps J (JObject (map (\<lambda>(n, bs). (n, JString bs)) env @ [(''REC_IS_REPLAY'', JBool is_replay)])) of
             None \<Rightarrow> None
           | Some payload \<Rightarrow>
               Some \<lparr>sj_argv = em_script_command m, sj_json_payload = payload, sj_env = env,
                     sj_timeout_sec = em_script_timeout_sec m\<rparr>)"

datatype modifier_result = ModError | ModKeep | ModDrop | ModOutOfBounds

definition rewrite_entry ::
    "EntryModifier \<Rightarrow> byte list option \<Rightarrow> (nat \<times> nat) option list \<Rightarrow> LogEntry \<Rightarrow> LogEntry option" where
  "rewrite_entry m subj ov e =
     (case em_rewrite_field m of
        None \<Rightarrow> Some e
      | Some field \<Rightarrow>
          (case build_regex_replacement (em_replacement m) (case subj of None \<Rightarrow> [] | Some s \<Rightarrow> s) ov of
             None \<Rightarrow> None
           | Some replacement \<Rightarrow> entry_field_for_rewrite e field (cstr replacement)))"

fun apply_modifier_list ::
    "pcre2 \<Rightarrow> jansson \<Rightarrow> sd_entry option \<Rightarrow> bool \<Rightarrow> EntryModifier list \<Rightarrow> LogEntry \<Rightarrow> ScriptJobSpec list \<Rightarrow>
     modifier_result \<times> LogEntry \<times> ScriptJobSpec list" where
  "apply_modifier_list R J j is_replay [] e jobs = (ModKeep, e, jobs)"
| "apply_modifier_list R J j is_replay (m # ms) e jobs =
     (let subj = (case entry_field_for_modifier e (em_match_field m) of
                    Some v \<Rightarrow> Some v
                  | None \<Rightarrow> journal_get_field j (em_match_field m))
      in case modifier_matches R m subj of
           None \<Rightarrow> (ModError, e, jobs)
         | Some (matched, ov) \<Rightarrow>
             if (if em_negate m then matched else \<not> matched) then apply_modifier_list R J j is_replay ms e jobs
             else
               case rewrite_entry m subj ov e of
                 None \<Rightarrow> (ModError, e, jobs)
               | Some e1 \<Rightarrow>
                   let e2 = (if em_set_priority m \<ge> 0 then e1\<lparr>le_priority := of_int (em_set_priority m)\<rparr> else e1);
                       jobs2 = (if em_script_command m = [] then jobs
                                else case recorder_script_modifier_enqueue J m e2 is_replay of
                                  None \<Rightarrow> jobs
                                | Some job \<Rightarrow> jobs @ [job])
                   in if em_drop m then (ModDrop, e2, jobs2)
                      else apply_modifier_list R J j is_replay ms e2 jobs2)"

text \<open>
  The group of a priority; an entry with a priority above 7 reads behind the array, which is the
  result \<^verbatim>\<open>OutOfBounds\<close> of the operations that look it up.
\<close>

datatype group_lookup = GroupIndex nat | NoGroup | OutOfBounds

definition priority_group :: "RecorderConfig \<Rightarrow> u8 \<Rightarrow> group_lookup" where
  "priority_group cfg priority =
     (if unat priority \<ge> 8 then OutOfBounds
      else
        let group_index = rc_priority_to_group cfg ! unat priority
        in if group_index < 0 \<or> nat group_index \<ge> length (rc_groups cfg) then NoGroup
           else GroupIndex (nat group_index))"

abbreviation (input) MAX_MODIFIER_REROUTES :: nat where "MAX_MODIFIER_REROUTES \<equiv> 8"

fun reroute_loop ::
    "pcre2 \<Rightarrow> jansson \<Rightarrow> RecorderConfig \<Rightarrow> sd_entry option \<Rightarrow> bool \<Rightarrow> nat \<Rightarrow> u32 \<Rightarrow>
     LogEntry \<Rightarrow> ScriptJobSpec list \<Rightarrow> modifier_result \<times> LogEntry \<times> ScriptJobSpec list" where
  "reroute_loop R J cfg j is_replay 0 seen e jobs = (ModDrop, e, jobs)"
| "reroute_loop R J cfg j is_replay (Suc left) seen e jobs =
     (case priority_group cfg (le_priority e) of
        OutOfBounds \<Rightarrow> (ModOutOfBounds, e, jobs)
      | NoGroup \<Rightarrow> (ModError, e, jobs)
      | GroupIndex g \<Rightarrow>
          (case apply_modifier_list R J j is_replay (pg_modifiers (rc_groups cfg ! g)) e jobs of
             (ModKeep, e1, jobs1) \<Rightarrow>
               if le_priority e1 = le_priority e then (ModKeep, e1, jobs1)
               else if bit seen (unat (le_priority e1)) then (ModDrop, e1, jobs1)
               else reroute_loop R J cfg j is_replay left (set_bit (unat (le_priority e1)) seen) e1 jobs1
           | (res, e1, jobs1) \<Rightarrow> (res, e1, jobs1)))"

definition apply_entry_modifiers ::
    "pcre2 \<Rightarrow> jansson \<Rightarrow> RecorderConfig \<Rightarrow> sd_entry option \<Rightarrow> bool \<Rightarrow> LogEntry \<Rightarrow>
     modifier_result \<times> LogEntry \<times> ScriptJobSpec list" where
  "apply_entry_modifiers R J cfg j is_replay e =
     (case apply_modifier_list R J j is_replay (rc_modifiers cfg) e [] of
        (ModKeep, e1, jobs) \<Rightarrow>
          reroute_loop R J cfg j is_replay MAX_MODIFIER_REROUTES (set_bit (unat (le_priority e1)) 0) e1 jobs
      | (res, e1, jobs) \<Rightarrow> (res, e1, jobs))"

subsection \<open>Order of entries with one timestamp\<close>

abbreviation (input) UINT16_MAX :: u16 where "UINT16_MAX \<equiv> 65535"

definition recorder_assign_monotonic_tie_order :: "Recorder \<Rightarrow> LogEntry \<Rightarrow> Recorder \<times> LogEntry" where
  "recorder_assign_monotonic_tie_order r e =
     (let e0 = e\<lparr>le_monotonic_tie_order := 0\<rparr> in
      if le_monotonic_ts e = 0 then (r, e0)
      else
        let (r1, e1) =
              (if r_have_last_received_monotonic_ts r \<and> r_last_received_boot_seq r = le_boot_seq e \<and>
                  r_last_received_monotonic_ts r = le_monotonic_ts e
               then if r_monotonic_tie_order r < UINT16_MAX
                    then (r\<lparr>r_monotonic_tie_order := r_monotonic_tie_order r + 1\<rparr>,
                          e\<lparr>le_monotonic_tie_order := r_monotonic_tie_order r + 1\<rparr>)
                    else (r, e\<lparr>le_monotonic_tie_order := UINT16_MAX\<rparr>)
               else (r\<lparr>r_monotonic_tie_order := 0\<rparr>, e0))
        in (r1\<lparr>r_last_received_monotonic_ts := le_monotonic_ts e, r_last_received_boot_seq := le_boot_seq e,
               r_have_last_received_monotonic_ts := True\<rparr>, e1))"


subsection \<open>The reroute loop\<close>

text \<open>
  The loop without its bound, as a function that ends because every round that goes on has met a
  priority for the first time (or one outside the table, where the next round stops).
\<close>

definition unseen :: "u32 \<Rightarrow> nat set" where
  "unseen seen = {p. p < 8 \<and> \<not> bit seen p}"

lemma finite_unseen [simp]: "finite (unseen seen)"
  by (simp add: unseen_def)

lemma unseen_set_bit: "p < 8 \<Longrightarrow> \<not> bit seen p \<Longrightarrow> card (unseen seen) = Suc (card (unseen (set_bit p seen)))"
proof -
  assume p: "p < 8" "\<not> bit seen p"
  have "unseen (set_bit p seen) = unseen seen - {p}"
    by (auto simp: unseen_def bit_set_bit_iff possible_bit_def)
  moreover have "p \<in> unseen seen" using p by (simp add: unseen_def)
  ultimately show ?thesis by (simp only: card_Suc_Diff1 [OF finite_unseen])
qed

lemma unseen_set_bit_high: "8 \<le> p \<Longrightarrow> unseen (set_bit p seen) = unseen seen"
  by (auto simp: unseen_def bit_set_bit_iff)

lemma priority_group_in_table: "priority_group cfg p = GroupIndex g \<Longrightarrow> unat p < 8"
  by (simp add: priority_group_def Let_def split: if_splits)

function reroute ::
    "pcre2 \<Rightarrow> jansson \<Rightarrow> RecorderConfig \<Rightarrow> sd_entry option \<Rightarrow> bool \<Rightarrow> u32 \<Rightarrow>
     LogEntry \<Rightarrow> ScriptJobSpec list \<Rightarrow> modifier_result \<times> LogEntry \<times> ScriptJobSpec list" where
  "reroute R J cfg j is_replay seen e jobs =
     (case priority_group cfg (le_priority e) of
        OutOfBounds \<Rightarrow> (ModOutOfBounds, e, jobs)
      | NoGroup \<Rightarrow> (ModError, e, jobs)
      | GroupIndex g \<Rightarrow>
          (case apply_modifier_list R J j is_replay (pg_modifiers (rc_groups cfg ! g)) e jobs of
             (ModKeep, e1, jobs1) \<Rightarrow>
               if le_priority e1 = le_priority e then (ModKeep, e1, jobs1)
               else if bit seen (unat (le_priority e1)) then (ModDrop, e1, jobs1)
               else reroute R J cfg j is_replay (set_bit (unat (le_priority e1)) seen) e1 jobs1
           | (res, e1, jobs1) \<Rightarrow> (res, e1, jobs1)))"
  by pat_completeness auto

termination
proof (relation "measure (\<lambda>(R, J, cfg, j, is_replay, seen, e, jobs).
    2 * card (unseen seen) + (if unat (le_priority e) < 8 then 1 else 0))", goal_cases)
  case 1
  then show ?case by simp
next
  case (2 R J cfg j is_replay seen e jobs g res p e1 jobs1)
  then show ?case
    using priority_group_in_table [of cfg "le_priority e" g]
    by (cases "unat (le_priority e1) < 8") (auto simp: unseen_set_bit unseen_set_bit_high)
qed

declare reroute.simps [simp del]

definition priorities_ok :: "EntryModifier list \<Rightarrow> bool" where
  "priorities_ok ms \<longleftrightarrow> list_all (\<lambda>m. em_set_priority m \<le> 7) ms"

lemma entry_field_for_rewrite_priority: "entry_field_for_rewrite e f v = Some e' \<Longrightarrow> le_priority e' = le_priority e"
  by (auto simp: entry_field_for_rewrite_def split: if_splits)

lemma rewrite_entry_priority: "rewrite_entry m subj ov e = Some e' \<Longrightarrow> le_priority e' = le_priority e"
  by (auto simp: rewrite_entry_def dest: entry_field_for_rewrite_priority split: option.splits)

lemma apply_modifiers_priority:
  "apply_modifier_list R J j rep ms e jobs = (res, e', jobs') \<Longrightarrow> priorities_ok ms \<Longrightarrow>
   unat (le_priority e) < 8 \<Longrightarrow> unat (le_priority e') < 8"
proof (induction ms arbitrary: e jobs)
  case Nil
  then show ?case by simp
next
  case (Cons m ms)
  have step: "unat (le_priority (if em_set_priority m \<ge> 0 then x\<lparr>le_priority := of_int (em_set_priority m)\<rparr> else x)) < 8"
    if "unat (le_priority x) < 8" for x :: LogEntry
  proof (cases "em_set_priority m \<ge> 0")
    case True
    define n where "n = nat (em_set_priority m)"
    have n: "em_set_priority m = int n" "n < 8" using True Cons.prems(2) by (auto simp: n_def priorities_ok_def)
    then show ?thesis by (simp add: unat_of_nat)
  qed (use that in simp)
  have ok: "priorities_ok ms" using Cons.prems(2) by (simp add: priorities_ok_def)
  from Cons.prems(1) show ?case
    using Cons.IH [OF _ ok] Cons.prems(3) step rewrite_entry_priority [of m _ _ e]
    by (auto simp: Let_def split: option.splits if_splits prod.splits)
qed

lemma reroute_loop_enough:
  assumes "\<And>g. g < length (rc_groups cfg) \<Longrightarrow> priorities_ok (pg_modifiers (rc_groups cfg ! g))"
  shows "card (unseen seen) < n \<Longrightarrow>
    reroute_loop R J cfg j rep n seen e jobs = reroute R J cfg j rep seen e jobs"
proof (induction n arbitrary: seen e jobs)
  case 0
  then show ?case by simp
next
  case (Suc n)
  show ?case
  proof (cases "priority_group cfg (le_priority e)")
    case (GroupIndex g)
    obtain res e1 jobs1 where a: "apply_modifier_list R J j rep (pg_modifiers (rc_groups cfg ! g)) e jobs = (res, e1, jobs1)"
      by (metis prod_cases3)
    have g: "g < length (rc_groups cfg)" "unat (le_priority e) < 8"
      using GroupIndex by (auto simp: priority_group_def Let_def split: if_splits)
    from apply_modifiers_priority [OF a assms [OF g(1)] g(2)] have p: "unat (le_priority e1) < 8" .
    show ?thesis
    proof (cases "bit seen (unat (le_priority e1))")
      case True
      then show ?thesis using GroupIndex a by (simp add: reroute.simps [of _ _ _ _ _ seen] split: modifier_result.splits)
    next
      case False
      with unseen_set_bit [OF p] Suc.prems have "card (unseen (set_bit (unat (le_priority e1)) seen)) < n" by simp
      from Suc.IH [OF this] False GroupIndex a show ?thesis
        by (simp add: reroute.simps [of _ _ _ _ _ seen] split: modifier_result.splits)
    qed
  qed (simp_all add: reroute.simps)
qed


text \<open>The parser of modifiers admits no other target priority.\<close>

lemma modifier_set_priority_range: "modifier_set_priority item = Some p \<Longrightarrow> p \<le> 7"
  by (auto simp: modifier_set_priority_def split: option.splits json.splits if_splits)

lemma modifier_rewrite_priority: "modifier_rewrite item em = Some em' \<Longrightarrow> em_set_priority em' = em_set_priority em"
  by (auto simp: modifier_rewrite_def split: option.splits json.splits if_splits)

lemma modifier_script_priority: "modifier_script item em = Some em' \<Longrightarrow> em_set_priority em' = em_set_priority em"
  unfolding modifier_script_def
  by (auto simp: Option.bind_eq_Some_conv split: option.splits json.splits)

lemma parse_modifier_priority:
  assumes "parse_modifier R item = Some m"
  shows "em_set_priority m \<le> 7"
proof -
  from assms obtain em dr prio em1 where "modifier_set_priority item = Some prio"
    and "modifier_rewrite item (em\<lparr>em_drop := dr, em_set_priority := prio\<rparr>) = Some em1"
    and "modifier_script item em1 = Some m"
    unfolding parse_modifier_def Option.bind_eq_Some_conv by blast
  then show ?thesis
    using modifier_set_priority_range modifier_rewrite_priority modifier_script_priority by fastforce
qed

lemma parsed_priorities_ok:
  assumes ms: "json_get_modifier_list R owner lst = Some ms" and lst: "priorities_ok lst"
  shows "priorities_ok ms"
proof (cases "json_object_get owner ''modifiers''")
  case (Some x)
  with ms obtain items where "those (map (parse_modifier R) items) = Some ms"
    by (auto simp: json_get_modifier_list_def split: json.splits)
  then have "list_all2 (\<lambda>x y. parse_modifier R x = Some y) items ms" by (simp add: those_map)
  then show ?thesis
    unfolding priorities_ok_def list_all_iff
    by (auto simp: in_set_conv_nth list_all2_conv_all_nth) (blast intro: parse_modifier_priority)
qed (use assms in \<open>simp add: json_get_modifier_list_def\<close>)

lemma fresh_unseen: "p < 8 \<Longrightarrow> card (unseen (set_bit p (0 :: u32))) < 8"
proof -
  assume p: "p < 8"
  have "unseen (0 :: u32) = {..<8}" by (auto simp: unseen_def)
  with unseen_set_bit [OF p, of 0] show ?thesis by simp
qed

text \<open>
  C29. Rerouting always settles: whatever the modifiers of the groups do, the bound of eight
  rounds is never what ends \<^verbatim>\<open>apply_entry_modifiers\<close>. It computes the loop without a bound, which
  terminates because a round goes on only to a priority not met before; an entry is dropped by
  rerouting only when its priorities run in a circle. The parser guarantees the hypothesis.
\<close>

theorem rerouting_settles:
  assumes "\<And>g. g < length (rc_groups cfg) \<Longrightarrow> priorities_ok (pg_modifiers (rc_groups cfg ! g))"
  shows "apply_entry_modifiers R J cfg j is_replay e =
    (case apply_modifier_list R J j is_replay (rc_modifiers cfg) e [] of
       (ModKeep, e1, jobs) \<Rightarrow> reroute R J cfg j is_replay (set_bit (unat (le_priority e1)) 0) e1 jobs
     | (res, e1, jobs) \<Rightarrow> (res, e1, jobs))"
proof -
  have "reroute_loop R J cfg j is_replay 8 (set_bit (unat (le_priority e1)) 0) e1 jobs =
      reroute R J cfg j is_replay (set_bit (unat (le_priority e1)) 0) e1 jobs" for e1 jobs
  proof (cases "unat (le_priority e1) < 8")
    case True
    show ?thesis by (rule reroute_loop_enough [OF assms fresh_unseen [OF True]])
  next
    case False
    then have "priority_group cfg (le_priority e1) = OutOfBounds" by (simp add: priority_group_def)
    then show ?thesis by (simp add: reroute.simps numeral_eq_Suc)
  qed
  then show ?thesis
    by (simp add: apply_entry_modifiers_def split: prod.splits modifier_result.splits)
qed

definition reroute_modifier :: "int \<Rightarrow> EntryModifier" where
  "reroute_modifier p =
     empty_modifier\<lparr>em_match_field := ''MESSAGE'', em_match_kind := MODIFIER_MATCH_PRESENT, em_match_present := True,
       em_set_priority := p\<rparr>"

definition circular_config :: RecorderConfig where
  "circular_config = recorder_config_init\<lparr>rc_groups :=
     [empty_group\<lparr>pg_name := ''a'', pg_modifiers := [reroute_modifier 1]\<rparr>,
      empty_group\<lparr>pg_name := ''b'', pg_modifiers := [reroute_modifier 0]\<rparr>]\<rparr>"

theorem rerouting_settles_witness:
  "fst (apply_entry_modifiers demo_pcre2 demo_jansson circular_config None False
     (zero_entry\<lparr>le_message := Some [65]\<rparr>)) = ModDrop"
proof -
  have "priorities_ok (pg_modifiers (rc_groups circular_config ! g))" if "g < length (rc_groups circular_config)" for g
    using that by (auto simp: circular_config_def less_Suc_eq priorities_ok_def reroute_modifier_def empty_group_def empty_modifier_def)
  from rerouting_settles [OF this, of demo_pcre2 demo_jansson None False "zero_entry\<lparr>le_message := Some [65]\<rparr>"]
  show ?thesis
    by (simp add: circular_config_def recorder_config_init_def zero_entry_def reroute.simps priority_group_def
        reroute_modifier_def empty_group_def empty_modifier_def entry_field_for_modifier_def modifier_matches_def
        rewrite_entry_def bit_set_bit_iff)
qed

subsection \<open>Ties\<close>

fun assign_ties :: "Recorder \<Rightarrow> LogEntry list \<Rightarrow> LogEntry list" where
  "assign_ties r [] = []"
| "assign_ties r (e # es) =
     (case recorder_assign_monotonic_tie_order r e of (r', e') \<Rightarrow> e' # assign_ties r' es)"

text \<open>The position of every element in its run of equal elements.\<close>

fun run_positions :: "('k \<times> nat) option \<Rightarrow> 'k list \<Rightarrow> nat list" where
  "run_positions last_key [] = []"
| "run_positions last_key (k # ks) =
     (let n = (case last_key of Some (k', m) \<Rightarrow> if k' = k then m + 1 else 0 | None \<Rightarrow> 0)
      in n # run_positions (Some (k, n)) ks)"

definition tie_key :: "LogEntry \<Rightarrow> u32 \<times> u64" where
  "tie_key e = (le_boot_seq e, le_monotonic_ts e)"

definition timed :: "LogEntry \<Rightarrow> bool" where
  "timed e \<longleftrightarrow> le_monotonic_ts e \<noteq> 0"

definition tie_state :: "Recorder \<Rightarrow> ((u32 \<times> u64) \<times> nat) option \<Rightarrow> bool" where
  "tie_state r k \<longleftrightarrow>
     (case k of
        None \<Rightarrow> \<not> r_have_last_received_monotonic_ts r
      | Some ((b, m), n) \<Rightarrow> r_have_last_received_monotonic_ts r \<and> r_last_received_boot_seq r = b \<and>
          r_last_received_monotonic_ts r = m \<and> unat (r_monotonic_tie_order r) = min n 65535)"

lemma assign_ties_positions:
  "tie_state r k \<Longrightarrow>
   map (\<lambda>e. unat (le_monotonic_tie_order e)) (filter timed (assign_ties r es)) =
     map (min 65535) (run_positions k (map tie_key (filter timed es)))"
proof (induction es arbitrary: r k)
  case Nil
  then show ?case by simp
next
  case (Cons e es)
  show ?case
  proof (cases "timed e")
    case False
    then show ?thesis
      using Cons by (simp add: recorder_assign_monotonic_tie_order_def timed_def Let_def)
  next
    case True
    define n where "n = (case k of Some (k', m) \<Rightarrow> if k' = tie_key e then m + 1 else 0 | None \<Rightarrow> 0)"
    obtain r' e' where a: "recorder_assign_monotonic_tie_order r e = (r', e')" by fastforce
    have s: "(x :: u16) < 65535 \<Longrightarrow> unat (x + 1) = Suc (unat x)" for x
      by (simp add: unat_word_ariths word_less_nat_alt)
    have "tie_state r' (Some (tie_key e, n)) \<and> unat (le_monotonic_tie_order e') = min n 65535 \<and> timed e'"
      using a True Cons.prems s
      by (auto simp: recorder_assign_monotonic_tie_order_def tie_state_def timed_def tie_key_def n_def Let_def
          word_less_nat_alt split: option.splits if_splits)
    with Cons.IH [of r' "Some (tie_key e, n)"] a True show ?thesis
      by (simp add: n_def [symmetric] Let_def)
  qed
qed


lemma untimed_no_tie: "e \<in> set (assign_ties r es) \<Longrightarrow> \<not> timed e \<Longrightarrow> le_monotonic_tie_order e = 0"
  by (induction es arbitrary: r)
    (auto simp: recorder_assign_monotonic_tie_order_def timed_def Let_def split: if_splits)

text \<open>
  C30. Entries that share a boot and a monotonic time are numbered in the order they were
  received: \<^verbatim>\<open>recorder_assign_monotonic_tie_order\<close>, called on one entry after the other from a fresh
  recorder, gives each entry its position in the run of such entries, saturated at 65535; entries
  without a monotonic time get 0 and do not break a run.
\<close>

theorem ties_number_runs:
  assumes "\<not> r_have_last_received_monotonic_ts r"
  shows "map (\<lambda>e. unat (le_monotonic_tie_order e)) (filter timed (assign_ties r es)) =
      map (min 65535) (run_positions None (map tie_key (filter timed es))) \<and>
    (\<forall>e \<in> set (assign_ties r es). \<not> timed e \<longrightarrow> le_monotonic_tie_order e = 0)"
  using assms assign_ties_positions [of r None es] untimed_no_tie by (simp add: tie_state_def)

theorem ties_number_runs_witness:
  "map (\<lambda>e. unat (le_monotonic_tie_order e)) (filter timed (assign_ties (idle_recorder recorder_config_init)
     (map (\<lambda>t. zero_entry\<lparr>le_monotonic_ts := t\<rparr>) [5, 5, 0, 5, 6, 5]))) = [0, 1, 2, 0, 0]"
  using ties_number_runs [of "idle_recorder recorder_config_init" "map (\<lambda>t. zero_entry\<lparr>le_monotonic_ts := t\<rparr>) [5, 5, 0, 5, 6, 5]"]
  by (simp add: idle_recorder_def timed_def tie_key_def zero_entry_def)


subsection \<open>Priorities outside the table\<close>

lemma apply_modifier_list_result:
  "apply_modifier_list R J j rep ms e jobs = (res, e', jobs') \<Longrightarrow> res \<noteq> ModOutOfBounds"
  by (induction ms arbitrary: e jobs) (auto simp: Let_def split: option.splits if_splits prod.splits)

lemma reroute_in_bounds:
  assumes "\<And>g. g < length (rc_groups cfg) \<Longrightarrow> priorities_ok (pg_modifiers (rc_groups cfg ! g))"
  shows "unat (le_priority e) < 8 \<Longrightarrow> fst (reroute_loop R J cfg j rep n seen e jobs) \<noteq> ModOutOfBounds"
proof (induction n arbitrary: seen e jobs)
  case (Suc n)
  show ?case
  proof (cases "priority_group cfg (le_priority e)")
    case (GroupIndex g)
    obtain res e1 jobs1 where a: "apply_modifier_list R J j rep (pg_modifiers (rc_groups cfg ! g)) e jobs = (res, e1, jobs1)"
      by (metis prod_cases3)
    have g: "g < length (rc_groups cfg)"
      using GroupIndex by (auto simp: priority_group_def Let_def split: if_splits)
    from apply_modifiers_priority [OF a assms [OF g] Suc.prems] have "unat (le_priority e1) < 8" .
    from Suc.IH [OF this] GroupIndex a apply_modifier_list_result [OF a] show ?thesis
      by (simp split: modifier_result.splits)
  qed (use Suc.prems in \<open>simp_all add: priority_group_def Let_def split: if_splits\<close>)
qed simp

lemma modifiers_in_bounds:
  assumes "priorities_ok (rc_modifiers cfg)"
    and "\<And>g. g < length (rc_groups cfg) \<Longrightarrow> priorities_ok (pg_modifiers (rc_groups cfg ! g))"
    and "unat (le_priority e) < 8"
  shows "fst (apply_entry_modifiers R J cfg j is_replay e) \<noteq> ModOutOfBounds"
proof -
  obtain res e1 jobs1 where a: "apply_modifier_list R J j is_replay (rc_modifiers cfg) e [] = (res, e1, jobs1)"
    by (metis prod_cases3)
  from apply_modifiers_priority [OF a assms(1,3)] have "unat (le_priority e1) < 8" .
  from reroute_in_bounds [OF assms(2) this] a apply_modifier_list_result [OF a] show ?thesis
    by (simp add: apply_entry_modifiers_def split: modifier_result.splits)
qed

lemma journal_priority:
  assumes "sd_get_data e ''PRIORITY'' = Some (str_bytes (''PRIORITY='' @ decimal n))" and "n < 256"
  shows "unat (le_priority (fst (extract_entry cfg e boots))) = n"
proof -
  have f: "journal_get_field (Some e) ''PRIORITY'' = Some (str_bytes (decimal n))"
    by (simp add: journal_get_field_def assms(1) str_bytes_def)
  have l: "length (decimal n) \<le> 3" using assms(2) by (intro length_decimal) simp_all
  have nd: "no_digit_head []" by (simp add: no_digit_head_def)
  have "bytes_str (cstr (take 31 (str_bytes (decimal n)))) = decimal n"
    using l by (simp add: cstr_no_nul decimal_no_nul bytes_str_bytes)
  then have v: "journal_get_u64 (Some e) ''PRIORITY'' = of_nat n"
    using strtoull_decimal [OF _ nd, of n] assms(2) by (simp add: journal_get_u64_def f str_bytes_def)
  then show ?thesis
    using assms(2)
    by (simp add: extract_entry_def Let_def journal_get_u32_def case_prod_beta unsigned_ucast_eq unsigned_of_nat
        unsigned_take_bit_eq take_bit_nat_eq_self)
qed

lemma fallback_priority:
  assumes "extract_fallback_entry cfg rec boots = Some (e, boots')"
  shows "unat (le_priority e) < 8"
proof -
  obtain q b where q: "entry_boot_seq boots (cstr (fr_boot_id rec)) = (q, b)" by fastforce
  have "le_priority e = (if fr_priority rec \<le> 7 then fr_priority rec else 5)"
    using assms by (auto simp: extract_fallback_entry_def Let_def q zero_entry_def split: if_splits)
  then show ?thesis by (auto simp: word_le_nat_alt)
qed

lemma reroute_out_of_bounds:
  "priority_group cfg (le_priority e) = OutOfBounds \<Longrightarrow> 0 < n \<Longrightarrow>
   reroute_loop R J cfg j rep n seen e jobs = (ModOutOfBounds, e, jobs)"
  by (cases n) simp_all

definition wild_record :: sd_entry where
  "wild_record =
     \<lparr>sd_get_data = (\<lambda>f. if f = ''PRIORITY'' then Some (str_bytes (''PRIORITY='' @ decimal 200)) else None),
      sd_enumerate = [], sd_realtime = Some 5, sd_monotonic = Some 5, sd_cursor = Some ''c''\<rparr>"



end
