(* ===== verification/Cursor.thy ===== *)
theory Cursor
  imports Recorder_State
begin

text \<open>
  The small files around the store (\<^verbatim>\<open>src/recorder.c\<close>): the journal cursor checkpoints, the store id
  and the store lock. A cursor is overwritten in place and cut to its length afterwards;
  \<^verbatim>\<open>accepted\<close> is the number of bytes the one \<^verbatim>\<open>write\<close> call takes, \<^verbatim>\<open>None\<close> for all of them.
\<close>

abbreviation (input) RECORDER_CURSOR_MAX_BYTES :: nat where "RECORDER_CURSOR_MAX_BYTES \<equiv> 512"

definition RECORDER_CURSOR_PATH :: string where
  "RECORDER_CURSOR_PATH = ''/run/recorder/journal.cursor''"

record runtime_dirs =
  rd_is_tmpfs :: "string \<Rightarrow> bool"
  rd_writable :: "string \<Rightarrow> bool"
  rd_xdg_runtime_dir :: "string option"

definition select_runtime_cursor_path :: "runtime_dirs \<Rightarrow> nat \<Rightarrow> string option" where
  "select_runtime_cursor_path D path_size =
     (if rd_is_tmpfs D ''/run'' \<and> (rd_writable D ''/run/recorder'' \<or> rd_writable D ''/run'')
      then if length RECORDER_CURSOR_PATH < path_size then Some RECORDER_CURSOR_PATH else None
      else case rd_xdg_runtime_dir D of
        None \<Rightarrow> None
      | Some dir \<Rightarrow>
          if rd_is_tmpfs D dir \<and> rd_writable D dir
          then let path = dir @ ''/recorder/journal.cursor'' in if length path < path_size then Some path else None
          else None)"

definition read_journal_cursor :: "string \<Rightarrow> world \<Rightarrow> string option" where
  "read_journal_cursor path s =
     (case read_file path s of
        None \<Rightarrow> None
      | Some data \<Rightarrow>
          let cursor = take RECORDER_CURSOR_MAX_BYTES data
          in if 0 \<notin> set cursor \<or> cstr cursor = [] then None else Some (bytes_str (cstr cursor)))"

definition ensure_cursor_parent :: "string \<Rightarrow> world \<Rightarrow> bool \<times> world" where
  "ensure_cursor_parent path s =
     (case dir_of_path path of
        None \<Rightarrow> (True, s)
      | Some d \<Rightarrow>
          let parent = (if d = [] then ''/'' else d)
          in if length parent \<ge> PATH_MAX then (False, s) else mkdir_p parent s)"

text \<open>Bytes written over the start of a file; what lies behind them stays.\<close>

definition overwrite :: "byte list \<Rightarrow> byte list \<Rightarrow> byte list" where
  "overwrite new old = new @ drop (length new) old"

definition write_journal_cursor :: "nat option \<Rightarrow> string \<Rightarrow> string \<Rightarrow> world \<Rightarrow> bool \<times> world" where
  "write_journal_cursor accepted path cursor s =
     (let text_bytes = str_bytes cursor @ [0] in
      if length text_bytes > RECORDER_CURSOR_MAX_BYTES then (False, s)
      else case ensure_cursor_parent path s of
        (False, s1) \<Rightarrow> (False, s1)
      | (True, s1) \<Rightarrow>
          (case fault s1 of
             (True, s2) \<Rightarrow> (False, s2)
           | (False, s2) \<Rightarrow>
               (let old = (case read_file path s2 of None \<Rightarrow> [] | Some d \<Rightarrow> d);
                    s3 = (if read_file path s2 = None then put_file path [] s2 else s2)
                in case fault s3 of
                     (True, s4) \<Rightarrow> (False, s4)
                   | (False, s4) \<Rightarrow>
                       (let n = (case accepted of None \<Rightarrow> length text_bytes | Some k \<Rightarrow> min k (length text_bytes));
                            s5 = put_file path (overwrite (take n text_bytes) old) s4
                        in if n \<noteq> length text_bytes then (False, s5)
                           else case fault s5 of
                             (True, s6) \<Rightarrow> (False, s6)
                           | (False, s6) \<Rightarrow>
                               (case fault (put_file path text_bytes s6) of
                                  (sync_failed, s7) \<Rightarrow> (\<not> sync_failed, s7))))))"

definition persist_journal_cursor :: "nat option \<Rightarrow> Recorder \<Rightarrow> world \<Rightarrow> bool \<times> world" where
  "persist_journal_cursor accepted r s =
     (case r_pending_cursor r of
        None \<Rightarrow> (True, s)
      | Some cursor \<Rightarrow>
          if \<not> r_cursor_enabled r then (True, s) else write_journal_cursor accepted (r_cursor_path r) cursor s)"

subsection \<open>Store id and store lock\<close>

definition hex_char :: "char \<Rightarrow> nat option" where
  "hex_char c =
     (let n = (of_char c :: nat) in
      if 48 \<le> n \<and> n \<le> 57 then Some (n - 48)
      else if 65 \<le> n \<and> n \<le> 70 then Some (n - 55)
      else if 97 \<le> n \<and> n \<le> 102 then Some (n - 87) else None)"

definition is_hex :: "char \<Rightarrow> bool" where
  "is_hex c \<longleftrightarrow> hex_char c \<noteq> None"

definition hex_value :: "string \<Rightarrow> nat" where
  "hex_value ds = foldl (\<lambda>v c. 16 * v + the (hex_char c)) 0 ds"

text \<open>\<^verbatim>\<open>strtoull\<close> with base 16: whether it overflowed and where it stopped.\<close>

definition strtoull16 :: "string \<Rightarrow> bool \<times> string" where
  "strtoull16 txt =
     (let s = dropWhile is_space txt;
          s' = (if s \<noteq> [] \<and> (hd s = CHR ''-'' \<or> hd s = CHR ''+'') then tl s else s);
          s'' = (if length s' \<ge> 3 \<and> hd s' = CHR ''0'' \<and> (s' ! 1 = CHR ''x'' \<or> s' ! 1 = CHR ''X'') \<and> is_hex (s' ! 2)
                 then drop 2 s' else s');
          ds = takeWhile is_hex s''
      in if ds = [] then (False, txt) else (hex_value ds > 18446744073709551615, dropWhile is_hex s''))"

definition hex_lower :: "nat \<Rightarrow> char" where
  "hex_lower d = char_of (if d < 10 then 48 + d else 87 + d)"

fun hex_digits :: "nat \<Rightarrow> nat \<Rightarrow> string" where
  "hex_digits 0 n = []"
| "hex_digits (Suc k) n = hex_digits k (n div 16) @ [hex_lower (n mod 16)]"

text \<open>\<^verbatim>\<open>%016x\<close> of the value \<^verbatim>\<open>getrandom\<close> gave, \<^verbatim>\<open>None\<close> where it failed.\<close>

definition ensure_store_id :: "u64 option \<Rightarrow> world \<Rightarrow> bool \<times> world" where
  "ensure_store_id random_value s =
     (case build_state_store_id_path s PATH_MAX of
        None \<Rightarrow> (False, s)
      | Some path \<Rightarrow>
          (case read_file path s of
             Some raw \<Rightarrow>
               (case strtoull16 (bytes_str (cstr raw)) of
                  (overflow, rest) \<Rightarrow>
                    (\<not> overflow \<and> (rest = [] \<or> hd rest = CHR 0x0A) \<and> length raw = 17, s))
           | None \<Rightarrow>
               (case random_value of
                  None \<Rightarrow> (False, s)
                | Some v \<Rightarrow> atomic_write_text_file path (hex_digits 16 (unat v) @ [CHR 0x0A]) s)))"

definition recorder_acquire_store_lock :: "bool \<Rightarrow> world \<Rightarrow> bool \<times> world" where
  "recorder_acquire_store_lock locked_elsewhere s =
     (case build_log_path s PATH_MAX ''/state'' of
        None \<Rightarrow> (False, s)
      | Some dir \<Rightarrow>
          (case mkdir_p (w_log_dir s) s of
             (False, s1) \<Rightarrow> (False, s1)
           | (True, s1) \<Rightarrow>
               (case mkdir_p dir s1 of
                  (False, s2) \<Rightarrow> (False, s2)
                | (True, s2) \<Rightarrow>
                    (case build_state_lock_path s2 512 of
                       None \<Rightarrow> (False, s2)
                     | Some path \<Rightarrow>
                         (case fault s2 of
                            (True, s3) \<Rightarrow> (False, s3)
                          | (False, s3) \<Rightarrow>
                              (\<not> locked_elsewhere,
                               if read_file path s3 = None then put_file path [] s3 else s3))))))"


subsection \<open>Cursor checkpoints\<close>

lemma cstr_zero: "0 \<notin> set xs \<Longrightarrow> cstr (xs @ 0 # rest) = xs"
  unfolding cstr_def by (subst takeWhile_append2) auto

lemma read_written_cursor:
  assumes "read_file path s = Some (str_bytes cursor @ 0 # rest)"
    and "cursor \<noteq> []" and "CHR 0x00 \<notin> set cursor" and "length cursor < RECORDER_CURSOR_MAX_BYTES"
  shows "read_journal_cursor path s = Some cursor"
proof -
  have z: "0 \<notin> set (str_bytes cursor)"
    using cstr_no_nul [OF assms(3)] by (auto simp: cstr_def takeWhile_eq_all_conv)
  define k where "k = 511 - length cursor"
  have k: "RECORDER_CURSOR_MAX_BYTES = length cursor + Suc k" using assms(4) by (simp add: k_def)
  have t: "take RECORDER_CURSOR_MAX_BYTES (str_bytes cursor @ 0 # rest) = str_bytes cursor @ 0 # take k rest"
    unfolding k by simp
  have "str_bytes cursor \<noteq> []" using assms(2) by (simp add: str_bytes_def)
  then show ?thesis
    unfolding read_journal_cursor_def assms(1) option.case t Let_def cstr_zero [OF z] by (simp add: bytes_str_bytes)
qed

lemma ensure_parent_same: "ensure_cursor_parent path s = (b, s') \<Longrightarrow> same_files s s'"
  by (auto simp: ensure_cursor_parent_def Let_def dest: mkdir_p_same split: option.splits if_splits)

lemma read_cursor_same: "same_files s s' \<Longrightarrow> read_journal_cursor path s' = read_journal_cursor path s"
  using same_files_read by (simp add: read_journal_cursor_def)

lemma read_cursor_put_other: "p \<noteq> path \<Longrightarrow> read_journal_cursor path (put_file p d s) = read_journal_cursor path s"
  by (simp add: read_journal_cursor_def)

lemma write_cursor_effect:
  assumes wr: "write_journal_cursor accepted path cursor s = (ok, s')"
    and cur: "cursor \<noteq> []" "CHR 0x00 \<notin> set cursor"
  shows "(ok \<longrightarrow> read_journal_cursor path s' = Some cursor) \<and>
    (accepted = None \<longrightarrow> read_journal_cursor path s' \<in> {read_journal_cursor path s, Some cursor})"
proof (cases "length (str_bytes cursor @ [0]) > RECORDER_CURSOR_MAX_BYTES")
  case True
  then show ?thesis using wr by (simp add: write_journal_cursor_def)
next
  case False
  then have len: "length cursor < RECORDER_CURSOR_MAX_BYTES" by simp
  let ?t = "str_bytes cursor @ [0]"
  obtain b1 s1 where e: "ensure_cursor_parent path s = (b1, s1)" by fastforce
  obtain b2 s2 where f2: "fault s1 = (b2, s2)" by fastforce
  note r2 = read_cursor_same [OF same_files_trans [OF ensure_parent_same [OF e] conjunct1 [OF fault_same [OF f2]]], of path]
  let ?old = "case read_file path s2 of None \<Rightarrow> [] | Some d \<Rightarrow> d"
  let ?s3 = "if read_file path s2 = None then put_file path [] s2 else s2"
  obtain b4 s4 where f4: "fault ?s3 = (b4, s4)" by fastforce
  have r4: "read_journal_cursor path s4 = read_journal_cursor path s"
    using read_cursor_same [OF conjunct1 [OF fault_same [OF f4]], of path] r2
    by (auto simp: read_journal_cursor_def split: if_splits)
  let ?n = "case accepted of None \<Rightarrow> length ?t | Some k \<Rightarrow> min k (length ?t)"
  let ?s5 = "put_file path (overwrite (take ?n ?t) ?old) s4"
  obtain b6 s6 where f6: "fault ?s5 = (b6, s6)" by fastforce
  obtain b7 s7 where f7: "fault (put_file path ?t s6) = (b7, s7)" by fastforce
  have r5: "read_journal_cursor path s6 = Some cursor" if "?n = length ?t"
    using read_cursor_same [OF conjunct1 [OF fault_same [OF f6]], of path] read_written_cursor [OF _ cur len, of path ?s5] that
    by (simp add: overwrite_def)
  have r7: "read_journal_cursor path s7 = Some cursor"
    using read_cursor_same [OF conjunct1 [OF fault_same [OF f7]], of path]
      read_written_cursor [OF _ cur len, of path "put_file path ?t s6" "[]"] by simp
  have s1: "read_journal_cursor path s1 = read_journal_cursor path s"
    by (rule read_cursor_same [OF ensure_parent_same [OF e]])
  note wr' = wr [unfolded write_journal_cursor_def Let_def if_not_P [OF False] e prod.case f2 f4 f6 f7]
  show ?thesis
    using wr' s1 r2 r4 r5 r7 by (auto split: bool.splits if_splits option.splits)
qed

text \<open>
  C33. A cursor that \<^verbatim>\<open>write_journal_cursor\<close> reports as written is read back by
  \<^verbatim>\<open>read_journal_cursor\<close>, whatever longer or shorter cursor the file held before. As long as the one
  \<^verbatim>\<open>write\<close> call is not cut short, a failure at any other point (the directory, the open, the
  truncation, the sync) leaves the old cursor or the new one, never a mixture.
\<close>

theorem cursor_checkpoint:
  assumes wr: "write_journal_cursor accepted path cursor s = (ok, s')"
    and cur: "cursor \<noteq> []" "CHR 0x00 \<notin> set cursor"
  shows "(ok \<longrightarrow> read_journal_cursor path s' = Some cursor) \<and>
    (accepted = None \<longrightarrow> read_journal_cursor path s' \<in> {read_journal_cursor path s, Some cursor})"
  by (rule write_cursor_effect [OF assms])

theorem cursor_checkpoint_witness:
  "read_journal_cursor ''/l/c'' (snd (write_journal_cursor None ''/l/c'' ''s=2'' (put_file ''/l/c'' (str_bytes ''s=1;longer'' @ [0]) (demo_world []))))
     = Some ''s=2''"
proof -
  let ?s = "put_file ''/l/c'' (str_bytes ''s=1;longer'' @ [0]) (demo_world [])"
  obtain ok s' where w: "write_journal_cursor None ''/l/c'' ''s=2'' ?s = (ok, s')" by fastforce
  have "fst (write_journal_cursor None ''/l/c'' ''s=2'' ?s)" by code_simp
  with cursor_checkpoint [OF w] show ?thesis by (simp add: w)
qed

end
