(* ===== verification/Recorder.thy ===== *)
theory Recorder
  imports Writer Entries Cursor Recovery
begin

text \<open>
  The recording process of \<^verbatim>\<open>src/recorder.c\<close>: sampling the clock, choosing and rotating the writer of an
  entry, submitting it with space recovery, one step over the journal or the fallback source,
  flushing with a cursor checkpoint, start and shutdown. The state of an operation is the pair of
  the recorder and the world. Messages to the terminal are left out.
\<close>

subsection \<open>Clock jumps\<close>

definition c_half :: "int \<Rightarrow> int" where
  "c_half x = (if x \<ge> 0 then x div 2 else - ((- x) div 2))"

definition recorder_sample_clock :: "int \<Rightarrow> int \<Rightarrow> int \<Rightarrow> Recorder \<Rightarrow> Recorder" where
  "recorder_sample_clock boot1 realtime boot2 r =
     (if realtime < 0 \<or> boot1 < 0 \<or> boot2 < 0 then r
      else
        let offset = realtime - (boot1 + c_half (boot2 - boot1))
        in if \<not> r_clock_offset_initialized r
           then r\<lparr>r_last_clock_offset_usec := offset, r_clock_offset_initialized := True\<rparr>
           else
             let jump = offset - r_last_clock_offset_usec r; r1 = r\<lparr>r_last_clock_offset_usec := offset\<rparr>
             in if jump < - 1000 \<or> jump > 1000000
                then r1\<lparr>r_clock_jump_usec := jump, r_clock_jump_seq := r_clock_jump_seq r + 1\<rparr> else r1)"

subsection \<open>Submitting an entry\<close>

definition on_writer ::
    "nat \<Rightarrow> (PriorityWriter \<times> world \<Rightarrow> bool \<times> PriorityWriter \<times> world) \<Rightarrow> Recorder \<times> world \<Rightarrow>
     bool \<times> Recorder \<times> world" where
  "on_writer i f st =
     (case st of (r, s) \<Rightarrow>
        (case f (r_writers r ! i, s) of
           (ok, w, s') \<Rightarrow> (ok, r\<lparr>r_writers := (r_writers r)[i := w]\<rparr>, s')))"

definition recorder_close_writer :: "host \<Rightarrow> nat \<Rightarrow> u32 \<Rightarrow> Recorder \<times> world \<Rightarrow> bool \<times> Recorder \<times> world" where
  "recorder_close_writer H i rotation_reason st =
     (case on_writer i (writer_close_segment H rotation_reason) st of
        (False, st') \<Rightarrow> (False, st')
      | (True, st') \<Rightarrow> (True, retention_enforce (h_lib H) (h_jansson H) st'))"

definition open_writer :: "host \<Rightarrow> nat \<Rightarrow> LogEntry \<Rightarrow> Recorder \<times> world \<Rightarrow> bool \<times> Recorder \<times> world" where
  "open_writer H i entry st =
     (case st of (r, s) \<Rightarrow>
        (case writer_open_segment H entry (r, r_writers r ! i, s) of
           (ok, r', w, s') \<Rightarrow> (ok, r'\<lparr>r_writers := (r_writers r')[i := w]\<rparr>, s')))"

definition recorder_ensure_writer :: "host \<Rightarrow> nat \<Rightarrow> LogEntry \<Rightarrow> Recorder \<times> world \<Rightarrow> bool \<times> Recorder \<times> world" where
  "recorder_ensure_writer H i entry st =
     (let reason = rd_reason (writer_should_rotate (h_clock H) (fst st) (r_writers (fst st) ! i) entry)
      in case (if reason = ROTATE_REASON_NONE then (True, st)
               else recorder_close_writer H i (rotate_reason_code reason) st) of
           (False, st1) \<Rightarrow> (False, st1)
         | (True, st1) \<Rightarrow>
             if pw_open (r_writers (fst st1) ! i) then (True, st1) else open_writer H i entry st1)"

datatype submit_result = SubmitOk | SubmitFailed | SubmitOutOfBounds

abbreviation (input) SEGMENT_ROTATION_REASON_SIZE :: u32 where "SEGMENT_ROTATION_REASON_SIZE \<equiv> 6"
abbreviation (input) SEGMENT_ROTATION_REASON_SHUTDOWN :: u32 where "SEGMENT_ROTATION_REASON_SHUTDOWN \<equiv> 7"

definition submit_result_of :: "bool \<Rightarrow> submit_result" where
  "submit_result_of ok = (if ok then SubmitOk else SubmitFailed)"

text \<open>Behind the group lookup: the entry joins writer \<^verbatim>\<open>i\<close>.\<close>

definition submit_to_writer :: "host \<Rightarrow> nat \<Rightarrow> LogEntry \<Rightarrow> Recorder \<times> world \<Rightarrow> bool \<times> Recorder \<times> world" where
  "submit_to_writer H i entry st =
     (case recorder_ensure_writer H i entry st of
        (False, st1) \<Rightarrow> (False, st1)
      | (True, r1, s1) \<Rightarrow>
          (let w = r_writers r1 ! i in
           if \<not> h_serialize H (pw_use_compact_entries w) entry then (False, r1, s1)
           else
             let r2 = r1\<lparr>r_writers := (r_writers r1)[i := accept_entry entry w]\<rparr>
             in case (if length (pw_entries (r_writers r2 ! i)) = CHUNK_SIZE
                      then on_writer i (writer_flush_chunk H) (r2, s1) else (True, r2, s1)) of
                  (False, st3) \<Rightarrow> (False, st3)
                | (True, r3, s3) \<Rightarrow>
                    if pw_bytes_written (r_writers r3 ! i) \<ge> recorder_segment_limit r3
                    then recorder_close_writer H i SEGMENT_ROTATION_REASON_SIZE (r3, s3)
                    else (True, r3, s3)))"

definition recorder_submit_entry :: "host \<Rightarrow> LogEntry \<Rightarrow> Recorder \<times> world \<Rightarrow> submit_result \<times> Recorder \<times> world" where
  "recorder_submit_entry H entry st =
     (case priority_group (r_config (fst st)) (le_priority entry) of
        OutOfBounds \<Rightarrow> (SubmitOutOfBounds, st)
      | NoGroup \<Rightarrow> (SubmitFailed, st)
      | GroupIndex i \<Rightarrow> (case submit_to_writer H i entry st of (ok, st') \<Rightarrow> (submit_result_of ok, st')))"

definition recorder_submit_entry_with_recovery ::
    "host \<Rightarrow> LogEntry \<Rightarrow> Recorder \<times> world \<Rightarrow> submit_result \<times> Recorder \<times> world" where
  "recorder_submit_entry_with_recovery H entry st =
     (let cfg = r_config (fst st); limit = recorder_segment_limit (fst st);
          required = (if rc_min_free_bytes cfg > limit then rc_min_free_bytes cfg else limit);
          reclaim = retention_reclaim_lower_priority (h_lib H) (h_jansson H) (h_avail H) (le_priority entry) required;
          st0 = (if rc_min_free_bytes cfg \<noteq> 0 then snd (reclaim st) else st)
      in case recorder_submit_entry H entry st0 of
           (SubmitFailed, st1) \<Rightarrow>
             if h_nospace H (snd st1)
             then (case reclaim st1 of
                     (True, st2) \<Rightarrow> recorder_submit_entry H entry st2
                   | (False, st2) \<Rightarrow> (SubmitFailed, st2))
             else (SubmitFailed, st1)
         | res \<Rightarrow> res)"

subsection \<open>Flushing and checkpoints\<close>

definition flush_writer :: "host \<Rightarrow> nat \<Rightarrow> Recorder \<times> world \<Rightarrow> bool \<times> Recorder \<times> world" where
  "flush_writer H i st =
     (case on_writer i (writer_flush_chunk H) st of
        (False, st') \<Rightarrow> (False, st')
      | (True, st') \<Rightarrow> on_writer i (writer_sync_if_due H) st')"

fun flush_writers :: "host \<Rightarrow> nat list \<Rightarrow> Recorder \<times> world \<Rightarrow> bool \<times> Recorder \<times> world" where
  "flush_writers H [] st = (True, st)"
| "flush_writers H (i # is) st =
     (case flush_writer H i st of
        (False, st') \<Rightarrow> (False, st')
      | (True, st') \<Rightarrow> flush_writers H is st')"

definition recorder_flush_all :: "host \<Rightarrow> bool \<Rightarrow> Recorder \<times> world \<Rightarrow> bool \<times> Recorder \<times> world" where
  "recorder_flush_all H checkpoint_cursor st =
     (case flush_writers H [0..<length (rc_groups (r_config (fst st)))] st of
        (False, st') \<Rightarrow> (False, st')
      | (True, r, s) \<Rightarrow>
          if checkpoint_cursor
          then (case persist_journal_cursor (h_cursor_write H) r s of
                  (True, s') \<Rightarrow> (True, r, s')
                | (False, s') \<Rightarrow> (True, r\<lparr>r_cursor_enabled := False\<rparr>, s'))
          else (True, r, s))"

subsection \<open>One step over the input\<close>

record sd_journal =
  jn_current :: "sd_entry option"
  jn_rest :: "sd_entry list"

definition sd_journal_next :: "sd_journal \<Rightarrow> sd_journal option" where
  "sd_journal_next j =
     (case jn_rest j of [] \<Rightarrow> None | e # es \<Rightarrow> Some \<lparr>jn_current = Some e, jn_rest = es\<rparr>)"

text \<open>
  The process: recorder, world, journal position, the script jobs handed out and the shutdown flag;
  \<^verbatim>\<open>p_wild\<close> is set where the code reads outside an array.
\<close>

record process =
  p_recorder :: Recorder
  p_world :: world
  p_journal :: sd_journal
  p_jobs :: "ScriptJobSpec list"
  p_shutdown :: bool
  p_wild :: bool

definition persist_new_boots :: "host \<Rightarrow> BootRegistry \<Rightarrow> BootRegistry \<Rightarrow> world \<Rightarrow> world" where
  "persist_new_boots H old new s =
     (if length new \<noteq> length old then snd (persist_boot_state (h_jansson H) new s) else s)"

datatype handled = Handled | HandleError | HandleFailed | HandleWild

text \<open>
  What both sources do with an extracted entry: number it, apply the modifiers, submit it.
\<close>

definition handle_entry ::
    "host \<Rightarrow> sd_entry option \<Rightarrow> LogEntry \<Rightarrow> BootRegistry \<Rightarrow> process \<Rightarrow> handled \<times> process" where
  "handle_entry H j entry boots p =
     (let r = p_recorder p;
          s1 = persist_new_boots H (r_boots r) boots (p_world p);
          (r1, e1) = recorder_assign_monotonic_tie_order (r\<lparr>r_boots := boots\<rparr>) entry;
          p1 = p\<lparr>p_recorder := r1, p_world := s1\<rparr>
      in case apply_entry_modifiers (h_pcre2 H) (h_jansson H) (r_config r1) j (r_startup_catchup r1) e1 of
           (res, e2, jobs) \<Rightarrow>
             let p2 = p1\<lparr>p_jobs := p_jobs p1 @ jobs\<rparr>
             in case res of
                  ModError \<Rightarrow> (HandleError, p2)
                | ModOutOfBounds \<Rightarrow> (HandleWild, p2\<lparr>p_wild := True\<rparr>)
                | ModDrop \<Rightarrow> (Handled, p2)
                | ModKeep \<Rightarrow>
                    (case recorder_submit_entry_with_recovery H e2 (r1, s1) of
                       (SubmitOk, r2, s2) \<Rightarrow> (Handled, p2\<lparr>p_recorder := r2, p_world := s2\<rparr>)
                     | (SubmitFailed, r2, s2) \<Rightarrow> (HandleFailed, p2\<lparr>p_recorder := r2, p_world := s2\<rparr>)
                     | (SubmitOutOfBounds, r2, s2) \<Rightarrow>
                         (HandleWild, p2\<lparr>p_recorder := r2, p_world := s2, p_wild := True\<rparr>)))"

definition advance :: "process \<Rightarrow> process option" where
  "advance p =
     (if r_current_entry_pending (p_recorder p)
      then Some (p\<lparr>p_recorder := (p_recorder p)\<lparr>r_current_entry_pending := False\<rparr>\<rparr>)
      else case sd_journal_next (p_journal p) of
        None \<Rightarrow> None
      | Some j \<Rightarrow> Some (p\<lparr>p_journal := j\<rparr>))"

definition note_cursor :: "sd_entry \<Rightarrow> process \<Rightarrow> process option" where
  "note_cursor e p =
     (let r = p_recorder p in
      if r_cursor_enabled r \<or> r_persistent_cursor_enabled r
      then (case sd_cursor e of
              None \<Rightarrow> None
            | Some c \<Rightarrow> Some (p\<lparr>p_recorder := r\<lparr>r_pending_cursor := Some c\<rparr>\<rparr>))
      else Some p)"

text \<open>The loop of \<^verbatim>\<open>recorder_step\<close>: \<^verbatim>\<open>left\<close> entries may still be taken, \<^verbatim>\<open>processed\<close> were.\<close>

fun step_loop :: "host \<Rightarrow> nat \<Rightarrow> nat \<Rightarrow> process \<Rightarrow> nat \<times> process" where
  "step_loop H 0 processed p = (processed, p)"
| "step_loop H (Suc left) processed p =
     (case advance p of
        None \<Rightarrow> (processed, p)
      | Some p1 \<Rightarrow>
          (case jn_current (p_journal p1) of
             None \<Rightarrow> (processed, p1)
           | Some e \<Rightarrow>
               (case extract_entry (r_config (p_recorder p1)) e (r_boots (p_recorder p1)) of
                  (entry, boots) \<Rightarrow>
                    (case handle_entry H (Some e) entry boots p1 of
                       (HandleError, p2) \<Rightarrow> (processed, p2)
                     | (HandleWild, p2) \<Rightarrow> (processed, p2)
                     | (HandleFailed, p2) \<Rightarrow>
                         (processed, p2\<lparr>p_recorder := (p_recorder p2)\<lparr>r_current_entry_pending := True\<rparr>\<rparr>)
                     | (Handled, p2) \<Rightarrow>
                         (case note_cursor e p2 of
                            None \<Rightarrow> (processed, p2)
                          | Some p3 \<Rightarrow> step_loop H left (processed + 1) p3)))))"

definition recorder_step :: "host \<Rightarrow> process \<Rightarrow> nat \<times> process" where
  "recorder_step H p = step_loop H CHUNK_SIZE 0 p"

definition recorder_step_fallback :: "host \<Rightarrow> next_result \<Rightarrow> process \<Rightarrow> nat \<times> process" where
  "recorder_step_fallback H next p =
     (case next of
        NextError \<Rightarrow> (0, p\<lparr>p_shutdown := True\<rparr>)
      | NextNone \<Rightarrow> (0, p)
      | NextRecord rec \<Rightarrow>
          (case extract_fallback_entry (r_config (p_recorder p)) rec (r_boots (p_recorder p)) of
             None \<Rightarrow> (0, p)
           | Some (entry, boots) \<Rightarrow>
               (case handle_entry H None entry boots p of
                  (Handled, p') \<Rightarrow> (1, p')
                | (_, p') \<Rightarrow> (0, p'))))"

subsection \<open>The main loop\<close>

datatype source_event = JournalStep | FallbackStep next_result

record tick =
  tk_boot1 :: int
  tk_realtime :: int
  tk_boot2 :: int
  tk_source :: source_event
  tk_wait_ok :: bool

text \<open>One round of \<^verbatim>\<open>main\<close>: whether the loop goes on, and the process.\<close>

definition main_round :: "host \<Rightarrow> tick \<Rightarrow> process \<Rightarrow> bool \<times> process" where
  "main_round H t p =
     (let p1 = p\<lparr>p_recorder := recorder_sample_clock (tk_boot1 t) (tk_realtime t) (tk_boot2 t) (p_recorder p)\<rparr>
      in case (case tk_source t of
                 JournalStep \<Rightarrow> recorder_step H p1
               | FallbackStep next \<Rightarrow> recorder_step_fallback H next p1) of
           (n, p2) \<Rightarrow>
             (case recorder_flush_all H True (p_recorder p2, p_world p2) of
                (False, r3, s3) \<Rightarrow> (False, p2\<lparr>p_recorder := r3, p_world := s3\<rparr>)
              | (True, r3, s3) \<Rightarrow>
                  if n > 0 then (\<not> p_shutdown p2, p2\<lparr>p_recorder := r3, p_world := s3\<rparr>)
                  else (\<not> p_shutdown p2 \<and> tk_wait_ok t,
                        p2\<lparr>p_recorder := r3\<lparr>r_startup_catchup := False\<rparr>, p_world := s3\<rparr>)))"

subsection \<open>Start and shutdown\<close>

definition recorder_paths ::
    "world \<Rightarrow> runtime_dirs \<Rightarrow> string option \<Rightarrow> string option \<Rightarrow> bool \<Rightarrow> (string \<times> string \<times> bool \<times> bool) option" where
  "recorder_paths s D cursor_path journal_namespace journal_mode =
     (case build_log_path s PATH_MAX ''/state/journal.cursor'' of
        None \<Rightarrow> None
      | Some persistent \<Rightarrow>
          (let spaced = (\<lambda>path. case journal_namespace of
                  None \<Rightarrow> Some path
                | Some ns \<Rightarrow> (case join_path_suffix PATH_MAX path ''.'' of
                    None \<Rightarrow> None
                  | Some p \<Rightarrow> join_path_suffix PATH_MAX p ns))
           in case spaced persistent of
                None \<Rightarrow> None
              | Some persistent' \<Rightarrow>
                  if \<not> journal_mode then Some (persistent', [], False, False)
                  else case cursor_path of
                    Some c \<Rightarrow> if length c \<ge> PATH_MAX then None else Some (persistent', c, True, False)
                  | None \<Rightarrow>
                      (case select_runtime_cursor_path D PATH_MAX of
                         None \<Rightarrow> Some (persistent', [], False, False)
                       | Some p \<Rightarrow>
                           (case spaced p of
                              None \<Rightarrow> None
                            | Some p' \<Rightarrow> Some (persistent', p', True, True)))))"

definition recorder_init ::
    "host \<Rightarrow> RecorderConfig \<Rightarrow> runtime_dirs \<Rightarrow> u64 option \<Rightarrow> string option \<Rightarrow> string option \<Rightarrow> bool \<Rightarrow>
     world \<Rightarrow> (Recorder \<times> world) option" where
  "recorder_init H cfg D random_value cursor_path journal_namespace journal_mode s =
     (case recorder_paths s D cursor_path journal_namespace journal_mode of
        None \<Rightarrow> None
      | Some (persistent, runtime_path, enabled, volatile_path) \<Rightarrow>
          (case mkdir_p (w_log_dir s) s of
             (False, _) \<Rightarrow> None
           | (True, s1) \<Rightarrow>
               (case ensure_store_id random_value s1 of
                  (False, _) \<Rightarrow> None
                | (True, s2) \<Rightarrow>
                    (let s3 = recover_store (h_lib H) (h_flatcc H) s2;
                         next_seq = init_next_segment_seq s3;
                         s4 = snd (persist_next_segment_seq next_seq s3);
                         boots = boot_registry_rebuild_from_segments (h_lib H) s4;
                         s5 = snd (persist_boot_state (h_jansson H) boots s4);
                         r = \<lparr>r_config = cfg, r_boots = boots, r_next_segment_seq = next_seq,
                              r_current_entry_pending = False, r_cursor_enabled = enabled,
                              r_runtime_cursor_is_volatile = volatile_path,
                              r_persistent_cursor_enabled = journal_mode, r_cursor_path = runtime_path,
                              r_persistent_cursor_path = persistent, r_pending_cursor = None,
                              r_writers = map (\<lambda>i. writer_init (rc_groups cfg ! i) i) [0..<length (rc_groups cfg)],
                              r_clock_jump_seq = 0, r_clock_jump_usec = 0, r_clock_offset_initialized = False,
                              r_last_clock_offset_usec = 0, r_last_received_monotonic_ts = 0,
                              r_last_received_boot_seq = 0, r_monotonic_tie_order = 0,
                              r_have_last_received_monotonic_ts = False, r_startup_catchup = True\<rparr>
                     in Some (retention_enforce (h_lib H) (h_jansson H) (r, s5))))))"

definition close_if_open :: "host \<Rightarrow> nat \<Rightarrow> bool \<times> Recorder \<times> world \<Rightarrow> bool \<times> Recorder \<times> world" where
  "close_if_open H i st =
     (case st of (close_ok, r, s) \<Rightarrow>
        if pw_open (r_writers r ! i)
        then (case on_writer i (writer_close_segment H SEGMENT_ROTATION_REASON_SHUTDOWN) (r, s) of
                (ok, st') \<Rightarrow> (close_ok \<and> ok, st'))
        else (close_ok, r, s))"

definition last_realtime_of :: "PriorityWriter \<Rightarrow> byte list \<times> u64" where
  "last_realtime_of w = (take RECORDER_BOOT_ID_SIZE (pw_boot_id w), if pw_open w then pw_max_realtime_ts w else 0)"

definition note_clean_shutdown :: "byte list \<times> u64 \<Rightarrow> BootRegistry \<Rightarrow> BootRegistry" where
  "note_clean_shutdown x boots =
     (case x of (boot_id, ts) \<Rightarrow>
        if cstr boot_id = [] then boots
        else case boot_registry_get boots boot_id of
          (i, boots') \<Rightarrow>
            if ts > be_last_clean_realtime_ts (boots' ! i)
            then boots'[i := (boots' ! i)\<lparr>be_last_clean_realtime_ts := ts\<rparr>] else boots')"

definition checkpoint_at_shutdown :: "host \<Rightarrow> string \<Rightarrow> Recorder \<times> world \<Rightarrow> Recorder \<times> world" where
  "checkpoint_at_shutdown H cursor st =
     (case st of (r, s) \<Rightarrow>
        (let (r1, s1) =
               (if r_cursor_enabled r
                then (case persist_journal_cursor (h_cursor_write H) r s of
                        (True, s') \<Rightarrow> (r, s') | (False, s') \<Rightarrow> (r\<lparr>r_cursor_enabled := False\<rparr>, s'))
                else (r, s))
         in if r_persistent_cursor_enabled r1
            then (case write_journal_cursor (h_cursor_write H) (r_persistent_cursor_path r1) cursor s1 of
                    (False, s2) \<Rightarrow> (r1, s2)
                  | (True, s2) \<Rightarrow>
                      (r1, if r_runtime_cursor_is_volatile r1 then snd (unlink (r_cursor_path r1) s2) else s2))
            else (r1, s1)))"

definition recorder_shutdown :: "host \<Rightarrow> Recorder \<times> world \<Rightarrow> Recorder \<times> world" where
  "recorder_shutdown H st =
     (let is = [0..<length (rc_groups (r_config (fst st)))]
      in case recorder_flush_all H False st of
           (flush_ok, r1, s1) \<Rightarrow>
             let finals = map (\<lambda>i. last_realtime_of (r_writers r1 ! i)) is
             in case fold (close_if_open H) is (flush_ok, r1, s1) of
                  (close_ok, r2, s2) \<Rightarrow>
                    let (r3, s3) = (case r_pending_cursor r2 of
                                      Some c \<Rightarrow> if close_ok then checkpoint_at_shutdown H c (r2, s2) else (r2, s2)
                                    | None \<Rightarrow> (r2, s2));
                        (r4, s4) = retention_enforce (h_lib H) (h_jansson H) (r3\<lparr>r_pending_cursor := None\<rparr>, s3);
                        boots = fold note_clean_shutdown finals (r_boots r4);
                        s5 = snd (persist_boot_state (h_jansson H) boots s4)
                    in (r4\<lparr>r_boots := boots\<rparr>, snd (persist_next_segment_seq (r_next_segment_seq r4) s5)))"

end
