(* ===== verification/Writer_Props.thy ===== *)
theory Writer_Props
  imports Writer Index_Props
begin

text \<open>
  What the segment writer guarantees: a segment it opened, filled and closed without an error is
  read back completely, its index is the one a rebuild would give, and its footer counts the
  entries; entries are kept in a segment only while they fit its header.
\<close>

subsection \<open>What the writer needs of the libraries\<close>

definition zstd_ok :: "lib \<Rightarrow> bool" where
  "zstd_ok L \<longleftrightarrow>
     (\<forall>raw z. ZSTD_compress L raw = Some z \<longrightarrow> ZSTD_decompress L z (length raw) = Some raw \<and>
        length z \<le> length raw + length raw div 256 + 64) \<and>
     (\<forall>dict raw z. ZSTD_compress_usingDict L dict raw = Some z \<longrightarrow>
        ZSTD_decompress_usingDict L dict z (length raw) = Some raw \<and>
        length z \<le> length raw + length raw div 256 + 64)"

definition chunk_entry :: "LogEntry \<Rightarrow> ChunkEntry" where
  "chunk_entry e =
     \<lparr>ce_realtime_ts = le_realtime_ts e, ce_monotonic_ts = le_monotonic_ts e,
      ce_priority = le_priority e, ce_unit = le_unit e\<rparr>"

text \<open>The builder gives a buffer that verifies and holds the entries, smaller than two gigabytes.\<close>

definition builder_ok :: "host \<Rightarrow> bool" where
  "builder_ok H \<longleftrightarrow>
     (\<forall>es raw. h_build H True es = Some raw \<longrightarrow>
        journal_DefaultChunk_verify_as_root (h_lib H) raw \<and> length raw < 2 ^ 31 \<and>
        journal_DefaultChunk_entries (h_flatcc H) raw = map chunk_entry es) \<and>
     (\<forall>es raw. h_build H False es = Some raw \<longrightarrow>
        journal_Chunk_verify_as_root (h_lib H) raw \<and> length raw < 2 ^ 31 \<and>
        journal_Chunk_entries (h_flatcc H) raw = map chunk_entry es)"

subsection \<open>Opening\<close>

lemma finish_open_ok:
  assumes "finish_open H r entry dir dict has_dict (w, s) = (True, w', s')"
  obtains fp enc idx iw s1 s2 s3 s4 s5 where
    "segment_write_header (h_lib H) (h_rand H) (fopen_w (h_segment_script H))
       (open_header H r w entry has_dict) dict (pw_encryptor w) = (Inr (), fp, enc)"
    and "s1 = put_file (pw_tmp_path w) (contents fp) s"
    and "build_index_path s1 512 (pw_group_name w) (pw_segment_seq w) = Some idx"
    and "fault s1 = (False, s2)"
    and "index_writer_open (Some (fopen_w (h_index_script H))) idx
       (sh_segment_seq (open_header H r w entry has_dict)) (sh_flags (open_header H r w entry has_dict)) = Some iw"
    and "fault (put_file idx (contents (iw_fp iw)) s2) = (False, s3)"
    and "rename (pw_tmp_path w) (pw_path w) s3 = (True, s4)"
    and "fsync_dir_path dir s4 = (True, s')"
    and "w' = start_segment H r entry (open_header H r w entry has_dict) dict fp enc iw w"
  using assms
  by (auto simp: finish_open_def index_writer_open_def [of None] Let_def split: prod.splits sum.splits option.splits bool.splits if_splits)


lemma seq_path_shape:
  "build_seq_path s n g q ext = Some p \<Longrightarrow> p = w_log_dir s @ ''/'' @ g @ ''/'' @ decimal (unat q) @ ext"
  by (auto simp: build_seq_path_def build_segment_dir_def join_path_component_def Let_def
      split: option.splits if_splits)

lemma seq_paths_differ:
  assumes "build_segment_path s n g q = Some p" and "build_segment_tmp_path s n g q = Some t"
    and "build_index_path s' n' g q = Some i" and "w_log_dir s' = w_log_dir s"
  shows "t \<noteq> p" and "i \<noteq> p" and "i \<noteq> t"
  using assms
  by (auto simp: build_segment_path_def build_segment_tmp_path_def build_index_path_def dest!: seq_path_shape)

lemma log_dir_same: "same_files s s' \<Longrightarrow> w_log_dir s' = w_log_dir s"
  by (simp add: same_files_def)

text \<open>Opening succeeds: the segment holds its header and the index its own.\<close>

lemma writer_open_ok:
  assumes op: "writer_open_segment H entry (r, w, s) = (True, r1, w1, s1)" and no: "pw_encryptor w = None"
  obtains w0 dict enc0 fp enc iw where
    "segment_write_header (h_lib H) (h_rand H) (fopen_w (h_segment_script H))
       (open_header H r1 w0 entry (dict \<noteq> [])) dict enc0 = (Inr (), fp, enc)"
    and "w1 = start_segment H r1 entry (open_header H r1 w0 entry (dict \<noteq> [])) dict fp enc iw w0"
    and "pw_encryptor w0 = enc0" and "pw_entries w0 = pw_entries w" and "pw_group_name w0 = pw_group_name w"
    and "enc0 = None \<longleftrightarrow> rc_encryption_public_key (r_config r) = None"
    and "\<And>e. enc0 = Some e \<Longrightarrow> \<exists>p. rc_encryption_public_key (r_config r) = Some p \<and>
       segment_encryptor_create (h_lib H) p = Inr e"
    and "contents (iw_fp iw) = index_header (pw_segment_seq w0) (sh_flags (open_header H r1 w0 entry (dict \<noteq> [])))"
    and "iw_record_count iw = 0"
    and "iw_path iw \<noteq> pw_path w0" and "build_index_path s1 512 (pw_group_name w) (r_next_segment_seq r) = Some (iw_path iw)"
    and "pw_path w0 = w_log_dir s1 @ ''/'' @ pw_group_name w @ ''/'' @ decimal (unat (r_next_segment_seq r)) @ ''.seg''"
    and "read_file (pw_path w0) s1 = Some (contents fp)"
    and "read_file (iw_path iw) s1 = Some (contents (iw_fp iw))"
    and "r1 = r\<lparr>r_next_segment_seq := r_next_segment_seq r + 1\<rparr>" and "pw_segment_seq w0 = r_next_segment_seq r"
proof -
  from op obtain dir sa sb sc path tmp w3 dict has s4 where
    p: "build_segment_path sb 512 (pw_group_name w) (r_next_segment_seq r) = Some path"
      "build_segment_tmp_path sb 512 (pw_group_name w) (r_next_segment_seq r) = Some tmp"
    and sc: "fault sb = (False, sc)" "s4 = put_file tmp [] sc"
    and oe: "open_encryptor H (r_config r)
       (w\<lparr>pw_segment_seq := r_next_segment_seq r, pw_path := path, pw_tmp_path := tmp\<rparr>) = Some w3"
    and od: "open_dict (rc_groups (r_config r) ! pw_group_index w) s4 = Some (dict, has)"
    and r1: "r1 = r\<lparr>r_next_segment_seq := r_next_segment_seq r + 1\<rparr>"
    and fo: "finish_open H r1 entry dir dict has (w3, s4) = (True, w1, s1)"
    by (auto simp: writer_open_segment_def Let_def split: prod.splits option.splits bool.splits)
  have w3: "pw_path w3 = path" "pw_tmp_path w3 = tmp" "pw_group_name w3 = pw_group_name w"
    "pw_segment_seq w3 = r_next_segment_seq r" "pw_entries w3 = pw_entries w"
    "pw_encryptor w3 = None \<longleftrightarrow> rc_encryption_public_key (r_config r) = None"
    "\<And>e. pw_encryptor w3 = Some e \<Longrightarrow> \<exists>p. rc_encryption_public_key (r_config r) = Some p \<and>
       segment_encryptor_create (h_lib H) p = Inr e"
    using oe no by (auto simp: open_encryptor_def split: option.splits sum.splits)
  have has: "has \<longleftrightarrow> dict \<noteq> []"
    using od by (auto simp: open_dict_def split: option.splits if_splits)
  obtain fp enc idx iw t1 t2 t3 t4 where
    hd: "segment_write_header (h_lib H) (h_rand H) (fopen_w (h_segment_script H))
       (open_header H r1 w3 entry has) dict (pw_encryptor w3) = (Inr (), fp, enc)"
    and t1: "t1 = put_file tmp (contents fp) s4"
    and ip: "build_index_path t1 512 (pw_group_name w) (r_next_segment_seq r) = Some idx"
    and t2: "fault t1 = (False, t2)"
    and io: "index_writer_open (Some (fopen_w (h_index_script H))) idx
       (sh_segment_seq (open_header H r1 w3 entry has)) (sh_flags (open_header H r1 w3 entry has)) = Some iw"
    and t3: "fault (put_file idx (contents (iw_fp iw)) t2) = (False, t3)"
    and t4: "rename tmp path t3 = (True, t4)" and t5: "fsync_dir_path dir t4 = (True, s1)"
    and w1: "w1 = start_segment H r1 entry (open_header H r1 w3 entry has) dict fp enc iw w3"
    by (rule finish_open_ok [OF fo, unfolded w3])
  note io' = index_open_contents [OF io]
  have ld: "w_log_dir t1 = w_log_dir sb"
    using log_dir_same [OF conjunct1 [OF fault_same [OF sc(1)]]] by (simp add: t1 sc)
  note d = seq_paths_differ [OF p ip ld]
  have r3: "read_file q t3 = (if q = idx then Some (contents (iw_fp iw)) else
      if q = tmp then Some (contents fp) else read_file q s4)" for q
    using same_files_read [OF conjunct1 [OF fault_same [OF t3]], of q]
      same_files_read [OF conjunct1 [OF fault_same [OF t2]], of q] by (simp add: t1)
  have r5: "read_file q s1 = read_file q t4" for q
    using same_files_read [OF fsync_dir_same [OF t5], of q] by simp
  note r4 = rename_effect [OF t4 d(1)]
  have ld1: "w_log_dir s1 = w_log_dir t1"
    using r4 log_dir_same [OF fsync_dir_same [OF t5]] log_dir_same [OF conjunct1 [OF fault_same [OF t3]]]
      log_dir_same [OF conjunct1 [OF fault_same [OF t2]]] by simp
  show thesis
  proof (rule that [of w3 dict "pw_encryptor w3" fp enc iw])
    show "segment_write_header (h_lib H) (h_rand H) (fopen_w (h_segment_script H))
       (open_header H r1 w3 entry (dict \<noteq> [])) dict (pw_encryptor w3) = (Inr (), fp, enc)"
      using hd has by simp
    show "w1 = start_segment H r1 entry (open_header H r1 w3 entry (dict \<noteq> [])) dict fp enc iw w3"
      using w1 has by simp
    show "contents (iw_fp iw) = index_header (pw_segment_seq w3) (sh_flags (open_header H r1 w3 entry (dict \<noteq> [])))"
      using io' has by (simp add: open_header_def)
    show "read_file (pw_path w3) s1 = Some (contents fp)"
      using r5 r4 r3 d w3 by simp
    show "read_file (iw_path iw) s1 = Some (contents (iw_fp iw))"
      using r5 r4 r3 d w3 io' by simp
    show "iw_path iw \<noteq> pw_path w3" using d w3 io' by simp
    show "build_index_path s1 512 (pw_group_name w) (r_next_segment_seq r) = Some (iw_path iw)"
      using ip io' ld1 by (simp add: build_index_path_def build_seq_path_def build_segment_dir_def)
    show "pw_path w3 = w_log_dir s1 @ ''/'' @ pw_group_name w @ ''/'' @ decimal (unat (r_next_segment_seq r)) @ ''.seg''"
      using seq_path_shape [OF p(1) [unfolded build_segment_path_def]] ld ld1 w3 by simp
  qed (use w3 io' r1 in auto)
qed


subsection \<open>Flushing\<close>

lemma writer_flush_ok:
  assumes fl: "writer_flush_chunk H (w, s) = (True, w', s')" and ne: "pw_entries w \<noteq> []"
    and fp: "pw_fp w = Some fp" and iw: "pw_index_writer w = Some iw"
  obtains raw flags whole stored fp' enc' iw' u t where
    "h_build H (pw_use_compact_entries w) (pw_entries w) = Some raw"
    and "compress_chunk (h_lib H) w raw = (flags, whole)"
    and "stored = take (unat (of_nat (length whole) :: u32)) whole"
    and "segment_write_frame (h_lib H) fp (pw_encryptor w) flags stored (of_nat (length raw)) = (Inr (), fp', enc')"
    and "index_writer_append (h_flatcc H) (pw_index_header w) (chunk_frame w flags raw stored (ftell fp)) raw iw = (True, iw')"
    and "w' = w\<lparr>pw_fp := Some fp', pw_encryptor := enc', pw_index_writer := Some iw',
       pw_bytes_written := of_nat (ftell fp'), pw_unsynced_frames := u, pw_last_sync_mono_sec := t,
       pw_entries := [], pw_last_chunk_flush_mono_sec := ck_mono_sec (h_clock H)\<rparr>"
    and "\<And>q. read_file q s' = (if q = iw_path iw' then Some (contents (iw_fp iw'))
       else if q = pw_path w then Some (contents fp') else read_file q s)"
    and "length raw \<le> UINT32_MAX"
proof -
  from fl ne fp iw obtain raw w1 s1 where b: "h_build H (pw_use_compact_entries w) (pw_entries w) = Some raw"
    and len: "length raw \<le> UINT32_MAX"
    and fb: "flush_body H raw fp iw (w, s) = (True, w1, s')" and w': "w' = drop_pending (h_clock H) w1"
    by (auto simp: writer_flush_chunk_def split: option.splits prod.splits if_splits)
  obtain flags whole where cc: "compress_chunk (h_lib H) w raw = (flags, whole)" by fastforce
  define stored where "stored = take (unat (of_nat (length whole) :: u32)) whole"
  obtain res fp' enc' where wf:
    "segment_write_frame (h_lib H) fp (pw_encryptor w) flags stored (of_nat (length raw)) = (res, fp', enc')"
    by (metis prod_cases3)
  obtain u iw' where ia: "index_writer_append (h_flatcc H) (pw_index_header w)
      (chunk_frame w flags raw stored (ftell fp)) raw iw = (u, iw')" by fastforce
  let ?s1 = "put_file (pw_path w) (contents fp') s"
  obtain f2 s2 where f2: "fault ?s1 = (f2, s2)" by fastforce
  let ?s3 = "put_file (iw_path iw') (contents (iw_fp iw')) s2"
  obtain f4 s4 where f4: "fault ?s3 = (f4, s4)" by fastforce
  note fb' = fb [unfolded flush_body_def prod.case cc Let_def, folded stored_def, unfolded wf ia f2 prod.case]
  have ok: "res = Inr ()" "\<not> f2" "u" using fb' by (auto split: sum.splits bool.splits if_splits)
  have s': "same_files ?s3 s'"
    using fb' ok f4 conjunct1 [OF fault_same [OF f4]] by (auto split: bool.splits if_splits)
  have rd: "read_file q s' = (if q = iw_path iw' then Some (contents (iw_fp iw'))
       else if q = pw_path w then Some (contents fp') else read_file q s)" for q
    using same_files_read [OF s', of q] same_files_read [OF conjunct1 [OF fault_same [OF f2]], of q] by simp
  have "w1 = w\<lparr>pw_fp := Some fp', pw_encryptor := enc', pw_index_writer := Some iw',
       pw_bytes_written := of_nat (ftell fp'), pw_unsynced_frames := pw_unsynced_frames w1,
       pw_last_sync_mono_sec := pw_last_sync_mono_sec w1\<rparr>"
    using fb' ok f4 by (auto simp: synced_def split: bool.splits if_splits)
  then show thesis
    using that [OF b cc stored_def _ _ _ rd len, where u = "pw_unsynced_frames w1" and t = "pw_last_sync_mono_sec w1"] wf ia ok w'
    by (simp add: drop_pending_def)
qed

lemma compress_chunk_decodes:
  assumes cc: "compress_chunk L w raw = (flags, whole)" and z: "zstd_ok L" and len: "length raw < 2 ^ 31"
    and ver: "chunk_verify L (stored_header h (length dict)) raw"
    and dict: "pw_dict_bytes w = dict" "sh_flags h AND SEGMENT_FLAG_HAS_STATIC_DICT \<noteq> 0 \<longleftrightarrow> dict \<noteq> []"
      "length dict \<le> UINT32_MAX"
  shows "take (unat (of_nat (length whole) :: u32)) whole = whole"
    and "decodes L (stored_header h (length dict)) dict (flags, of_nat (length raw), whole) raw"
proof -
  have whole: "length whole \<le> length raw + length raw div 256 + 64"
    using cc z by (auto simp: compress_chunk_def zstd_ok_def split: if_splits option.splits)
  also have "\<dots> < 2 ^ 32" using len by simp
  finally have wl: "length whole < 2 ^ 32" .
  then have k: "unat (of_nat (length whole) :: u32) = length whole"
    by (simp add: unat_of_nat)
  then show "take (unat (of_nat (length whole) :: u32)) whole = whole" by simp
  have r: "unat (of_nat (length raw) :: u32) = length raw"
    using len by (simp add: unat_of_nat)
  have d: "sh_dict_len (stored_header h (length dict)) \<noteq> 0 \<longleftrightarrow> dict \<noteq> []"
    "sh_flags (stored_header h (length dict)) = sh_flags h"
    using dict(3) by (simp_all add: stored_header_def of_nat_eq_0_iff unat_of_nat word_unat_eq_iff)
  show "decodes L (stored_header h (length dict)) dict (flags, of_nat (length raw), whole) raw"
    using cc z ver dict k r d
    by (auto simp: decodes_def decompress_payload_def compress_chunk_def zstd_ok_def split: if_splits option.splits)
qed

subsection \<open>The segment being written\<close>

text \<open>
  An open segment: its file is the header and frames that decode to the chunks flushed so far, its
  index has one record per frame, and the flushed and the pending entries together are the
  entries taken since it was opened. \<^verbatim>\<open>fp1\<close> and \<^verbatim>\<open>enc1\<close> are stream and encryptor behind the header.
\<close>

definition segment_inv ::
    "host \<Rightarrow> SegmentHeader \<Rightarrow> byte list \<Rightarrow> string \<Rightarrow> FILE \<Rightarrow> SegmentEncryptor option \<Rightarrow> LogEntry list \<Rightarrow>
     PriorityWriter \<times> world \<Rightarrow> bool" where
  "segment_inv H h dict idx fp1 enc1 es = (\<lambda>(w, s).
     pw_open w \<and> pw_index_header w = h \<and> pw_dict_bytes w = dict \<and>
     (pw_use_compact_entries w \<longleftrightarrow> sh_flags h AND SEGMENT_FLAG_COMPACT_ENTRIES \<noteq> 0) \<and>
     (\<exists>fp iw ws chunks.
        pw_fp w = Some fp \<and> pw_index_writer w = Some iw \<and> iw_path iw = idx \<and> idx \<noteq> pw_path w \<and>
        write_frames (h_lib H) fp1 enc1 ws = (Inr (), fp, pw_encryptor w) \<and>
        list_all2 (decodes (h_lib H) (stored_header h (length dict)) dict) ws chunks \<and>
        concat (map (chunk_entries (h_flatcc H) h) chunks) @ map chunk_entry (pw_entries w) = map chunk_entry es \<and>
        contents (iw_fp iw) = index_header (sh_segment_seq h) (sh_flags h) @
          concat (map index_record (map2 (index_frame_of (h_flatcc H) h)
            (frame_list (length (contents fp1)) (trailer_len enc1) ws) chunks)) \<and>
        iw_record_count iw = of_nat (length ws) \<and>
        read_file (pw_path w) s = Some (contents fp) \<and> read_file idx s = Some (contents (iw_fp iw))))"

lemma write_frames_append:
  "write_frames L fp enc (ws @ ws') =
     (case write_frames L fp enc ws of
        (Inl e, fp', enc') \<Rightarrow> (Inl e, fp', enc')
      | (Inr _, fp', enc') \<Rightarrow> write_frames L fp' enc' ws')"
  by (induction ws arbitrary: fp enc) (auto split: prod.splits sum.splits)

lemma frame_list_append:
  "frame_list base ov (ws @ ws') =
   frame_list base ov ws @ frame_list (base + (\<Sum>(fl, ul, p)\<leftarrow>ws. ov + length p)) ov ws'"
  by (induction ws arbitrary: base) (auto simp: algebra_simps)

lemma index_append_ok:
  assumes "index_writer_append F h fr ch w = (True, w')"
  shows "contents (iw_fp w') = contents (iw_fp w) @ index_record (index_frame_of F h fr ch)"
    and "iw_record_count w' = iw_record_count w + 1" and "iw_path w' = iw_path w"
  using append_ok [of F h fr ch w w'] assms by (simp_all add: append_index_frame_cb_def)

lemma segment_inv_same:
  "segment_inv H h dict idx fp1 enc1 es (w, s) \<Longrightarrow> same_files s s' \<Longrightarrow> segment_inv H h dict idx fp1 enc1 es (w, s')"
  using same_files_read [of s s'] by (simp add: segment_inv_def)

lemma segment_inv_accept:
  "segment_inv H h dict idx fp1 enc1 es (w, s) \<Longrightarrow>
   segment_inv H h dict idx fp1 enc1 (es @ [e]) (accept_entry e w, s)"
  unfolding segment_inv_def accept_entry_def prod.case by fastforce

lemma chunk_frame_at_end:
  assumes ws: "write_frames L fp1 enc1 ws = (Inr (), fp, enc)" and em: "env_matches env L enc1 0"
    and w: "pw_encryptor w = enc"
  shows "frame_list (length (contents fp1)) (trailer_len enc1) (ws @ [(flags, of_nat (length raw), st)]) =
    frame_list (length (contents fp1)) (trailer_len enc1) ws @ [chunk_frame w flags raw st (ftell fp)]"
proof -
  from write_frames_length [OF ws em] have
    "length (contents fp) = length (contents fp1) + (\<Sum>(fl, ul, p)\<leftarrow>ws. trailer_len enc1 + length p)"
    "trailer_len enc = trailer_len enc1" by simp_all
  then show ?thesis
    using w by (cases enc; cases enc1) (simp_all add: frame_list_append chunk_frame_def ftell_def trailer_len_def algebra_simps)
qed

lemma segment_inv_flush:
  assumes inv: "segment_inv H h dict idx fp1 enc1 es (w, s)" and fl: "writer_flush_chunk H' (w, s) = (True, w', s')"
    and H': "h_lib H' = h_lib H" "h_flatcc H' = h_flatcc H" "h_build H' = h_build H"
    and em: "env_matches env (h_lib H) enc1 0" and z: "zstd_ok (h_lib H)" and b: "builder_ok H"
    and d: "sh_flags h AND SEGMENT_FLAG_HAS_STATIC_DICT \<noteq> 0 \<longleftrightarrow> dict \<noteq> []" "length dict \<le> UINT32_MAX"
  shows "segment_inv H h dict idx fp1 enc1 es (w', s') \<and> pw_entries w' = []"
proof (cases "pw_entries w = []")
  case True
  then show ?thesis using inv fl by (simp add: writer_flush_chunk_def)
next
  case False
  from inv obtain fp iw ws chunks where fp: "pw_fp w = Some fp" and iw: "pw_index_writer w = Some iw"
    and np: "iw_path iw = idx" "idx \<noteq> pw_path w"
    and wf: "write_frames (h_lib H) fp1 enc1 ws = (Inr (), fp, pw_encryptor w)"
    and dec: "list_all2 (decodes (h_lib H) (stored_header h (length dict)) dict) ws chunks"
    and ents: "concat (map (chunk_entries (h_flatcc H) h) chunks) @ map chunk_entry (pw_entries w) = map chunk_entry es"
    and ix: "contents (iw_fp iw) = index_header (sh_segment_seq h) (sh_flags h) @
          concat (map index_record (map2 (index_frame_of (h_flatcc H) h)
            (frame_list (length (contents fp1)) (trailer_len enc1) ws) chunks))"
    and rc: "iw_record_count iw = of_nat (length ws)"
    and st: "pw_open w" "pw_index_header w = h" "pw_dict_bytes w = dict"
      "pw_use_compact_entries w \<longleftrightarrow> sh_flags h AND SEGMENT_FLAG_COMPACT_ENTRIES \<noteq> 0"
    by (auto simp: segment_inv_def)
  obtain raw flags whole stored fp' enc' iw' u t where
    raw: "h_build H (pw_use_compact_entries w) (pw_entries w) = Some raw"
    and cc: "compress_chunk (h_lib H) w raw = (flags, whole)"
    and sd: "stored = take (unat (of_nat (length whole) :: u32)) whole"
    and sw: "segment_write_frame (h_lib H) fp (pw_encryptor w) flags stored (of_nat (length raw)) = (Inr (), fp', enc')"
    and ia: "index_writer_append (h_flatcc H) h (chunk_frame w flags raw stored (ftell fp)) raw iw = (True, iw')"
    and w': "w' = w\<lparr>pw_fp := Some fp', pw_encryptor := enc', pw_index_writer := Some iw',
       pw_bytes_written := of_nat (ftell fp'), pw_unsynced_frames := u, pw_last_sync_mono_sec := t,
       pw_entries := [], pw_last_chunk_flush_mono_sec := ck_mono_sec (h_clock H')\<rparr>"
    and rd: "\<And>q. read_file q s' = (if q = iw_path iw' then Some (contents (iw_fp iw'))
       else if q = pw_path w then Some (contents fp') else read_file q s)"
    and "length raw \<le> UINT32_MAX"
    by (rule writer_flush_ok [OF fl False fp iw, unfolded H' st(2)]) (rule that)
  have bo: "chunk_verify (h_lib H) (stored_header h (length dict)) raw" "length raw < 2 ^ 31"
    "chunk_entries (h_flatcc H) h raw = map chunk_entry (pw_entries w)"
    using b raw st(4) by (auto simp: builder_ok_def chunk_verify_def chunk_entries_def stored_header_def split: if_splits)
  note de = compress_chunk_decodes [OF cc z bo(2,1) st(3) d]
  have stw: "stored = whole" using sd de(1) by simp
  let ?ws = "ws @ [(flags, of_nat (length raw), whole)]"
  have wf': "write_frames (h_lib H) fp1 enc1 ?ws = (Inr (), fp', enc')"
    using wf sw stw by (simp add: write_frames_append)
  note fl' = chunk_frame_at_end [OF wf em refl, of flags raw whole]
  have len: "length (frame_list (length (contents fp1)) (trailer_len enc1) ws) = length chunks"
    using list_all2_lengthD [OF dec] by simp
  note ia' = index_append_ok [OF ia]
  have "contents (iw_fp iw') = index_header (sh_segment_seq h) (sh_flags h) @
          concat (map index_record (map2 (index_frame_of (h_flatcc H) h)
            (frame_list (length (contents fp1)) (trailer_len enc1) ?ws) (chunks @ [raw])))"
    unfolding fl' using ia'(1) ix stw len by simp
  moreover have "list_all2 (decodes (h_lib H) (stored_header h (length dict)) dict) ?ws (chunks @ [raw])"
    using dec de(2) by (simp add: list_all2_appendI)
  ultimately show ?thesis
    using w' wf' st bo(3) ents ia' np rd rc unfolding segment_inv_def
    by (auto intro!: exI [of _ ?ws] exI [of _ "chunks @ [raw]"])
qed


lemma segment_inv_synced: "segment_inv H h dict idx fp1 enc1 es (synced ck w, s) = segment_inv H h dict idx fp1 enc1 es (w, s)"
  by (simp add: segment_inv_def synced_def)

lemma segment_inv_sync:
  assumes "segment_inv H h dict idx fp1 enc1 es (w, s)" and "writer_sync_if_due H' (w, s) = (ok, w', s')"
  shows "segment_inv H h dict idx fp1 enc1 es (w', s')"
proof -
  obtain f s1 where f: "fault s = (f, s1)" by fastforce
  have "same_files s s'" "w' = w \<or> w' = synced (h_clock H') w"
    using assms(2) f conjunct1 [OF fault_same [OF f]]
    by (auto simp: writer_sync_if_due_def split: if_splits bool.splits)
  with segment_inv_same [OF assms(1), of s'] show ?thesis
    by (auto simp: segment_inv_synced)
qed

text \<open>The figures of the footer, over the entries taken.\<close>

definition figures_inv :: "LogEntry \<Rightarrow> LogEntry list \<Rightarrow> PriorityWriter \<Rightarrow> bool" where
  "figures_inv e0 es w \<longleftrightarrow>
     pw_entry_count w = of_nat (length es) \<and>
     pw_max_realtime_ts w = Max (set (map le_realtime_ts (e0 # es))) \<and>
     pw_last_monotonic_ts w = le_monotonic_ts (last (e0 # es)) \<and>
     pw_previous_realtime_ts w = le_realtime_ts (last (e0 # es)) \<and>
     (pw_realtime_nonmonotonic w \<longleftrightarrow> \<not> sorted (map le_realtime_ts (e0 # es)))"

lemma sorted_snoc_last: "xs \<noteq> [] \<Longrightarrow> sorted (xs @ [x]) \<longleftrightarrow> sorted xs \<and> last xs \<le> x"
  by (induction xs rule: rev_induct) (auto simp: sorted_append intro: order_trans)

lemma figures_accept: "figures_inv e0 es w \<Longrightarrow> figures_inv e0 (es @ [e]) (accept_entry e w)"
proof -
  assume a: "figures_inv e0 es w"
  have m: "Max (set (map le_realtime_ts (e0 # es @ [e]))) = max (Max (set (map le_realtime_ts (e0 # es)))) (le_realtime_ts e)"
    using Max_insert [of "set (map le_realtime_ts (e0 # es))" "le_realtime_ts e"]
    by (simp add: insert_commute max.commute)
  have "sorted (map le_realtime_ts (e0 # es @ [e])) \<longleftrightarrow>
      sorted (map le_realtime_ts (e0 # es)) \<and> le_realtime_ts (last (e0 # es)) \<le> le_realtime_ts e"
    using sorted_snoc_last [of "map le_realtime_ts (e0 # es)" "le_realtime_ts e"]
    by (simp add: last_map del: sorted_wrt.simps)
  moreover have "pw_max_realtime_ts (accept_entry e w) = max (pw_max_realtime_ts w) (le_realtime_ts e)"
    by (auto simp: accept_entry_def max_def dest: less_imp_le)
  ultimately show ?thesis
    using a m unfolding figures_inv_def accept_entry_def
    by (simp add: not_le del: sorted_wrt.simps set_map list.set)
qed

subsection \<open>The life of a segment\<close>

datatype writer_event = Accept LogEntry | Flush clock | Sync clock

fun writer_run :: "host \<Rightarrow> writer_event list \<Rightarrow> PriorityWriter \<times> world \<Rightarrow> bool \<times> PriorityWriter \<times> world" where
  "writer_run H [] st = (True, st)"
| "writer_run H (Accept e # evs) (w, s) = writer_run H evs (accept_entry e w, s)"
| "writer_run H (Flush ck # evs) st =
     (case writer_flush_chunk (H\<lparr>h_clock := ck\<rparr>) st of
        (ok, st') \<Rightarrow> if ok then writer_run H evs st' else (False, st'))"
| "writer_run H (Sync ck # evs) st =
     (case writer_sync_if_due (H\<lparr>h_clock := ck\<rparr>) st of
        (ok, st') \<Rightarrow> if ok then writer_run H evs st' else (False, st'))"

fun accepted :: "writer_event list \<Rightarrow> LogEntry list" where
  "accepted [] = []"
| "accepted (Accept e # evs) = e # accepted evs"
| "accepted (_ # evs) = accepted evs"

lemma figures_fields:
  "pw_entry_count w' = pw_entry_count w \<Longrightarrow> pw_max_realtime_ts w' = pw_max_realtime_ts w \<Longrightarrow>
   pw_last_monotonic_ts w' = pw_last_monotonic_ts w \<Longrightarrow> pw_previous_realtime_ts w' = pw_previous_realtime_ts w \<Longrightarrow>
   pw_realtime_nonmonotonic w' = pw_realtime_nonmonotonic w \<Longrightarrow> figures_inv e0 es w' = figures_inv e0 es w"
  by (simp add: figures_inv_def)

text \<open>What flushing and syncing never touch, whatever fails.\<close>

definition same_figures :: "PriorityWriter \<Rightarrow> PriorityWriter \<Rightarrow> bool" where
  "same_figures w w' \<longleftrightarrow>
     pw_entry_count w' = pw_entry_count w \<and> pw_max_realtime_ts w' = pw_max_realtime_ts w \<and>
     pw_last_monotonic_ts w' = pw_last_monotonic_ts w \<and>
     pw_previous_realtime_ts w' = pw_previous_realtime_ts w \<and>
     pw_realtime_nonmonotonic w' = pw_realtime_nonmonotonic w \<and> pw_path w' = pw_path w \<and>
     pw_segment_seq w' = pw_segment_seq w \<and> pw_group_index w' = pw_group_index w \<and>
     pw_group_name w' = pw_group_name w \<and> pw_boot_id w' = pw_boot_id w \<and> pw_open w' = pw_open w"

lemma flush_same_figures:
  assumes "writer_flush_chunk H (w, s) = (ok, w', s')"
  shows "same_figures w w'"
proof -
  have b: "same_figures w w1" if "flush_body H raw fp iw (w, s) = (ok', w1, s1)" for raw fp iw ok' w1 s1
    using that
    by (auto simp: flush_body_def same_figures_def synced_def Let_def split: prod.splits sum.splits bool.splits if_splits)
  show ?thesis
    using assms
    by (auto simp: writer_flush_chunk_def drop_pending_def split: if_splits option.splits prod.splits dest!: b)
      (auto simp: same_figures_def)
qed

lemma sync_same_figures: "writer_sync_if_due H (w, s) = (ok, w', s') \<Longrightarrow> same_figures w w'"
  by (auto simp: writer_sync_if_due_def same_figures_def synced_def split: if_splits bool.splits prod.splits)

lemma figures_same: "figures_inv e0 es w \<Longrightarrow> same_figures w w' \<Longrightarrow> figures_inv e0 es w'"
  by (simp add: figures_inv_def same_figures_def)


lemma writer_run_inv:
  assumes "segment_inv H h dict idx fp1 enc1 es (w, s)" and "figures_inv e0 es w"
    and "writer_run H evs (w, s) = (True, w', s')"
    and em: "env_matches env (h_lib H) enc1 0" and z: "zstd_ok (h_lib H)" and b: "builder_ok H"
    and d: "sh_flags h AND SEGMENT_FLAG_HAS_STATIC_DICT \<noteq> 0 \<longleftrightarrow> dict \<noteq> []" "length dict \<le> UINT32_MAX"
  shows "segment_inv H h dict idx fp1 enc1 (es @ accepted evs) (w', s') \<and> figures_inv e0 (es @ accepted evs) w' \<and>
    pw_path w' = pw_path w"
  using assms(1-3)
proof (induction evs arbitrary: es w s)
  case Nil
  then show ?case by simp
next
  case (Cons ev evs)
  show ?case
  proof (cases ev)
    case (Accept e)
    from Cons.IH [OF segment_inv_accept [OF Cons.prems(1)] figures_accept [OF Cons.prems(2)]] Cons.prems(3) Accept
    show ?thesis by (simp add: accept_entry_def)
  next
    case (Flush ck)
    obtain ok w1 s1 where f: "writer_flush_chunk (H\<lparr>h_clock := ck\<rparr>) (w, s) = (ok, w1, s1)" by (metis prod_cases3)
    with Cons.prems(3) Flush have ok: "ok" and run: "writer_run H evs (w1, s1) = (True, w', s')" by (auto split: if_splits)
    have f': "writer_flush_chunk (H\<lparr>h_clock := ck\<rparr>) (w, s) = (True, w1, s1)" using f ok by simp
    have i: "segment_inv H h dict idx fp1 enc1 es (w1, s1)"
      using segment_inv_flush [OF Cons.prems(1) f' _ _ _ em z b d] by simp
    note g = flush_same_figures [OF f]
    from Cons.IH [OF i figures_same [OF Cons.prems(2) g] run] g Flush show ?thesis by (simp add: same_figures_def)
  next
    case (Sync ck)
    obtain ok w1 s1 where f: "writer_sync_if_due (H\<lparr>h_clock := ck\<rparr>) (w, s) = (ok, w1, s1)" by (metis prod_cases3)
    with Cons.prems(3) Sync have run: "writer_run H evs (w1, s1) = (True, w', s')" by (auto split: if_splits)
    note g = sync_same_figures [OF f]
    from Cons.IH [OF segment_inv_sync [OF Cons.prems(1) f] figures_same [OF Cons.prems(2) g] run] g Sync
    show ?thesis by (simp add: same_figures_def)
  qed
qed

lemma index_close_contents:
  "index_writer_close iw ce = (True, fp) \<Longrightarrow> contents fp = contents (iw_fp iw) @ index_footer iw ce"
proof -
  assume a: "index_writer_close iw ce = (True, fp)"
  have l: "length (index_footer iw ce) = RECORDER_INDEX_FOOTER_SIZE" by (simp add: index_footer_def)
  obtain n fp' where w: "fwrite (index_footer iw ce) (iw_fp iw) = (n, fp')" by fastforce
  with a have "n = length (index_footer iw ce)" "fp' = fp" by (simp_all add: index_writer_close_def l)
  with w fwrite_full [of "index_footer iw ce" "iw_fp iw" fp] show ?thesis by simp
qed

text \<open>Closing an open segment: its file ends in the footer, its index is complete.\<close>

lemma writer_close_ok:
  assumes inv: "segment_inv H h dict idx fp1 enc1 es (w, s)"
    and cl: "writer_close_segment H' reason (w, s) = (True, w', s')"
    and H': "h_lib H' = h_lib H" "h_flatcc H' = h_flatcc H" "h_build H' = h_build H"
    and em: "env_matches env (h_lib H) enc1 0" and z: "zstd_ok (h_lib H)" and b: "builder_ok H"
    and d: "sh_flags h AND SEGMENT_FLAG_HAS_STATIC_DICT \<noteq> 0 \<longleftrightarrow> dict \<noteq> []" "length dict \<le> UINT32_MAX"
  obtains fp fp' ws chunks enc where
    "write_frames (h_lib H) fp1 enc1 ws = (Inr (), fp, enc)"
    and "list_all2 (decodes (h_lib H) (stored_header h (length dict)) dict) ws chunks"
    and "concat (map (chunk_entries (h_flatcc H) h) chunks) = map chunk_entry es"
    and "segment_write_footer fp (writer_footer w reason) = (Inr (), fp')"
    and "read_file (pw_path w) s' = Some (contents fp')"
    and "read_file idx s' = Some (index_file (sh_segment_seq h) (sh_flags h)
       (map2 (index_frame_of (h_flatcc H) h) (frame_list (length (contents fp1)) (trailer_len enc1) ws) chunks)
       (of_nat (length (contents fp'))))"
proof -
  have op: "pw_open w" using inv by (simp add: segment_inv_def)
  obtain w1 s1 where f: "writer_flush_chunk H' (w, s) = (True, w1, s1)"
    using cl op by (auto simp: writer_close_segment_def split: prod.splits bool.splits)
  from segment_inv_flush [OF inv f H' em z b d] have i1: "segment_inv H h dict idx fp1 enc1 es (w1, s1)" "pw_entries w1 = []"
    by simp_all
  note g = flush_same_figures [OF f]
  from i1 obtain fp iw ws chunks where fp: "pw_fp w1 = Some fp" and iw: "pw_index_writer w1 = Some iw"
    and np: "iw_path iw = idx" "idx \<noteq> pw_path w1"
    and wf: "write_frames (h_lib H) fp1 enc1 ws = (Inr (), fp, pw_encryptor w1)"
    and dec: "list_all2 (decodes (h_lib H) (stored_header h (length dict)) dict) ws chunks"
    and ents: "concat (map (chunk_entries (h_flatcc H) h) chunks) = map chunk_entry es"
    and ix: "contents (iw_fp iw) = index_header (sh_segment_seq h) (sh_flags h) @
          concat (map index_record (map2 (index_frame_of (h_flatcc H) h)
            (frame_list (length (contents fp1)) (trailer_len enc1) ws) chunks))"
    and rc: "iw_record_count iw = of_nat (length ws)"
    by (auto simp: segment_inv_def)
  have ft: "writer_footer w1 reason = writer_footer w reason"
    using g by (simp add: writer_footer_def same_figures_def)
  obtain res fp' where sf: "segment_write_footer fp (writer_footer w reason) = (res, fp')" by fastforce
  let ?s2 = "put_file (pw_path w1) (contents fp') s1"
  obtain f3 s3 where f3: "fault ?s2 = (f3, s3)" by fastforce
  obtain ok ifp where ic: "index_writer_close iw (of_nat (ftell fp')) = (ok, ifp)" by fastforce
  let ?s4 = "put_file idx (contents ifp) s3"
  note cl' = cl [unfolded writer_close_segment_def fst_conv f prod.case bool.case fp iw option.case ft sf Let_def]
  have ok: "res = Inr ()" "\<not> f3" "ok"
    using cl' op f3 ic np by (auto split: sum.splits bool.splits if_splits)
  have "s' = (case build_segment_dir ?s4 256 (pw_group_name w1) of None \<Rightarrow> ?s4 | Some dir \<Rightarrow> snd (fsync_dir_path dir ?s4))"
    using cl' op ok f3 ic np by (auto split: sum.splits bool.splits if_splits)
  then have s': "same_files ?s4 s'"
    by (cases "build_segment_dir ?s4 256 (pw_group_name w1)") (simp_all add: fsync_dir_same [OF surjective_pairing])
  have ifp: "contents ifp = contents (iw_fp iw) @ index_footer iw (of_nat (ftell fp'))"
    using index_close_contents [of iw "of_nat (ftell fp')" ifp] ic ok by simp
  have rd: "read_file q s' = (if q = idx then Some (contents ifp) else if q = pw_path w then Some (contents fp') else read_file q s1)" for q
    using same_files_read [OF s', of q] same_files_read [OF conjunct1 [OF fault_same [OF f3]], of q] g
    by (simp add: same_figures_def)
  have l: "length ws = length (map2 (index_frame_of (h_flatcc H) h)
      (frame_list (length (contents fp1)) (trailer_len enc1) ws) chunks)"
    using list_all2_lengthD [OF dec] by simp
  show thesis
  proof (rule that [OF wf dec ents])
    show "segment_write_footer fp (writer_footer w reason) = (Inr (), fp')" using sf ok by simp
    show "read_file (pw_path w) s' = Some (contents fp')" unfolding rd [of "pw_path w"] using np g by (simp add: same_figures_def)
    show "read_file idx s' = Some (index_file (sh_segment_seq h) (sh_flags h)
       (map2 (index_frame_of (h_flatcc H) h) (frame_list (length (contents fp1)) (trailer_len enc1) ws) chunks)
       (of_nat (length (contents fp'))))"
      unfolding rd if_P [OF refl] ifp ix index_file_def index_footer_def Let_def rc ftell_def l [symmetric] append_assoc ..
  qed
qed


lemma written_header_env:
  assumes w: "segment_write_header L k (fopen_w s) h dict enc = (Inr (), fp1, enc1)" and key: "can_decrypt L enc priv"
  obtains env :: "unit scan_env" where "env_matches env L enc1 0" and "trailer_len enc1 = trailer_len enc"
proof -
  obtain ei dek where
    "\<And>tail. segment_parse_header (contents fp1 @ tail) =
       Some (stored_header h (length dict), length (contents fp1), ei)"
    and "\<And>tail. take (unat (sh_dict_len (stored_header h (length dict))))
       (drop (length (contents fp1) - unat (sh_dict_len (stored_header h (length dict))))
         (contents fp1 @ tail)) = dict"
    and "if encrypted h
         then (\<exists>key. priv = Some key \<and> recorder_crypto_unwrap_dek L key (ei_wrapped_dek ei) = Inr dek)
         else dek = replicate 32 0"
    and m: "case enc1 of None \<Rightarrow> \<not> encrypted h
         | Some e \<Rightarrow> encrypted h \<and> dek = se_dek e \<and> ei_nonce_prefix ei = se_nonce_prefix e \<and>
             se_frame_index e = 0 \<and> gcm_ok L"
    and tr: "trailer_len enc1 = trailer_len enc"
    using written_header_parses [OF w key] by blast
  have "env_matches \<lparr>env_lib = L, env_header = h, env_encryption = ei, env_dek = dek, env_dict = dict,
      env_cb = (None :: unit segment_frame_cb option), env_min = 0\<rparr> L enc1 0"
    using m by (auto simp: env_matches_def split: option.splits)
  then show thesis using tr by (rule that)
qed

lemma frame_offsets_below:
  "off \<in> set (frame_offsets base ov ws) \<Longrightarrow> 0 < ov \<Longrightarrow> off < base + (\<Sum>(fl, ul, p)\<leftarrow>ws. ov + length p)"
  by (induction base ov ws rule: frame_offsets.induct) (auto simp: algebra_simps)

lemma frame_offset_listed:
  assumes "off \<in> set (frame_offsets base ov ws)"
  shows "\<exists>j < length ws. fi_file_offset (frame_list base ov ws ! j) = of_nat off"
proof -
  have m: "map fi_file_offset (frame_list base ov ws) = map of_nat (frame_offsets base ov ws)"
    by (induction base ov ws rule: frame_list.induct) auto
  from assms have "of_nat off \<in> set (map fi_file_offset (frame_list base ov ws))" unfolding m by auto
  then show ?thesis by (auto simp: in_set_conv_nth)
qed

lemma index_file_pread:
  "table_ok ixs \<Longrightarrow> j < length ixs \<Longrightarrow> index_pread_frame (index_file sq fl ixs ce) j = Some (ixs ! j)"
  unfolding index_file_def Let_def append_assoc by (rule pread_table) (simp_all add: index_header_def)

lemma index_frame_of_flags: "sh_flags h = sh_flags h' \<Longrightarrow> index_frame_of F h = index_frame_of F h'"
  by (simp add: fun_eq_iff index_frame_of_def chunk_entries_def)

lemma header_dict_flag:
  "sh_flags (open_header H r w e b) AND SEGMENT_FLAG_HAS_STATIC_DICT \<noteq> 0 \<longleftrightarrow> b"
  "sh_flags (open_header H r w e b) AND SEGMENT_FLAG_COMPACT_ENTRIES \<noteq> 0 \<longleftrightarrow> \<not> config_uses_full_entries (r_config r)"
  by (simp_all add: open_header_def zero_header_def)

text \<open>An opened segment is in the invariant with no entries.\<close>

lemma writer_open_inv:
  assumes op: "writer_open_segment H e0 (r, w, s) = (True, r1, w1, s1)"
    and fresh: "pw_encryptor w = None" "pw_entries w = []"
    and key: "\<And>p e. rc_encryption_public_key (r_config r) = Some p \<Longrightarrow>
      segment_encryptor_create (h_lib H) p = Inr e \<Longrightarrow> can_decrypt (h_lib H) (Some e) decryptor"
  obtains h dict idx enc0 fp1 enc1 where
    "segment_inv H h dict idx fp1 enc1 [] (w1, s1)" and "figures_inv e0 [] w1"
    and "segment_write_header (h_lib H) (h_rand H) (fopen_w (h_segment_script H)) h dict enc0 = (Inr (), fp1, enc1)"
    and "can_decrypt (h_lib H) enc0 decryptor"
    and "sh_flags h AND SEGMENT_FLAG_HAS_STATIC_DICT \<noteq> 0 \<longleftrightarrow> dict \<noteq> []" and "length dict \<le> UINT32_MAX"
    and "build_index_path s1 512 (pw_group_name w1) (pw_segment_seq w1) = Some idx"
    and "sh_segment_seq h = r_next_segment_seq r" and "sh_first_realtime_ts h = le_realtime_ts e0"
proof -
  obtain w0 dict enc0 fp enc iw where
    hd: "segment_write_header (h_lib H) (h_rand H) (fopen_w (h_segment_script H))
       (open_header H r1 w0 e0 (dict \<noteq> [])) dict enc0 = (Inr (), fp, enc)"
    and w1: "w1 = start_segment H r1 e0 (open_header H r1 w0 e0 (dict \<noteq> [])) dict fp enc iw w0"
    and "pw_encryptor w0 = enc0" and pe: "pw_entries w0 = pw_entries w" "pw_group_name w0 = pw_group_name w"
    and nk: "enc0 = None \<longleftrightarrow> rc_encryption_public_key (r_config r) = None"
    and k: "\<And>e. enc0 = Some e \<Longrightarrow> \<exists>p. rc_encryption_public_key (r_config r) = Some p \<and>
       segment_encryptor_create (h_lib H) p = Inr e"
    and ic: "contents (iw_fp iw) = index_header (pw_segment_seq w0) (sh_flags (open_header H r1 w0 e0 (dict \<noteq> [])))"
      "iw_record_count iw = 0" "iw_path iw \<noteq> pw_path w0"
      "build_index_path s1 512 (pw_group_name w) (r_next_segment_seq r) = Some (iw_path iw)"
    and "pw_path w0 = w_log_dir s1 @ ''/'' @ pw_group_name w @ ''/'' @ decimal (unat (r_next_segment_seq r)) @ ''.seg''"
    and rd: "read_file (pw_path w0) s1 = Some (contents fp)" "read_file (iw_path iw) s1 = Some (contents (iw_fp iw))"
    and r1: "r1 = r\<lparr>r_next_segment_seq := r_next_segment_seq r + 1\<rparr>" and sq: "pw_segment_seq w0 = r_next_segment_seq r"
    by (rule writer_open_ok [OF op fresh(1)]) (rule that)
  let ?h = "open_header H r1 w0 e0 (dict \<noteq> [])"
  have len: "length dict \<le> UINT32_MAX"
    using hd by (auto simp: segment_write_header_def split: if_splits)
  have dk: "can_decrypt (h_lib H) enc0 decryptor"
  proof (cases enc0)
    case None then show ?thesis by (simp add: can_decrypt_def)
  next
    case (Some e) then show ?thesis using k key by blast
  qed
  show thesis
  proof (rule that [of ?h dict "iw_path iw" fp enc enc0])
    show "segment_inv H ?h dict (iw_path iw) fp enc [] (w1, s1)"
      unfolding segment_inv_def w1 start_segment_def Let_def
      using ic rd pe fresh header_dict_flag(2) [of H r1 w0 e0 "dict \<noteq> []"] sq
      by (auto intro!: exI [of _ "[]"] simp: open_header_def)
    show "figures_inv e0 [] w1"
      by (simp add: figures_inv_def w1 start_segment_def Let_def)
    show "build_index_path s1 512 (pw_group_name w1) (pw_segment_seq w1) = Some (iw_path iw)"
      using ic sq pe by (simp add: w1 start_segment_def Let_def)
  qed (use hd dk len header_dict_flag(1) [of H r1 w0 e0] sq in \<open>auto simp: open_header_def zero_header_def\<close>)
qed


lemma index_beside_segment:
  assumes sc: "segment_scan_path L (Some buf) decryptor (Some collect_frames) [] = (Inr (header, footer, e), frames)"
    and len: "length buf < 2 ^ 64"
  shows "index_open_read (Some (index_file (sh_segment_seq header) (sh_flags header)
     (map (\<lambda>(fr, ch). index_frame_of F header fr ch) frames) (of_nat (length buf)))) (Some buf) = Inr (length frames)"
proof -
  obtain fs off where fs: "run_cb collect_frames header fs [] = (0, frames)"
    and ct: "contiguous (length buf) off (spans fs)"
    and rh: "segment_read_path_header buf = Some (header, off, length buf)"
    by (rule scan_path_frames [OF sc len, where cb' = collect_frames])
  have "fs = frames" using fs by (simp add: run_collect)
  with index_open_read_table [OF table_ok_frames _ len rh, of F header frames] ct show ?thesis
    unfolding span_frames by simp
qed

text \<open>
  The footer of a segment that holds the entries \<^verbatim>\<open>es\<close>.
\<close>

definition footer_of :: "u32 \<Rightarrow> LogEntry list \<Rightarrow> SegmentFooter" where
  "footer_of reason es =
     \<lparr>ft_flags = (if sorted (map le_realtime_ts es) then 0 else SEGMENT_FOOTER_FLAG_REALTIME_NONMONOTONIC),
      ft_rotation_reason = reason, ft_entry_count = of_nat (length es),
      ft_last_realtime_ts = Max (set (map le_realtime_ts es)),
      ft_last_monotonic_ts = le_monotonic_ts (last es), ft_present = True\<rparr>"

lemma writer_footer_figures:
  "figures_inv e0 (e0 # es) w \<Longrightarrow> (writer_footer w reason)\<lparr>ft_present := True\<rparr> = footer_of reason (e0 # es)"
  by (auto simp: figures_inv_def writer_footer_def footer_of_def)

text \<open>
  C28. The life of a segment: a segment that \<^verbatim>\<open>writer_open_segment\<close> opened for its first entry,
  into which entries were taken with any flushes and syncs in between, and that
  \<^verbatim>\<open>writer_close_segment\<close> closed, is read back by a scan as exactly the entries taken, in order,
  compressed or not, with a dictionary or not, encrypted or not; the footer carries their number,
  the greatest realtime, the last monotonic time and whether realtime ever ran backwards; and the
  index written beside it is accepted with one record per frame.
\<close>

theorem written_segment_complete:
  assumes op: "writer_open_segment H e0 (r, w, s) = (True, r1, w1, s1)"
    and fresh: "pw_encryptor w = None" "pw_entries w = []"
    and run: "writer_run H (Accept e0 # evs) (w1, s1) = (True, w2, s2)"
    and cl: "writer_close_segment (H\<lparr>h_clock := ck\<rparr>) reason (w2, s2) = (True, w3, s3)"
    and libs: "zstd_ok (h_lib H)" "builder_ok H"
    and key: "\<And>p e. rc_encryption_public_key (r_config r) = Some p \<Longrightarrow>
      segment_encryptor_create (h_lib H) p = Inr e \<Longrightarrow> can_decrypt (h_lib H) (Some e) decryptor"
    and idx: "build_index_path s1 512 (pw_group_name w1) (pw_segment_seq w1) = Some idx"
    and content: "\<And>buf j f. read_file (pw_path w1) s3 = Some buf \<Longrightarrow> length buf < 2 ^ 64 \<and>
      (index_pread_frame (the (read_file idx s3)) j = Some f \<longrightarrow>
       footer_at (drop (unat (ix_file_offset f)) buf) = None)"
  shows "\<exists>buf header frames.
    read_file (pw_path w1) s3 = Some buf \<and>
    segment_scan_path (h_lib H) (Some buf) decryptor (Some collect_frames) [] =
      (Inr (header, footer_of reason (e0 # accepted evs), length buf), frames) \<and>
    concat (map (chunk_entries (h_flatcc H) header \<circ> snd) frames) = map chunk_entry (e0 # accepted evs) \<and>
    sh_segment_seq header = r_next_segment_seq r \<and> sh_first_realtime_ts header = le_realtime_ts e0 \<and>
    index_open_read (read_file idx s3) (Some buf) = Inr (length frames)"
proof -
  obtain h dict idx' enc0 fp1 enc1 where inv': "segment_inv H h dict idx' fp1 enc1 [] (w1, s1)" "figures_inv e0 [] w1"
    and hd: "segment_write_header (h_lib H) (h_rand H) (fopen_w (h_segment_script H)) h dict enc0 = (Inr (), fp1, enc1)"
    and dk: "can_decrypt (h_lib H) enc0 decryptor"
    and d: "sh_flags h AND SEGMENT_FLAG_HAS_STATIC_DICT \<noteq> 0 \<longleftrightarrow> dict \<noteq> []" "length dict \<le> UINT32_MAX"
    and idx': "build_index_path s1 512 (pw_group_name w1) (pw_segment_seq w1) = Some idx'"
    and h: "sh_segment_seq h = r_next_segment_seq r" "sh_first_realtime_ts h = le_realtime_ts e0"
    by (rule writer_open_inv [OF op fresh key])
  have inv: "segment_inv H h dict idx fp1 enc1 [] (w1, s1)" "figures_inv e0 [] w1" using inv' idx idx' by simp_all
  obtain env :: "unit scan_env" where em: "env_matches env (h_lib H) enc1 0" and tr: "trailer_len enc1 = trailer_len enc0"
    by (rule written_header_env [OF hd dk])
  from writer_run_inv [OF inv run em libs d] have inv2: "segment_inv H h dict idx fp1 enc1 (e0 # accepted evs) (w2, s2)"
    "figures_inv e0 (e0 # accepted evs) w2" "pw_path w2 = pw_path w1" by simp_all
  obtain fp fp' ws chunks enc where
    wf: "write_frames (h_lib H) fp1 enc1 ws = (Inr (), fp, enc)"
    and dec: "list_all2 (decodes (h_lib H) (stored_header h (length dict)) dict) ws chunks"
    and ents: "concat (map (chunk_entries (h_flatcc H) h) chunks) = map chunk_entry (e0 # accepted evs)"
    and ft: "segment_write_footer fp (writer_footer w2 reason) = (Inr (), fp')"
    and rd: "read_file (pw_path w2) s3 = Some (contents fp')"
    and ri: "read_file idx s3 = Some (index_file (sh_segment_seq h) (sh_flags h)
       (map2 (index_frame_of (h_flatcc H) h) (frame_list (length (contents fp1)) (trailer_len enc1) ws) chunks)
       (of_nat (length (contents fp'))))"
    by (rule writer_close_ok [OF inv2(1) cl _ _ _ em libs d]) simp_all
  let ?h = "stored_header h (length dict)"
  let ?frames = "zip (frame_list (length (contents fp1)) (trailer_len enc0) ws) chunks"
  note content' = content [OF rd [unfolded inv2(3)]]
  have c3: "contents fp' = contents fp @ footer_buf (writer_footer w2 reason)" using ft by (rule segment_write_footer_ok)
  let ?ixs = "map2 (index_frame_of (h_flatcc H) h) (frame_list (length (contents fp1)) (trailer_len enc1) ws) chunks"
  have nf: "no_false_footer (contents fp') (frame_offsets (length (contents fp1)) (trailer_len enc0) ws)"
    unfolding no_false_footer_def list_all_iff
  proof
    fix off assume o: "off \<in> set (frame_offsets (length (contents fp1)) (trailer_len enc0) ws)"
    from frame_offsets_below [OF o] have "off < length (contents fp)"
      using write_frames_length [OF wf em] tr by (simp add: trailer_len_def)
    moreover have "length (contents fp') < 2 ^ 64" using content' by blast
    ultimately have "off < 2 ^ 64" using c3 by simp
    then have k: "unat (of_nat off :: u64) = off" by (simp add: unat_of_nat)
    from frame_offset_listed [OF o] obtain j where j: "j < length ws"
      "fi_file_offset (frame_list (length (contents fp1)) (trailer_len enc0) ws ! j) = of_nat off" by blast
    then have "index_pread_frame (the (read_file idx s3)) j = Some (?ixs ! j)"
      using index_file_pread [OF table_ok_frames, of j "h_flatcc H" h "zip (frame_list (length (contents fp1)) (trailer_len enc1) ws) chunks"]
        list_all2_lengthD [OF dec] by (simp add: ri)
    with content' [of j "?ixs ! j"] j tr list_all2_lengthD [OF dec]
    show "footer_at (drop off (contents fp')) = None"
      by (simp add: index_frame_of_def Let_def k)
  qed
  have sc: "segment_scan_path (h_lib H) (Some (contents fp')) decryptor (Some collect_frames) [] =
      (Inr (?h, footer_of reason (e0 # accepted evs), length (contents fp')), ?frames)"
    using scan_closed_segment [OF hd wf ft dk dec nf, of collect_frames "[]"] writer_footer_figures [OF inv2(2)]
    by (simp add: run_collect)
  have flags: "sh_flags ?h = sh_flags h" "sh_segment_seq ?h = sh_segment_seq h"
    "sh_first_realtime_ts ?h = sh_first_realtime_ts h" by (simp_all add: stored_header_def)
  have op': "index_open_read (read_file idx s3) (Some (contents fp')) = Inr (length ?frames)"
    using index_beside_segment [OF sc, of "h_flatcc H"] content' ri tr
    by (simp add: flags index_frame_of_flags [OF flags(1)])
  have "map (chunk_entries (h_flatcc H) ?h \<circ> snd) ?frames = map (chunk_entries (h_flatcc H) h) chunks"
    using list_all2_lengthD [OF dec] by (simp add: chunk_entries_def [abs_def] flags flip: map_map)
  then show ?thesis
    using rd inv2(3) sc ents h op' by (auto simp: flags intro!: exI [of _ "contents fp'"])
qed


subsection \<open>A host on which nothing fails\<close>

lemma mkdir_all_healthy:
  "w_faults s = [] \<Longrightarrow> \<exists>s'. mkdir_all ps s = (True, s') \<and> w_faults s' = [] \<and> set (w_dirs s') = set (w_dirs s) \<union> set ps"
proof (induction ps arbitrary: s)
  case Nil
  then show ?case by simp
next
  case (Cons p ps)
  let ?s = "s\<lparr>w_dirs := w_dirs s @ [p]\<rparr>"
  from Cons.IH [of s] Cons.IH [of ?s] Cons.prems show ?case
    by (cases "p \<in> set (w_dirs s)") (auto simp: mkdir_def)
qed

lemma mkdir_p_healthy:
  assumes "w_faults s = []" and "length p < 512" and "p \<noteq> []" and "last p \<noteq> CHR ''/''"
  obtains s' where "mkdir_p p s = (True, s')" and "w_faults s' = []" and "same_files s s'"
    and "set (w_dirs s) \<subseteq> set (w_dirs s')" and "p \<in> set (w_dirs s')"
proof -
  have t: "snprintf_str 512 p = p" using assms by (simp add: snprintf_str_def)
  obtain s' where s': "mkdir_p p s = (True, s')" "w_faults s' = []" "set (w_dirs s) \<union> {p} \<subseteq> set (w_dirs s')"
    using mkdir_all_healthy [OF assms(1), of "map (\<lambda>i. take i p) (filter (\<lambda>i. p ! i = CHR ''/'') [1..<length p]) @ [p]"]
      assms by (auto simp: mkdir_p_def t Let_def)
  then show thesis using mkdir_p_same [OF s'(1)] by (intro that) auto
qed

lemma rename_healthy:
  "w_faults s = [] \<Longrightarrow> read_file a s \<noteq> None \<Longrightarrow> a \<noteq> b \<Longrightarrow>
   \<exists>s'. rename a b s = (True, s') \<and> w_faults s' = [] \<and> w_dirs s' = w_dirs s"
  by (auto simp: rename_def read_file_def split: option.splits)

lemma fsync_dir_healthy: "w_faults s = [] \<Longrightarrow> p \<in> set (w_dirs s) \<Longrightarrow> fsync_dir_path p s = (True, s)"
  by (simp add: fsync_dir_path_def)

lemma atomic_write_healthy:
  assumes s: "w_faults s = []" and d: "dir_of_path path = Some d" "d \<noteq> []" "last d \<noteq> CHR ''/''" "length d < 512"
    and len: "length path \<le> 507"
  obtains s' where "atomic_write_text_file path txt s = (True, s')" and "w_faults s' = []"
    and "set (w_dirs s) \<subseteq> set (w_dirs s')" and "w_log_dir s' = w_log_dir s"
proof -
  let ?tmp = "path @ ''.tmp''"
  have tmp: "snprintf_str 512 ?tmp = ?tmp" "?tmp \<noteq> path" using len by (simp_all add: snprintf_str_def)
  obtain s1 where m: "mkdir_p d s = (True, s1)" "w_faults s1 = []" "same_files s s1"
    "set (w_dirs s) \<subseteq> set (w_dirs s1)" "d \<in> set (w_dirs s1)"
    by (rule mkdir_p_healthy [OF s d(4,2,3)])
  obtain s2 where r: "rename ?tmp path (put_file ?tmp (str_bytes txt) s1) = (True, s2)" "w_faults s2 = []" "w_dirs s2 = w_dirs s1"
    using rename_healthy [of "put_file ?tmp (str_bytes txt) s1" ?tmp path] m tmp by auto
  have "atomic_write_text_file path txt s = (True, s2)"
    using m r d by (simp add: atomic_write_text_file_def tmp Let_def fsync_dir_healthy)
  moreover have "w_log_dir s2 = w_log_dir s"
    using rename_effect [OF r(1) tmp(2)] m(3) by (simp add: same_files_def)
  ultimately show thesis
    using m r by (intro that [of s2]) simp_all
qed

lemma dir_of_path_join: "CHR ''/'' \<notin> set name \<Longrightarrow> dir_of_path (d @ ''/'' @ name) = Some d"
proof -
  assume "CHR ''/'' \<notin> set name"
  then have "dropWhile (\<lambda>c. c \<noteq> CHR ''/'') (rev name @ CHR ''/'' # rev d) = CHR ''/'' # rev d"
    by (subst dropWhile_append2) auto
  then show ?thesis by (simp add: dir_of_path_def)
qed

lemma persist_seq_healthy:
  assumes s: "w_faults s = []" "length (w_log_dir s) \<le> 400"
  obtains s' where "persist_next_segment_seq v s = (True, s')" and "w_faults s' = []"
    and "set (w_dirs s) \<subseteq> set (w_dirs s')" and "w_log_dir s' = w_log_dir s"
proof -
  let ?p = "(w_log_dir s @ ''/state'') @ ''/'' @ ''segment_seq''"
  have p: "build_state_segment_seq_path s 512 = Some ?p"
    using s by (simp add: build_state_segment_seq_path_def build_log_path_def join_path_suffix_def)
  have d: "dir_of_path ?p = Some (w_log_dir s @ ''/state'')" by (rule dir_of_path_join) simp
  show thesis
    by (rule atomic_write_healthy [OF s(1) d, of "decimal (unat v) @ [CHR 0x0A]"])
      (use s p in \<open>auto simp: persist_next_segment_seq_def intro: that\<close>)
qed

lemma seq_path_healthy:
  assumes "length (w_log_dir s) + length g \<le> 400" and "length ext \<le> 8"
  shows "build_seq_path s 512 g q ext = Some (w_log_dir s @ ''/'' @ g @ ''/'' @ decimal (unat q) @ ext)"
  using assms length_decimal_u64 [of q]
  by (simp add: build_seq_path_def build_segment_dir_def join_path_component_def Let_def) linarith


definition healthy :: "host \<Rightarrow> world \<Rightarrow> bool" where
  "healthy H s \<longleftrightarrow> h_segment_script H = [] \<and> h_index_script H = [] \<and> w_faults s = [] \<and>
     length (w_log_dir s) \<le> 180"

definition plain_writer :: "RecorderConfig \<Rightarrow> PriorityWriter \<Rightarrow> bool" where
  "plain_writer cfg w \<longleftrightarrow>
     rc_encryption_public_key cfg = None \<and> pg_static_dict_path (rc_groups cfg ! pw_group_index w) = None \<and>
     pw_encryptor w = None \<and> pw_group_name w \<noteq> [] \<and> CHR ''/'' \<notin> set (pw_group_name w) \<and>
     length (pw_group_name w) \<le> MAX_GROUP_NAME_LEN"

text \<open>An open plaintext writer whose streams accept every byte.\<close>

definition ready :: "PriorityWriter \<Rightarrow> bool" where
  "ready w \<longleftrightarrow>
     pw_open w \<and> pw_encryptor w = None \<and>
     (\<exists>fp iw. pw_fp w = Some fp \<and> wscript fp = [] \<and> pw_index_writer w = Some iw \<and>
        wscript (iw_fp iw) = [] \<and> \<not> iw_ferror iw)"

lemma writer_open_healthy:
  assumes H: "healthy H s" and w: "plain_writer (r_config r) w"
  obtains r1 w1 s1 h iw where
    "writer_open_segment H e0 (r, w, s) = (True, r1, w1, s1)" and "w_faults s1 = []"
    and "w_log_dir s1 = w_log_dir s"
    and "ready w1" and "pw_fp w1 = Some \<lparr>contents = header_buf h 0 [], wscript = []\<rparr>"
    and "pw_index_writer w1 = Some iw" and "length (contents (iw_fp iw)) = 24" and "iw_path iw \<noteq> pw_path w1"
    and "build_index_path s1 512 (pw_group_name w) (r_next_segment_seq r) = Some (iw_path iw)"
    and "pw_entries w1 = pw_entries w" and "pw_group_index w1 = pw_group_index w"
    and "pw_group_name w1 = pw_group_name w"
    and "pw_segment_seq w1 = r_next_segment_seq r"
    and "pw_path w1 = w_log_dir s @ ''/'' @ pw_group_name w @ ''/'' @ decimal (unat (r_next_segment_seq r)) @ ''.seg''"
    and "pw_use_compact_entries w1 = (\<not> config_uses_full_entries (r_config r))"
    and "pw_compress_enabled w1 = rc_compress_enabled (r_config r)"
    and "pw_compress_min_frame_bytes w1 = rc_compress_min_frame_bytes (r_config r)"
    and "pw_durability_flush_frames w1 = pg_durability_flush_frames (rc_groups (r_config r) ! pw_group_index w)"
proof -
  let ?g = "pw_group_name w" and ?q = "r_next_segment_seq r"
  let ?dir = "w_log_dir s @ ''/'' @ ?g"
  have g: "?g \<noteq> []" "CHR ''/'' \<notin> set ?g" "length ?g \<le> 63" using w by (auto simp: plain_writer_def)
  have sf: "w_faults s = []" "length (w_log_dir s) \<le> 180" using H by (auto simp: healthy_def)
  have bd: "build_segment_dir s 256 ?g = Some ?dir"
    using g sf by (simp add: build_segment_dir_def join_path_component_def) linarith
  have lg: "last ?g \<noteq> CHR ''/''" using g(2) last_in_set [OF g(1)] by metis
  have dl: "length ?dir < 512" "?dir \<noteq> []" "last ?dir \<noteq> CHR ''/''" using g sf lg by auto
  obtain sa where sa: "mkdir_p ?dir s = (True, sa)" "w_faults sa = []" "same_files s sa"
    "set (w_dirs s) \<subseteq> set (w_dirs sa)" "?dir \<in> set (w_dirs sa)"
    by (rule mkdir_p_healthy [OF sf(1) dl])
  have la: "w_log_dir sa = w_log_dir s" using sa by (simp add: same_files_def)
  obtain sb where sb: "persist_next_segment_seq (?q + 1) sa = (True, sb)" "w_faults sb = []"
    "set (w_dirs sa) \<subseteq> set (w_dirs sb)" "w_log_dir sb = w_log_dir s"
    using persist_seq_healthy [OF sa(2), unfolded la] sf(2) by auto
  let ?base = "w_log_dir s @ ''/'' @ ?g @ ''/'' @ decimal (unat ?q)"
  have bp: "build_segment_path s' 512 ?g ?q = Some (?base @ ''.seg'')"
    "build_segment_tmp_path s' 512 ?g ?q = Some (?base @ ''.seg.tmp'')"
    "build_index_path s' 512 ?g ?q = Some (?base @ ''.idx'')" if "w_log_dir s' = w_log_dir s" for s'
    using g sf that
    by (simp_all add: build_segment_path_def build_segment_tmp_path_def build_index_path_def seq_path_healthy)
  let ?tmp = "?base @ ''.seg.tmp''" and ?idx = "?base @ ''.idx''" and ?path = "?base @ ''.seg''"
  let ?s4 = "put_file ?tmp [] sb"
  let ?w3 = "w\<lparr>pw_segment_seq := ?q, pw_path := ?path, pw_tmp_path := ?tmp\<rparr>"
  let ?r1 = "r\<lparr>r_next_segment_seq := ?q + 1\<rparr>"
  let ?h = "open_header H ?r1 ?w3 e0 False"
  let ?fp = "\<lparr>contents = header_buf ?h 0 [], wscript = []\<rparr>"
  let ?iw = "\<lparr>iw_fp = \<lparr>contents = index_header ?q (sh_flags ?h), wscript = []\<rparr>, iw_ferror = False, iw_path = ?idx, iw_record_count = 0\<rparr>"
  have hd: "segment_write_header (h_lib H) (h_rand H) (fopen_w []) ?h [] None = (Inr (), ?fp, None)"
    using w by (simp add: segment_write_header_def write_seq_unscripted fopen_w_def nonempty_def encrypted_def
        open_header_def zero_header_def plain_writer_def del: write_seq.simps)
  have io: "index_writer_open (Some (fopen_w [])) ?idx (sh_segment_seq ?h) (sh_flags ?h) = Some ?iw"
    by (simp add: index_writer_open_def fopen_w_def fwrite_script open_header_def index_header_def)
  let ?s5 = "put_file ?idx (contents (iw_fp ?iw)) (put_file ?tmp (contents ?fp) ?s4)"
  obtain s6 where s6: "rename ?tmp ?path ?s5 = (True, s6)" "w_faults s6 = []" "w_dirs s6 = w_dirs ?s5"
    using rename_healthy [of ?s5 ?tmp ?path] sb by auto
  have l6: "w_log_dir s6 = w_log_dir s" using rename_effect [OF s6(1)] sb by simp
  have fs: "fsync_dir_path ?dir s6 = (True, s6)"
    using s6 sb sa by (intro fsync_dir_healthy) auto
  let ?w1 = "start_segment H ?r1 e0 ?h [] ?fp None ?iw ?w3"
  have fo: "finish_open H ?r1 e0 ?dir [] False (?w3, ?s4) = (True, ?w1, s6)"
    using H w hd io s6 fs sb bp
    by (simp add: finish_open_def Let_def healthy_def plain_writer_def)
  have op: "writer_open_segment H e0 (r, w, s) = (True, ?r1, ?w1, s6)"
    using bd sa sb bp fo w
    by (simp add: writer_open_segment_def Let_def open_encryptor_def open_dict_def plain_writer_def)
  show thesis
    by (rule that [OF op s6(2) l6, where iw = ?iw and h = ?h])
      (use w bp(3) [OF l6] in \<open>simp_all add: start_segment_def ready_def Let_def plain_writer_def\<close>)
qed


lemma compress_chunk_small:
  assumes "compress_chunk L w raw = (flags, whole)" and "zstd_ok L" and "length raw < 2 ^ 31"
  shows "length whole \<le> UINT32_MAX - 20"
proof -
  have "length whole \<le> length raw + length raw div 256 + 64"
    using assms by (auto simp: compress_chunk_def zstd_ok_def split: if_splits option.splits)
  then show ?thesis using assms(3) by simp
qed

lemma index_append_healthy:
  assumes "wscript (iw_fp iw) = []" and "\<not> iw_ferror iw"
  obtains iw' where "index_writer_append F h fr raw iw = (True, iw')" and "wscript (iw_fp iw') = []"
    and "\<not> iw_ferror iw'" and "iw_path iw' = iw_path iw"
    and "contents (iw_fp iw') = contents (iw_fp iw) @ index_record (index_frame_of F h fr raw)"
  using assms that by (simp add: index_writer_append_def write_index_frame_def store_parts_healthy index_record_def)

lemma writer_flush_healthy:
  assumes rdy: "ready w" and s: "w_faults s = []"
    and b: "h_build H (pw_use_compact_entries w) (pw_entries w) = Some raw" "length raw < 2 ^ 31"
    and z: "zstd_ok (h_lib H)" and ne: "pw_entries w \<noteq> []" and fp: "pw_fp w = Some fp"
    and iw: "pw_index_writer w = Some iw"
    and cc: "compress_chunk (h_lib H) w raw = (flags, whole)"
  obtains w' s' iw' where "writer_flush_chunk H (w, s) = (True, w', s')" and "ready w'" and "w_faults s' = []"
    and "w_log_dir s' = w_log_dir s" and "w_dirs s' = w_dirs s" and "pw_entries w' = []"
    and "pw_fp w' = Some \<lparr>contents = contents fp @ frame_raw flags (of_nat (length raw)) whole [], wscript = []\<rparr>"
    and "pw_bytes_written w' = of_nat (length (contents fp) + length (frame_raw flags (of_nat (length raw)) whole []))"
    and "pw_index_writer w' = Some iw'" and "iw_path iw' = iw_path iw" and "pw_path w' = pw_path w"
    and "contents (iw_fp iw') = contents (iw_fp iw) @
       index_record (index_frame_of (h_flatcc H) (pw_index_header w) (chunk_frame w flags raw whole (ftell fp)) raw)"
proof -
  have o: "pw_open w" "pw_encryptor w = None" "wscript fp = []" "pw_index_writer w = Some iw"
    "wscript (iw_fp iw) = []" "\<not> iw_ferror iw"
    using rdy fp iw by (auto simp: ready_def)
  have wl: "length whole \<le> UINT32_MAX - 20" by (rule compress_chunk_small [OF cc z b(2)])
  then have tk: "take (unat (of_nat (length whole) :: u32)) whole = whole" by (simp add: unat_of_nat)
  let ?fp = "fp\<lparr>contents := contents fp @ frame_raw flags (of_nat (length raw)) whole []\<rparr>"
  have wf: "segment_write_frame (h_lib H) fp None flags whole (of_nat (length raw)) = (Inr (), ?fp, None)"
    by (rule write_frame_plain_unscripted [OF o(3) wl])
  obtain iw' where ia: "index_writer_append (h_flatcc H) (pw_index_header w) (chunk_frame w flags raw whole (ftell fp)) raw iw = (True, iw')"
    "wscript (iw_fp iw') = []" "\<not> iw_ferror iw'" "iw_path iw' = iw_path iw"
    "contents (iw_fp iw') = contents (iw_fp iw) @
       index_record (index_frame_of (h_flatcc H) (pw_index_header w) (chunk_frame w flags raw whole (ftell fp)) raw)"
    by (rule index_append_healthy [OF o(5,6)])
  let ?s3 = "put_file (iw_path iw') (contents (iw_fp iw')) (put_file (pw_path w) (contents ?fp) s)"
  have f3: "fault ?s3 = (False, ?s3)" "fault (put_file (pw_path w) (contents ?fp) s) = (False, put_file (pw_path w) (contents ?fp) s)"
    using s by simp_all
  define w3 where "w3 = w\<lparr>pw_fp := Some ?fp, pw_encryptor := None, pw_index_writer := Some iw',
    pw_bytes_written := of_nat (ftell ?fp), pw_unsynced_frames := pw_unsynced_frames w + 1\<rparr>"
  define w1 where "w1 = (if sync_due (h_clock H) w3 \<or> pw_durability_flush_frames w3 \<noteq> 0 \<and>
    pw_unsynced_frames w3 \<ge> pw_durability_flush_frames w3 then synced (h_clock H) w3 else w3)"
  have fb: "flush_body H raw fp iw (w, s) = (True, w1, ?s3)"
    unfolding flush_body_def prod.case cc Let_def tk o(2) wf sum.case f3 bool.case ia(1) w1_def w3_def by simp
  have w1: "pw_fp w1 = Some ?fp" "pw_index_writer w1 = Some iw'" "pw_open w1" "pw_encryptor w1 = None"
      "pw_bytes_written w1 = of_nat (ftell ?fp)" "pw_path w1 = pw_path w"
    by (simp_all add: w1_def w3_def synced_def o)
  have fl: "writer_flush_chunk H (w, s) = (True, drop_pending (h_clock H) w1, ?s3)"
    using ne b fp o fb by (simp add: writer_flush_chunk_def)
  show thesis
    by (rule that [OF fl]) (use w1 o ia s in \<open>auto simp: drop_pending_def ready_def ftell_def intro: FILE.equality\<close>)
qed

lemma writer_close_healthy:
  assumes rdy: "ready w" and s: "w_faults s = []" and e: "pw_entries w = []" and fp: "pw_fp w = Some fp"
    and iw: "pw_index_writer w = Some iw" and np: "iw_path iw \<noteq> pw_path w"
  obtains w' s' ce where "writer_close_segment H reason (w, s) = (True, w', s')" and "w_faults s' = []"
    and "w_log_dir s' = w_log_dir s" and "\<not> pw_open w'" and "pw_encryptor w' = None" and "pw_entries w' = []"
    and "pw_group_name w' = pw_group_name w" and "pw_group_index w' = pw_group_index w"
    and "read_file (pw_path w) s' = Some (contents fp @ footer_buf (writer_footer w reason))"
    and "read_file (iw_path iw) s' = Some (contents (iw_fp iw) @ index_footer iw ce)"
proof -
  have o: "pw_open w" "pw_encryptor w = None" "wscript fp = []" "pw_index_writer w = Some iw"
    "wscript (iw_fp iw) = []" "\<not> iw_ferror iw"
    using rdy fp iw by (auto simp: ready_def)
  let ?ft = "writer_footer w reason"
  have sf: "segment_write_footer fp ?ft = (Inr (), fp\<lparr>contents := contents fp @ footer_buf ?ft\<rparr>)"
    using o by (simp add: segment_write_footer_def write_all_def fwrite_script writer_footer_def)
  have ic: "\<exists>ifp. index_writer_close iw ce = (True, ifp)" for ce
    using o by (simp add: index_writer_close_def fwrite_script index_footer_def)
  have fl: "writer_flush_chunk H (w, s) = (True, w, s)" using e by (simp add: writer_flush_chunk_def)
  obtain ifp where ic: "index_writer_close iw (of_nat (ftell (fp\<lparr>contents := contents fp @ footer_buf ?ft\<rparr>))) = (True, ifp)"
    using ic by blast
  let ?s3 = "put_file (iw_path iw) (contents ifp) (put_file (pw_path w) (contents fp @ footer_buf ?ft) s)"
  have fs: "w_faults (snd (fsync_dir_path d ?s3)) = [] \<and> w_log_dir (snd (fsync_dir_path d ?s3)) = w_log_dir s \<and>
      read_file q (snd (fsync_dir_path d ?s3)) = read_file q ?s3" for d q
    using s by (simp add: fsync_dir_path_def)
  note ifp = index_close_contents [OF ic]
  show thesis
    by (rule that [of "(closed_writer (w\<lparr>pw_bytes_written := of_nat (ftell (fp\<lparr>contents := contents fp @ footer_buf ?ft\<rparr>))\<rparr>))
        \<lparr>pw_index_writer := None, pw_boot_id := [], pw_timezone := [], pw_dict_bytes := []\<rparr>"
        "case build_segment_dir ?s3 256 (pw_group_name w) of None \<Rightarrow> ?s3 | Some dir \<Rightarrow> snd (fsync_dir_path dir ?s3)"
        "of_nat (ftell (fp\<lparr>contents := contents fp @ footer_buf ?ft\<rparr>))"])
      (use o fl fp sf ic s fs e np ifp in \<open>simp_all add: writer_close_segment_def closed_writer_def Let_def split: option.splits\<close>)
qed


definition demo_clock :: clock where
  "demo_clock = \<lparr>ck_mono_sec = 100, ck_realtime_usec = Some 5000000, ck_boottime_usec = Some 1000000, ck_timezone = str_bytes ''+0000''\<rparr>"

definition demo_entry :: LogEntry where
  "demo_entry =
     \<lparr>le_realtime_ts = 1001, le_monotonic_ts = 1, le_monotonic_tie_order = 0, le_pid = 7, le_uid = 0,
      le_gid = 0, le_boot_seq = 0, le_priority = 6, le_errno_value = 0, le_boot_id = str_bytes ''b'',
      le_message = Some (str_bytes ''hello''), le_message_id = None, le_hostname = None,
      le_unit = Some [0x73], le_comm = None, le_exe = None, le_extra_fields = []\<rparr>"

definition demo_host :: host where
  "demo_host =
     \<lparr>h_lib = demo_lib,
      h_flatcc = demo_flatcc\<lparr>journal_DefaultChunk_entries := journal_Chunk_entries demo_flatcc\<rparr>,
      h_jansson = demo_jansson, h_pcre2 = demo_pcre2, h_avail = (\<lambda>_. Some 1000), h_clock = demo_clock,
      h_rand = 0, h_segment_script = [], h_index_script = [],
      h_serialize = (\<lambda>c e. True), h_build = (\<lambda>c es. if es = [demo_entry] then Some (replicate 50 1) else None),
      h_nospace = (\<lambda>s. False), h_cursor_write = None\<rparr>"

lemma demo_host_ok: "zstd_ok (h_lib demo_host)" "builder_ok demo_host" "healthy demo_host (demo_world [])"
  by (auto simp: zstd_ok_def builder_ok_def healthy_def demo_host_def demo_lib_def demo_flatcc_def chunk_entry_def
      demo_entry_def demo_world_def)

definition demo_writer :: PriorityWriter where
  "demo_writer = writer_init (rc_groups recorder_config_init ! 6) 6"

lemma demo_group6: "rc_groups recorder_config_init ! 6 = empty_group\<lparr>pg_name := ''p6'', pg_priorities := [6], pg_min_priority := 6\<rparr>"
  by (simp add: recorder_config_init_def decimal.simps digit_chars)

lemma demo_writer_plain: "plain_writer recorder_config_init demo_writer" "pw_entries demo_writer = []" "pw_group_name demo_writer = ''p6''"
  by (simp_all add: plain_writer_def demo_writer_def writer_init_def demo_group6 empty_group_def)
    (simp add: recorder_config_init_def)

theorem written_segment_complete_witness:
  "\<exists>r1 w1 s1 w2 s2 w3 s3 buf header frames.
     writer_open_segment demo_host demo_entry (idle_recorder recorder_config_init, demo_writer, demo_world []) = (True, r1, w1, s1) \<and>
     writer_run demo_host [Accept demo_entry, Flush demo_clock] (w1, s1) = (True, w2, s2) \<and>
     writer_close_segment demo_host 6 (w2, s2) = (True, w3, s3) \<and> read_file ''/l/p6/7.seg'' s3 = Some buf \<and>
     segment_scan_path demo_lib (Some buf) None (Some collect_frames) [] = (Inr (header, footer_of 6 [demo_entry], length buf), frames) \<and>
     concat (map (chunk_entries (h_flatcc demo_host) header \<circ> snd) frames) = [chunk_entry demo_entry]"
proof -
  let ?r = "idle_recorder recorder_config_init"
  have cfg: "r_config ?r = recorder_config_init" "r_next_segment_seq ?r = 7" by (simp_all add: idle_recorder_def)
  have pe: "pw_encryptor demo_writer = None" using demo_writer_plain(1) by (simp add: plain_writer_def)
  obtain r1 w1 s1 h iw where
    op: "writer_open_segment demo_host demo_entry (?r, demo_writer, demo_world []) = (True, r1, w1, s1)"
    and s1: "w_faults s1 = []" "w_log_dir s1 = w_log_dir (demo_world [])"
    and w1: "ready w1" "pw_fp w1 = Some \<lparr>contents = header_buf h 0 [], wscript = []\<rparr>" "pw_index_writer w1 = Some iw"
    and iw: "length (contents (iw_fp iw)) = 24" "iw_path iw \<noteq> pw_path w1"
      "build_index_path s1 512 (pw_group_name demo_writer) (r_next_segment_seq ?r) = Some (iw_path iw)"
    and w1': "pw_entries w1 = pw_entries demo_writer" "pw_group_index w1 = pw_group_index demo_writer"
      "pw_group_name w1 = pw_group_name demo_writer" "pw_segment_seq w1 = r_next_segment_seq ?r"
      "pw_path w1 = w_log_dir (demo_world []) @ ''/'' @ pw_group_name demo_writer @ ''/'' @ decimal (unat (r_next_segment_seq ?r)) @ ''.seg''"
      "pw_use_compact_entries w1 = (\<not> config_uses_full_entries (r_config ?r))"
      "pw_compress_enabled w1 = rc_compress_enabled (r_config ?r)"
      "pw_compress_min_frame_bytes w1 = rc_compress_min_frame_bytes (r_config ?r)"
      "pw_durability_flush_frames w1 = pg_durability_flush_frames (rc_groups (r_config ?r) ! pw_group_index demo_writer)"
    by (rule writer_open_healthy [OF demo_host_ok(3), of ?r demo_writer]) (auto simp: cfg demo_writer_plain)
  let ?a = "accept_entry demo_entry w1" and ?raw = "replicate 50 1 :: byte list"
  have a: "ready ?a" "pw_entries ?a = [demo_entry]" "pw_fp ?a = pw_fp w1" "pw_index_writer ?a = Some iw" "pw_path ?a = pw_path w1"
    using w1 w1' demo_writer_plain by (simp_all add: accept_entry_def ready_def)
  have bd: "h_build (demo_host\<lparr>h_clock := demo_clock\<rparr>) c (pw_entries ?a) = Some ?raw" for c
    using a by (simp add: demo_host_def del: replicate.simps)
  have cc: "compress_chunk demo_lib ?a ?raw = (0, ?raw)"
    by (simp add: compress_chunk_def demo_lib_def)
  obtain w2 s2 iw2 where
    fl: "writer_flush_chunk (demo_host\<lparr>h_clock := demo_clock\<rparr>) (?a, s1) = (True, w2, s2)" and w2: "ready w2" "w_faults s2 = []"
    and "w_log_dir s2 = w_log_dir s1" and "w_dirs s2 = w_dirs s1" and e2: "pw_entries w2 = []"
    and fp2: "pw_fp w2 = Some \<lparr>contents = contents \<lparr>contents = header_buf h 0 [], wscript = []\<rparr> @ frame_raw 0 (of_nat (length ?raw)) ?raw [], wscript = []\<rparr>"
    and "pw_bytes_written w2 = of_nat (length (contents \<lparr>contents = header_buf h 0 [], wscript = []\<rparr>) + length (frame_raw 0 (of_nat (length ?raw)) ?raw []))"
    and iw2: "pw_index_writer w2 = Some iw2" "iw_path iw2 = iw_path iw" "pw_path w2 = pw_path ?a"
    and ic2: "contents (iw_fp iw2) = contents (iw_fp iw) @
       index_record (index_frame_of (h_flatcc (demo_host\<lparr>h_clock := demo_clock\<rparr>)) (pw_index_header ?a)
         (chunk_frame ?a 0 ?raw ?raw (ftell \<lparr>contents = header_buf h 0 [], wscript = []\<rparr>)) ?raw)"
    by (rule writer_flush_healthy [OF a(1) s1(1) bd _ _ _ _ a(4)]) (use demo_host_ok a w1 cc in \<open>auto simp: demo_host_def\<close>)
  obtain w3 s3 ce where cl: "writer_close_segment demo_host 6 (w2, s2) = (True, w3, s3)"
    and bf: "read_file (pw_path w2) s3 = Some (contents \<lparr>contents = contents \<lparr>contents = header_buf h 0 [], wscript = []\<rparr> @ frame_raw 0 (of_nat (length ?raw)) ?raw [], wscript = []\<rparr> @ footer_buf (writer_footer w2 6))"
    and ix: "read_file (iw_path iw2) s3 = Some (contents (iw_fp iw2) @ index_footer iw2 ce)"
    using writer_close_healthy [OF w2 e2 fp2 iw2(1)] iw2 iw(2) a(5) by metis
  have run: "writer_run demo_host [Accept demo_entry, Flush demo_clock] (w1, s1) = (True, w2, s2)" using fl by simp
  let ?buf = "header_buf h 0 [] @ frame_raw 0 (of_nat (length ?raw)) ?raw [] @ footer_buf (writer_footer w2 6)"
  let ?fr = "index_frame_of (h_flatcc (demo_host\<lparr>h_clock := demo_clock\<rparr>)) (pw_index_header ?a)
         (chunk_frame ?a 0 ?raw ?raw (ftell \<lparr>contents = header_buf h 0 [], wscript = []\<rparr>)) ?raw"
  have bf': "read_file (pw_path w1) s3 = Some ?buf" using bf iw2(3) a(5) by simp
  have lr: "length (index_record ?fr) = 83" by (rule ixrec.record_length) simp
  have content: "length buf < 2 ^ 64 \<and> (index_pread_frame (the (read_file (iw_path iw) s3)) j = Some f \<longrightarrow>
      footer_at (drop (unat (ix_file_offset f)) buf) = None)" if "read_file (pw_path w1) s3 = Some buf" for buf j f
  proof -
    have b: "buf = ?buf" using bf' that by simp
    have i: "the (read_file (iw_path iw) s3) = contents (iw_fp iw) @ concat (map index_record [?fr]) @ index_footer iw2 ce"
      using ix iw2(2) ic2 by simp
    have j0: "j = 0 \<and> f = ?fr" if p: "index_pread_frame (the (read_file (iw_path iw) s3)) j = Some f"
    proof (cases j)
      case 0
      have "index_pread_frame (the (read_file (iw_path iw) s3)) 0 = Some ([?fr] ! 0)"
        unfolding i by (rule pread_table [OF iw(1)]) (simp_all add: table_ok_def)
      with p 0 show ?thesis by simp
    next
      case (Suc k)
      have "length (the (read_file (iw_path iw) s3)) = 135" unfolding i using iw(1) lr by (simp add: index_footer_def)
      with p Suc show ?thesis by (simp add: index_pread_frame_def Let_def split: if_splits)
    qed
    have off: "unat (ix_file_offset ?fr) = 152"
      by (simp add: index_frame_of_def Let_def chunk_frame_def ftell_def)
    have "footer_at (drop 152 ?buf) = None"
      using constant_no_footer [of 50 0 "of_nat (length ?raw)" 1 "[]" "footer_buf (writer_footer w2 6)"]
      by (simp del: replicate.simps)
    moreover have "length ?buf < 2 ^ 64" by (simp add: frame_raw_def Let_def)
    ultimately show ?thesis using b j0 off by auto
  qed
  have nk: "rc_encryption_public_key (r_config ?r) = None"
    using demo_writer_plain(1) by (simp add: cfg plain_writer_def)
  have cl': "writer_close_segment (demo_host\<lparr>h_clock := demo_clock\<rparr>) 6 (w2, s2) = (True, w3, s3)"
    using cl by (simp add: demo_host_def)
  have idx: "build_index_path s1 512 (pw_group_name w1) (pw_segment_seq w1) = Some (iw_path iw)" using iw(3) w1' by simp
  obtain buf header frames where res: "read_file (pw_path w1) s3 = Some buf"
    "segment_scan_path (h_lib demo_host) (Some buf) None (Some collect_frames) [] =
       (Inr (header, footer_of 6 (demo_entry # accepted [Flush demo_clock]), length buf), frames)"
    "concat (map (chunk_entries (h_flatcc demo_host) header \<circ> snd) frames) = map chunk_entry (demo_entry # accepted [Flush demo_clock])"
    using written_segment_complete [OF op pe demo_writer_plain(2) run cl' demo_host_ok(1,2) _ idx content, where decryptor = None] nk
    by auto
  have pth: "pw_path w1 = ''/l/p6/7.seg''"
    using w1'(5) by (simp add: demo_world_def demo_writer_plain cfg decimal.simps digit_chars)
  have L: "h_lib demo_host = demo_lib" by (simp add: demo_host_def)
  show ?thesis
    using op run cl res unfolding pth L by (intro exI conjI) (assumption | simp)+
qed

end
