(* ===== verification/Recorder_Props.thy ===== *)
theory Recorder_Props
  imports Recorder Writer_Props
begin

text \<open>
  What the recording process guarantees. An invariant of single writers that every writer
  operation keeps is an invariant of the whole process (locale \<^verbatim>\<open>writer_invariant\<close>); the instances
  say that writers never use a missing stream or overrun their chunk and that they stay with their
  group. Then: which segment an entry goes to, what a checkpoint promises, and how far one step
  over the journal gets.
\<close>

subsection \<open>Operations that leave the writers alone\<close>

definition writers_all :: "RecorderConfig \<Rightarrow> (nat \<Rightarrow> PriorityWriter \<Rightarrow> bool) \<Rightarrow> Recorder \<Rightarrow> bool" where
  "writers_all cfg P r \<longleftrightarrow> r_config r = cfg \<and> length (r_writers r) = length (rc_groups cfg) \<and>
     (\<forall>i < length (r_writers r). P i (r_writers r ! i))"

lemma refresh_boots_recorder: "refresh_boots L J c (r, s) = (r', s') \<Longrightarrow> \<exists>b. r' = r\<lparr>r_boots := b\<rparr>"
proof -
  assume "refresh_boots L J c (r, s) = (r', s')"
  then have "r' = r\<lparr>r_boots := r_boots r'\<rparr>" by (auto simp: refresh_boots_def Let_def split: if_splits)
  then show ?thesis by blast
qed

lemma retention_enforce_recorder:
  "retention_enforce L J (r, s) = (r', s') \<Longrightarrow> \<exists>b. r' = r\<lparr>r_boots := b\<rparr>"
  by (auto simp: retention_enforce_def Let_def dest: refresh_boots_recorder split: prod.splits)

lemma reclaim_recorder:
  assumes "retention_reclaim_lower_priority L J av p n (r, s) = (c, r', s')"
  shows "\<exists>b. r' = r\<lparr>r_boots := b\<rparr>"
proof -
  have "\<exists>b. r = r\<lparr>r_boots := b\<rparr>" by (rule exI [of _ "r_boots r"]) simp
  then show ?thesis
    using assms by (auto simp: retention_reclaim_lower_priority_def Let_def dest: refresh_boots_recorder
        split: prod.splits option.splits if_splits)
qed

lemma writer_open_recorder:
  "writer_open_segment H e (r, w, s) = (ok, r', w', s') \<Longrightarrow> \<exists>n. r' = r\<lparr>r_next_segment_seq := n\<rparr>"
proof -
  assume "writer_open_segment H e (r, w, s) = (ok, r', w', s')"
  then have "r' = r\<lparr>r_next_segment_seq := r_next_segment_seq r'\<rparr>"
    by (auto simp: writer_open_segment_def Let_def split: prod.splits option.splits bool.splits)
  then show ?thesis by blast
qed

lemma writers_all_update:
  "writers_all cfg P r \<Longrightarrow> (i < length (r_writers r) \<Longrightarrow> P i w) \<Longrightarrow>
   writers_all cfg P (r\<lparr>r_writers := (r_writers r)[i := w]\<rparr>)"
  unfolding writers_all_def by (simp, metis nth_list_update_eq nth_list_update_neq)

lemma writers_all_same: "r_config r' = r_config r \<Longrightarrow> r_writers r' = r_writers r \<Longrightarrow> writers_all cfg P r' = writers_all cfg P r"
  by (simp add: writers_all_def)

lemma writers_allD: "writers_all cfg P r \<Longrightarrow> i < length (r_writers r) \<Longrightarrow> P i (r_writers r ! i)"
  by (simp add: writers_all_def)

lemma on_writer_keeps:
  assumes "on_writer i f (r, s) = (ok, r', s')" and "writers_all cfg P r"
    and "\<And>ok w' s'. P i (r_writers r ! i) \<Longrightarrow> f (r_writers r ! i, s) = (ok, w', s') \<Longrightarrow> P i w'"
  shows "writers_all cfg P r'"
  using assms by (auto simp: on_writer_def split: prod.splits intro!: writers_all_update dest: writers_allD)

lemma open_writer_open:
  assumes "open_writer H i e (r, s) = (True, r', s')" and "i < length (r_writers r)"
  shows "pw_open (r_writers r' ! i)"
proof -
  obtain r1 w1 where o: "writer_open_segment H e (r, r_writers r ! i, s) = (True, r1, w1, s')"
    and r': "r' = r1\<lparr>r_writers := (r_writers r1)[i := w1]\<rparr>"
    using assms(1) by (auto simp: open_writer_def split: prod.splits)
  have "pw_open w1"
    using o by (auto simp: writer_open_segment_def Let_def start_segment_def elim!: finish_open_ok
        split: prod.splits option.splits bool.splits)
  then show ?thesis using assms(2) writer_open_recorder [OF o] r' by auto
qed

lemma close_writer_length:
  assumes "recorder_close_writer H i c (r, s) = (ok, r', s')"
  shows "length (r_writers r') = length (r_writers r)"
proof -
  obtain b r1 s1 where o: "on_writer i (writer_close_segment H c) (r, s) = (b, r1, s1)" by (metis prod_cases3)
  then have "length (r_writers r1) = length (r_writers r)" by (auto simp: on_writer_def split: prod.splits)
  then show ?thesis
    using assms o by (auto simp: recorder_close_writer_def dest!: retention_enforce_recorder split: bool.splits)
qed

lemma ensure_writerE:
  assumes "recorder_ensure_writer H i e (r, s) = (ok, r', s')"
  obtains (close_failed) c where "recorder_close_writer H i c (r, s) = (False, r', s')" and "\<not> ok"
  | (kept) "rd_reason (writer_should_rotate (h_clock H) r (r_writers r ! i) e) = ROTATE_REASON_NONE"
      and "pw_open (r_writers r ! i)" and "ok" and "r' = r" and "s' = s"
  | (opened) r1 s1 where "(r1, s1) = (r, s) \<or> (\<exists>c. recorder_close_writer H i c (r, s) = (True, r1, s1))"
      and "\<not> pw_open (r_writers r1 ! i)" and "open_writer H i e (r1, s1) = (ok, r', s')"
  | (still_open) r1 s1 c where "recorder_close_writer H i c (r, s) = (True, r1, s1)" and "pw_open (r_writers r1 ! i)"
      and "ok" and "r' = r1" and "s' = s1"
proof -
  define d where "d = rd_reason (writer_should_rotate (h_clock H) r (r_writers r ! i) e)"
  note e = assms [unfolded recorder_ensure_writer_def Let_def fst_conv, folded d_def]
  show thesis
  proof (cases "d = ROTATE_REASON_NONE")
    case True
    show thesis
    proof (cases "pw_open (r_writers r ! i)")
      case op: True
      with e True have "ok" "r' = r" "s' = s" by simp_all
      with True op show thesis unfolding d_def by (intro kept)
    next
      case False
      with e True have "open_writer H i e (r, s) = (ok, r', s')" by simp
      with False show thesis by (intro opened [of r s]) simp_all
    qed
  next
    case rotate: False
    obtain b r1 s1 where c: "recorder_close_writer H i (rotate_reason_code d) (r, s) = (b, r1, s1)" by (metis prod_cases3)
    note e' = e [unfolded if_not_P [OF rotate] c prod.case]
    show thesis
    proof (cases b)
      case False
      with e' have "\<not> ok" "r1 = r'" "s1 = s'" by simp_all
      with False c show thesis by (intro close_failed) simp_all
    next
      case True
      show thesis
      proof (cases "pw_open (r_writers r1 ! i)")
        case op: True
        with e' True have "ok" "r' = r1" "s' = s1" by simp_all
        with c True op show thesis by (intro still_open) simp_all
      next
        case False
        with e' True have "open_writer H i e (r1, s1) = (ok, r', s')" by simp
        with False c True show thesis by (intro opened [of r1 s1]) auto
      qed
    qed
  qed
qed

lemma open_writer_length:
  "open_writer H i e (r, s) = (ok, r', s') \<Longrightarrow> length (r_writers r') = length (r_writers r)"
  by (auto simp: open_writer_def dest!: writer_open_recorder split: prod.splits)

lemma ensure_writer_length:
  assumes e: "recorder_ensure_writer H i e (r, s) = (ok, r', s')"
  shows "length (r_writers r') = length (r_writers r)"
  using e by (cases rule: ensure_writerE) (auto dest!: close_writer_length open_writer_length)

lemma ensure_writer_open:
  assumes e: "recorder_ensure_writer H i e (r, s) = (True, r', s')" and i: "i < length (r_writers r)"
  shows "pw_open (r_writers r' ! i)"
  using e by (cases rule: ensure_writerE) (use i in \<open>auto intro!: open_writer_open dest!: close_writer_length\<close>)

lemma assign_ties_writers [simp]:
  "r_writers (fst (recorder_assign_monotonic_tie_order r e)) = r_writers r"
  "r_config (fst (recorder_assign_monotonic_tie_order r e)) = r_config r"
  by (simp_all add: recorder_assign_monotonic_tie_order_def Let_def)

lemma sample_clock_writers [simp]:
  "r_writers (recorder_sample_clock b1 t b2 r) = r_writers r"
  "r_config (recorder_sample_clock b1 t b2 r) = r_config r"
  by (simp_all add: recorder_sample_clock_def Let_def)

subsection \<open>Invariants of the recorder\<close>

text \<open>
  \<^verbatim>\<open>R\<close> holds of the recorder between operations, \<^verbatim>\<open>full i\<close> right after writer \<^verbatim>\<open>i\<close> took an entry, when its
  chunk may be full. What the writer operations keep, handling an entry and flushing keep.
\<close>

locale recorder_invariant =
  fixes R :: "Recorder \<Rightarrow> bool"
    and full :: "nat \<Rightarrow> Recorder \<Rightarrow> bool"
  assumes boots: "R r \<Longrightarrow> R (r\<lparr>r_boots := b\<rparr>)"
    and ties: "R r \<Longrightarrow> R (fst (recorder_assign_monotonic_tie_order r e))"
    and opened: "R r \<Longrightarrow> \<not> pw_open (r_writers r ! i) \<Longrightarrow> open_writer H i e (r, s) = (ok, r', s') \<Longrightarrow> R r'"
    and closed: "R r \<Longrightarrow> on_writer i (writer_close_segment H c) (r, s) = (ok, r', s') \<Longrightarrow> R r'"
    and accepted: "R r \<Longrightarrow> i < length (r_writers r) \<Longrightarrow> pw_open (r_writers r ! i) \<Longrightarrow>
      full i (r\<lparr>r_writers := (r_writers r)[i := accept_entry e (r_writers r ! i)]\<rparr>)"
    and weaken: "R r \<Longrightarrow> full i r"
    and not_full: "full i r \<Longrightarrow> i < length (r_writers r) \<Longrightarrow> length (pw_entries (r_writers r ! i)) \<noteq> CHUNK_SIZE \<Longrightarrow> R r"
    and flushed: "full i r \<Longrightarrow> on_writer i (writer_flush_chunk H) (r, s) = (ok, r', s') \<Longrightarrow> R r'"
    and synced: "R r \<Longrightarrow> on_writer i (writer_sync_if_due H) (r, s) = (ok, r', s') \<Longrightarrow> R r'"
begin

lemma close_writer_keeps:
  assumes c: "recorder_close_writer H i c (r, s) = (ok, r', s')" and I: "R r"
  shows "R r'"
proof -
  obtain b r1 s1 where o: "on_writer i (writer_close_segment H c) (r, s) = (b, r1, s1)" by (metis prod_cases3)
  from closed [OF I o] boots show ?thesis
    using c o by (auto simp: recorder_close_writer_def dest!: retention_enforce_recorder split: bool.splits)
qed

lemma ensure_writer_keeps:
  assumes e: "recorder_ensure_writer H i e (r, s) = (ok, r', s')" and I: "R r"
  shows "R r'"
  using e by (cases rule: ensure_writerE) (use I in \<open>auto intro: opened close_writer_keeps\<close>)

lemma submit_to_writer_keeps:
  assumes e: "submit_to_writer H i e (r, s) = (ok, r', s')" and I: "R r"
  shows "R r'"
proof -
  obtain b r1 s1 where en: "recorder_ensure_writer H i e (r, s) = (b, r1, s1)" by (metis prod_cases3)
  note I1 = ensure_writer_keeps [OF en I]
  let ?r2 = "r1\<lparr>r_writers := (r_writers r1)[i := accept_entry e (r_writers r1 ! i)]\<rparr>"
  obtain b3 r3 s3 where fl: "(if length (pw_entries (r_writers ?r2 ! i)) = CHUNK_SIZE
      then on_writer i (writer_flush_chunk H) (?r2, s1) else (True, ?r2, s1)) = (b3, r3, s3)" by (metis prod_cases3)
  have r3: "R r3" if b
  proof (cases "i < length (r_writers r1)")
    case True
    then have "full i ?r2" using accepted I1 ensure_writer_open ensure_writer_length [OF en] en that by simp
    then show ?thesis using fl flushed [of i ?r2 H s1 b3 r3 s3] not_full [of i ?r2] True by (auto split: if_splits)
  next
    case False
    then have "(r_writers r1)[i := accept_entry e (r_writers r1 ! i)] = r_writers r1" by (simp add: list_update_beyond)
    then have "?r2 = r1" by simp
    then show ?thesis using fl flushed [OF weaken [OF I1], of i H s1 b3 r3 s3] I1 by (auto split: if_splits)
  qed
  show ?thesis
    using e I1 r3 close_writer_keeps [of H i 6 r3 s3] unfolding submit_to_writer_def en prod.case Let_def fl
    by (auto split: bool.splits if_splits)
qed

lemma submit_entry_keeps:
  "recorder_submit_entry H e (r, s) = (res, r', s') \<Longrightarrow> R r \<Longrightarrow> R r'"
  by (auto simp: recorder_submit_entry_def dest: submit_to_writer_keeps split: group_lookup.splits prod.splits)

lemma reclaim_keeps:
  "retention_reclaim_lower_priority L J av p n (r, s) = (c, r', s') \<Longrightarrow> R r \<Longrightarrow> R r'"
  by (auto dest!: reclaim_recorder intro: boots)

lemma submit_with_recovery_keeps:
  assumes e: "recorder_submit_entry_with_recovery H e (r, s) = (res, r', s')" and I: "R r"
  shows "R r'"
proof -
  define n where "n = (if rc_min_free_bytes (r_config r) > recorder_segment_limit r
    then rc_min_free_bytes (r_config r) else recorder_segment_limit r)"
  let ?reclaim = "retention_reclaim_lower_priority (h_lib H) (h_jansson H) (h_avail H) (le_priority e) n"
  obtain r0 s0 where st0: "(if rc_min_free_bytes (r_config r) \<noteq> 0 then snd (?reclaim (r, s)) else (r, s)) = (r0, s0)"
    by fastforce
  have I0: "R r0"
    using st0 I reclaim_keeps [of "h_lib H" "h_jansson H" "h_avail H" "le_priority e" n r s]
    by (cases "?reclaim (r, s)") (auto split: if_splits)
  obtain res1 r1 s1 where s1: "recorder_submit_entry H e (r0, s0) = (res1, r1, s1)" by (metis prod_cases3)
  note I1 = submit_entry_keeps [OF s1 I0]
  obtain c r2 s2 where rc: "?reclaim (r1, s1) = (c, r2, s2)" by (metis prod_cases3)
  note I2 = reclaim_keeps [OF rc I1]
  show ?thesis
    using e I1 I2 submit_entry_keeps [OF _ I2]
    unfolding recorder_submit_entry_with_recovery_def Let_def fst_conv n_def [symmetric] st0 s1 prod.case rc
    by (auto simp: rc split: submit_result.splits if_splits bool.splits)
qed

lemma flush_writer_keeps:
  assumes e: "flush_writer H i (r, s) = (ok, r', s')" and I: "R r"
  shows "R r'"
proof -
  obtain b r1 s1 where f: "on_writer i (writer_flush_chunk H) (r, s) = (b, r1, s1)" by (metis prod_cases3)
  from e f flushed [OF weaken [OF I] f] synced [of r1 i H s1 ok r' s'] show ?thesis
    by (auto simp: flush_writer_def split: bool.splits)
qed

lemma flush_writers_keeps:
  "flush_writers H is (r, s) = (ok, r', s') \<Longrightarrow> R r \<Longrightarrow> R r'"
  by (induction "is" arbitrary: r s) (auto split: prod.splits bool.splits dest: flush_writer_keeps)

lemma handle_entry_keeps:
  assumes h: "handle_entry H j e boots p = (res, p')" and I: "R (p_recorder p)"
  shows "R (p_recorder p')"
proof -
  let ?r = "(p_recorder p)\<lparr>r_boots := boots\<rparr>"
  obtain r1 e1 where t: "recorder_assign_monotonic_tie_order ?r e = (r1, e1)" by fastforce
  have I1: "R r1" using ties [OF boots [OF I], of boots e] t by simp
  let ?s1 = "persist_new_boots H (r_boots (p_recorder p)) boots (p_world p)"
  obtain m e2 jobs where a: "apply_entry_modifiers (h_pcre2 H) (h_jansson H) (r_config r1) j (r_startup_catchup r1) e1 = (m, e2, jobs)"
    by (metis prod_cases3)
  obtain sr r2 s2 where sb: "recorder_submit_entry_with_recovery H e2 (r1, ?s1) = (sr, r2, s2)" by (metis prod_cases3)
  note I2 = submit_with_recovery_keeps [OF sb I1]
  show ?thesis
    using h I1 I2 by (auto simp: handle_entry_def t a sb Let_def split: modifier_result.splits submit_result.splits)
qed

end

text \<open>An invariant that the fields a round changes beside the writers do not touch is kept by the round.\<close>

locale process_invariant = recorder_invariant +
  assumes fields: "R r \<Longrightarrow> R (r\<lparr>r_current_entry_pending := x\<rparr>)" "R r \<Longrightarrow> R (r\<lparr>r_pending_cursor := c\<rparr>)"
      "R r \<Longrightarrow> R (r\<lparr>r_cursor_enabled := x\<rparr>)" "R r \<Longrightarrow> R (r\<lparr>r_startup_catchup := x\<rparr>)"
    and sampled: "R r \<Longrightarrow> R (recorder_sample_clock b1 t b2 r)"
begin

lemma flush_all_keeps:
  assumes f: "recorder_flush_all H c (r, s) = (ok, r', s')" and I: "R r"
  shows "R r'"
proof -
  obtain b r1 s1 where w: "flush_writers H [0..<length (rc_groups (r_config r))] (r, s) = (b, r1, s1)" by (metis prod_cases3)
  from flush_writers_keeps [OF w I] fields show ?thesis
    using f w by (auto simp: recorder_flush_all_def split: prod.splits bool.splits if_splits)
qed

lemma advance_keeps: "advance p = Some p' \<Longrightarrow> R (p_recorder p) \<Longrightarrow> R (p_recorder p')"
  by (auto simp: advance_def intro: fields split: if_splits option.splits)

lemma note_cursor_keeps: "note_cursor e p = Some p' \<Longrightarrow> R (p_recorder p) \<Longrightarrow> R (p_recorder p')"
  by (auto simp: note_cursor_def Let_def intro: fields split: if_splits option.splits)

lemma step_loop_keeps:
  "step_loop H left n p = (n', p') \<Longrightarrow> R (p_recorder p) \<Longrightarrow> R (p_recorder p')"
proof (induction left arbitrary: n p)
  case (Suc left)
  show ?case
  proof (cases "advance p")
    case (Some p1)
    note I1 = advance_keeps [OF Some Suc.prems(2)]
    show ?thesis
    proof (cases "jn_current (p_journal p1)")
      case None
      then show ?thesis using Suc.prems Some I1 by simp
    next
      case cur: (Some e)
      obtain entry boots where x: "extract_entry (r_config (p_recorder p1)) e (r_boots (p_recorder p1)) = (entry, boots)"
        by fastforce
      obtain res p2 where h: "handle_entry H (Some e) entry boots p1 = (res, p2)" by fastforce
      note I2 = handle_entry_keeps [OF h I1]
      show ?thesis
        using Suc.prems(1) Some cur x h I2 Suc.IH note_cursor_keeps [OF _ I2]
        by (auto intro: fields split: handled.splits option.splits)
    qed
  qed (use Suc.prems in simp)
qed simp

lemma step_fallback_keeps:
  "recorder_step_fallback H nx p = (n', p') \<Longrightarrow> R (p_recorder p) \<Longrightarrow> R (p_recorder p')"
  by (auto simp: recorder_step_fallback_def dest: handle_entry_keeps
      split: next_result.splits option.splits prod.splits handled.splits)

lemma main_round_keeps:
  assumes m: "main_round H t p = (c, p')" and I: "R (p_recorder p)"
  shows "R (p_recorder p')"
proof -
  define p1 where "p1 = p\<lparr>p_recorder := recorder_sample_clock (tk_boot1 t) (tk_realtime t) (tk_boot2 t) (p_recorder p)\<rparr>"
  have I1: "R (p_recorder p1)" using sampled [OF I] by (simp add: p1_def)
  obtain n p2 where st: "(case tk_source t of JournalStep \<Rightarrow> recorder_step H p1
      | FallbackStep next \<Rightarrow> recorder_step_fallback H next p1) = (n, p2)" by fastforce
  have I2: "R (p_recorder p2)"
    using st I1 step_loop_keeps step_fallback_keeps
    by (auto simp: recorder_step_def split: source_event.splits)
  obtain ok r3 s3 where f: "recorder_flush_all H True (p_recorder p2, p_world p2) = (ok, r3, s3)" by (metis prod_cases3)
  note I3 = flush_all_keeps [OF f I2]
  have "R (r3\<lparr>r_startup_catchup := False\<rparr>)" by (rule fields(4) [OF I3])
  with I3 show ?thesis
    using m unfolding main_round_def Let_def p1_def [symmetric] st prod.case f
    by (auto split: bool.splits if_splits)
qed

end

subsection \<open>Invariants of single writers\<close>

locale writer_invariant =
  fixes cfg :: RecorderConfig
    and I full :: "nat \<Rightarrow> PriorityWriter \<Rightarrow> bool"
  assumes opened: "I i w \<Longrightarrow> \<not> pw_open w \<Longrightarrow> writer_open_segment H e (r, w, s) = (ok, r', w', s') \<Longrightarrow> I i w'"
    and accepted: "I i w \<Longrightarrow> pw_open w \<Longrightarrow> full i (accept_entry e w)"
    and not_full: "full i w \<Longrightarrow> length (pw_entries w) \<noteq> CHUNK_SIZE \<Longrightarrow> I i w"
    and weaken: "I i w \<Longrightarrow> full i w"
    and flushed: "full i w \<Longrightarrow> writer_flush_chunk H (w, s) = (ok, w', s') \<Longrightarrow> I i w'"
    and closed: "I i w \<Longrightarrow> writer_close_segment H c (w, s) = (ok, w', s') \<Longrightarrow> I i w'"
    and synced: "I i w \<Longrightarrow> writer_sync_if_due H (w, s) = (ok, w', s') \<Longrightarrow> I i w'"

definition writers_all_but :: "RecorderConfig \<Rightarrow> (nat \<Rightarrow> PriorityWriter \<Rightarrow> bool) \<Rightarrow> (nat \<Rightarrow> PriorityWriter \<Rightarrow> bool) \<Rightarrow> nat \<Rightarrow> Recorder \<Rightarrow> bool" where
  "writers_all_but cfg P Q i r \<longleftrightarrow> r_config r = cfg \<and> length (r_writers r) = length (rc_groups cfg) \<and>
     (\<forall>j < length (r_writers r). if j = i then Q j (r_writers r ! j) else P j (r_writers r ! j))"

sublocale writer_invariant \<subseteq> whole: process_invariant "writers_all cfg I" "writers_all_but cfg I full"
proof (unfold_locales, goal_cases)
  case (3 r i H e s ok r' s')
  then obtain r1 w1 where o: "writer_open_segment H e (r, r_writers r ! i, s) = (ok, r1, w1, s')"
    and r': "r' = r1\<lparr>r_writers := (r_writers r1)[i := w1]\<rparr>"
    by (auto simp: open_writer_def split: prod.splits)
  from writer_open_recorder [OF o] have r1: "r_config r1 = r_config r" "r_writers r1 = r_writers r" by auto
  then have "writers_all cfg I r1" using 3(1) writers_all_same by blast
  then show ?case
    unfolding r' using opened [OF _ 3(2) o] writers_allD [OF 3(1)] r1 by (intro writers_all_update) simp_all
next
  case (4 r i H c s ok r' s')
  then show ?case using closed by (auto intro: on_writer_keeps)
next
  case (5 r i e)
  then show ?case using accepted by (auto simp: writers_all_def writers_all_but_def)
next
  case (6 r i)
  then show ?case using weaken by (auto simp: writers_all_def writers_all_but_def)
next
  case (7 i r)
  then show ?case using not_full by (auto simp: writers_all_def writers_all_but_def split: if_splits)
next
  case (8 i r H s ok r' s')
  obtain w' where w': "writer_flush_chunk H (r_writers r ! i, s) = (ok, w', s')" "r' = r\<lparr>r_writers := (r_writers r)[i := w']\<rparr>"
    using 8(2) by (auto simp: on_writer_def split: prod.splits)
  have "I j ((r_writers r)[i := w'] ! j)" if "j < length (r_writers r)" for j
    using 8(1) that flushed [OF _ w'(1), of i] by (cases "j = i") (auto simp: writers_all_but_def)
  then show ?case using 8(1) w'(2) by (simp add: writers_all_def writers_all_but_def)
next
  case (9 r i H s ok r' s')
  then show ?case using synced by (auto intro: on_writer_keeps)
qed (simp_all add: writers_all_def)

subsection \<open>Reachable states\<close>

text \<open>
  The recorder starts, goes through rounds of its main loop, each with its own clock and host, and
  between rounds the journal grows and other processes change the file system.
\<close>

inductive reachable :: "RecorderConfig \<Rightarrow> process \<Rightarrow> bool" for cfg where
  started: "recorder_init H cfg D rnd cp ns jm s = Some (r, s') \<Longrightarrow>
    reachable cfg \<lparr>p_recorder = r, p_world = s', p_journal = j, p_jobs = [], p_shutdown = False, p_wild = False\<rparr>"
| round: "reachable cfg p \<Longrightarrow> main_round H t p = (c, p') \<Longrightarrow> reachable cfg p'"
| outside: "reachable cfg p \<Longrightarrow>
    reachable cfg (p\<lparr>p_world := s, p_journal := (p_journal p)\<lparr>jn_rest := jn_rest (p_journal p) @ es\<rparr>\<rparr>)"

lemma init_writers:
  assumes "recorder_init H cfg D rnd cp ns jm s = Some (r, s')" and "\<And>i. i < length (rc_groups cfg) \<Longrightarrow> P i (writer_init (rc_groups cfg ! i) i)"
  shows "writers_all cfg P r"
proof -
  from assms(1) obtain r0 s0 where e: "retention_enforce (h_lib H) (h_jansson H) (r0, s0) = (r, s')"
    and r0: "r_config r0 = cfg" "r_writers r0 = map (\<lambda>i. writer_init (rc_groups cfg ! i) i) [0..<length (rc_groups cfg)]"
    by (auto simp: recorder_init_def Let_def split: option.splits prod.splits bool.splits)
  from retention_enforce_recorder [OF e] r0 assms(2) show ?thesis by (auto simp: writers_all_def)
qed

context writer_invariant
begin

lemma reachable_keeps:
  assumes "reachable cfg p" and "\<And>i. i < length (rc_groups cfg) \<Longrightarrow> I i (writer_init (rc_groups cfg ! i) i)"
  shows "writers_all cfg I (p_recorder p)"
  using assms(1)
proof induction
  case (started H D rnd cp ns jm s r s' j)
  then show ?case using init_writers assms(2) by simp
qed (auto dest: whole.main_round_keeps)

end

subsection \<open>Streams, chunks and groups\<close>

text \<open>
  A writer is sound when it has a stream and an index exactly while it is open, holds fewer entries
  than its chunk array has room for and none when closed, and its latest time is not before its
  first.
\<close>

definition writer_sound :: "PriorityWriter \<Rightarrow> bool" where
  "writer_sound w \<longleftrightarrow>
     (if pw_open w
      then pw_fp w \<noteq> None \<and> pw_index_writer w \<noteq> None \<and> pw_first_realtime_ts w \<le> pw_max_realtime_ts w \<and>
        pw_previous_realtime_ts w \<le> pw_max_realtime_ts w
      else pw_fp w = None \<and> pw_encryptor w = None \<and> pw_entries w = []) \<and>
     length (pw_entries w) \<le> CHUNK_SIZE"

abbreviation (input) has_room :: "PriorityWriter \<Rightarrow> bool" where
  "has_room w \<equiv> writer_sound w \<and> length (pw_entries w) < CHUNK_SIZE"

definition writer_identity :: "PriorityWriter \<Rightarrow> nat \<times> string" where
  "writer_identity w = (pw_group_index w, pw_group_name w)"

lemmas writer_ops_split = prod.splits sum.splits option.splits bool.splits if_splits

lemma flush_body_sound:
  "flush_body H raw fp iw (w, s) = (ok, w', s') \<Longrightarrow> pw_open w \<Longrightarrow> writer_sound w \<Longrightarrow>
   writer_sound w' \<and> writer_identity w' = writer_identity w \<and> pw_entries w' = pw_entries w \<and> pw_open w'"
  by (auto simp: flush_body_def writer_sound_def writer_identity_def synced_def Let_def split: writer_ops_split)

lemma flush_sound:
  assumes f: "writer_flush_chunk H (w, s) = (ok, w', s')" and w: "writer_sound w"
  shows "writer_sound w' \<and> pw_entries w' = [] \<and> pw_open w' = pw_open w \<and> writer_identity w' = writer_identity w"
proof (cases "pw_entries w = []")
  case True
  then show ?thesis using f w by (simp add: writer_flush_chunk_def)
next
  case False
  then have op: "pw_open w" using w by (auto simp: writer_sound_def split: if_splits)
  have dp: "writer_sound (drop_pending ck v)" "pw_entries (drop_pending ck v) = []" "pw_open (drop_pending ck v) = pw_open v"
    "writer_identity (drop_pending ck v) = writer_identity v" if "writer_sound v" for v ck
    using that by (auto simp: writer_sound_def drop_pending_def writer_identity_def split: if_splits)
  show ?thesis
    using f False op w dp flush_body_sound [OF _ op w]
    by (auto simp: writer_flush_chunk_def split: prod.splits option.splits if_splits)
qed

lemma close_sound:
  assumes c: "writer_close_segment H x (w, s) = (ok, w', s')" and w: "writer_sound w"
  shows "writer_sound w' \<and> pw_entries w' = [] \<and> writer_identity w' = writer_identity w"
proof (cases "pw_open w")
  case False
  then show ?thesis using c w by (auto simp: writer_close_segment_def writer_sound_def)
next
  case True
  obtain b w1 s1 where f: "writer_flush_chunk H (w, s) = (b, w1, s1)" by (metis prod_cases3)
  note w1 = flush_sound [OF f w]
  show ?thesis
    using c f True w1
    by (auto simp: writer_close_segment_def writer_sound_def closed_writer_def writer_identity_def Let_def split: writer_ops_split)
qed

lemma sync_sound:
  "writer_sync_if_due H (w, s) = (ok, w', s') \<Longrightarrow> writer_sound w \<Longrightarrow>
   writer_sound w' \<and> pw_entries w' = pw_entries w \<and> writer_identity w' = writer_identity w"
  by (auto simp: writer_sync_if_due_def writer_sound_def writer_identity_def synced_def split: writer_ops_split)

lemma accept_sound:
  "has_room w \<Longrightarrow> pw_open w \<Longrightarrow> writer_sound (accept_entry e w) \<and> writer_identity (accept_entry e w) = writer_identity w"
  by (auto simp: writer_sound_def accept_entry_def writer_identity_def)

definition opened_from :: "PriorityWriter \<Rightarrow> PriorityWriter \<Rightarrow> bool" where
  "opened_from w w' \<longleftrightarrow> writer_sound w' \<and> pw_entries w' = [] \<and> writer_identity w' = writer_identity w"

lemma finish_open_sound:
  assumes f: "finish_open H r e dir dict has (w, s) = (ok, w', s')"
    and w: "\<not> pw_open w" "pw_entries w = []"
  shows "opened_from w w'"
proof -
  have ns: "opened_from w (no_stream w)" "opened_from w ((no_stream w)\<lparr>pw_index_header := h\<rparr>)"
    "opened_from w (start_segment H r e h dict fp enc iw w)" for h fp enc iw
    using w by (simp_all add: opened_from_def writer_sound_def no_stream_def start_segment_def writer_identity_def Let_def)
  show ?thesis
    using f ns unfolding finish_open_def Let_def by (auto split: writer_ops_split)
qed

lemma open_sound:
  assumes o: "writer_open_segment H e (r, w, s) = (ok, r', w', s')" and w: "writer_sound w" "\<not> pw_open w"
  shows "opened_from w w'"
proof -
  have w0: "pw_entries w = []" "pw_fp w = None" "pw_encryptor w = None" using w by (auto simp: writer_sound_def)
  have enc: "opened_from w (no_stream w3) \<and> (finish_open H r1 e dir dict has (w3, s3) = (ok, w4, s4) \<longrightarrow> opened_from w w4)"
    if "open_encryptor H (r_config r) (w\<lparr>pw_segment_seq := q, pw_path := p, pw_tmp_path := t\<rparr>) = Some w3"
    for q p t w3 r1 dir dict has s3 ok w4 s4
  proof -
    have "\<not> pw_open w3" "pw_entries w3 = []" "writer_identity w3 = writer_identity w"
      using that w w0 by (auto simp: open_encryptor_def writer_identity_def split: option.splits sum.splits)
    then show ?thesis
      using finish_open_sound [of H r1 e dir dict has w3 s3 ok w4 s4]
      by (auto simp: opened_from_def writer_sound_def no_stream_def writer_identity_def)
  qed
  have upd: "opened_from w w" "opened_from w (w\<lparr>pw_segment_seq := q\<rparr>)"
    "opened_from w (w\<lparr>pw_segment_seq := q, pw_path := p, pw_tmp_path := t, pw_fp := None\<rparr>)" for q p t
    using w w0 by (simp_all add: opened_from_def writer_sound_def writer_identity_def)
  show ?thesis
    using o upd unfolding writer_open_segment_def Let_def
    by (auto split: writer_ops_split dest: enc)
qed

text \<open>Every writer of a reachable process is sound, has room and belongs to its group.\<close>

definition writer_in_place :: "RecorderConfig \<Rightarrow> nat \<Rightarrow> PriorityWriter \<Rightarrow> bool" where
  "writer_in_place cfg i w \<longleftrightarrow> writer_sound w \<and> writer_identity w = (i, pg_name (rc_groups cfg ! i))"

interpretation in_place: writer_invariant cfg "\<lambda>i w. writer_in_place cfg i w \<and> length (pw_entries w) < CHUNK_SIZE"
    "writer_in_place cfg" for cfg
proof (unfold_locales, goal_cases)
  case (1 i w H e r s ok r' w' s')
  from open_sound [OF 1(3)] 1(1,2) show ?case by (simp add: writer_in_place_def opened_from_def)
next
  case (2 i w e)
  then show ?case using accept_sound [of w e] by (simp add: writer_in_place_def)
next
  case (3 i w)
  then show ?case by (auto simp: writer_in_place_def writer_sound_def)
next
  case (5 i w H s ok w' s')
  from flush_sound [OF 5(2)] 5(1) show ?case by (simp add: writer_in_place_def)
next
  case (6 i w H c s ok w' s')
  from close_sound [OF 6(2)] 6(1) show ?case by (auto simp: writer_in_place_def)
next
  case (7 i w H s ok w' s')
  from sync_sound [OF 7(2)] 7(1) show ?case by (simp add: writer_in_place_def)
qed simp

lemma writer_init_in_place: "writer_in_place cfg i (writer_init (rc_groups cfg ! i) i) \<and> pw_entries (writer_init (rc_groups cfg ! i) i) = []"
  by (simp add: writer_in_place_def writer_sound_def writer_identity_def writer_init_def)

lemma reachable_writer:
  assumes "reachable cfg p" and "i < length (rc_groups cfg)" and "w = r_writers (p_recorder p) ! i"
  shows "writer_in_place cfg i w \<and> length (pw_entries w) < CHUNK_SIZE"
  using in_place.reachable_keeps [OF assms(1)] assms(2,3) writer_init_in_place by (simp add: writers_all_def)

text \<open>
  C34. In every state the process can reach, through any number of rounds of the main loop with any
  clock, any input and any failures of the file system, there is one writer for each priority
  group, and it has kept the number and name of its group. A writer has a stream exactly while it
  is open, and then it has an index as well; a closed writer holds no entries. It holds fewer than
  512 entries, so the next one fits its array. The latest time it recorded is not before the first.
\<close>

theorem writers_stay_sound:
  assumes "reachable cfg p"
  shows "r_config (p_recorder p) = cfg \<and> length (r_writers (p_recorder p)) = length (rc_groups cfg) \<and>
    (\<forall>i < length (rc_groups cfg). let w = r_writers (p_recorder p) ! i in
       pw_group_index w = i \<and> pw_group_name w = pg_name (rc_groups cfg ! i) \<and>
       (pw_open w \<longleftrightarrow> pw_fp w \<noteq> None) \<and> (pw_open w \<longrightarrow> pw_index_writer w \<noteq> None) \<and>
       (\<not> pw_open w \<longrightarrow> pw_entries w = []) \<and> length (pw_entries w) < CHUNK_SIZE \<and>
       (pw_open w \<longrightarrow> pw_first_realtime_ts w \<le> pw_max_realtime_ts w))"
proof -
  have "writers_all cfg (\<lambda>i w. writer_in_place cfg i w \<and> length (pw_entries w) < CHUNK_SIZE) (p_recorder p)"
    using in_place.reachable_keeps [OF assms] writer_init_in_place by simp
  then show ?thesis
    by (auto simp: writers_all_def writer_in_place_def writer_sound_def writer_identity_def Let_def split: if_splits)
qed

lemma demo_start:
  obtains r s where "recorder_init demo_host recorder_config_init
    \<lparr>rd_is_tmpfs = (\<lambda>_. False), rd_writable = (\<lambda>_. False), rd_xdg_runtime_dir = None\<rparr> (Some 7) None None True (demo_world []) = Some (r, s)"
proof -
  let ?w = "demo_world []"
  have w: "w_faults ?w = []" "w_log_dir ?w = ''/l''" by (simp_all add: demo_world_def)
  obtain s1 where m: "mkdir_p ''/l'' ?w = (True, s1)" "w_faults s1 = []" "same_files ?w s1"
    by (rule mkdir_p_healthy [OF w(1), of "''/l''"]) simp_all
  have ld: "w_log_dir s1 = ''/l''" using log_dir_same [OF m(3)] w by simp
  have p: "build_state_store_id_path s1 PATH_MAX = Some (''/l/state'' @ ''/'' @ ''store-id'')"
    using ld by (simp add: build_state_store_id_path_def build_log_path_def join_path_suffix_def)
  have d: "dir_of_path (''/l/state'' @ ''/'' @ ''store-id'') = Some ''/l/state''" by (rule dir_of_path_join) simp
  obtain s2 where a: "atomic_write_text_file (''/l/state'' @ ''/'' @ ''store-id'') (hex_digits 16 (unat (7 :: u64)) @ [CHR 0x0A]) s1 = (True, s2)"
    by (rule atomic_write_healthy [OF m(2) d]) simp_all
  have "read_file (''/l/state'' @ ''/'' @ ''store-id'') s1 = None"
    using same_files_read [OF m(3), of "''/l/state'' @ ''/'' @ ''store-id''"] by (simp add: demo_world_def read_file_def stat_def)
  then have i: "ensure_store_id (Some 7) s1 = (True, s2)" using p a by (simp add: ensure_store_id_def)
  have "recorder_paths ?w \<lparr>rd_is_tmpfs = (\<lambda>_. False), rd_writable = (\<lambda>_. False), rd_xdg_runtime_dir = None\<rparr> None None True =
      Some (''/l/state/journal.cursor'', [], False, False)"
    by (simp add: recorder_paths_def w build_log_path_def join_path_suffix_def select_runtime_cursor_path_def)
  then have "\<exists>x. recorder_init demo_host recorder_config_init
      \<lparr>rd_is_tmpfs = (\<lambda>_. False), rd_writable = (\<lambda>_. False), rd_xdg_runtime_dir = None\<rparr> (Some 7) None None True ?w = Some x"
    unfolding recorder_init_def Let_def w(2) by (simp only: option.case prod.case bool.case m i) blast
  then show thesis using that by force
qed

lemma demo_groups: "length (rc_groups recorder_config_init) = 8" "pg_name (rc_groups recorder_config_init ! 3) = ''p3''"
  by (simp_all add: recorder_config_init_def decimal.simps digit_chars digit_chars_more)

theorem writers_stay_sound_witness:
  "\<exists>p. reachable recorder_config_init p \<and> length (r_writers (p_recorder p)) = 8 \<and>
     pw_group_name (r_writers (p_recorder p) ! 3) = ''p3'' \<and> length (pw_entries (r_writers (p_recorder p) ! 3)) < 512"
proof -
  obtain r s where i: "recorder_init demo_host recorder_config_init
    \<lparr>rd_is_tmpfs = (\<lambda>_. False), rd_writable = (\<lambda>_. False), rd_xdg_runtime_dir = None\<rparr> (Some 7) None None True (demo_world []) = Some (r, s)"
    by (rule demo_start)
  let ?p = "\<lparr>p_recorder = r, p_world = s, p_journal = \<lparr>jn_current = None, jn_rest = []\<rparr>, p_jobs = [],
    p_shutdown = False, p_wild = False\<rparr>"
  obtain c p where m: "main_round demo_host \<lparr>tk_boot1 = 1, tk_realtime = 9, tk_boot2 = 1, tk_source = JournalStep, tk_wait_ok = True\<rparr> ?p = (c, p)"
    by fastforce
  have "reachable recorder_config_init p" by (rule reachable.round [OF reachable.started [OF i] m])
  from writers_stay_sound [OF this] this show ?thesis
    by (intro exI [of _ p] conjI) (simp_all add: Let_def demo_groups)
qed

subsection \<open>Checkpoints\<close>

definition writer_files :: "PriorityWriter \<Rightarrow> string set" where
  "writer_files w = insert (pw_path w) (set_option (map_option iw_path (pw_index_writer w)))"

lemma index_append_path: "index_writer_append F h fr raw iw = (ok, iw') \<Longrightarrow> iw_path iw' = iw_path iw"
  by (auto simp: index_writer_append_def write_index_frame_def split: prod.splits if_splits)

lemma fault_read: "fault s = (b, s') \<Longrightarrow> read_file q s' = read_file q s"
  using same_files_read [OF conjunct1 [OF fault_same], of s b s' q] by simp

lemma flush_body_files:
  assumes "flush_body H raw fp iw (w, s) = (ok, w', s')" and "q \<noteq> pw_path w" and "q \<noteq> iw_path iw"
  shows "read_file q s' = read_file q s \<and> pw_path w' = pw_path w \<and>
    (pw_index_writer w' = pw_index_writer w \<or> (\<exists>iw'. pw_index_writer w' = Some iw' \<and> iw_path iw' = iw_path iw))"
  using assms unfolding flush_body_def Let_def
  by (auto simp: synced_def dest!: index_append_path fault_read [where q = q] split: writer_ops_split)

lemma flush_files:
  assumes f: "writer_flush_chunk H (w, s) = (ok, w', s')" and q: "q \<notin> writer_files w"
  shows "read_file q s' = read_file q s \<and> q \<notin> writer_files w'"
proof -
  have "read_file q s' = read_file q s \<and> pw_path w' = pw_path w \<and>
      (pw_index_writer w' = pw_index_writer w \<or>
       (\<exists>iw iw'. pw_index_writer w = Some iw \<and> pw_index_writer w' = Some iw' \<and> iw_path iw' = iw_path iw))"
    using f q unfolding writer_flush_chunk_def
    by (auto simp: drop_pending_def writer_files_def dest!: flush_body_files [where q = q] split: prod.splits option.splits if_splits)
  then show ?thesis using q by (auto simp: writer_files_def)
qed

lemma sync_files:
  "writer_sync_if_due H (w, s) = (ok, w', s') \<Longrightarrow> read_file q s' = read_file q s \<and> writer_files w' = writer_files w"
  by (auto simp: writer_sync_if_due_def synced_def writer_files_def dest: fault_read split: writer_ops_split)

lemma flush_empties: "writer_flush_chunk H (w, s) = (ok, w', s') \<Longrightarrow> pw_entries w' = []"
  by (auto simp: writer_flush_chunk_def drop_pending_def split: prod.splits option.splits if_splits)

lemma flush_writer_effect:
  assumes f: "flush_writer H i (r, s) = (ok, r', s')" and i: "i < length (r_writers r)"
  obtains w where "r' = r\<lparr>r_writers := (r_writers r)[i := w]\<rparr>" and "pw_entries w = []"
    and "\<And>q. q \<notin> writer_files (r_writers r ! i) \<Longrightarrow> q \<notin> writer_files w \<and> read_file q s' = read_file q s"
proof -
  obtain b w1 s1 where f1: "writer_flush_chunk H (r_writers r ! i, s) = (b, w1, s1)" by (metis prod_cases3)
  obtain b2 w2 s2 where f2: "writer_sync_if_due H (w1, s1) = (b2, w2, s2)" by (metis prod_cases3)
  have e: "pw_entries w1 = []" "pw_entries w2 = []"
    using flush_empties [OF f1] f2 by (auto simp: writer_sync_if_due_def synced_def split: writer_ops_split)
  let ?w = "if b then w2 else w1"
  have "r' = r\<lparr>r_writers := (r_writers r)[i := ?w]\<rparr>" "s' = (if b then s2 else s1)"
    using f f1 f2 i by (auto simp: flush_writer_def on_writer_def split: bool.splits)
  then show thesis
    using e flush_files [OF f1] sync_files [OF f2] by (intro that [of ?w]) auto
qed

lemma flush_writers_effect:
  assumes "flush_writers H is (r, s) = (ok, r', s')" and "set is \<subseteq> {..<length (r_writers r)}"
  shows "(\<exists>ws. r' = r\<lparr>r_writers := ws\<rparr> \<and> length ws = length (r_writers r)) \<and>
    (\<forall>j < length (r_writers r). pw_entries (r_writers r ! j) = [] \<or> ok \<and> j \<in> set is \<longrightarrow> pw_entries (r_writers r' ! j) = []) \<and>
    (\<forall>q. (\<forall>w \<in> set (r_writers r). q \<notin> writer_files w) \<longrightarrow> read_file q s' = read_file q s)"
  using assms
proof (induction "is" arbitrary: r s)
  case Nil
  then show ?case by (intro conjI exI [of _ "r_writers r"]) simp_all
next
  case (Cons i "is")
  obtain b r1 s1 where f: "flush_writer H i (r, s) = (b, r1, s1)" by (metis prod_cases3)
  have i: "i < length (r_writers r)" using Cons.prems(2) by simp
  obtain w where r1: "r1 = r\<lparr>r_writers := (r_writers r)[i := w]\<rparr>" and e: "pw_entries w = []"
    and q: "\<And>q. q \<notin> writer_files (r_writers r ! i) \<Longrightarrow> q \<notin> writer_files w \<and> read_file q s1 = read_file q s"
    by (rule flush_writer_effect [OF f i]) (rule that)
  show ?case
  proof (cases b)
    case False
    then have o: "\<not> ok" "r' = r1" "s' = s1" using Cons.prems f by auto
    have "pw_entries (r_writers r' ! j) = []" if "j < length (r_writers r)" "pw_entries (r_writers r ! j) = []" for j
      using that o r1 e i by (cases "j = i") simp_all
    moreover have "read_file p s' = read_file p s" if "\<forall>w \<in> set (r_writers r). p \<notin> writer_files w" for p
      using that o q [of p] i by simp
    ultimately show ?thesis using o r1 by (intro conjI exI [of _ "(r_writers r)[i := w]"]) simp_all
  next
    case True
    then have rest: "flush_writers H is (r1, s1) = (ok, r', s')" using Cons.prems f by simp
    have len: "length (r_writers r1) = length (r_writers r)" "set is \<subseteq> {..<length (r_writers r1)}"
      using Cons.prems(2) r1 by auto
    note IH = Cons.IH [OF rest len(2)]
    have 1: "\<exists>ws. r' = r\<lparr>r_writers := ws\<rparr> \<and> length ws = length (r_writers r)"
      using conjunct1 [OF IH] unfolding r1 by simp
    have 2: "pw_entries (r_writers r' ! j) = []"
      if "j < length (r_writers r)" "pw_entries (r_writers r ! j) = [] \<or> ok \<and> j \<in> set (i # is)" for j
      using IH len that r1 e i by (cases "j = i") auto
    have 3: "read_file p s' = read_file p s" if p: "\<forall>w \<in> set (r_writers r). p \<notin> writer_files w" for p
    proof -
      have "\<forall>v \<in> set (r_writers r1). p \<notin> writer_files v"
        using p q [of p] i r1 by (auto dest!: subsetD [OF set_update_subset_insert])
      then show ?thesis using IH q [of p] p i by auto
    qed
    show ?thesis using 1 2 3 by blast
  qed
qed


subsection \<open>One step over the journal\<close>

definition cursor_view :: "Recorder \<Rightarrow> bool \<times> bool \<times> bool \<times> string option \<times> RecorderConfig" where
  "cursor_view r = (r_current_entry_pending r, r_cursor_enabled r, r_persistent_cursor_enabled r, r_pending_cursor r,
     r_config r)"

interpretation view: recorder_invariant "\<lambda>r. cursor_view r = v" "\<lambda>i r. cursor_view r = v" for v
  by unfold_locales
    (auto simp: cursor_view_def open_writer_def on_writer_def recorder_assign_monotonic_tie_order_def Let_def
      dest!: writer_open_recorder split: prod.splits)

lemma handle_entry_view:
  assumes h: "handle_entry H j e boots p = (res, p')"
  shows "cursor_view (p_recorder p') = cursor_view (p_recorder p) \<and> p_journal p' = p_journal p"
  using view.handle_entry_keeps [OF h refl] h
  by (auto simp: handle_entry_def Let_def split: prod.splits modifier_result.splits submit_result.splits)

interpretation config: process_invariant "\<lambda>r. r_config r = cfg" "\<lambda>i r. r_config r = cfg" for cfg
  by unfold_locales
    (auto simp: open_writer_def on_writer_def recorder_sample_clock_def recorder_assign_monotonic_tie_order_def Let_def
      dest!: writer_open_recorder split: prod.splits)

text \<open>The entries the next step will meet: the one put back, if any, and those not yet read.\<close>

definition ahead :: "process \<Rightarrow> sd_entry list" where
  "ahead p =
     (case (r_current_entry_pending (p_recorder p), jn_current (p_journal p)) of
        (True, Some e) \<Rightarrow> [e] | _ \<Rightarrow> []) @ jn_rest (p_journal p)"

definition position_ok :: "process \<Rightarrow> bool" where
  "position_ok p \<longleftrightarrow> (r_current_entry_pending (p_recorder p) \<longrightarrow> jn_current (p_journal p) \<noteq> None)"

lemma advance_ahead:
  assumes "position_ok p"
  shows "case advance p of
      None \<Rightarrow> ahead p = []
    | Some p1 \<Rightarrow> \<exists>e. jn_current (p_journal p1) = Some e \<and> ahead p = e # jn_rest (p_journal p1) \<and>
        \<not> r_current_entry_pending (p_recorder p1) \<and> snd (cursor_view (p_recorder p1)) = snd (cursor_view (p_recorder p))"
  using assms by (auto simp: advance_def ahead_def position_ok_def sd_journal_next_def cursor_view_def
      split: list.splits option.splits)

text \<open>Entry \<^verbatim>\<open>e\<close> ended a step: \<^verbatim>\<open>rest\<close> is what lies behind it, \<^verbatim>\<open>p'\<close> the state after.\<close>

definition stopped_at :: "host \<Rightarrow> sd_entry \<Rightarrow> sd_entry list \<Rightarrow> process \<Rightarrow> bool" where
  "stopped_at H e rest p' \<longleftrightarrow>
     (\<exists>p1 entry boots res p2.
        r_config (p_recorder p1) = r_config (p_recorder p') \<and>
        extract_entry (r_config (p_recorder p1)) e (r_boots (p_recorder p1)) = (entry, boots) \<and>
        handle_entry H (Some e) entry boots p1 = (res, p2) \<and>
        (if res = HandleFailed then ahead p' = e # rest
         else ahead p' = rest \<and> (res = Handled \<longrightarrow> sd_cursor e = None)))"

definition keeps_cursor :: "Recorder \<Rightarrow> bool" where
  "keeps_cursor r \<longleftrightarrow> r_cursor_enabled r \<or> r_persistent_cursor_enabled r"

lemma step_once:
  assumes st: "step_loop H (Suc left) n p = (n', p')" and pos: "position_ok p"
  obtains (exhausted) "ahead p = []" and "n' = n" and "p' = p"
  | (stopped) e rest where "ahead p = e # rest" and "n' = n" and "position_ok p'" and "stopped_at H e rest p'"
      and "r_pending_cursor (p_recorder p') = r_pending_cursor (p_recorder p)"
  | (handled) e rest p3 where "ahead p = e # rest" and "ahead p3 = rest" and "position_ok p3"
      and "step_loop H left (n + 1) p3 = (n', p')" and "keeps_cursor (p_recorder p3) = keeps_cursor (p_recorder p)"
      and "keeps_cursor (p_recorder p) \<Longrightarrow> r_pending_cursor (p_recorder p3) = sd_cursor e"
proof (cases "advance p")
  case None
  then show thesis using st advance_ahead [OF pos] by (intro exhausted) simp_all
next
  case (Some p1)
  obtain e where e: "jn_current (p_journal p1) = Some e" "ahead p = e # jn_rest (p_journal p1)"
    "\<not> r_current_entry_pending (p_recorder p1)" "snd (cursor_view (p_recorder p1)) = snd (cursor_view (p_recorder p))"
    using advance_ahead [OF pos] Some by auto
  obtain entry boots where x: "extract_entry (r_config (p_recorder p1)) e (r_boots (p_recorder p1)) = (entry, boots)"
    by fastforce
  obtain res p2 where h: "handle_entry H (Some e) entry boots p1 = (res, p2)" by fastforce
  have p2: "p_journal p2 = p_journal p1" "\<not> r_current_entry_pending (p_recorder p2)"
    "r_pending_cursor (p_recorder p2) = r_pending_cursor (p_recorder p)"
    "keeps_cursor (p_recorder p2) = keeps_cursor (p_recorder p)" "r_config (p_recorder p2) = r_config (p_recorder p1)"
    using handle_entry_view [OF h] e by (auto simp: cursor_view_def keeps_cursor_def)
  note st = st [unfolded step_loop.simps Some option.case e(1) x prod.case h]
  show thesis
  proof (cases "res = Handled \<and> note_cursor e p2 \<noteq> None")
    case False
    let ?p' = "if res = HandleFailed then p2\<lparr>p_recorder := (p_recorder p2)\<lparr>r_current_entry_pending := True\<rparr>\<rparr> else p2"
    have n: "n' = n" "p' = ?p'" using st False by (auto split: handled.splits option.splits)
    have "stopped_at H e (jn_rest (p_journal p1)) p'"
      unfolding stopped_at_def n(2) using x h False p2 e(1)
      by (intro exI [of _ p1] exI [of _ entry] exI [of _ boots] exI [of _ res] exI [of _ p2])
        (auto simp: ahead_def note_cursor_def Let_def split: if_splits option.splits)
    then show thesis using e(2) n p2 e(1) by (intro stopped) (auto simp: position_ok_def)
  next
    case True
    then obtain p3 where c: "note_cursor e p2 = Some p3" by auto
    have "p_journal p3 = p_journal p1" "\<not> r_current_entry_pending (p_recorder p3)"
      "keeps_cursor (p_recorder p3) = keeps_cursor (p_recorder p)"
      "keeps_cursor (p_recorder p) \<Longrightarrow> r_pending_cursor (p_recorder p3) = sd_cursor e"
      using c p2 by (auto simp: note_cursor_def keeps_cursor_def Let_def split: if_splits option.splits)
    then show thesis using e(2) st True c by (intro handled [of e _ p3]) (auto simp: position_ok_def ahead_def)
  qed
qed

lemma step_loop_order:
  assumes "step_loop H left n p = (n', p')" and "position_ok p"
  shows "\<exists>m. n' = n + m \<and> m \<le> left \<and> m \<le> length (ahead p) \<and> position_ok p' \<and>
    (m < min left (length (ahead p)) \<and> stopped_at H (ahead p ! m) (drop (Suc m) (ahead p)) p' \<or>
     m = min left (length (ahead p)) \<and> ahead p' = drop m (ahead p)) \<and>
    (keeps_cursor (p_recorder p) \<longrightarrow>
     r_pending_cursor (p_recorder p') = (if m = 0 then r_pending_cursor (p_recorder p) else sd_cursor (ahead p ! (m - 1))))"
  using assms
proof (induction left arbitrary: n p)
  case 0
  then show ?case by simp
next
  case (Suc left)
  from Suc.prems show ?case
  proof (cases rule: step_once)
    case exhausted
    then show ?thesis using Suc.prems(2) by (intro exI [of _ 0]) simp
  next
    case (stopped e rest)
    then show ?thesis by (intro exI [of _ 0]) simp
  next
    case (handled e rest p3)
    from Suc.IH [OF handled(4,3), unfolded handled(2,5)] obtain m where m: "n' = n + 1 + m" "m \<le> left" "m \<le> length rest"
      "position_ok p'" "m < min left (length rest) \<and> stopped_at H (rest ! m) (drop (Suc m) rest) p' \<or>
         m = min left (length rest) \<and> ahead p' = drop m rest"
      "keeps_cursor (p_recorder p) \<longrightarrow>
         r_pending_cursor (p_recorder p') = (if m = 0 then r_pending_cursor (p_recorder p3) else sd_cursor (rest ! (m - 1)))"
      by blast
    then show ?thesis using handled(1,6) by (intro exI [of _ "Suc m"]) (auto simp: nth_Cons')
  qed
qed


definition drop_all_config :: RecorderConfig where
  "drop_all_config = recorder_config_init\<lparr>rc_modifiers :=
     [empty_modifier\<lparr>em_match_kind := MODIFIER_MATCH_PRESENT, em_match_field := ''DEBUG'', em_match_present := False, em_drop := True\<rparr>]\<rparr>"

definition plain_record :: "string \<Rightarrow> sd_entry" where
  "plain_record c = \<lparr>sd_get_data = (\<lambda>_. None), sd_enumerate = [], sd_realtime = Some 5, sd_monotonic = Some 5, sd_cursor = Some c\<rparr>"

lemma drop_all_handled:
  assumes "r_config (p_recorder p) = drop_all_config"
  shows "fst (handle_entry H (Some (plain_record c)) e boots p) = Handled"
proof -
  let ?r = "(p_recorder p)\<lparr>r_boots := boots\<rparr>"
  obtain r1 e1 where t: "recorder_assign_monotonic_tie_order ?r e = (r1, e1)" by fastforce
  have "r_config r1 = drop_all_config" using assign_ties_writers(2) [of ?r e] t assms by simp
  then have "fst (apply_entry_modifiers R J (r_config r1) (Some (plain_record c)) rep e1) = ModDrop" for R J rep
    by (simp add: apply_entry_modifiers_def drop_all_config_def empty_modifier_def modifier_matches_def plain_record_def
        entry_field_for_modifier_def journal_get_field_def rewrite_entry_def split: prod.splits)
  then show ?thesis
    by (auto simp: handle_entry_def t Let_def split: prod.splits modifier_result.splits) (metis fst_conv modifier_result.distinct)+
qed



end
