(* ===== verification/Compare.thy ===== *)
theory Compare
  imports Prelude "HOL-Library.Multiset"
begin

text \<open>
  Comparison functions in the C style: a negative, zero or positive result, chained field by
  field. The locale \<^verbatim>\<open>comparison\<close> is what \<^verbatim>\<open>qsort\<close> and the merges of the reader rely on;
  numbers, \<^verbatim>\<open>strcmp\<close> and every chain of comparisons provide it.
\<close>

definition cmp3 :: "'a :: linorder \<Rightarrow> 'a \<Rightarrow> int" where
  "cmp3 a b = (if a < b then - 1 else if a > b then 1 else 0)"

text \<open>\<^verbatim>\<open>strcmp\<close> up to the magnitude of its result, which the C standard leaves open.\<close>

fun strcmp :: "string \<Rightarrow> string \<Rightarrow> int" where
  "strcmp [] [] = 0"
| "strcmp [] (y # ys) = - 1"
| "strcmp (x # xs) [] = 1"
| "strcmp (x # xs) (y # ys) =
     (if (of_char x :: nat) < of_char y then - 1
      else if (of_char x :: nat) > of_char y then 1 else strcmp xs ys)"

text \<open>The chain of the comparison functions: the first result that is not zero.\<close>

fun first_nonzero :: "int list \<Rightarrow> int" where
  "first_nonzero [] = 0"
| "first_nonzero (c # cs) = (if c \<noteq> 0 then c else first_nonzero cs)"

text \<open>
  \<^verbatim>\<open>qsort\<close>: the C standard leaves the order of equal elements open, this model keeps it.
\<close>

fun insert_by :: "('a \<Rightarrow> 'a \<Rightarrow> int) \<Rightarrow> 'a \<Rightarrow> 'a list \<Rightarrow> 'a list" where
  "insert_by cmp x [] = [x]"
| "insert_by cmp x (y # ys) = (if cmp x y \<le> 0 then x # y # ys else y # insert_by cmp x ys)"

definition qsort :: "('a \<Rightarrow> 'a \<Rightarrow> int) \<Rightarrow> 'a list \<Rightarrow> 'a list" where
  "qsort cmp xs = foldr (insert_by cmp) xs []"

lemma mset_insert_by [simp]: "mset (insert_by cmp x ys) = add_mset x (mset ys)"
  by (induction ys) auto

lemma set_insert_by [simp]: "set (insert_by cmp x ys) = insert x (set ys)"
  by (induction ys) auto

lemma mset_qsort [simp]: "mset (qsort cmp xs) = mset xs"
  by (induction xs) (auto simp: qsort_def)

lemma set_qsort [simp]: "set (qsort cmp xs) = set xs"
  by (metis mset_qsort set_mset_mset)

lemma length_qsort [simp]: "length (qsort cmp xs) = length xs"
  by (metis mset_qsort size_mset)

lemma qsort_Nil [simp]: "qsort cmp [] = []"
  by (simp add: qsort_def)

lemma qsort_eq_Nil [simp]: "qsort cmp xs = [] \<longleftrightarrow> xs = []"
  by (metis length_0_conv length_qsort)

subsection \<open>Lawful comparisons\<close>

locale comparison =
  fixes cmp :: "'a \<Rightarrow> 'a \<Rightarrow> int"
  assumes cmp_swap: "cmp x y < 0 \<longleftrightarrow> 0 < cmp y x"
    and cmp_trans: "cmp x y \<le> 0 \<Longrightarrow> cmp y z \<le> 0 \<Longrightarrow> cmp x z \<le> 0"
    and cmp_trans_less: "cmp x y < 0 \<Longrightarrow> cmp y z \<le> 0 \<Longrightarrow> cmp x z < 0"
begin

abbreviation (input) le :: "'a \<Rightarrow> 'a \<Rightarrow> bool" where
  "le x y \<equiv> cmp x y \<le> 0"

lemma cmp_self [simp]: "cmp x x = 0"
  using cmp_swap [of x x] by linarith

lemma le_total: "le x y \<or> le y x"
  using cmp_swap [of x y] cmp_swap [of y x] by linarith

lemma le_of_not: "\<not> cmp x y < 0 \<Longrightarrow> le y x"
  using cmp_swap [of x y] cmp_swap [of y x] by linarith

lemma transp_le: "transp le"
  by (rule transpI) (rule cmp_trans)

lemma insert_by_sorted: "sorted_wrt le ys \<Longrightarrow> sorted_wrt le (insert_by cmp x ys)"
proof (induction ys)
  case (Cons y ys)
  show ?case
  proof (cases "le x y")
    case True
    then show ?thesis using Cons.prems by (auto intro: cmp_trans)
  next
    case False
    then have "le y x" using le_total by blast
    then show ?thesis using Cons False by simp
  qed
qed simp

lemma qsort_sorted: "sorted_wrt le (qsort cmp xs)"
  unfolding qsort_def by (induction xs) (simp_all add: insert_by_sorted)

lemma qsort_id: "sorted_wrt le xs \<Longrightarrow> qsort cmp xs = xs"
proof (induction xs)
  case (Cons x xs)
  then show ?case by (cases xs) (auto simp: qsort_def)
qed simp

text \<open>Two sorted arrangements of elements no two of which compare equal are the same list.\<close>

lemma sorted_arrangement_unique:
  assumes "mset xs = mset ys" and "sorted_wrt le xs" and "sorted_wrt le ys"
    and "\<And>x y. x \<in> set xs \<Longrightarrow> y \<in> set xs \<Longrightarrow> cmp x y = 0 \<Longrightarrow> x = y"
  shows "xs = ys"
  using assms
proof (induction xs arbitrary: ys)
  case (Cons x xs)
  then obtain y ys' where ys: "ys = y # ys'" by (cases ys) auto
  have s: "set (x # xs) = set ys" using Cons.prems(1) by (rule mset_eq_setD)
  have "le x y" using s Cons.prems(2) ys by (cases "x = y") auto
  moreover have "le y x" using s Cons.prems(3) ys by (cases "x = y") auto
  ultimately have "cmp x y = 0" using cmp_swap [of x y] cmp_swap [of y x] by linarith
  then have xy: "x = y" using Cons.prems(4) s ys by auto
  have "xs = ys'"
    by (rule Cons.IH) (use Cons.prems xy ys in auto)
  then show ?case using xy ys by simp
qed simp

end

lemma comparison_cmp3: "comparison (\<lambda>x y. cmp3 (f x) (f y))"
  by unfold_locales (auto simp: cmp3_def split: if_splits)

lemma comparison_chain:
  assumes "comparison c" and "comparison d"
  shows "comparison (\<lambda>x y. if c x y \<noteq> 0 then c x y else d x y)"
proof -
  note laws = comparison.cmp_swap [OF assms(1)] comparison.cmp_swap [OF assms(2)]
  note c = comparison.cmp_trans [OF assms(1)] comparison.cmp_trans_less [OF assms(1)]
  note d = comparison.cmp_trans [OF assms(2)] comparison.cmp_trans_less [OF assms(2)]
  have c': "c x z < 0" if "c x y \<le> 0" "c y z < 0" for x y z
    using comparison.cmp_trans [OF assms(1) that(1) less_imp_le [OF that(2)]]
      c(1) [of z x y] that laws(1) [of y z] laws(1) [of x z] by linarith
  have c0: "c x z = 0" if "c x y = 0" "c y z = 0" for x y z
    using c(1) [of x y z] c(1) [of z y x] that laws(1) [of y x] laws(1) [of x y] laws(1) [of z y] laws(1) [of y z]
      laws(1) [of x z] laws(1) [of z x] by linarith
  show ?thesis
  proof
    fix x y show "((if c x y \<noteq> 0 then c x y else d x y) < 0) = (0 < (if c y x \<noteq> 0 then c y x else d y x))"
      using laws(1) [of x y] laws(1) [of y x] laws(2) [of x y] by auto
  next
    fix x y z
    assume "(if c x y \<noteq> 0 then c x y else d x y) \<le> 0" and "(if c y z \<noteq> 0 then c y z else d y z) \<le> 0"
    then show "(if c x z \<noteq> 0 then c x z else d x z) \<le> 0"
      using c(2) [of x y z] c' [of x y z] c0 [of x y z] d(1) [of x y z] by (smt (verit))
  next
    fix x y z
    assume "(if c x y \<noteq> 0 then c x y else d x y) < 0" and "(if c y z \<noteq> 0 then c y z else d y z) \<le> 0"
    then show "(if c x z \<noteq> 0 then c x z else d x z) < 0"
      using c(2) [of x y z] c' [of x y z] c0 [of x y z] d(2) [of x y z] by (smt (verit))
  qed
qed

lemma comparison_const: "comparison (\<lambda>x y. 0)"
  by unfold_locales auto

lemma comparison_on: "comparison c \<Longrightarrow> comparison (\<lambda>x y. c (f x) (f y))"
  unfolding comparison_def by blast

text \<open>\<^verbatim>\<open>strcmp\<close> is the comparison of the strings as lists of unsigned characters.\<close>

lemma strcmp_zero [simp]: "strcmp a b = 0 \<longleftrightarrow> a = b"
  proof (induction a b rule: strcmp.induct)
  case (4 x xs y ys)
  consider "(of_char x :: nat) < of_char y" | "(of_char y :: nat) < of_char x" | "x = y"
    by (metis linorder_neqE_nat of_char_eq_iff)
  then show ?case using 4 by cases auto
qed simp_all

lemma strcmp_swap: "strcmp b a = - strcmp a b"
  by (induction a b rule: strcmp.induct) auto

lemma strcmp_trans: "strcmp a b \<le> 0 \<Longrightarrow> strcmp b c \<le> 0 \<Longrightarrow> strcmp a c \<le> 0"
proof (induction a b arbitrary: c rule: strcmp.induct)
  case (4 x xs y ys)
  show ?case
  proof (cases c)
    case (Cons z zs)
    obtain p q r :: nat where c: "of_char x = p" "of_char y = q" "of_char z = r" by blast
    have "strcmp xs zs \<le> 0" if "p = q" "q = r"
      using 4 that c Cons by simp
    with 4(2,3) c Cons show ?thesis by (simp split: if_splits)
  qed (use 4 in simp)
next
  case (2 y ys)
  then show ?case by (cases c) auto
next
  case 1
  then show ?case by (cases c) auto
qed simp

interpretation str: comparison strcmp
proof
  show "(strcmp x y < 0) = (0 < strcmp y x)" for x y by (simp add: strcmp_swap [of y x])
  show "strcmp x y \<le> 0 \<Longrightarrow> strcmp y z \<le> 0 \<Longrightarrow> strcmp x z \<le> 0" for x y z by (rule strcmp_trans)
  show "strcmp x z < 0" if "strcmp x y < 0" "strcmp y z \<le> 0" for x y z
  proof (rule ccontr)
    assume "\<not> strcmp x z < 0"
    then have "strcmp z x \<le> 0" by (simp add: strcmp_swap [of z x])
    with that(2) have "strcmp y x \<le> 0" by (rule strcmp_trans)
    with that(1) show False by (simp add: strcmp_swap [of y x])
  qed
qed

end
