(* ===== verification/Reader.thy ===== *)
theory Reader
  imports Compare Recovery Cursor
begin

text \<open>
  The reader library \<^verbatim>\<open>src/librecorder.c\<close>, first part: entries and the chunks they are read
  from, group names and segment paths, the store id, opening and configuring a reader, and the
  scans over whole segments (\<^verbatim>\<open>rec_player_scan_file\<close>, \<^verbatim>\<open>rec_player_scan_all\<close>,
  \<^verbatim>\<open>rec_player_scan_follow\<close>). The entries are values: what the
  library copies with \<^verbatim>\<open>strdup\<close> and frees again is not modelled, nor is a failing allocation.
\<close>

subsection \<open>Entries\<close>

record RecorderField =
  rf_name :: "string option"
  rf_value :: "byte list"

record RecorderEntry =
  re_boot_seq :: u32
  re_boot_id :: "string option"
  re_segment_seq :: u64
  re_frame_offset :: u64
  re_frame_entry_index :: u32
  re_realtime_ts :: u64
  re_monotonic_ts :: u64
  re_monotonic_tie_order :: u16
  re_pid :: u32
  re_uid :: u32
  re_gid :: u32
  re_priority :: u8
  re_errno_value :: u16
  re_hostname :: "string option"
  re_comm :: "string option"
  re_unit :: "string option"
  re_exe :: "string option"
  re_message :: "string option"
  re_message_id :: "string option"
  re_fields :: "RecorderField list"
  re_group :: "string option"

text \<open>
  What the accessors generated by flatcc return for the items of a chunk, and the rest of the
  environment: the errno an earlier call left behind (whether it is \<^verbatim>\<open>ENOENT\<close> when a scan of
  the path fails without setting it), and the inotify calls.
\<close>

record CompactItem =
  ci_realtime_ts :: u64
  ci_monotonic_ts :: u64
  ci_monotonic_tie_order :: u16
  ci_priority :: u8
  ci_pid :: u32
  ci_message :: "string option"
  ci_unit :: "string option"

record FullItem = CompactItem +
  fl_uid :: u32
  fl_gid :: u32
  fl_errno :: u16
  fl_hostname :: "string option"
  fl_comm :: "string option"
  fl_exe :: "string option"
  fl_message_id :: "string option"
  fl_fields :: "RecorderField list"

record reader_env =
  rv_lib :: lib
  rv_flatcc :: flatcc
  rv_DefaultChunk :: "byte list \<Rightarrow> CompactItem list"
  rv_Chunk :: "byte list \<Rightarrow> FullItem list"
  rv_stale_enoent :: "string \<Rightarrow> bool"
  rv_inotify_init :: bool
  rv_inotify_add_watch :: "string \<Rightarrow> bool"

subsection \<open>The reader\<close>

record SegmentPath =
  sp_path :: string
  sp_segment_seq :: u64

record IteratorSource =
  is_group :: string
  is_segments :: "SegmentPath list"
  is_segment_index :: nat
  is_frame_count :: nat
  is_frame_index :: nat
  is_segment_scan_fallback :: bool
  is_index_reader :: "(string \<times> IndexReader) option"
  is_frame_reader :: "(string \<times> SegmentFrameReader) option"
  is_entries :: "RecorderEntry list"
  is_entry_index :: int

record FollowSegment =
  fs_group :: string
  fs_path :: string
  fs_segment_seq :: u64
  fs_committed_end :: nat

datatype direction = DirectionNone | Forward | Reverse

datatype RecorderPlayerOrder = OrderRecorded | OrderWallclock

text \<open>
  \<^verbatim>\<open>current\<close> and \<^verbatim>\<open>current_source\<close> are \<^verbatim>\<open>None\<close> where the code has \<^verbatim>\<open>SIZE_MAX\<close>. The entry
  pointer of the code is the entry it points to.
\<close>

record RecorderPlayer =
  rp_path :: string
  rp_inotify_fd :: bool
  rp_reliable_fd :: bool
  rp_path_is_directory :: bool
  rp_store_id :: "u64 option"
  rp_entries :: "RecorderEntry list"
  rp_current :: "nat option"
  rp_data :: "string option"
  rp_decryptor :: "pkey option"
  rp_repair_indexes :: bool
  rp_force_repair_indexes :: bool
  rp_unit_filter :: "string option"
  rp_group_filter :: "string list"
  rp_follow_segments :: "FollowSegment list"
  rp_follow_initialized :: bool
  rp_follow_pending :: bool
  rp_follow_topology_pending :: bool
  rp_current_entry :: "RecorderEntry option"
  rp_current_valid :: bool
  rp_sources :: "IteratorSource list"
  rp_current_source :: "nat option"
  rp_last_direction :: direction
  rp_order :: RecorderPlayerOrder
  rp_order_changed :: bool
  rp_cursor_pending :: bool
  rp_cursor_sources_pending :: bool
  rp_cursor_group :: string
  rp_cursor_segment_seq :: u64
  rp_cursor_frame_offset :: u64
  rp_cursor_frame_entry_index :: u32

subsection \<open>Group names and paths\<close>

definition group_name_valid :: "string \<Rightarrow> bool" where
  "group_name_valid name \<longleftrightarrow> name \<noteq> ''state'' \<and> valid_group_name name"

definition group_allowed :: "RecorderPlayer \<Rightarrow> string \<Rightarrow> bool" where
  "group_allowed r grp \<longleftrightarrow> rp_group_filter r = [] \<or> grp \<in> set (rp_group_filter r)"

abbreviation (input) reader_root :: "RecorderPlayer \<Rightarrow> string option" where
  "reader_root r \<equiv> (if rp_path_is_directory r then Some (rp_path r) else None)"

text \<open>
  The group of a segment is the first component below the root, or the directory of a segment
  file that was opened by its own path. Scanning back from the last slash the code always takes
  the character in front of it.
\<close>

definition checked_group :: "string \<Rightarrow> string option" where
  "checked_group grp =
     (if grp = [] \<or> length grp \<ge> 64 \<or> \<not> group_name_valid grp then None else Some grp)"

definition group_from_path :: "string \<Rightarrow> string option \<Rightarrow> string option" where
  "group_from_path path root =
     (case root of
        Some root_path \<Rightarrow>
          (let root_len = length root_path; rest = drop root_len path in
           if root_len \<noteq> 0 \<and> take root_len path = root_path \<and>
              (last root_path = CHR ''/'' \<or> (rest \<noteq> [] \<and> hd rest = CHR ''/''))
           then
             let relative = dropWhile (\<lambda>c. c = CHR ''/'') rest in
             if CHR ''/'' \<notin> set relative then None
             else checked_group (takeWhile (\<lambda>c. c \<noteq> CHR ''/'') relative)
           else None)
      | None \<Rightarrow>
          (case dir_of_path path of
             None \<Rightarrow> None
           | Some before \<Rightarrow>
               if before = [] then None
               else checked_group
                 (rev (takeWhile (\<lambda>c. c \<noteq> CHR ''/'') (rev (butlast before))) @ [last before])))"

definition segment_seq_of_name :: "string \<Rightarrow> u64 option" where
  "segment_seq_of_name name =
     (let r = strtoull name in if st_end r = ''.seg'' then Some (st_value r) else None)"

definition readdir :: "string \<Rightarrow> world \<Rightarrow> string list" where
  "readdir d w = readdir_dirs d w @ readdir_files d w"

definition is_dir :: "string \<Rightarrow> world \<Rightarrow> bool" where
  "is_dir path w \<longleftrightarrow> path \<in> set (w_dirs w)"

definition add_segment_path :: "SegmentPath list \<Rightarrow> string \<Rightarrow> u64 \<Rightarrow> SegmentPath list option" where
  "add_segment_path paths path segment_seq =
     (if length path \<ge> 512 then None
      else Some (paths @ [\<lparr>sp_path = path, sp_segment_seq = segment_seq\<rparr>]))"

definition add_reader_file_path :: "RecorderPlayer \<Rightarrow> SegmentPath list \<Rightarrow> SegmentPath list option" where
  "add_reader_file_path r paths =
     (case group_from_path (rp_path r) None of
        None \<Rightarrow> None
      | Some grp \<Rightarrow>
          if group_allowed r grp then add_segment_path paths (rp_path r) 0 else Some paths)"

fun collect_names :: "string \<Rightarrow> string list \<Rightarrow> SegmentPath list \<Rightarrow> SegmentPath list option" where
  "collect_names dir_path [] paths = Some paths"
| "collect_names dir_path (name # names) paths =
     (case segment_seq_of_name name of
        None \<Rightarrow> collect_names dir_path names paths
      | Some sq \<Rightarrow>
          (case add_segment_path paths (dir_path @ ''/'' @ name) sq of
             None \<Rightarrow> None
           | Some paths' \<Rightarrow> collect_names dir_path names paths'))"

definition collect_segment_paths_in_dir ::
    "string \<Rightarrow> world \<Rightarrow> SegmentPath list \<Rightarrow> SegmentPath list option" where
  "collect_segment_paths_in_dir dir_path w paths =
     (if is_dir dir_path w then collect_names dir_path (readdir dir_path w) paths else None)"

fun collect_groups ::
    "(string \<Rightarrow> world \<Rightarrow> SegmentPath list \<Rightarrow> SegmentPath list option) \<Rightarrow> RecorderPlayer \<Rightarrow> world \<Rightarrow>
     string list \<Rightarrow> SegmentPath list \<Rightarrow> SegmentPath list option" where
  "collect_groups in_dir r w [] paths = Some paths"
| "collect_groups in_dir r w (name # names) paths =
     (let path = rp_path r @ ''/'' @ name in
      if length path < 512 \<and> is_dir path w \<and> group_name_valid name \<and> group_allowed r name
      then (case in_dir path w paths of
              None \<Rightarrow> None
            | Some paths' \<Rightarrow> collect_groups in_dir r w names paths')
      else collect_groups in_dir r w names paths)"

definition collect_segment_paths :: "RecorderPlayer \<Rightarrow> world \<Rightarrow> SegmentPath list option" where
  "collect_segment_paths r w =
     (if is_dir (rp_path r) w
      then collect_groups collect_segment_paths_in_dir r w (readdir (rp_path r) w) []
      else None)"

text \<open>The newest segment of a directory: the first name with the largest number.\<close>

fun latest_name ::
    "string \<Rightarrow> string list \<Rightarrow> (string \<times> u64) option \<Rightarrow> (string \<times> u64) option option" where
  "latest_name dir_path [] latest = Some latest"
| "latest_name dir_path (name # names) latest =
     (case segment_seq_of_name name of
        None \<Rightarrow> latest_name dir_path names latest
      | Some sq \<Rightarrow>
          if (case latest of None \<Rightarrow> True | Some (_, latest_seq) \<Rightarrow> sq > latest_seq)
          then (if length (dir_path @ ''/'' @ name) \<ge> 512 then None
                else latest_name dir_path names (Some (dir_path @ ''/'' @ name, sq)))
          else latest_name dir_path names latest)"

definition collect_latest_segment_in_dir ::
    "string \<Rightarrow> world \<Rightarrow> SegmentPath list \<Rightarrow> SegmentPath list option" where
  "collect_latest_segment_in_dir dir_path w paths =
     (if \<not> is_dir dir_path w then None
      else case latest_name dir_path (readdir dir_path w) None of
             None \<Rightarrow> None
           | Some None \<Rightarrow> Some paths
           | Some (Some (path, sq)) \<Rightarrow> add_segment_path paths path sq)"

definition collect_latest_segment_paths :: "RecorderPlayer \<Rightarrow> world \<Rightarrow> SegmentPath list option" where
  "collect_latest_segment_paths r w =
     (if is_dir (rp_path r) w
      then collect_groups collect_latest_segment_in_dir r w (readdir (rp_path r) w) []
      else None)"

definition compare_segment_path :: "SegmentPath \<Rightarrow> SegmentPath \<Rightarrow> int" where
  "compare_segment_path left right = cmp3 (sp_segment_seq left) (sp_segment_seq right)"

text \<open>All segment paths a reader may read, in the order of their numbers.\<close>

definition reader_paths :: "RecorderPlayer \<Rightarrow> world \<Rightarrow> SegmentPath list option" where
  "reader_paths r w =
     map_option (qsort compare_segment_path)
       (if rp_path_is_directory r then collect_segment_paths r w else add_reader_file_path r [])"

fun group_names ::
    "RecorderPlayer \<Rightarrow> world \<Rightarrow> SegmentPath list \<Rightarrow> string list \<Rightarrow> string list option" where
  "group_names r w [] groups = Some groups"
| "group_names r w (p # ps) groups =
     (if stat (sp_path p) w = None then group_names r w ps groups
      else case group_from_path (sp_path p) (reader_root r) of
             None \<Rightarrow> None
           | Some grp \<Rightarrow>
               group_names r w ps (if grp \<in> set groups then groups else groups @ [grp]))"

definition rec_player_list_groups :: "RecorderPlayer \<Rightarrow> world \<Rightarrow> string list option" where
  "rec_player_list_groups r w =
     (let unfiltered = r\<lparr>rp_group_filter := []\<rparr> in
      case (if rp_path_is_directory r then collect_segment_paths unfiltered w
            else add_segment_path [] (rp_path r) 0) of
        None \<Rightarrow> None
      | Some paths \<Rightarrow> map_option (qsort strcmp) (group_names r w paths []))"

subsection \<open>The store id\<close>

text \<open>\<^verbatim>\<open>fgets\<close> with a buffer of \<^verbatim>\<open>n\<close> bytes, as the C string it leaves.\<close>

definition fgets :: "nat \<Rightarrow> byte list \<Rightarrow> string option" where
  "fgets n raw =
     (let line = take (n - 1) raw in
      if line = [] then None
      else Some (bytes_str (cstr (takeWhile (\<lambda>b. b \<noteq> 10) line @ (if 10 \<in> set line then [10] else [])))))"

definition strtoull16_value :: "string \<Rightarrow> u64" where
  "strtoull16_value txt =
     (let s = dropWhile is_space txt;
          neg = (s \<noteq> [] \<and> hd s = CHR ''-'');
          s' = (if s \<noteq> [] \<and> (hd s = CHR ''-'' \<or> hd s = CHR ''+'') then tl s else s);
          s'' = (if length s' \<ge> 3 \<and> hd s' = CHR ''0'' \<and> (s' ! 1 = CHR ''x'' \<or> s' ! 1 = CHR ''X'') \<and> is_hex (s' ! 2)
                 then drop 2 s' else s');
          v = hex_value (takeWhile is_hex s'')
      in if v > 18446744073709551615 then UINT64_MAX
         else if neg then - of_nat v else of_nat v)"

definition read_store_id :: "string \<Rightarrow> world \<Rightarrow> u64 option" where
  "read_store_id dir_path w =
     (let path = dir_path @ ''/state/store-id'' in
      if length path \<ge> 512 then None
      else case read_file path w of
             None \<Rightarrow> None
           | Some raw \<Rightarrow>
               (case fgets 32 raw of
                  None \<Rightarrow> None
                | Some txt \<Rightarrow>
                    if length txt \<noteq> 17 then None
                    else case strtoull16 txt of
                           (range_error, rest) \<Rightarrow>
                             if range_error \<or> rest = [] \<or> hd rest \<noteq> CHR 0x0A then None
                             else Some (strtoull16_value txt)))"

text \<open>The id is looked up in the directory itself and in its parent.\<close>

definition load_store_id :: "string \<Rightarrow> bool \<Rightarrow> world \<Rightarrow> u64 option" where
  "load_store_id path path_is_directory w =
     (if length path \<ge> 512 then None
      else case (if path_is_directory then Some path
                 else map_option (\<lambda>d. if d = [] then ''/'' else d) (dir_of_path path)) of
             None \<Rightarrow> None
           | Some dir \<Rightarrow>
               (case read_store_id dir w of
                  Some v \<Rightarrow> Some v
                | None \<Rightarrow>
                    (case dir_of_path dir of
                       None \<Rightarrow> None
                     | Some parent \<Rightarrow> if parent = [] then None else read_store_id parent w)))"

subsection \<open>Opening and configuring\<close>

definition add_watch :: "reader_env \<Rightarrow> RecorderPlayer \<Rightarrow> string \<Rightarrow> bool" where
  "add_watch E r path \<longleftrightarrow> rp_inotify_fd r \<and> rv_inotify_add_watch E path"

definition add_directory_watches :: "reader_env \<Rightarrow> RecorderPlayer \<Rightarrow> world \<Rightarrow> bool" where
  "add_directory_watches E r w \<longleftrightarrow>
     is_dir (rp_path r) w \<and> add_watch E r (rp_path r) \<and>
     list_all (\<lambda>name.
         let child = rp_path r @ ''/'' @ name in
         group_name_valid name \<and> length child < 512 \<and> is_dir child w \<longrightarrow> add_watch E r child)
       (readdir (rp_path r) w)"

definition rec_player_open :: "reader_env \<Rightarrow> string \<Rightarrow> world \<Rightarrow> RecorderPlayer option" where
  "rec_player_open E path w =
     (if \<not> is_dir path w \<and> stat path w = None then None
      else
        let r = \<lparr>rp_path = path, rp_inotify_fd = rv_inotify_init E,
                 rp_reliable_fd = rv_inotify_init E, rp_path_is_directory = is_dir path w,
                 rp_store_id = load_store_id path (is_dir path w) w,
                 rp_entries = [], rp_current = None, rp_data = None, rp_decryptor = None,
                 rp_repair_indexes = False, rp_force_repair_indexes = False,
                 rp_unit_filter = None, rp_group_filter = [], rp_follow_segments = [],
                 rp_follow_initialized = False, rp_follow_pending = False,
                 rp_follow_topology_pending = False, rp_current_entry = None,
                 rp_current_valid = False, rp_sources = [], rp_current_source = Some 0,
                 rp_last_direction = DirectionNone, rp_order = OrderWallclock,
                 rp_order_changed = False, rp_cursor_pending = False,
                 rp_cursor_sources_pending = False, rp_cursor_group = [],
                 rp_cursor_segment_seq = 0, rp_cursor_frame_offset = 0,
                 rp_cursor_frame_entry_index = 0\<rparr>
        in Some (if rp_inotify_fd r \<and>
                    ((is_dir path w \<and> \<not> add_directory_watches E r w) \<or>
                     (\<not> is_dir path w \<and> \<not> add_watch E r path))
                 then r\<lparr>rp_reliable_fd := False\<rparr> else r))"

definition rec_player_follow_reset :: "RecorderPlayer \<Rightarrow> RecorderPlayer" where
  "rec_player_follow_reset r = r\<lparr>rp_follow_segments := [], rp_follow_initialized := False\<rparr>"

definition iterator_reset :: "RecorderPlayer \<Rightarrow> RecorderPlayer" where
  "iterator_reset r =
     r\<lparr>rp_sources := [], rp_current_source := None, rp_current_entry := None,
       rp_current_valid := False, rp_last_direction := DirectionNone,
       rp_cursor_pending := False, rp_cursor_sources_pending := False\<rparr>"

definition clear_entries :: "RecorderPlayer \<Rightarrow> RecorderPlayer" where
  "clear_entries r =
     iterator_reset ((rec_player_follow_reset (r\<lparr>rp_entries := [], rp_current := None\<rparr>))
       \<lparr>rp_follow_pending := False, rp_follow_topology_pending := False\<rparr>)"

text \<open>\<^verbatim>\<open>key\<close> is what \<^verbatim>\<open>segment_decryptor_create\<close> makes of the file, \<^verbatim>\<open>None\<close> where it fails.\<close>

definition rec_player_set_private_key ::
    "(string \<Rightarrow> pkey option) \<Rightarrow> string option \<Rightarrow> RecorderPlayer \<Rightarrow> bool \<times> RecorderPlayer" where
  "rec_player_set_private_key create path r =
     (case path of
        None \<Rightarrow> (True, (clear_entries r)\<lparr>rp_decryptor := None\<rparr>)
      | Some p \<Rightarrow>
          (case (if p = [] then None else create p) of
             None \<Rightarrow> (False, r)
           | Some key \<Rightarrow> (True, (clear_entries r)\<lparr>rp_decryptor := Some key\<rparr>)))"

definition rec_player_set_unit_filter :: "string option \<Rightarrow> RecorderPlayer \<Rightarrow> bool \<times> RecorderPlayer" where
  "rec_player_set_unit_filter unit r =
     (if unit = Some [] then (False, r) else (True, (clear_entries r)\<lparr>rp_unit_filter := unit\<rparr>))"

definition rec_player_set_group_filter :: "string list \<Rightarrow> RecorderPlayer \<Rightarrow> bool \<times> RecorderPlayer" where
  "rec_player_set_group_filter groups r =
     (if list_all (\<lambda>g. length g < 64 \<and> group_name_valid g) groups
      then (True, (clear_entries r)\<lparr>rp_group_filter := groups\<rparr>)
      else (False, r))"

definition rec_player_set_order :: "RecorderPlayerOrder \<Rightarrow> RecorderPlayer \<Rightarrow> RecorderPlayer" where
  "rec_player_set_order order r =
     (if rp_order r = order then r else r\<lparr>rp_order := order, rp_order_changed := True\<rparr>)"

definition rec_player_set_repair_indexes :: "bool \<Rightarrow> RecorderPlayer \<Rightarrow> RecorderPlayer" where
  "rec_player_set_repair_indexes enabled r = r\<lparr>rp_repair_indexes := enabled\<rparr>"

definition rec_player_set_force_repair_indexes :: "bool \<Rightarrow> RecorderPlayer \<Rightarrow> RecorderPlayer" where
  "rec_player_set_force_repair_indexes enabled r = r\<lparr>rp_force_repair_indexes := enabled\<rparr>"

subsection \<open>Scanning segments\<close>

text \<open>
  The entries of a frame, in the order \<^verbatim>\<open>scan_frame\<close> hands them out. The entry object lives
  outside the loop, but each kind of chunk sets the same fields for every item.
\<close>

definition base_entry :: "SegmentHeader \<Rightarrow> SegmentFrameInfo \<Rightarrow> string \<Rightarrow> RecorderEntry" where
  "base_entry header frame grp =
     \<lparr>re_boot_seq = sh_boot_seq header, re_boot_id = Some (bytes_str (cstr (sh_boot_id header))),
      re_segment_seq = sh_segment_seq header, re_frame_offset = fi_file_offset frame,
      re_frame_entry_index = 0, re_realtime_ts = 0, re_monotonic_ts = 0,
      re_monotonic_tie_order = 0, re_pid = 0, re_uid = 0, re_gid = 0, re_priority = 0,
      re_errno_value = 0, re_hostname = None, re_comm = None, re_unit = None, re_exe = None,
      re_message = None, re_message_id = None, re_fields = [], re_group = Some grp\<rparr>"

definition compact_entry :: "RecorderEntry \<Rightarrow> nat \<Rightarrow> CompactItem \<Rightarrow> RecorderEntry" where
  "compact_entry base i item =
     base\<lparr>re_realtime_ts := ci_realtime_ts item, re_monotonic_ts := ci_monotonic_ts item,
          re_monotonic_tie_order := ci_monotonic_tie_order item, re_priority := ci_priority item,
          re_pid := ci_pid item, re_message := ci_message item, re_unit := ci_unit item,
          re_frame_entry_index := of_nat i\<rparr>"

definition full_entry :: "RecorderEntry \<Rightarrow> nat \<Rightarrow> FullItem \<Rightarrow> RecorderEntry" where
  "full_entry base i item =
     base\<lparr>re_realtime_ts := ci_realtime_ts item, re_monotonic_ts := ci_monotonic_ts item,
          re_monotonic_tie_order := ci_monotonic_tie_order item, re_priority := ci_priority item,
          re_pid := ci_pid item, re_uid := fl_uid item, re_gid := fl_gid item,
          re_errno_value := fl_errno item, re_hostname := fl_hostname item,
          re_comm := fl_comm item, re_unit := ci_unit item, re_exe := fl_exe item,
          re_message := ci_message item, re_message_id := fl_message_id item,
          re_fields := fl_fields item, re_frame_entry_index := of_nat i\<rparr>"

definition frame_entries ::
    "reader_env \<Rightarrow> string \<Rightarrow> SegmentHeader \<Rightarrow> SegmentFrameInfo \<Rightarrow> byte list \<Rightarrow> RecorderEntry list" where
  "frame_entries E grp header frame chunk =
     (let base = base_entry header frame grp in
      if sh_flags header AND SEGMENT_FLAG_COMPACT_ENTRIES \<noteq> 0
      then map (\<lambda>(i, item). compact_entry base i item) (enumerate 0 (rv_DefaultChunk E chunk))
      else map (\<lambda>(i, item). full_entry base i item) (enumerate 0 (rv_Chunk E chunk)))"

type_synonym 'u rec_player_entry_cb = "RecorderEntry \<Rightarrow> 'u \<Rightarrow> int \<times> 'u"

fun call_entries :: "'u rec_player_entry_cb \<Rightarrow> RecorderEntry list \<Rightarrow> 'u \<Rightarrow> int \<times> 'u" where
  "call_entries callback [] u = (0, u)"
| "call_entries callback (e # es) u =
     (case callback e u of (rv, u') \<Rightarrow> if rv \<noteq> 0 then (- 1, u') else call_entries callback es u')"

definition scan_frame ::
    "reader_env \<Rightarrow> string \<Rightarrow> nat \<Rightarrow> 'u rec_player_entry_cb \<Rightarrow> 'u segment_frame_cb" where
  "scan_frame E grp min_frame_offset callback header frame chunk u =
     (if unat (fi_file_offset frame) < min_frame_offset then (0, u)
      else call_entries callback (frame_entries E grp header frame chunk) u)"

text \<open>
  \<^verbatim>\<open>Inl ScanMalformed\<close> stands for the failures that leave \<^verbatim>\<open>errno\<close> alone, a path outside any
  group included.
\<close>

definition rec_player_scan_file ::
    "reader_env \<Rightarrow> RecorderPlayer \<Rightarrow> world \<Rightarrow> string \<Rightarrow> 'u rec_player_entry_cb \<Rightarrow> 'u \<Rightarrow> nat \<Rightarrow>
     (scan_error + nat) \<times> 'u" where
  "rec_player_scan_file E r w path callback u min_frame_offset =
     (case group_from_path path (reader_root r) of
        None \<Rightarrow> (Inl ScanMalformed, u)
      | Some grp \<Rightarrow>
          if \<not> group_allowed r grp then (Inr 0, u)
          else
            (case segment_scan_path_from_offset (rv_lib E) (read_file path w) (rp_decryptor r)
                    (Some (scan_frame E grp min_frame_offset callback)) u min_frame_offset of
               (Inl e, u') \<Rightarrow> (Inl e, u')
             | (Inr (_, _, committed_end), u') \<Rightarrow> (Inr committed_end, u')))"

fun scan_paths ::
    "reader_env \<Rightarrow> RecorderPlayer \<Rightarrow> world \<Rightarrow> 'u rec_player_entry_cb \<Rightarrow> SegmentPath list \<Rightarrow> 'u \<Rightarrow>
     bool \<times> 'u" where
  "scan_paths E r w callback [] u = (True, u)"
| "scan_paths E r w callback (p # ps) u =
     (case rec_player_scan_file E r w (sp_path p) callback u 0 of
        (Inl _, u') \<Rightarrow> (False, u')
      | (Inr _, u') \<Rightarrow> scan_paths E r w callback ps u')"

definition rec_player_scan_all ::
    "reader_env \<Rightarrow> RecorderPlayer \<Rightarrow> world \<Rightarrow> 'u rec_player_entry_cb \<Rightarrow> 'u \<Rightarrow> bool \<times> 'u" where
  "rec_player_scan_all E r w callback u =
     (case reader_paths r w of
        None \<Rightarrow> (False, u)
      | Some paths \<Rightarrow> scan_paths E r w callback paths u)"

text \<open>Storing an entry: the copies are the entry itself, at the end of the array.\<close>

definition append_stored_entry :: "RecorderEntry list rec_player_entry_cb" where
  "append_stored_entry entry entries = (0, entries @ [entry])"

subsection \<open>Orders\<close>

definition or_dash :: "string option \<Rightarrow> string" where
  "or_dash s = (case s of None \<Rightarrow> ''-'' | Some t \<Rightarrow> t)"

definition compare_stored_entries :: "RecorderEntry \<Rightarrow> RecorderEntry \<Rightarrow> int" where
  "compare_stored_entries a b =
     first_nonzero
       [cmp3 (re_realtime_ts a) (re_realtime_ts b), cmp3 (re_boot_seq a) (re_boot_seq b),
        strcmp (or_dash (re_group a)) (or_dash (re_group b)),
        cmp3 (re_segment_seq a) (re_segment_seq b), cmp3 (re_frame_offset a) (re_frame_offset b),
        cmp3 (re_frame_entry_index a) (re_frame_entry_index b)]"

definition compare_iterator_entries :: "RecorderPlayerOrder \<Rightarrow> RecorderEntry \<Rightarrow> RecorderEntry \<Rightarrow> int" where
  "compare_iterator_entries order left right =
     (if order = OrderWallclock then compare_stored_entries left right
      else first_nonzero
        [cmp3 (re_boot_seq left) (re_boot_seq right),
         cmp3 (re_monotonic_ts left) (re_monotonic_ts right),
         cmp3 (re_monotonic_tie_order left) (re_monotonic_tie_order right),
         strcmp (or_dash (re_group left)) (or_dash (re_group right)),
         cmp3 (re_segment_seq left) (re_segment_seq right),
         cmp3 (re_frame_offset left) (re_frame_offset right),
         cmp3 (re_frame_entry_index left) (re_frame_entry_index right)])"

subsection \<open>Following\<close>

definition find_follow_segment :: "RecorderPlayer \<Rightarrow> string \<Rightarrow> FollowSegment option" where
  "find_follow_segment r path =
     (case group_from_path path (reader_root r) of
        None \<Rightarrow> None
      | Some grp \<Rightarrow> find (\<lambda>s. fs_group s = grp) (rp_follow_segments r))"

fun update_follow ::
    "string \<Rightarrow> string \<Rightarrow> u64 \<Rightarrow> nat \<Rightarrow> FollowSegment list \<Rightarrow> FollowSegment list" where
  "update_follow grp path segment_seq committed_end [] =
     [\<lparr>fs_group = grp, fs_path = path, fs_segment_seq = segment_seq, fs_committed_end = committed_end\<rparr>]"
| "update_follow grp path segment_seq committed_end (item # items) =
     (if fs_group item \<noteq> grp
      then item # update_follow grp path segment_seq committed_end items
      else if segment_seq < fs_segment_seq item then item # items
      else item\<lparr>fs_path := path, fs_segment_seq := segment_seq,
                fs_committed_end := committed_end\<rparr> # items)"

definition remember_follow_segment ::
    "RecorderPlayer \<Rightarrow> string \<Rightarrow> u64 \<Rightarrow> nat \<Rightarrow> bool \<times> RecorderPlayer" where
  "remember_follow_segment r path segment_seq committed_end =
     (case group_from_path path (reader_root r) of
        None \<Rightarrow> (False, r)
      | Some grp \<Rightarrow>
          (case find (\<lambda>s. fs_group s = grp) (rp_follow_segments r) of
             Some item \<Rightarrow>
               if segment_seq < fs_segment_seq item then (True, r)
               else if length path \<ge> 512 then (False, r)
               else (True, r\<lparr>rp_follow_segments :=
                       update_follow grp path segment_seq committed_end (rp_follow_segments r)\<rparr>)
           | None \<Rightarrow>
               if length path \<ge> 512 then (False, r)
               else (True, r\<lparr>rp_follow_segments :=
                       update_follow grp path segment_seq committed_end (rp_follow_segments r)\<rparr>)))"

definition follow_scan_entry :: "'u rec_player_entry_cb \<Rightarrow> ('u \<times> nat) rec_player_entry_cb" where
  "follow_scan_entry callback entry ctx =
     (case ctx of (u, entry_count) \<Rightarrow>
        (case callback entry u of (rv, u') \<Rightarrow> (rv, (u', entry_count + 1))))"

definition scan_path_with_context ::
    "reader_env \<Rightarrow> RecorderPlayer \<Rightarrow> world \<Rightarrow> string \<Rightarrow> nat \<Rightarrow> 'u rec_player_entry_cb \<Rightarrow> 'u \<times> nat \<Rightarrow>
     (scan_error + nat) \<times> 'u \<times> nat" where
  "scan_path_with_context E r w path min_frame_offset callback ctx =
     rec_player_scan_file E r w path (follow_scan_entry callback) ctx min_frame_offset"

fun follow_new ::
    "reader_env \<Rightarrow> world \<Rightarrow> 'u rec_player_entry_cb \<Rightarrow> SegmentPath list \<Rightarrow> RecorderPlayer \<Rightarrow> 'u \<times> nat \<Rightarrow>
     bool \<times> RecorderPlayer \<times> 'u \<times> nat" where
  "follow_new E w callback [] r ctx = (True, r, ctx)"
| "follow_new E w callback (p # ps) r ctx =
     (case find_follow_segment r (sp_path p) of
        Some seen \<Rightarrow>
          if sp_segment_seq p < fs_segment_seq seen then follow_new E w callback ps r ctx
          else
            (case scan_path_with_context E r w (sp_path p)
                    (if sp_segment_seq p = fs_segment_seq seen then fs_committed_end seen else 0)
                    callback ctx of
               (Inl _, ctx') \<Rightarrow> (False, r, ctx')
             | (Inr committed_end, ctx') \<Rightarrow>
                 (case remember_follow_segment r (sp_path p) (sp_segment_seq p) committed_end of
                    (ok, r') \<Rightarrow>
                      if \<not> ok then (False, r', ctx') else follow_new E w callback ps r' ctx'))
      | None \<Rightarrow>
          (case scan_path_with_context E r w (sp_path p) 0 callback ctx of
             (Inl _, ctx') \<Rightarrow> (False, r, ctx')
           | (Inr committed_end, ctx') \<Rightarrow>
               (case remember_follow_segment r (sp_path p) (sp_segment_seq p) committed_end of
                  (ok, r') \<Rightarrow>
                    if \<not> ok then (False, r', ctx') else follow_new E w callback ps r' ctx')))"

text \<open>Older segments, newest first, until enough entries were handed out.\<close>

fun follow_history ::
    "reader_env \<Rightarrow> world \<Rightarrow> 'u rec_player_entry_cb \<Rightarrow> nat \<Rightarrow> RecorderPlayer \<Rightarrow> SegmentPath list \<Rightarrow>
     'u \<times> nat \<Rightarrow> bool \<times> 'u \<times> nat" where
  "follow_history E w callback initial_entries r [] ctx = (True, ctx)"
| "follow_history E w callback initial_entries r (p # ps) ctx =
     (if snd ctx \<ge> initial_entries then (True, ctx)
      else if (case find_follow_segment r (sp_path p) of
                 None \<Rightarrow> False
               | Some seen \<Rightarrow> sp_segment_seq p \<ge> fs_segment_seq seen)
      then follow_history E w callback initial_entries r ps ctx
      else
        (case scan_path_with_context E r w (sp_path p) 0 callback ctx of
           (Inl _, ctx') \<Rightarrow> (False, ctx')
         | (Inr _, ctx') \<Rightarrow> follow_history E w callback initial_entries r ps ctx'))"

definition follow_paths :: "RecorderPlayer \<Rightarrow> world \<Rightarrow> SegmentPath list option" where
  "follow_paths r w =
     map_option (qsort compare_segment_path)
       (if rp_path_is_directory r
        then (if rp_follow_initialized r \<and> rp_follow_topology_pending r
              then collect_segment_paths r w else collect_latest_segment_paths r w)
        else add_reader_file_path r [])"

definition rec_player_scan_follow ::
    "reader_env \<Rightarrow> world \<Rightarrow> 'u rec_player_entry_cb \<Rightarrow> nat \<Rightarrow> RecorderPlayer \<Rightarrow> 'u \<Rightarrow>
     bool \<times> RecorderPlayer \<times> 'u" where
  "rec_player_scan_follow E w callback initial_entries r u =
     (case follow_paths r w of
        None \<Rightarrow> (False, r, u)
      | Some paths \<Rightarrow>
          (case follow_new E w callback paths r (u, 0) of
             (False, r', u', _) \<Rightarrow> (False, r', u')
           | (True, r', u', scanned_entries) \<Rightarrow>
               (case (if \<not> rp_follow_initialized r' \<and> scanned_entries < initial_entries \<and>
                         rp_path_is_directory r'
                      then (case collect_segment_paths r' w of
                              None \<Rightarrow> (False, u', scanned_entries)
                            | Some history \<Rightarrow>
                                follow_history E w callback initial_entries r'
                                  (rev (qsort compare_segment_path history)) (u', scanned_entries))
                      else (True, u', scanned_entries)) of
                  (False, u'', _) \<Rightarrow> (False, r', u'')
                | (True, u'', _) \<Rightarrow>
                    (True, r'\<lparr>rp_follow_initialized := True, rp_follow_topology_pending := False\<rparr>,
                     u''))))"

definition scan_segment_end :: "reader_env \<Rightarrow> RecorderPlayer \<Rightarrow> world \<Rightarrow> string \<Rightarrow> nat option" where
  "scan_segment_end E r w path =
     (case segment_scan_path_from_offset (rv_lib E) (read_file path w) (rp_decryptor r)
             (None :: unit segment_frame_cb option) () 0 of
        (Inl _, _) \<Rightarrow> None
      | (Inr (_, _, committed_end), _) \<Rightarrow> Some committed_end)"

fun remember_ends ::
    "reader_env \<Rightarrow> world \<Rightarrow> SegmentPath list \<Rightarrow> RecorderPlayer \<Rightarrow> bool \<times> RecorderPlayer" where
  "remember_ends E w [] r = (True, r)"
| "remember_ends E w (p # ps) r =
     (case scan_segment_end E r w (sp_path p) of
        None \<Rightarrow> (False, r)
      | Some committed_end \<Rightarrow>
          (case remember_follow_segment r (sp_path p) (sp_segment_seq p) committed_end of
             (ok, r') \<Rightarrow> if ok then remember_ends E w ps r' else (False, r')))"

definition initialize_tail_follow :: "reader_env \<Rightarrow> world \<Rightarrow> RecorderPlayer \<Rightarrow> bool \<times> RecorderPlayer" where
  "initialize_tail_follow E w r =
     (case (if rp_path_is_directory r then collect_latest_segment_paths r w
            else add_reader_file_path r []) of
        None \<Rightarrow> (False, r)
      | Some paths \<Rightarrow>
          (case remember_ends E w (qsort compare_segment_path paths) r of
             (False, r') \<Rightarrow> (False, r')
           | (True, r') \<Rightarrow>
               (True, r'\<lparr>rp_follow_initialized := True, rp_follow_topology_pending := False,
                         rp_follow_pending := False\<rparr>)))"

text \<open>
  \<^verbatim>\<open>append_pending_entries\<close> sorts the new entries with an insertion sort in the active order;
  the order of equal entries is kept.
\<close>

fun insert_pending :: "(RecorderEntry \<Rightarrow> RecorderEntry \<Rightarrow> int) \<Rightarrow> RecorderEntry \<Rightarrow> RecorderEntry list \<Rightarrow> RecorderEntry list" where
  "insert_pending cmp entry [] = [entry]"
| "insert_pending cmp entry (e # before) =
     (if cmp entry e < 0 then e # insert_pending cmp entry before else entry # e # before)"

definition sort_pending :: "(RecorderEntry \<Rightarrow> RecorderEntry \<Rightarrow> int) \<Rightarrow> RecorderEntry list \<Rightarrow> RecorderEntry list" where
  "sort_pending cmp entries = rev (foldl (\<lambda>before entry. insert_pending cmp entry before) [] entries)"

definition append_pending_entries :: "reader_env \<Rightarrow> world \<Rightarrow> RecorderPlayer \<Rightarrow> bool \<times> RecorderPlayer" where
  "append_pending_entries E w r =
     (case rec_player_scan_follow E w append_stored_entry 0 r [] of
        (False, r', _) \<Rightarrow> (False, r')
      | (True, r', pending) \<Rightarrow>
          (True, r'\<lparr>rp_entries := rp_entries r' @
                     sort_pending (compare_iterator_entries (rp_order r')) pending\<rparr>))"

end
