(* ===== verification/Reader_Source.thy ===== *)
theory Reader_Source
  imports Reader
begin

text \<open>
  The per-group sources of the iterator (\<^verbatim>\<open>src/librecorder.c\<close>): a source walks the segments of
  its group frame by frame through the index, or decodes and sorts a whole segment where the
  index cannot be used. A result is \<^verbatim>\<open>1\<close> when the source stands on an entry, \<^verbatim>\<open>0\<close> when it has
  none left and negative for an error. The entry array is null exactly while it is empty.
\<close>

abbreviation (input) SIZE_MAX :: nat where "SIZE_MAX \<equiv> 18446744073709551615"

definition size_inc :: "nat \<Rightarrow> nat" where
  "size_inc n = (if n = SIZE_MAX then 0 else n + 1)"

definition size_dec :: "nat \<Rightarrow> nat" where
  "size_dec n = (if n = 0 then SIZE_MAX else n - 1)"

definition source_clear_frame :: "IteratorSource \<Rightarrow> IteratorSource" where
  "source_clear_frame s = s\<lparr>is_entries := [], is_entry_index := - 1\<rparr>"

definition new_source :: "string \<Rightarrow> SegmentPath list \<Rightarrow> int \<Rightarrow> IteratorSource" where
  "new_source grp segments entry_index =
     \<lparr>is_group = grp, is_segments = segments, is_segment_index = 0, is_frame_count = 0,
      is_frame_index = 0, is_segment_scan_fallback = False, is_index_reader = None,
      is_frame_reader = None, is_entries = [], is_entry_index = entry_index\<rparr>"

definition source_add_segment :: "IteratorSource \<Rightarrow> SegmentPath \<Rightarrow> IteratorSource" where
  "source_add_segment s path = s\<lparr>is_segments := is_segments s @ [path]\<rparr>"

definition source_has_current :: "IteratorSource \<Rightarrow> bool" where
  "source_has_current s \<longleftrightarrow> 0 \<le> is_entry_index s \<and> is_entry_index s < int (length (is_entries s))"

definition source_current :: "IteratorSource \<Rightarrow> RecorderEntry" where
  "source_current s = is_entries s ! nat (is_entry_index s)"

definition source_path :: "IteratorSource \<Rightarrow> string" where
  "source_path s = sp_path (is_segments s ! is_segment_index s)"

definition segment_index_path :: "string \<Rightarrow> nat \<Rightarrow> string option" where
  "segment_index_path segment_path n =
     (let len = length segment_path in
      if len < 5 \<or> drop (len - 4) segment_path \<noteq> ''.seg'' \<or> len + 1 > n then None
      else Some (take (len - 4) segment_path @ ''.idx''))"

subsection \<open>The index of the current segment\<close>

definition rebuild_index_with ::
    "reader_env \<Rightarrow> string \<Rightarrow> string \<Rightarrow> pkey option \<Rightarrow> world \<Rightarrow> bool \<times> world" where
  "rebuild_index_with E segment_path index_path decryptor w =
     (case fault w of (open_failed, w1) \<Rightarrow>
      case fault w1 of (write_failed, w2) \<Rightarrow>
      case fault w2 of (rename_failed, w3) \<Rightarrow>
        (case index_rebuild_for_segment (rv_lib E) (rv_flatcc E) (\<lambda>p. read_file p w3) segment_path
                index_path decryptor
                (if open_failed then None else Some (fopen_w (if write_failed then [Some 0] else [])))
                (\<not> rename_failed) of
           (ok, fs) \<Rightarrow>
             (ok, store_file index_path (fs index_path)
                    (store_file (snprintf_str 512 (index_path @ ''.tmp''))
                       (fs (snprintf_str 512 (index_path @ ''.tmp''))) w3))))"

text \<open>Only a closed segment is repaired, and the newest of a group only when that is forced.\<close>

definition source_repair_index ::
    "reader_env \<Rightarrow> RecorderPlayer \<Rightarrow> IteratorSource \<Rightarrow> string \<Rightarrow> world \<Rightarrow> bool \<times> world" where
  "source_repair_index E r s index_path w =
     (if \<not> rp_repair_indexes r then (False, w)
      else if \<not> rp_force_repair_indexes r \<and> is_segment_index s + 1 = length (is_segments s)
      then (False, w)
      else
        case stat (source_path s) w of
          None \<Rightarrow> (False, w)
        | Some st \<Rightarrow>
            (case segment_scan_path (rv_lib E) (read_file (source_path s) w) (rp_decryptor r)
                    (None :: unit segment_frame_cb option) () of
               (Inl _, _) \<Rightarrow> (False, w)
             | (Inr (_, footer, committed_end), _) \<Rightarrow>
                 if \<not> ft_present footer \<or> committed_end \<noteq> length (f_data st) then (False, w)
                 else rebuild_index_with E (source_path s) index_path (rp_decryptor r) w))"

definition source_load_index ::
    "reader_env \<Rightarrow> RecorderPlayer \<Rightarrow> IteratorSource \<Rightarrow> world \<Rightarrow> bool \<times> IteratorSource \<times> world" where
  "source_load_index E r s0 w =
     (let s = s0\<lparr>is_frame_count := 0, is_segment_scan_fallback := False\<rparr> in
      if is_segment_index s \<ge> length (is_segments s) then (False, s, w)
      else case segment_index_path (source_path s) 512 of
        None \<Rightarrow> (False, s, w)
      | Some path \<Rightarrow>
          (case (case is_index_reader s of
                   None \<Rightarrow> None
                 | Some (open_path, reader) \<Rightarrow> if open_path = path then Some reader else None) of
             Some reader \<Rightarrow> (True, s\<lparr>is_frame_count := index_reader_frame_count (Some reader)\<rparr>, w)
           | None \<Rightarrow>
               (case index_reader_open (read_file path w) (read_file (source_path s) w) of
                  Inr reader \<Rightarrow>
                    (True, s\<lparr>is_index_reader := Some (path, reader),
                             is_frame_count := index_reader_frame_count (Some reader)\<rparr>, w)
                | Inl _ \<Rightarrow>
                    (case source_repair_index E r s path w of
                       (False, w') \<Rightarrow> (False, s\<lparr>is_index_reader := None\<rparr>, w')
                     | (True, w') \<Rightarrow>
                         (case index_reader_open (read_file path w') (read_file (source_path s) w') of
                            Inl _ \<Rightarrow> (False, s\<lparr>is_index_reader := None\<rparr>, w')
                          | Inr reader \<Rightarrow>
                              (True, s\<lparr>is_index_reader := Some (path, reader),
                                       is_frame_count := index_reader_frame_count (Some reader)\<rparr>, w'))))))"

subsection \<open>Loading a frame or a whole segment\<close>

definition edge_index :: "direction \<Rightarrow> RecorderEntry list \<Rightarrow> int" where
  "edge_index dir entries = (if dir = Forward then 0 else int (length entries) - 1)"

definition scan_source_frame :: "reader_env \<Rightarrow> string \<Rightarrow> RecorderEntry list segment_frame_cb" where
  "scan_source_frame E grp header frame chunk entries =
     scan_frame E grp (unat (fi_file_offset frame)) append_stored_entry header frame chunk entries"

definition unit_possible :: "RecorderPlayer \<Rightarrow> IndexFrame \<Rightarrow> bool" where
  "unit_possible r frame \<longleftrightarrow>
     (case rp_unit_filter r of
        None \<Rightarrow> True
      | Some unit \<Rightarrow> index_frame_may_contain_service frame (str_bytes unit))"

definition open_frame_reader ::
    "reader_env \<Rightarrow> RecorderPlayer \<Rightarrow> IteratorSource \<Rightarrow> world \<Rightarrow> SegmentFrameReader option" where
  "open_frame_reader E r s w =
     (case (case is_frame_reader s of
              None \<Rightarrow> None
            | Some (path, reader) \<Rightarrow> if path = source_path s then Some reader else None) of
        Some reader \<Rightarrow> Some reader
      | None \<Rightarrow>
          (case segment_frame_reader_open (rv_lib E) (read_file (source_path s) w) (rp_decryptor r) of
             Inl _ \<Rightarrow> None
           | Inr reader \<Rightarrow> Some reader))"

definition source_load_frame ::
    "reader_env \<Rightarrow> RecorderPlayer \<Rightarrow> world \<Rightarrow> IteratorSource \<Rightarrow> nat \<Rightarrow> direction \<Rightarrow> int \<times> IteratorSource" where
  "source_load_frame E r w s0 frame_index dir =
     (if frame_index \<ge> is_frame_count s0 then (- 1, s0)
      else
        let s = source_clear_frame s0 in
        case is_index_reader s of
          None \<Rightarrow> (- 1, s)
        | Some (_, index_reader) \<Rightarrow>
            (case index_reader_read_frame index_reader frame_index of
               None \<Rightarrow> (- 1, s)
             | Some frame \<Rightarrow>
                 let s1 = s\<lparr>is_frame_index := frame_index\<rparr> in
                 if \<not> unit_possible r frame then (1, s1)
                 else case open_frame_reader E r s1 w of
                   None \<Rightarrow> (- 1, s1\<lparr>is_frame_reader := None\<rparr>)
                 | Some reader \<Rightarrow>
                     (let s2 = s1\<lparr>is_frame_reader := Some (source_path s1, reader)\<rparr> in
                      case segment_frame_reader_scan (rv_lib E) reader (scan_source_frame E (is_group s2))
                             [] (unat (ix_file_offset frame)) (of_nat frame_index) of
                        (Inl _, entries) \<Rightarrow> (- 1, s2\<lparr>is_entries := entries\<rparr>)
                      | (Inr rv, entries) \<Rightarrow>
                          if rv \<noteq> 0 then (- 1, s2\<lparr>is_entries := entries\<rparr>)
                          else (0, s2\<lparr>is_entries := entries, is_entry_index := edge_index dir entries\<rparr>))))"

text \<open>The frames \<^verbatim>\<open>source_load_indexed_from\<close> tries, in order.\<close>

definition frame_order :: "nat \<Rightarrow> nat \<Rightarrow> direction \<Rightarrow> nat list" where
  "frame_order frame_count frame_index dir =
     (if dir = Forward then frame_index # [frame_index + 1..<frame_count] else rev [0..<frame_index + 1])"

fun load_frames ::
    "reader_env \<Rightarrow> RecorderPlayer \<Rightarrow> world \<Rightarrow> direction \<Rightarrow> nat list \<Rightarrow> IteratorSource \<Rightarrow> int \<times> IteratorSource" where
  "load_frames E r w dir [] s = (0, s)"
| "load_frames E r w dir (i # is) s =
     (case source_load_frame E r w s i dir of
        (rc, s') \<Rightarrow>
          if rc < 0 then (- 1, s')
          else if rc = 0 \<and> is_entries s' \<noteq> [] then (1, s')
          else load_frames E r w dir is s')"

definition source_load_indexed_from ::
    "reader_env \<Rightarrow> RecorderPlayer \<Rightarrow> world \<Rightarrow> IteratorSource \<Rightarrow> nat \<Rightarrow> direction \<Rightarrow> int \<times> IteratorSource" where
  "source_load_indexed_from E r w s frame_index dir =
     load_frames E r w dir (frame_order (is_frame_count s) frame_index dir) s"

text \<open>
  A failed scan counts as an empty segment when \<^verbatim>\<open>errno\<close> is \<^verbatim>\<open>ENOENT\<close>: the file is gone, or the
  scan set no \<^verbatim>\<open>errno\<close> and an earlier call had left that value.
\<close>

definition errno_enoent :: "reader_env \<Rightarrow> world \<Rightarrow> string \<Rightarrow> scan_error \<Rightarrow> bool" where
  "errno_enoent E w path e \<longleftrightarrow>
     (if stat path w = None \<and> \<not> is_dir path w then True
      else e = ScanMalformed \<and> rv_stale_enoent E path)"

definition source_load_segment_fallback ::
    "reader_env \<Rightarrow> RecorderPlayer \<Rightarrow> world \<Rightarrow> IteratorSource \<Rightarrow> direction \<Rightarrow> int \<times> IteratorSource" where
  "source_load_segment_fallback E r w s0 dir =
     (let s = source_clear_frame s0 in
      case rec_player_scan_file E r w (source_path s) append_stored_entry [] 0 of
        (Inl e, entries) \<Rightarrow>
          (if errno_enoent E w (source_path s) e then 0 else - 1, s\<lparr>is_entries := entries\<rparr>)
      | (Inr _, entries) \<Rightarrow>
          (let sorted = qsort compare_stored_entries entries in
           (if sorted \<noteq> [] then 1 else 0,
            s\<lparr>is_entries := sorted, is_segment_scan_fallback := True, is_frame_count := 0,
              is_entry_index := edge_index dir sorted\<rparr>)))"

fun find_index :: "('a \<Rightarrow> bool) \<Rightarrow> 'a list \<Rightarrow> nat option" where
  "find_index P [] = None"
| "find_index P (x # xs) = (if P x then Some 0 else map_option Suc (find_index P xs))"

definition find_last_index :: "('a \<Rightarrow> bool) \<Rightarrow> 'a list \<Rightarrow> nat option" where
  "find_last_index P xs = map_option (\<lambda>i. length xs - 1 - i) (find_index P (rev xs))"

definition source_position_fallback_after ::
    "reader_env \<Rightarrow> RecorderPlayer \<Rightarrow> world \<Rightarrow> IteratorSource \<Rightarrow> RecorderEntry \<Rightarrow> direction \<Rightarrow>
     int \<times> IteratorSource" where
  "source_position_fallback_after E r w s previous dir =
     (let key = previous\<lparr>re_group := Some (is_group s)\<rparr> in
      case source_load_segment_fallback E r w s dir of
        (rc, s') \<Rightarrow>
          if rc < 0 then (- 1, s')
          else case (if dir = Forward
                     then find_index (\<lambda>e. compare_stored_entries e key > 0) (is_entries s')
                     else find_last_index (\<lambda>e. compare_stored_entries e key < 0) (is_entries s')) of
                 Some i \<Rightarrow> (1, s'\<lparr>is_entry_index := int i\<rparr>)
               | None \<Rightarrow> (0, source_clear_frame s'))"

definition source_load_segment_edge ::
    "reader_env \<Rightarrow> RecorderPlayer \<Rightarrow> IteratorSource \<Rightarrow> world \<Rightarrow> direction \<Rightarrow> int \<times> IteratorSource \<times> world" where
  "source_load_segment_edge E r s w dir =
     (case source_load_index E r s w of
        (True, s', w') \<Rightarrow>
          if is_frame_count s' = 0 then (0, s', w')
          else
            (case source_load_indexed_from E r w' s' (if dir = Forward then 0 else is_frame_count s' - 1) dir of
               (rc, s'') \<Rightarrow>
                 if rc \<ge> 0 then (rc, s'', w')
                 else (case source_load_segment_fallback E r w' s'' dir of (rc', t) \<Rightarrow> (rc', t, w')))
      | (False, s', w') \<Rightarrow>
          (case source_load_segment_fallback E r w' s' dir of (rc', t) \<Rightarrow> (rc', t, w')))"

fun position_segments ::
    "reader_env \<Rightarrow> RecorderPlayer \<Rightarrow> direction \<Rightarrow> nat list \<Rightarrow> IteratorSource \<Rightarrow> world \<Rightarrow>
     int \<times> IteratorSource \<times> world" where
  "position_segments E r dir [] s w =
     (0, s\<lparr>is_segment_index := if dir = Forward then length (is_segments s) else SIZE_MAX\<rparr>, w)"
| "position_segments E r dir (i # is) s w =
     (case source_load_segment_edge E r (s\<lparr>is_segment_index := i\<rparr>) w dir of
        (rc, s', w') \<Rightarrow>
          if rc < 0 then (- 1, s', w')
          else if rc > 0 then (1, s', w')
          else position_segments E r dir is s' w')"

definition source_position_edge ::
    "reader_env \<Rightarrow> RecorderPlayer \<Rightarrow> IteratorSource \<Rightarrow> world \<Rightarrow> direction \<Rightarrow> int \<times> IteratorSource \<times> world" where
  "source_position_edge E r s w dir =
     (if is_segments s = [] then (0, s, w)
      else position_segments E r dir
             (let order = [0..<length (is_segments s)] in if dir = Forward then order else rev order) s w)"

subsection \<open>What loading keeps\<close>

text \<open>Loading changes neither the segments of a source nor the place it has among them.\<close>

definition same_place :: "IteratorSource \<Rightarrow> IteratorSource \<Rightarrow> bool" where
  "same_place s t \<longleftrightarrow>
     is_segments t = is_segments s \<and> is_segment_index t = is_segment_index s \<and> is_group t = is_group s"

lemma same_place_refl [simp]: "same_place s s"
  by (simp add: same_place_def)

lemma same_place_trans: "same_place s t \<Longrightarrow> same_place t u \<Longrightarrow> same_place s u"
  by (simp add: same_place_def)

lemma source_clear_frame_simps [simp]:
  "is_entries (source_clear_frame s) = []" "is_entry_index (source_clear_frame s) = - 1"
  "is_segments (source_clear_frame s) = is_segments s"
  "is_segment_index (source_clear_frame s) = is_segment_index s"
  "is_frame_count (source_clear_frame s) = is_frame_count s"
  "is_frame_index (source_clear_frame s) = is_frame_index s"
  "is_segment_scan_fallback (source_clear_frame s) = is_segment_scan_fallback s"
  "is_index_reader (source_clear_frame s) = is_index_reader s"
  "is_frame_reader (source_clear_frame s) = is_frame_reader s"
  "is_group (source_clear_frame s) = is_group s"
  "same_place s (source_clear_frame s)"
  by (simp_all add: source_clear_frame_def same_place_def)

lemma source_load_frame_keeps:
  assumes "source_load_frame E r w s i dir = (rc, s')"
  shows "same_place s s'" and "is_frame_count s' = is_frame_count s"
    and "is_segment_scan_fallback s' = is_segment_scan_fallback s"
    and "is_index_reader s' = is_index_reader s"
    and "is_frame_index s' = i \<or> is_frame_index s' = is_frame_index s"
    and "rc \<ge> 0 \<Longrightarrow> is_frame_index s' = i \<and> i < is_frame_count s"
    and "rc = 0 \<or> rc = 1 \<or> rc = - 1"
  using assms unfolding source_load_frame_def
  by (auto simp: Let_def same_place_def split: if_splits option.splits prod.splits sum.splits)

lemma load_frames_keeps:
  "load_frames E r w dir is s = (rc, s') \<Longrightarrow>
   same_place s s' \<and> is_frame_count s' = is_frame_count s \<and>
   is_segment_scan_fallback s' = is_segment_scan_fallback s \<and>
   (is_frame_index s' \<in> set is \<or> is_frame_index s' = is_frame_index s) \<and>
   (rc = 1 \<longrightarrow> is_frame_index s' \<in> set is \<and> is_frame_index s' < is_frame_count s \<and> is_entries s' \<noteq> []) \<and>
   (rc = 0 \<or> rc = 1 \<or> rc = - 1)"
proof (induction "is" arbitrary: s)
  case (Cons i "is")
  obtain rc1 s1 where f: "source_load_frame E r w s i dir = (rc1, s1)" by fastforce
  note k = source_load_frame_keeps [OF f]
  show ?case
  proof (cases "rc1 < 0 \<or> rc1 = 0 \<and> is_entries s1 \<noteq> []")
    case True
    then show ?thesis using Cons.prems f k by (auto split: if_splits)
  next
    case False
    then have "load_frames E r w dir is s1 = (rc, s')" using Cons.prems f by (simp split: if_splits)
    from Cons.IH [OF this] show ?thesis using k by (auto intro: same_place_trans)
  qed
qed simp

lemma frame_order_bounds:
  "i \<in> set (frame_order n k dir) \<Longrightarrow>
   if dir = Forward then k \<le> i \<and> (k < n \<longrightarrow> i < n) else i \<le> k"
  by (auto simp: frame_order_def split: if_splits)

lemma source_load_indexed_from_keeps:
  assumes "source_load_indexed_from E r w s k dir = (rc, s')" and "is_frame_index s = k"
  shows "same_place s s'" and "is_frame_count s' = is_frame_count s"
    and "is_segment_scan_fallback s' = is_segment_scan_fallback s"
    and "if dir = Forward then k \<le> is_frame_index s' \<and> (k < is_frame_count s \<longrightarrow> is_frame_index s' < is_frame_count s)
      else is_frame_index s' \<le> k"
    and "rc = 1 \<Longrightarrow> is_frame_index s' < is_frame_count s \<and> is_entries s' \<noteq> []"
    and "rc = 0 \<or> rc = 1 \<or> rc = - 1"
  using load_frames_keeps [OF assms(1) [unfolded source_load_indexed_from_def]] assms(2)
    frame_order_bounds [of _ "is_frame_count s" k dir]
  by (auto split: if_splits)

lemma source_load_segment_fallback_keeps:
  assumes "source_load_segment_fallback E r w s dir = (rc, s')"
  shows "same_place s s'" and "is_frame_index s' = is_frame_index s"
    and "is_segment_scan_fallback s' \<or>
      is_segment_scan_fallback s' = is_segment_scan_fallback s \<and> is_frame_count s' = is_frame_count s \<and> rc \<le> 0"
    and "rc = 0 \<or> rc = 1 \<or> rc = - 1"
  using assms unfolding source_load_segment_fallback_def
  by (auto simp: Let_def same_place_def split: if_splits prod.splits sum.splits)

lemma source_position_fallback_after_keeps:
  assumes "source_position_fallback_after E r w s p dir = (rc, s')"
  shows "same_place s s'" and "is_frame_index s' = is_frame_index s"
    and "is_segment_scan_fallback s' \<or>
      is_segment_scan_fallback s' = is_segment_scan_fallback s \<and> is_frame_count s' = is_frame_count s"
    and "rc = 0 \<or> rc = 1 \<or> rc = - 1"
proof -
  obtain rc1 s1 where f: "source_load_segment_fallback E r w s dir = (rc1, s1)" by fastforce
  show "same_place s s'" "is_frame_index s' = is_frame_index s"
    "is_segment_scan_fallback s' \<or>
      is_segment_scan_fallback s' = is_segment_scan_fallback s \<and> is_frame_count s' = is_frame_count s"
    "rc = 0 \<or> rc = 1 \<or> rc = - 1"
    using assms source_load_segment_fallback_keeps [OF f] f unfolding source_position_fallback_after_def
    by (auto simp: Let_def same_place_def split: if_splits option.splits)
qed

lemma source_load_index_keeps:
  "source_load_index E r s w = (ok, s', w') \<Longrightarrow> same_place s s'"
  unfolding source_load_index_def
  by (auto simp: Let_def same_place_def split: if_splits prod.splits sum.splits option.splits bool.splits)

lemma source_load_segment_edge_keeps:
  assumes "source_load_segment_edge E r s w dir = (rc, s', w')"
  shows "same_place s s'" and "rc = 0 \<or> rc = 1 \<or> rc = - 1"
proof -
  obtain ok s1 w1 where i: "source_load_index E r s w = (ok, s1, w1)" by (metis prod_cases3)
  let ?k = "if dir = Forward then 0 else is_frame_count s1 - 1"
  obtain rc2 s2 where f: "source_load_indexed_from E r w1 s1 ?k dir = (rc2, s2)" by fastforce
  obtain rc3 s3 where l: "source_load_segment_fallback E r w1 s2 dir = (rc3, s3)" by fastforce
  obtain rc4 s4 where l': "source_load_segment_fallback E r w1 s1 dir = (rc4, s4)" by fastforce
  have k: "same_place s1 s2 \<and> (rc2 = 0 \<or> rc2 = 1 \<or> rc2 = - 1)"
    using load_frames_keeps [OF f [unfolded source_load_indexed_from_def]] by blast
  note keeps = source_load_index_keeps [OF i] k source_load_segment_fallback_keeps(1,4) [OF l]
    source_load_segment_fallback_keeps(1,4) [OF l']
  show "same_place s s'" "rc = 0 \<or> rc = 1 \<or> rc = - 1"
    using assms keeps i f l l' unfolding source_load_segment_edge_def
    by (auto split: bool.splits if_splits intro: same_place_trans)
qed

subsection \<open>Advancing\<close>

text \<open>
  How far a source still has to go: the segments and, in the current one, the frames it may yet
  load. The counters wrap like \<^verbatim>\<open>size_t\<close>, and \<^verbatim>\<open>step_exists\<close> takes a count for what a
  \<^verbatim>\<open>size_t\<close> can hold.
\<close>

definition left_of :: "direction \<Rightarrow> nat \<Rightarrow> nat \<Rightarrow> nat" where
  "left_of dir n i = (if dir = Forward then if i = SIZE_MAX then n + 1 else n - i else i)"

definition segments_left :: "direction \<Rightarrow> IteratorSource \<Rightarrow> nat" where
  "segments_left dir s = left_of dir (length (is_segments s)) (is_segment_index s)"

definition frames_left :: "direction \<Rightarrow> IteratorSource \<Rightarrow> nat" where
  "frames_left dir s =
     (if is_segment_scan_fallback s then 0 else 1 + left_of dir (is_frame_count s) (is_frame_index s))"

definition step_index :: "direction \<Rightarrow> nat \<Rightarrow> nat" where
  "step_index dir i = (if dir = Forward then size_inc i else size_dec i)"

definition step_exists :: "direction \<Rightarrow> nat \<Rightarrow> nat \<Rightarrow> bool" where
  "step_exists dir n i \<longleftrightarrow> (if dir = Forward then size_inc i < n \<and> n \<le> SIZE_MAX else i > 0)"

lemma step_left:
  assumes "step_exists dir n i" and "if dir = Forward then step_index dir i \<le> j \<and> j < n
    else j \<le> step_index dir i"
  shows "left_of dir n j < left_of dir n i"
  using assms by (auto simp: step_exists_def step_index_def left_of_def size_inc_def size_dec_def split: if_splits)

lemma step_left_self: "step_exists dir n i \<Longrightarrow> left_of dir n (step_index dir i) < left_of dir n i"
  by (rule step_left) (auto simp: step_exists_def step_index_def)

text \<open>The increments in the loop condition: a materialised segment has no frame to step to.\<close>

definition bump_frame :: "direction \<Rightarrow> IteratorSource \<Rightarrow> IteratorSource" where
  "bump_frame dir s =
     (if is_segment_scan_fallback s then s
      else s\<lparr>is_frame_index := step_index dir (is_frame_index s)\<rparr>)"

lemma segments_left_bump [simp]: "segments_left dir (bump_frame dir s) = segments_left dir s"
  by (simp add: bump_frame_def segments_left_def)

lemma advance_frame_left:
  assumes "\<not> is_segment_scan_fallback s" and "step_exists dir (is_frame_count s) (is_frame_index s)"
    and "(rc, s2) = source_load_indexed_from E r w (bump_frame dir s) (is_frame_index (bump_frame dir s)) dir"
  shows "segments_left dir s2 = segments_left dir s" and "frames_left dir s2 < frames_left dir s"
proof -
  have b: "bump_frame dir s = s\<lparr>is_frame_index := step_index dir (is_frame_index s)\<rparr>"
    using assms(1) by (simp add: bump_frame_def)
  note k = source_load_indexed_from_keeps [OF assms(3) [symmetric] refl, unfolded b, simplified]
  show "segments_left dir s2 = segments_left dir s"
    using k(1) by (simp add: segments_left_def same_place_def)
  have "step_index dir (is_frame_index s) < is_frame_count s" if "dir = Forward"
    using assms(2) that by (simp add: step_exists_def step_index_def)
  then have "left_of dir (is_frame_count s) (is_frame_index s2) < left_of dir (is_frame_count s) (is_frame_index s)"
    using k(4) by (intro step_left [OF assms(2)]) auto
  then show "frames_left dir s2 < frames_left dir s"
    using k(2,3) assms(1) by (simp add: frames_left_def)
qed

lemma advance_fallback_left:
  assumes "\<not> is_segment_scan_fallback s" and "step_exists dir (is_frame_count s) (is_frame_index s)"
    and "(rc, s2) = source_load_indexed_from E r w (bump_frame dir s) (is_frame_index (bump_frame dir s)) dir"
    and "(rc', s3) = source_position_fallback_after E r w s2 p dir"
  shows "segments_left dir s3 = segments_left dir s" and "frames_left dir s3 < frames_left dir s"
  using advance_frame_left [OF assms(1-3)] source_position_fallback_after_keeps [OF assms(4) [symmetric]]
  by (auto simp: segments_left_def frames_left_def same_place_def split: if_splits)

lemma advance_segment_left:
  assumes "step_exists dir (length (is_segments s)) (is_segment_index s)"
    and "(rc, s3, w') = source_load_segment_edge E r (s\<lparr>is_segment_index := step_index dir (is_segment_index s)\<rparr>) w dir"
  shows "segments_left dir s3 < segments_left dir s"
  using source_load_segment_edge_keeps(1) [OF assms(2) [symmetric]] step_left_self [OF assms(1)]
  by (simp add: segments_left_def same_place_def)

function source_advance_loop ::
    "reader_env \<Rightarrow> RecorderPlayer \<Rightarrow> direction \<Rightarrow> RecorderEntry \<Rightarrow> IteratorSource \<Rightarrow> world \<Rightarrow>
     int \<times> IteratorSource \<times> world" where
  "source_advance_loop E r dir previous s w =
     (let s1 = bump_frame dir s in
      if \<not> is_segment_scan_fallback s \<and> step_exists dir (is_frame_count s) (is_frame_index s)
      then
        (case source_load_indexed_from E r w s1 (is_frame_index s1) dir of
           (load_rc, s2) \<Rightarrow>
             if load_rc > 0 then (1, s2, w)
             else if load_rc = 0 then source_advance_loop E r dir previous s2 w
             else
               (case source_position_fallback_after E r w s2 previous dir of
                  (rc, s3) \<Rightarrow>
                    if rc \<noteq> 0 then (rc, s3, w) else source_advance_loop E r dir previous s3 w))
      else
        let s2 = s1\<lparr>is_segment_index := step_index dir (is_segment_index s1)\<rparr> in
        if \<not> step_exists dir (length (is_segments s1)) (is_segment_index s1)
        then (0, source_clear_frame s2, w)
        else
          (case source_load_segment_edge E r s2 w dir of
             (rc, s3, w') \<Rightarrow>
               if rc < 0 then (- 1, s3, w')
               else if rc > 0 then (1, s3, w')
               else source_advance_loop E r dir previous s3 w'))"
  by pat_completeness auto
termination
  by (relation "measures [\<lambda>(E, r, dir, p, s, w). segments_left dir s, \<lambda>(E, r, dir, p, s, w). frames_left dir s]")
    (auto dest: advance_segment_left advance_frame_left advance_fallback_left)

declare source_advance_loop.simps [simp del]

text \<open>
  The key for a fallback is the entry the source came from: the last or the first of the frame
  it leaves. A source that holds entries always has one.
\<close>

definition source_advance ::
    "reader_env \<Rightarrow> RecorderPlayer \<Rightarrow> direction \<Rightarrow> IteratorSource \<Rightarrow> world \<Rightarrow> int \<times> IteratorSource \<times> world" where
  "source_advance E r dir s w =
     (if is_entries s = [] then (0, s, w)
      else
        let s1 = s\<lparr>is_entry_index := is_entry_index s + (if dir = Forward then 1 else - 1)\<rparr> in
        if source_has_current s1 then (1, s1, w)
        else source_advance_loop E r dir
               (if dir = Forward then last (is_entries s) else hd (is_entries s)) s1 w)"

subsection \<open>Advancing ends\<close>

definition closer :: "direction \<Rightarrow> IteratorSource \<Rightarrow> IteratorSource \<Rightarrow> bool" where
  "closer dir t s \<longleftrightarrow>
     segments_left dir t < segments_left dir s \<or>
     segments_left dir t = segments_left dir s \<and> frames_left dir t < frames_left dir s"

text \<open>The runs of the loop, branch by branch, for proofs by rule induction.\<close>

inductive advance_run ::
    "reader_env \<Rightarrow> RecorderPlayer \<Rightarrow> direction \<Rightarrow> RecorderEntry \<Rightarrow> IteratorSource \<Rightarrow> world \<Rightarrow>
     int \<Rightarrow> IteratorSource \<Rightarrow> world \<Rightarrow> bool" for E r dir p where
  run_frame: "\<not> is_segment_scan_fallback s \<Longrightarrow> step_exists dir (is_frame_count s) (is_frame_index s) \<Longrightarrow>
    source_load_indexed_from E r w (bump_frame dir s) (is_frame_index (bump_frame dir s)) dir = (rc, s2) \<Longrightarrow>
    rc > 0 \<Longrightarrow> advance_run E r dir p s w 1 s2 w"
| run_frame_empty: "\<not> is_segment_scan_fallback s \<Longrightarrow> step_exists dir (is_frame_count s) (is_frame_index s) \<Longrightarrow>
    source_load_indexed_from E r w (bump_frame dir s) (is_frame_index (bump_frame dir s)) dir = (0, s2) \<Longrightarrow>
    advance_run E r dir p s2 w rc' s' w' \<Longrightarrow> advance_run E r dir p s w rc' s' w'"
| run_fallback: "\<not> is_segment_scan_fallback s \<Longrightarrow> step_exists dir (is_frame_count s) (is_frame_index s) \<Longrightarrow>
    source_load_indexed_from E r w (bump_frame dir s) (is_frame_index (bump_frame dir s)) dir = (rc, s2) \<Longrightarrow>
    rc < 0 \<Longrightarrow> source_position_fallback_after E r w s2 p dir = (rc', s3) \<Longrightarrow> rc' \<noteq> 0 \<Longrightarrow>
    advance_run E r dir p s w rc' s3 w"
| run_fallback_empty: "\<not> is_segment_scan_fallback s \<Longrightarrow> step_exists dir (is_frame_count s) (is_frame_index s) \<Longrightarrow>
    source_load_indexed_from E r w (bump_frame dir s) (is_frame_index (bump_frame dir s)) dir = (rc, s2) \<Longrightarrow>
    rc < 0 \<Longrightarrow> source_position_fallback_after E r w s2 p dir = (0, s3) \<Longrightarrow>
    advance_run E r dir p s3 w rc' s' w' \<Longrightarrow> advance_run E r dir p s w rc' s' w'"
| run_end: "is_segment_scan_fallback s \<or> \<not> step_exists dir (is_frame_count s) (is_frame_index s) \<Longrightarrow>
    b = bump_frame dir s \<Longrightarrow> \<not> step_exists dir (length (is_segments b)) (is_segment_index b) \<Longrightarrow>
    s' = source_clear_frame (b\<lparr>is_segment_index := step_index dir (is_segment_index b)\<rparr>) \<Longrightarrow>
    advance_run E r dir p s w 0 s' w"
| run_segment: "is_segment_scan_fallback s \<or> \<not> step_exists dir (is_frame_count s) (is_frame_index s) \<Longrightarrow>
    b = bump_frame dir s \<Longrightarrow> step_exists dir (length (is_segments b)) (is_segment_index b) \<Longrightarrow>
    source_load_segment_edge E r (b\<lparr>is_segment_index := step_index dir (is_segment_index b)\<rparr>) w dir = (rc, s3, w') \<Longrightarrow>
    rc \<noteq> 0 \<Longrightarrow> rc' = (if rc < 0 then - 1 else 1) \<Longrightarrow> advance_run E r dir p s w rc' s3 w'"
| run_segment_empty: "is_segment_scan_fallback s \<or> \<not> step_exists dir (is_frame_count s) (is_frame_index s) \<Longrightarrow>
    b = bump_frame dir s \<Longrightarrow> step_exists dir (length (is_segments b)) (is_segment_index b) \<Longrightarrow>
    source_load_segment_edge E r (b\<lparr>is_segment_index := step_index dir (is_segment_index b)\<rparr>) w dir = (0, s3, w3) \<Longrightarrow>
    advance_run E r dir p s3 w3 rc' s' w' \<Longrightarrow> advance_run E r dir p s w rc' s' w'"

lemma source_advance_loop_run:
  "source_advance_loop E r dir p s w = (rc, s', w') \<Longrightarrow> advance_run E r dir p s w rc s' w'"
proof (induction E r dir p s w rule: source_advance_loop.induct)
  case (1 E r dir p s w)
  let ?b = "bump_frame dir s"
  show ?case
  proof (cases "\<not> is_segment_scan_fallback s \<and> step_exists dir (is_frame_count s) (is_frame_index s)")
    case True
    obtain rc2 s2 where l: "source_load_indexed_from E r w ?b (is_frame_index ?b) dir = (rc2, s2)"
      by (metis surj_pair)
    obtain rc3 s3 where f: "source_position_fallback_after E r w s2 p dir = (rc3, s3)" by (metis surj_pair)
    consider "rc2 > 0" "rc = 1" "s' = s2" "w' = w"
      | "rc2 = 0" "source_advance_loop E r dir p s2 w = (rc, s', w')"
      | "rc2 < 0" "rc3 \<noteq> 0" "rc = rc3" "s' = s3" "w' = w"
      | "rc2 < 0" "rc3 = 0" "source_advance_loop E r dir p s3 w = (rc, s', w')"
      using "1.prems"(1) True
      by (subst (asm) source_advance_loop.simps) (auto simp: Let_def l f split: if_splits)
    then show ?thesis
    proof cases
      case 1
      then show ?thesis using True l by (auto intro: run_frame)
    next
      case 2
      then show ?thesis using "1.IH"(1) [OF refl True l [symmetric]] True l by (auto intro: run_frame_empty)
    next
      case 3
      then show ?thesis using True l f by (auto intro: run_fallback)
    next
      case 4
      then show ?thesis using "1.IH"(2) [OF refl True l [symmetric] _ _ f [symmetric]] True l f
        by (auto intro: run_fallback_empty)
    qed
  next
    case False
    let ?s2 = "?b\<lparr>is_segment_index := step_index dir (is_segment_index ?b)\<rparr>"
    obtain rc3 s3 w3 where e: "source_load_segment_edge E r ?s2 w dir = (rc3, s3, w3)" by (metis prod_cases3)
    consider "\<not> step_exists dir (length (is_segments ?b)) (is_segment_index ?b)" "rc = 0"
        "s' = source_clear_frame ?s2" "w' = w"
      | "step_exists dir (length (is_segments ?b)) (is_segment_index ?b)" "rc3 \<noteq> 0"
        "rc = (if rc3 < 0 then - 1 else 1)" "s' = s3" "w' = w3"
      | "step_exists dir (length (is_segments ?b)) (is_segment_index ?b)" "rc3 = 0"
        "source_advance_loop E r dir p s3 w3 = (rc, s', w')"
      using "1.prems"(1) False
      by (subst (asm) source_advance_loop.simps) (auto simp: Let_def e split: if_splits)
    then show ?thesis
    proof cases
      case 1
      then show ?thesis using False by (auto intro: run_end)
    next
      case 2
      then show ?thesis using False e by (auto intro: run_segment)
    next
      case 3
      then show ?thesis using "1.IH"(3) [OF refl False refl _ e [symmetric] refl] False e
        by (auto intro: run_segment_empty)
    qed
  qed
qed

lemma advance_run_closer: "advance_run E r dir p s w rc s' w' \<Longrightarrow> rc > 0 \<Longrightarrow> closer dir s' s"
proof (induction rule: advance_run.induct)
  case (run_frame s w rc s2)
  then show ?case using advance_frame_left [of s dir rc s2 E r w] by (auto simp: closer_def)
next
  case (run_frame_empty s w s2 rc' s' w')
  then show ?case using advance_frame_left [of s dir 0 s2 E r w] by (auto simp: closer_def)
next
  case (run_fallback s w rc s2 rc' s3)
  then show ?case using advance_fallback_left [of s dir rc s2 E r w rc' s3 p] by (auto simp: closer_def)
next
  case (run_fallback_empty s w rc s2 s3 rc' s' w')
  then show ?case using advance_fallback_left [of s dir rc s2 E r w 0 s3 p] by (auto simp: closer_def)
next
  case (run_segment s b w rc s3 w' rc')
  then show ?case using advance_segment_left [of dir b rc s3 w' E r w] by (auto simp: closer_def)
next
  case (run_segment_empty s b w s3 w3 rc' s' w')
  then show ?case using advance_segment_left [of dir b 0 s3 w3 E r w] by (auto simp: closer_def)
qed simp

lemma advance_run_exhausted: "advance_run E r dir p s w rc s' w' \<Longrightarrow> rc = 0 \<Longrightarrow> \<not> source_has_current s'"
  by (induction rule: advance_run.induct) (auto simp: source_has_current_def split: if_splits)

lemma advance_run_result: "advance_run E r dir p s w rc s' w' \<Longrightarrow> rc = 0 \<or> rc = 1 \<or> rc = - 1"
  by (induction rule: advance_run.induct) (auto dest: source_position_fallback_after_keeps(4))

lemma source_advance_exhausted:
  "source_advance E r dir s w = (0, s', w') \<Longrightarrow> \<not> source_has_current s'"
  by (auto simp: source_advance_def Let_def source_has_current_def split: if_splits
      dest!: source_advance_loop_run advance_run_exhausted)

definition entries_left :: "direction \<Rightarrow> IteratorSource \<Rightarrow> nat" where
  "entries_left dir s =
     (if dir = Forward then nat (int (length (is_entries s)) - is_entry_index s)
      else nat (is_entry_index s + 1))"

definition advance_order :: "direction \<Rightarrow> (IteratorSource \<times> IteratorSource) set" where
  "advance_order dir = measures [segments_left dir, frames_left dir, entries_left dir]"

lemma wf_advance_order [simp]: "wf (advance_order dir)"
  by (simp add: advance_order_def)

lemma source_advance_progress:
  assumes "source_advance E r dir s w = (rc, s', w')" and "rc > 0"
  shows "(s', s) \<in> advance_order dir"
proof -
  let ?s1 = "s\<lparr>is_entry_index := is_entry_index s + (if dir = Forward then 1 else - 1)\<rparr>"
  have same: "segments_left dir ?s1 = segments_left dir s" "frames_left dir ?s1 = frames_left dir s"
    by (simp_all add: segments_left_def frames_left_def)
  show ?thesis
  proof (cases "source_has_current ?s1")
    case True
    then have "entries_left dir ?s1 < entries_left dir s"
      by (auto simp: entries_left_def source_has_current_def)
    then show ?thesis
      using assms True same by (auto simp: source_advance_def advance_order_def split: if_splits)
  next
    case False
    then obtain p where "source_advance_loop E r dir p ?s1 w = (rc, s', w')"
      using assms by (auto simp: source_advance_def Let_def split: if_splits)
    from advance_run_closer [OF source_advance_loop_run [OF this] assms(2)] show ?thesis
      by (auto simp: closer_def same advance_order_def)
  qed
qed

lemma source_advance_descends:
  "(rc, s', w') = source_advance E r dir s w \<Longrightarrow> \<not> rc < 0 \<Longrightarrow> rc \<noteq> 0 \<Longrightarrow> (s', s) \<in> advance_order dir"
  by (rule source_advance_progress) (auto intro: sym)

text \<open>
  The loops that advance a source past entries: they stop at the first entry that fails the
  test, at an error, or when the source has nothing left.
\<close>

function skip_while ::
    "reader_env \<Rightarrow> RecorderPlayer \<Rightarrow> direction \<Rightarrow> (RecorderEntry \<Rightarrow> bool) \<Rightarrow> IteratorSource \<Rightarrow> world \<Rightarrow>
     bool \<times> IteratorSource \<times> world" where
  "skip_while E r dir test s w =
     (if source_has_current s \<and> test (source_current s)
      then (case source_advance E r dir s w of
              (rc, s', w') \<Rightarrow>
                if rc < 0 then (False, s', w')
                else if rc = 0 then (True, s', w')
                else skip_while E r dir test s' w')
      else (True, s, w))"
  by pat_completeness auto
termination
  by (relation "inv_image {(t, s). \<exists>dir. fst t = dir \<and> fst s = dir \<and> (snd t, snd s) \<in> advance_order dir}
        (\<lambda>(E, r, dir, test, s, w). (dir, s))")
    (auto dest: source_advance_descends intro: wf_subset [OF wf_same_fst [of "\<lambda>_. True" advance_order]]
      simp: same_fst_def)

declare skip_while.simps [simp del]

subsection \<open>Seeking in a source\<close>

text \<open>
  A lookup in the index of one segment, repeated once after a successful repair; the flag says
  that the first lookup failed, which moves \<^verbatim>\<open>segment_index\<close> to the segment. A segment whose
  name has no index path is never repaired here; the code hands \<^verbatim>\<open>source_repair_index\<close> an
  uninitialised path for it.
\<close>

definition find_in_index ::
    "(byte list option \<Rightarrow> byte list option \<Rightarrow> u64 \<Rightarrow> find_result) \<Rightarrow> reader_env \<Rightarrow> RecorderPlayer \<Rightarrow>
     IteratorSource \<Rightarrow> u64 \<Rightarrow> world \<Rightarrow> find_result \<times> bool \<times> world" where
  "find_in_index lookup E r s usec w =
     (case segment_index_path (source_path s) 512 of
        None \<Rightarrow> (FindError, True, w)
      | Some index_path \<Rightarrow>
          (case lookup (read_file index_path w) (read_file (source_path s) w) usec of
             FindError \<Rightarrow>
               (case source_repair_index E r s index_path w of
                  (False, w') \<Rightarrow> (FindError, True, w')
                | (True, w') \<Rightarrow>
                    (lookup (read_file index_path w') (read_file (source_path s) w') usec, True, w'))
           | found \<Rightarrow> (found, False, w)))"

fun seek_realtime_segments ::
    "reader_env \<Rightarrow> RecorderPlayer \<Rightarrow> u64 \<Rightarrow> nat list \<Rightarrow> IteratorSource \<Rightarrow> world \<Rightarrow>
     bool \<times> IteratorSource \<times> world" where
  "seek_realtime_segments E r usec [] s w = (True, s, w)"
| "seek_realtime_segments E r usec (i # is) s w =
     (let at = s\<lparr>is_segment_index := i\<rparr>;
          reached = (\<lambda>e. re_realtime_ts e \<ge> usec)
      in
      case find_in_index index_find_realtime_frame E r at usec w of
        (NotFound, failed_once, w') \<Rightarrow>
          seek_realtime_segments E r usec is (if failed_once then at else s) w'
      | (FindError, _, w') \<Rightarrow>
          (case source_load_segment_fallback E r w' at Forward of
             (rc, s') \<Rightarrow>
               if rc < 0 then (False, s', w')
               else case find_index reached (is_entries s') of
                      Some j \<Rightarrow> (True, s'\<lparr>is_entry_index := int j\<rparr>, w')
                    | None \<Rightarrow> seek_realtime_segments E r usec is s' w')
      | (Found _ frame_index, _, w') \<Rightarrow>
          (case source_load_index E r at w' of
             (False, s', w'') \<Rightarrow> (False, s', w'')
           | (True, s', w'') \<Rightarrow>
               (case source_load_indexed_from E r w'' s' frame_index Forward of
                  (load_rc, t) \<Rightarrow>
                    if load_rc < 0 then (False, t, w'')
                    else if load_rc = 0 then seek_realtime_segments E r usec is t w''
                    else case find_index reached (is_entries t) of
                           Some j \<Rightarrow> (True, t\<lparr>is_entry_index := int j\<rparr>, w'')
                         | None \<Rightarrow>
                             (case source_advance E r Forward t w'' of
                                (rc, t', w3) \<Rightarrow> (rc \<ge> 0, t', w3)))))"

definition source_seek_realtime ::
    "reader_env \<Rightarrow> RecorderPlayer \<Rightarrow> u64 \<Rightarrow> IteratorSource \<Rightarrow> world \<Rightarrow> bool \<times> IteratorSource \<times> world" where
  "source_seek_realtime E r usec s w =
     seek_realtime_segments E r usec [0..<length (is_segments s)]
       ((source_clear_frame s)\<lparr>is_frame_count := 0\<rparr>) w"

text \<open>The smallest entry behind the key, as the index the loop settles on.\<close>

fun best_after ::
    "(RecorderEntry \<Rightarrow> RecorderEntry \<Rightarrow> int) \<Rightarrow> RecorderEntry \<Rightarrow> RecorderEntry list \<Rightarrow> nat \<Rightarrow>
     (nat \<times> RecorderEntry) option \<Rightarrow> nat option" where
  "best_after cmp key [] j best = map_option fst best"
| "best_after cmp key (e # es) j best =
     best_after cmp key es (j + 1)
       (if cmp e key > 0 \<and> (case best of None \<Rightarrow> True | Some (_, b) \<Rightarrow> cmp e b < 0)
        then Some (j, e) else best)"

fun seek_recorded_segments ::
    "reader_env \<Rightarrow> RecorderPlayer \<Rightarrow> RecorderEntry \<Rightarrow> nat list \<Rightarrow> IteratorSource \<Rightarrow> world \<Rightarrow>
     bool \<times> IteratorSource \<times> world" where
  "seek_recorded_segments E r key [] s w = (True, s, w)"
| "seek_recorded_segments E r key (i # is) s w =
     (let at = s\<lparr>is_segment_index := i\<rparr>; cmp = compare_iterator_entries (rp_order r) in
      case (case read_file (source_path at) w of
              None \<Rightarrow> None | Some buf \<Rightarrow> segment_read_path_header buf) of
        None \<Rightarrow> (False, s, w)
      | Some (header, _, _) \<Rightarrow>
          if sh_boot_seq header < re_boot_seq key then seek_recorded_segments E r key is s w
          else if sh_boot_seq header > re_boot_seq key then
            (case source_load_segment_edge E r at w Forward of
               (rc, s', w') \<Rightarrow>
                 if rc < 0 then (False, s', w')
                 else if rc > 0 then (True, s', w')
                 else seek_recorded_segments E r key is s' w')
          else
            (case find_in_index index_find_monotonic_frame E r at (re_monotonic_ts key) w of
               (NotFound, _, w') \<Rightarrow> seek_recorded_segments E r key is at w'
             | (FindError, _, w') \<Rightarrow>
                 (case source_load_segment_fallback E r w' at Forward of
                    (rc, s') \<Rightarrow>
                      if rc < 0 then (False, s', w')
                      else case best_after cmp key (is_entries s') 0 None of
                             Some j \<Rightarrow> (True, s'\<lparr>is_entry_index := int j\<rparr>, w')
                           | None \<Rightarrow> seek_recorded_segments E r key is s' w')
             | (Found _ frame_index, _, w') \<Rightarrow>
                 (case source_load_index E r at w' of
                    (False, s', w'') \<Rightarrow> (False, s', w'')
                  | (True, s', w'') \<Rightarrow>
                      (case source_load_indexed_from E r w'' s' frame_index Forward of
                         (load_rc, t) \<Rightarrow>
                           if load_rc < 0 then (False, t, w'')
                           else
                             (case skip_while E r Forward (\<lambda>e. cmp e key \<le> 0) t w'' of
                                (ok, t', w3) \<Rightarrow>
                                  if \<not> ok then (False, t', w3)
                                  else if source_has_current t' then (True, t', w3)
                                  else seek_recorded_segments E r key is t' w3)))))"

definition source_seek_recorded_after ::
    "reader_env \<Rightarrow> RecorderPlayer \<Rightarrow> RecorderEntry \<Rightarrow> IteratorSource \<Rightarrow> world \<Rightarrow>
     bool \<times> IteratorSource \<times> world" where
  "source_seek_recorded_after E r key s w =
     seek_recorded_segments E r key [0..<length (is_segments s)]
       ((source_clear_frame s)\<lparr>is_frame_count := 0\<rparr>) w"

definition at_position :: "u64 \<Rightarrow> u32 \<Rightarrow> RecorderEntry \<Rightarrow> bool" where
  "at_position frame_offset frame_entry_index e \<longleftrightarrow>
     re_frame_offset e = frame_offset \<and> re_frame_entry_index e = frame_entry_index"

text \<open>The frame a cursor names, loaded through the index; false where any of its steps fails.\<close>

definition load_cursor_frame ::
    "reader_env \<Rightarrow> RecorderPlayer \<Rightarrow> u64 \<Rightarrow> IteratorSource \<Rightarrow> world \<Rightarrow> bool \<times> IteratorSource \<times> world" where
  "load_cursor_frame E r frame_offset s w =
     (case (case segment_index_path (source_path s) 512 of
              None \<Rightarrow> FindError
            | Some index_path \<Rightarrow>
                index_find_offset_frame (read_file index_path w) (read_file (source_path s) w) frame_offset) of
        Found _ frame_index \<Rightarrow>
          (case source_load_index E r s w of
             (False, s', w') \<Rightarrow> (False, s', w')
           | (True, s', w') \<Rightarrow>
               (case source_load_frame E r w' s' frame_index Forward of (rc, t) \<Rightarrow> (rc = 0, t, w')))
      | _ \<Rightarrow> (False, s, w))"

definition select_position :: "u64 \<Rightarrow> u32 \<Rightarrow> IteratorSource \<Rightarrow> (u64 \<times> IteratorSource) option" where
  "select_position frame_offset frame_entry_index s =
     map_option (\<lambda>j. (re_realtime_ts (is_entries s ! j), s\<lparr>is_entry_index := int j\<rparr>))
       (find_index (at_position frame_offset frame_entry_index) (is_entries s))"

definition source_seek_cursor ::
    "reader_env \<Rightarrow> RecorderPlayer \<Rightarrow> u64 \<Rightarrow> u64 \<Rightarrow> u32 \<Rightarrow> IteratorSource \<Rightarrow> world \<Rightarrow>
     u64 option \<times> IteratorSource \<times> world" where
  "source_seek_cursor E r segment_seq frame_offset frame_entry_index s w =
     (case find_index (\<lambda>p. sp_segment_seq p = segment_seq) (is_segments s) of
        None \<Rightarrow> (None, s, w)
      | Some i \<Rightarrow>
          (case load_cursor_frame E r frame_offset (s\<lparr>is_segment_index := i\<rparr>) w of
             (loaded, s1, w1) \<Rightarrow>
               (case (if loaded then (0, s1) else source_load_segment_fallback E r w1 s1 Forward) of
                  (rc, s2) \<Rightarrow>
                    if rc < 0 then (None, s2, w1)
                    else case select_position frame_offset frame_entry_index s2 of
                      Some (ts, t) \<Rightarrow> (Some ts, t, w1)
                    | None \<Rightarrow>
                        if is_segment_scan_fallback s2 then (None, s2, w1)
                        else
                          (case source_load_segment_fallback E r w1 s2 Forward of
                             (rc', s3) \<Rightarrow>
                               if rc' < 0 then (None, s3, w1)
                               else case select_position frame_offset frame_entry_index s3 of
                                      Some (ts, t) \<Rightarrow> (Some ts, t, w1)
                                    | None \<Rightarrow> (None, s3, w1)))))"

end
