(* ===== verification/Reader_Wallclock.thy ===== *)
theory Reader_Wallclock
  imports Reader_Source
begin

text \<open>
  \<^verbatim>\<open>rec_player_scan_wallclock\<close> of \<^verbatim>\<open>src/librecorder.c\<close>: every segment becomes a source, the ones
  that may be out of realtime order are read and sorted in advance, and a binary heap of source
  numbers merges them.
\<close>

record WallclockSegment =
  ws_path :: SegmentPath
  ws_min_realtime_ts :: u64
  ws_max_realtime_ts :: u64
  ws_needs_sort :: bool
  ws_entries :: "RecorderEntry list"

definition wallclock_segment_metadata ::
    "reader_env \<Rightarrow> RecorderPlayer \<Rightarrow> world \<Rightarrow> WallclockSegment \<Rightarrow> WallclockSegment option" where
  "wallclock_segment_metadata E r w seg =
     (case segment_scan_path (rv_lib E) (read_file (sp_path (ws_path seg)) w) (rp_decryptor r)
             (None :: unit segment_frame_cb option) () of
        (Inl _, _) \<Rightarrow> None
      | (Inr (header, footer, _), _) \<Rightarrow>
          (let min_ts = sh_first_realtime_ts header;
               max_ts = (if ft_present footer \<and> ft_last_realtime_ts footer \<noteq> 0
                         then ft_last_realtime_ts footer else sh_first_realtime_ts header)
           in Some (seg\<lparr>ws_min_realtime_ts := min_ts, ws_max_realtime_ts := max_ts,
                        ws_needs_sort :=
                          (ws_needs_sort seg \<or> max_ts < min_ts \<or> \<not> ft_present footer \<or>
                           ft_flags footer AND SEGMENT_FOOTER_FLAG_REALTIME_NONMONOTONIC \<noteq> 0)\<rparr>)))"

definition append_wallclock_entry :: "RecorderEntry list rec_player_entry_cb" where
  "append_wallclock_entry entry entries = (0, entries @ [entry])"

definition wallclock_load_segment ::
    "reader_env \<Rightarrow> RecorderPlayer \<Rightarrow> world \<Rightarrow> WallclockSegment \<Rightarrow> WallclockSegment option" where
  "wallclock_load_segment E r w seg =
     (case rec_player_scan_file E r w (sp_path (ws_path seg)) append_wallclock_entry (ws_entries seg) 0 of
        (Inl _, _) \<Rightarrow> None
      | (Inr _, entries) \<Rightarrow>
          if entries = [] then Some seg
          else
            (let ts = map re_realtime_ts entries in
             Some (seg\<lparr>ws_min_realtime_ts := foldl (\<lambda>m t. if t < m then t else m) (hd ts) (tl ts),
                       ws_max_realtime_ts := foldl (\<lambda>m t. if t > m then t else m) (hd ts) (tl ts),
                       ws_entries := qsort compare_stored_entries entries\<rparr>)))"

text \<open>
  A segment without entries and without a timestamp is dropped. Its slot of the array is used
  again with \<^verbatim>\<open>needs_sort\<close> as it was left (\<^verbatim>\<open>dirty\<close>).
\<close>

fun wallclock_segments ::
    "reader_env \<Rightarrow> RecorderPlayer \<Rightarrow> world \<Rightarrow> SegmentPath list \<Rightarrow> bool \<Rightarrow> WallclockSegment list \<Rightarrow>
     WallclockSegment list option" where
  "wallclock_segments E r w [] dirty segments = Some segments"
| "wallclock_segments E r w (p # ps) dirty segments =
     (case wallclock_segment_metadata E r w
             \<lparr>ws_path = p, ws_min_realtime_ts = 0, ws_max_realtime_ts = 0,
              ws_needs_sort = dirty, ws_entries = []\<rparr> of
        None \<Rightarrow> None
      | Some seg \<Rightarrow>
          (case (if ws_needs_sort seg then wallclock_load_segment E r w seg else Some seg) of
             None \<Rightarrow> None
           | Some seg' \<Rightarrow>
               if ws_entries seg' \<noteq> [] \<or> ws_min_realtime_ts seg' \<noteq> 0
               then wallclock_segments E r w ps False (segments @ [seg'])
               else wallclock_segments E r w ps (ws_needs_sort seg') segments))"

definition wallclock_prepare_source ::
    "reader_env \<Rightarrow> RecorderPlayer \<Rightarrow> WallclockSegment \<Rightarrow> world \<Rightarrow> int \<times> IteratorSource \<times> world" where
  "wallclock_prepare_source E r seg w =
     (case group_from_path (sp_path (ws_path seg)) (reader_root r) of
        None \<Rightarrow> (- 1, new_source [] [] (- 1), w)
      | Some grp \<Rightarrow>
          (let s = source_add_segment (new_source grp [] (- 1)) (ws_path seg) in
           if ws_needs_sort seg
           then (if ws_entries seg \<noteq> [] then 1 else 0,
                 s\<lparr>is_entries := ws_entries seg, is_segment_scan_fallback := True,
                   is_entry_index := (if ws_entries seg \<noteq> [] then 0 else - 1)\<rparr>, w)
           else
             (case source_load_index E r s w of
                (ok, s1, w1) \<Rightarrow>
                  (case (if ok \<and> is_frame_count s1 \<noteq> 0 then source_load_indexed_from E r w1 s1 0 Forward
                         else (- 1, s1)) of
                     (rc, s2) \<Rightarrow>
                       if rc \<ge> 0 then (rc, s2, w1)
                       else (case source_load_segment_fallback E r w1 s2 Forward of
                               (rc', s3) \<Rightarrow> (rc', s3, w1))))))"

subsection \<open>The heap\<close>

definition wallclock_heap_less :: "IteratorSource list \<Rightarrow> nat \<Rightarrow> nat \<Rightarrow> bool" where
  "wallclock_heap_less sources left right \<longleftrightarrow>
     compare_stored_entries (source_current (sources ! left)) (source_current (sources ! right)) < 0"

definition swap :: "nat \<Rightarrow> nat \<Rightarrow> 'a list \<Rightarrow> 'a list" where
  "swap i j xs = xs[i := xs ! j, j := xs ! i]"

function sift_up :: "(nat \<Rightarrow> nat \<Rightarrow> bool) \<Rightarrow> nat list \<Rightarrow> nat \<Rightarrow> nat list" where
  "sift_up lt heap index =
     (if index = 0 then heap
      else
        let parent = (index - 1) div 2 in
        if \<not> lt (heap ! index) (heap ! parent) then heap
        else sift_up lt (swap index parent heap) parent)"
  by pat_completeness auto
termination
  by (relation "measure (\<lambda>(lt, heap, index). index)") auto

declare sift_up.simps [simp del]

definition smallest_of :: "(nat \<Rightarrow> nat \<Rightarrow> bool) \<Rightarrow> nat list \<Rightarrow> nat \<Rightarrow> nat" where
  "smallest_of lt heap index =
     (let left = index * 2 + 1;
          right = left + 1;
          smallest = (if left < length heap \<and> lt (heap ! left) (heap ! index) then left else index)
      in if right < length heap \<and> lt (heap ! right) (heap ! smallest) then right else smallest)"

lemma smallest_of_bounds:
  "smallest_of lt heap index \<noteq> index \<Longrightarrow>
   index < smallest_of lt heap index \<and> smallest_of lt heap index < length heap"
  by (auto simp: smallest_of_def Let_def split: if_splits)

function sift_down :: "(nat \<Rightarrow> nat \<Rightarrow> bool) \<Rightarrow> nat list \<Rightarrow> nat \<Rightarrow> nat list" where
  "sift_down lt heap index =
     (let smallest = smallest_of lt heap index in
      if smallest = index then heap else sift_down lt (swap index smallest heap) smallest)"
  by pat_completeness auto
termination
proof (relation "measure (\<lambda>(lt, heap, index). length heap - index)", goal_cases)
  case (2 lt heap index x)
  then show ?case using smallest_of_bounds [of lt heap index] by (auto simp: swap_def)
qed simp

declare sift_down.simps [simp del]

definition wallclock_heap_sift_up :: "IteratorSource list \<Rightarrow> nat list \<Rightarrow> nat \<Rightarrow> nat list" where
  "wallclock_heap_sift_up sources = sift_up (wallclock_heap_less sources)"

definition wallclock_heap_sift_down :: "IteratorSource list \<Rightarrow> nat list \<Rightarrow> nat \<Rightarrow> nat list" where
  "wallclock_heap_sift_down sources = sift_down (wallclock_heap_less sources)"

definition heap_push :: "IteratorSource list \<Rightarrow> nat \<Rightarrow> nat list \<Rightarrow> nat list" where
  "heap_push sources i heap = wallclock_heap_sift_up sources (heap @ [i]) (length heap)"

text \<open>\<^verbatim>\<open>heap[0] = heap[--heap_count]\<close>\<close>

definition heap_drop_root :: "nat list \<Rightarrow> nat list" where
  "heap_drop_root heap = butlast (heap[0 := last heap])"

subsection \<open>The merge\<close>

fun prepare_sources ::
    "reader_env \<Rightarrow> RecorderPlayer \<Rightarrow> WallclockSegment list \<Rightarrow> IteratorSource list \<Rightarrow> nat list \<Rightarrow> world \<Rightarrow>
     bool \<times> IteratorSource list \<times> nat list \<times> world" where
  "prepare_sources E r [] sources heap w = (True, sources, heap, w)"
| "prepare_sources E r (seg # segs) sources heap w =
     (case wallclock_prepare_source E r seg w of
        (prepared, s, w') \<Rightarrow>
          if prepared < 0 then (False, sources @ [s], heap, w')
          else prepare_sources E r segs (sources @ [s])
                 (if prepared > 0 then heap_push (sources @ [s]) (length sources) heap else heap) w')"

text \<open>
  The heap holds numbers of sources; the merge loop ends because every round moves one source
  on or takes it out of the heap.
\<close>

lemma length_swap [simp]: "length (swap i j xs) = length xs"
  by (simp add: swap_def)

lemma length_sift_down [simp]: "length (sift_down lt heap index) = length heap"
  by (induction lt heap index rule: sift_down.induct) (subst sift_down.simps, simp add: Let_def)

lemma length_heap_sift_down [simp]: "length (wallclock_heap_sift_down sources heap index) = length heap"
  by (simp add: wallclock_heap_sift_down_def)

lemma length_heap_drop_root [simp]: "length (heap_drop_root heap) = length heap - 1"
  by (simp add: heap_drop_root_def)

lemma mset_update_descends:
  assumes "i < length xs" and "(x, xs ! i) \<in> R"
  shows "(mset (xs[i := x]), mset xs) \<in> mult R"
proof -
  let ?I = "mset xs - {#xs ! i#}"
  have "mset xs = ?I + {#xs ! i#}" using assms(1) by simp
  moreover have "mset (xs[i := x]) = ?I + {#x#}" using assms(1) by (simp add: mset_update)
  moreover have "(?I + {#x#}, ?I + {#xs ! i#}) \<in> mult R"
    by (rule one_step_implies_mult) (use assms(2) in auto)
  ultimately show ?thesis by simp
qed

lemma advance_round_descends:
  assumes "(rc, s, w') = source_advance E r Forward (sources ! i) w" and "i < length sources" and "\<not> rc < 0"
    and "source_has_current s"
  shows "(mset (sources[i := s]), mset sources) \<in> mult (advance_order Forward)"
proof (rule mset_update_descends [OF assms(2)])
  have "rc \<noteq> 0" using source_advance_exhausted [of E r Forward "sources ! i" w s w'] assms by auto
  with assms show "(s, sources ! i) \<in> advance_order Forward" by (intro source_advance_descends)
qed

function wallclock_merge ::
    "reader_env \<Rightarrow> RecorderPlayer \<Rightarrow> 'u rec_player_entry_cb \<Rightarrow> IteratorSource list \<Rightarrow> nat list \<Rightarrow> world \<Rightarrow> 'u \<Rightarrow>
     bool \<times> 'u \<times> world" where
  "wallclock_merge E r callback sources heap w u =
     (if heap = [] then (True, u, w)
      else
        let i = hd heap in
        if i \<ge> length sources then (False, u, w)
        else
          case callback (source_current (sources ! i)) u of
            (rv, u') \<Rightarrow>
              if rv \<noteq> 0 then (False, u', w)
              else
                (case source_advance E r Forward (sources ! i) w of
                   (rc, s, w') \<Rightarrow>
                     if rc < 0 then (False, u', w')
                     else
                       let sources' = sources[i := s];
                           heap' = (if source_has_current s then heap else heap_drop_root heap)
                       in wallclock_merge E r callback sources'
                            (if heap' \<noteq> [] then wallclock_heap_sift_down sources' heap' 0 else heap') w' u'))"
  by pat_completeness auto
termination
  by (relation "inv_image (less_than <*lex*> mult (advance_order Forward))
        (\<lambda>(E, r, callback, sources, heap, w, u). (length heap, mset sources))")
    (auto simp: wf_lex_prod wf_mult Let_def advance_round_descends not_le)

declare wallclock_merge.simps [simp del]

definition rec_player_scan_wallclock ::
    "reader_env \<Rightarrow> RecorderPlayer \<Rightarrow> world \<Rightarrow> 'u rec_player_entry_cb \<Rightarrow> 'u \<Rightarrow> bool \<times> 'u \<times> world" where
  "rec_player_scan_wallclock E r w callback u =
     (case reader_paths r w of
        None \<Rightarrow> (False, u, w)
      | Some paths \<Rightarrow>
          (case wallclock_segments E r w paths False [] of
             None \<Rightarrow> (False, u, w)
           | Some segments \<Rightarrow>
               (case prepare_sources E r segments [] [] w of
                  (False, _, _, w') \<Rightarrow> (False, u, w')
                | (True, sources, heap, w') \<Rightarrow> wallclock_merge E r callback sources heap w' u)))"

end
