(* ===== verification/Wallclock_Props.thy ===== *)
theory Wallclock_Props
  imports Reader_Wallclock
begin

text \<open>
  The merge of \<^verbatim>\<open>rec_player_scan_wallclock\<close>: a reference definition of merging, the binary heap
  and its invariant over any order of the elements, and the merge loop over the sources.
\<close>

subsection \<open>Merging\<close>

text \<open>A merge takes a least head of the streams again and again until all are empty.\<close>

inductive merges :: "('a \<Rightarrow> 'a \<Rightarrow> int) \<Rightarrow> 'a list list \<Rightarrow> 'a list \<Rightarrow> bool" for cmp where
  merges_nil: "list_all (\<lambda>s. s = []) streams \<Longrightarrow> merges cmp streams []"
| merges_step: "i < length streams \<Longrightarrow> streams ! i = x # xs \<Longrightarrow>
    (\<And>j y ys. j < length streams \<Longrightarrow> streams ! j = y # ys \<Longrightarrow> cmp x y \<le> 0) \<Longrightarrow>
    merges cmp (streams[i := xs]) out \<Longrightarrow> merges cmp streams (x # out)"

lemma mset_concat_update:
  "i < length xss \<Longrightarrow> xss ! i = x # xs \<Longrightarrow> mset (concat xss) = add_mset x (mset (concat (xss[i := xs])))"
  by (induction xss arbitrary: i) (auto simp: nth_Cons split: nat.splits)

lemma merges_mset: "merges cmp streams out \<Longrightarrow> mset out = mset (concat streams)"
proof (induction rule: merges.induct)
  case (merges_nil streams)
  then show ?case by (induction streams) auto
next
  case (merges_step i streams x xs out)
  then show ?case by (simp add: mset_concat_update)
qed

context comparison
begin

lemma merges_sorted:
  "merges cmp streams out \<Longrightarrow> \<forall>s \<in> set streams. sorted_wrt le s \<Longrightarrow> sorted_wrt le out"
proof (induction rule: merges.induct)
  case (merges_step i streams x xs out)
  have "sorted_wrt le (x # xs)" using merges_step.hyps(1,2) merges_step.prems by (metis nth_mem)
  then have tails: "\<forall>s \<in> set (streams[i := xs]). sorted_wrt le s"
    using merges_step.prems set_update_subset_insert [of streams i xs] by auto
  have "le x y" if "y \<in> set out" for y
  proof -
    have "y \<in> set (concat (streams[i := xs]))"
      using that merges_mset [OF merges_step.hyps(4)] by (metis set_mset_mset)
    then have "y \<in> set (concat streams)"
      using mset_concat_update [OF merges_step.hyps(1,2)] by (metis insert_iff set_mset_add_mset_insert set_mset_mset)
    then obtain j where j: "j < length streams" "y \<in> set (streams ! j)"
      by (metis UN_E in_set_conv_nth set_concat)
    then obtain z zs where z: "streams ! j = z # zs" by (cases "streams ! j") auto
    have "sorted_wrt le (z # zs)" using j(1) z merges_step.prems by (metis nth_mem)
    then have "le z y" using j(2) z by auto
    with merges_step.hyps(3) [OF j(1) z] show "le x y" by (rule cmp_trans)
  qed
  with merges_step.IH [OF tails] show ?case by simp
qed simp

end

subsection \<open>The binary heap\<close>

definition parent_of :: "nat \<Rightarrow> nat" where
  "parent_of j = (j - 1) div 2"

definition heap_ordered :: "(nat \<Rightarrow> nat \<Rightarrow> bool) \<Rightarrow> nat list \<Rightarrow> bool" where
  "heap_ordered lt h \<longleftrightarrow> (\<forall>j. 0 < j \<and> j < length h \<longrightarrow> \<not> lt (h ! j) (h ! parent_of j))"

text \<open>A heap that is out of order only above, respectively below, one node.\<close>

definition grandparents_ok :: "(nat \<Rightarrow> nat \<Rightarrow> bool) \<Rightarrow> nat list \<Rightarrow> nat \<Rightarrow> bool" where
  "grandparents_ok lt h i \<longleftrightarrow>
     (\<forall>c. 0 < c \<and> c < length h \<and> parent_of c = i \<and> 0 < i \<longrightarrow> \<not> lt (h ! c) (h ! parent_of i))"

definition ordered_but_up :: "(nat \<Rightarrow> nat \<Rightarrow> bool) \<Rightarrow> nat list \<Rightarrow> nat \<Rightarrow> bool" where
  "ordered_but_up lt h i \<longleftrightarrow> i < length h \<and> grandparents_ok lt h i \<and>
     (\<forall>j. 0 < j \<and> j < length h \<and> j \<noteq> i \<longrightarrow> \<not> lt (h ! j) (h ! parent_of j))"

definition ordered_but_down :: "(nat \<Rightarrow> nat \<Rightarrow> bool) \<Rightarrow> nat list \<Rightarrow> nat \<Rightarrow> bool" where
  "ordered_but_down lt h i \<longleftrightarrow> grandparents_ok lt h i \<and>
     (\<forall>j. 0 < j \<and> j < length h \<and> parent_of j \<noteq> i \<longrightarrow> \<not> lt (h ! j) (h ! parent_of j))"

lemma parent_less: "0 < j \<Longrightarrow> parent_of j < j"
  by (simp add: parent_of_def)

lemma nth_swap:
  "i < length h \<Longrightarrow> j < length h \<Longrightarrow> k < length h \<Longrightarrow>
   swap i j h ! k = (if k = i then h ! j else if k = j then h ! i else h ! k)"
  by (auto simp: swap_def nth_list_update)

lemma mset_swap [simp]: "i < length h \<Longrightarrow> j < length h \<Longrightarrow> mset (swap i j h) = mset h"
  by (simp add: swap_def mset_swap)

lemma mset_sift_up: "i < length h \<Longrightarrow> mset (sift_up lt h i) = mset h"
proof (induction lt h i rule: sift_up.induct)
  case (1 lt h i)
  then show ?case by (subst sift_up.simps) (auto simp: Let_def)
qed

lemma mset_sift_down: "i < length h \<Longrightarrow> mset (sift_down lt h i) = mset h"
proof (induction lt h i rule: sift_down.induct)
  case (1 lt h i)
  show ?case
    by (subst sift_down.simps) (use 1 smallest_of_bounds [of lt h i] in \<open>auto simp: Let_def\<close>)
qed

text \<open>What the heap needs of its order: the negation of \<^verbatim>\<open>lt\<close>, turned around, is a total preorder.\<close>

locale heap_order =
  fixes lt :: "nat \<Rightarrow> nat \<Rightarrow> bool"
  assumes lt_asym: "lt a b \<Longrightarrow> \<not> lt b a"
    and not_lt_trans: "\<not> lt b a \<Longrightarrow> \<not> lt c b \<Longrightarrow> \<not> lt c a"
begin

lemma lt_irrefl: "\<not> lt a a"
  using lt_asym by blast

lemma lt_trans: "lt a b \<Longrightarrow> lt b c \<Longrightarrow> lt a c"
  using lt_asym [of b c] not_lt_trans [of c b a] by blast

lemma root_least: "heap_ordered lt h \<Longrightarrow> j < length h \<Longrightarrow> \<not> lt (h ! j) (h ! 0)"
proof (induction j rule: less_induct)
  case (less j)
  show ?case
  proof (cases "j = 0")
    case True
    then show ?thesis using lt_asym by blast
  next
    case False
    have "\<not> lt (h ! parent_of j) (h ! 0)"
      using less.IH [of "parent_of j"] parent_less [of j] False less.prems by auto
    moreover have "\<not> lt (h ! j) (h ! parent_of j)"
      using less.prems False by (simp add: heap_ordered_def)
    ultimately show ?thesis by (rule not_lt_trans)
  qed
qed

lemma swap_up:
  assumes "ordered_but_up lt h i" and "0 < i" and "lt (h ! i) (h ! parent_of i)"
  shows "ordered_but_up lt (swap i (parent_of i) h) (parent_of i)"
proof -
  let ?p = "parent_of i" and ?h = "swap i (parent_of i) h"
  have p: "?p < i" "i < length h" "?p < length h"
    using assms(1,2) parent_less [of i] by (simp_all add: ordered_but_up_def)
  note nth = nth_swap [of i h ?p]
  have gp: "\<not> lt (h ! c) (h ! ?p)" if "0 < c" "c < length h" "parent_of c = i" for c
    using that assms(1,2) by (simp add: ordered_but_up_def grandparents_ok_def)
  have ok: "\<not> lt (h ! j) (h ! parent_of j)" if "0 < j" "j < length h" "j \<noteq> i" for j
    using that assms(1) by (simp add: ordered_but_up_def)
  have flip: "\<not> lt (h ! ?p) (h ! i)" using assms(3) by (rule lt_asym)
  have "\<not> lt (?h ! j) (?h ! parent_of j)" if j: "0 < j" "j < length h" "j \<noteq> ?p" for j
  proof -
    have q: "parent_of j < j" using j(1) by (rule parent_less)
    consider "j = i" | "j \<noteq> i" "parent_of j = i" | "j \<noteq> i" "parent_of j = ?p"
      | "j \<noteq> i" "parent_of j \<noteq> i" "parent_of j \<noteq> ?p" by blast
    then show ?thesis
    proof cases
      case 1
      then show ?thesis using flip p by (simp add: nth)
    next
      case 2
      then show ?thesis using gp [of j] j p q by (simp add: nth)
    next
      case 3
      have "\<not> lt (h ! j) (h ! ?p)" using ok [of j] j 3 by simp
      with flip have "\<not> lt (h ! j) (h ! i)" by (rule not_lt_trans)
      then show ?thesis using 3 j p by (simp add: nth)
    next
      case 4
      then show ?thesis using ok [of j] j p q by (simp add: nth)
    qed
  qed
  moreover have "grandparents_ok lt ?h ?p"
    unfolding grandparents_ok_def
  proof (intro allI impI)
    fix c assume c: "0 < c \<and> c < length ?h \<and> parent_of c = ?p \<and> 0 < ?p"
    have q: "parent_of ?p < ?p" using parent_less [of ?p] c by simp
    have up: "\<not> lt (h ! ?p) (h ! parent_of ?p)" using ok [of ?p] c p by simp
    have "c \<noteq> ?p" using parent_less [of c] c by auto
    moreover have "\<not> lt (h ! c) (h ! parent_of ?p)" if "c \<noteq> i"
      using ok [of c] c that by (intro not_lt_trans [OF up]) simp
    ultimately show "\<not> lt (?h ! c) (?h ! parent_of ?p)"
      using up c p q by (cases "c = i") (simp_all add: nth)
  qed
  ultimately show ?thesis using p by (simp add: ordered_but_up_def)
qed

lemma sift_up_ordered: "ordered_but_up lt h i \<Longrightarrow> heap_ordered lt (sift_up lt h i)"
proof (induction i arbitrary: h rule: less_induct)
  case (less i)
  show ?case
  proof (cases "i = 0 \<or> \<not> lt (h ! i) (h ! parent_of i)")
    case True
    then have "sift_up lt h i = h" by (subst sift_up.simps) (auto simp: parent_of_def)
    moreover have "\<not> lt (h ! j) (h ! parent_of j)" if "0 < j" "j < length h" for j
      using less.prems True that by (cases "j = i") (auto simp: ordered_but_up_def)
    ultimately show ?thesis by (simp add: heap_ordered_def)
  next
    case False
    then have "sift_up lt h i = sift_up lt (swap i (parent_of i) h) (parent_of i)"
      by (subst sift_up.simps) (auto simp: parent_of_def Let_def)
    with less.IH [OF _ swap_up [OF less.prems]] False parent_less show ?thesis by simp
  qed
qed

lemma smallest_of_least:
  assumes "c < length h" and "0 < c" and "parent_of c = i"
  shows "\<not> lt (h ! c) (h ! smallest_of lt h i)"
proof -
  let ?l = "i * 2 + 1" and ?r = "i * 2 + 1 + 1"
  have c: "c = ?l \<or> c = ?r" using assms(2,3) by (auto simp: parent_of_def)
  have turn: "\<not> lt (h ! ?l) (h ! ?r)" if "lt (h ! ?r) (h ! i)" "\<not> lt (h ! ?l) (h ! i)"
    using not_lt_trans [OF lt_asym [OF that(1)] that(2)] .
  show ?thesis
    using c assms(1) lt_asym [of "h ! ?r" "h ! ?l"] lt_irrefl turn
    by (cases "?l < length h \<and> lt (h ! ?l) (h ! i)"; cases "?r < length h") (auto simp: smallest_of_def Let_def)
qed

lemma smallest_of_child: "smallest_of lt h i \<noteq> i \<Longrightarrow> parent_of (smallest_of lt h i) = i"
  by (auto simp: smallest_of_def Let_def parent_of_def split: if_splits)

lemma smallest_of_lt: "smallest_of lt h i \<noteq> i \<Longrightarrow> lt (h ! smallest_of lt h i) (h ! i)"
  using lt_trans [of "h ! (i * 2 + 1 + 1)" "h ! (i * 2 + 1)" "h ! i"]
  by (auto simp: smallest_of_def Let_def split: if_splits)

lemma swap_down:
  assumes "ordered_but_down lt h i" and "m = smallest_of lt h i" and "m \<noteq> i"
  shows "ordered_but_down lt (swap i m h) m"
proof -
  let ?h = "swap i m h"
  have m: "i < m" "m < length h" "parent_of m = i" "lt (h ! m) (h ! i)"
    using smallest_of_bounds [of lt h i] smallest_of_child [of h i] smallest_of_lt [of h i] assms(2,3) by auto
  note nth = nth_swap [of i h m]
  have gp: "\<not> lt (h ! c) (h ! parent_of i)" if "0 < c" "c < length h" "parent_of c = i" "0 < i" for c
    using that assms(1) by (simp add: ordered_but_down_def grandparents_ok_def)
  have ok: "\<not> lt (h ! j) (h ! parent_of j)" if "0 < j" "j < length h" "parent_of j \<noteq> i" for j
    using that assms(1) by (simp add: ordered_but_down_def)
  have "\<not> lt (?h ! j) (?h ! parent_of j)" if j: "0 < j" "j < length h" "parent_of j \<noteq> m" for j
  proof -
    have q: "parent_of j < j" using j(1) by (rule parent_less)
    consider "j = m" | "j = i" | "j \<noteq> m" "j \<noteq> i" "parent_of j = i" | "j \<noteq> m" "j \<noteq> i" "parent_of j \<noteq> i" by blast
    then show ?thesis
    proof cases
      case 1
      then show ?thesis using lt_asym [OF m(4)] m by (simp add: nth)
    next
      case 2
      then show ?thesis using gp [of m] j m q by (simp add: nth)
    next
      case 3
      then show ?thesis using smallest_of_least [of j h i, folded assms(2)] j m by (simp add: nth)
    next
      case 4
      then show ?thesis using ok [of j] j m q by (simp add: nth)
    qed
  qed
  moreover have "grandparents_ok lt ?h m"
    unfolding grandparents_ok_def
  proof (intro allI impI)
    fix c assume c: "0 < c \<and> c < length ?h \<and> parent_of c = m \<and> 0 < m"
    then have "m < c" using parent_less [of c] by simp
    then show "\<not> lt (?h ! c) (?h ! parent_of m)"
      using ok [of c] c m by (simp add: nth)
  qed
  ultimately show ?thesis by (simp add: ordered_but_down_def)
qed

lemma sift_down_ordered: "ordered_but_down lt h i \<Longrightarrow> heap_ordered lt (sift_down lt h i)"
proof (induction "length h - i" arbitrary: h i rule: less_induct)
  case less
  let ?m = "smallest_of lt h i"
  show ?case
  proof (cases "?m = i")
    case True
    then have "sift_down lt h i = h" by (subst sift_down.simps) simp
    moreover have "\<not> lt (h ! j) (h ! parent_of j)" if "0 < j" "j < length h" for j
      using less.prems True that smallest_of_least [of j h i]
      by (cases "parent_of j = i") (auto simp: ordered_but_down_def)
    ultimately show ?thesis by (simp add: heap_ordered_def)
  next
    case False
    then have "sift_down lt h i = sift_down lt (swap i ?m h) ?m"
      by (subst sift_down.simps) (simp add: Let_def)
    moreover have "length (swap i ?m h) - ?m < length h - i"
      using smallest_of_bounds [OF False] by (auto intro: diff_less_mono2)
    ultimately show ?thesis using less.hyps [OF _ swap_down [OF less.prems refl False]] by simp
  qed
qed

lemma push_ordered: "heap_ordered lt h \<Longrightarrow> heap_ordered lt (sift_up lt (h @ [x]) (length h))"
proof (rule sift_up_ordered)
  assume h: "heap_ordered lt h"
  have "\<not> lt ((h @ [x]) ! j) ((h @ [x]) ! parent_of j)" if "0 < j" "j < length h" for j
    using h that parent_less [of j] by (simp add: heap_ordered_def nth_append)
  moreover have "\<not> (0 < c \<and> c < length (h @ [x]) \<and> parent_of c = length h)" for c
    using parent_less [of c] by auto
  then have "grandparents_ok lt (h @ [x]) (length h)" unfolding grandparents_ok_def by blast
  ultimately show "ordered_but_up lt (h @ [x]) (length h)"
    unfolding ordered_but_up_def by (auto simp: less_Suc_eq)
qed

end

subsection \<open>Sources as streams\<close>

lemma comparison_strcmp: "comparison (\<lambda>x y. strcmp (f x) (f y))"
  by (rule comparison_on) (rule str.comparison_axioms)

interpretation stored: comparison compare_stored_entries
  unfolding compare_stored_entries_def first_nonzero.simps
  by (intro comparison_chain comparison_cmp3 comparison_strcmp comparison_const)

interpretation wallclock: heap_order "wallclock_heap_less sources" for sources
proof
  show "\<not> wallclock_heap_less sources b a" if "wallclock_heap_less sources a b" for a b
    using that stored.cmp_swap [of "source_current (sources ! a)" "source_current (sources ! b)"]
    by (simp add: wallclock_heap_less_def)
  show "\<not> wallclock_heap_less sources c a"
    if "\<not> wallclock_heap_less sources b a" "\<not> wallclock_heap_less sources c b" for a b c
    using that stored.cmp_trans_less stored.le_of_not unfolding wallclock_heap_less_def by blast
qed

text \<open>
  The entries a source still gives, when the file system stays as it is: advancing until it has
  no current entry.
\<close>

inductive yields ::
    "reader_env \<Rightarrow> RecorderPlayer \<Rightarrow> direction \<Rightarrow> world \<Rightarrow> IteratorSource \<Rightarrow> RecorderEntry list \<Rightarrow> bool"
  for E r dir w where
  yields_done: "\<not> source_has_current s \<Longrightarrow> yields E r dir w s []"
| yields_step: "source_has_current s \<Longrightarrow> source_advance E r dir s w = (rc, s', w) \<Longrightarrow> rc \<ge> 0 \<Longrightarrow>
    yields E r dir w s' es \<Longrightarrow> yields E r dir w s (source_current s # es)"

inductive_cases yields_NilE: "yields E r dir w s []"
inductive_cases yields_ConsE: "yields E r dir w s (e # es)"

lemma yields_current: "yields E r dir w s (e # es) \<Longrightarrow> source_has_current s \<and> e = source_current s"
  by (auto elim: yields_ConsE)

text \<open>Without index repair, reading leaves the file system alone.\<close>

lemma source_load_index_world:
  "source_load_index E r s w = (ok, s', w') \<Longrightarrow> \<not> rp_repair_indexes r \<Longrightarrow> w' = w"
  unfolding source_load_index_def
  by (auto simp: Let_def source_repair_index_def split: if_splits prod.splits sum.splits option.splits bool.splits)

lemma source_load_segment_edge_world:
  assumes "source_load_segment_edge E r s w dir = (rc, s', w')" and "\<not> rp_repair_indexes r"
  shows "w' = w"
proof -
  obtain ok s1 w1 where i: "source_load_index E r s w = (ok, s1, w1)" by (metis prod_cases3)
  show ?thesis
    using assms(1) source_load_index_world [OF i assms(2)] i unfolding source_load_segment_edge_def
    by (auto split: bool.splits if_splits prod.splits)
qed

lemma advance_run_world: "advance_run E r dir p s w rc s' w' \<Longrightarrow> \<not> rp_repair_indexes r \<Longrightarrow> w' = w"
  by (induction rule: advance_run.induct) (auto dest: source_load_segment_edge_world)

lemma source_advance_world:
  "source_advance E r dir s w = (rc, s', w') \<Longrightarrow> \<not> rp_repair_indexes r \<Longrightarrow> w' = w"
  by (auto simp: source_advance_def Let_def split: if_splits dest!: source_advance_loop_run advance_run_world)

subsection \<open>The merge loop\<close>

text \<open>The heap orders the numbers of sources that stand on an entry, each of them once.\<close>

definition heap_inv :: "IteratorSource list \<Rightarrow> nat list \<Rightarrow> bool" where
  "heap_inv sources heap \<longleftrightarrow>
     heap_ordered (wallclock_heap_less sources) heap \<and> distinct heap \<and>
     (\<forall>i \<in> set heap. i < length sources \<and> source_has_current (sources ! i))"

lemma heap_drop_root_Cons: "heap_drop_root (i # hs) = (if hs = [] then [] else last hs # butlast hs)"
  by (simp add: heap_drop_root_def)

lemma set_heap_drop_root: "distinct heap \<Longrightarrow> heap \<noteq> [] \<Longrightarrow> set (heap_drop_root heap) = set heap - {hd heap}"
  by (cases heap; cases "tl heap" rule: rev_cases) (auto simp: heap_drop_root_Cons)

lemma distinct_heap_drop_root: "distinct heap \<Longrightarrow> distinct (heap_drop_root heap)"
  by (cases heap; cases "tl heap" rule: rev_cases) (auto simp: heap_drop_root_Cons heap_drop_root_def)

lemma nth_heap_drop_root: "0 < j \<Longrightarrow> j < length (heap_drop_root heap) \<Longrightarrow> heap_drop_root heap ! j = heap ! j"
  by (simp add: heap_drop_root_def nth_butlast)

lemma heap_after_round:
  assumes inv: "heap_inv sources heap" and ne: "heap \<noteq> []" and i: "i = hd heap"
    and heap': "heap' = (if source_has_current s then heap else heap_drop_root heap)"
    and new: "new = (if heap' \<noteq> [] then wallclock_heap_sift_down (sources[i := s]) heap' 0 else heap')"
  shows "heap_inv (sources[i := s]) new"
    and "set new = (if source_has_current s then set heap else set heap - {i})"
proof -
  let ?lt = "wallclock_heap_less (sources[i := s])"
  have root: "heap ! 0 = i" using ne i by (simp add: hd_conv_nth)
  have dist: "distinct heap" and ord: "heap_ordered (wallclock_heap_less sources) heap"
    using inv by (auto simp: heap_inv_def)
  have set': "set heap' = (if source_has_current s then set heap else set heap - {i})"
    using set_heap_drop_root [OF dist ne] heap' i by simp
  have dist': "distinct heap'" using dist distinct_heap_drop_root heap' by simp
  have nth': "heap' ! j = heap ! j" "j < length heap" if "0 < j" "j < length heap'" for j
    using that nth_heap_drop_root [of j heap] heap' by (auto split: if_splits)
  have other: "heap ! j \<noteq> i" if "0 < j" "j < length heap" for j
    using that root dist ne by (metis length_greater_0_conv nth_eq_iff_index_eq order_less_irrefl)
  have "\<not> ?lt (heap' ! j) (heap' ! parent_of j)" if j: "0 < j" "j < length heap'" "parent_of j \<noteq> 0" for j
  proof -
    let ?p = "parent_of j"
    have p: "0 < ?p" "?p < length heap'" using j parent_less [of j] by auto
    have "\<not> wallclock_heap_less sources (heap ! j) (heap ! ?p)"
      using ord j(1) nth'(2) [OF j(1,2)] by (simp add: heap_ordered_def)
    then show ?thesis
      using other [OF j(1) nth'(2) [OF j(1,2)]] other [OF p(1) nth'(2) [OF p]] nth' j p
      by (simp add: wallclock_heap_less_def)
  qed
  then have down: "ordered_but_down ?lt heap' 0"
    by (simp add: ordered_but_down_def grandparents_ok_def)
  have ms: "mset new = mset heap'"
    using new mset_sift_down [of 0 heap' ?lt] by (auto simp: wallclock_heap_sift_down_def)
  then show s: "set new = (if source_has_current s then set heap else set heap - {i})"
    using set' by (metis set_mset_mset)
  have "heap_ordered ?lt new"
    using wallclock.sift_down_ordered [OF down] new
    by (auto simp: wallclock_heap_sift_down_def heap_ordered_def)
  moreover have "distinct new" using ms dist' by (metis mset_eq_imp_distinct_iff)
  moreover have "j < length sources \<and> source_has_current (sources[i := s] ! j)" if "j \<in> set new" for j
    using that s inv by (cases "j = i") (auto simp: heap_inv_def split: if_splits)
  ultimately show "heap_inv (sources[i := s]) new" by (simp add: heap_inv_def)
qed

lemma heap_root_least:
  assumes "heap_inv sources heap" and "j \<in> set heap"
  shows "compare_stored_entries (source_current (sources ! hd heap)) (source_current (sources ! j)) \<le> 0"
proof -
  obtain k where k: "k < length heap" "heap ! k = j" using assms(2) by (auto simp: in_set_conv_nth)
  then have "\<not> wallclock_heap_less sources (heap ! k) (heap ! 0)"
    using assms(1) wallclock.root_least by (auto simp: heap_inv_def)
  then show ?thesis
    using k stored.le_of_not hd_conv_nth [of heap] by (cases heap) (auto simp: wallclock_heap_less_def)
qed

text \<open>The streams of the sources in the heap; the others have nothing to give.\<close>

definition heap_streams ::
    "reader_env \<Rightarrow> RecorderPlayer \<Rightarrow> world \<Rightarrow> IteratorSource list \<Rightarrow> nat list \<Rightarrow> RecorderEntry list list \<Rightarrow> bool" where
  "heap_streams E r w sources heap streams \<longleftrightarrow>
     length streams = length sources \<and>
     (\<forall>i < length sources. if i \<in> set heap then yields E r Forward w (sources ! i) (streams ! i) else streams ! i = [])"

lemma merge_step_streams:
  assumes inv: "heap_inv sources heap" and ne: "heap \<noteq> []" and i: "i = hd heap"
    and adv: "source_advance E r Forward (sources ! i) w = (rc, s, w)" "rc \<ge> 0"
    and new: "set new = (if source_has_current s then set heap else set heap - {i})"
    and str: "heap_streams E r w (sources[i := s]) new streams" and m: "merges compare_stored_entries streams out"
  shows "heap_streams E r w sources heap (streams[i := source_current (sources ! i) # streams ! i])"
    and "merges compare_stored_entries (streams[i := source_current (sources ! i) # streams ! i])
      (source_current (sources ! i) # out)"
proof -
  let ?x = "source_current (sources ! i)" and ?ss = "streams[i := source_current (sources ! i) # streams ! i]"
  have mem: "i \<in> set heap" using ne i by simp
  then have il: "i < length sources" and cur: "source_has_current (sources ! i)"
    using inv by (auto simp: heap_inv_def)
  have len: "length streams = length sources" using str by (simp add: heap_streams_def)
  have "yields E r Forward w s (streams ! i)"
    using str il new mem by (cases "source_has_current s") (auto simp: heap_streams_def intro: yields_done)
  with cur adv have yi: "yields E r Forward w (sources ! i) (?x # streams ! i)" by (intro yields_step)
  have yj: "if j \<in> set heap then yields E r Forward w (sources ! j) (streams ! j) else streams ! j = []"
    if "j < length sources" "j \<noteq> i" for j
    using str that new by (auto simp: heap_streams_def split: if_splits)
  show hs: "heap_streams E r w sources heap ?ss"
    unfolding heap_streams_def
  proof (intro conjI allI impI)
    fix j assume "j < length sources"
    then show "if j \<in> set heap then yields E r Forward w (sources ! j) (?ss ! j) else ?ss ! j = []"
      using yi yj [of j] len mem by (cases "j = i") auto
  qed (simp add: len)
  show "merges compare_stored_entries ?ss (?x # out)"
  proof (rule merges_step [where i = i and xs = "streams ! i"])
    fix j y ys
    assume j: "j < length ?ss" "?ss ! j = y # ys"
    have h: "j \<in> set heap" "yields E r Forward w (sources ! j) (y # ys)"
      using hs j len by (auto simp: heap_streams_def split: if_splits)
    then have "y = source_current (sources ! j)" using yields_current by blast
    then show "compare_stored_entries ?x y \<le> 0" using heap_root_least [OF inv h(1)] i by simp
  qed (use il len m in auto)
qed

lemma wallclock_merge_merges:
  assumes "wallclock_merge E r append_stored_entry sources heap w out = (True, out', w')"
    and "heap_inv sources heap" and "\<not> rp_repair_indexes r"
  shows "w' = w \<and> (\<exists>streams merged. out' = out @ merged \<and> merges compare_stored_entries streams merged \<and>
    heap_streams E r w sources heap streams)"
  using assms
proof (induction E r "append_stored_entry :: RecorderEntry list rec_player_entry_cb" sources heap w out
    rule: wallclock_merge.induct)
  case (1 E r sources heap w out)
  show ?case
  proof (cases "heap = []")
    case True
    then show ?thesis
      using "1.prems" by (subst (asm) wallclock_merge.simps)
        (auto simp: heap_streams_def list_all_iff intro!: exI [of _ "replicate (length sources) []"] merges_nil)
  next
    case False
    let ?i = "hd heap" and ?x = "source_current (sources ! hd heap)"
    have il: "?i < length sources" using "1.prems"(2) False by (simp add: heap_inv_def)
    obtain rc s w1 where adv: "source_advance E r Forward (sources ! ?i) w = (rc, s, w1)" by (metis prod_cases3)
    have w1: "w1 = w" using source_advance_world [OF adv "1.prems"(3)] .
    let ?heap' = "if source_has_current s then heap else heap_drop_root heap"
    let ?new = "if ?heap' \<noteq> [] then wallclock_heap_sift_down (sources[?i := s]) ?heap' 0 else ?heap'"
    have rc: "rc \<ge> 0" and rest: "wallclock_merge E r append_stored_entry (sources[?i := s]) ?new w (out @ [?x]) =
        (True, out', w')"
      using "1.prems"(1) False il adv w1 by (subst (asm) wallclock_merge.simps,
          auto simp: Let_def append_stored_entry_def split: if_splits)+
    note round = heap_after_round [OF "1.prems"(2) False refl refl refl, of s]
    have "w' = w \<and> (\<exists>streams merged. out' = (out @ [?x]) @ merged \<and> merges compare_stored_entries streams merged \<and>
        heap_streams E r w (sources[?i := s]) ?new streams)"
      using "1.hyps" [OF False refl _ _ _ adv [symmetric] refl _ refl refl] il rc rest round(1) "1.prems"(3) w1
      by (simp add: append_stored_entry_def)
    then show ?thesis
      using merge_step_streams [OF "1.prems"(2) False refl _ rc round(2)] adv w1 by fastforce
  qed
qed

text \<open>The converse: when every source in the heap has a stream, the loop runs to its end.\<close>

lemma yields_step_inv:
  assumes "yields E r dir w s es" and "source_has_current s" and "source_advance E r dir s w = (rc, s', w')"
  obtains es' where "rc \<ge> 0" "yields E r dir w s' es'"
  using assms by (auto elim: yields.cases)

lemma wallclock_merge_returns:
  assumes "heap_inv sources heap" and "\<not> rp_repair_indexes r"
    and "\<forall>i \<in> set heap. \<exists>es. yields E r Forward w (sources ! i) es"
  shows "\<exists>out'. wallclock_merge E r append_stored_entry sources heap w out = (True, out', w)"
  using assms
proof (induction E r "append_stored_entry :: RecorderEntry list rec_player_entry_cb" sources heap w out
    rule: wallclock_merge.induct)
  case (1 E r sources heap w out)
  show ?case
  proof (cases "heap = []")
    case True
    then show ?thesis by (subst wallclock_merge.simps) simp
  next
    case False
    let ?i = "hd heap" and ?x = "source_current (sources ! hd heap)"
    have il: "?i < length sources" and cur: "source_has_current (sources ! ?i)"
      using "1.prems"(1) False by (auto simp: heap_inv_def)
    obtain rc s w1 where adv: "source_advance E r Forward (sources ! ?i) w = (rc, s, w1)" by (metis prod_cases3)
    have w1: "w1 = w" using source_advance_world [OF adv "1.prems"(2)] .
    obtain es where es: "rc \<ge> 0" "yields E r Forward w s es"
      using "1.prems"(3) False cur adv by (metis hd_in_set yields_step_inv)
    let ?heap' = "if source_has_current s then heap else heap_drop_root heap"
    let ?new = "if ?heap' \<noteq> [] then wallclock_heap_sift_down (sources[?i := s]) ?heap' 0 else ?heap'"
    note round = heap_after_round [OF "1.prems"(1) False refl refl refl, of s]
    have "\<exists>es. yields E r Forward w (sources[?i := s] ! j) es" if "j \<in> set ?new" for j
      using that round(2) "1.prems"(3) es il by (cases "j = ?i") (auto split: if_splits)
    then have "\<exists>out'. wallclock_merge E r append_stored_entry (sources[?i := s]) ?new w (out @ [?x]) = (True, out', w)"
      using "1.hyps" [OF False refl _ _ _ adv [symmetric] refl _ refl refl] il es round(1) "1.prems"(2) w1
      by (simp add: append_stored_entry_def)
    then show ?thesis
      using False il adv w1 es(1) by (subst wallclock_merge.simps) (auto simp: Let_def append_stored_entry_def)
  qed
qed

subsection \<open>Materialised segments\<close>

text \<open>A source whose only segment was read and sorted in advance gives the sorted entries.\<close>

definition materialised :: "IteratorSource \<Rightarrow> bool" where
  "materialised s \<longleftrightarrow> is_segment_scan_fallback s \<and> length (is_segments s) = 1 \<and> is_segment_index s = 0"

lemma materialised_advance:
  assumes "materialised s" and "source_has_current s"
  shows "source_advance E r Forward s w =
    (if is_entry_index s + 1 < int (length (is_entries s))
     then (1, s\<lparr>is_entry_index := is_entry_index s + 1\<rparr>, w)
     else (0, source_clear_frame (s\<lparr>is_entry_index := is_entry_index s + 1, is_segment_index := 1\<rparr>), w))"
proof -
  have "is_entries s \<noteq> []" using assms(2) by (auto simp: source_has_current_def)
  then show ?thesis
    using assms
    by (auto simp: source_advance_def source_has_current_def materialised_def Let_def bump_frame_def
        source_advance_loop.simps step_exists_def step_index_def size_inc_def)
qed

lemma materialised_yields:
  assumes "materialised s" and "0 \<le> is_entry_index s"
  shows "yields E r Forward w s (drop (nat (is_entry_index s)) (is_entries s))"
  using assms
proof (induction "length (is_entries s) - nat (is_entry_index s)" arbitrary: s)
  case 0
  then show ?case by (auto simp: source_has_current_def intro!: yields_done)
next
  case (Suc n)
  let ?s' = "s\<lparr>is_entry_index := is_entry_index s + 1\<rparr>"
  have cur: "source_has_current s" using Suc by (auto simp: source_has_current_def)
  have d: "drop (nat (is_entry_index s)) (is_entries s) =
      source_current s # drop (nat (is_entry_index s) + 1) (is_entries s)"
    using cur by (simp add: source_has_current_def source_current_def Cons_nth_drop_Suc nat_less_iff)
  show ?case
  proof (cases "is_entry_index s + 1 < int (length (is_entries s))")
    case True
    have "yields E r Forward w ?s' (drop (nat (is_entry_index ?s')) (is_entries ?s'))"
      by (rule Suc.hyps(1)) (use Suc in \<open>auto simp: materialised_def nat_add_distrib\<close>)
    then show ?thesis
      unfolding d using cur True Suc.prems materialised_advance [OF Suc.prems(1) cur]
      by (intro yields_step [where s' = ?s' and rc = 1]) (auto simp: nat_add_distrib)
  next
    case False
    then have "drop (nat (is_entry_index s) + 1) (is_entries s) = []" using Suc.prems by simp
    then show ?thesis
      unfolding d using cur False materialised_advance [OF Suc.prems(1) cur]
      by (intro yields_step [of s]) (auto simp: source_has_current_def intro!: yields_done)
  qed
qed

lemma yields_functional: "yields E r dir w s es \<Longrightarrow> yields E r dir w s es' \<Longrightarrow> es = es'"
proof (induction arbitrary: es' rule: yields.induct)
  case (yields_done s)
  then show ?case by (auto elim: yields.cases)
next
  case (yields_step s rc s' es)
  from yields_step.prems yields_step.hyps obtain es'' where
    "es' = source_current s # es''" "yields E r dir w s' es''" by (auto elim: yields.cases)
  then show ?case using yields_step.IH by simp
qed

subsection \<open>Preparing the sources\<close>

text \<open>A segment is ready when its source stands on the first entry of the stream it will give.\<close>

definition ready :: "reader_env \<Rightarrow> RecorderPlayer \<Rightarrow> world \<Rightarrow> WallclockSegment \<Rightarrow> RecorderEntry list \<Rightarrow> bool" where
  "ready E r w seg stream \<longleftrightarrow>
     (case wallclock_prepare_source E r seg w of
        (rc, s, w') \<Rightarrow>
          rc \<ge> 0 \<and> (0 < rc \<longleftrightarrow> source_has_current s) \<and> w' = w \<and> yields E r Forward w s stream)"

lemma heap_inv_snoc: "heap_inv sources heap \<Longrightarrow> heap_inv (sources @ [s]) heap"
proof -
  assume inv: "heap_inv sources heap"
  have "\<not> wallclock_heap_less (sources @ [s]) (heap ! j) (heap ! parent_of j)"
    if "0 < j" "j < length heap" for j
  proof -
    have "heap ! j \<in> set heap" "heap ! parent_of j \<in> set heap" using that parent_less [of j] by auto
    then show ?thesis
      using inv that by (simp add: heap_inv_def heap_ordered_def wallclock_heap_less_def nth_append)
  qed
  then show ?thesis using inv by (auto simp: heap_inv_def heap_ordered_def nth_append)
qed

lemma heap_inv_push:
  assumes "heap_inv sources heap" and "source_has_current s"
  shows "heap_inv (sources @ [s]) (heap_push (sources @ [s]) (length sources) heap)"
    and "set (heap_push (sources @ [s]) (length sources) heap) = insert (length sources) (set heap)"
proof -
  let ?new = "heap_push (sources @ [s]) (length sources) heap"
  have inv: "heap_inv (sources @ [s]) heap" using assms(1) by (rule heap_inv_snoc)
  have ms: "mset ?new = mset (heap @ [length sources])"
    by (simp add: heap_push_def wallclock_heap_sift_up_def mset_sift_up)
  then show st: "set ?new = insert (length sources) (set heap)"
    using mset_eq_setD [OF ms] by simp
  have "heap_ordered (wallclock_heap_less (sources @ [s])) heap" using inv by (simp add: heap_inv_def)
  from wallclock.push_ordered [OF this] have "heap_ordered (wallclock_heap_less (sources @ [s])) ?new"
    by (simp add: heap_push_def wallclock_heap_sift_up_def)
  moreover have "distinct ?new"
    using mset_eq_imp_distinct_iff [OF ms] assms(1) by (auto simp: heap_inv_def)
  moreover have "i < length (sources @ [s]) \<and> source_has_current ((sources @ [s]) ! i)" if "i \<in> set ?new" for i
    using that st assms(2) inv by (auto simp: heap_inv_def)
  ultimately show "heap_inv (sources @ [s]) ?new" unfolding heap_inv_def by blast
qed

lemma heap_streams_snoc:
  assumes "heap_streams E r w sources heap streams" and "heap_inv sources heap"
    and "set heap' = (if source_has_current s then insert (length sources) (set heap) else set heap)"
    and "yields E r Forward w s stream"
  shows "heap_streams E r w (sources @ [s]) heap' (streams @ [stream])"
proof -
  have lt: "i < length sources" if "i \<in> set heap" for i using assms(2) that by (simp add: heap_inv_def)
  have "stream = []" if "\<not> source_has_current s" using assms(4) that by (auto elim: yields.cases)
  then show ?thesis
    using assms lt by (auto simp: heap_streams_def nth_append less_Suc_eq split: if_splits)
qed

lemma prepare_sources_ready:
  assumes "list_all2 (ready E r w) segs streams" and "heap_inv sources heap"
    and "heap_streams E r w sources heap before"
  shows "\<exists>sources' heap'. prepare_sources E r segs sources heap w = (True, sources', heap', w) \<and>
    heap_inv sources' heap' \<and> heap_streams E r w sources' heap' (before @ streams)"
  using assms
proof (induction segs streams arbitrary: sources heap before rule: list_all2_induct)
  case Nil
  then show ?case by simp
next
  case (Cons seg segs stream streams)
  obtain rc s where p: "wallclock_prepare_source E r seg w = (rc, s, w)" "rc \<ge> 0" "0 < rc \<longleftrightarrow> source_has_current s"
      "yields E r Forward w s stream"
    using Cons.hyps(1) by (auto simp: ready_def split: prod.splits)
  let ?heap' = "if rc > 0 then heap_push (sources @ [s]) (length sources) heap else heap"
  have inv: "heap_inv (sources @ [s]) ?heap'"
    using heap_inv_push(1) [of sources heap s] heap_inv_snoc Cons.prems(1) p(3) by auto
  have "set ?heap' = (if source_has_current s then insert (length sources) (set heap) else set heap)"
    using heap_inv_push(2) [of sources heap s] Cons.prems(1) p(3) by auto
  from heap_streams_snoc [OF Cons.prems(2,1) this p(4)]
  have "heap_streams E r w (sources @ [s]) ?heap' (before @ [stream])" .
  from Cons.IH [OF inv this] show ?case using p by simp
qed

lemma heap_streams_unique:
  assumes "heap_streams E r w sources heap ss" and "heap_streams E r w sources heap ss'"
  shows "ss = ss'"
proof (rule nth_equalityI)
  show "length ss = length ss'" using assms by (simp add: heap_streams_def)
  show "ss ! i = ss' ! i" if "i < length ss" for i
    using assms that yields_functional by (fastforce simp: heap_streams_def split: if_splits)
qed

text \<open>From segments that are ready the scan gives a merge of their streams.\<close>

lemma scan_wallclock_ready:
  assumes "reader_paths r w = Some paths" and "wallclock_segments E r w paths False [] = Some segs"
    and "list_all2 (ready E r w) segs streams" and "\<not> rp_repair_indexes r"
  shows "\<exists>out. rec_player_scan_wallclock E r w append_stored_entry [] = (True, out, w) \<and>
    merges compare_stored_entries streams out"
proof -
  have "heap_inv [] []" "heap_streams E r w [] [] []"
    by (simp_all add: heap_inv_def heap_ordered_def heap_streams_def)
  from prepare_sources_ready [OF assms(3) this] obtain sources heap where
    p: "prepare_sources E r segs [] [] w = (True, sources, heap, w)"
    and inv: "heap_inv sources heap" and str: "heap_streams E r w sources heap streams" by auto
  have "\<forall>i \<in> set heap. \<exists>es. yields E r Forward w (sources ! i) es"
    using str inv unfolding heap_streams_def heap_inv_def by metis
  from wallclock_merge_returns [OF inv assms(4) this] obtain out where
    m: "wallclock_merge E r append_stored_entry sources heap w [] = (True, out, w)" by blast
  from wallclock_merge_merges [OF m inv assms(4)] obtain ss where
    "merges compare_stored_entries ss out" "heap_streams E r w sources heap ss" by auto
  then have "merges compare_stored_entries streams out" using heap_streams_unique [OF str] by simp
  then show ?thesis using assms(1,2) p m by (simp add: rec_player_scan_wallclock_def)
qed

subsection \<open>Appending callbacks\<close>

text \<open>
  A scan with a callback that carries over to another kind of context gives the carried over
  context. Appending to a list behind what it already holds is one such carrying.
\<close>

definition carries :: "('c \<Rightarrow> 'd) \<Rightarrow> 'c segment_frame_cb \<Rightarrow> 'd segment_frame_cb \<Rightarrow> bool" where
  "carries f cb cb' \<longleftrightarrow> (\<forall>h fr c x. cb' h fr c (f x) = map_prod id f (cb h fr c x))"

lemma scan_loop_carries:
  assumes "carries f cb cb'"
  shows "env_cb env = Some cb \<Longrightarrow>
    segment_scan_loop ((with_cb env cb')\<lparr>env_min := env_min env\<rparr>) buf offset idx (f x) =
    map_prod id f (segment_scan_loop env buf offset idx x)"
proof (induction env buf offset idx x rule: segment_scan_loop.induct)
  case (1 env buf offset idx x)
  let ?p = "drop offset buf"
  let ?f = "frame_info ?p offset"
  let ?env = "(with_cb env cb')\<lparr>env_min := env_min env\<rparr>"
  have cb: "frame_callback ?env idx ?f ?p offset (f x) = map_prod id f (frame_callback env idx ?f ?p offset x)"
    using assms "1.prems" by (auto simp: frame_callback_def carries_def split: payload.splits prod.splits)
  obtain res y where c: "frame_callback env idx ?f ?p offset x = (res, y)" by fastforce
  have step: "segment_scan_loop ?env buf (offset + unat (fi_frame_len ?f)) (idx + 1) (f y) =
      map_prod id f (segment_scan_loop env buf (offset + unat (fi_frame_len ?f)) (idx + 1) y)"
    if "offset < length buf" "footer_at ?p = None" "frame_check (env_header env) ?f ?p = FrameOk" "res = Inr True"
      "\<not> (encrypted (env_header env) \<and> idx = UINT64_MAX)"
    using "1.IH" [OF that(1) refl refl that(2,3) c [symmetric]] that(4,5) "1.prems" by (simp add: id_def)
  show ?case
    using step cb c
    by (subst (1 2) scan_unfold) (auto split: option.splits frame_status.splits sum.splits bool.splits)
qed

definition appends :: "'a list segment_frame_cb \<Rightarrow> bool" where
  "appends cb \<longleftrightarrow> (\<forall>u. carries ((@) u) cb cb)"

lemma scan_loop_appends:
  assumes "appends cb" and "env_cb env = Some cb"
  shows "segment_scan_loop env buf offset idx (u @ v) =
    map_prod id ((@) u) (segment_scan_loop env buf offset idx v)"
proof -
  have env: "(with_cb env cb)\<lparr>env_min := env_min env\<rparr> = env" using assms(2) by (simp add: with_cb_def)
  have "carries ((@) u) cb cb" using assms(1) by (simp add: appends_def)
  from scan_loop_carries [OF this assms(2), unfolded env] show ?thesis .
qed

lemma call_entries_append:
  "call_entries append_stored_entry es u = (0, u @ es)"
  by (induction es arbitrary: u) (simp_all add: append_stored_entry_def)

lemma scan_frame_appends: "appends (scan_frame E grp k append_stored_entry)"
  by (simp add: appends_def carries_def scan_frame_def call_entries_append)

lemma scan_impl_carries:
  assumes "carries f cb cb'"
  shows "segment_scan_impl L buf key (Some cb') (f x) k = map_prod id f (segment_scan_impl L buf key (Some cb) x k)"
proof -
  have "segment_scan_loop \<lparr>env_lib = L, env_header = h, env_encryption = ei, env_dek = dek, env_dict = d,
      env_cb = Some cb', env_min = k\<rparr> buf off i (f x) =
    map_prod id f (segment_scan_loop \<lparr>env_lib = L, env_header = h, env_encryption = ei, env_dek = dek, env_dict = d,
      env_cb = Some cb, env_min = k\<rparr> buf off i x)" for h ei dek d off i
    using scan_loop_carries [OF assms, of "\<lparr>env_lib = L, env_header = h, env_encryption = ei, env_dek = dek, env_dict = d,
      env_cb = Some cb, env_min = k\<rparr>" buf off i x]
    by (simp add: with_cb_def)
  then show ?thesis
    by (simp add: segment_scan_impl_def Let_def split: option.split sum.split prod.split)
qed

lemma scan_impl_appends:
  "appends cb \<Longrightarrow> segment_scan_impl L buf key (Some cb) (u @ v) k =
     map_prod id ((@) u) (segment_scan_impl L buf key (Some cb) v k)"
  by (rule scan_impl_carries) (simp add: appends_def)

text \<open>The entries one segment gives to a scan, and whether the scan succeeds.\<close>

definition file_scan :: "reader_env \<Rightarrow> RecorderPlayer \<Rightarrow> world \<Rightarrow> string \<Rightarrow> (scan_error + nat) \<times> RecorderEntry list" where
  "file_scan E r w path = rec_player_scan_file E r w path append_stored_entry [] 0"

lemma scan_file_appends:
  "rec_player_scan_file E r w path append_stored_entry u 0 = map_prod id ((@) u) (file_scan E r w path)"
  using scan_impl_appends [OF scan_frame_appends, of _ _ _ _ _ _ u "[]"]
  by (auto simp: file_scan_def rec_player_scan_file_def segment_scan_path_from_offset_def
      split: option.splits sum.splits prod.splits)

lemma scan_paths_entries:
  "scan_paths E r w append_stored_entry ps u = (True, all) \<Longrightarrow>
   (\<forall>p \<in> set ps. \<exists>e. fst (file_scan E r w (sp_path p)) = Inr e) \<and>
   all = u @ concat (map (\<lambda>p. snd (file_scan E r w (sp_path p))) ps)"
proof (induction ps arbitrary: u)
  case (Cons p ps)
  obtain res es where f: "file_scan E r w (sp_path p) = (res, es)" by fastforce
  then show ?case
    using Cons.prems Cons.IH [of "u @ es"] by (cases res) (auto simp: scan_file_appends)
qed simp

subsection \<open>Segments that must be sorted\<close>

definition fresh_segment :: "SegmentPath \<Rightarrow> bool \<Rightarrow> WallclockSegment" where
  "fresh_segment p dirty =
     \<lparr>ws_path = p, ws_min_realtime_ts = 0, ws_max_realtime_ts = 0, ws_needs_sort = dirty, ws_entries = []\<rparr>"

text \<open>A segment that is still open, or whose footer or timestamps say that its clock went back.\<close>

definition must_sort :: "reader_env \<Rightarrow> RecorderPlayer \<Rightarrow> world \<Rightarrow> SegmentPath \<Rightarrow> bool" where
  "must_sort E r w p \<longleftrightarrow>
     (case wallclock_segment_metadata E r w (fresh_segment p False) of
        None \<Rightarrow> False
      | Some seg \<Rightarrow> ws_needs_sort seg)"

lemma metadata_dirty:
  "wallclock_segment_metadata E r w (fresh_segment p dirty) =
   map_option (\<lambda>seg. seg\<lparr>ws_needs_sort := (dirty \<or> ws_needs_sort seg)\<rparr>)
     (wallclock_segment_metadata E r w (fresh_segment p False))"
  by (auto simp: wallclock_segment_metadata_def fresh_segment_def Let_def split: sum.splits prod.splits)

lemma metadata_keeps:
  "wallclock_segment_metadata E r w seg = Some seg' \<Longrightarrow>
   ws_path seg' = ws_path seg \<and> ws_entries seg' = ws_entries seg \<and> (ws_needs_sort seg \<longrightarrow> ws_needs_sort seg')"
  by (auto simp: wallclock_segment_metadata_def Let_def split: sum.splits prod.splits)

lemma wallclock_load_segment_entries:
  assumes "file_scan E r w (sp_path (ws_path seg)) = (Inr e, es)" and "ws_entries seg = []"
  shows "\<exists>seg'. wallclock_load_segment E r w seg = Some seg' \<and> ws_path seg' = ws_path seg \<and>
    ws_needs_sort seg' = ws_needs_sort seg \<and> ws_entries seg' = qsort compare_stored_entries es"
proof -
  have cb: "append_wallclock_entry = append_stored_entry"
    by (rule ext)+ (simp add: append_wallclock_entry_def append_stored_entry_def)
  show ?thesis
    using assms by (auto simp: wallclock_load_segment_def cb file_scan_def Let_def)
qed

lemma materialised_ready:
  assumes "ws_needs_sort seg" and "group_from_path (sp_path (ws_path seg)) (reader_root r) = Some grp"
  shows "ready E r w seg (ws_entries seg)"
proof -
  let ?s = "(source_add_segment (new_source grp [] (- 1)) (ws_path seg))\<lparr>is_entries := ws_entries seg,
      is_segment_scan_fallback := True, is_entry_index := (if ws_entries seg \<noteq> [] then 0 else - 1)\<rparr>"
  have "yields E r Forward w ?s (ws_entries seg)"
  proof (cases "ws_entries seg = []")
    case True
    then show ?thesis by (simp add: yields_done source_has_current_def)
  next
    case False
    have "materialised ?s" by (simp add: materialised_def source_add_segment_def new_source_def)
    from materialised_yields [OF this] False show ?thesis by simp
  qed
  then show ?thesis
    using assms by (auto simp: ready_def wallclock_prepare_source_def source_has_current_def)
qed

text \<open>
  A segment that need not be sorted is read through its source: it counts as in order when that
  source gives the entries of the scan and they are in order. The scan drops such a segment when
  its first timestamp is zero.
\<close>

definition in_order :: "reader_env \<Rightarrow> RecorderPlayer \<Rightarrow> world \<Rightarrow> SegmentPath \<Rightarrow> bool" where
  "in_order E r w p \<longleftrightarrow>
     (\<exists>seg. wallclock_segment_metadata E r w (fresh_segment p False) = Some seg \<and> \<not> ws_needs_sort seg \<and>
        ws_min_realtime_ts seg \<noteq> 0) \<and>
     ready E r w (fresh_segment p False) (snd (file_scan E r w (sp_path p))) \<and>
     sorted_wrt (\<lambda>a b. compare_stored_entries a b \<le> 0) (snd (file_scan E r w (sp_path p)))"

lemma ready_path:
  "\<not> ws_needs_sort seg \<Longrightarrow> \<not> ws_needs_sort seg' \<Longrightarrow> ws_path seg = ws_path seg' \<Longrightarrow>
   ready E r w seg stream = ready E r w seg' stream"
  unfolding ready_def wallclock_prepare_source_def Let_def by (simp only: if_False)

lemma scanned_group:
  "file_scan E r w path = (Inr e, es) \<Longrightarrow> \<exists>grp. group_from_path path (reader_root r) = Some grp"
  by (auto simp: file_scan_def rec_player_scan_file_def split: option.splits)

lemma segment_step:
  assumes "must_sort E r w p \<or> in_order E r w p" and "file_scan E r w (sp_path p) = (Inr e, es)"
  obtains seg seg' stream where "wallclock_segment_metadata E r w (fresh_segment p dirty) = Some seg"
    and "(if ws_needs_sort seg then wallclock_load_segment E r w seg else Some seg) = Some seg'"
    and "ws_entries seg' \<noteq> [] \<or> ws_min_realtime_ts seg' \<noteq> 0 \<or> es = []"
    and "ready E r w seg' stream" and "sorted_wrt (\<lambda>a b. compare_stored_entries a b \<le> 0) stream"
    and "mset stream = mset es"
proof -
  obtain seg0 where m0: "wallclock_segment_metadata E r w (fresh_segment p False) = Some seg0"
    using assms(1) by (auto simp: must_sort_def in_order_def split: option.splits)
  let ?seg = "seg0\<lparr>ws_needs_sort := (dirty \<or> ws_needs_sort seg0)\<rparr>"
  have m: "wallclock_segment_metadata E r w (fresh_segment p dirty) = Some ?seg"
    using m0 by (simp add: metadata_dirty [of E r w p dirty])
  have k: "ws_path ?seg = p" "ws_entries ?seg = []"
    using metadata_keeps [OF m0] by (simp_all add: fresh_segment_def)
  obtain grp where g: "group_from_path (sp_path p) (reader_root r) = Some grp"
    using scanned_group [OF assms(2)] by blast
  show thesis
  proof (cases "ws_needs_sort ?seg")
    case True
    obtain seg' where l: "wallclock_load_segment E r w ?seg = Some seg'" "ws_path seg' = p"
        "ws_needs_sort seg' = ws_needs_sort ?seg" "ws_entries seg' = qsort compare_stored_entries es"
      using wallclock_load_segment_entries [of E r w ?seg] assms(2) k by auto
    show thesis
      by (rule that [OF m _ _ materialised_ready [of seg' r grp]])
        (use True l g in \<open>auto simp: stored.qsort_sorted\<close>)
  next
    case False
    then have o: "in_order E r w p" using assms(1) m0 by (auto simp: must_sort_def)
    have "ready E r w ?seg es"
      using o assms(2) ready_path [of ?seg "fresh_segment p False"] False k
      by (auto simp: in_order_def fresh_segment_def)
    moreover have "ws_min_realtime_ts ?seg \<noteq> 0" using o m0 by (auto simp: in_order_def)
    ultimately show thesis
      using that [OF m, of ?seg es] False o assms(2) by (simp add: in_order_def)
  qed
qed

lemma wallclock_segments_ready:
  assumes "\<forall>p \<in> set ps. must_sort E r w p \<or> in_order E r w p"
    and "\<forall>p \<in> set ps. \<exists>e. fst (file_scan E r w (sp_path p)) = Inr e"
    and "list_all2 (ready E r w) before streams0"
  shows "\<exists>segs streams. wallclock_segments E r w ps dirty before = Some segs \<and>
    list_all2 (ready E r w) segs (streams0 @ streams) \<and>
    (\<forall>s \<in> set streams. sorted_wrt (\<lambda>a b. compare_stored_entries a b \<le> 0) s) \<and>
    mset (concat streams) = mset (concat (map (\<lambda>p. snd (file_scan E r w (sp_path p))) ps))"
  using assms
proof (induction ps arbitrary: dirty before streams0)
  case Nil
  then show ?case by (intro exI [of _ before] exI [of _ "[]"]) simp
next
  case (Cons p ps)
  obtain e es where f: "file_scan E r w (sp_path p) = (Inr e, es)" using Cons.prems(2) by (metis list.set_intros(1) prod.collapse)
  obtain seg seg' stream where
    m: "wallclock_segment_metadata E r w (fresh_segment p dirty) = Some seg"
    and l: "(if ws_needs_sort seg then wallclock_load_segment E r w seg else Some seg) = Some seg'"
    and keep: "ws_entries seg' \<noteq> [] \<or> ws_min_realtime_ts seg' \<noteq> 0 \<or> es = []"
    and rd: "ready E r w seg' stream" and so: "sorted_wrt (\<lambda>a b. compare_stored_entries a b \<le> 0) stream"
    and ms: "mset stream = mset es"
    using segment_step [OF _ f] Cons.prems(1) by (metis list.set_intros(1))
  have rest: "\<forall>p \<in> set ps. must_sort E r w p \<or> in_order E r w p"
    "\<forall>p \<in> set ps. \<exists>e. fst (file_scan E r w (sp_path p)) = Inr e" using Cons.prems by simp_all
  show ?case
  proof (cases "ws_entries seg' \<noteq> [] \<or> ws_min_realtime_ts seg' \<noteq> 0")
    case True
    have "list_all2 (ready E r w) (before @ [seg']) (streams0 @ [stream])"
      using Cons.prems(3) rd by (intro list_all2_appendI) auto
    from Cons.IH [OF rest this, of False] obtain segs streams where
      "wallclock_segments E r w ps False (before @ [seg']) = Some segs"
      "list_all2 (ready E r w) segs (streams0 @ (stream # streams))"
      "\<forall>s \<in> set streams. sorted_wrt (\<lambda>a b. compare_stored_entries a b \<le> 0) s"
      "mset (concat streams) = mset (concat (map (\<lambda>p. snd (file_scan E r w (sp_path p))) ps))" by auto
    then show ?thesis
      using m l True so ms f
      by (intro exI [of _ segs] exI [of _ "stream # streams"]) (auto simp: fresh_segment_def)
  next
    case False
    from Cons.IH [OF rest Cons.prems(3), of "ws_needs_sort seg'"] show ?thesis
      using m l False keep f by (auto simp: fresh_segment_def)
  qed
qed

text \<open>The scan over segments of both kinds is a merge of their streams.\<close>

lemma wallclock_scan_merges:
  assumes "\<not> rp_repair_indexes r" and "reader_paths r w = Some paths"
    and "\<forall>p \<in> set paths. must_sort E r w p \<or> in_order E r w p"
    and "rec_player_scan_all E r w append_stored_entry [] = (True, all)"
  shows "\<exists>out. rec_player_scan_wallclock E r w append_stored_entry [] = (True, out, w) \<and>
    mset out = mset all \<and> sorted_wrt (\<lambda>a b. compare_stored_entries a b \<le> 0) out"
proof -
  have "scan_paths E r w append_stored_entry paths [] = (True, all)"
    using assms(2,4) by (simp add: rec_player_scan_all_def)
  note all = scan_paths_entries [OF this]
  have "list_all2 (ready E r w) [] []" by simp
  from wallclock_segments_ready [OF assms(3) _ this, of False] all obtain segs streams where
    s: "wallclock_segments E r w paths False [] = Some segs" "list_all2 (ready E r w) segs streams"
      "\<forall>s \<in> set streams. sorted_wrt (\<lambda>a b. compare_stored_entries a b \<le> 0) s"
      "mset (concat streams) = mset all" by auto
  from scan_wallclock_ready [OF assms(2) s(1,2) assms(1)] obtain out where
    "rec_player_scan_wallclock E r w append_stored_entry [] = (True, out, w)"
    "merges compare_stored_entries streams out" by blast
  then show ?thesis
    using merges_mset [of compare_stored_entries streams out] stored.merges_sorted [of streams out] s(3,4) by simp
qed

end
