(* ===== verification/Walk_Props.thy ===== *)
theory Walk_Props
  imports Wallclock_Props Index_Props
begin

text \<open>
  Reading a segment through its index: the frame by frame walk of a source gives the entries of
  a sequential scan, in the same order, when the index is the one built for the segment.
\<close>

subsection \<open>The frames of a scan\<close>

lemma scan_loop_good:
  "segment_scan_loop env buf offset idx ctx = (Inr (ft, e), ctx') \<Longrightarrow> env_cb env = Some cb \<Longrightarrow>
   env_min env \<le> offset \<Longrightarrow> \<exists>fs e0. good_frames env buf offset idx fs e0 \<and> run_cb cb (env_header env) fs ctx = (0, ctx') \<and>
     (e = e0 \<or> footer_at (drop e0 buf) = Some ft \<and> e = e0 + 48)"
proof (induction env buf offset idx ctx rule: segment_scan_loop.induct)
  case (1 env buf offset idx ctx)
  let ?p = "drop offset buf"
  let ?fr = "frame_info ?p offset"
  let ?pl = "frame_payload (env_lib env) (env_header env) (env_encryption env) (env_dek env) (env_dict env) idx ?fr ?p"
  have cbd: "frame_callback env idx ?fr ?p offset ctx =
      (case ?pl of FailScan e \<Rightarrow> (Inl (ScanErrno e), ctx) | StopScan \<Rightarrow> (Inr False, ctx)
       | Chunk chunk \<Rightarrow> (case cb (env_header env) ?fr chunk ctx of
            (rv, c) \<Rightarrow> (if rv \<noteq> 0 then Inl (ScanCallback rv) else Inr True, c)))"
    using "1.prems"(2,3) by (simp add: frame_callback_def)
  show ?case
  proof (cases "offset < length buf \<and> footer_at ?p = None \<and> frame_check (env_header env) ?fr ?p = FrameOk \<and>
      (\<exists>chunk. ?pl = Chunk chunk)")
    case False
    then have "ctx' = ctx \<and> (e = offset \<or> footer_at ?p = Some ft \<and> e = offset + 48)"
      using "1.prems"(1) cbd
      by (auto simp: scan_unfold [of _ buf offset] split: option.splits frame_status.splits payload.splits if_splits)
    then show ?thesis by (intro exI [of _ "[]"] exI [of _ offset]) (simp add: good_nil)
  next
    case True
    then obtain chunk where here: "offset < length buf" "footer_at ?p = None"
      "frame_check (env_header env) ?fr ?p = FrameOk" and pl: "?pl = Chunk chunk" by blast
    obtain rv c where cb: "cb (env_header env) ?fr chunk ctx = (rv, c)" by fastforce
    have rv: "rv = 0" and ne: "\<not> (encrypted (env_header env) \<and> idx = UINT64_MAX)" and
      rest: "segment_scan_loop env buf (offset + unat (fi_frame_len ?fr)) (idx + 1) c = (Inr (ft, e), ctx')"
      using "1.prems"(1) here pl cb cbd
      by (auto simp: scan_unfold [of _ buf offset] split: if_splits)
    have cbt: "frame_callback env idx ?fr ?p offset ctx = (Inr True, c)" using cbd pl cb rv by simp
    have "env_min env \<le> offset + unat (fi_frame_len ?fr)" using "1.prems"(3) by simp
    from "1.IH" [OF here(1) refl refl here(2,3) cbt [symmetric] refl refl ne rest "1.prems"(2) this]
    obtain fs e0 where "good_frames env buf (offset + unat (fi_frame_len ?fr)) (idx + 1) fs e0"
      "run_cb cb (env_header env) fs c = (0, ctx')" "e = e0 \<or> footer_at (drop e0 buf) = Some ft \<and> e = e0 + 48" by blast
    then show ?thesis
      using good_cons [OF here(1,2) refl here(3) pl ne] cb rv
      by (intro exI [of _ "(?fr, chunk) # fs"] exI [of _ e0]) simp
  qed
qed

lemma good_frames_nth:
  assumes "good_frames env buf off idx fs e" and "length buf < 2 ^ 64" and "j < length fs"
  shows "frame_at (env_lib env) (env_header env) (env_encryption env) (env_dek env) (env_dict env) buf
    (unat (fi_file_offset (fst (fs ! j)))) (idx + of_nat j) (fst (fs ! j)) (snd (fs ! j)) \<and>
    off \<le> unat (fi_file_offset (fst (fs ! j)))"
  using assms
proof (induction arbitrary: j rule: good_frames.induct)
  case (good_cons offset buf frame env idx chunk fs e)
  have o: "unat (fi_file_offset frame) = offset"
    using good_cons.hyps(1,3) good_cons.prems(1) by (simp add: frame_info_def of_nat_inject_le)
  show ?case
  proof (cases j)
    case 0
    then show ?thesis using good_cons.hyps o by (simp add: frame_at_def)
  next
    case (Suc i)
    then show ?thesis using good_cons.IH [of i] good_cons.prems by (auto simp: add.assoc)
  qed
qed simp

lemma good_frames_count: "good_frames env buf off idx fs e \<Longrightarrow> off \<le> length buf \<Longrightarrow> off + 20 * length fs \<le> length buf"
proof (induction rule: good_frames.induct)
  case (good_cons offset buf frame env idx chunk fs e)
  let ?n = "unat (fi_frame_len frame)"
  have "20 \<le> ?n" "offset + ?n \<le> length buf"
    using frame_ok_progress [OF good_cons.hyps(4)] frame_ok_fits [OF good_cons.hyps(4)] good_cons.hyps(1) by simp_all
  with good_cons.IH show ?case by simp
qed simp

text \<open>A frame reader hands out the frames the scan sees.\<close>

lemma reader_at:
  assumes ph: "segment_parse_header buf = Some (h, off, ei)"
    and key: "(if encrypted h
      then (case decryptor of None \<Rightarrow> Inl EACCES
            | Some key \<Rightarrow> (case recorder_crypto_unwrap_dek L key (ei_wrapped_dek ei) of
                  Inl _ \<Rightarrow> Inl EACCES | Inr dek \<Rightarrow> Inr dek))
      else Inr (replicate SEGMENT_DEK_SIZE 0)) = Inr dek"
    and dict: "dict = take (unat (sh_dict_len h)) (drop (off - unat (sh_dict_len h)) buf)"
  obtains reader where "segment_frame_reader_open L (Some buf) decryptor = Inr reader"
    and "\<And>(cb :: 'c segment_frame_cb) ctx pos i fr chunk. frame_at L h ei dek dict buf pos i fr chunk \<Longrightarrow> off \<le> pos \<Longrightarrow>
      segment_frame_reader_scan L reader cb ctx pos i = (case cb h fr chunk ctx of (rv, c) \<Rightarrow> (Inr rv, c))"
proof -
  have b: "unat (sh_dict_len h) \<le> off" "off \<le> length buf" using segment_parse_header_bounds [OF ph] by auto
  have md: "read_metadata buf = Some (take off buf)" by (rule read_metadata_of_parsed [OF ph])
  have ph': "segment_parse_header (take off buf) = Some (h, off, ei)"
    by (rule segment_parse_header_take [OF ph order_refl b(2)])
  have d: "take (unat (sh_dict_len h)) (drop (off - unat (sh_dict_len h)) (take off buf)) = dict"
    using b dict by (simp add: drop_take)
  let ?reader = "\<lparr>fr_file = buf, fr_data_offset = off, fr_header = h, fr_encryption = ei,
           fr_metadata = take off buf, fr_dek = dek\<rparr>"
  have "segment_frame_reader_open L (Some buf) decryptor = Inr ?reader"
    unfolding segment_frame_reader_open_def option.case md ph' prod.case key sum.case ..
  moreover have "segment_frame_reader_scan L ?reader cb ctx pos i = (case cb h fr chunk ctx of (rv, c) \<Rightarrow> (Inr rv, c))"
    if "frame_at L h ei dek dict buf pos i fr chunk" "off \<le> pos" for cb :: "'c segment_frame_cb" and ctx pos i fr chunk
    unfolding segment_frame_reader_scan_def Let_def SegmentFrameReader.simps
    using frame_at_facts [OF that(1)] that(2) by (simp add: d del: length_append split: prod.splits)
  ultimately show thesis by (rule that)
qed

definition reads_frame ::
    "lib \<Rightarrow> SegmentFrameReader \<Rightarrow> SegmentHeader \<Rightarrow> nat \<Rightarrow> SegmentFrameInfo \<times> byte list \<Rightarrow> bool" where
  "reads_frame L reader header j f \<longleftrightarrow>
     (\<forall>(cb :: RecorderEntry list segment_frame_cb) ctx.
        segment_frame_reader_scan L reader cb ctx (unat (fi_file_offset (fst f))) (of_nat j) =
        (case cb header (fst f) (snd f) ctx of (rv, c) \<Rightarrow> (Inr rv, c)))"

lemma scanned_frames_read:
  assumes "segment_scan_path L (Some buf) decryptor (Some collect_frames) [] = (Inr (header, footer, e), frames)"
    and "length buf < 2 ^ 64"
  obtains reader where "segment_frame_reader_open L (Some buf) decryptor = Inr reader"
    and "\<And>j. j < length frames \<Longrightarrow> reads_frame L reader header j (frames ! j)"
    and "20 * length frames \<le> length buf"
proof -
  from assms(1) obtain off ei dek where ph: "segment_parse_header buf = Some (header, off, ei)"
    and key: "(if encrypted header
                 then (case decryptor of
                         None \<Rightarrow> Inl EACCES
                       | Some key \<Rightarrow>
                           (case recorder_crypto_unwrap_dek L key (ei_wrapped_dek ei) of
                              Inl _ \<Rightarrow> Inl EACCES
                            | Inr dek \<Rightarrow> Inr dek))
                 else Inr (replicate SEGMENT_DEK_SIZE 0)) = Inr dek"
    and loop: "segment_scan_loop \<lparr>env_lib = L, env_header = header, env_encryption = ei,
       env_dek = dek, env_dict = take (unat (sh_dict_len header))
         (drop (off - unat (sh_dict_len header)) buf), env_cb = Some collect_frames,
       env_min = 0\<rparr> buf off 0 [] = (Inr (footer, e), frames)"
    by (auto simp: segment_scan_path_def segment_scan_impl_def Let_def
        split: option.splits prod.splits sum.splits if_splits)
  let ?dict = "take (unat (sh_dict_len header)) (drop (off - unat (sh_dict_len header)) buf)"
  obtain fs e0 where "good_frames \<lparr>env_lib = L, env_header = header, env_encryption = ei,
       env_dek = dek, env_dict = ?dict, env_cb = Some collect_frames, env_min = 0\<rparr> buf off 0 fs e0"
      and "run_cb collect_frames header fs [] = (0, frames)"
    using scan_loop_good [OF loop, of collect_frames] by auto
  then have good: "good_frames \<lparr>env_lib = L, env_header = header, env_encryption = ei,
       env_dek = dek, env_dict = ?dict, env_cb = Some collect_frames, env_min = 0\<rparr> buf off 0 frames e0"
    by (simp add: run_collect)
  obtain reader where rd: "segment_frame_reader_open L (Some buf) decryptor = Inr reader"
    and at: "\<And>(cb :: RecorderEntry list segment_frame_cb) ctx pos i fr chunk.
      frame_at L header ei dek ?dict buf pos i fr chunk \<Longrightarrow> off \<le> pos \<Longrightarrow>
      segment_frame_reader_scan L reader cb ctx pos i = (case cb header fr chunk ctx of (rv, c) \<Rightarrow> (Inr rv, c))"
    using reader_at [OF ph key refl, where 'c = "RecorderEntry list"] by blast
  have "reads_frame L reader header j (frames ! j)" if "j < length frames" for j
    unfolding reads_frame_def
    using good_frames_nth [OF good assms(2) that] at by (simp add: case_prod_beta)
  moreover have "20 * length frames \<le> length buf"
    using good_frames_count [OF good] segment_parse_header_bounds [OF ph] by linarith
  ultimately show thesis using that rd by blast
qed

subsection \<open>Walking the frames\<close>

text \<open>The index and the frame reader serve the frames of a segment.\<close>

definition serves ::
    "reader_env \<Rightarrow> RecorderPlayer \<Rightarrow> world \<Rightarrow> string \<Rightarrow> IndexReader \<Rightarrow> SegmentFrameReader \<Rightarrow> SegmentHeader \<Rightarrow>
     (SegmentFrameInfo \<times> byte list) list \<Rightarrow> bool" where
  "serves E r w path ir reader header frames \<longleftrightarrow>
     rp_unit_filter r = None \<and> ir_frame_count ir = length frames \<and> length frames < SIZE_MAX \<and>
     segment_frame_reader_open (rv_lib E) (read_file path w) (rp_decryptor r) = Inr reader \<and>
     (\<forall>k < length frames. reads_frame (rv_lib E) reader header k (frames ! k) \<and>
        (\<exists>fr. index_reader_read_frame ir k = Some fr \<and> ix_file_offset fr = fi_file_offset (fst (frames ! k))))"

text \<open>A source inside such a segment, the only one it has.\<close>

definition walking :: "string \<Rightarrow> string \<Rightarrow> IndexReader \<Rightarrow> SegmentFrameReader \<Rightarrow> IteratorSource \<Rightarrow> bool" where
  "walking path grp ir reader s \<longleftrightarrow>
     length (is_segments s) = 1 \<and> is_segment_index s = 0 \<and> source_path s = path \<and>
     \<not> is_segment_scan_fallback s \<and> is_group s = grp \<and> is_frame_count s = ir_frame_count ir \<and>
     (\<exists>ip. is_index_reader s = Some (ip, ir)) \<and>
     (is_frame_reader s = None \<or> is_frame_reader s = Some (path, reader))"

definition entries_of ::
    "reader_env \<Rightarrow> string \<Rightarrow> SegmentHeader \<Rightarrow> (SegmentFrameInfo \<times> byte list) list \<Rightarrow> nat \<Rightarrow> RecorderEntry list" where
  "entries_of E grp header frames k = frame_entries E grp header (fst (frames ! k)) (snd (frames ! k))"

text \<open>The source on entry \<^verbatim>\<open>i\<close> of frame \<^verbatim>\<open>k\<close>.\<close>

definition on_frame ::
    "reader_env \<Rightarrow> string \<Rightarrow> string \<Rightarrow> IndexReader \<Rightarrow> SegmentFrameReader \<Rightarrow> SegmentHeader \<Rightarrow>
     (SegmentFrameInfo \<times> byte list) list \<Rightarrow> nat \<Rightarrow> nat \<Rightarrow> IteratorSource \<Rightarrow> bool" where
  "on_frame E path grp ir reader header frames k i s \<longleftrightarrow>
     walking path grp ir reader s \<and> k < length frames \<and> is_frame_index s = k \<and>
     is_entries s = entries_of E grp header frames k \<and> is_entry_index s = int i \<and> i \<le> length (is_entries s)"

lemma source_path_update [simp]:
  "source_path (s\<lparr>is_entries := es\<rparr>) = source_path s" "source_path (s\<lparr>is_entry_index := j\<rparr>) = source_path s"
  "source_path (s\<lparr>is_frame_index := i\<rparr>) = source_path s" "source_path (s\<lparr>is_frame_reader := fr\<rparr>) = source_path s"
  "source_path (source_clear_frame s) = source_path s"
  by (simp_all add: source_path_def)

lemma load_frame_serves:
  assumes "serves E r w path ir reader header frames" and "walking path grp ir reader s" and "k < length frames"
  shows "\<exists>s'. source_load_frame E r w s k Forward = (0, s') \<and>
    on_frame E path grp ir reader header frames k 0 s'"
proof -
  obtain fr where fr: "index_reader_read_frame ir k = Some fr" "ix_file_offset fr = fi_file_offset (fst (frames ! k))"
    and rd: "reads_frame (rv_lib E) reader header k (frames ! k)"
    using assms(1,3) by (auto simp: serves_def)
  let ?s1 = "(source_clear_frame s)\<lparr>is_frame_index := k\<rparr>"
  have op: "open_frame_reader E r ?s1 w = Some reader"
    using assms(1,2) by (auto simp: open_frame_reader_def walking_def serves_def)
  have scan: "segment_frame_reader_scan (rv_lib E) reader (scan_source_frame E grp) []
      (unat (fi_file_offset (fst (frames ! k)))) (of_nat k) = (Inr 0, entries_of E grp header frames k)"
    using rd by (simp add: reads_frame_def scan_source_frame_def scan_frame_def call_entries_append entries_of_def)
  show ?thesis
    using assms fr op scan
    by (auto simp: source_load_frame_def Let_def walking_def serves_def unit_possible_def on_frame_def edge_index_def)
qed

lemma load_frames_serves:
  assumes "serves E r w path ir reader header frames" and "walking path grp ir reader s" and "k \<le> length frames"
  obtains (empty) s' where "load_frames E r w Forward [k..<length frames] s = (0, s')"
      "\<forall>i. k \<le> i \<and> i < length frames \<longrightarrow> entries_of E grp header frames i = []"
      "walking path grp ir reader s'" "k < length frames \<longrightarrow> is_frame_index s' = length frames - 1"
  | (found) s' k' where "load_frames E r w Forward [k..<length frames] s = (1, s')" "k \<le> k'"
      "\<forall>i. k \<le> i \<and> i < k' \<longrightarrow> entries_of E grp header frames i = []"
      "entries_of E grp header frames k' \<noteq> []" "on_frame E path grp ir reader header frames k' 0 s'"
  using assms(2,3)
proof (induction "length frames - k" arbitrary: k s thesis)
  case 0
  then show ?case by (intro "0.prems"(1) [of s]) auto
next
  case (Suc n)
  have k: "k < length frames" using Suc.hyps(2) by simp
  obtain s1 where l: "source_load_frame E r w s k Forward = (0, s1)"
    and on: "on_frame E path grp ir reader header frames k 0 s1"
    using load_frame_serves [OF assms(1) Suc.prems(3) k] by blast
  have up: "[k..<length frames] = k # [Suc k..<length frames]" using k by (rule upt_conv_Cons)
  show ?case
  proof (cases "entries_of E grp header frames k = []")
    case False
    then show ?thesis
      using on l by (intro Suc.prems(2) [of s1 k]) (auto simp: up on_frame_def)
  next
    case True
    have w1: "walking path grp ir reader s1" using on by (simp add: on_frame_def)
    have rest: "load_frames E r w Forward [k..<length frames] s = load_frames E r w Forward [Suc k..<length frames] s1"
      using l on True by (simp add: up on_frame_def)
    have n: "n = length frames - Suc k" using Suc.hyps(2) by simp
    show ?thesis
    proof (rule Suc.hyps(1) [OF n _ _ w1 Suc_leI [OF k]])
      fix s' assume e: "load_frames E r w Forward [Suc k..<length frames] s1 = (0, s')"
        "\<forall>i. Suc k \<le> i \<and> i < length frames \<longrightarrow> entries_of E grp header frames i = []"
        "walking path grp ir reader s'" "Suc k < length frames \<longrightarrow> is_frame_index s' = length frames - 1"
      have "is_frame_index s' = length frames - 1"
        using e k on by (cases "Suc k < length frames") (auto simp: on_frame_def)
      moreover have "\<forall>i. k \<le> i \<and> i < length frames \<longrightarrow> entries_of E grp header frames i = []"
        using e(2) True by (metis Suc_leI le_eq_less_or_eq)
      ultimately show thesis using e rest by (intro Suc.prems(1) [of s']) auto
    next
      fix s' k' assume f: "load_frames E r w Forward [Suc k..<length frames] s1 = (1, s')" "Suc k \<le> k'"
        "\<forall>i. Suc k \<le> i \<and> i < k' \<longrightarrow> entries_of E grp header frames i = []"
        "entries_of E grp header frames k' \<noteq> []" "on_frame E path grp ir reader header frames k' 0 s'"
      have "\<forall>i. k \<le> i \<and> i < k' \<longrightarrow> entries_of E grp header frames i = []"
        using f(3) True by (metis Suc_leI le_eq_less_or_eq)
      then show thesis using f rest by (intro Suc.prems(2) [of s' k']) auto
    qed
  qed
qed

lemma walk_ends:
  assumes "walking path grp ir reader s" and "\<not> is_frame_index s + 1 < ir_frame_count ir" and "is_frame_index s < SIZE_MAX"
  shows "\<exists>s'. source_advance_loop E r Forward p s w = (0, s', w) \<and> \<not> source_has_current s'"
  using assms
  by (subst source_advance_loop.simps)
    (simp add: walking_def Let_def bump_frame_def step_exists_def step_index_def size_inc_def source_has_current_def)

lemma concat_skip:
  assumes "k \<le> k'" and "k' < n" and "\<forall>i. k \<le> i \<and> i < k' \<longrightarrow> f i = []"
  shows "concat (map f [k..<n]) = f k' @ concat (map f [Suc k'..<n])"
proof -
  have "[k..<n] = [k..<k'] @ k' # [Suc k'..<n]"
    using upt_add_eq_append [of k k' "n - k'"] upt_conv_Cons [of k' n] assms(1,2) by simp
  moreover have "concat (map f [k..<k']) = []" using assms(3) by simp
  ultimately show ?thesis by simp
qed

lemma advance_last:
  assumes sv: "serves E r w path ir reader header frames"
    and on: "on_frame E path grp ir reader header frames k i s" and last: "i = length (is_entries s)"
  shows "(\<exists>s'. source_advance_loop E r Forward p s w = (0, s', w) \<and> \<not> source_has_current s' \<and>
      concat (map (entries_of E grp header frames) [Suc k..<length frames]) = []) \<or>
    (\<exists>s' k'. source_advance_loop E r Forward p s w = (1, s', w) \<and>
      on_frame E path grp ir reader header frames k' 0 s' \<and> entries_of E grp header frames k' \<noteq> [] \<and>
      concat (map (entries_of E grp header frames) [Suc k..<length frames]) =
        entries_of E grp header frames k' @ concat (map (entries_of E grp header frames) [Suc k'..<length frames]))"
proof -
  have wk: "walking path grp ir reader s" and k: "k < length frames" and fi: "is_frame_index s = k"
    using on by (auto simp: on_frame_def)
  have n: "ir_frame_count ir = length frames" "length frames < SIZE_MAX" using sv by (auto simp: serves_def)
  show ?thesis
  proof (cases "Suc k < length frames")
    case False
    then show ?thesis using walk_ends [OF wk, of E r p w] fi n k by auto
  next
    case True
    let ?b = "bump_frame Forward s"
    have b: "?b = s\<lparr>is_frame_index := Suc k\<rparr>"
      using wk fi n k by (simp add: bump_frame_def walking_def step_index_def size_inc_def)
    have wb: "walking path grp ir reader ?b" using wk by (simp add: b walking_def)
    have fo: "frame_order (is_frame_count ?b) (Suc k) Forward = [Suc k..<length frames]"
      using wb n True by (simp add: frame_order_def walking_def upt_conv_Cons)
    have ld: "source_load_indexed_from E r w ?b (is_frame_index ?b) Forward = load_frames E r w Forward [Suc k..<length frames] ?b"
      using fo by (simp add: source_load_indexed_from_def b)
    have st: "\<not> is_segment_scan_fallback s \<and> step_exists Forward (is_frame_count s) (is_frame_index s)"
      using wk fi n True by (simp add: walking_def step_exists_def size_inc_def)
    show ?thesis
    proof (rule load_frames_serves [OF sv wb, of "Suc k"])
      show "Suc k \<le> length frames" using True by simp
    next
      fix s' assume e: "load_frames E r w Forward [Suc k..<length frames] ?b = (0, s')"
        "\<forall>i. Suc k \<le> i \<and> i < length frames \<longrightarrow> entries_of E grp header frames i = []"
        "walking path grp ir reader s'" "Suc k < length frames \<longrightarrow> is_frame_index s' = length frames - 1"
      have "source_advance_loop E r Forward p s w = source_advance_loop E r Forward p s' w"
        using st e(1) ld by (subst source_advance_loop.simps) (simp add: Let_def)
      then show ?thesis using walk_ends [OF e(3), of E r p w] e(2,4) True n by auto
    next
      fix s' k' assume f: "load_frames E r w Forward [Suc k..<length frames] ?b = (1, s')" "Suc k \<le> k'"
        "\<forall>i. Suc k \<le> i \<and> i < k' \<longrightarrow> entries_of E grp header frames i = []"
        "entries_of E grp header frames k' \<noteq> []" "on_frame E path grp ir reader header frames k' 0 s'"
      have "source_advance_loop E r Forward p s w = (1, s', w)"
        using st f(1) ld by (subst source_advance_loop.simps) (simp add: Let_def)
      moreover have "concat (map (entries_of E grp header frames) [Suc k..<length frames]) =
        entries_of E grp header frames k' @ concat (map (entries_of E grp header frames) [Suc k'..<length frames])"
        using f by (intro concat_skip) (auto simp: on_frame_def)
      ultimately show ?thesis using f by blast
    qed
  qed
qed

lemma walk_yields:
  assumes sv: "serves E r w path ir reader header frames"
    and "on_frame E path grp ir reader header frames k i s" and "i < length (is_entries s)"
  shows "yields E r Forward w s (drop i (entries_of E grp header frames k) @
    concat (map (entries_of E grp header frames) [Suc k..<length frames]))"
  using assms(2,3)
proof (induction s arbitrary: k i rule: wf_induct_rule [OF wf_advance_order [of Forward]])
  case (1 s)
  let ?es = "entries_of E grp header frames"
  let ?rest = "concat (map ?es [Suc k..<length frames])"
  let ?s1 = "s\<lparr>is_entry_index := int i + 1\<rparr>"
  have es: "is_entries s = ?es k" and ix: "is_entry_index s = int i" using "1.prems"(1) by (auto simp: on_frame_def)
  have cur: "source_has_current s" using "1.prems" ix by (simp add: source_has_current_def)
  have ne: "is_entries s \<noteq> []" using "1.prems"(2) by auto
  have d: "drop i (?es k) = source_current s # drop (Suc i) (?es k)"
    using "1.prems"(2) es ix by (simp add: source_current_def Cons_nth_drop_Suc)
  have on1: "on_frame E path grp ir reader header frames k (Suc i) ?s1"
    using "1.prems" by (simp add: on_frame_def walking_def)
  have step: "yields E r Forward w s (source_current s # tail)"
    if "source_advance E r Forward s w = (rc, s', w)" "rc \<ge> 0" "yields E r Forward w s' tail" for rc s' tail
    using that cur by (intro yields_step)
  show ?case
  proof (cases "Suc i < length (is_entries s)")
    case True
    then have adv: "source_advance E r Forward s w = (1, ?s1, w)"
      using ne ix by (simp add: source_advance_def source_has_current_def)
    have "yields E r Forward w ?s1 (drop (Suc i) (?es k) @ ?rest)"
      using "1.IH" [OF source_advance_progress [OF adv] on1] True by simp
    from step [OF adv _ this] show ?thesis by (simp add: d)
  next
    case False
    then have adv: "source_advance E r Forward s w = source_advance_loop E r Forward (last (is_entries s)) ?s1 w"
      using ne ix by (simp add: source_advance_def source_has_current_def)
    have i: "Suc i = length (is_entries ?s1)" using False "1.prems"(2) by simp
    then have dn: "drop (Suc i) (?es k) = []" using es by simp
    from advance_last [OF sv on1 i, of "last (is_entries s)"] show ?thesis
    proof (elim disjE exE conjE)
      fix s' assume z: "source_advance_loop E r Forward (last (is_entries s)) ?s1 w = (0, s', w)"
        "\<not> source_has_current s'" "?rest = []"
      have "source_advance E r Forward s w = (0, s', w)" using adv z(1) by simp
      from step [OF this _ yields_done [OF z(2)]] have "yields E r Forward w s [source_current s]" by simp
      then show ?thesis unfolding d dn z(3) by simp
    next
      fix s' k' assume f: "source_advance_loop E r Forward (last (is_entries s)) ?s1 w = (1, s', w)"
        "on_frame E path grp ir reader header frames k' 0 s'" "?es k' \<noteq> []"
        "?rest = ?es k' @ concat (map ?es [Suc k'..<length frames])"
      have a: "source_advance E r Forward s w = (1, s', w)" using adv f(1) by simp
      have "0 < length (is_entries s')" using f(2,3) by (simp add: on_frame_def)
      from "1.IH" [OF source_advance_progress [OF a] f(2) this]
      have "yields E r Forward w s' ?rest" using f(4) by simp
      from step [OF a _ this] show ?thesis by (simp add: d dn)
    qed
  qed
qed

subsection \<open>A closed segment and its index\<close>

lemma run_scan_frames:
  "run_cb (scan_frame E grp 0 append_stored_entry) header fs u =
     (0, u @ concat (map (\<lambda>f. frame_entries E grp header (fst f) (snd f)) fs))"
  by (induction fs arbitrary: u) (auto simp: scan_frame_def call_entries_append)

lemma concat_entries_of:
  "concat (map (entries_of E grp header frames) [0..<length frames]) =
   concat (map (\<lambda>f. frame_entries E grp header (fst f) (snd f)) frames)"
proof -
  have "map (entries_of E grp header frames) [0..<length frames] =
      map (\<lambda>f. frame_entries E grp header (fst f) (snd f)) (map ((!) frames) [0..<length frames])"
    by (simp add: entries_of_def comp_def)
  then show ?thesis by (simp add: map_nth)
qed

lemma file_scan_of_frames:
  assumes "read_file path w = Some buf" and "length buf < 2 ^ 64"
    and "group_from_path path (reader_root r) = Some grp" and "group_allowed r grp"
    and sc: "segment_scan_path (rv_lib E) (Some buf) (rp_decryptor r) (Some collect_frames) [] =
      (Inr (header, footer, e), frames)"
  shows "file_scan E r w path = (Inr e, concat (map (\<lambda>f. frame_entries E grp header (fst f) (snd f)) frames))"
proof -
  obtain fs where run: "run_cb collect_frames header fs [] = (0, frames)"
    and two: "\<And>c. segment_scan_path (rv_lib E) (Some buf) (rp_decryptor r)
      (Some (scan_frame E grp 0 append_stored_entry)) c =
        (case run_cb (scan_frame E grp 0 append_stored_entry) header fs c of
           (rv, c') \<Rightarrow> if rv \<noteq> 0 then (Inl (ScanCallback rv), c') else (Inr (header, footer, e), c'))"
    by (rule scan_path_frames [OF sc assms(2), where cb' = "scan_frame E grp 0 append_stored_entry"]) blast
  have "fs = frames" using run by (simp add: run_collect)
  then show ?thesis
    using two [of "[]"] assms
    by (simp add: file_scan_def rec_player_scan_file_def segment_scan_path_from_offset_def segment_scan_path_def
        run_scan_frames)
qed

text \<open>What the reader needs of a segment and its index, once for the theorems below.\<close>

definition indexed_segment ::
    "reader_env \<Rightarrow> RecorderPlayer \<Rightarrow> world \<Rightarrow> string \<Rightarrow> string \<Rightarrow> bool" where
  "indexed_segment E r w path grp \<longleftrightarrow>
     group_from_path path (reader_root r) = Some grp \<and> group_allowed r grp \<and> rp_unit_filter r = None \<and>
     (\<exists>buf header footer ip F fs segp idxp script ren fs'.
        read_file path w = Some buf \<and> length buf < 2 ^ 64 \<and>
        segment_scan_path (rv_lib E) (Some buf) (rp_decryptor r) None () = (Inr (header, footer, length buf), ()) \<and>
        segment_index_path path 512 = Some ip \<and> fs segp = Some buf \<and>
        index_rebuild_for_segment (rv_lib E) F fs segp idxp (rp_decryptor r) (Some (fopen_w script)) ren = (True, fs') \<and>
        read_file ip w = fs' idxp)"

lemma indexed_segment_serves:
  assumes "indexed_segment E r w path grp"
  obtains ip ir reader header frames e where "segment_index_path path 512 = Some ip"
    and "index_reader_open (read_file ip w) (read_file path w) = Inr ir"
    and "serves E r w path ir reader header frames"
    and "file_scan E r w path = (Inr e, concat (map (entries_of E grp header frames) [0..<length frames]))"
proof -
  from assms obtain buf header footer ip F fs segp idxp script ren fs' where
    g: "group_from_path path (reader_root r) = Some grp" "group_allowed r grp" "rp_unit_filter r = None"
    and buf: "read_file path w = Some buf" "length buf < 2 ^ 64"
    and md: "segment_scan_path (rv_lib E) (Some buf) (rp_decryptor r) None () = (Inr (header, footer, length buf), ())"
    and ip: "segment_index_path path 512 = Some ip" "fs segp = Some buf" "read_file ip w = fs' idxp"
    and rb: "index_rebuild_for_segment (rv_lib E) F fs segp idxp (rp_decryptor r) (Some (fopen_w script)) ren = (True, fs')"
    unfolding indexed_segment_def by blast
  obtain frames res where
    sc: "segment_scan_path (rv_lib E) (Some buf) (rp_decryptor r) (Some collect_frames) [] = (Inr res, frames)"
    and op: "index_open_read (fs' idxp) (Some buf) = Inr (length frames)"
    and pr: "\<And>j. j < length frames \<Longrightarrow> index_pread_frame (the (fs' idxp)) j =
       Some (index_frame_of F header (fst (frames ! j)) (snd (frames ! j)))"
    using rebuilt_index_records [OF rb ip(2) buf(2) md] by blast
  obtain h1 f1 e1 where res: "res = (h1, f1, e1)" by (metis prod_cases3)
  have h1: "h1 = header"
    using sc md res by (auto simp: segment_scan_path_def segment_scan_impl_def Let_def
        split: option.splits prod.splits sum.splits if_splits)
  obtain reader where rd: "segment_frame_reader_open (rv_lib E) (Some buf) (rp_decryptor r) = Inr reader"
    and rf: "\<And>j. j < length frames \<Longrightarrow> reads_frame (rv_lib E) reader header j (frames ! j)"
    and len: "20 * length frames \<le> length buf"
    using scanned_frames_read [OF sc [unfolded res h1] buf(2)] by blast
  let ?ir = "\<lparr>ir_file = the (fs' idxp), ir_frame_count = length frames\<rparr>"
  have ir: "index_reader_open (read_file ip w) (read_file path w) = Inr ?ir"
    using op ip buf by (simp add: index_reader_open_def)
  have "serves E r w path ?ir reader header frames"
    using g rd rf len pr buf by (auto simp: serves_def index_reader_read_frame_def index_frame_of_def Let_def)
  moreover have "file_scan E r w path = (Inr e1, concat (map (entries_of E grp header frames) [0..<length frames]))"
    using file_scan_of_frames [OF buf g(1,2) sc [unfolded res h1]] by (simp add: concat_entries_of)
  ultimately show thesis by (rule that [OF ip(1) ir])
qed

lemma source_load_frame_filtered: "source_load_frame E r w s k dir = (1, s') \<Longrightarrow> is_entries s' = []"
  by (auto simp: source_load_frame_def Let_def split: if_splits option.splits prod.splits sum.splits)

lemma load_frames_none:
  "load_frames E r w dir is s = (0, s') \<Longrightarrow> is_entries s = [] \<Longrightarrow> is_entries s' = []"
proof (induction "is" arbitrary: s)
  case (Cons i "is")
  obtain rc1 s1 where f: "source_load_frame E r w s i dir = (rc1, s1)" by fastforce
  then have "load_frames E r w dir is s1 = (0, s')" "rc1 = 0 \<longrightarrow> is_entries s1 = []" "\<not> rc1 < 0"
    using Cons.prems(1) by (auto split: if_splits)
  moreover have "is_entries s1 = []"
    using source_load_frame_keeps(7) [OF f] calculation(2,3) source_load_frame_filtered [of E r w s i dir s1] f by auto
  ultimately show ?case using Cons.IH by blast
qed simp

lemma indexed_load:
  assumes sv: "serves E r w path ir reader header frames" and wk: "walking path grp ir reader s"
    and no: "is_entries s = []"
  shows "\<exists>rc s'. load_frames E r w Forward [0..<length frames] s = (rc, s') \<and>
    (rc = 0 \<or> rc = 1) \<and> (0 < rc \<longleftrightarrow> source_has_current s') \<and>
    yields E r Forward w s' (concat (map (entries_of E grp header frames) [0..<length frames]))"
proof (rule load_frames_serves [OF sv wk, of 0])
  fix s' assume e: "load_frames E r w Forward [0..<length frames] s = (0, s')"
    "\<forall>i. 0 \<le> i \<and> i < length frames \<longrightarrow> entries_of E grp header frames i = []"
  have "is_entries s' = []"
    using load_frames_none [OF e(1)] no by simp
  then have n: "\<not> source_has_current s'" by (simp add: source_has_current_def)
  have z: "concat (map (entries_of E grp header frames) [0..<length frames]) = []" using e(2) by simp
  show ?thesis unfolding z using e(1) n yields_done [OF n] by simp
next
  fix s' k' assume f: "load_frames E r w Forward [0..<length frames] s = (1, s')" "0 \<le> k'"
    "\<forall>i. 0 \<le> i \<and> i < k' \<longrightarrow> entries_of E grp header frames i = []"
    "entries_of E grp header frames k' \<noteq> []" "on_frame E path grp ir reader header frames k' 0 s'"
  have ne: "0 < length (is_entries s')" "is_entry_index s' = 0" using f(4,5) by (auto simp: on_frame_def)
  have "yields E r Forward w s' (concat (map (entries_of E grp header frames) [0..<length frames]))"
    using walk_yields [OF sv f(5) ne(1)] concat_skip [of 0 k' "length frames" "entries_of E grp header frames"] f
    by (simp add: on_frame_def)
  then show ?thesis using f(1) ne by (auto simp: source_has_current_def)
qed simp

lemma fresh_source_index:
  assumes "segment_index_path path 512 = Some ip"
    and "index_reader_open (read_file ip w) (read_file path w) = Inr ir"
    and "serves E r w path ir reader header frames" and "sp_path p = path"
  shows "\<exists>s. source_load_index E r (source_add_segment (new_source grp [] j) p) w = (True, s, w) \<and>
    walking path grp ir reader s \<and> is_entries s = [] \<and> is_entry_index s = j"
  using assms
  by (auto simp: source_load_index_def source_add_segment_def new_source_def Let_def walking_def source_path_def
      index_reader_frame_count_def serves_def)

text \<open>
  C38. Reading a closed segment through its index is reading it: a source on a segment whose file
  is completely committed and whose index was built for it, with no unit filter, moves to the
  segment without touching the files and then gives, one by one and in order, exactly the entries
  a sequential scan of the segment hands out.
\<close>

theorem indexed_walk_matches_scan:
  assumes "indexed_segment E r w path grp" and "sp_path p = path"
  shows "\<exists>rc s committed_end es.
    source_load_segment_edge E r (source_add_segment (new_source grp [] j) p) w Forward = (rc, s, w) \<and>
    rec_player_scan_file E r w path append_stored_entry [] 0 = (Inr committed_end, es) \<and>
    rc = (if es = [] then 0 else 1) \<and> yields E r Forward w s es"
proof -
  obtain ip ir reader header frames e where
    f: "segment_index_path path 512 = Some ip" "index_reader_open (read_file ip w) (read_file path w) = Inr ir"
    and sv: "serves E r w path ir reader header frames"
    and sc: "file_scan E r w path = (Inr e, concat (map (entries_of E grp header frames) [0..<length frames]))"
    by (rule indexed_segment_serves [OF assms(1)])
  obtain s0 where s0: "source_load_index E r (source_add_segment (new_source grp [] j) p) w = (True, s0, w)"
      "walking path grp ir reader s0" "is_entries s0 = []"
    using fresh_source_index [OF f sv assms(2)] by blast
  let ?es = "concat (map (entries_of E grp header frames) [0..<length frames])"
  obtain rc s where l: "load_frames E r w Forward [0..<length frames] s0 = (rc, s)" "rc = 0 \<or> rc = 1"
      "0 < rc \<longleftrightarrow> source_has_current s" "yields E r Forward w s ?es"
    using indexed_load [OF sv s0(2,3)] by blast
  have fc: "is_frame_count s0 = length frames" using s0(2) sv by (simp add: walking_def serves_def)
  have e: "source_load_segment_edge E r (source_add_segment (new_source grp [] j) p) w Forward = (rc, s, w)"
  proof (cases "frames = []")
    case True
    then show ?thesis using s0 fc l by (simp add: source_load_segment_edge_def)
  next
    case False
    then have "frame_order (length frames) 0 Forward = [0..<length frames]"
      by (simp add: frame_order_def upt_conv_Cons)
    then show ?thesis
      using s0 fc l False by (auto simp: source_load_segment_edge_def source_load_indexed_from_def)
  qed
  have "source_has_current s \<longleftrightarrow> ?es \<noteq> []"
    using l(4) by (cases rule: yields.cases) auto
  then have "rc = (if ?es = [] then 0 else 1)" using l(2,3) by (auto simp: not_less)
  then show ?thesis using e sc l(4) unfolding file_scan_def by blast
qed

text \<open>Such a segment is in order for the wall clock scan when its entries are.\<close>

lemma indexed_segment_in_order:
  assumes "indexed_segment E r w (sp_path p) grp"
    and "wallclock_segment_metadata E r w (fresh_segment p False) = Some seg" and "\<not> ws_needs_sort seg"
    and "ws_min_realtime_ts seg \<noteq> 0"
    and "sorted_wrt (\<lambda>a b. compare_stored_entries a b \<le> 0) (snd (file_scan E r w (sp_path p)))"
  shows "in_order E r w p"
proof -
  obtain ip ir reader header frames e where
    f: "segment_index_path (sp_path p) 512 = Some ip" "index_reader_open (read_file ip w) (read_file (sp_path p) w) = Inr ir"
    and sv: "serves E r w (sp_path p) ir reader header frames"
    and sc: "file_scan E r w (sp_path p) = (Inr e, concat (map (entries_of E grp header frames) [0..<length frames]))"
    by (rule indexed_segment_serves [OF assms(1)])
  obtain s0 where s0: "source_load_index E r (source_add_segment (new_source grp [] (- 1)) p) w = (True, s0, w)"
      "walking (sp_path p) grp ir reader s0" "is_entries s0 = []"
    using fresh_source_index [OF f sv refl] by blast
  let ?es = "concat (map (entries_of E grp header frames) [0..<length frames])"
  obtain rc s where l: "load_frames E r w Forward [0..<length frames] s0 = (rc, s)" "rc = 0 \<or> rc = 1"
      "0 < rc \<longleftrightarrow> source_has_current s" "yields E r Forward w s ?es"
    using indexed_load [OF sv s0(2,3)] by blast
  have fc: "is_frame_count s0 = length frames" using s0(2) sv by (simp add: walking_def serves_def)
  have g: "group_from_path (sp_path p) (reader_root r) = Some grp" using assms(1) by (simp add: indexed_segment_def)
  have "ready E r w (fresh_segment p False) ?es"
  proof (cases "frames = []")
    case False
    then have "frame_order (length frames) 0 Forward = [0..<length frames]"
      by (simp add: frame_order_def upt_conv_Cons)
    then show ?thesis
      using s0 fc l False g
      by (auto simp: ready_def wallclock_prepare_source_def fresh_segment_def source_load_indexed_from_def)
  next
    case True
    have "\<exists>t. source_load_segment_fallback E r w s0 Forward = (0, t) \<and> \<not> source_has_current t"
      using sc True s0(2)
      by (auto simp: source_load_segment_fallback_def Let_def file_scan_def walking_def source_has_current_def)
    then show ?thesis
      using s0 fc True g
      by (auto simp: ready_def wallclock_prepare_source_def fresh_segment_def intro: yields_done)
  qed
  then show ?thesis using assms sc by (auto simp: in_order_def)
qed

text \<open>
  The same holds when the index cannot be opened: the segment is then scanned and sorted, which
  leaves entries that are in order as they are.
\<close>

definition index_unusable :: "world \<Rightarrow> string \<Rightarrow> bool" where
  "index_unusable w path \<longleftrightarrow>
     (case segment_index_path path 512 of
        None \<Rightarrow> True
      | Some ip \<Rightarrow> (case index_reader_open (read_file ip w) (read_file path w) of Inl _ \<Rightarrow> True | Inr _ \<Rightarrow> False))"

lemma unindexed_load:
  assumes "index_unusable w (sp_path p)" and "\<not> rp_repair_indexes r"
  obtains s where "source_load_index E r (source_add_segment (new_source grp [] j) p) w = (False, s, w)"
    and "is_segments s = [p]" and "is_segment_index s = 0"
  using assms that
  by (auto simp: index_unusable_def source_load_index_def source_add_segment_def new_source_def source_path_def
      source_repair_index_def Let_def split: option.splits sum.splits)

lemma unindexed_segment_in_order:
  assumes "index_unusable w (sp_path p)" and "\<not> rp_repair_indexes r"
    and "wallclock_segment_metadata E r w (fresh_segment p False) = Some seg" and "\<not> ws_needs_sort seg"
    and "ws_min_realtime_ts seg \<noteq> 0"
    and "file_scan E r w (sp_path p) = (Inr e, es)" and "sorted_wrt (\<lambda>a b. compare_stored_entries a b \<le> 0) es"
  shows "in_order E r w p"
proof -
  obtain grp where g: "group_from_path (sp_path p) (reader_root r) = Some grp" using scanned_group [OF assms(6)] by blast
  obtain s where s: "source_load_index E r (source_add_segment (new_source grp [] (- 1)) p) w = (False, s, w)"
      "is_segments s = [p]" "is_segment_index s = 0"
    by (rule unindexed_load [OF assms(1,2)])
  let ?t = "(source_clear_frame s)\<lparr>is_entries := es, is_segment_scan_fallback := True, is_frame_count := 0,
      is_entry_index := 0\<rparr>"
  have l: "source_load_segment_fallback E r w s Forward = (if es \<noteq> [] then 1 else 0, ?t)"
    using assms(6) s stored.qsort_id [OF assms(7)]
    by (simp add: source_load_segment_fallback_def Let_def file_scan_def source_path_def edge_index_def)
  have "materialised ?t" using s by (simp add: materialised_def)
  then have "yields E r Forward w ?t es" if "es \<noteq> []"
    using materialised_yields [of ?t E r w] that by simp
  moreover have "yields E r Forward w ?t es" if "es = []"
    using that by (simp add: yields_done source_has_current_def)
  ultimately have "ready E r w (fresh_segment p False) es"
    using g s(1) l by (auto simp: ready_def wallclock_prepare_source_def fresh_segment_def source_has_current_def)
  then show ?thesis using assms by (auto simp: in_order_def)
qed

subsection \<open>The wall clock scan\<close>

text \<open>
  A closed segment whose metadata promise the order of its entries, with an index built for it
  or none that can be opened, and whose entries are in that order.
\<close>

definition keeps_order :: "reader_env \<Rightarrow> RecorderPlayer \<Rightarrow> world \<Rightarrow> SegmentPath \<Rightarrow> bool" where
  "keeps_order E r w p \<longleftrightarrow>
     (\<exists>seg. wallclock_segment_metadata E r w (fresh_segment p False) = Some seg \<and> \<not> ws_needs_sort seg \<and>
        ws_min_realtime_ts seg \<noteq> 0) \<and>
     ((\<exists>grp. indexed_segment E r w (sp_path p) grp) \<or> index_unusable w (sp_path p)) \<and>
     (\<exists>e es. rec_player_scan_file E r w (sp_path p) append_stored_entry [] 0 = (Inr e, es) \<and>
        sorted_wrt (\<lambda>a b. compare_stored_entries a b \<le> 0) es)"

lemma keeps_order_in_order: "keeps_order E r w p \<Longrightarrow> \<not> rp_repair_indexes r \<Longrightarrow> in_order E r w p"
  unfolding keeps_order_def
  by (elim exE conjE disjE) (auto simp: file_scan_def intro: indexed_segment_in_order unindexed_segment_in_order)

text \<open>
  C37. On a reader that does not repair indexes, when every segment either must be sorted (it is
  open, or its footer or timestamps say that the clock went back) or holds its entries in order,
  with an index built for it or with none, and a plain scan of the store succeeds, the wall clock
  scan also succeeds, leaves the files alone and hands out exactly the entries of the plain scan,
  in the order of their timestamps.
\<close>

theorem wallclock_scan_sorts:
  assumes "\<not> rp_repair_indexes r" and "reader_paths r w = Some paths"
    and "\<forall>p \<in> set paths. must_sort E r w p \<or> keeps_order E r w p"
    and "rec_player_scan_all E r w append_stored_entry [] = (True, all)"
  shows "\<exists>out. rec_player_scan_wallclock E r w append_stored_entry [] = (True, out, w) \<and>
    mset out = mset all \<and> sorted_wrt (\<lambda>a b. compare_stored_entries a b \<le> 0) out"
  by (rule wallclock_scan_merges [OF assms(1,2) _ assms(4)]) (use assms(1,3) keeps_order_in_order in blast)

subsection \<open>Witnesses\<close>

text \<open>A store with a closed, indexed segment in one group and an open segment in another.\<close>

definition walk_env :: reader_env where
  "walk_env =
     \<lparr>rv_lib = demo_lib, rv_flatcc = demo_flatcc, rv_DefaultChunk = (\<lambda>bs. []),
      rv_Chunk = (\<lambda>bs. [\<lparr>ci_realtime_ts = 1000 + ucast (hd bs), ci_monotonic_ts = ucast (hd bs),
        ci_monotonic_tie_order = 0, ci_priority = 6, ci_pid = 1, ci_message = Some ''m'', ci_unit = None,
        fl_uid = 0, fl_gid = 0, fl_errno = 0, fl_hostname = None, fl_comm = None, fl_exe = None,
        fl_message_id = None, fl_fields = []\<rparr>]),
      rv_stale_enoent = (\<lambda>p. False), rv_inotify_init = False, rv_inotify_add_watch = (\<lambda>p. False)\<rparr>"

definition walk_store :: world where
  "walk_store =
     \<lparr>w_log_dir = ''/l'', w_dirs = [''/l'', ''/l/p3'', ''/l/p4''],
      w_files = [(''/l/p3/3.seg'', \<lparr>f_data = contents (demo_file True), f_mtime = 0\<rparr>),
        (''/l/p3/3.idx'', \<lparr>f_data = the (demo_index ''s.idx''), f_mtime = 0\<rparr>),
        (''/l/p4/7.seg'', \<lparr>f_data = contents (fst (demo_body False)), f_mtime = 0\<rparr>)],
      w_faults = [], w_time = 0\<rparr>"

definition walk_reader :: RecorderPlayer where
  "walk_reader = (the (rec_player_open walk_env ''/l'' walk_store))\<lparr>rp_decryptor := Some 2\<rparr>"

lemma walk_reader_fields:
  "rp_path walk_reader = ''/l''" "rp_path_is_directory walk_reader" "rp_decryptor walk_reader = Some 2"
  "rp_unit_filter walk_reader = None" "rp_group_filter walk_reader = []" "\<not> rp_repair_indexes walk_reader"
  by (simp_all add: walk_reader_def rec_player_open_def walk_store_def is_dir_def Let_def walk_env_def)

lemma walk_store_files:
  "read_file ''/l/p3/3.seg'' walk_store = Some (contents (demo_file True))"
  "read_file ''/l/p3/3.idx'' walk_store = Some (the (demo_index ''s.idx''))"
  "read_file ''/l/p4/7.seg'' walk_store = Some (contents (fst (demo_body False)))"
  by (simp_all add: read_file_def stat_def walk_store_def)

lemma walk_groups:
  "group_from_path ''/l/p3/3.seg'' (Some ''/l'') = Some ''p3''" "group_from_path ''/l/p4/7.seg'' (Some ''/l'') = Some ''p4''"
  "segment_index_path ''/l/p3/3.seg'' 512 = Some ''/l/p3/3.idx''"
  by code_simp+

lemma demo_names:
  "dir_entries ''/l'' [''/l'', ''/l/p3'', ''/l/p4''] = [''p3'', ''p4'']"
  "dir_entries ''/l/p3'' [''/l'', ''/l/p3'', ''/l/p4''] = []" "dir_entries ''/l/p4'' [''/l'', ''/l/p3'', ''/l/p4''] = []"
  "dir_entries ''/l'' [''/l/p3/3.seg'', ''/l/p3/3.idx'', ''/l/p4/7.seg''] = []"
  "dir_entries ''/l/p3'' [''/l/p3/3.seg'', ''/l/p3/3.idx'', ''/l/p4/7.seg''] = [''3.seg'', ''3.idx'']"
  "dir_entries ''/l/p4'' [''/l/p3/3.seg'', ''/l/p3/3.idx'', ''/l/p4/7.seg''] = [''7.seg'']"
  "group_name_valid ''p3''" "group_name_valid ''p4''"
  by code_simp+

lemma digit_three: "digit_char 3 = CHR ''3''"
  by code_simp

lemma demo_seqs:
  "segment_seq_of_name ''3.seg'' = Some 3" "segment_seq_of_name ''3.idx'' = None" "segment_seq_of_name ''7.seg'' = Some 7"
  using strtoull_decimal [of 3 "''.seg''"] strtoull_decimal [of 3 "''.idx''"] strtoull_decimal [of 7 "''.seg''"]
  by (simp_all add: segment_seq_of_name_def decimal.simps digit_chars digit_three no_digit_head_def is_digit_def)

lemma walk_store_listing:
  "w_dirs walk_store = [''/l'', ''/l/p3'', ''/l/p4'']"
  "map fst (w_files walk_store) = [''/l/p3/3.seg'', ''/l/p3/3.idx'', ''/l/p4/7.seg'']"
  by (simp_all add: walk_store_def)

lemma walk_dirs:
  "is_dir ''/l'' walk_store" "is_dir ''/l/p3'' walk_store" "is_dir ''/l/p4'' walk_store"
  "readdir ''/l'' walk_store = [''p3'', ''p4'']" "readdir ''/l/p3'' walk_store = [''3.seg'', ''3.idx'']"
  "readdir ''/l/p4'' walk_store = [''7.seg'']"
  by (simp_all only: is_dir_def readdir_def readdir_files_def readdir_dirs_def walk_store_listing demo_names) simp_all

lemma walk_reader_paths:
  "reader_paths walk_reader walk_store =
     Some [\<lparr>sp_path = ''/l/p3/3.seg'', sp_segment_seq = 3\<rparr>, \<lparr>sp_path = ''/l/p4/7.seg'', sp_segment_seq = 7\<rparr>]"
  by (simp add: reader_paths_def walk_reader_fields collect_segment_paths_def walk_dirs demo_names demo_seqs group_allowed_def
      collect_segment_paths_in_dir_def add_segment_path_def qsort_def compare_segment_path_def cmp3_def)

lemma demo_index_some: "demo_index ''s.idx'' = Some (the (demo_index ''s.idx''))"
  using rebuild_file [OF demo_index_built demo_segment_in_fs demo_file_length demo_file_scans(1)] by (metis option.sel)

lemma demo_indexed: "indexed_segment walk_env walk_reader walk_store ''/l/p3/3.seg'' ''p3''"
  unfolding indexed_segment_def
  using demo_file_scans(1) [of True] demo_file_length [of True] demo_index_built demo_index_some demo_segment_in_fs
  by (auto simp: walk_reader_fields walk_groups walk_store_files group_allowed_def walk_env_def intro!: exI)

lemma demo_body_length: "length (contents (fst (demo_body False))) < 2 ^ 64"
  using demo_file_length [of False] by (simp add: demo_file_contents)

lemma demo_body_scans:
  "segment_scan_path demo_lib (Some (contents (fst (demo_body False)))) (Some 2) None () =
     (Inr (stored_header (demo_header False) 0, empty_footer, length (contents (fst (demo_body False)))), ())"
  "segment_scan_path demo_lib (Some (contents (fst (demo_body False)))) (Some 2) (Some collect_frames) [] =
     (Inr (stored_header (demo_header False) 0, empty_footer, length (contents (fst (demo_body False)))),
      zip (demo_frame_infos False) [replicate 50 1, replicate 50 2])"
proof -
  have stop: "segment_scan_loop env (contents (fst (demo_body False)) @ []) (length (contents (fst (demo_body False)))) i c =
      (Inr (empty_footer, length (contents (fst (demo_body False)))), c)" for env :: "'c scan_env" and i c
    by (simp add: scan_at_end)
  note w = demo_head_ok demo_body_ok(1) demo_can_decrypt demo_decodes demo_no_footer [of False "[]"] stop
  have "0 < length (contents (fst (demo_body False)))" by (simp add: demo_body_ok demo_stored_def)
  then have ne: "contents (fst (demo_body False)) \<noteq> []" by auto
  show "segment_scan_path demo_lib (Some (contents (fst (demo_body False)))) (Some 2) None () =
     (Inr (stored_header (demo_header False) 0, empty_footer, length (contents (fst (demo_body False)))), ())"
    using scan_written_metadata [OF w, of "Some 2" "()"] ne
    by (simp add: segment_scan_path_def segment_scan_buffer_def)
  show "segment_scan_path demo_lib (Some (contents (fst (demo_body False)))) (Some 2) (Some collect_frames) [] =
     (Inr (stored_header (demo_header False) 0, empty_footer, length (contents (fst (demo_body False)))),
      zip (demo_frame_infos False) [replicate 50 1, replicate 50 2])"
    using scan_written_stop [OF w, of collect_frames "[]"] ne
    by (simp add: segment_scan_path_def segment_scan_buffer_def run_collect demo_frame_infos_def)
qed

lemma demo_scans:
  "\<exists>e es. file_scan walk_env walk_reader walk_store ''/l/p3/3.seg'' = (Inr e, es) \<and> map re_realtime_ts es = [1001, 1002]"
  "\<exists>e es. file_scan walk_env walk_reader walk_store ''/l/p4/7.seg'' = (Inr e, es) \<and> map re_realtime_ts es = [1001, 1002]"
proof -
  note g = walk_reader_fields walk_groups walk_env_def demo_frame_infos_def demo_frames_def frame_entries_def
    stored_header_def demo_header_def full_entry_def Let_def group_allowed_def
  show "\<exists>e es. file_scan walk_env walk_reader walk_store ''/l/p3/3.seg'' = (Inr e, es) \<and> map re_realtime_ts es = [1001, 1002]"
    using file_scan_of_frames [OF walk_store_files(1) demo_file_length, of walk_reader "''p3''" walk_env]
      demo_file_scans(2) [of True] by (simp add: g)
  show "\<exists>e es. file_scan walk_env walk_reader walk_store ''/l/p4/7.seg'' = (Inr e, es) \<and> map re_realtime_ts es = [1001, 1002]"
    using file_scan_of_frames [OF walk_store_files(3) demo_body_length, of walk_reader "''p4''" walk_env]
      demo_body_scans(2) by (simp add: g)
qed

theorem indexed_walk_matches_scan_witness:
  "\<exists>rc s committed_end es.
    source_load_segment_edge walk_env walk_reader
      (source_add_segment (new_source ''p3'' [] 0) \<lparr>sp_path = ''/l/p3/3.seg'', sp_segment_seq = 3\<rparr>) walk_store Forward =
      (rc, s, walk_store) \<and>
    rec_player_scan_file walk_env walk_reader walk_store ''/l/p3/3.seg'' append_stored_entry [] 0 = (Inr committed_end, es) \<and>
    rc = (if es = [] then 0 else 1) \<and> yields walk_env walk_reader Forward walk_store s es"
  by (rule indexed_walk_matches_scan [OF demo_indexed]) simp

lemma compare_by_time: "re_realtime_ts a < re_realtime_ts b \<Longrightarrow> compare_stored_entries a b \<le> 0"
  by (simp add: compare_stored_entries_def cmp3_def)

lemma demo_kinds:
  "keeps_order walk_env walk_reader walk_store \<lparr>sp_path = ''/l/p3/3.seg'', sp_segment_seq = 3\<rparr>"
  "must_sort walk_env walk_reader walk_store \<lparr>sp_path = ''/l/p4/7.seg'', sp_segment_seq = 7\<rparr>"
proof -
  let ?p = "\<lparr>sp_path = ''/l/p3/3.seg'', sp_segment_seq = 3\<rparr>"
  let ?seg = "fresh_segment ?p False\<lparr>ws_min_realtime_ts := 1000, ws_max_realtime_ts := 1001\<rparr>"
  have m: "wallclock_segment_metadata walk_env walk_reader walk_store (fresh_segment ?p False) = Some ?seg"
    using demo_file_scans(1) [of True]
    by (simp add: wallclock_segment_metadata_def fresh_segment_def walk_store_files walk_reader_fields walk_env_def
        stored_header_def demo_header_def demo_footer_def Let_def)
  obtain e es where f: "file_scan walk_env walk_reader walk_store ''/l/p3/3.seg'' = (Inr e, es)"
    "map re_realtime_ts es = [1001, 1002]" using demo_scans(1) by (elim exE conjE)
  then obtain a b where "es = [a, b]" "re_realtime_ts a = 1001" "re_realtime_ts b = 1002" by (auto simp: map_eq_Cons_conv)
  then have "sorted_wrt (\<lambda>a b. compare_stored_entries a b \<le> 0) es" by (simp add: compare_by_time)
  then show "keeps_order walk_env walk_reader walk_store ?p"
    using demo_indexed m f unfolding keeps_order_def by (auto simp: fresh_segment_def file_scan_def)
  show "must_sort walk_env walk_reader walk_store \<lparr>sp_path = ''/l/p4/7.seg'', sp_segment_seq = 7\<rparr>"
    using demo_body_scans(1)
    by (simp add: must_sort_def wallclock_segment_metadata_def fresh_segment_def walk_store_files walk_reader_fields
        walk_env_def empty_footer_def Let_def)
qed

theorem wallclock_scan_sorts_witness:
  "\<exists>out. rec_player_scan_wallclock walk_env walk_reader walk_store append_stored_entry [] = (True, out, walk_store) \<and>
    length out = 4 \<and> sorted_wrt (\<lambda>a b. compare_stored_entries a b \<le> 0) out"
proof -
  obtain e es e' es' where f: "file_scan walk_env walk_reader walk_store ''/l/p3/3.seg'' = (Inr e, es)"
      "map re_realtime_ts es = [1001, 1002]"
      "file_scan walk_env walk_reader walk_store ''/l/p4/7.seg'' = (Inr e', es')" "map re_realtime_ts es' = [1001, 1002]"
    using demo_scans by (elim exE conjE)
  have all: "rec_player_scan_all walk_env walk_reader walk_store append_stored_entry [] = (True, es @ es')"
    using f by (simp add: rec_player_scan_all_def walk_reader_paths scan_file_appends)
  have "length es = 2" "length es' = 2" using f(2,4) by (auto simp: map_eq_Cons_conv)
  then have l: "length out = 4" if "mset out = mset (es @ es')" for out
    using mset_eq_length [OF that] by simp
  show ?thesis
    using wallclock_scan_sorts [OF walk_reader_fields(6) walk_reader_paths _ all] demo_kinds l by auto
qed

end
