(* ===== verification/Reader_Iter.thy ===== *)
theory Reader_Iter
  imports Reader_Source
begin

text \<open>
  The iterator of \<^verbatim>\<open>src/librecorder.c\<close>: one source per group, merged in the selected order by
  \<^verbatim>\<open>rec_player_next\<close> and \<^verbatim>\<open>rec_player_previous\<close>; the seeks, the cursors, the follow mode and
  the poll interface. An operation takes the reader and the file system and returns both, since
  an index may be repaired while reading.
\<close>

type_synonym reader_state = "RecorderPlayer \<times> world"

subsection \<open>Sources\<close>

fun each_source ::
    "(IteratorSource \<Rightarrow> world \<Rightarrow> bool \<times> IteratorSource \<times> world) \<Rightarrow> IteratorSource list \<Rightarrow> world \<Rightarrow>
     bool \<times> IteratorSource list \<times> world" where
  "each_source f [] w = (True, [], w)"
| "each_source f (s # ss) w =
     (case f s w of
        (ok, s', w') \<Rightarrow>
          if \<not> ok then (False, s' # ss, w')
          else case each_source f ss w' of (ok', ss', w'') \<Rightarrow> (ok', s' # ss', w''))"

definition on_sources ::
    "(IteratorSource \<Rightarrow> world \<Rightarrow> bool \<times> IteratorSource \<times> world) \<Rightarrow> RecorderPlayer \<Rightarrow> world \<Rightarrow>
     bool \<times> RecorderPlayer \<times> world" where
  "on_sources f r w =
     (case each_source f (rp_sources r) w of (ok, ss, w') \<Rightarrow> (ok, r\<lparr>rp_sources := ss\<rparr>, w'))"

fun add_to_group :: "string \<Rightarrow> SegmentPath \<Rightarrow> IteratorSource list \<Rightarrow> IteratorSource list" where
  "add_to_group grp path [] = [source_add_segment (new_source grp [] 0) path]"
| "add_to_group grp path (s # ss) =
     (if is_group s = grp then source_add_segment s path # ss else s # add_to_group grp path ss)"

fun collect_sources ::
    "RecorderPlayer \<Rightarrow> SegmentPath list \<Rightarrow> IteratorSource list \<Rightarrow> IteratorSource list option" where
  "collect_sources r [] ss = Some ss"
| "collect_sources r (p # ps) ss =
     (case group_from_path (sp_path p) (reader_root r) of
        None \<Rightarrow> None
      | Some grp \<Rightarrow> collect_sources r ps (add_to_group grp p ss))"

definition iterator_collect_sources :: "RecorderPlayer \<Rightarrow> world \<Rightarrow> bool \<times> RecorderPlayer" where
  "iterator_collect_sources r w =
     (let r' = iterator_reset r in
      case reader_paths r' w of
        None \<Rightarrow> (False, r')
      | Some paths \<Rightarrow>
          (case collect_sources r' paths [] of
             None \<Rightarrow> (False, r')
           | Some ss \<Rightarrow> (True, r'\<lparr>rp_sources := ss\<rparr>)))"

definition position_source ::
    "reader_env \<Rightarrow> RecorderPlayer \<Rightarrow> direction \<Rightarrow> IteratorSource \<Rightarrow> world \<Rightarrow> bool \<times> IteratorSource \<times> world" where
  "position_source E r dir s w =
     (case source_position_edge E r s w dir of (rc, s', w') \<Rightarrow> (rc \<ge> 0, s', w'))"

definition iterator_initialize ::
    "reader_env \<Rightarrow> direction \<Rightarrow> RecorderPlayer \<Rightarrow> world \<Rightarrow> bool \<times> RecorderPlayer \<times> world" where
  "iterator_initialize E dir r w =
     (case iterator_collect_sources r w of
        (False, r') \<Rightarrow> (False, r', w)
      | (True, r') \<Rightarrow>
          (case on_sources (position_source E r' dir) r' w of
             (False, r'', w') \<Rightarrow> (False, iterator_reset r'', w')
           | (True, r'', w') \<Rightarrow> (True, r''\<lparr>rp_last_direction := dir\<rparr>, w')))"

definition iterator_seek_realtime ::
    "reader_env \<Rightarrow> u64 \<Rightarrow> RecorderPlayer \<Rightarrow> world \<Rightarrow> bool \<times> RecorderPlayer \<times> world" where
  "iterator_seek_realtime E usec r w =
     (case iterator_initialize E Forward r w of
        (False, r', w') \<Rightarrow> (False, r', w')
      | (True, r', w') \<Rightarrow>
          (case on_sources (source_seek_realtime E r' usec) r' w' of
             (False, r'', w'') \<Rightarrow> (False, r'', w'')
           | (True, r'', w'') \<Rightarrow>
               (True, r''\<lparr>rp_current_valid := False, rp_current_entry := None\<rparr>, w'')))"

text \<open>The source with the first entry in the direction; of equal ones the first source.\<close>

definition dir_sign :: "direction \<Rightarrow> int" where
  "dir_sign dir = (case dir of Forward \<Rightarrow> 1 | Reverse \<Rightarrow> - 1 | DirectionNone \<Rightarrow> 0)"

fun pick_from ::
    "RecorderPlayerOrder \<Rightarrow> direction \<Rightarrow> IteratorSource list \<Rightarrow> nat \<Rightarrow> (nat \<times> RecorderEntry) option \<Rightarrow>
     (nat \<times> RecorderEntry) option" where
  "pick_from order dir [] i result = result"
| "pick_from order dir (s # ss) i result =
     pick_from order dir ss (i + 1)
       (if source_has_current s \<and>
           (case result of
              None \<Rightarrow> True
            | Some (_, e) \<Rightarrow> compare_iterator_entries order (source_current s) e * dir_sign dir < 0)
        then Some (i, source_current s) else result)"

definition iterator_pick :: "RecorderPlayer \<Rightarrow> direction \<Rightarrow> (nat \<times> RecorderEntry) option" where
  "iterator_pick r dir = pick_from (rp_order r) dir (rp_sources r) 0 None"

text \<open>The end of both iterator operations: the picked entry becomes the current one.\<close>

definition select_entry :: "direction \<Rightarrow> nat \<times> RecorderEntry \<Rightarrow> RecorderPlayer \<Rightarrow> RecorderPlayer" where
  "select_entry dir pick r =
     r\<lparr>rp_current_source := Some (fst pick), rp_current_entry := Some (snd pick),
       rp_current_valid := True, rp_last_direction := dir\<rparr>"

definition no_entry :: "RecorderPlayer \<Rightarrow> RecorderPlayer" where
  "no_entry r = r\<lparr>rp_current_entry := None, rp_current_valid := False\<rparr>"

definition current_entry :: "RecorderPlayer \<Rightarrow> RecorderEntry option" where
  "current_entry r = (if rp_current_valid r then rp_current_entry r else None)"

text \<open>\<^verbatim>\<open>reader->sources[current_source]\<close>; outside the array nothing happens, the code has no check.\<close>

definition advance_current ::
    "reader_env \<Rightarrow> direction \<Rightarrow> RecorderPlayer \<Rightarrow> world \<Rightarrow> bool \<times> RecorderPlayer \<times> world" where
  "advance_current E dir r w =
     (case rp_current_source r of
        None \<Rightarrow> (True, r, w)
      | Some i \<Rightarrow>
          if i \<ge> length (rp_sources r) then (True, r, w)
          else (case source_advance E r dir (rp_sources r ! i) w of
                  (rc, s, w') \<Rightarrow> (rc \<ge> 0, r\<lparr>rp_sources := (rp_sources r)[i := s]\<rparr>, w')))"

subsection \<open>Seeks\<close>

definition rec_player_seek_head :: "reader_env \<Rightarrow> RecorderPlayer \<Rightarrow> world \<Rightarrow> bool \<times> RecorderPlayer \<times> world" where
  "rec_player_seek_head E r w =
     (case iterator_initialize E Forward (clear_entries r) w of
        (False, r', w') \<Rightarrow> (False, r', w')
      | (True, r', w') \<Rightarrow> (True, r'\<lparr>rp_order_changed := False\<rparr>, w'))"

definition rec_player_seek_tail :: "reader_env \<Rightarrow> RecorderPlayer \<Rightarrow> world \<Rightarrow> bool \<times> RecorderPlayer \<times> world" where
  "rec_player_seek_tail E r w =
     (case initialize_tail_follow E w (clear_entries r) of
        (False, r') \<Rightarrow> (False, clear_entries r', w)
      | (True, r') \<Rightarrow>
          (case iterator_initialize E Reverse r' w of
             (False, r'', w') \<Rightarrow> (False, clear_entries r'', w')
           | (True, r'', w') \<Rightarrow>
               (True, r''\<lparr>rp_last_direction := DirectionNone, rp_current := Some 0,
                          rp_order_changed := False\<rparr>, w')))"

definition rec_player_seek_realtime_usec ::
    "reader_env \<Rightarrow> u64 \<Rightarrow> RecorderPlayer \<Rightarrow> world \<Rightarrow> bool \<times> RecorderPlayer \<times> world" where
  "rec_player_seek_realtime_usec E usec r w =
     (case iterator_seek_realtime E usec (clear_entries r) w of
        (False, r', w') \<Rightarrow> (False, r', w')
      | (True, r', w') \<Rightarrow> (True, r'\<lparr>rp_order_changed := False\<rparr>, w'))"

subsection \<open>Cursors\<close>

text \<open>
  A cursor seek leaves one source standing on the cursor entry; the others are positioned when
  the iterator first moves away from it.
\<close>

definition forget_current :: "nat option \<Rightarrow> RecorderPlayer \<Rightarrow> RecorderPlayer" where
  "forget_current i r =
     r\<lparr>rp_current_source := i, rp_current_entry := None, rp_current_valid := False,
       rp_last_direction := DirectionNone\<rparr>"

definition iterator_position_at_cursor ::
    "reader_env \<Rightarrow> nat \<Rightarrow> RecorderPlayer \<Rightarrow> world \<Rightarrow> bool \<times> RecorderPlayer \<times> world" where
  "iterator_position_at_cursor E i r w =
     (if i \<ge> length (rp_sources r) \<or> \<not> source_has_current (rp_sources r ! i) then (False, r, w)
      else
        let cursor_entry = source_current (rp_sources r ! i) in
        case on_sources (skip_while E r Forward (\<lambda>e. compare_stored_entries e cursor_entry < 0)) r w of
          (False, r', w') \<Rightarrow> (False, r', w')
        | (True, r', w') \<Rightarrow>
            if \<not> source_has_current (rp_sources r' ! i) \<or>
               compare_stored_entries (source_current (rp_sources r' ! i)) cursor_entry \<noteq> 0
            then (False, r', w')
            else (True, forget_current (Some i) r', w'))"

fun seek_others ::
    "reader_env \<Rightarrow> RecorderPlayer \<Rightarrow> u64 \<Rightarrow> nat \<Rightarrow> nat \<Rightarrow> IteratorSource list \<Rightarrow> world \<Rightarrow>
     bool \<times> IteratorSource list \<times> world" where
  "seek_others E r usec skipped i [] w = (True, [], w)"
| "seek_others E r usec skipped i (s # ss) w =
     (case (if i = skipped then (True, s, w) else source_seek_realtime E r usec s w) of
        (ok, s', w') \<Rightarrow>
          if \<not> ok then (False, s' # ss, w')
          else case seek_others E r usec skipped (i + 1) ss w' of (ok', ss', w'') \<Rightarrow> (ok', s' # ss', w''))"

definition iterator_seek_other_sources_realtime ::
    "reader_env \<Rightarrow> nat \<Rightarrow> u64 \<Rightarrow> RecorderPlayer \<Rightarrow> world \<Rightarrow> bool \<times> RecorderPlayer \<times> world" where
  "iterator_seek_other_sources_realtime E i usec r w =
     (if i \<ge> length (rp_sources r) then (False, r, w)
      else case seek_others E r usec i 0 (rp_sources r) w of
             (ok, ss, w') \<Rightarrow> (ok, r\<lparr>rp_sources := ss\<rparr>, w'))"

definition iterator_materialize_cursor_sources ::
    "reader_env \<Rightarrow> RecorderPlayer \<Rightarrow> world \<Rightarrow> bool \<times> RecorderPlayer \<times> world" where
  "iterator_materialize_cursor_sources E r0 w =
     (if \<not> rp_cursor_sources_pending r0 then (True, r0, w)
      else case iterator_collect_sources r0 w of
        (False, r) \<Rightarrow> (False, r, w)
      | (True, r) \<Rightarrow>
          (case find_index (\<lambda>s. is_group s = rp_cursor_group r) (rp_sources r) of
             None \<Rightarrow> (False, r, w)
           | Some i \<Rightarrow>
               (case source_seek_cursor E r (rp_cursor_segment_seq r) (rp_cursor_frame_offset r)
                       (rp_cursor_frame_entry_index r) (rp_sources r ! i) w of
                  (None, s, w') \<Rightarrow> (False, r\<lparr>rp_sources := (rp_sources r)[i := s]\<rparr>, w')
                | (Some realtime_ts, s, w') \<Rightarrow>
                    (let r1 = r\<lparr>rp_sources := (rp_sources r)[i := s]\<rparr> in
                     case (if rp_order r1 = OrderRecorded
                           then
                             (case on_sources (source_seek_recorded_after E r1 (source_current s)) r1 w' of
                                (ok, r2, w'') \<Rightarrow>
                                  (ok, if ok then forget_current (Some i) r2 else r2, w''))
                           else
                             (case iterator_seek_other_sources_realtime E i realtime_ts r1 w' of
                                (False, r2, w'') \<Rightarrow> (False, r2, w'')
                              | (True, r2, w'') \<Rightarrow> iterator_position_at_cursor E i r2 w'')) of
                       (ok, r3, w3) \<Rightarrow>
                         (ok, if ok then r3\<lparr>rp_cursor_sources_pending := False\<rparr> else r3, w3)))))"

definition rec_player_seek_cursor_once ::
    "reader_env \<Rightarrow> string \<Rightarrow> u64 \<Rightarrow> u64 \<Rightarrow> u32 \<Rightarrow> RecorderPlayer \<Rightarrow> world \<Rightarrow> bool \<times> RecorderPlayer \<times> world" where
  "rec_player_seek_cursor_once E grp segment_seq frame_offset frame_entry_index r0 w =
     (let path = (if rp_path_is_directory r0
                  then rp_path r0 @ ''/'' @ grp @ ''/'' @ decimal (unat segment_seq) @ ''.seg''
                  else rp_path r0)
      in
      if length path \<ge> 512 then (False, r0, w)
      else
        let r = (rec_player_follow_reset (iterator_reset r0))
                  \<lparr>rp_follow_pending := False, rp_follow_topology_pending := False\<rparr>;
            source = source_add_segment (new_source grp [] 0)
                       \<lparr>sp_path = path, sp_segment_seq = segment_seq\<rparr>;
            cursor_reader = r\<lparr>rp_sources := [source], rp_group_filter := [], rp_unit_filter := None\<rparr>
        in
        case source_seek_cursor E cursor_reader segment_seq frame_offset frame_entry_index source w of
          (None, _, w1) \<Rightarrow> (False, iterator_reset r, w1)
        | (Some _, s, w1) \<Rightarrow>
            if \<not> group_allowed r grp then
              (let key = (source_current s)\<lparr>re_group := Some grp\<rparr>;
                   positioned =
                     (if rp_order r = OrderRecorded
                      then
                        (case iterator_collect_sources r w1 of
                           (False, r1) \<Rightarrow> (False, r1, w1)
                         | (True, r1) \<Rightarrow> on_sources (source_seek_recorded_after E r1 key) r1 w1)
                      else
                        (case iterator_seek_realtime E (re_realtime_ts key) r w1 of
                           (False, r1, w2) \<Rightarrow> (False, r1, w2)
                         | (True, r1, w2) \<Rightarrow>
                             on_sources (skip_while E r1 Forward
                               (\<lambda>e. compare_stored_entries e key \<le> 0)) r1 w2))
               in case positioned of
                    (False, r2, w3) \<Rightarrow> (False, r2, w3)
                  | (True, r2, w3) \<Rightarrow>
                      (True, r2\<lparr>rp_last_direction := Forward, rp_order_changed := False\<rparr>, w3))
            else
              (True, (forget_current (Some 0) r)
                 \<lparr>rp_sources := [s], rp_cursor_pending := True, rp_cursor_sources_pending := True,
                  rp_cursor_group := grp, rp_cursor_segment_seq := segment_seq,
                  rp_cursor_frame_offset := frame_offset,
                  rp_cursor_frame_entry_index := frame_entry_index, rp_order_changed := False\<rparr>, w1))"

text \<open>
  \<^verbatim>\<open>sscanf\<close> with the conversion \<^verbatim>\<open>%llx\<close>: leading white space, a sign and \<^verbatim>\<open>0x\<close> are accepted,
  too large a number saturates.
\<close>

definition scan_hex :: "string \<Rightarrow> (u64 \<times> string) option" where
  "scan_hex txt =
     (let s = dropWhile is_space txt;
          neg = (s \<noteq> [] \<and> hd s = CHR ''-'');
          s' = (if s \<noteq> [] \<and> (hd s = CHR ''-'' \<or> hd s = CHR ''+'') then tl s else s);
          s'' = (if take 2 s' = ''0x'' \<or> take 2 s' = ''0X'' then drop 2 s' else s');
          ds = takeWhile is_hex s'';
          v = hex_value ds
      in if ds = [] then None
         else Some (if v > 18446744073709551615 then UINT64_MAX
                    else if neg then - of_nat v else of_nat v, dropWhile is_hex s''))"

definition scan_literal :: "string \<Rightarrow> string \<Rightarrow> string option" where
  "scan_literal lit txt = (if take (length lit) txt = lit then Some (drop (length lit) txt) else None)"

text \<open>\<^verbatim>\<open>%63[^:]\<close>: up to 63 characters other than a colon, at least one.\<close>

definition scan_group :: "string \<Rightarrow> (string \<times> string) option" where
  "scan_group txt =
     (let g = take 63 (takeWhile (\<lambda>c. c \<noteq> CHR '':'') txt) in
      if g = [] then None else Some (g, drop (length g) txt))"

definition parse_cursor :: "string \<Rightarrow> (u64 \<times> string \<times> u64 \<times> u64 \<times> u32) option" where
  "parse_cursor cursor =
     Option.bind (scan_literal ''rec1:'' cursor) (\<lambda>t0.
     Option.bind (scan_hex t0) (\<lambda>(store, t1).
     Option.bind (scan_literal '':'' t1) (\<lambda>t2.
     Option.bind (scan_group t2) (\<lambda>(grp, t3).
     Option.bind (scan_literal '':'' t3) (\<lambda>t4.
     Option.bind (scan_hex t4) (\<lambda>(segment, t5).
     Option.bind (scan_literal '':'' t5) (\<lambda>t6.
     Option.bind (scan_hex t6) (\<lambda>(frame, t7).
     Option.bind (scan_literal '':'' t7) (\<lambda>t8.
     Option.bind (scan_hex t8) (\<lambda>(entry, tail).
       if tail \<noteq> [] \<or> \<not> group_name_valid grp then None
       else Some (store, grp, segment, frame, ucast entry)))))))))))"

function hex_str :: "nat \<Rightarrow> string" where
  "hex_str n = (if n < 16 then [hex_lower n] else hex_str (n div 16) @ [hex_lower (n mod 16)])"
  by pat_completeness auto
termination
  by (relation "measure id") auto

declare hex_str.simps [simp del]

definition rec_player_get_cursor :: "RecorderPlayer \<Rightarrow> string option" where
  "rec_player_get_cursor r =
     (case (current_entry r, rp_store_id r) of
        (Some e, Some store_id) \<Rightarrow>
          (case re_group e of
             None \<Rightarrow> None
           | Some grp \<Rightarrow>
               if \<not> group_name_valid grp then None
               else Some (snprintf_str 192
                 (''rec1:'' @ hex_digits 16 (unat store_id) @ '':'' @ grp @ '':'' @
                  hex_str (unat (re_segment_seq e)) @ '':'' @ hex_str (unat (re_frame_offset e)) @ '':'' @
                  hex_str (unat (re_frame_entry_index e)))))
      | _ \<Rightarrow> None)"

definition cursor_names :: "string \<Rightarrow> u64 \<Rightarrow> u64 \<Rightarrow> u32 \<Rightarrow> RecorderEntry \<Rightarrow> bool" where
  "cursor_names grp segment_seq frame_offset frame_entry_index e \<longleftrightarrow>
     re_group e = Some grp \<and> re_segment_seq e = segment_seq \<and>
     at_position frame_offset frame_entry_index e"

definition rec_player_seek_cursor ::
    "reader_env \<Rightarrow> string \<Rightarrow> RecorderPlayer \<Rightarrow> world \<Rightarrow> (errno + unit) \<times> RecorderPlayer \<times> world" where
  "rec_player_seek_cursor E cursor r w =
     (case (rp_store_id r, parse_cursor cursor) of
        (Some reader_store, Some (store_id, grp, segment_seq, frame_offset, frame_entry_index)) \<Rightarrow>
          if store_id \<noteq> reader_store then (Inl ESTALE, r, w)
          else if (case current_entry r of
                     None \<Rightarrow> False
                   | Some e \<Rightarrow> cursor_names grp segment_seq frame_offset frame_entry_index e)
          then (Inr (), (no_entry r)\<lparr>rp_cursor_pending := True, rp_cursor_sources_pending := False\<rparr>, w)
          else
            (case rec_player_seek_cursor_once E grp segment_seq frame_offset frame_entry_index r w of
               (True, r', w') \<Rightarrow> (Inr (), r', w')
             | (False, r', w') \<Rightarrow> (Inl EOTHER, iterator_reset r', w'))
      | _ \<Rightarrow> (Inl EINVAL, r, w))"

definition rec_player_test_cursor :: "RecorderPlayer \<Rightarrow> string \<Rightarrow> int" where
  "rec_player_test_cursor r cursor =
     (case (current_entry r, rp_store_id r, parse_cursor cursor) of
        (Some e, Some reader_store, Some (store_id, grp, segment_seq, frame_offset, frame_entry_index)) \<Rightarrow>
          if store_id \<noteq> reader_store then - 1
          else if cursor_names grp segment_seq frame_offset frame_entry_index e then 1 else 0
      | _ \<Rightarrow> - 1)"

subsection \<open>Moving\<close>

text \<open>One step back from the first entry behind the key, or the end of the source.\<close>

definition step_back ::
    "reader_env \<Rightarrow> RecorderPlayer \<Rightarrow> IteratorSource \<Rightarrow> world \<Rightarrow> bool \<times> IteratorSource \<times> world" where
  "step_back E r s w =
     (case (if source_has_current s then source_advance E r Reverse s w
            else source_position_edge E r s w Reverse) of
        (rc, s', w') \<Rightarrow> (rc \<ge> 0, s', w'))"

definition and_then ::
    "bool \<times> IteratorSource \<times> world \<Rightarrow>
     (IteratorSource \<Rightarrow> world \<Rightarrow> bool \<times> IteratorSource \<times> world) \<Rightarrow> bool \<times> IteratorSource \<times> world" where
  "and_then x f = (case x of (ok, s, w) \<Rightarrow> if ok then f s w else (False, s, w))"

definition reposition_recorded ::
    "reader_env \<Rightarrow> RecorderPlayer \<Rightarrow> RecorderEntry \<Rightarrow> direction \<Rightarrow> IteratorSource \<Rightarrow> world \<Rightarrow>
     bool \<times> IteratorSource \<times> world" where
  "reposition_recorded E r key dir s w =
     and_then (source_seek_recorded_after E r key s w)
       (\<lambda>s w. if dir = Forward then (True, s, w)
              else and_then (step_back E r s w)
                (skip_while E r Reverse (\<lambda>e. compare_iterator_entries (rp_order r) e key \<ge> 0)))"

definition reposition_wallclock ::
    "reader_env \<Rightarrow> RecorderPlayer \<Rightarrow> RecorderEntry \<Rightarrow> direction \<Rightarrow> IteratorSource \<Rightarrow> world \<Rightarrow>
     bool \<times> IteratorSource \<times> world" where
  "reposition_wallclock E r key dir s w =
     (if dir = Forward then skip_while E r Forward (\<lambda>e. compare_stored_entries e key \<le> 0) s w
      else and_then (skip_while E r Forward (\<lambda>e. compare_stored_entries e key < 0) s w) (step_back E r))"

definition repositioned :: "direction \<Rightarrow> RecorderPlayer \<Rightarrow> RecorderPlayer" where
  "repositioned dir r = (forget_current None r)\<lparr>rp_last_direction := dir\<rparr>"

definition iterator_reposition_after_current ::
    "reader_env \<Rightarrow> direction \<Rightarrow> RecorderPlayer \<Rightarrow> world \<Rightarrow> bool \<times> RecorderPlayer \<times> world" where
  "iterator_reposition_after_current E dir r w =
     (case current_entry r of
        None \<Rightarrow> (False, r, w)
      | Some key \<Rightarrow>
          if (case re_group key of None \<Rightarrow> True | Some grp \<Rightarrow> length grp \<ge> 64) then (False, r, w)
          else if rp_order r = OrderRecorded then
            (case iterator_collect_sources r w of
               (False, r1) \<Rightarrow> (False, r1, w)
             | (True, r1) \<Rightarrow>
                 (case on_sources (reposition_recorded E r1 key dir) r1 w of
                    (ok, r2, w') \<Rightarrow> (ok, if ok then repositioned dir r2 else r2, w')))
          else
            (case iterator_seek_realtime E (re_realtime_ts key) r w of
               (False, r1, w1) \<Rightarrow> (False, r1, w1)
             | (True, r1, w1) \<Rightarrow>
                 (case on_sources (reposition_wallclock E r1 key dir) r1 w1 of
                    (ok, r2, w') \<Rightarrow> (ok, if ok then repositioned dir r2 else r2, w'))))"

definition iterator_next_follow_entry ::
    "reader_env \<Rightarrow> RecorderPlayer \<Rightarrow> world \<Rightarrow> int \<times> RecorderPlayer" where
  "iterator_next_follow_entry E r w =
     (let at_end = (\<lambda>r. case rp_current r of None \<Rightarrow> True | Some i \<Rightarrow> i \<ge> length (rp_entries r));
          deliver = (\<lambda>r.
            if at_end r then (0, r)
            else
              (let i = the (rp_current r) in
               (1, r\<lparr>rp_current_entry := Some (rp_entries r ! i), rp_current := Some (i + 1),
                     rp_current_valid := True, rp_current_source := None,
                     rp_last_direction := Forward\<rparr>)))
      in
      if rp_follow_pending r \<or> at_end r
      then (case append_pending_entries E w r of
              (False, r') \<Rightarrow> (- 1, r')
            | (True, r') \<Rightarrow> deliver (r'\<lparr>rp_follow_pending := False\<rparr>))
      else deliver r)"

text \<open>The positioning of \<^verbatim>\<open>rec_player_next\<close>, branch by branch, before it picks a source.\<close>

definition next_position ::
    "reader_env \<Rightarrow> RecorderPlayer \<Rightarrow> world \<Rightarrow> bool \<times> RecorderPlayer \<times> world" where
  "next_position E r w =
     (if rp_cursor_pending r
      then (True, r\<lparr>rp_cursor_pending := False, rp_last_direction := Forward\<rparr>, w)
      else if rp_order_changed r \<and> rp_current_valid r then
        (case (if rp_cursor_sources_pending r then iterator_materialize_cursor_sources E r w
               else (True, r, w)) of
           (False, r1, w1) \<Rightarrow> (False, r1, w1)
         | (True, r1, w1) \<Rightarrow>
             (case iterator_reposition_after_current E Forward r1 w1 of
                (ok, r2, w2) \<Rightarrow> (ok, if ok then r2\<lparr>rp_order_changed := False\<rparr> else r2, w2)))
      else if rp_cursor_sources_pending r \<and> rp_current_valid r then
        (case iterator_materialize_cursor_sources E r w of
           (False, r1, w1) \<Rightarrow> (False, r1, w1)
         | (True, r1, w1) \<Rightarrow>
             if rp_order r1 = OrderWallclock then advance_current E Forward r1 w1 else (True, r1, w1))
      else if rp_last_direction r = Reverse \<and> rp_current_valid r then
        iterator_reposition_after_current E Forward r w
      else if rp_last_direction r \<noteq> Forward then
        (case rec_player_seek_head E r w of
           (ok, r1, w1) \<Rightarrow> (ok, if ok then r1\<lparr>rp_order_changed := False\<rparr> else r1, w1))
      else if rp_current_valid r then advance_current E Forward r w
      else (True, r, w))"

definition rec_player_next :: "reader_env \<Rightarrow> RecorderPlayer \<Rightarrow> world \<Rightarrow> int \<times> RecorderPlayer \<times> world" where
  "rec_player_next E r w =
     (if rp_follow_initialized r \<and> rp_current r \<noteq> None \<and>
         (the (rp_current r) < length (rp_entries r) \<or> \<not> rp_current_valid r \<or>
          rp_current_source r = None)
      then (case iterator_next_follow_entry E r w of (rc, r') \<Rightarrow> (rc, r', w))
      else case next_position E r w of
        (False, r', w') \<Rightarrow> (- 1, r', w')
      | (True, r', w') \<Rightarrow>
          (case iterator_pick r' Forward of
             Some pick \<Rightarrow> (1, select_entry Forward pick r', w')
           | None \<Rightarrow>
               if rp_follow_initialized r'
               then (case iterator_next_follow_entry E (no_entry r') w' of (rc, r'') \<Rightarrow> (rc, r'', w'))
               else (0, no_entry r', w')))"

definition cursor_target :: "RecorderPlayer \<Rightarrow> RecorderEntry option" where
  "cursor_target r =
     (case rp_current_entry r of
        Some e \<Rightarrow> Some e
      | None \<Rightarrow>
          (case rp_current_source r of
             None \<Rightarrow> None
           | Some i \<Rightarrow>
               if i < length (rp_sources r) \<and> source_has_current (rp_sources r ! i)
               then Some (source_current (rp_sources r ! i)) else None))"

definition previous_position ::
    "reader_env \<Rightarrow> RecorderPlayer \<Rightarrow> world \<Rightarrow> bool \<times> RecorderPlayer \<times> world" where
  "previous_position E r w =
     (if rp_cursor_pending r then
        (case cursor_target r of
           None \<Rightarrow> (False, r, w)
         | Some key \<Rightarrow>
             if (case re_group key of None \<Rightarrow> True | Some grp \<Rightarrow> length grp \<ge> 64) then (False, r, w)
             else case (if rp_cursor_sources_pending r then iterator_materialize_cursor_sources E r w
                        else (True, r, w)) of
               (False, r1, w1) \<Rightarrow> (False, r1, w1)
             | (True, r1, w1) \<Rightarrow>
                 (case on_sources
                         (\<lambda>s w. and_then (step_back E r1 s w)
                            (skip_while E r1 Reverse
                              (\<lambda>e. rp_order r1 = OrderRecorded \<and>
                                   compare_iterator_entries (rp_order r1) e key \<ge> 0))) r1 w1 of
                    (False, r2, w2) \<Rightarrow> (False, r2, w2)
                  | (True, r2, w2) \<Rightarrow>
                      (True, (no_entry r2)\<lparr>rp_cursor_pending := False, rp_last_direction := Reverse,
                                           rp_order_changed := False\<rparr>, w2)))
      else if rp_order_changed r \<and> rp_current_valid r then
        (case (if rp_cursor_sources_pending r then iterator_materialize_cursor_sources E r w
               else (True, r, w)) of
           (False, r1, w1) \<Rightarrow> (False, r1, w1)
         | (True, r1, w1) \<Rightarrow>
             (case iterator_reposition_after_current E Reverse r1 w1 of
                (ok, r2, w2) \<Rightarrow> (ok, if ok then r2\<lparr>rp_order_changed := False\<rparr> else r2, w2)))
      else if rp_last_direction r = Forward \<and> rp_current_valid r then
        iterator_reposition_after_current E Reverse r w
      else if rp_last_direction r \<noteq> Reverse then
        (case (if \<not> rp_current_valid r \<or> rp_sources r = [] then rec_player_seek_tail E r w
               else (True, r, w)) of
           (ok, r1, w1) \<Rightarrow>
             (ok, if ok then r1\<lparr>rp_last_direction := Reverse, rp_order_changed := False\<rparr> else r1, w1))
      else if rp_current_valid r then advance_current E Reverse r w
      else (True, r, w))"

definition rec_player_previous :: "reader_env \<Rightarrow> RecorderPlayer \<Rightarrow> world \<Rightarrow> int \<times> RecorderPlayer \<times> world" where
  "rec_player_previous E r w =
     (case previous_position E r w of
        (False, r', w') \<Rightarrow> (- 1, r', w')
      | (True, r', w') \<Rightarrow>
          (case iterator_pick r' Reverse of
             Some pick \<Rightarrow> (1, select_entry Reverse pick r', w')
           | None \<Rightarrow> (0, no_entry r', w')))"

subsection \<open>The current entry\<close>

definition rec_player_get_entry :: "RecorderPlayer \<Rightarrow> RecorderEntry option" where
  "rec_player_get_entry r = current_entry r"

definition format_data :: "string \<Rightarrow> string option \<Rightarrow> string option" where
  "format_data fieldname v = map_option (\<lambda>t. fieldname @ ''='' @ t) v"

definition format_data_u64 :: "string \<Rightarrow> u64 \<Rightarrow> string option" where
  "format_data_u64 fieldname v = format_data fieldname (Some (decimal (unat v)))"

definition entry_data :: "RecorderEntry \<Rightarrow> string \<Rightarrow> string option" where
  "entry_data e fieldname =
     (if fieldname = ''MESSAGE'' then format_data fieldname (re_message e)
      else if fieldname = ''PRIORITY'' then format_data_u64 fieldname (ucast (re_priority e))
      else if fieldname = ''_PID'' then format_data_u64 fieldname (ucast (re_pid e))
      else if fieldname = ''_UID'' then format_data_u64 fieldname (ucast (re_uid e))
      else if fieldname = ''_GID'' then format_data_u64 fieldname (ucast (re_gid e))
      else if fieldname = ''_HOSTNAME'' then format_data fieldname (re_hostname e)
      else if fieldname = ''_COMM'' then format_data fieldname (re_comm e)
      else if fieldname = ''_SYSTEMD_UNIT'' then format_data fieldname (re_unit e)
      else if fieldname = ''_EXE'' then format_data fieldname (re_exe e)
      else if fieldname = ''MESSAGE_ID'' then format_data fieldname (re_message_id e)
      else if fieldname = ''ERRNO'' then format_data_u64 fieldname (ucast (re_errno_value e))
      else if fieldname = ''__REALTIME_TIMESTAMP'' then format_data_u64 fieldname (re_realtime_ts e)
      else if fieldname = ''_BOOT_ID'' then format_data fieldname (re_boot_id e)
      else None)"

definition rec_player_get_data :: "string \<Rightarrow> RecorderPlayer \<Rightarrow> string option \<times> RecorderPlayer" where
  "rec_player_get_data fieldname r =
     (case Option.bind (current_entry r) (\<lambda>e. entry_data e fieldname) of
        None \<Rightarrow> (None, r)
      | Some d \<Rightarrow> (Some d, r\<lparr>rp_data := Some d\<rparr>))"

definition rec_player_get_realtime_usec :: "RecorderPlayer \<Rightarrow> u64 option" where
  "rec_player_get_realtime_usec r = map_option re_realtime_ts (current_entry r)"

definition rec_player_get_monotonic_usec :: "RecorderPlayer \<Rightarrow> (u64 \<times> string option) option" where
  "rec_player_get_monotonic_usec r = map_option (\<lambda>e. (re_monotonic_ts e, re_boot_id e)) (current_entry r)"

subsection \<open>Notifications\<close>

text \<open>
  One \<^verbatim>\<open>read\<close> of the inotify descriptor gives a batch of events, an end or an error; when the
  list is used up the next \<^verbatim>\<open>read\<close> fails with \<^verbatim>\<open>EAGAIN\<close>. The masks are those of
  \<^verbatim>\<open>sys/inotify.h\<close>.
\<close>

record inotify_event =
  ie_mask :: u32
  ie_name :: string

datatype inotify_read = Events "inotify_event list" | ReadEnd | ReadFailed

abbreviation (input) IN_MODIFY :: u32 where "IN_MODIFY \<equiv> 0x2"
abbreviation (input) IN_CLOSE_WRITE :: u32 where "IN_CLOSE_WRITE \<equiv> 0x8"
abbreviation (input) IN_MOVED_FROM :: u32 where "IN_MOVED_FROM \<equiv> 0x40"
abbreviation (input) IN_MOVED_TO :: u32 where "IN_MOVED_TO \<equiv> 0x80"
abbreviation (input) IN_CREATE :: u32 where "IN_CREATE \<equiv> 0x100"
abbreviation (input) IN_DELETE :: u32 where "IN_DELETE \<equiv> 0x200"
abbreviation (input) IN_DELETE_SELF :: u32 where "IN_DELETE_SELF \<equiv> 0x400"
abbreviation (input) IN_MOVE_SELF :: u32 where "IN_MOVE_SELF \<equiv> 0x800"
abbreviation (input) IN_Q_OVERFLOW :: u32 where "IN_Q_OVERFLOW \<equiv> 0x4000"
abbreviation (input) IN_IGNORED :: u32 where "IN_IGNORED \<equiv> 0x8000"
abbreviation (input) IN_ISDIR :: u32 where "IN_ISDIR \<equiv> 0x40000000"

datatype process_result = ProcessNop | ProcessAppend | ProcessInvalidate | ProcessError

definition is_segment_event_name :: "string \<Rightarrow> bool" where
  "is_segment_event_name name \<longleftrightarrow> length name > 4 \<and> drop (length name - 4) name = ''.seg''"

definition process_event :: "RecorderPlayer \<Rightarrow> inotify_event \<Rightarrow> process_result \<Rightarrow> process_result" where
  "process_event r event result =
     (let mask = ie_mask event;
          topology = (mask AND (IN_CREATE OR IN_DELETE OR IN_MOVED_TO OR IN_MOVED_FROM) \<noteq> 0)
      in
      if mask AND (IN_Q_OVERFLOW OR IN_DELETE_SELF OR IN_MOVE_SELF OR IN_IGNORED) \<noteq> 0
      then ProcessInvalidate
      else if rp_path_is_directory r \<and> mask AND IN_ISDIR \<noteq> 0
      then (if topology then ProcessInvalidate else result)
      else if \<not> rp_path_is_directory r \<or> is_segment_event_name (ie_name event)
      then (if topology then ProcessInvalidate
            else if result \<noteq> ProcessInvalidate \<and> mask AND (IN_MODIFY OR IN_CLOSE_WRITE) \<noteq> 0
            then ProcessAppend else result)
      else result)"

fun process_reads ::
    "RecorderPlayer \<Rightarrow> inotify_read list \<Rightarrow> process_result \<Rightarrow> bool \<times> process_result" where
  "process_reads r [] result = (True, result)"
| "process_reads r (Events events # reads) result =
     process_reads r reads (fold (process_event r) events result)"
| "process_reads r (ReadEnd # reads) result = (False, ProcessInvalidate)"
| "process_reads r (ReadFailed # reads) result = (False, ProcessError)"

definition rec_player_process ::
    "reader_env \<Rightarrow> inotify_read list \<Rightarrow> world \<Rightarrow> RecorderPlayer \<Rightarrow> process_result \<times> RecorderPlayer" where
  "rec_player_process E reads w r =
     (if \<not> rp_inotify_fd r
      then (ProcessInvalidate, r\<lparr>rp_follow_pending := True, rp_follow_topology_pending := True\<rparr>)
      else case process_reads r reads ProcessNop of
        (False, result) \<Rightarrow> (result, r)
      | (True, result) \<Rightarrow>
          (result,
           if result = ProcessNop then r
           else if result = ProcessInvalidate
           then r\<lparr>rp_follow_pending := True, rp_follow_topology_pending := True,
                  rp_reliable_fd := (rp_reliable_fd r \<and> add_directory_watches E r w)\<rparr>
           else r\<lparr>rp_follow_pending := True\<rparr>))"

definition rec_player_get_events :: "RecorderPlayer \<Rightarrow> bool" where
  "rec_player_get_events r = rp_inotify_fd r"

definition rec_player_get_timeout :: "u64 \<Rightarrow> u64 \<Rightarrow> RecorderPlayer \<Rightarrow> u64" where
  "rec_player_get_timeout tv_sec tv_nsec r =
     (if rp_reliable_fd r then UINT64_MAX else tv_sec * 1000000 + tv_nsec div 1000 + 1000000)"

end
