(* ===== verification/Cursor_Props.thy ===== *)
theory Cursor_Props
  imports Walk_Props Reader_Iter
begin

text \<open>
  Cursors of \<^verbatim>\<open>src/librecorder.c\<close>: the text of a cursor gives back what it was made of, and a
  reader that seeks to it stands on the entry it names.
\<close>

subsection \<open>Hexadecimal numbers\<close>

lemma unat_word_bound: "unat (x :: 'a::len word) < 2 ^ LENGTH('a)"
  by (rule unsigned_less)

lemma hex_char_lower [simp]: "d < 16 \<Longrightarrow> hex_char (hex_lower d) = Some d"
proof -
  assume "d < 16"
  then have "d \<in> set [0..<16]" by simp
  then show ?thesis by (simp add: upt_rec) (elim disjE; simp; code_simp)
qed

lemma is_hex_lower [simp]: "d < 16 \<Longrightarrow> is_hex (hex_lower d)"
  by (simp add: is_hex_def)

lemma hex_value_snoc: "hex_value (ds @ [c]) = 16 * hex_value ds + the (hex_char c)"
  by (simp add: hex_value_def)

lemma hex_digits_value: "hex_value (hex_digits k n) = n mod 16 ^ k"
proof (induction k arbitrary: n)
  case (Suc k)
  have "n mod 16 ^ Suc k = 16 * (n div 16 mod 16 ^ k) + n mod 16"
    by (simp add: mod_mult2_eq mult.commute)
  then show ?case using Suc by (simp add: hex_value_snoc)
qed (simp add: hex_value_def)

lemma hex_digits_hex: "list_all is_hex (hex_digits k n)" and length_hex_digits: "length (hex_digits k n) = k"
  by (induction k arbitrary: n) auto

lemma hex_str_value: "hex_value (hex_str n) = n"
proof (induction n rule: hex_str.induct)
  case (1 n)
  then show ?case by (subst hex_str.simps) (auto simp: hex_value_snoc, simp add: hex_value_def)
qed

lemma hex_str_hex: "list_all is_hex (hex_str n) \<and> hex_str n \<noteq> []"
proof (induction n rule: hex_str.induct)
  case (1 n)
  then show ?case by (subst (1 2) hex_str.simps) auto
qed

lemma length_hex_str: "n < 16 ^ k \<Longrightarrow> 0 < k \<Longrightarrow> length (hex_str n) \<le> k"
proof (induction n arbitrary: k rule: hex_str.induct)
  case (1 n)
  show ?case
  proof (cases "n < 16")
    case True
    then show ?thesis using 1 by (subst hex_str.simps) simp
  next
    case False
    then have k: "1 < k" using 1 by (cases "k = 1") auto
    have "n div 16 < 16 ^ (k - 1)" using 1 k by (cases k) (auto simp: less_mult_imp_div_less mult.commute)
    from "1.IH" [OF False this] k have "length (hex_str (n div 16)) \<le> k - 1" by simp
    then show ?thesis using False k by (subst hex_str.simps) auto
  qed
qed

lemma is_hex_plain: "is_hex c \<Longrightarrow> \<not> is_space c \<and> c \<noteq> CHR ''-'' \<and> c \<noteq> CHR ''+'' \<and> c \<noteq> CHR ''x'' \<and> c \<noteq> CHR ''X''"
  by (auto simp: is_hex_def hex_char_def is_space_def Let_def split: if_splits)

lemma not_hex_colon [simp]: "\<not> is_hex CHR '':''"
  by (simp add: is_hex_def hex_char_def)

text \<open>What may stand behind a number in a cursor: nothing, or a colon.\<close>

definition ends_number :: "string \<Rightarrow> bool" where
  "ends_number rest \<longleftrightarrow> (case rest of [] \<Rightarrow> True | c # _ \<Rightarrow> c = CHR '':'')"

lemma ends_number_simps [simp]: "ends_number []" "ends_number (c # cs) \<longleftrightarrow> c = CHR '':''"
  by (simp_all add: ends_number_def)

lemma scan_hex_number:
  assumes "list_all is_hex ds" and "ds \<noteq> []" and "ends_number rest" and "hex_value ds \<le> 18446744073709551615"
  shows "scan_hex (ds @ rest) = Some (of_nat (hex_value ds), rest)"
proof -
  obtain d ds' where ds: "ds = d # ds'" using assms(2) by (cases ds) auto
  note d = is_hex_plain [of d] is_hex_plain [of "hd ds'"]
  have x: "\<not> (take 2 (ds @ rest) = ''0x'' \<or> take 2 (ds @ rest) = ''0X'')"
    using assms(1,3) d ds by (cases ds'; cases rest) auto
  have "takeWhile is_hex (ds @ rest) = ds" "dropWhile is_hex (ds @ rest) = rest"
    using assms(1,3) by (cases rest; simp add: list_all_iff takeWhile_append2 dropWhile_append2)+
  moreover have "dropWhile is_space (ds @ rest) = ds @ rest" "hd (ds @ rest) \<noteq> CHR ''-''" "hd (ds @ rest) \<noteq> CHR ''+''"
    using assms(1) d ds by auto
  ultimately show ?thesis using assms(2,4) x by (auto simp: scan_hex_def Let_def)
qed

lemma scan_hex_digits: "ends_number rest \<Longrightarrow> scan_hex (hex_digits 16 (unat (x :: u64)) @ rest) = Some (x, rest)"
proof -
  assume "ends_number rest"
  moreover have "hex_value (hex_digits 16 (unat x)) = unat x"
    using unat_word_bound [of x] by (simp add: hex_digits_value)
  moreover have "unat x \<le> 18446744073709551615" using unat_word_bound [of x] by simp
  ultimately show ?thesis
    using scan_hex_number [of "hex_digits 16 (unat x)" rest] hex_digits_hex [of 16 "unat x"] length_hex_digits [of 16 "unat x"]
    by force
qed

lemma scan_hex_str:
  assumes "ends_number rest" and "n \<le> 18446744073709551615"
  shows "scan_hex (hex_str n @ rest) = Some (of_nat n, rest)"
  using scan_hex_number [of "hex_str n" rest] hex_str_hex [of n] assms by (simp add: hex_str_value)

lemma scan_literal_append [simp]: "scan_literal lit (lit @ rest) = Some rest"
  by (simp add: scan_literal_def)

lemma scan_literal_colon [simp]: "scan_literal '':'' (CHR '':'' # rest) = Some rest"
  by (simp add: scan_literal_def)

lemma group_name_no_colon: "group_name_valid grp \<Longrightarrow> grp \<noteq> [] \<and> CHR '':'' \<notin> set grp"
  by (auto simp: group_name_valid_def valid_group_name_def list_all_iff is_alnum_def less_eq_char_def)

lemma scan_group_name:
  assumes "group_name_valid grp" and "length grp < 64"
  shows "scan_group (grp @ CHR '':'' # rest) = Some (grp, CHR '':'' # rest)"
proof -
  have "takeWhile (\<lambda>c. c \<noteq> CHR '':'') (grp @ CHR '':'' # rest) = grp"
    using group_name_no_colon [OF assms(1)] by (subst takeWhile_append2) auto
  then show ?thesis using assms group_name_no_colon [OF assms(1)] by (simp add: scan_group_def)
qed

subsection \<open>The text of a cursor\<close>

definition cursor_text :: "u64 \<Rightarrow> string \<Rightarrow> u64 \<Rightarrow> u64 \<Rightarrow> u32 \<Rightarrow> string" where
  "cursor_text store grp segment_seq frame_offset frame_entry_index =
     ''rec1:'' @ hex_digits 16 (unat store) @ '':'' @ grp @ '':'' @ hex_str (unat segment_seq) @ '':'' @
     hex_str (unat frame_offset) @ '':'' @ hex_str (unat frame_entry_index)"

lemma parse_cursor_text:
  assumes "group_name_valid grp" and "length grp < 64"
  shows "parse_cursor (cursor_text store grp sq off i) = Some (store, grp, sq, off, i)"
proof -
  have b: "unat sq \<le> 18446744073709551615" "unat off \<le> 18446744073709551615" "unat i \<le> 18446744073709551615"
    using unat_word_bound [of sq] unat_word_bound [of off] unat_word_bound [of i] by simp_all
  have n: "scan_hex (hex_str (unat i)) = Some (of_nat (unat i), [])" using scan_hex_str [of "[]" "unat i"] b by simp
  have l: "scan_literal ''rec1:'' (CHR ''r'' # CHR ''e'' # CHR ''c'' # CHR ''1'' # CHR '':'' # t) = Some t" for t
    by (simp add: scan_literal_def)
  show ?thesis
    using assms b n by (simp add: parse_cursor_def cursor_text_def l scan_hex_digits scan_hex_str scan_group_name)
qed

lemma cursor_text_length:
  "length grp < 64 \<Longrightarrow> length (cursor_text store grp sq off i) < 191"
proof -
  assume "length grp < 64"
  moreover have "length (hex_str (unat sq)) \<le> 16" "length (hex_str (unat off)) \<le> 16" "length (hex_str (unat i)) \<le> 8"
    using unat_word_bound [of sq] unat_word_bound [of off] unat_word_bound [of i]
    by (auto intro!: length_hex_str simp: power_mult [symmetric])
  ultimately show ?thesis by (simp add: cursor_text_def length_hex_digits)
qed

lemma rec_player_get_cursor_text:
  assumes "rec_player_get_cursor r = Some c"
  obtains e store grp where "current_entry r = Some e" and "rp_store_id r = Some store" and "re_group e = Some grp"
    and "group_name_valid grp"
    and "length grp < 64 \<Longrightarrow> c = cursor_text store grp (re_segment_seq e) (re_frame_offset e) (re_frame_entry_index e)"
proof -
  from assms obtain e store grp where g: "current_entry r = Some e" "rp_store_id r = Some store" "re_group e = Some grp"
    "group_name_valid grp"
    and c: "c = snprintf_str 192 (cursor_text store grp (re_segment_seq e) (re_frame_offset e) (re_frame_entry_index e))"
    by (auto simp: rec_player_get_cursor_def cursor_text_def split: option.splits if_splits)
  show thesis
    by (rule that [OF g])
      (use c cursor_text_length [of grp store "re_segment_seq e" "re_frame_offset e" "re_frame_entry_index e"] in
        \<open>simp add: snprintf_str_def\<close>)
qed

subsection \<open>Seeking to a cursor\<close>

lemma frame_entries_identity:
  "x \<in> set (frame_entries E grp header frame chunk) \<Longrightarrow> re_group x = Some grp \<and> re_segment_seq x = sh_segment_seq header"
  by (auto simp: frame_entries_def base_entry_def compact_entry_def full_entry_def Let_def split: if_splits)

definition entries_from :: "string \<Rightarrow> SegmentHeader \<Rightarrow> RecorderEntry list \<Rightarrow> bool" where
  "entries_from grp header es \<longleftrightarrow> (\<forall>x \<in> set es. re_group x = Some grp \<and> re_segment_seq x = sh_segment_seq header)"

lemma file_scan_identity:
  assumes "file_scan E r w path = (Inr e, es)" and "es \<noteq> []"
  obtains buf header off ei grp where "read_file path w = Some buf"
    and "segment_parse_header buf = Some (header, off, ei)" and "entries_from grp header es"
proof -
  obtain grp where g: "group_from_path path (reader_root r) = Some grp" using scanned_group [OF assms(1)] by blast
  let ?cb = "scan_frame E grp 0 append_stored_entry"
  from assms g obtain buf header off ei ft env where f: "read_file path w = Some buf"
      "segment_parse_header buf = Some (header, off, ei)" "segment_scan_loop env buf off 0 [] = (Inr (ft, e), es)"
      "env_cb env = Some ?cb" "env_min env = 0" "env_header env = header"
    by (auto simp: file_scan_def rec_player_scan_file_def segment_scan_path_from_offset_def segment_scan_impl_def Let_def
        split: option.splits sum.splits prod.splits if_splits)
  obtain fs where "run_cb ?cb header fs [] = (0, es)" using scan_loop_good [OF f(3,4)] f(5,6) by auto
  then have "es = concat (map (\<lambda>f. frame_entries E grp header (fst f) (snd f)) fs)" by (simp add: run_scan_frames)
  then have "entries_from grp header es" by (auto simp: entries_from_def dest: frame_entries_identity)
  then show thesis using that f(1,2) by blast
qed

lemma frame_reader_header:
  assumes "segment_frame_reader_open L (Some buf) decryptor = Inr reader" and "segment_parse_header buf = Some (header, off, ei)"
  shows "fr_header reader = header"
  using assms read_metadata_of_parsed [OF assms(2)] segment_parse_header_take [OF assms(2) order_refl]
    segment_parse_header_bounds [OF assms(2)]
  by (auto simp: segment_frame_reader_open_def split: option.splits sum.splits prod.splits)

lemma frame_reader_scan_entries:
  assumes "segment_frame_reader_scan L reader (scan_source_frame E grp) [] pos k = (Inr rv, es)"
  shows "entries_from grp (fr_header reader) es"
  using assms
  by (auto simp: segment_frame_reader_scan_def Let_def scan_source_frame_def scan_frame_def call_entries_append
      entries_from_def dest: frame_entries_identity split: if_splits payload.splits)

lemma load_frame_identity:
  assumes "source_load_frame E r w s k dir = (0, s')" and "is_frame_reader s = None"
    and "read_file (source_path s) w = Some buf" and "segment_parse_header buf = Some (header, off, ei)"
  shows "entries_from (is_group s) header (is_entries s')"
  using assms frame_reader_header [of "rv_lib E" buf "rp_decryptor r" _ header off ei]
  by (auto simp: source_load_frame_def Let_def open_frame_reader_def source_clear_frame_def source_path_def
      split: if_splits option.splits sum.splits prod.splits dest!: frame_reader_scan_entries)

lemma find_index_some:
  "find_index P xs = Some j \<Longrightarrow> j < length xs \<and> P (xs ! j)"
  by (induction xs arbitrary: j) (auto split: if_splits)

lemma find_index_none: "find_index P xs = None \<longleftrightarrow> (\<forall>x \<in> set xs. \<not> P x)"
  by (induction xs) auto

lemma fallback_loads:
  assumes "file_scan E r w (source_path s) = (Inr e, es)"
  shows "source_load_segment_fallback E r w s Forward =
    (if es = [] then 0 else 1, (source_clear_frame s)\<lparr>is_entries := qsort compare_stored_entries es,
       is_segment_scan_fallback := True, is_frame_count := 0, is_entry_index := 0\<rparr>)"
  using assms
  by (simp add: source_load_segment_fallback_def Let_def file_scan_def edge_index_def source_path_def source_clear_frame_def)

lemma source_load_index_reader:
  "source_load_index E r s w = (ok, s', w') \<Longrightarrow> is_frame_reader s' = is_frame_reader s \<and> \<not> is_segment_scan_fallback s'"
  by (auto simp: source_load_index_def Let_def split: if_splits option.splits sum.splits prod.splits bool.splits)

lemma load_cursor_frame_identity:
  assumes l: "load_cursor_frame E r off s w = (loaded, s1, w1)" and nr: "\<not> rp_repair_indexes r"
    and fr: "is_frame_reader s = None" and f: "read_file (source_path s) w = Some buf"
      "segment_parse_header buf = Some (header, o', ei)"
  shows "w1 = w \<and> same_place s s1 \<and>
    (loaded \<longrightarrow> entries_from (is_group s) header (is_entries s1) \<and> \<not> is_segment_scan_fallback s1)"
proof -
  obtain ok s' w' where i: "source_load_index E r s w = (ok, s', w')" by (metis prod_cases3)
  note k = source_load_index_world [OF i nr] source_load_index_keeps [OF i] source_load_index_reader [OF i]
  have p: "source_path s' = source_path s" "is_group s' = is_group s" using k(2) by (simp_all add: source_path_def same_place_def)
  consider "loaded = False" "s1 = s" "w1 = w" | "loaded = False" "s1 = s'" "w1 = w'"
    | j rc where "source_load_frame E r w' s' j Forward = (rc, s1)" "loaded \<longleftrightarrow> rc = 0" "w1 = w'"
  proof (cases "case segment_index_path (source_path s) 512 of None \<Rightarrow> FindError
      | Some ip \<Rightarrow> index_find_offset_frame (read_file ip w) (read_file (source_path s) w) off")
    case (Found a j)
    obtain rc t where t: "source_load_frame E r w' s' j Forward = (rc, t)" by fastforce
    have "load_cursor_frame E r off s w = (if ok then (rc = 0, t, w') else (False, s', w'))"
      using Found i t by (simp add: load_cursor_frame_def)
    then show thesis using l t by (cases ok) (auto intro: that(2,3))
  next
    case NotFound
    then have "load_cursor_frame E r off s w = (False, s, w)" by (simp add: load_cursor_frame_def)
    then show thesis using l by (auto intro: that(1))
  next
    case FindError
    then have "load_cursor_frame E r off s w = (False, s, w)" by (simp add: load_cursor_frame_def)
    then show thesis using l by (auto intro: that(1))
  qed
  then show ?thesis
  proof cases
    case (3 j rc)
    note t = source_load_frame_keeps(1,3) [OF 3(1)]
    have "entries_from (is_group s) header (is_entries s1)" if "rc = 0"
      using load_frame_identity [of E r w s' j Forward s1 buf header o' ei] 3(1) that k p f fr by simp
    moreover have "same_place s s1" using k(2) t(1) by (rule same_place_trans)
    ultimately show ?thesis using 3 k t by simp
  qed (use k in auto)
qed

lemma select_position_finds:
  assumes "entries_from grp header (is_entries s)" and "select_position off i s = Some (ts, t)"
  shows "source_has_current t \<and> cursor_names grp (sh_segment_seq header) off i (source_current t)"
  using assms find_index_some [of "at_position off i" "is_entries s"]
  by (auto simp: select_position_def source_has_current_def source_current_def cursor_names_def entries_from_def)

text \<open>Whatever the index says, a source finds the entry a scan of its segment has at the position.\<close>

lemma source_seek_cursor_finds:
  assumes scan: "file_scan E r w path = (Inr e, es)" and x: "x \<in> set es" "cursor_names grp sq off i x"
    and nr: "\<not> rp_repair_indexes r"
  shows "\<exists>ts s. source_seek_cursor E r sq off i
      (source_add_segment (new_source grp [] 0) \<lparr>sp_path = path, sp_segment_seq = sq\<rparr>) w = (Some ts, s, w) \<and>
    source_has_current s \<and> cursor_names grp sq off i (source_current s)"
proof -
  obtain buf header o' ei grp' where f: "read_file path w = Some buf"
    "segment_parse_header buf = Some (header, o', ei)" "entries_from grp' header es"
    using file_scan_identity [OF scan] x(1) by (metis empty_iff empty_set)
  have gq: "grp' = grp" "sh_segment_seq header = sq" using f(3) x by (auto simp: entries_from_def cursor_names_def)
  let ?s = "source_add_segment (new_source grp [] 0) \<lparr>sp_path = path, sp_segment_seq = sq\<rparr>"
  have s: "is_segments ?s = [\<lparr>sp_path = path, sp_segment_seq = sq\<rparr>]" "is_segment_index ?s = 0" "is_group ?s = grp"
      "is_frame_reader ?s = None" "?s\<lparr>is_segment_index := 0\<rparr> = ?s" "source_path ?s = path"
    by (simp_all add: source_add_segment_def new_source_def source_path_def)
  obtain loaded s1 w1 where first: "load_cursor_frame E r off ?s w = (loaded, s1, w1)" by (metis prod_cases3)
  have stage: "w1 = w" "same_place ?s s1"
      "loaded \<Longrightarrow> entries_from grp header (is_entries s1) \<and> \<not> is_segment_scan_fallback s1"
    using load_cursor_frame_identity [OF first nr s(4)] f s by auto
  then have "source_path s1 = path" using s by (simp add: source_path_def same_place_def)
  then obtain rc t where fb: "source_load_segment_fallback E r w s1 Forward = (rc, t)" "0 \<le> rc"
      "is_entries t = qsort compare_stored_entries es" "is_segment_scan_fallback t"
    using fallback_loads [of E r w s1 e es] scan by force
  have ent: "entries_from grp header (is_entries t)" using fb(3) f(3) gq(1) by (simp add: entries_from_def)
  obtain ts u where sel: "select_position off i t = Some (ts, u)"
  proof (cases "select_position off i t")
    case None
    then show thesis using x fb(3) by (auto simp: select_position_def find_index_none cursor_names_def)
  qed auto
  note good = select_position_finds [OF ent sel] gq(2)
  have start: "source_seek_cursor E r sq off i ?s w =
      (case (if loaded then (0, s1) else source_load_segment_fallback E r w s1 Forward) of
         (rc, s2) \<Rightarrow>
           if rc < 0 then (None, s2, w)
           else case select_position off i s2 of
             Some (ts, t) \<Rightarrow> (Some ts, t, w)
           | None \<Rightarrow>
               if is_segment_scan_fallback s2 then (None, s2, w)
               else (case source_load_segment_fallback E r w s2 Forward of
                       (rc', s3) \<Rightarrow>
                         if rc' < 0 then (None, s3, w)
                         else case select_position off i s3 of
                                Some (ts, t) \<Rightarrow> (Some ts, t, w)
                              | None \<Rightarrow> (None, s3, w)))"
    unfolding source_seek_cursor_def s(1) using first s(5) stage(1) by simp
  show ?thesis
  proof (cases "loaded \<and> select_position off i s1 \<noteq> None")
    case True
    then obtain ts' v where "select_position off i s1 = Some (ts', v)" by auto
    then show ?thesis using start True select_position_finds [of grp header s1 off i ts' v] stage(3) gq(2) by auto
  next
    case False
    then have "select_position off i s1 = None" if loaded using that by (cases "select_position off i s1") auto
    then have "source_seek_cursor E r sq off i ?s w = (Some ts, u, w)"
      using start fb sel stage(3) by (cases loaded) simp_all
    then show ?thesis using good by auto
  qed
qed

lemma file_scan_reader:
  assumes "rec_player_scan_file E r w path append_stored_entry [] 0 = (Inr e, es)" and "es \<noteq> []"
    and "rp_path r' = rp_path r" and "rp_path_is_directory r' = rp_path_is_directory r"
    and "rp_decryptor r' = rp_decryptor r" and "rp_group_filter r' = []"
  shows "file_scan E r' w path = (Inr e, es)"
  using assms by (auto simp: file_scan_def rec_player_scan_file_def group_allowed_def split: option.splits if_splits)

lemma seek_cursor_once_finds:
  fixes r :: RecorderPlayer
  defines "path \<equiv> (\<lambda>grp sq. if rp_path_is_directory r then rp_path r @ ''/'' @ grp @ ''/'' @ decimal (unat sq) @ ''.seg''
    else rp_path r)"
  assumes scan: "rec_player_scan_file E r w (path grp sq) append_stored_entry [] 0 = (Inr e, es)"
    and x: "x \<in> set es" "cursor_names grp sq off i x"
    and r: "\<not> rp_repair_indexes r" "group_allowed r grp" "length (path grp sq) < 512"
  shows "\<exists>r1 r2 y. rec_player_seek_cursor_once E grp sq off i r w = (True, r1, w) \<and>
    rec_player_next E r1 w = (1, r2, w) \<and> rp_store_id r2 = rp_store_id r \<and> current_entry r2 = Some y \<and>
    cursor_names grp sq off i y"
proof -
  let ?r = "(rec_player_follow_reset (iterator_reset r))\<lparr>rp_follow_pending := False, rp_follow_topology_pending := False\<rparr>"
  let ?s = "source_add_segment (new_source grp [] 0) \<lparr>sp_path = path grp sq, sp_segment_seq = sq\<rparr>"
  let ?cr = "?r\<lparr>rp_sources := [?s], rp_group_filter := [], rp_unit_filter := None\<rparr>"
  have ne: "es \<noteq> []" using x by auto
  have "file_scan E ?cr w (path grp sq) = (Inr e, es)"
    by (rule file_scan_reader [OF scan ne]) (simp_all add: rec_player_follow_reset_def iterator_reset_def)
  then obtain ts s where f: "source_seek_cursor E ?cr sq off i ?s w = (Some ts, s, w)" "source_has_current s"
      "cursor_names grp sq off i (source_current s)"
    using source_seek_cursor_finds [of E ?cr w "path grp sq" e es x grp sq off i] x r(1)
    by (auto simp: rec_player_follow_reset_def iterator_reset_def)
  have p: "(if rp_path_is_directory r then rp_path r @ ''/'' @ grp @ ''/'' @ decimal (unat sq) @ ''.seg'' else rp_path r) =
      path grp sq" by (simp add: path_def)
  have ga: "group_allowed ?r grp" using r(2) by (simp add: group_allowed_def rec_player_follow_reset_def iterator_reset_def)
  let ?r1 = "(forget_current (Some 0) ?r)\<lparr>rp_sources := [s], rp_cursor_pending := True,
      rp_cursor_sources_pending := True, rp_cursor_group := grp, rp_cursor_segment_seq := sq,
      rp_cursor_frame_offset := off, rp_cursor_frame_entry_index := i, rp_order_changed := False\<rparr>"
  have "rec_player_seek_cursor_once E grp sq off i r w = (True, ?r1, w)"
    unfolding rec_player_seek_cursor_once_def p Let_def using f(1) ga r(3) by simp
  moreover have "\<exists>r2. rec_player_next E ?r1 w = (1, r2, w) \<and> rp_store_id r2 = rp_store_id r \<and>
      current_entry r2 = Some (source_current s)"
    using f(2)
    by (simp add: rec_player_next_def next_position_def rec_player_follow_reset_def iterator_reset_def forget_current_def
        iterator_pick_def select_entry_def current_entry_def)
  ultimately show ?thesis using f(3) by blast
qed


subsection \<open>Witness\<close>

definition cursor_entry :: RecorderEntry where
  "cursor_entry = hd (snd (file_scan walk_env walk_reader walk_store ''/l/p3/3.seg''))"

definition pointing_reader :: RecorderPlayer where
  "pointing_reader = walk_reader\<lparr>rp_store_id := Some 7, rp_current_valid := True, rp_current_entry := Some cursor_entry\<rparr>"

lemma demo_scan_head:
  "\<exists>e es. file_scan walk_env walk_reader walk_store ''/l/p3/3.seg'' = (Inr e, cursor_entry # es) \<and>
     re_group cursor_entry = Some ''p3'' \<and> re_segment_seq cursor_entry = 3"
proof -
  have "file_scan walk_env walk_reader walk_store ''/l/p3/3.seg'' =
      (Inr (length (contents (demo_file True))),
       concat (map (\<lambda>f. frame_entries walk_env ''p3'' (stored_header (demo_header True) 0) (fst f) (snd f))
         (zip (demo_frame_infos True) [replicate 50 1, replicate 50 2])))"
    by (rule file_scan_of_frames [OF walk_store_files(1) demo_file_length])
      (use demo_file_scans(2) [of True] in \<open>simp_all add: walk_reader_fields walk_groups walk_env_def group_allowed_def\<close>)
  then show ?thesis
    by (simp add: cursor_entry_def demo_frame_infos_def demo_frames_def frame_entries_def full_entry_def base_entry_def
        stored_header_def demo_header_def walk_env_def Let_def)
qed


end
