(* ===== verification/Follow_Props.thy ===== *)
theory Follow_Props
  imports Walk_Props
begin

text \<open>
  Following a store (\<^verbatim>\<open>rec_player_scan_follow\<close> of \<^verbatim>\<open>src/librecorder.c\<close>): each poll hands out what
  was committed since the last one, every entry once.
\<close>

subsection \<open>A file that grows behind its committed end\<close>

lemma parse_header_untake:
  assumes p: "segment_parse_header (take e buf) = Some (h, off, ei)" and e: "e \<le> length buf"
  shows "segment_parse_header buf = Some (h, off, ei)"
proof -
  let ?hs = "unat (read_u32_le (drop 12 (take e buf)))"
  have l: "length (take e buf) = e" using e by simp
  from segment_parse_header_bounds [OF p] l have b: "152 \<le> e" "?hs + unat (sh_dict_len h) \<le> e" "152 \<le> ?hs" by auto
  have r: "read_u32_le (drop 8 (take e buf)) = read_u32_le (drop 8 buf)"
    "read_u32_le (drop 12 (take e buf)) = read_u32_le (drop 12 buf)"
    "read_u32_le (drop 148 (take e buf)) = read_u32_le (drop 148 buf)"
    using b e by (simp_all add: read_u32_take)
  have x: "take (?hs - 152) (drop 152 (take e buf)) = take (?hs - 152) (drop 152 buf)"
    using b by (intro take_drop_take) simp
  have m: "take 8 (take e buf) = take 8 buf" using b by (simp add: min_def)
  have hb: "header_of_bytes (take e buf) = header_of_bytes buf" using b e by (intro header_of_bytes_take)
  have c: "header_crc (take e buf) ext = header_crc buf ext" for ext using b by (intro header_crc_take) simp
  show ?thesis
    using p b e unfolding segment_parse_header_iff x unfolding r m hb c l by auto
qed

lemma frame_untake:
  assumes ok: "frame_check h (frame_info (take n p) off) (take n p) = FrameOk" and n: "n \<le> length p"
  shows "frame_info (take n p) off = frame_info p off" and "frame_check h (frame_info p off) p = FrameOk"
proof -
  from ok have l: "20 \<le> n" using n by (auto simp: frame_check_def split: if_splits)
  show fi: "frame_info (take n p) off = frame_info p off" using l n by (intro frame_info_take) simp_all
  let ?fi = "frame_info p off"
  let ?k = "unat (fi_stored_len ?fi)"
  from ok n have len: "unat (fi_frame_len ?fi) = 16 + ?k + tag_len h + 4" "unat (fi_frame_len ?fi) \<le> n"
    and crc: "read_u32_le (drop (16 + ?k + tag_len h) (take n p)) = frame_crc h ?k (take n p)"
    and u: "expected_len h ?fi \<le> UINT32_MAX"
    unfolding fi by (auto simp: frame_check_def expected_len_def split: if_splits)
  have "frame_crc h ?k (take n p) = frame_crc h ?k p"
    using len n unfolding frame_crc_def Let_def by (simp add: take_drop_take min_def del: drop_take)
  then show "frame_check h (frame_info p off) p = FrameOk"
    unfolding frame_check_def using len n crc u by (simp add: read_u32_take expected_len_def del: drop_take)
qed

text \<open>A frame is the same in every file that has its bytes.\<close>

lemma frame_agrees:
  assumes "frame_check h (frame_info p off) p = FrameOk" and "unat (fi_frame_len (frame_info p off)) \<le> n"
    and "take n q = take n p" and "n \<le> length p" and "n \<le> length q"
  shows "frame_info q off = frame_info p off" and "frame_check h (frame_info p off) q = FrameOk"
    and "frame_payload L h ei dek d i (frame_info p off) q = frame_payload L h ei dek d i (frame_info p off) p"
proof -
  have t: "frame_check h (frame_info (take n q) off) (take n q) = FrameOk"
    using frame_check_take [OF assms(1,2,4)] by (simp add: assms(3))
  have "16 \<le> n" using frame_ok_progress [OF assms(1)] assms(2) by simp
  then have "frame_info (take n p) off = frame_info p off" using assms(4) by (intro frame_info_take)
  then show fi: "frame_info q off = frame_info p off" using frame_untake(1) [OF t assms(5)] assms(3) by simp
  show ok: "frame_check h (frame_info p off) q = FrameOk" using frame_untake(2) [OF t assms(5)] fi by simp
  let ?m = "unat (fi_frame_len (frame_info p off))"
  have "take ?m q = take ?m (take n q)" using assms(2) by (simp add: min_def)
  also have "\<dots> = take ?m p" using assms(2,3) by (simp add: min_def)
  finally show "frame_payload L h ei dek d i (frame_info p off) q = frame_payload L h ei dek d i (frame_info p off) p"
    using frame_payload_take [OF ok] frame_payload_take [OF assms(1)] by metis
qed

lemma good_frames_end: "good_frames env buf off idx fs e \<Longrightarrow> off \<le> e \<and> (off \<le> length buf \<longrightarrow> e \<le> length buf)"
  by (induction rule: good_frames.induct) (auto dest: frame_ok_fits)

lemma good_frames_agree:
  assumes "good_frames env buf off idx fs e" and "e \<le> n" and "take n buf' = take n buf" and "n \<le> length buf" and "n \<le> length buf'"
    and "length buf < 2 ^ 64" and "\<forall>f \<in> set fs. footer_at (drop (unat (fi_file_offset (fst f))) buf') = None"
  shows "good_frames env buf' off idx fs e"
  using assms
proof (induction rule: good_frames.induct)
  case (good_cons offset buf frame env idx chunk fs e)
  have e: "offset + unat (fi_frame_len frame) \<le> n"
    using good_frames_end [OF good_cons.hyps(7)] good_cons.prems(1) by simp
  have t: "take (n - offset) (drop offset buf') = take (n - offset) (drop offset buf)"
    using good_cons.prems(2) by (metis drop_take)
  note a = frame_agrees [of "env_header env" "drop offset buf" offset "n - offset" "drop offset buf'", OF _ _ t]
  have ok: "frame_check (env_header env) (frame_info (drop offset buf) offset) (drop offset buf) = FrameOk"
    using good_cons.hyps(3,4) by simp
  have le: "unat (fi_frame_len (frame_info (drop offset buf) offset)) \<le> n - offset"
    "n - offset \<le> length (drop offset buf)" "n - offset \<le> length (drop offset buf')"
    using e good_cons.hyps(3) good_cons.prems(3,4) by auto
  have "offset < length buf'" using e frame_ok_progress [OF good_cons.hyps(4)] good_cons.prems(4) by simp
  moreover have "footer_at (drop offset buf') = None"
  proof -
    have "unat (fi_file_offset frame) = offset"
      using good_cons.hyps(1,3) good_cons.prems(5) by (simp add: frame_info_def of_nat_inject_le)
    then show ?thesis using good_cons.prems(6) by auto
  qed
  ultimately show ?case
    using good_cons a(1) [OF ok le] a(2) [OF ok le] a(3) [OF ok le]
    by (intro good_frames.good_cons) auto
qed (simp add: good_nil)

subsection \<open>Scanning from an offset\<close>

text \<open>Below the offset the frames are checked and passed over.\<close>

lemma scan_skips_frames:
  assumes "good_frames env buf offset idx fs e" and "e \<le> m" and "env' = env\<lparr>env_min := m\<rparr>"
  shows "segment_scan_loop env' buf offset idx ctx = segment_scan_loop env' buf e (idx + of_nat (length fs)) ctx"
  using assms
proof (induction arbitrary: ctx rule: good_frames.induct)
  case (good_cons offset buf frame env idx chunk fs e)
  have "offset < m"
    using good_frames_end [OF good_cons.hyps(7)] frame_ok_progress [OF good_cons.hyps(4)] good_cons.prems(1) by simp
  then have "segment_scan_loop env' buf offset idx ctx =
      segment_scan_loop env' buf (offset + unat (fi_frame_len frame)) (idx + 1) ctx"
    using good_cons by (intro scan_step_ok) (simp_all add: frame_callback_def split: option.splits)
  with good_cons show ?case unfolding index_step by simp
qed simp

text \<open>From there on the offset makes no difference.\<close>

definition scan_from :: "reader_env \<Rightarrow> string \<Rightarrow> nat \<Rightarrow> RecorderEntry list scan_env \<Rightarrow> RecorderEntry list scan_env" where
  "scan_from E grp m env = env\<lparr>env_cb := Some (scan_frame E grp m append_stored_entry), env_min := m\<rparr>"

lemma scan_from_simps [simp]:
  "env_header (scan_from E grp m env) = env_header env" "env_min (scan_from E grp m env) = m"
  "env_cb (scan_from E grp m env) = Some (scan_frame E grp m append_stored_entry)"
  "env_lib (scan_from E grp m env) = env_lib env" "env_encryption (scan_from E grp m env) = env_encryption env"
  "env_dek (scan_from E grp m env) = env_dek env" "env_dict (scan_from E grp m env) = env_dict env"
  by (simp_all add: scan_from_def)

lemma scan_from_irrelevant:
  assumes "length buf < 2 ^ 64" and "m \<le> offset"
  shows "segment_scan_loop (scan_from E grp m env) buf offset idx es = segment_scan_loop (scan_from E grp 0 env) buf offset idx es"
  using assms
proof (induction "scan_from E grp 0 env" buf offset idx es rule: segment_scan_loop.induct)
  case (1 buf offset idx es)
  let ?p = "drop offset buf"
  let ?f = "frame_info ?p offset"
  have cb: "frame_callback (scan_from E grp m env) idx ?f ?p offset es = frame_callback (scan_from E grp 0 env) idx ?f ?p offset es"
    if "offset < length buf"
  proof -
    have "unat (fi_file_offset ?f) = offset" using that "1.prems"(1) by (simp add: frame_info_def of_nat_inject_le)
    then show ?thesis using "1.prems"(2) by (simp add: frame_callback_def scan_frame_def split: payload.splits)
  qed
  obtain res c where c: "frame_callback (scan_from E grp 0 env) idx ?f ?p offset es = (res, c)" by fastforce
  have step: "segment_scan_loop (scan_from E grp m env) buf (offset + unat (fi_frame_len ?f)) (idx + 1) c =
      segment_scan_loop (scan_from E grp 0 env) buf (offset + unat (fi_frame_len ?f)) (idx + 1) c"
    if "offset < length buf" "footer_at ?p = None" "frame_check (env_header env) ?f ?p = FrameOk" "res = Inr True"
      "\<not> (encrypted (env_header env) \<and> idx = UINT64_MAX)"
    using "1.hyps" [OF that(1) refl refl that(2) _ c [symmetric]] that "1.prems" by simp
  show ?case
    using step cb c
    by (subst (1 2) scan_unfold) (auto split: option.splits frame_status.splits sum.splits bool.splits)
qed

text \<open>
  The segment file at a path grew from one state of the file system to another: the bytes up to
  the committed end of the earlier scan are still there, and behind none of the frames it found
  do the new bytes look like a footer.
\<close>

definition segment_grows :: "reader_env \<Rightarrow> RecorderPlayer \<Rightarrow> string \<Rightarrow> world \<Rightarrow> world \<Rightarrow> bool" where
  "segment_grows E r path w0 w \<longleftrightarrow>
     (\<exists>buf0 buf header footer e frames.
        read_file path w0 = Some buf0 \<and> length buf0 < 2 ^ 64 \<and>
        read_file path w = Some buf \<and> length buf < 2 ^ 64 \<and>
        segment_scan_path (rv_lib E) (Some buf0) (rp_decryptor r) (Some collect_frames) [] =
          (Inr (header, footer, e), frames) \<and>
        e \<le> length buf \<and> take e buf = take e buf0 \<and>
        (\<forall>f \<in> set frames. footer_at (drop (unat (fi_file_offset (fst f))) buf) = None))"

definition unwrap_key :: "reader_env \<Rightarrow> RecorderPlayer \<Rightarrow> SegmentHeader \<Rightarrow> SegmentEncryptionInfo \<Rightarrow> errno + byte list" where
  "unwrap_key E r header ei =
     (if encrypted header
      then (case rp_decryptor r of
              None \<Rightarrow> Inl EACCES
            | Some key \<Rightarrow>
                (case recorder_crypto_unwrap_dek (rv_lib E) key (ei_wrapped_dek ei) of
                   Inl _ \<Rightarrow> Inl EACCES
                 | Inr dek \<Rightarrow> Inr dek))
      else Inr (replicate SEGMENT_DEK_SIZE 0))"

definition read_env ::
    "reader_env \<Rightarrow> SegmentHeader \<Rightarrow> SegmentEncryptionInfo \<Rightarrow> byte list \<Rightarrow> byte list \<Rightarrow> RecorderEntry list scan_env" where
  "read_env E header ei dek dict =
     \<lparr>env_lib = rv_lib E, env_header = header, env_encryption = ei, env_dek = dek, env_dict = dict, env_cb = None, env_min = 0\<rparr>"

text \<open>A scan of a file from an offset, as a run of the loop.\<close>

lemma scan_file_loop:
  assumes "group_from_path path (reader_root r) = Some grp" and "group_allowed r grp" and "read_file path w = Some buf"
    and ph: "segment_parse_header buf = Some (header, off, ei)" and "unwrap_key E r header ei = Inr dek"
  shows "rec_player_scan_file E r w path append_stored_entry es m =
    (case segment_scan_loop (scan_from E grp m (read_env E header ei dek
        (take (unat (sh_dict_len header)) (drop (off - unat (sh_dict_len header)) buf)))) buf off 0 es of
       (Inl e, es') \<Rightarrow> (Inl e, es')
     | (Inr (ft, e), es') \<Rightarrow> (Inr e, es'))"
  using assms segment_parse_header_bounds [OF ph]
  by (auto simp: rec_player_scan_file_def segment_scan_path_from_offset_def segment_scan_impl_def unwrap_key_def
      scan_from_def read_env_def Let_def split: prod.splits sum.splits)

lemma scan_file_parses:
  assumes "rec_player_scan_file E r w path append_stored_entry es m = (Inr e, es')"
    and "group_from_path path (reader_root r) = Some grp" and "group_allowed r grp" and "read_file path w = Some buf"
  obtains header off ei dek where "segment_parse_header buf = Some (header, off, ei)" and "unwrap_key E r header ei = Inr dek"
  using assms
  by (auto simp: rec_player_scan_file_def segment_scan_path_from_offset_def segment_scan_impl_def unwrap_key_def
      Let_def split: option.splits prod.splits sum.splits if_splits)

lemma good_frames_env:
  assumes "good_frames env buf off idx fs e" and "env_lib env' = env_lib env" and "env_header env' = env_header env"
    and "env_encryption env' = env_encryption env" and "env_dek env' = env_dek env" and "env_dict env' = env_dict env"
  shows "good_frames env' buf off idx fs e"
  using assms by (induction rule: good_frames.induct) (auto intro: good_frames.intros)

lemma scanned_frames_good:
  assumes sc: "segment_scan_path (rv_lib E) (Some buf) (rp_decryptor r) (Some collect_frames) [] =
      (Inr (header, footer, c), frames)"
  obtains off ei dek e0 where "segment_parse_header buf = Some (header, off, ei)" and "unwrap_key E r header ei = Inr dek"
    and "off \<le> c" and "c \<le> length buf"
    and "\<And>grp m. good_frames (scan_from E grp m (read_env E header ei dek
        (take (unat (sh_dict_len header)) (drop (off - unat (sh_dict_len header)) buf)))) buf off 0 frames e0"
    and "c = e0 \<or> footer_at (drop e0 buf) = Some footer \<and> c = e0 + 48"
proof -
  obtain off ei dek where ph: "segment_parse_header buf = Some (header, off, ei)"
    and key: "(if encrypted header
                 then (case rp_decryptor r of
                         None \<Rightarrow> Inl EACCES
                       | Some key \<Rightarrow>
                           (case recorder_crypto_unwrap_dek (rv_lib E) key (ei_wrapped_dek ei) of
                              Inl _ \<Rightarrow> Inl EACCES
                            | Inr dek \<Rightarrow> Inr dek))
                 else Inr (replicate SEGMENT_DEK_SIZE 0)) = Inr dek"
    and loop: "segment_scan_loop \<lparr>env_lib = rv_lib E, env_header = header, env_encryption = ei,
       env_dek = dek, env_dict = take (unat (sh_dict_len header)) (drop (off - unat (sh_dict_len header)) buf),
       env_cb = Some collect_frames, env_min = 0\<rparr> buf off 0 [] = (Inr (footer, c), frames)"
    using sc by (auto simp: segment_scan_path_def segment_scan_impl_def Let_def
        split: option.splits prod.splits sum.splits if_splits)
  let ?dict = "take (unat (sh_dict_len header)) (drop (off - unat (sh_dict_len header)) buf)"
  obtain fs e0 where fs: "good_frames \<lparr>env_lib = rv_lib E, env_header = header, env_encryption = ei, env_dek = dek,
        env_dict = ?dict, env_cb = Some collect_frames, env_min = 0\<rparr> buf off 0 fs e0"
      and run: "run_cb collect_frames header fs [] = (0, frames)"
      and e0: "c = e0 \<or> footer_at (drop e0 buf) = Some footer \<and> c = e0 + 48"
    using scan_loop_good [OF loop] by auto
  have "fs = frames" using run by (simp add: run_collect)
  show thesis
  proof (rule that [OF ph])
    show "unwrap_key E r header ei = Inr dek" using key by (simp add: unwrap_key_def)
    show "off \<le> c" "c \<le> length buf" using scan_loop_bounds [OF loop] segment_parse_header_bounds [OF ph] by auto
    show "good_frames (scan_from E grp m (read_env E header ei dek ?dict)) buf off 0 frames e0" for grp m
      using fs \<open>fs = frames\<close> by (intro good_frames_env [OF fs [unfolded \<open>fs = frames\<close>]]) (simp_all add: read_env_def)
  qed (rule e0)
qed

text \<open>The frames the earlier scan found are in the file that grew.\<close>

lemma grown_frames:
  assumes "segment_grows E r path w0 w"
  obtains buf header off ei dek dict c e0 frames where "read_file path w = Some buf" and "length buf < 2 ^ 64"
    and "segment_parse_header buf = Some (header, off, ei)" and "unwrap_key E r header ei = Inr dek"
    and "dict = take (unat (sh_dict_len header)) (drop (off - unat (sh_dict_len header)) buf)"
    and "\<And>grp m. good_frames (scan_from E grp m (read_env E header ei dek dict)) buf off 0 frames e0"
    and "c = e0 \<or> (\<exists>footer. footer_at (drop e0 buf) = Some footer \<and> c = e0 + 48)"
    and "\<And>grp. group_from_path path (reader_root r) = Some grp \<Longrightarrow> group_allowed r grp \<Longrightarrow>
      file_scan E r w0 path = (Inr c, concat (map (\<lambda>f. frame_entries E grp header (fst f) (snd f)) frames))"
proof -
  obtain buf0 buf header footer c frames where b: "read_file path w0 = Some buf0" "length buf0 < 2 ^ 64"
      "read_file path w = Some buf" "length buf < 2 ^ 64"
    and sc: "segment_scan_path (rv_lib E) (Some buf0) (rp_decryptor r) (Some collect_frames) [] =
      (Inr (header, footer, c), frames)"
    and gr: "c \<le> length buf" "take c buf = take c buf0"
      "\<forall>f \<in> set frames. footer_at (drop (unat (fi_file_offset (fst f))) buf) = None"
    using assms unfolding segment_grows_def by (elim exE conjE)
  obtain off ei dek e0 where ph0: "segment_parse_header buf0 = Some (header, off, ei)"
    and key: "unwrap_key E r header ei = Inr dek" and c: "off \<le> c" "c \<le> length buf0"
    and good0: "\<And>grp m. good_frames (scan_from E grp m (read_env E header ei dek
        (take (unat (sh_dict_len header)) (drop (off - unat (sh_dict_len header)) buf0)))) buf0 off 0 frames e0"
    and e0: "c = e0 \<or> footer_at (drop e0 buf0) = Some footer \<and> c = e0 + 48"
    using scanned_frames_good [OF sc] by blast
  have ph: "segment_parse_header buf = Some (header, off, ei)"
    by (rule parse_header_untake [of c]) (use segment_parse_header_take [OF ph0 c] gr in simp_all)
  have "unat (sh_dict_len header) \<le> off" using segment_parse_header_bounds [OF ph0] by linarith
  then have n: "off - unat (sh_dict_len header) + unat (sh_dict_len header) \<le> c" using c(1) by simp
  have dict: "take (unat (sh_dict_len header)) (drop (off - unat (sh_dict_len header)) buf0) =
      take (unat (sh_dict_len header)) (drop (off - unat (sh_dict_len header)) buf)"
    using take_drop_take [OF n, of buf] take_drop_take [OF n, of buf0] gr(2) by metis
  have e0c: "e0 \<le> c" using e0 by auto
  have good: "good_frames (scan_from E grp m (read_env E header ei dek
      (take (unat (sh_dict_len header)) (drop (off - unat (sh_dict_len header)) buf)))) buf off 0 frames e0" for grp m
    by (rule good_frames_agree [OF good0 [unfolded dict] e0c gr(2) c(2) gr(1) b(2) gr(3)])
  have stop: "c = e0 \<or> (\<exists>footer. footer_at (drop e0 buf) = Some footer \<and> c = e0 + 48)"
  proof (cases "c = e0")
    case False
    then have f: "footer_at (drop e0 buf0) = Some footer" "c = e0 + 48" using e0 by auto
    have "take 48 (drop e0 buf) = take 48 (drop e0 buf0)" using gr(2) f(2) by (metis add_diff_cancel_left' drop_take)
    moreover have "48 \<le> length (drop e0 buf)" "48 \<le> length (drop e0 buf0)" using f(2) gr(1) c(2) by auto
    ultimately have "footer_at (drop e0 buf) = footer_at (drop e0 buf0)"
      by (subst (1 2) footer_at_take [symmetric, of 48]) simp_all
    then have "footer_at (drop e0 buf) = Some footer" using f(1) by simp
    then show ?thesis using f(2) by blast
  qed simp
  show thesis
    by (rule that [OF b(3,4) ph key refl good stop]) (rule file_scan_of_frames [OF b(1,2) _ _ sc])
qed

text \<open>
  A scan from the old committed end passes over the frames of the earlier scan and hands out
  exactly what a scan of the whole file gives behind their entries.
\<close>

lemma scan_resumes:
  assumes grows: "segment_grows E r path w0 w" and old: "file_scan E r w0 path = (Inr c, es0)"
    and now: "file_scan E r w path = (Inr e, es)"
    and g: "group_from_path path (reader_root r) = Some grp" "group_allowed r grp"
  shows "\<exists>new. rec_player_scan_file E r w path append_stored_entry [] c = (Inr e, new) \<and> es = es0 @ new"
proof -
  obtain buf header off ei dek dict c' e0 frames where b: "read_file path w = Some buf" "length buf < 2 ^ 64"
    and ph: "segment_parse_header buf = Some (header, off, ei)" and key: "unwrap_key E r header ei = Inr dek"
    and dict: "dict = take (unat (sh_dict_len header)) (drop (off - unat (sh_dict_len header)) buf)"
    and good: "\<And>grp m. good_frames (scan_from E grp m (read_env E header ei dek dict)) buf off 0 frames e0"
    and stop: "c' = e0 \<or> (\<exists>footer. footer_at (drop e0 buf) = Some footer \<and> c' = e0 + 48)"
    and es0: "\<And>grp. group_from_path path (reader_root r) = Some grp \<Longrightarrow> group_allowed r grp \<Longrightarrow>
      file_scan E r w0 path = (Inr c', concat (map (\<lambda>f. frame_entries E grp header (fst f) (snd f)) frames))"
    by (rule grown_frames [OF grows]) blast
  have c: "c' = c" "es0 = concat (map (\<lambda>f. frame_entries E grp header (fst f) (snd f)) frames)" using es0 [OF g] old by simp_all
  let ?env = "read_env E header ei dek dict"
  let ?i = "0 + of_nat (length frames) :: u64"
  obtain res new where L: "segment_scan_loop (scan_from E grp 0 ?env) buf e0 ?i [] = (res, new)" by fastforce
  have "segment_scan_loop (scan_from E grp 0 ?env) buf off 0 [] = segment_scan_loop (scan_from E grp 0 ?env) buf e0 ?i (es0 @ [])"
    using scan_good_frames [OF good, of grp 0 _ "[]"] c(2) by (simp add: run_scan_frames read_env_def)
  also have "\<dots> = map_prod id ((@) es0) (res, new)"
    using scan_loop_appends [OF scan_frame_appends, of "scan_from E grp 0 ?env" E grp 0 buf e0 ?i es0 "[]"] L by simp
  finally have all: "segment_scan_loop (scan_from E grp 0 ?env) buf off 0 [] = (res, es0 @ new)" by simp
  have "segment_scan_loop (scan_from E grp c ?env) buf off 0 [] = segment_scan_loop (scan_from E grp c ?env) buf e0 ?i []"
    by (rule scan_skips_frames [OF good]) (use stop c in \<open>auto simp: scan_from_def\<close>)
  also have "\<dots> = segment_scan_loop (scan_from E grp 0 ?env) buf e0 ?i []"
    using stop c(1) scan_from_irrelevant [OF b(2), of c e0] by (auto simp: scan_at_footer)
  finally have rest: "segment_scan_loop (scan_from E grp c ?env) buf off 0 [] = (res, new)" using L by simp
  note loop = scan_file_loop [OF g b(1) ph key, folded dict]
  show ?thesis
    using now by (auto simp: file_scan_def loop all rest split: sum.splits prod.splits)
qed

subsection \<open>One poll\<close>

lemma counted_entries:
  "call_entries (follow_scan_entry append_stored_entry) es (u, m) = (0, u @ es, m + length es)"
  by (induction es arbitrary: u m) (simp_all add: follow_scan_entry_def append_stored_entry_def)

lemma counting_carries:
  "carries (\<lambda>es. (u @ es, m + length es)) (scan_frame E grp k append_stored_entry)
     (scan_frame E grp k (follow_scan_entry append_stored_entry))"
  by (simp add: carries_def scan_frame_def counted_entries call_entries_append)

lemma counted_scan:
  assumes "rec_player_scan_file E r w path append_stored_entry [] k = (res, new)"
  shows "scan_path_with_context E r w path k append_stored_entry (u, m) = (res, u @ new, m + length new)"
  using assms scan_impl_carries [OF counting_carries [of u m], where x = "[]"]
  by (auto simp: scan_path_with_context_def rec_player_scan_file_def segment_scan_path_from_offset_def
      split: option.splits if_splits prod.splits sum.splits)

text \<open>Where a poll takes up a segment: nowhere when the group has moved on to a newer one.\<close>

definition resume_at :: "RecorderPlayer \<Rightarrow> SegmentPath \<Rightarrow> nat option" where
  "resume_at r p =
     (case find_follow_segment r (sp_path p) of
        None \<Rightarrow> Some 0
      | Some seen \<Rightarrow>
          if sp_segment_seq p < fs_segment_seq seen then None
          else Some (if sp_segment_seq p = fs_segment_seq seen then fs_committed_end seen else 0))"

text \<open>After a poll the group stands at the segment with the end of its scan, or at a newer one.\<close>

definition remembered :: "RecorderPlayer \<Rightarrow> SegmentPath \<Rightarrow> nat \<Rightarrow> bool" where
  "remembered r p e \<longleftrightarrow>
     (\<exists>seen. find_follow_segment r (sp_path p) = Some seen \<and> sp_segment_seq p \<le> fs_segment_seq seen \<and>
        (sp_segment_seq p = fs_segment_seq seen \<longrightarrow> fs_committed_end seen = e))"

lemma remembered_resume: "remembered r p e \<Longrightarrow> resume_at r p = None \<or> resume_at r p = Some e"
  by (auto simp: remembered_def resume_at_def)

lemma follow_new_step:
  "follow_new E w callback (p # ps) r ctx =
     (case resume_at r p of
        None \<Rightarrow> follow_new E w callback ps r ctx
      | Some k \<Rightarrow>
          (case scan_path_with_context E r w (sp_path p) k callback ctx of
             (Inl _, ctx') \<Rightarrow> (False, r, ctx')
           | (Inr committed_end, ctx') \<Rightarrow>
               (case remember_follow_segment r (sp_path p) (sp_segment_seq p) committed_end of
                  (ok, r') \<Rightarrow> if \<not> ok then (False, r', ctx') else follow_new E w callback ps r' ctx')))"
  by (simp add: resume_at_def split: option.split)

abbreviation (input) follow_group :: "RecorderPlayer \<Rightarrow> SegmentPath \<Rightarrow> string option" where
  "follow_group r p \<equiv> group_from_path (sp_path p) (reader_root r)"

lemma find_update_follow:
  "find (\<lambda>s. fs_group s = g) (update_follow grp path sq e segs) =
     (if g \<noteq> grp then find (\<lambda>s. fs_group s = g) segs
      else case find (\<lambda>s. fs_group s = g) segs of
        None \<Rightarrow> Some \<lparr>fs_group = grp, fs_path = path, fs_segment_seq = sq, fs_committed_end = e\<rparr>
      | Some item \<Rightarrow>
          Some (if sq < fs_segment_seq item then item
                else item\<lparr>fs_path := path, fs_segment_seq := sq, fs_committed_end := e\<rparr>))"
  by (induction segs) auto

lemma remember_takes:
  assumes "follow_group r p = Some grp" and "length (sp_path p) < 512" and "resume_at r p \<noteq> None"
  shows "\<exists>segs. remember_follow_segment r (sp_path p) (sp_segment_seq p) e = (True, r\<lparr>rp_follow_segments := segs\<rparr>) \<and>
    find (\<lambda>s. fs_group s = grp) segs \<noteq> None \<and>
    fs_segment_seq (the (find (\<lambda>s. fs_group s = grp) segs)) = sp_segment_seq p \<and>
    fs_committed_end (the (find (\<lambda>s. fs_group s = grp) segs)) = e \<and>
    (\<forall>g. g \<noteq> grp \<longrightarrow> find (\<lambda>s. fs_group s = g) segs = find (\<lambda>s. fs_group s = g) (rp_follow_segments r))"
proof -
  let ?find = "find (\<lambda>s. fs_group s = grp)"
  let ?segs = "update_follow grp (sp_path p) (sp_segment_seq p) e (rp_follow_segments r)"
  have later: "\<not> sp_segment_seq p < fs_segment_seq item" if "?find (rp_follow_segments r) = Some item" for item
    using assms(1,3) that by (auto simp: resume_at_def find_follow_segment_def)
  have "remember_follow_segment r (sp_path p) (sp_segment_seq p) e = (True, r\<lparr>rp_follow_segments := ?segs\<rparr>)"
    using assms(1,2) later by (cases "?find (rp_follow_segments r)") (simp_all add: remember_follow_segment_def)
  moreover have "?find ?segs \<noteq> None \<and> fs_segment_seq (the (?find ?segs)) = sp_segment_seq p \<and>
      fs_committed_end (the (?find ?segs)) = e"
    using later by (cases "?find (rp_follow_segments r)") (simp_all add: find_update_follow)
  moreover have "find (\<lambda>s. fs_group s = g) ?segs = find (\<lambda>s. fs_group s = g) (rp_follow_segments r)" if "g \<noteq> grp" for g
    using that by (simp add: find_update_follow)
  ultimately show ?thesis by blast
qed

lemma reader_with_segs:
  "rec_player_scan_file E (r\<lparr>rp_follow_segments := segs\<rparr>) w path cb u k = rec_player_scan_file E r w path cb u k"
  "follow_group (r\<lparr>rp_follow_segments := segs\<rparr>) p = follow_group r p"
  "find_follow_segment (r\<lparr>rp_follow_segments := segs\<rparr>) path =
     (case group_from_path path (reader_root r) of None \<Rightarrow> None | Some grp \<Rightarrow> find (\<lambda>s. fs_group s = grp) segs)"
  by (simp_all add: rec_player_scan_file_def group_allowed_def find_follow_segment_def split: option.split)

text \<open>Having read one segment changes nothing for the later ones.\<close>

lemma resume_at_later:
  assumes "follow_group r p = Some grp" and "length (sp_path p) < 512" and "resume_at r p \<noteq> None"
    and "remember_follow_segment r (sp_path p) (sp_segment_seq p) e = (True, r')"
    and "follow_group r q = follow_group r p \<Longrightarrow> sp_segment_seq p < sp_segment_seq q" and "follow_group r q \<noteq> None"
  shows "resume_at r' q = resume_at r q"
proof -
  obtain segs where r': "r' = r\<lparr>rp_follow_segments := segs\<rparr>" and s: "find (\<lambda>s. fs_group s = grp) segs \<noteq> None"
      "fs_segment_seq (the (find (\<lambda>s. fs_group s = grp) segs)) = sp_segment_seq p"
      "\<And>g. g \<noteq> grp \<Longrightarrow> find (\<lambda>s. fs_group s = g) segs = find (\<lambda>s. fs_group s = g) (rp_follow_segments r)"
    using remember_takes [OF assms(1-3), of e] assms(4) by auto
  obtain g where g: "follow_group r q = Some g" using assms(6) by auto
  show ?thesis
  proof (cases "g = grp")
    case False
    then show ?thesis using g s(3) [OF False] by (simp add: resume_at_def r' reader_with_segs) (simp add: find_follow_segment_def)
  next
    case True
    then have lt: "sp_segment_seq p < sp_segment_seq q" using assms(1,5) g by simp
    obtain item where "find (\<lambda>s. fs_group s = grp) segs = Some item" "fs_segment_seq item = sp_segment_seq p" using s by auto
    then have "resume_at r' q = Some 0" using g True lt by (auto simp: resume_at_def r' reader_with_segs)
    moreover have "resume_at r q = Some 0"
    proof (cases "find (\<lambda>s. fs_group s = grp) (rp_follow_segments r)")
      case (Some seen)
      then have "fs_segment_seq seen \<le> sp_segment_seq p"
        using assms(1,3) by (auto simp: resume_at_def find_follow_segment_def not_less split: if_splits)
      then show ?thesis using Some lt g True by (auto simp: resume_at_def find_follow_segment_def)
    qed (use g True in \<open>simp add: resume_at_def find_follow_segment_def\<close>)
    ultimately show ?thesis by simp
  qed
qed

lemma remembered_here:
  assumes "follow_group r p = Some grp" and "length (sp_path p) < 512" and "resume_at r p \<noteq> None"
    and "remember_follow_segment r (sp_path p) (sp_segment_seq p) e = (True, r')"
  shows "remembered r' p e" and "\<exists>segs. r' = r\<lparr>rp_follow_segments := segs\<rparr>"
  using remember_takes [OF assms(1-3), of e] assms(1,4) by (auto simp: remembered_def reader_with_segs)

lemma remembered_stays:
  assumes "remembered r q e" and "follow_group r p = Some grp" and "length (sp_path p) < 512" and "resume_at r p \<noteq> None"
    and "remember_follow_segment r (sp_path p) (sp_segment_seq p) e' = (True, r')"
    and "follow_group r q = follow_group r p \<Longrightarrow> sp_segment_seq q < sp_segment_seq p"
  shows "remembered r' q e"
proof -
  obtain segs where r': "r' = r\<lparr>rp_follow_segments := segs\<rparr>" and s: "find (\<lambda>s. fs_group s = grp) segs \<noteq> None"
      "fs_segment_seq (the (find (\<lambda>s. fs_group s = grp) segs)) = sp_segment_seq p"
      "\<And>g. g \<noteq> grp \<Longrightarrow> find (\<lambda>s. fs_group s = g) segs = find (\<lambda>s. fs_group s = g) (rp_follow_segments r)"
    using remember_takes [OF assms(2-4), of e'] assms(5) by auto
  obtain g where g: "follow_group r q = Some g"
    using assms(1) by (auto simp: remembered_def find_follow_segment_def split: option.splits)
  show ?thesis
  proof (cases "g = grp")
    case True
    then have "sp_segment_seq q < sp_segment_seq p" using assms(2,6) g by simp
    then show ?thesis using s True g by (auto simp: remembered_def r' reader_with_segs)
  next
    case False
    then show ?thesis
      using assms(1) s(3) [OF False] g by (auto simp: remembered_def r' reader_with_segs find_follow_segment_def)
  qed
qed

lemma resume_none_stays:
  assumes "resume_at r q = None" and "follow_group r p = Some grp" and "length (sp_path p) < 512" and "resume_at r p \<noteq> None"
    and "remember_follow_segment r (sp_path p) (sp_segment_seq p) e = (True, r')"
  shows "resume_at r' q = None"
proof -
  obtain segs where r': "r' = r\<lparr>rp_follow_segments := segs\<rparr>" and s: "find (\<lambda>s. fs_group s = grp) segs \<noteq> None"
      "fs_segment_seq (the (find (\<lambda>s. fs_group s = grp) segs)) = sp_segment_seq p"
      "\<And>g. g \<noteq> grp \<Longrightarrow> find (\<lambda>s. fs_group s = g) segs = find (\<lambda>s. fs_group s = g) (rp_follow_segments r)"
    using remember_takes [OF assms(2-4), of e] assms(5) by auto
  obtain g seen where g: "follow_group r q = Some g" "find (\<lambda>s. fs_group s = g) (rp_follow_segments r) = Some seen"
      "sp_segment_seq q < fs_segment_seq seen"
    using assms(1) by (auto simp: resume_at_def find_follow_segment_def split: option.splits if_splits)
  show ?thesis
  proof (cases "g = grp")
    case True
    then have "fs_segment_seq seen \<le> sp_segment_seq p"
      using assms(2,4) g by (auto simp: resume_at_def find_follow_segment_def not_less split: if_splits)
    then show ?thesis using s g True by (auto simp: resume_at_def r' reader_with_segs)
  qed (use g s(3) in \<open>simp add: resume_at_def r' reader_with_segs\<close>)
qed

text \<open>What one segment contributes to a poll, and where it was taken up.\<close>

definition polled :: "reader_env \<Rightarrow> RecorderPlayer \<Rightarrow> world \<Rightarrow> SegmentPath \<Rightarrow> nat \<Rightarrow> RecorderEntry list \<Rightarrow> bool" where
  "polled E r w p e new \<longleftrightarrow>
     follow_group r p \<noteq> None \<and> length (sp_path p) < 512 \<and>
     (case resume_at r p of
        None \<Rightarrow> new = []
      | Some k \<Rightarrow> rec_player_scan_file E r w (sp_path p) append_stored_entry [] k = (Inr e, new))"

lemma polled_later:
  "resume_at (r\<lparr>rp_follow_segments := segs\<rparr>) p = resume_at r p \<Longrightarrow>
   polled E (r\<lparr>rp_follow_segments := segs\<rparr>) w p e new \<longleftrightarrow> polled E r w p e new"
  by (simp add: polled_def reader_with_segs split: option.split)

definition same_reader :: "RecorderPlayer \<Rightarrow> RecorderPlayer \<Rightarrow> bool" where
  "same_reader r r' \<longleftrightarrow> (\<exists>segs. r' = r\<lparr>rp_follow_segments := segs\<rparr>)"

definition older_than :: "RecorderPlayer \<Rightarrow> SegmentPath list \<Rightarrow> SegmentPath \<Rightarrow> bool" where
  "older_than r ps q \<longleftrightarrow> (\<forall>p \<in> set ps. follow_group r q = follow_group r p \<longrightarrow> sp_segment_seq q < sp_segment_seq p)"

lemma same_reader_refl: "same_reader r r"
  unfolding same_reader_def by (rule exI [of _ "rp_follow_segments r"]) simp

lemma same_reader_trans: "same_reader r r' \<Longrightarrow> same_reader r' r'' \<Longrightarrow> same_reader r r''"
  by (auto simp: same_reader_def)

lemma same_reader_group: "same_reader r r' \<Longrightarrow> follow_group r' p = follow_group r p"
  by (auto simp: same_reader_def)

lemma same_reader_older: "same_reader r r' \<Longrightarrow> older_than r' ps q = older_than r ps q"
  by (simp add: older_than_def same_reader_group)

lemma older_than_Cons:
  "older_than r (p # ps) q \<longleftrightarrow> (follow_group r q = follow_group r p \<longrightarrow> sp_segment_seq q < sp_segment_seq p) \<and> older_than r ps q"
  by (simp add: older_than_def)

text \<open>The paths are taken in the order of their numbers, no two of a group with the same one.\<close>

fun by_number :: "RecorderPlayer \<Rightarrow> SegmentPath list \<Rightarrow> bool" where
  "by_number r [] \<longleftrightarrow> True"
| "by_number r (p # ps) \<longleftrightarrow> older_than r ps p \<and> by_number r ps"

lemma same_reader_by_number: "same_reader r r' \<Longrightarrow> by_number r' ps = by_number r ps"
  by (induction ps) (simp_all add: same_reader_older)

declare follow_new.simps(2) [simp del]

text \<open>One segment of a poll: what it adds, and what the reader knows afterwards.\<close>

lemma follow_one:
  assumes "polled E r w p e new"
  shows "\<exists>r'. (\<forall>ps. follow_new E w append_stored_entry (p # ps) r (u, m) =
        follow_new E w append_stored_entry ps r' (u @ new, m + length new)) \<and> same_reader r r' \<and>
    (resume_at r p \<noteq> None \<longrightarrow> remembered r' p e) \<and>
    (\<forall>q. follow_group r q \<noteq> None \<longrightarrow> older_than r [q] p \<longrightarrow> resume_at r' q = resume_at r q) \<and>
    (\<forall>q. resume_at r q = None \<longrightarrow> resume_at r' q = None) \<and>
    (\<forall>q d. older_than r [p] q \<longrightarrow> remembered r q d \<longrightarrow> remembered r' q d)"
proof (cases "resume_at r p")
  case None
  then show ?thesis using assms by (intro exI [of _ r]) (simp add: follow_new_step polled_def same_reader_refl)
next
  case (Some k)
  obtain grp where g: "follow_group r p = Some grp" and len: "length (sp_path p) < 512"
    and sc: "rec_player_scan_file E r w (sp_path p) append_stored_entry [] k = (Inr e, new)"
    using assms Some by (auto simp: polled_def)
  have res: "resume_at r p \<noteq> None" using Some by simp
  obtain r' where rem: "remember_follow_segment r (sp_path p) (sp_segment_seq p) e = (True, r')"
    using remember_takes [OF g len res] by blast
  show ?thesis
  proof (intro exI conjI allI impI)
    show "follow_new E w append_stored_entry (p # ps) r (u, m) =
        follow_new E w append_stored_entry ps r' (u @ new, m + length new)" for ps
      by (simp add: follow_new_step Some counted_scan [OF sc] rem)
    show "same_reader r r'" using remembered_here(2) [OF g len res rem] by (simp add: same_reader_def)
    show "remembered r' p e" by (rule remembered_here(1) [OF g len res rem])
    show "resume_at r' q = resume_at r q" if "follow_group r q \<noteq> None" "older_than r [q] p" for q
      using that by (intro resume_at_later [OF g len res rem]) (simp_all add: older_than_def)
    show "resume_at r' q = None" if "resume_at r q = None" for q by (rule resume_none_stays [OF that g len res rem])
    show "remembered r' q d" if "older_than r [p] q" "remembered r q d" for q d
      using that by (intro remembered_stays [OF _ g len res rem]) (simp_all add: older_than_def)
  qed
qed

lemma follow_new_reads:
  assumes "by_number r ps" and "\<forall>p \<in> set ps. polled E r w p (e p) (new p)"
  shows "\<exists>r'. follow_new E w append_stored_entry ps r (u, m) =
      (True, r', u @ concat (map new ps), m + length (concat (map new ps))) \<and> same_reader r r' \<and>
    (\<forall>p \<in> set ps. resume_at r p \<noteq> None \<longrightarrow> remembered r' p (e p)) \<and>
    (\<forall>q. resume_at r q = None \<longrightarrow> resume_at r' q = None) \<and>
    (\<forall>q d. older_than r ps q \<longrightarrow> remembered r q d \<longrightarrow> remembered r' q d)"
  using assms
proof (induction ps arbitrary: r u m)
  case Nil
  then show ?case by (simp add: same_reader_refl)
next
  case (Cons p ps)
  have p: "polled E r w p (e p) (new p)" using Cons.prems(2) by simp
  obtain r1 where f: "\<And>ps. follow_new E w append_stored_entry (p # ps) r (u, m) =
        follow_new E w append_stored_entry ps r1 (u @ new p, m + length (new p))" and same: "same_reader r r1"
    and rem: "resume_at r p \<noteq> None \<longrightarrow> remembered r1 p (e p)"
    and later: "\<And>q. follow_group r q \<noteq> None \<Longrightarrow> older_than r [q] p \<Longrightarrow> resume_at r1 q = resume_at r q"
    and none: "\<forall>q. resume_at r q = None \<longrightarrow> resume_at r1 q = None"
    and keep: "\<And>q d. older_than r [p] q \<Longrightarrow> remembered r q d \<Longrightarrow> remembered r1 q d"
    using follow_one [OF p, of u m] by (elim exE conjE) blast
  have q: "resume_at r1 q = resume_at r q" if "q \<in> set ps" for q
    using Cons.prems that by (intro later) (auto simp: polled_def older_than_def)
  have "polled E r1 w q (e q) (new q)" if "q \<in> set ps" for q
    using Cons.prems(2) that q [OF that] same polled_later by (auto simp: same_reader_def)
  moreover have "by_number r1 ps" using Cons.prems(1) same by (simp add: same_reader_by_number)
  ultimately obtain r' where
    f': "follow_new E w append_stored_entry ps r1 (u @ new p, m + length (new p)) =
      (True, r', (u @ new p) @ concat (map new ps), m + length (new p) + length (concat (map new ps)))"
    and same': "same_reader r1 r'" and rem': "\<forall>q \<in> set ps. resume_at r1 q \<noteq> None \<longrightarrow> remembered r' q (e q)"
    and none': "\<forall>q. resume_at r1 q = None \<longrightarrow> resume_at r' q = None"
    and keep': "\<forall>q d. older_than r1 ps q \<longrightarrow> remembered r1 q d \<longrightarrow> remembered r' q d"
    using Cons.IH [of r1 "u @ new p" "m + length (new p)"] by blast
  have old: "older_than r ps p" using Cons.prems(1) by simp
  have split: "older_than r (p # ps) q \<longleftrightarrow> older_than r [p] q \<and> older_than r1 ps q" for q
    using same_reader_older [OF same] by (auto simp: older_than_def)
  show ?case
  proof (intro exI conjI ballI allI impI)
    show "follow_new E w append_stored_entry (p # ps) r (u, m) =
        (True, r', u @ concat (map new (p # ps)), m + length (concat (map new (p # ps))))"
      using f f' by simp
    show "same_reader r r'" by (rule same_reader_trans [OF same same'])
    show "remembered r' x (e x)" if "x \<in> set (p # ps)" "resume_at r x \<noteq> None" for x
    proof (cases "x \<in> set ps")
      case True
      then show ?thesis using rem' q that(2) by simp
    next
      case False
      then have "x = p" using that(1) by simp
      then show ?thesis using rem that(2) keep' old same_reader_older [OF same] by simp
    qed
    show "resume_at r' x = None" if "resume_at r x = None" for x using that none none' by blast
    show "remembered r' x d" if "older_than r (p # ps) x" "remembered r x d" for x d
      using that keep keep' split by blast
  qed
qed

subsection \<open>Every entry once\<close>

lemma comparison_segment_path: "comparison compare_segment_path"
  unfolding compare_segment_path_def [abs_def] by (rule comparison_cmp3)

interpretation segment_order: comparison compare_segment_path
  by (rule comparison_segment_path)

lemma by_number_sorted:
  assumes "sorted_wrt (\<lambda>p q. compare_segment_path p q \<le> 0) ps" and "distinct (map (\<lambda>p. (follow_group r p, sp_segment_seq p)) ps)"
  shows "by_number r ps"
  using assms
proof (induction ps)
  case (Cons p ps)
  have "sp_segment_seq p \<le> sp_segment_seq q" if "q \<in> set ps" for q
    using Cons.prems(1) that by (auto simp: compare_segment_path_def cmp3_def split: if_splits)
  then have "older_than r ps p"
    using Cons.prems(2) unfolding older_than_def by (fastforce simp: order.strict_iff_order)
  then show ?case using Cons by simp
qed simp

lemma follow_paths_by_number:
  assumes "follow_paths r w = Some paths" and "distinct (map (\<lambda>p. (follow_group r p, sp_segment_seq p)) paths)"
  shows "by_number r paths"
  using assms segment_order.qsort_sorted by (intro by_number_sorted) (auto simp: follow_paths_def)

text \<open>What the reader relies on in a segment it has read before: it was read up to a committed end and only grew.\<close>

definition read_before :: "reader_env \<Rightarrow> RecorderPlayer \<Rightarrow> world \<Rightarrow> world \<Rightarrow> SegmentPath \<Rightarrow> nat \<Rightarrow> bool" where
  "read_before E r w0 w p k \<longleftrightarrow>
     segment_grows E r (sp_path p) w0 w \<and> (\<exists>es0. file_scan E r w0 (sp_path p) = (Inr k, es0))"

text \<open>The new entries of a segment in a poll, against a scan of the whole file.\<close>

definition fresh_entries ::
    "reader_env \<Rightarrow> RecorderPlayer \<Rightarrow> world \<Rightarrow> world \<Rightarrow> SegmentPath \<Rightarrow> RecorderEntry list \<Rightarrow> RecorderEntry list \<Rightarrow> bool" where
  "fresh_entries E r w0 w p es new \<longleftrightarrow>
     (case resume_at r p of
        None \<Rightarrow> new = []
      | Some k \<Rightarrow> if k = 0 then new = es else es = snd (file_scan E r w0 (sp_path p)) @ new)"

lemma poll_segment:
  assumes scan: "file_scan E r w (sp_path p) = (Inr e, es)" and "length (sp_path p) < 512"
    and "\<And>k. resume_at r p = Some k \<Longrightarrow> k \<noteq> 0 \<Longrightarrow> read_before E r w0 w p k"
  shows "\<exists>new. polled E r w p e new \<and> fresh_entries E r w0 w p es new"
proof -
  obtain grp where g: "follow_group r p = Some grp" using scanned_group [OF scan] by blast
  consider "resume_at r p = None" | "resume_at r p = Some 0" | k where "resume_at r p = Some k" "k \<noteq> 0" by (cases "resume_at r p") auto
  then show ?thesis
  proof cases
    case (3 k)
    then obtain es0 where grows: "segment_grows E r (sp_path p) w0 w" and old: "file_scan E r w0 (sp_path p) = (Inr k, es0)"
      using assms(3) by (auto simp: read_before_def)
    have "group_allowed r grp" using old 3(2) g by (auto simp: file_scan_def rec_player_scan_file_def split: if_splits)
    from scan_resumes [OF grows old scan g this] show ?thesis
      using 3 g assms(2) old by (auto simp: polled_def fresh_entries_def)
  qed (use g assms(2) scan in \<open>auto simp: polled_def fresh_entries_def file_scan_def\<close>)
qed

lemma skipped_remembered: "resume_at r p = None \<Longrightarrow> remembered r p d"
  by (auto simp: resume_at_def remembered_def split: option.splits if_splits)


subsection \<open>A poll of the example store\<close>

text \<open>
  The reader has read \<^verbatim>\<open>p4/7.seg\<close> when only its header was written and has not seen
  \<^verbatim>\<open>p3/3.seg\<close> at all.
\<close>

definition header_end :: nat where
  "header_end = length (contents (fst (demo_head False)))"

definition earlier_store :: world where
  "earlier_store = walk_store\<lparr>w_files := [(''/l/p4/7.seg'', \<lparr>f_data = contents (fst (demo_head False)), f_mtime = 0\<rparr>)]\<rparr>"

definition follow_reader :: RecorderPlayer where
  "follow_reader = walk_reader\<lparr>rp_follow_initialized := True,
     rp_follow_segments := [\<lparr>fs_group = ''p4'', fs_path = ''/l/p4/7.seg'', fs_segment_seq = 7, fs_committed_end = header_end\<rparr>]\<rparr>"

lemma demo_head_nonempty: "contents (fst (demo_head False)) \<noteq> []"
proof -
  have "segment_write_header demo_lib 0 (fopen_w []) (demo_header False) [] None =
      (Inr (), fst (demo_head False), snd (demo_head False))"
    using demo_head_ok [of False] by (simp add: demo_enc_def)
  from segment_write_header_plain(1) [OF this] show ?thesis
    using length_header_buf [of "demo_header False" 0 "[]"] by (auto simp del: length_header_buf)
qed

lemma header_scan:
  "segment_scan_path demo_lib (Some (contents (fst (demo_head False)))) (Some 2) (Some collect_frames) [] =
     (Inr (stored_header (demo_header False) 0, empty_footer, header_end), [])"
proof -
  have stop: "segment_scan_loop env (contents (fst (demo_head False)) @ []) (length (contents (fst (demo_head False)))) i c =
      (Inr (empty_footer, header_end), c)" for env :: "'c scan_env" and i c
    by (simp add: scan_at_end header_end_def)
  have nf: "no_false_footer b (frame_offsets n t [])" for b n t by (simp add: no_false_footer_def)
  show ?thesis
    using scan_written_stop [OF demo_head_ok write_frames.simps(1) demo_can_decrypt list_all2_Nil [THEN iffD2, OF refl] nf stop,
        of collect_frames "[]"] demo_head_nonempty
    by (simp add: segment_scan_path_def segment_scan_buffer_def)
qed

lemma header_end_bounds: "0 < header_end" "header_end < 2 ^ 64" "header_end \<le> length (contents (fst (demo_body False)))"
  "take header_end (contents (fst (demo_body False))) = contents (fst (demo_head False))"
  using demo_body_length demo_head_nonempty by (simp_all add: header_end_def demo_body_ok)

lemma follow_reader_fields [simp]:
  "rp_path follow_reader = ''/l''" "rp_path_is_directory follow_reader" "rp_decryptor follow_reader = Some 2"
  "rp_group_filter follow_reader = []" "rp_follow_initialized follow_reader" "\<not> rp_follow_topology_pending follow_reader"
  "rp_follow_segments follow_reader =
     [\<lparr>fs_group = ''p4'', fs_path = ''/l/p4/7.seg'', fs_segment_seq = 7, fs_committed_end = header_end\<rparr>]"
  using walk_reader_fields
  by (simp_all add: follow_reader_def) (simp add: walk_reader_def rec_player_open_def walk_store_def is_dir_def Let_def walk_env_def)

lemma follow_reader_scan:
  "file_scan walk_env follow_reader w path = file_scan walk_env walk_reader w path"
  by (simp add: group_allowed_def file_scan_def rec_player_scan_file_def walk_reader_fields split: option.split)

abbreviation (input) whole_segment :: SegmentPath where
  "whole_segment \<equiv> \<lparr>sp_path = ''/l/p3/3.seg'', sp_segment_seq = 3\<rparr>"

abbreviation (input) grown_segment :: SegmentPath where
  "grown_segment \<equiv> \<lparr>sp_path = ''/l/p4/7.seg'', sp_segment_seq = 7\<rparr>"

lemma follow_reader_paths: "follow_paths follow_reader walk_store = Some [whole_segment, grown_segment]"
  by (simp add: follow_paths_def collect_latest_segment_paths_def walk_dirs demo_names
      demo_seqs group_allowed_def collect_latest_segment_in_dir_def add_segment_path_def qsort_def compare_segment_path_def
      cmp3_def)

lemma follow_reader_resumes:
  "resume_at follow_reader whole_segment = Some 0" "resume_at follow_reader grown_segment = Some header_end"
  by (simp_all add: resume_at_def find_follow_segment_def walk_groups)

lemma earlier_file: "read_file ''/l/p4/7.seg'' earlier_store = Some (contents (fst (demo_head False)))"
  by (simp add: read_file_def stat_def earlier_store_def)

lemma earlier_scan: "file_scan walk_env walk_reader earlier_store ''/l/p4/7.seg'' = (Inr header_end, [])"
  using file_scan_of_frames [OF earlier_file, of walk_reader "''p4''" walk_env] header_scan header_end_bounds(2)
  by (simp add: walk_groups walk_reader_fields group_allowed_def walk_env_def header_end_def)

lemma follow_reader_read: "read_before walk_env follow_reader earlier_store walk_store grown_segment header_end"
proof -
  have "segment_grows walk_env follow_reader ''/l/p4/7.seg'' earlier_store walk_store"
    unfolding segment_grows_def
    using header_scan header_end_bounds demo_body_length
    by (intro exI [of _ "contents (fst (demo_head False))"] exI [of _ "contents (fst (demo_body False))"])
      (simp add: earlier_file walk_store_files walk_env_def header_end_def)
  then show ?thesis using earlier_scan by (simp add: read_before_def follow_reader_scan)
qed


end
