(* ===== verification/Script_Worker.thy ===== *)
theory Script_Worker
  imports Entries "HOL-Library.Multiset"
begin

text \<open>
  The script worker (\<^verbatim>\<open>src/script_worker.c\<close>): a bounded queue of jobs, filled by the recording
  process and emptied by a fixed number of threads, each of which runs one child process at a
  time. The jobs are nodes of a singly linked list in a heap, so that the pointers \<^verbatim>\<open>head\<close>,
  \<^verbatim>\<open>tail\<close> and \<^verbatim>\<open>next\<close> are modelled as the code has them; a critical section of the mutex is one
  step of a transition relation that interleaves the threads, the submitter and
  \<^verbatim>\<open>script_worker_destroy\<close>. The condition variable is modelled with its waiting threads,
  signals that wake one of them, broadcasts and spurious wakeups.
\<close>

subsection \<open>Jobs\<close>

definition SCRIPT_MAX_ARGC :: nat where "SCRIPT_MAX_ARGC = 128"

definition SCRIPT_MAX_ARG_LEN :: nat where "SCRIPT_MAX_ARG_LEN = 64 * 1024"

definition SCRIPT_MAX_JSON :: nat where "SCRIPT_MAX_JSON = 1024 * 1024"

definition SCRIPT_MAX_ENV :: nat where "SCRIPT_MAX_ENV = 128"

definition SCRIPT_MAX_ENV_LEN :: nat where "SCRIPT_MAX_ENV_LEN = 64 * 1024"

definition SCRIPT_DEFAULT_TIMEOUT :: u32 where "SCRIPT_DEFAULT_TIMEOUT = 30"

record ScriptJob =
  job_argv :: "string list"
  job_json :: string
  job_env :: "(string \<times> byte list) list"
  job_timeout_sec :: u32

definition copy_string :: "'a list \<Rightarrow> nat \<Rightarrow> errno + 'a list" where
  "copy_string s max_len = (if length s > max_len then Inl EINVAL else Inr s)"

fun copy_argv :: "string list \<Rightarrow> errno + string list" where
  "copy_argv [] = Inr []"
| "copy_argv (s # ss) =
     (case copy_string s SCRIPT_MAX_ARG_LEN of
        Inl rc \<Rightarrow> Inl rc
      | Inr c \<Rightarrow> (case copy_argv ss of Inl rc \<Rightarrow> Inl rc | Inr cs \<Rightarrow> Inr (c # cs)))"

fun copy_env :: "(string \<times> byte list) list \<Rightarrow> errno + (string \<times> byte list) list" where
  "copy_env [] = Inr []"
| "copy_env ((name, v) # env) =
     (if take 4 name \<noteq> ''REC_'' then Inl EINVAL
      else case copy_string name SCRIPT_MAX_ENV_LEN of
        Inl rc \<Rightarrow> Inl rc
      | Inr n \<Rightarrow>
          (case copy_string v SCRIPT_MAX_ENV_LEN of
             Inl rc \<Rightarrow> Inl rc
           | Inr u \<Rightarrow> (case copy_env env of Inl rc \<Rightarrow> Inl rc | Inr cs \<Rightarrow> Inr ((n, u) # cs))))"

definition job_copy :: "ScriptJobSpec \<Rightarrow> errno + ScriptJob" where
  "job_copy spec =
     (if sj_argv spec = [] \<or> length (sj_argv spec) > SCRIPT_MAX_ARGC \<or> length (sj_env spec) > SCRIPT_MAX_ENV then Inl EINVAL
      else case copy_argv (sj_argv spec) of
        Inl rc \<Rightarrow> Inl rc
      | Inr argv \<Rightarrow>
          (case copy_string (sj_json_payload spec) SCRIPT_MAX_JSON of
             Inl rc \<Rightarrow> Inl rc
           | Inr json \<Rightarrow>
               (case copy_env (sj_env spec) of
                  Inl rc \<Rightarrow> Inl rc
                | Inr env \<Rightarrow>
                    Inr \<lparr>job_argv = argv, job_json = json, job_env = env,
                         job_timeout_sec = (if sj_timeout_sec spec \<noteq> 0 then sj_timeout_sec spec
                                            else SCRIPT_DEFAULT_TIMEOUT)\<rparr>)))"

subsection \<open>Running a job\<close>

text \<open>
  The answers of the system to the calls of \<^verbatim>\<open>run_job\<close>: a \<^verbatim>\<open>write\<close> that takes some bytes, one that
  would block or is interrupted, with the monotonic clock after the \<^verbatim>\<open>poll\<close> that follows, and one
  that fails otherwise; a \<^verbatim>\<open>waitpid\<close> that reaps the child (or finds no child to wait for) and one
  that does not. A pipe with no further answers takes everything, a child with none runs on.
\<close>

type_synonym timespec = "int \<times> int"

datatype write_answer = Wrote nat | WouldBlock timespec | WriteFails

datatype wait_answer = ChildGone | ChildRuns

datatype child_end = NotStarted | Reaped | Killed

record child_answers =
  ca_pipe :: bool
  ca_fork :: bool
  ca_start :: timespec
  ca_writes :: "write_answer list"
  ca_waits :: "wait_answer list"

definition child_envp :: "ScriptJob \<Rightarrow> byte list list" where
  "child_envp j = map (\<lambda>(name, v). str_bytes (name @ ''='') @ v) (job_env j)"

definition feed_timeout :: "ScriptJob \<Rightarrow> timespec \<Rightarrow> timespec \<Rightarrow> bool" where
  "feed_timeout j start now =
     (let ns = snd now - snd start;
          ms = (if ns < 0 then - (- ns div 1000000) else ns div 1000000)
      in (of_int ((fst now - fst start) * 1000 + ms) :: u32) \<ge> job_timeout_sec j * 1000)"

fun feed_loop :: "ScriptJob \<Rightarrow> timespec \<Rightarrow> write_answer list \<Rightarrow> nat \<Rightarrow> nat" where
  "feed_loop j start [] off = max off (length (job_json j) + 1)"
| "feed_loop j start (a # answers) off =
     (let total = length (job_json j) in
      if off \<ge> total + 1 then off
      else
        let left = (if off < total then total - off else 1) in
        case a of
          Wrote n \<Rightarrow> if 0 < n then feed_loop j start answers (off + min n left) else off
        | WouldBlock now \<Rightarrow> if feed_timeout j start now then off else feed_loop j start answers off
        | WriteFails \<Rightarrow> off)"

partial_function (option) wait_loop :: "u32 \<Rightarrow> wait_answer list \<Rightarrow> u32 \<Rightarrow> child_end option" where
  "wait_loop limit answers elapsed =
     (if elapsed < limit
      then (case answers of
              ChildGone # _ \<Rightarrow> Some Reaped
            | ChildRuns # answers' \<Rightarrow> wait_loop limit answers' (elapsed + 10)
            | [] \<Rightarrow> wait_loop limit [] (elapsed + 10))
      else Some Killed)"

text \<open>What the child is given on its standard input, and how it ends.\<close>

definition run_job :: "child_answers \<Rightarrow> ScriptJob \<Rightarrow> (string \<times> child_end) option" where
  "run_job A j =
     (if \<not> ca_pipe A \<or> \<not> ca_fork A then Some ([], NotStarted)
      else
        let off = feed_loop j (ca_start A) (ca_writes A) 0
        in map_option (Pair (take off (job_json j @ [CHR 0x0A])))
             (wait_loop (job_timeout_sec j * 1000) (ca_waits A) 0))"

text \<open>Every child ends: the loop counts to its limit, which is a multiple of eight milliseconds, without wrapping.\<close>

lemma multiple_below: "8 dvd x \<Longrightarrow> x < 4294967296 \<Longrightarrow> x \<le> 4294967288" for x :: nat
  by (elim dvdE) simp

lemma tens_below: "10 dvd x \<Longrightarrow> x < 4294967288 \<Longrightarrow> x < 4294967286" for x :: nat
  by presburger

lemma limit_below: "unat ((t :: u32) * 1000) \<le> 4294967288"
proof -
  have u: "unat (t * 1000) = (unat t * 1000) mod 4294967296" by (simp add: unat_word_ariths)
  have "8 dvd unat t * 1000" by (rule dvd_mult) simp
  moreover have "(8 :: nat) dvd 4294967296" by simp
  ultimately have "8 dvd (unat t * 1000) mod 4294967296" by (rule dvd_mod)
  then show ?thesis unfolding u by (rule multiple_below) simp
qed

lemma wait_loop_returns:
  assumes "unat limit \<le> 4294967288" and "4294967300 - unat elapsed \<le> n" and "10 dvd unat elapsed"
  shows "\<exists>r. wait_loop limit answers elapsed = Some r"
  using assms(2,3)
proof (induction n arbitrary: answers elapsed)
  case 0
  then show ?case using unsigned_less [of elapsed, where 'a = nat] by simp
next
  case (Suc n)
  show ?case
  proof (cases "elapsed < limit")
    case True
    then have "unat elapsed < 4294967288" using assms(1) by (simp add: word_less_nat_alt)
    with Suc.prems(2) have "unat elapsed < 4294967286" by (rule tens_below)
    then have "unat (elapsed + 10) = unat elapsed + 10" by (simp add: unat_plus_if')
    then have "4294967300 - unat (elapsed + 10) \<le> n" "10 dvd unat (elapsed + 10)" using Suc.prems by simp_all
    from Suc.IH [OF this] True show ?thesis
      by (subst wait_loop.simps) (auto split: list.split wait_answer.split)
  qed (simp add: wait_loop.simps)
qed

lemma run_job_returns: "\<exists>r. run_job A j = Some r"
  using wait_loop_returns [OF limit_below [of "job_timeout_sec j"] order_refl, of 0 "ca_waits A"]
  by (auto simp: run_job_def Let_def)

subsection \<open>The queue\<close>

record ScriptWorker =
  sw_nodes :: "nat \<rightharpoonup> ScriptJob \<times> nat option"
  sw_head :: "nat option"
  sw_tail :: "nat option"
  sw_queued :: u64
  sw_capacity :: u64
  sw_workers :: nat
  sw_stopping :: bool

text \<open>\<^verbatim>\<open>script_worker_submit\<close>; \<^verbatim>\<open>a\<close> is the address that \<^verbatim>\<open>calloc\<close> gives the copy of the job.\<close>

definition script_worker_submit :: "nat \<Rightarrow> ScriptJobSpec \<Rightarrow> ScriptWorker \<Rightarrow> errno option \<times> ScriptWorker" where
  "script_worker_submit a spec w =
     (case job_copy spec of
        Inl rc \<Rightarrow> (Some rc, w)
      | Inr j \<Rightarrow>
          if sw_stopping w \<or> sw_queued w \<ge> sw_capacity w then (Some ENOSPC, w)
          else
            let w1 = w\<lparr>sw_nodes := (sw_nodes w)(a \<mapsto> (j, None))\<rparr>;
                w2 = (case sw_tail w1 of
                        Some t \<Rightarrow>
                          (case sw_nodes w1 t of
                             Some (k, _) \<Rightarrow> w1\<lparr>sw_nodes := (sw_nodes w1)(t \<mapsto> (k, Some a))\<rparr>
                           | None \<Rightarrow> w1)
                      | None \<Rightarrow> w1\<lparr>sw_head := Some a\<rparr>)
            in (None, w2\<lparr>sw_tail := Some a, sw_queued := sw_queued w2 + 1\<rparr>))"

text \<open>The critical section of \<^verbatim>\<open>worker_main\<close> that takes the head off the queue.\<close>

definition take_job :: "ScriptWorker \<Rightarrow> (nat \<times> ScriptWorker) option" where
  "take_job w =
     (case sw_head w of
        None \<Rightarrow> None
      | Some a \<Rightarrow>
          (case sw_nodes w a of
             None \<Rightarrow> None
           | Some (j, nx) \<Rightarrow>
               Some (a, w\<lparr>sw_head := nx, sw_tail := (if nx = None then None else sw_tail w),
                          sw_queued := sw_queued w - 1\<rparr>)))"

definition job_free :: "nat \<Rightarrow> ScriptWorker \<Rightarrow> ScriptWorker" where
  "job_free a w = w\<lparr>sw_nodes := (sw_nodes w)(a := None)\<rparr>"

text \<open>The abstraction: the nodes reached from \<^verbatim>\<open>head\<close>, in their order.\<close>

fun chain :: "(nat \<rightharpoonup> 'j \<times> nat option) \<Rightarrow> nat option \<Rightarrow> nat list \<Rightarrow> bool" where
  "chain h p [] \<longleftrightarrow> p = None"
| "chain h p (a # as) \<longleftrightarrow> p = Some a \<and> (\<exists>j nx. h a = Some (j, nx) \<and> chain h nx as)"

definition job_at :: "ScriptWorker \<Rightarrow> nat \<Rightarrow> ScriptJob" where
  "job_at w a = fst (the (sw_nodes w a))"

definition queue_ok :: "ScriptWorker \<Rightarrow> nat list \<Rightarrow> bool" where
  "queue_ok w as \<longleftrightarrow>
     chain (sw_nodes w) (sw_head w) as \<and> distinct as \<and> sw_tail w = (if as = [] then None else Some (last as)) \<and>
     sw_queued w = of_nat (length as) \<and> length as \<le> unat (sw_capacity w)"

lemma chain_nodes: "chain h p as \<Longrightarrow> set as \<subseteq> dom h"
  by (induction as arbitrary: p) auto

lemma chain_frame: "chain h p as \<Longrightarrow> \<forall>x \<in> set as. h' x = h x \<Longrightarrow> chain h' p as"
  by (induction as arbitrary: p) auto

lemma chain_upd_other [simp]: "a \<notin> set as \<Longrightarrow> chain (h(a := v)) p as = chain h p as"
  by (induction as arbitrary: p) auto

lemma chain_snoc:
  assumes "chain h p as" and "distinct as" and "a \<notin> set as" and "as \<noteq> []" and "h (last as) = Some (k, nx)"
  shows "chain (h(a \<mapsto> (j, None), last as \<mapsto> (k, Some a))) p (as @ [a])"
  using assms
proof (induction as arbitrary: p)
  case (Cons b bs)
  then show ?case by (cases "bs = []") (auto simp: fun_upd_twist)
qed simp

lemma queue_unqueued: "queue_ok w as \<Longrightarrow> unat (sw_queued w) = length as"
  unfolding queue_ok_def using unsigned_less [of "sw_capacity w", where 'a = nat]
  by (auto simp: unat_of_nat)

lemma submit_refines:
  assumes "queue_ok w as" and "sw_nodes w a = None" and "script_worker_submit a spec w = (None, w')"
  shows "\<exists>j. job_copy spec = Inr j \<and> queue_ok w' (as @ [a]) \<and> job_at w' a = j \<and> dom (sw_nodes w') = insert a (dom (sw_nodes w)) \<and>
    (\<forall>b. b \<noteq> a \<longrightarrow> job_at w' b = job_at w b) \<and>
    sw_stopping w' = sw_stopping w \<and> sw_capacity w' = sw_capacity w \<and> sw_workers w' = sw_workers w"
proof -
  have q: "chain (sw_nodes w) (sw_head w) as" "distinct as" "sw_tail w = (if as = [] then None else Some (last as))"
    "sw_queued w = of_nat (length as)" using assms(1) by (simp_all add: queue_ok_def)
  obtain j where j: "job_copy spec = Inr j" and "\<not> sw_stopping w" and room: "sw_queued w < sw_capacity w"
    using assms(3) by (auto simp: script_worker_submit_def split: sum.splits if_splits)
  then have full: "\<not> sw_capacity w \<le> sw_queued w" by simp
  note sub = assms(3) [unfolded script_worker_submit_def, simplified j Let_def sum.case]
  have len: "length as < unat (sw_capacity w)" using room queue_unqueued [OF assms(1)] by (simp add: word_less_nat_alt)
  have new: "a \<notin> set as" using chain_nodes [OF q(1)] assms(2) by (auto simp: domIff)
  show ?thesis
  proof (cases "as = []")
    case True
    then have "w' = w\<lparr>sw_nodes := (sw_nodes w)(a \<mapsto> (j, None)), sw_head := Some a, sw_tail := Some a, sw_queued := sw_queued w + 1\<rparr>"
      using sub full q(3) \<open>\<not> sw_stopping w\<close> by simp
    then show ?thesis using True j len q(4) by (simp add: queue_ok_def job_at_def)
  next
    case False
    then have "last as \<in> dom (sw_nodes w)" using chain_nodes [OF q(1)] by (meson last_in_set subsetD)
    then obtain k nx where l: "sw_nodes w (last as) = Some (k, nx)" by (auto simp: domIff)
    have "last as \<noteq> a" using new False by auto
    then have "w' = w\<lparr>sw_nodes := (sw_nodes w)(a \<mapsto> (j, None), last as \<mapsto> (k, Some a)), sw_tail := Some a,
        sw_queued := sw_queued w + 1\<rparr>"
      using sub full q(3) False l \<open>\<not> sw_stopping w\<close> by simp
    moreover note chain_snoc [OF q(1,2) new False l]
    ultimately show ?thesis using j len q new l \<open>last as \<noteq> a\<close> by (auto simp: queue_ok_def job_at_def)
  qed
qed

lemma take_refines:
  assumes "queue_ok w as" and "take_job w = Some (a, w')"
  shows "\<exists>bs. as = a # bs \<and> queue_ok w' bs \<and> sw_nodes w' = sw_nodes w \<and>
    sw_stopping w' = sw_stopping w \<and> sw_capacity w' = sw_capacity w \<and> sw_workers w' = sw_workers w"
proof -
  obtain j nx where w': "sw_head w = Some a" "sw_nodes w a = Some (j, nx)"
    "w' = w\<lparr>sw_head := nx, sw_tail := (if nx = None then None else sw_tail w), sw_queued := sw_queued w - 1\<rparr>"
    using assms(2) by (auto simp: take_job_def split: option.splits)
  then obtain bs where as: "as = a # bs" and nx: "chain (sw_nodes w) nx bs"
    using assms(1) by (cases as) (auto simp: queue_ok_def)
  then have "nx = None \<longleftrightarrow> bs = []" by (cases bs) auto
  then show ?thesis using w' as nx assms(1) by (auto simp: queue_ok_def)
qed

lemma take_job_empty: "queue_ok w as \<Longrightarrow> take_job w = None \<longleftrightarrow> sw_head w = None"
  by (cases as) (auto simp: queue_ok_def take_job_def)

lemma head_empty: "queue_ok w as \<Longrightarrow> sw_head w = None \<longleftrightarrow> as = []"
  by (cases as) (auto simp: queue_ok_def)

lemma free_refines: "queue_ok w as \<Longrightarrow> a \<notin> set as \<Longrightarrow> queue_ok (job_free a w) as"
  by (simp add: queue_ok_def job_free_def)

subsection \<open>Threads\<close>

text \<open>
  A thread of \<^verbatim>\<open>worker_main\<close> is about to lock the mutex, waits on the condition variable, runs the
  job at an address, or has left its loop. The history lists the jobs that were accepted, taken
  off the queue and run to their end.
\<close>

datatype worker_thread = Locking | Waiting | Running nat | Exited

datatype destroy_phase = InUse | Joining nat | Released

record worker_system =
  ws_worker :: ScriptWorker
  ws_threads :: "worker_thread list"
  ws_phase :: destroy_phase
  ws_accepted :: "ScriptJob list"
  ws_started :: "ScriptJob list"
  ws_finished :: "ScriptJob list"

text \<open>
  \<^verbatim>\<open>script_worker_create\<close>; \<^verbatim>\<open>fail_at\<close> is the number of threads after which \<^verbatim>\<open>pthread_create\<close> fails, if
  it does: the threads created so far are told to stop and joined.
\<close>

definition script_worker_create :: "u64 \<Rightarrow> nat \<Rightarrow> nat option \<Rightarrow> errno + worker_system" where
  "script_worker_create queue_capacity worker_count fail_at =
     (if queue_capacity = 0 \<or> worker_count = 0 then Inl EINVAL
      else
        let w = \<lparr>sw_nodes = Map.empty, sw_head = None, sw_tail = None, sw_queued = 0, sw_capacity = queue_capacity,
                 sw_workers = worker_count, sw_stopping = False\<rparr>;
            start = (\<lambda>w n phase. \<lparr>ws_worker = w, ws_threads = replicate n Locking, ws_phase = phase,
                       ws_accepted = [], ws_started = [], ws_finished = []\<rparr>)
        in case fail_at of
             Some i \<Rightarrow>
               if i < worker_count then Inr (start (w\<lparr>sw_workers := i, sw_stopping := True\<rparr>) i (Joining 0))
               else Inr (start w worker_count InUse)
           | None \<Rightarrow> Inr (start w worker_count InUse))"

text \<open>\<^verbatim>\<open>pthread_cond_signal\<close> wakes one of the waiting threads, if there is one.\<close>

definition signalled :: "worker_thread list \<Rightarrow> worker_thread list \<Rightarrow> bool" where
  "signalled ts ts' \<longleftrightarrow>
     (if Waiting \<in> set ts then (\<exists>i < length ts. ts ! i = Waiting \<and> ts' = ts[i := Locking]) else ts' = ts)"

definition broadcast :: "worker_thread list \<Rightarrow> worker_thread list" where
  "broadcast ts = map (\<lambda>t. if t = Waiting then Locking else t) ts"

text \<open>
  The steps: a submission, the critical section of a thread in its three outcomes, the end of
  \<^verbatim>\<open>run_job\<close> with the release of the job, a spurious wakeup, and the three parts of
  \<^verbatim>\<open>script_worker_destroy\<close>: the stop flag with its broadcast, the joins, and the release of what is
  left of the queue.
\<close>

inductive worker_step :: "worker_system \<Rightarrow> worker_system \<Rightarrow> bool" where
  submit_accepted:
    "ws_phase s \<noteq> Released \<Longrightarrow> sw_nodes (ws_worker s) a = None \<Longrightarrow>
     script_worker_submit a spec (ws_worker s) = (None, w) \<Longrightarrow> signalled (ws_threads s) ts \<Longrightarrow>
     worker_step s (s\<lparr>ws_worker := w, ws_threads := ts, ws_accepted := ws_accepted s @ [job_at w a]\<rparr>)"
| submit_rejected:
    "ws_phase s \<noteq> Released \<Longrightarrow> script_worker_submit a spec (ws_worker s) = (Some rc, w) \<Longrightarrow>
     worker_step s (s\<lparr>ws_worker := w\<rparr>)"
| thread_waits:
    "i < length (ws_threads s) \<Longrightarrow> ws_threads s ! i = Locking \<Longrightarrow> sw_head (ws_worker s) = None \<Longrightarrow>
     \<not> sw_stopping (ws_worker s) \<Longrightarrow>
     worker_step s (s\<lparr>ws_threads := (ws_threads s)[i := Waiting]\<rparr>)"
| thread_exits:
    "i < length (ws_threads s) \<Longrightarrow> ws_threads s ! i = Locking \<Longrightarrow> sw_head (ws_worker s) = None \<Longrightarrow>
     sw_stopping (ws_worker s) \<Longrightarrow>
     worker_step s (s\<lparr>ws_threads := (ws_threads s)[i := Exited]\<rparr>)"
| thread_takes:
    "i < length (ws_threads s) \<Longrightarrow> ws_threads s ! i = Locking \<Longrightarrow> take_job (ws_worker s) = Some (a, w) \<Longrightarrow>
     worker_step s (s\<lparr>ws_worker := w, ws_threads := (ws_threads s)[i := Running a],
                      ws_started := ws_started s @ [job_at w a]\<rparr>)"
| thread_finishes:
    "i < length (ws_threads s) \<Longrightarrow> ws_threads s ! i = Running a \<Longrightarrow> run_job A (job_at (ws_worker s) a) = Some r \<Longrightarrow>
     worker_step s (s\<lparr>ws_worker := job_free a (ws_worker s), ws_threads := (ws_threads s)[i := Locking],
                      ws_finished := ws_finished s @ [job_at (ws_worker s) a]\<rparr>)"
| thread_wakes:
    "i < length (ws_threads s) \<Longrightarrow> ws_threads s ! i = Waiting \<Longrightarrow>
     worker_step s (s\<lparr>ws_threads := (ws_threads s)[i := Locking]\<rparr>)"
| destroy_stops:
    "ws_phase s = InUse \<Longrightarrow>
     worker_step s (s\<lparr>ws_worker := (ws_worker s)\<lparr>sw_stopping := True\<rparr>, ws_threads := broadcast (ws_threads s),
                      ws_phase := Joining 0\<rparr>)"
| destroy_joins:
    "ws_phase s = Joining n \<Longrightarrow> n < sw_workers (ws_worker s) \<Longrightarrow> ws_threads s ! n = Exited \<Longrightarrow>
     worker_step s (s\<lparr>ws_phase := Joining (Suc n)\<rparr>)"
| destroy_releases:
    "ws_phase s = Joining n \<Longrightarrow> sw_workers (ws_worker s) \<le> n \<Longrightarrow>
     chain (sw_nodes (ws_worker s)) (sw_head (ws_worker s)) as \<Longrightarrow>
     worker_step s (s\<lparr>ws_worker := fold job_free as (ws_worker s), ws_phase := Released\<rparr>)"

fun runs :: "worker_thread list \<Rightarrow> nat multiset" where
  "runs [] = {#}"
| "runs (Running a # ts) = add_mset a (runs ts)"
| "runs (_ # ts) = runs ts"

text \<open>
  The invariant. Memory: the allocated jobs are those of the queue and those being run, no job is
  both or twice. History: the accepted jobs are the started ones followed by the queue; a
  started job has finished or is being run. Wakeups: as long as a thread waits, there are at
  least as many threads on their way to the queue as jobs in it, and no thread waits once the
  worker stops. Destruction: the threads joined so far have exited, and a thread exits only when
  the queue is empty and stays so.
\<close>

definition jobs_inv :: "worker_system \<Rightarrow> nat list \<Rightarrow> bool" where
  "jobs_inv s as \<longleftrightarrow>
     (let w = ws_worker s; ts = ws_threads s in
      queue_ok w as \<and> finite (dom (sw_nodes w)) \<and> mset_set (dom (sw_nodes w)) = mset as + runs ts \<and>
      ws_accepted s = ws_started s @ map (job_at w) as \<and>
      mset (ws_started s) = mset (ws_finished s) + image_mset (job_at w) (runs ts))"

definition threads_inv :: "worker_thread list \<Rightarrow> destroy_phase \<Rightarrow> ScriptWorker \<Rightarrow> nat \<Rightarrow> bool" where
  "threads_inv ts phase w n \<longleftrightarrow>
     length ts = sw_workers w \<and> (sw_stopping w \<longleftrightarrow> phase \<noteq> InUse) \<and>
     (Waiting \<in> set ts \<longrightarrow> n \<le> count_list ts Locking \<and> \<not> sw_stopping w) \<and>
     (Exited \<in> set ts \<or> ts = [] \<longrightarrow> n = 0 \<and> sw_stopping w) \<and>
     (\<forall>k. phase = Joining k \<longrightarrow> k \<le> length ts \<and> (\<forall>i < k. ts ! i = Exited)) \<and>
     (phase = Released \<longrightarrow> (\<forall>t \<in> set ts. t = Exited))"

definition system_inv :: "worker_system \<Rightarrow> nat list \<Rightarrow> bool" where
  "system_inv s as \<longleftrightarrow> jobs_inv s as \<and> threads_inv (ws_threads s) (ws_phase s) (ws_worker s) (length as)"

lemma runs_append [simp]: "runs (xs @ ys) = runs xs + runs ys"
  by (induction xs rule: runs.induct) auto

lemma runs_exited: "\<forall>t \<in> set ts. t = Exited \<Longrightarrow> runs ts = {#}"
  by (induction ts) auto

lemma runs_broadcast [simp]: "runs (broadcast ts) = runs ts"
  by (induction ts rule: runs.induct) (auto simp: broadcast_def)

lemma broadcast_simps [simp]:
  "length (broadcast ts) = length ts" "Waiting \<notin> set (broadcast ts)" "Exited \<in> set (broadcast ts) \<longleftrightarrow> Exited \<in> set ts"
  "broadcast ts = [] \<longleftrightarrow> ts = []"
  by (auto simp: broadcast_def)

text \<open>One thread changes: what it ran, and how many are on their way to the queue.\<close>

lemma thread_update:
  assumes "i < length ts"
  obtains xs ys where "ts = xs @ ts ! i # ys" and "\<And>t. ts[i := t] = xs @ t # ys"
  using id_take_nth_drop [OF assms] upd_conv_take_nth_drop [OF assms] by blast

lemma created_inv: "script_worker_create c n f = Inr s \<Longrightarrow> system_inv s []"
proof -
  have "runs (replicate k Locking) = {#}" for k by (induction k) auto
  then show "script_worker_create c n f = Inr s \<Longrightarrow> system_inv s []"
    by (auto simp: script_worker_create_def system_inv_def jobs_inv_def threads_inv_def queue_ok_def Let_def split: if_splits option.splits)
qed

lemma signalled_changes:
  assumes "signalled ts ts'"
  shows "length ts' = length ts" "runs ts' = runs ts" "Exited \<in> set ts' \<longleftrightarrow> Exited \<in> set ts" "ts' = [] \<longleftrightarrow> ts = []"
    "\<And>i. ts' ! i = Exited \<longleftrightarrow> ts ! i = Exited"
    "Waiting \<in> set ts' \<Longrightarrow> count_list ts' Locking = Suc (count_list ts Locking) \<and> Waiting \<in> set ts"
proof -
  consider "Waiting \<notin> set ts" "ts' = ts" | i where "i < length ts" "ts ! i = Waiting" "ts' = ts[i := Locking]" "Waiting \<in> set ts"
    using assms by (auto simp: signalled_def split: if_splits)
  then have "length ts' = length ts \<and> runs ts' = runs ts \<and> (Exited \<in> set ts' \<longleftrightarrow> Exited \<in> set ts) \<and> (ts' = [] \<longleftrightarrow> ts = []) \<and>
    (\<forall>i. ts' ! i = Exited \<longleftrightarrow> ts ! i = Exited) \<and>
    (Waiting \<in> set ts' \<longrightarrow> count_list ts' Locking = Suc (count_list ts Locking) \<and> Waiting \<in> set ts)"
  proof cases
    case (2 i)
    obtain xs ys where ts: "ts = xs @ Waiting # ys" "ts' = xs @ Locking # ys"
      using thread_update [OF 2(1)] 2(2,3) by metis
    have "ts' ! k = Exited \<longleftrightarrow> ts ! k = Exited" for k using 2(1,2,3) by (cases "k = i") auto
    then show ?thesis by (simp add: ts)
  qed simp
  then show "length ts' = length ts" "runs ts' = runs ts" "Exited \<in> set ts' \<longleftrightarrow> Exited \<in> set ts" "ts' = [] \<longleftrightarrow> ts = []"
    "\<And>i. ts' ! i = Exited \<longleftrightarrow> ts ! i = Exited"
    "Waiting \<in> set ts' \<Longrightarrow> count_list ts' Locking = Suc (count_list ts Locking) \<and> Waiting \<in> set ts" by blast+
qed

lemma jobs_inv_allocated: "jobs_inv s as \<Longrightarrow> set as \<union> set_mset (runs (ws_threads s)) = dom (sw_nodes (ws_worker s))"
  by (metis (no_types, lifting) jobs_inv_def finite_set_mset_mset_set set_mset_mset set_mset_union)

lemma submit_inv:
  assumes inv: "system_inv s as" and new: "sw_nodes (ws_worker s) a = None"
    and sub: "script_worker_submit a spec (ws_worker s) = (None, w)" and sig: "signalled (ws_threads s) ts"
  shows "system_inv (s\<lparr>ws_worker := w, ws_threads := ts, ws_accepted := ws_accepted s @ [job_at w a]\<rparr>) (as @ [a])"
proof -
  have j: "jobs_inv s as" and t: "threads_inv (ws_threads s) (ws_phase s) (ws_worker s) (length as)"
    using inv by (simp_all add: system_inv_def)
  then have q: "queue_ok (ws_worker s) as" by (simp add: jobs_inv_def Let_def)
  have w': "queue_ok w (as @ [a])" "dom (sw_nodes w) = insert a (dom (sw_nodes (ws_worker s)))"
    and same: "\<And>b. b \<noteq> a \<Longrightarrow> job_at w b = job_at (ws_worker s) b"
    and keep: "sw_stopping w = sw_stopping (ws_worker s)" "sw_workers w = sw_workers (ws_worker s)"
    using submit_refines [OF q new sub] by blast+
  have running: "\<not> sw_stopping (ws_worker s)"
    using sub by (auto simp: script_worker_submit_def split: sum.splits if_splits)
  note sig' = signalled_changes [OF sig]
  have "a \<notin> set as" "a \<notin># runs (ws_threads s)" using jobs_inv_allocated [OF j] new by auto
  then have "map (job_at w) as = map (job_at (ws_worker s)) as"
    "image_mset (job_at w) (runs (ws_threads s)) = image_mset (job_at (ws_worker s)) (runs (ws_threads s))"
    using same by (metis map_cong, metis image_mset_cong)
  then have "jobs_inv (s\<lparr>ws_worker := w, ws_threads := ts, ws_accepted := ws_accepted s @ [job_at w a]\<rparr>) (as @ [a])"
    using j w' new sig'(2) by (simp add: jobs_inv_def Let_def domIff del: map_eq_conv)
  moreover have "threads_inv ts (ws_phase s) w (length (as @ [a]))"
    using t running sig' keep by (auto simp: threads_inv_def)
  ultimately show ?thesis by (simp add: system_inv_def)
qed

lemma runs_Cons: "runs (t # ts) = runs [t] + runs ts"
  by (cases t) auto

lemma runs_update: "i < length ts \<Longrightarrow> runs (ts[i := t]) + runs [ts ! i] = runs ts + runs [t]"
proof (induction ts arbitrary: i)
  case (Cons u ts)
  then show ?case
    using runs_Cons [of u ts] runs_Cons [of t ts] runs_Cons [of u "ts[i - 1 := t]"] by (cases i) (auto simp: ac_simps)
qed simp

lemma count_update:
  "i < length ts \<Longrightarrow> count_list (ts[i := t]) x + (if ts ! i = x then 1 else 0) = count_list ts x + (if t = x then 1 else 0)"
proof (induction ts arbitrary: i)
  case (Cons u ts)
  show ?case
  proof (cases i)
    case (Suc k)
    then show ?thesis using Cons.IH [of k] Cons.prems by (auto split: if_splits)
  qed auto
qed simp

lemma thread_set:
  assumes "i < length ts"
  shows "x \<in> set (ts[i := t]) \<Longrightarrow> x = t \<or> x \<in> set ts" "ts ! i \<in> set ts" "ts \<noteq> []"
    "ts ! i \<noteq> Exited \<Longrightarrow> ts ! k = Exited \<Longrightarrow> ts[i := t] ! k = Exited"
proof -
  show "x \<in> set (ts[i := t]) \<Longrightarrow> x = t \<or> x \<in> set ts" using set_update_subset_insert by fastforce
  show "ts ! i \<in> set ts" "ts \<noteq> []" using assms by auto
  show "ts ! i \<noteq> Exited \<Longrightarrow> ts ! k = Exited \<Longrightarrow> ts[i := t] ! k = Exited" by (cases "k = i") auto
qed

lemma threads_update:
  assumes inv: "threads_inv ts phase w n" and i: "i < length ts" "ts ! i \<noteq> Exited"
    and w': "sw_workers w' = sw_workers w" "sw_stopping w' = sw_stopping w"
    and t: "t = Waiting \<Longrightarrow> n' = 0 \<and> \<not> sw_stopping w" "t = Exited \<Longrightarrow> n' = 0 \<and> sw_stopping w" "n = 0 \<Longrightarrow> n' = 0"
    and room: "n \<le> count_list ts Locking \<Longrightarrow> n' \<le> count_list (ts[i := t]) Locking"
  shows "threads_inv (ts[i := t]) phase w' n'"
proof -
  note th = thread_set [OF i(1)]
  have "phase = Released \<longrightarrow> False" using inv th(2) i(2) by (auto simp: threads_inv_def)
  moreover have "Waiting \<in> set (ts[i := t]) \<longrightarrow> n' \<le> count_list (ts[i := t]) Locking \<and> \<not> sw_stopping w"
    using inv th(1) [of Waiting t] t(1) room by (auto simp: threads_inv_def)
  moreover have "Exited \<in> set (ts[i := t]) \<longrightarrow> n' = 0 \<and> sw_stopping w"
    using inv th(1) [of Exited t] t(2,3) by (auto simp: threads_inv_def)
  ultimately show ?thesis using inv w' th(3) th(4) [OF i(2)] by (auto simp: threads_inv_def)
qed

lemma idle_inv:
  assumes inv: "system_inv s as" and i: "i < length (ws_threads s)" "ws_threads s ! i \<in> {Locking, Waiting}"
    and t: "t = Waiting \<and> as = [] \<and> \<not> sw_stopping (ws_worker s) \<or> t = Exited \<and> as = [] \<and> sw_stopping (ws_worker s) \<or> t = Locking"
  shows "system_inv (s\<lparr>ws_threads := (ws_threads s)[i := t]\<rparr>) as"
proof -
  have "runs ((ws_threads s)[i := t]) = runs (ws_threads s)" using runs_update [OF i(1), of t] i(2) t by auto
  moreover have "threads_inv ((ws_threads s)[i := t]) (ws_phase s) (ws_worker s) (length as)"
    by (rule threads_update [of "ws_threads s" _ "ws_worker s" "length as"])
      (use inv i t count_update [OF i(1), of t Locking] in \<open>auto simp: system_inv_def split: if_splits\<close>)
  ultimately show ?thesis using inv by (simp add: system_inv_def jobs_inv_def Let_def)
qed

lemma take_inv:
  assumes inv: "system_inv s as" and i: "i < length (ws_threads s)" "ws_threads s ! i = Locking"
    and take: "take_job (ws_worker s) = Some (a, w)"
  shows "system_inv (s\<lparr>ws_worker := w, ws_threads := (ws_threads s)[i := Running a], ws_started := ws_started s @ [job_at w a]\<rparr>) (tl as)"
proof -
  have "queue_ok (ws_worker s) as" using inv by (simp add: system_inv_def jobs_inv_def Let_def)
  from take_refines [OF this take] obtain bs where as: "as = a # bs" "queue_ok w bs" "sw_nodes w = sw_nodes (ws_worker s)"
    and keep: "sw_workers w = sw_workers (ws_worker s)" "sw_stopping w = sw_stopping (ws_worker s)" by blast
  then have same: "job_at w = job_at (ws_worker s)" by (simp add: job_at_def fun_eq_iff)
  have "runs ((ws_threads s)[i := Running a]) = add_mset a (runs (ws_threads s))"
    using runs_update [OF i(1), of "Running a"] i(2) by simp
  then have "jobs_inv (s\<lparr>ws_worker := w, ws_threads := (ws_threads s)[i := Running a], ws_started := ws_started s @ [job_at w a]\<rparr>) bs"
    using inv as same by (simp add: system_inv_def jobs_inv_def Let_def)
  moreover have "threads_inv ((ws_threads s)[i := Running a]) (ws_phase s) w (length bs)"
    by (rule threads_update [of "ws_threads s" _ "ws_worker s" "length as"])
      (use inv i keep as(1) count_update [OF i(1), of "Running a" Locking] in \<open>auto simp: system_inv_def\<close>)
  ultimately show ?thesis by (simp add: system_inv_def as(1))
qed

lemma finish_inv:
  assumes inv: "system_inv s as" and i: "i < length (ws_threads s)" "ws_threads s ! i = Running a"
  shows "system_inv (s\<lparr>ws_worker := job_free a (ws_worker s), ws_threads := (ws_threads s)[i := Locking],
    ws_finished := ws_finished s @ [job_at (ws_worker s) a]\<rparr>) as"
proof -
  let ?w = "ws_worker s" and ?ts = "(ws_threads s)[i := Locking]"
  have j: "queue_ok ?w as" "finite (dom (sw_nodes ?w))" "mset_set (dom (sw_nodes ?w)) = mset as + runs (ws_threads s)"
    "ws_accepted s = ws_started s @ map (job_at ?w) as"
    "mset (ws_started s) = mset (ws_finished s) + image_mset (job_at ?w) (runs (ws_threads s))"
    using inv by (simp_all add: system_inv_def jobs_inv_def Let_def)
  have r: "runs (ws_threads s) = add_mset a (runs ?ts)" using runs_update [OF i(1), of Locking] i(2) by simp
  then have d: "mset_set (dom (sw_nodes ?w)) = add_mset a (mset as + runs ?ts)" using j(3) by simp
  have dom: "dom (sw_nodes (job_free a ?w)) = dom (sw_nodes ?w) - {a}" by (simp add: job_free_def)
  have "a \<in># mset_set (dom (sw_nodes ?w))" unfolding d by simp
  then have in_dom: "{a} \<subseteq> dom (sw_nodes ?w)" using j(2) by simp
  have d': "mset_set (dom (sw_nodes (job_free a ?w))) = mset as + runs ?ts"
    unfolding dom mset_set_Diff [OF j(2) in_dom] d by simp
  have "a \<notin># mset_set (dom (sw_nodes (job_free a ?w)))" unfolding dom using j(2) by simp
  then have new: "a \<notin> set as" "a \<notin># runs ?ts" unfolding d' by simp_all
  have "job_at (job_free a ?w) b = job_at ?w b" if "b \<noteq> a" for b using that by (simp add: job_at_def job_free_def)
  then have "map (job_at (job_free a ?w)) as = map (job_at ?w) as"
    "image_mset (job_at (job_free a ?w)) (runs ?ts) = image_mset (job_at ?w) (runs ?ts)"
    using new by (metis map_cong, metis image_mset_cong)
  moreover have "finite (dom (sw_nodes (job_free a ?w)))" using j(2) unfolding dom by (rule finite_Diff)
  ultimately have "jobs_inv (s\<lparr>ws_worker := job_free a ?w, ws_threads := ?ts, ws_finished := ws_finished s @ [job_at ?w a]\<rparr>) as"
    using j d' r free_refines [OF j(1) new(1)] by (simp add: jobs_inv_def Let_def del: map_eq_conv)
  moreover have "threads_inv ?ts (ws_phase s) (job_free a ?w) (length as)"
    by (rule threads_update [of "ws_threads s" _ ?w "length as"])
      (use inv i count_update [OF i(1), of Locking Locking] in \<open>auto simp: system_inv_def job_free_def\<close>)
  ultimately show ?thesis by (simp add: system_inv_def)
qed

lemma stop_inv:
  assumes "system_inv s as" and "ws_phase s = InUse"
  shows "system_inv (s\<lparr>ws_worker := (ws_worker s)\<lparr>sw_stopping := True\<rparr>, ws_threads := broadcast (ws_threads s),
    ws_phase := Joining 0\<rparr>) as"
proof -
  have "job_at ((ws_worker s)\<lparr>sw_stopping := True\<rparr>) = job_at (ws_worker s)" by (simp add: job_at_def fun_eq_iff)
  then show ?thesis
    using assms by (auto simp: system_inv_def jobs_inv_def threads_inv_def queue_ok_def Let_def)
qed

lemma join_inv:
  assumes "system_inv s as" and "ws_phase s = Joining n" and "n < sw_workers (ws_worker s)" and "ws_threads s ! n = Exited"
  shows "system_inv (s\<lparr>ws_phase := Joining (Suc n)\<rparr>) as"
  using assms by (auto simp: system_inv_def jobs_inv_def threads_inv_def Let_def less_Suc_eq)

lemma release_inv:
  assumes inv: "system_inv s as" and p: "ws_phase s = Joining n" "sw_workers (ws_worker s) \<le> n"
    and ch: "chain (sw_nodes (ws_worker s)) (sw_head (ws_worker s)) bs"
  shows "as = [] \<and> bs = [] \<and> system_inv (s\<lparr>ws_worker := fold job_free bs (ws_worker s), ws_phase := Released\<rparr>) []"
proof -
  have all: "\<forall>t \<in> set (ws_threads s). t = Exited"
    using inv p unfolding system_inv_def threads_inv_def by (metis in_set_conv_nth order_less_le_trans)
  have "as = []"
    using inv all unfolding system_inv_def threads_inv_def
    by (metis length_0_conv list.set_intros(1) neq_Nil_conv)
  moreover have "bs = []" using inv ch \<open>as = []\<close> by (cases bs) (auto simp: system_inv_def jobs_inv_def queue_ok_def Let_def)
  ultimately show ?thesis using inv all p by (auto simp: system_inv_def jobs_inv_def threads_inv_def Let_def)
qed

lemma step_inv:
  assumes "worker_step s s'" and "system_inv s as"
  shows "\<exists>bs. system_inv s' bs"
proof -
  have empty: "as = []" if "sw_head (ws_worker s) = None"
    using assms(2) head_empty that by (auto simp: system_inv_def jobs_inv_def Let_def)
  from assms(1) show ?thesis
  proof cases
    case submit_accepted
    then show ?thesis using submit_inv assms(2) by blast
  next
    case (submit_rejected a spec rc w)
    then have "w = ws_worker s" by (auto simp: script_worker_submit_def Let_def split: sum.splits if_splits)
    then show ?thesis using submit_rejected assms(2) by auto
  next
    case (thread_waits i)
    then show ?thesis using empty idle_inv [OF assms(2), of i Waiting] thread_waits by auto
  next
    case (thread_exits i)
    then show ?thesis using empty idle_inv [OF assms(2), of i Exited] thread_exits by auto
  next
    case thread_takes
    then show ?thesis using take_inv assms(2) by blast
  next
    case thread_finishes
    then show ?thesis using finish_inv assms(2) by blast
  next
    case (thread_wakes i)
    then show ?thesis using idle_inv [OF assms(2), of i Locking] by auto
  next
    case destroy_stops
    then show ?thesis using stop_inv assms(2) by blast
  next
    case destroy_joins
    then show ?thesis using join_inv assms(2) by blast
  next
    case destroy_releases
    then show ?thesis using release_inv assms(2) by blast
  qed
qed

inductive worker_reachable :: "u64 \<Rightarrow> nat \<Rightarrow> worker_system \<Rightarrow> bool" for capacity workers where
  created: "script_worker_create capacity workers fail_at = Inr s \<Longrightarrow> worker_reachable capacity workers s"
| stepped: "worker_reachable capacity workers s \<Longrightarrow> worker_step s s' \<Longrightarrow> worker_reachable capacity workers s'"

lemma reachable_inv: "worker_reachable capacity workers s \<Longrightarrow> \<exists>as. system_inv s as"
proof (induction rule: worker_reachable.induct)
  case created
  then show ?case using created_inv by blast
next
  case stepped
  then show ?case using step_inv by blast
qed

lemma step_capacity: "worker_step s s' \<Longrightarrow> sw_capacity (ws_worker s') = sw_capacity (ws_worker s)"
proof (induction rule: worker_step.induct)
  case (destroy_releases s n as)
  have "sw_capacity (fold job_free as w) = sw_capacity w" for w by (induction as arbitrary: w) (simp_all add: job_free_def)
  then show ?case by simp
qed (auto simp: script_worker_submit_def take_job_def job_free_def Let_def split: sum.splits if_splits option.splits)

lemma reachable_capacity: "worker_reachable capacity workers s \<Longrightarrow> sw_capacity (ws_worker s) = capacity"
  by (induction rule: worker_reachable.induct)
    (auto simp: script_worker_create_def Let_def step_capacity split: if_splits option.splits)

subsection \<open>Destruction ends\<close>

text \<open>
  What is left to do once the worker stops: two steps for each queued job, one more for each
  running one, the exit of every thread, the joins and the release.
\<close>

definition thread_work :: "worker_thread \<Rightarrow> nat" where
  "thread_work t = (case t of Locking \<Rightarrow> 1 | Running _ \<Rightarrow> 2 | _ \<Rightarrow> 0)"

definition shutdown_work :: "worker_system \<Rightarrow> nat" where
  "shutdown_work s =
     2 * unat (sw_queued (ws_worker s)) + sum_list (map thread_work (ws_threads s)) +
     (case ws_phase s of InUse \<Rightarrow> 0 | Joining n \<Rightarrow> Suc (sw_workers (ws_worker s) - n) | Released \<Rightarrow> 0)"

lemma work_update:
  "i < length ts \<Longrightarrow> sum_list (map thread_work (ts[i := t])) + thread_work (ts ! i) = sum_list (map thread_work ts) + thread_work t"
  by (induction ts arbitrary: i) (auto simp: less_Suc_eq_0_disj ac_simps)

lemma destroy_makes_progress:
  assumes inv: "system_inv s as" and "ws_phase s \<noteq> InUse" and "worker_step s s'" and "s' \<noteq> s"
  shows "shutdown_work s' < shutdown_work s"
proof -
  have q: "queue_ok (ws_worker s) as" and stop: "sw_stopping (ws_worker s)" and none: "Waiting \<notin> set (ws_threads s)"
    using inv assms(2) by (auto simp: system_inv_def jobs_inv_def threads_inv_def Let_def)
  from assms(3) show ?thesis
  proof cases
    case submit_accepted
    then show ?thesis using stop by (auto simp: script_worker_submit_def split: sum.splits)
  next
    case submit_rejected
    then show ?thesis using assms(4) by (auto simp: script_worker_submit_def Let_def split: sum.splits if_splits)
  next
    case (thread_exits i)
    then show ?thesis using work_update [of i "ws_threads s" Exited] by (simp add: shutdown_work_def thread_work_def split: destroy_phase.split)
  next
    case (thread_takes i a w)
    from take_refines [OF q thread_takes(4)] obtain bs where bs: "as = a # bs" "queue_ok w bs" "sw_workers w = sw_workers (ws_worker s)"
      by blast
    then have "unat (sw_queued (ws_worker s)) = Suc (unat (sw_queued w))" using queue_unqueued [OF q] queue_unqueued [OF bs(2)] by simp
    then show ?thesis using thread_takes work_update [of i "ws_threads s" "Running a"] bs(3)
      by (simp add: shutdown_work_def thread_work_def split: destroy_phase.split)
  next
    case (thread_finishes i a)
    then show ?thesis using work_update [of i "ws_threads s" Locking] by (simp add: shutdown_work_def thread_work_def job_free_def split: destroy_phase.split)
  next
    case (thread_wakes i)
    then show ?thesis using none by (metis nth_mem)
  next
    case (destroy_releases n bs)
    then show ?thesis using release_inv [OF inv destroy_releases(2-4)] by (simp add: shutdown_work_def)
  qed (use stop assms(2) in \<open>auto simp: shutdown_work_def\<close>)
qed

lemma worker_can_step:
  assumes inv: "system_inv s as" and i: "i < length (ws_threads s)" "ws_threads s ! i = Locking \<or> (\<exists>a. ws_threads s ! i = Running a)"
  shows "\<exists>s'. worker_step s s' \<and> s' \<noteq> s"
proof -
  have q: "queue_ok (ws_worker s) as" using inv by (simp add: system_inv_def jobs_inv_def Let_def)
  have change: "\<exists>s'. worker_step s s' \<and> s' \<noteq> s"
    if "worker_step s s'" "ws_threads s' = (ws_threads s)[i := t]" "t \<noteq> ws_threads s ! i" for s' t
    using that i(1) by (metis nth_list_update_eq)
  consider "ws_threads s ! i = Locking" "sw_head (ws_worker s) = None" "sw_stopping (ws_worker s)"
    | "ws_threads s ! i = Locking" "sw_head (ws_worker s) = None" "\<not> sw_stopping (ws_worker s)"
    | a w where "ws_threads s ! i = Locking" "take_job (ws_worker s) = Some (a, w)"
    | a where "ws_threads s ! i = Running a"
    using i(2) take_job_empty [OF q] by (cases "take_job (ws_worker s)") auto
  then show ?thesis
  proof cases
    case 1
    show ?thesis by (rule change [OF thread_exits [OF i(1) 1]]) (use 1 in auto)
  next
    case 2
    show ?thesis by (rule change [OF thread_waits [OF i(1) 2]]) (use 2 in auto)
  next
    case (3 a w)
    show ?thesis by (rule change [OF thread_takes [OF i(1) 3]]) (use 3 in auto)
  next
    case (4 a)
    obtain r where run: "run_job undefined (job_at (ws_worker s) a) = Some r" using run_job_returns by blast
    show ?thesis by (rule change [OF thread_finishes [OF i(1) 4 run]]) (use 4 in auto)
  qed
qed

lemma threads_inv_live: "threads_inv ts phase w n \<Longrightarrow> n \<noteq> 0 \<Longrightarrow> ts \<noteq> [] \<and> Exited \<notin> set ts"
  by (auto simp: threads_inv_def)

lemma threads_inv_stopped: "threads_inv ts phase w n \<Longrightarrow> phase \<noteq> InUse \<Longrightarrow> Waiting \<notin> set ts"
  by (auto simp: threads_inv_def)

lemma threads_inv_released:
  assumes "threads_inv ts Released w n"
  shows "n = 0 \<and> runs ts = {#}"
proof -
  have "\<forall>t \<in> set ts. t = Exited" using assms by (simp add: threads_inv_def)
  then show ?thesis using assms runs_exited by (cases ts) (auto simp: threads_inv_def)
qed

text \<open>
  \<^verbatim>\<open>script_worker_destroy\<close> returns: until the worker is released some step is possible, and every
  step lowers the work that is left.
\<close>

lemma destroy_finishes:
  assumes "worker_reachable capacity workers s" and "ws_phase s \<noteq> InUse" and "ws_phase s \<noteq> Released"
  shows "(\<exists>s'. worker_step s s' \<and> s' \<noteq> s) \<and> (\<forall>s'. worker_step s s' \<longrightarrow> s' \<noteq> s \<longrightarrow> shutdown_work s' < shutdown_work s)"
proof -
  obtain as where inv: "system_inv s as" using reachable_inv [OF assms(1)] by blast
  obtain n where n: "ws_phase s = Joining n" using assms(2,3) by (cases "ws_phase s") auto
  have t: "threads_inv (ws_threads s) (ws_phase s) (ws_worker s) (length as)" and q: "queue_ok (ws_worker s) as"
    using inv by (simp_all add: system_inv_def jobs_inv_def Let_def)
  have "\<exists>s'. worker_step s s' \<and> s' \<noteq> s"
  proof (cases "n < sw_workers (ws_worker s)")
    case True
    then have i: "n < length (ws_threads s)" using t by (simp add: threads_inv_def)
    then have "ws_threads s ! n \<noteq> Waiting" using threads_inv_stopped [OF t assms(2)] by (metis nth_mem)
    then consider "ws_threads s ! n = Exited" | "ws_threads s ! n = Locking \<or> (\<exists>a. ws_threads s ! n = Running a)"
      by (cases "ws_threads s ! n") auto
    then show ?thesis
    proof cases
      case 1
      have "ws_phase (s\<lparr>ws_phase := Joining (Suc n)\<rparr>) \<noteq> ws_phase s" using n by simp
      then show ?thesis using destroy_joins [OF n True 1] by metis
    next
      case 2
      then show ?thesis by (rule worker_can_step [OF inv i])
    qed
  next
    case False
    let ?s = "s\<lparr>ws_worker := fold job_free as (ws_worker s), ws_phase := Released\<rparr>"
    have "worker_step s ?s" by (rule destroy_releases [OF n]) (use q False in \<open>auto simp: queue_ok_def\<close>)
    moreover have "ws_phase ?s \<noteq> ws_phase s" using n by simp
    ultimately show ?thesis by metis
  qed
  then show ?thesis using destroy_makes_progress [OF inv assms(2)] by blast
qed

subsection \<open>Every accepted job runs once\<close>

text \<open>
  C24. Whatever the interleaving of the worker threads, the submitter and the destruction of the
  worker, signals and spurious wakeups included: the linked list holds at most as many jobs as
  the capacity and its counter is its length; the accepted jobs are, in the order of submission,
  those taken off the queue so far followed by those still in it, and each taken job has been run
  to its end or is being run by exactly one thread; the memory of a job is held exactly as long as
  it is queued or run; no wakeup is lost, that is, while a job is queued some thread is on its way
  to the queue or will come back to it; and once \<^verbatim>\<open>script_worker_destroy\<close> has released the worker,
  every accepted job has been run to its end and no job is left allocated.
\<close>

theorem script_jobs_run_once:
  assumes "worker_reachable capacity workers s"
  shows "(\<exists>as. chain (sw_nodes (ws_worker s)) (sw_head (ws_worker s)) as \<and>
      unat (sw_queued (ws_worker s)) = length as \<and> length as \<le> unat capacity \<and>
      ws_accepted s = ws_started s @ map (job_at (ws_worker s)) as \<and>
      mset (ws_started s) = mset (ws_finished s) + image_mset (job_at (ws_worker s)) (runs (ws_threads s)) \<and>
      mset_set (dom (sw_nodes (ws_worker s))) = mset as + runs (ws_threads s) \<and>
      (as \<noteq> [] \<longrightarrow> (\<exists>t \<in> set (ws_threads s). t = Locking \<or> (\<exists>a. t = Running a)))) \<and>
    (ws_phase s = Released \<longrightarrow> mset (ws_finished s) = mset (ws_accepted s) \<and> dom (sw_nodes (ws_worker s)) = {})"
proof -
  obtain as where j: "jobs_inv s as" and t: "threads_inv (ws_threads s) (ws_phase s) (ws_worker s) (length as)"
    using reachable_inv [OF assms] by (auto simp: system_inv_def)
  have q: "queue_ok (ws_worker s) as" using j by (simp add: jobs_inv_def Let_def)
  have wake: "\<exists>t \<in> set (ws_threads s). t = Locking \<or> (\<exists>a. t = Running a)" if "as \<noteq> []"
  proof (cases "Waiting \<in> set (ws_threads s)")
    case True
    then have "0 < count_list (ws_threads s) Locking" using t that by (cases as) (auto simp: threads_inv_def)
    then have "Locking \<in> set (ws_threads s)" by (metis count_notin less_irrefl)
    then show ?thesis by blast
  next
    case False
    have "ws_threads s \<noteq> []" "Exited \<notin> set (ws_threads s)" using threads_inv_live [OF t] that by simp_all
    then obtain u where "u \<in> set (ws_threads s)" "u \<noteq> Exited" by (cases "ws_threads s") auto
    then show ?thesis using False by (metis worker_thread.exhaust)
  qed
  have "as = [] \<and> runs (ws_threads s) = {#}" if "ws_phase s = Released"
    using threads_inv_released t that by fastforce
  then have "mset (ws_finished s) = mset (ws_accepted s)" "dom (sw_nodes (ws_worker s)) = {}" if "ws_phase s = Released"
    using that j jobs_inv_allocated [OF j] by (simp_all add: jobs_inv_def Let_def)
  moreover have "chain (sw_nodes (ws_worker s)) (sw_head (ws_worker s)) as" "length as \<le> unat capacity"
    using q reachable_capacity [OF assms] by (simp_all add: queue_ok_def)
  ultimately show ?thesis
    using j wake queue_unqueued [OF q] unfolding jobs_inv_def Let_def by blast
qed

definition demo_spec :: ScriptJobSpec where
  "demo_spec = \<lparr>sj_argv = [''/bin/true''], sj_json_payload = ''{}'', sj_env = [(''REC_PID'', [49])], sj_timeout_sec = 0\<rparr>"

definition demo_job :: ScriptJob where
  "demo_job = \<lparr>job_argv = [''/bin/true''], job_json = ''{}'', job_env = [(''REC_PID'', [49])], job_timeout_sec = 30\<rparr>"

lemma demo_job_copied: "job_copy demo_spec = Inr demo_job"
  by (simp add: job_copy_def demo_spec_def demo_job_def copy_string_def SCRIPT_MAX_ARGC_def SCRIPT_MAX_ENV_def
      SCRIPT_MAX_ARG_LEN_def SCRIPT_MAX_JSON_def SCRIPT_MAX_ENV_LEN_def SCRIPT_DEFAULT_TIMEOUT_def)

text \<open>One worker thread, one job that is submitted, taken, run and released, and the destruction.\<close>

lemma demo_run: "\<exists>s. worker_reachable 1 1 s \<and> ws_phase s = Released \<and> ws_accepted s = [demo_job]"
proof -
  let ?w = "\<lambda>nodes p q stop. \<lparr>sw_nodes = nodes, sw_head = p, sw_tail = p, sw_queued = q, sw_capacity = 1, sw_workers = 1,
      sw_stopping = stop\<rparr>"
  let ?s = "\<lambda>w t phase acc st fin. \<lparr>ws_worker = w, ws_threads = [t], ws_phase = phase, ws_accepted = acc, ws_started = st, ws_finished = fin\<rparr>"
  let ?node = "[0 \<mapsto> (demo_job, None :: nat option)]"
  note job = job_at_def job_free_def
  have "worker_reachable 1 1 (?s (?w Map.empty None 0 False) Locking InUse [] [] [])"
    by (rule created [of _ _ None]) (simp add: script_worker_create_def Let_def)
  then have "worker_reachable 1 1 (?s (?w ?node (Some 0) 1 False) Locking InUse [demo_job] [] [])"
    by (rule stepped) (use submit_accepted [of "?s (?w Map.empty None 0 False) Locking InUse [] [] []" 0 demo_spec
      "?w ?node (Some 0) 1 False" "[Locking]"] in \<open>simp add: script_worker_submit_def demo_job_copied signalled_def job\<close>)
  then have "worker_reachable 1 1 (?s (?w ?node None 0 False) (Running 0) InUse [demo_job] [demo_job] [])"
    by (rule stepped) (use thread_takes [of 0 "?s (?w ?node (Some 0) 1 False) Locking InUse [demo_job] [] []" 0
      "?w ?node None 0 False"] in \<open>simp add: take_job_def job\<close>)
  moreover obtain r where "run_job undefined demo_job = Some r" using run_job_returns by blast
  then have "worker_step (?s (?w ?node None 0 False) (Running 0) InUse [demo_job] [demo_job] [])
      (?s (?w Map.empty None 0 False) Locking InUse [demo_job] [demo_job] [demo_job])"
    using thread_finishes [of 0 "?s (?w ?node None 0 False) (Running 0) InUse [demo_job] [demo_job] []" 0 undefined r]
    by (simp add: job)
  ultimately have "worker_reachable 1 1 (?s (?w Map.empty None 0 False) Locking InUse [demo_job] [demo_job] [demo_job])"
    by (rule stepped)
  then have "worker_reachable 1 1 (?s (?w Map.empty None 0 True) Locking (Joining 0) [demo_job] [demo_job] [demo_job])"
    by (rule stepped) (use destroy_stops [of "?s (?w Map.empty None 0 False) Locking InUse [demo_job] [demo_job] [demo_job]"]
      in \<open>simp add: broadcast_def\<close>)
  then have "worker_reachable 1 1 (?s (?w Map.empty None 0 True) Exited (Joining 0) [demo_job] [demo_job] [demo_job])"
    by (rule stepped) (use thread_exits [of 0 "?s (?w Map.empty None 0 True) Locking (Joining 0) [demo_job] [demo_job] [demo_job]"]
      in simp)
  then have "worker_reachable 1 1 (?s (?w Map.empty None 0 True) Exited (Joining 1) [demo_job] [demo_job] [demo_job])"
    by (rule stepped) (use destroy_joins [of "?s (?w Map.empty None 0 True) Exited (Joining 0) [demo_job] [demo_job] [demo_job]" 0]
      in simp)
  then have "worker_reachable 1 1 (?s (?w Map.empty None 0 True) Exited Released [demo_job] [demo_job] [demo_job])"
    by (rule stepped) (use destroy_releases [of "?s (?w Map.empty None 0 True) Exited (Joining 1) [demo_job] [demo_job] [demo_job]"
      1 "[]"] in simp)
  then show ?thesis by (intro exI conjI) auto
qed

theorem script_jobs_run_once_witness:
  "\<exists>s. worker_reachable 1 1 s \<and> ws_phase s = Released \<and> mset (ws_finished s) = {#demo_job#}"
proof -
  obtain s where s: "worker_reachable 1 1 s" "ws_phase s = Released" "ws_accepted s = [demo_job]" using demo_run by blast
  then have "mset (ws_finished s) = {#demo_job#}" using script_jobs_run_once [OF s(1)] by simp
  then show ?thesis using s by blast
qed

end
