(* ===== verification/Player_Options.thy ===== *)
theory Player_Options
  imports Reader
begin

text \<open>
  The command line of the player (\<^verbatim>\<open>src/player.c\<close>): its options, the group list, line counts,
  batch sizes, and the times of \<^verbatim>\<open>--since\<close> and \<^verbatim>\<open>--until\<close>. \<^verbatim>\<open>mktime\<close>, which depends on the time zone,
  and the compiled-in log directory are parameters. The player's own copies of the checks of group
  and segment names are those of the reader library.
\<close>

subsection \<open>Options\<close>

record PlayerOptions =
  po_path :: string
  po_dir_path :: "string option"
  po_file_path :: "string option"
  po_unit_filter :: "string option"
  po_groups :: "string list"
  po_boot_filter :: "string option"
  po_since_arg :: "string option"
  po_until_arg :: "string option"
  po_since_cursor :: "string option"
  po_until_cursor :: "string option"
  po_encryption_private_key :: "string option"
  po_boot_id_filter :: "string option"
  po_boot_seq_filter :: "u32 option"
  po_since_ts :: "u64 option"
  po_until_ts :: "u64 option"
  po_follow :: bool
  po_follow_start_ts :: u64
  po_list_boots :: bool
  po_disk_usage :: bool
  po_stats :: bool
  po_rebuild_index :: bool
  po_repair_indexes :: bool
  po_force_repair :: bool
  po_line_count :: "nat option"
  po_batch_size :: "nat option"
  po_lines_from_head :: bool
  po_sanitize_output :: bool
  po_json_output :: bool
  po_sort_wallclock :: bool

text \<open>The zeroed record with \<^verbatim>\<open>sanitize_output\<close> set. A pair of a value and its \<^verbatim>\<open>have\<close> flag is an option.\<close>

definition initial_options :: PlayerOptions where
  "initial_options =
     \<lparr>po_path = [], po_dir_path = None, po_file_path = None, po_unit_filter = None, po_groups = [],
      po_boot_filter = None, po_since_arg = None, po_until_arg = None, po_since_cursor = None,
      po_until_cursor = None, po_encryption_private_key = None, po_boot_id_filter = None,
      po_boot_seq_filter = None, po_since_ts = None, po_until_ts = None, po_follow = False,
      po_follow_start_ts = 0, po_list_boots = False, po_disk_usage = False, po_stats = False,
      po_rebuild_index = False, po_repair_indexes = False, po_force_repair = False,
      po_line_count = None, po_batch_size = None, po_lines_from_head = False,
      po_sanitize_output = True, po_json_output = False, po_sort_wallclock = False\<rparr>"

subsection \<open>Values\<close>

function add_groups :: "string \<Rightarrow> string list \<Rightarrow> string list option" where
  "add_groups start groups =
     (let grp = takeWhile (\<lambda>c. c \<noteq> CHR '','') start; rest = dropWhile (\<lambda>c. c \<noteq> CHR '','') start in
      if grp = [] \<or> length grp \<ge> 64 \<or> \<not> group_name_valid grp then None
      else if rest = [] then Some (groups @ [grp])
      else add_groups (tl rest) (groups @ [grp]))"
  by pat_completeness auto
termination
proof (relation "measure (length \<circ> fst)")
  fix start groups :: "string" and gs :: "string list" and grp rest
  assume "rest = dropWhile (\<lambda>c. c \<noteq> CHR '','') start" and "rest \<noteq> []"
  then have "length rest \<le> length start" "0 < length rest" by (simp_all add: length_dropWhile_le)
  then show "((tl rest, gs @ [grp]), start, gs) \<in> measure (length \<circ> fst)" by (cases rest) auto
qed simp

definition add_group_option :: "string \<Rightarrow> PlayerOptions \<Rightarrow> PlayerOptions option" where
  "add_group_option v opts =
     (if v = [] then None else map_option (\<lambda>gs. opts\<lparr>po_groups := gs\<rparr>) (add_groups v (po_groups opts)))"

definition parse_u32 :: "string \<Rightarrow> u32 option" where
  "parse_u32 txt =
     (if txt \<noteq> [] \<and> hd txt = CHR ''-'' then None
      else
        let r = strtoull txt in
        if st_range_error r \<or> st_end r \<noteq> [] \<or> st_value r > 0xffffffff then None
        else Some (ucast (st_value r)))"

text \<open>\<^verbatim>\<open>strtol\<close> on a 64-bit \<^verbatim>\<open>long\<close>: the value, whether it was out of range, and the rest.\<close>

definition strtol :: "string \<Rightarrow> int \<times> bool \<times> string" where
  "strtol txt =
     (let s = dropWhile is_space txt;
          neg = (s \<noteq> [] \<and> hd s = CHR ''-'');
          s' = (if s \<noteq> [] \<and> (hd s = CHR ''-'' \<or> hd s = CHR ''+'') then tl s else s);
          ds = takeWhile is_digit s';
          v = (if neg then - int (decimal_value ds) else int (decimal_value ds))
      in if ds = [] then (0, False, txt)
         else if v < - (2 ^ 63) then (- (2 ^ 63), True, dropWhile is_digit s')
         else if v > 2 ^ 63 - 1 then (2 ^ 63 - 1, True, dropWhile is_digit s')
         else (v, False, dropWhile is_digit s'))"

definition parse_i32 :: "string \<Rightarrow> int option" where
  "parse_i32 txt =
     (case strtol txt of
        (v, range_error, rest) \<Rightarrow>
          if range_error \<or> rest \<noteq> [] \<or> v < - (2 ^ 31) \<or> v > 2 ^ 31 - 1 then None else Some v)"

definition parse_batch_size :: "string \<Rightarrow> nat option" where
  "parse_batch_size txt =
     (if txt = [] \<or> hd txt = CHR ''-'' then None
      else
        let r = strtoull txt in
        if st_range_error r \<or> st_end r \<noteq> [] \<or> st_value r = 0 then None
        else Some (unat (st_value r)))"

definition parse_line_count :: "string \<Rightarrow> (nat \<times> bool) option" where
  "parse_line_count txt =
     (if txt = [] then None
      else
        let from_head = (hd txt = CHR ''+'');
            number = (if from_head \<or> hd txt = CHR ''-'' then tl txt else txt)
        in if number = [] then None
           else
             let r = strtoull number in
             if st_range_error r \<or> st_end r \<noteq> [] then None
             else Some (unat (st_value r), from_head))"

subsection \<open>Times\<close>

text \<open>
  The part of \<^verbatim>\<open>sscanf\<close> the player uses: \<^verbatim>\<open>%d\<close>, \<^verbatim>\<open>%c\<close>, white space and literal characters. The
  result lists the converted values; the conversion stops at the first item that does not match.
  A number out of range is cut to 32 bits.
\<close>

datatype scan_item = ScanInt | ScanChar | ScanSpace | ScanLit char

definition to_int32 :: "int \<Rightarrow> int" where
  "to_int32 v = (v + 2 ^ 31) mod 2 ^ 32 - 2 ^ 31"

fun sscanf :: "scan_item list \<Rightarrow> string \<Rightarrow> int list" where
  "sscanf [] s = []"
| "sscanf (ScanInt # fmt) s =
     (case strtol s of (v, _, rest) \<Rightarrow> if rest = s then [] else to_int32 v # sscanf fmt rest)"
| "sscanf (ScanChar # fmt) s = (case s of [] \<Rightarrow> [] | c # cs \<Rightarrow> of_char c # sscanf fmt cs)"
| "sscanf (ScanSpace # fmt) s = sscanf fmt (dropWhile is_space s)"
| "sscanf (ScanLit c # fmt) s = (case s of [] \<Rightarrow> [] | d # cs \<Rightarrow> if d = c then sscanf fmt cs else [])"

abbreviation (input) date_items :: "scan_item list" where
  "date_items \<equiv> [ScanInt, ScanLit CHR ''-'', ScanInt, ScanLit CHR ''-'', ScanInt]"

abbreviation (input) minute_items :: "scan_item list" where
  "minute_items \<equiv> [ScanInt, ScanLit CHR '':'', ScanInt]"

record tm =
  tm_year :: int
  tm_mon :: int
  tm_mday :: int
  tm_hour :: int
  tm_min :: int
  tm_sec :: int

text \<open>
  The variables \<^verbatim>\<open>year\<close>, \<^verbatim>\<open>mon\<close>, \<^verbatim>\<open>day\<close>, \<^verbatim>\<open>hour\<close>, \<^verbatim>\<open>min\<close>, \<^verbatim>\<open>sec\<close> are kept from one attempt to the
  next: a conversion overwrites the first ones. \<^verbatim>\<open>conv\<close> is the number of converted items and the
  variables after an attempt; the last item of every format is the variable \<^verbatim>\<open>extra\<close>.
\<close>

definition attempt :: "nat \<Rightarrow> scan_item list \<Rightarrow> string \<Rightarrow> int list \<Rightarrow> nat \<times> int list" where
  "attempt k fmt txt vars =
     (let vs = sscanf (fmt @ [ScanChar]) txt in (length vs, take k vs @ drop (min k (length vs)) vars))"

definition parse_datetime_fields :: "string \<Rightarrow> tm option" where
  "parse_datetime_fields txt =
     (let seconds = minute_items @ [ScanLit CHR '':'', ScanInt];
          a1 = attempt 6 (date_items @ [ScanSpace] @ seconds) txt [0, 0, 0, 0, 0, 0];
          a2 = (if fst a1 \<noteq> 6 then attempt 6 (date_items @ [ScanLit CHR ''T''] @ seconds) txt (snd a1) else a1);
          a3 = (if fst a2 \<noteq> 6
                then
                  let b = attempt 5 (date_items @ [ScanSpace] @ minute_items) txt (snd a2)
                  in if fst b \<noteq> 5 then attempt 5 (date_items @ [ScanLit CHR ''T''] @ minute_items) txt (snd b) else b
                else a2);
          a4 = (if fst a3 \<noteq> 5 \<and> fst a3 \<noteq> 6
                then
                  let b = attempt 3 date_items txt (snd a3)
                  in if fst b \<noteq> 3 then None else Some (snd b)
                else Some (snd a3))
      in case a4 of
           Some [year, mon, day, hour, minute, sec] \<Rightarrow>
             if year < 1970 \<or> mon < 1 \<or> mon > 12 \<or> day < 1 \<or> day > 31 \<or> hour < 0 \<or> hour > 23 \<or>
                minute < 0 \<or> minute > 59 \<or> sec < 0 \<or> sec > 60
             then None
             else Some \<lparr>tm_year = year - 1900, tm_mon = mon - 1, tm_mday = day, tm_hour = hour,
                        tm_min = minute, tm_sec = sec\<rparr>
         | _ \<Rightarrow> None)"

definition parse_time_arg :: "(tm \<Rightarrow> int) \<Rightarrow> string \<Rightarrow> u64 option" where
  "parse_time_arg mktime txt =
     (let r = strtoull txt in
      if \<not> st_range_error r \<and> st_end r = []
      then Some (if st_value r < 1000000000000 then st_value r * 1000000 else st_value r)
      else case parse_datetime_fields txt of
             None \<Rightarrow> None
           | Some t \<Rightarrow> let sec = mktime t in if sec < 0 then None else Some (of_int sec * 1000000))"

definition is_cursor_arg :: "string option \<Rightarrow> bool" where
  "is_cursor_arg txt \<longleftrightarrow> (case txt of None \<Rightarrow> False | Some s \<Rightarrow> take 5 s = ''rec1:'')"

subsection \<open>The argument loop\<close>

text \<open>
  One round of the loop over \<^verbatim>\<open>argv\<close>: the option's effect and how many further arguments it
  takes. \<^verbatim>\<open>separate\<close> is an option whose value is the next argument, \<^verbatim>\<open>attached\<close> one whose value is
  the rest of the same argument.
\<close>

definition starts_with :: "string \<Rightarrow> string \<Rightarrow> bool" where
  "starts_with p s \<longleftrightarrow> take (length p) s = p"

definition separate ::
    "string list \<Rightarrow> (string \<Rightarrow> PlayerOptions option) \<Rightarrow> (PlayerOptions \<times> nat) option" where
  "separate rest f = (case rest of [] \<Rightarrow> None | v # _ \<Rightarrow> map_option (\<lambda>opts. (opts, 1)) (f v))"

definition attached :: "nat \<Rightarrow> string \<Rightarrow> (string \<Rightarrow> PlayerOptions option) \<Rightarrow> (PlayerOptions \<times> nat) option" where
  "attached n arg f = map_option (\<lambda>opts. (opts, 0)) (f (drop n arg))"

definition flag :: "PlayerOptions \<Rightarrow> (PlayerOptions \<times> nat) option" where
  "flag opts = Some (opts, 0)"

definition set_line_count :: "PlayerOptions \<Rightarrow> string \<Rightarrow> PlayerOptions option" where
  "set_line_count opts v =
     map_option (\<lambda>(n, from_head). opts\<lparr>po_line_count := Some n, po_lines_from_head := from_head\<rparr>) (parse_line_count v)"

definition set_batch_size :: "PlayerOptions \<Rightarrow> string \<Rightarrow> PlayerOptions option" where
  "set_batch_size opts v = map_option (\<lambda>n. opts\<lparr>po_batch_size := Some n\<rparr>) (parse_batch_size v)"

definition set_sort :: "PlayerOptions \<Rightarrow> string \<Rightarrow> PlayerOptions option" where
  "set_sort opts v = (if v = ''wallclock'' then Some (opts\<lparr>po_sort_wallclock := True\<rparr>) else None)"

definition parse_value_arg :: "string \<Rightarrow> string list \<Rightarrow> PlayerOptions \<Rightarrow> (PlayerOptions \<times> nat) option" where
  "parse_value_arg arg rest opts =
     (if arg = ''-D'' then separate rest (\<lambda>v. Some (opts\<lparr>po_dir_path := Some v\<rparr>))
      else if starts_with ''-D'' arg then attached 2 arg (\<lambda>v. Some (opts\<lparr>po_dir_path := Some v\<rparr>))
      else if arg = ''-i'' then separate rest (\<lambda>v. Some (opts\<lparr>po_file_path := Some v\<rparr>))
      else if starts_with ''-i'' arg then attached 2 arg (\<lambda>v. Some (opts\<lparr>po_file_path := Some v\<rparr>))
      else if arg = ''-u'' then separate rest (\<lambda>v. Some (opts\<lparr>po_unit_filter := Some v\<rparr>))
      else if starts_with ''-u'' arg then attached 2 arg (\<lambda>v. Some (opts\<lparr>po_unit_filter := Some v\<rparr>))
      else if arg = ''--group'' then separate rest (\<lambda>v. add_group_option v opts)
      else if starts_with ''--group='' arg then attached 8 arg (\<lambda>v. add_group_option v opts)
      else if arg = ''-b'' then separate rest (\<lambda>v. Some (opts\<lparr>po_boot_filter := Some v\<rparr>))
      else if starts_with ''-b'' arg then attached 2 arg (\<lambda>v. Some (opts\<lparr>po_boot_filter := Some v\<rparr>))
      else if arg = ''--sort'' then separate rest (set_sort opts)
      else if starts_with ''--sort='' arg then attached 7 arg (set_sort opts)
      else if arg = ''--since'' then separate rest (\<lambda>v. Some (opts\<lparr>po_since_arg := Some v\<rparr>))
      else if starts_with ''--since='' arg then attached 8 arg (\<lambda>v. Some (opts\<lparr>po_since_arg := Some v\<rparr>))
      else if arg = ''--until'' then separate rest (\<lambda>v. Some (opts\<lparr>po_until_arg := Some v\<rparr>))
      else if starts_with ''--until='' arg then attached 8 arg (\<lambda>v. Some (opts\<lparr>po_until_arg := Some v\<rparr>))
      else if arg = ''--encryption-private-key''
      then separate rest (\<lambda>v. Some (opts\<lparr>po_encryption_private_key := Some v\<rparr>))
      else if starts_with ''--encryption-private-key='' arg
      then attached 25 arg (\<lambda>v. Some (opts\<lparr>po_encryption_private_key := Some v\<rparr>))
      else None)"

definition parse_arg :: "string \<Rightarrow> string list \<Rightarrow> PlayerOptions \<Rightarrow> (PlayerOptions \<times> nat) option" where
  "parse_arg arg rest opts =
     (if arg = ''-f'' then flag (opts\<lparr>po_follow := True\<rparr>)
      else if arg = ''-n'' then separate rest (set_line_count opts)
      else if starts_with ''-n'' arg then attached 2 arg (set_line_count opts)
      else if arg = ''--batch-size'' \<or> arg = ''-B'' then separate rest (set_batch_size opts)
      else if starts_with ''--batch-size='' arg then attached 13 arg (set_batch_size opts)
      else if starts_with ''-B'' arg then attached 2 arg (set_batch_size opts)
      else if arg = ''--list-boots'' then flag (opts\<lparr>po_list_boots := True\<rparr>)
      else if arg = ''--disk-usage'' then flag (opts\<lparr>po_disk_usage := True\<rparr>)
      else if arg = ''--stats'' then flag (opts\<lparr>po_stats := True\<rparr>)
      else if arg = ''--rebuild-index'' then flag (opts\<lparr>po_rebuild_index := True\<rparr>)
      else if arg = ''--repair-index'' \<or> arg = ''--repair-indexes'' then flag (opts\<lparr>po_repair_indexes := True\<rparr>)
      else if arg = ''--force-repair'' then flag (opts\<lparr>po_force_repair := True\<rparr>)
      else if arg = ''--sanitize-output'' then flag (opts\<lparr>po_sanitize_output := True\<rparr>)
      else if arg = ''--no-sanitize-output'' then flag (opts\<lparr>po_sanitize_output := False\<rparr>)
      else if arg = ''--json'' then flag (opts\<lparr>po_json_output := True\<rparr>)
      else parse_value_arg arg rest opts)"

function parse_args :: "string list \<Rightarrow> PlayerOptions \<Rightarrow> PlayerOptions option" where
  "parse_args [] opts = Some opts"
| "parse_args (arg # rest) opts =
     (case parse_arg arg rest opts of
        None \<Rightarrow> None
      | Some (opts', n) \<Rightarrow> parse_args (drop n rest) opts')"
  by pat_completeness auto
termination by (relation "measure (length \<circ> fst)") auto

subsection \<open>Combinations\<close>

definition contradictory :: "PlayerOptions \<Rightarrow> bool" where
  "contradictory opts \<longleftrightarrow>
     of_bool (po_disk_usage opts) + of_bool (po_stats opts) + of_bool (po_list_boots opts) +
       of_bool (po_rebuild_index opts) > (1 :: nat) \<or>
     po_repair_indexes opts \<and> po_rebuild_index opts \<or>
     po_force_repair opts \<and> \<not> po_repair_indexes opts \<and> \<not> po_rebuild_index opts \<or>
     po_force_repair opts \<and> po_follow opts \<or>
     po_stats opts \<and> po_follow opts \<or>
     po_follow opts \<and> po_line_count opts \<noteq> None \<and> po_lines_from_head opts \<or>
     po_groups opts \<noteq> [] \<and> (po_disk_usage opts \<or> po_list_boots opts \<or> po_stats opts) \<or>
     po_rebuild_index opts \<and>
       (po_file_path opts = None \<or> po_follow opts \<or> po_unit_filter opts \<noteq> None \<or> po_groups opts \<noteq> [] \<or>
        po_boot_filter opts \<noteq> None \<or> po_since_arg opts \<noteq> None \<or> po_until_arg opts \<noteq> None) \<or>
     po_follow opts \<and> (is_cursor_arg (po_since_arg opts) \<or> is_cursor_arg (po_until_arg opts))"

definition bad_batch :: "PlayerOptions \<Rightarrow> bool" where
  "bad_batch opts \<longleftrightarrow>
     po_batch_size opts \<noteq> None \<and>
     (po_line_count opts \<noteq> None \<and> \<not> po_lines_from_head opts \<or> po_disk_usage opts \<or> po_stats opts \<or>
      po_list_boots opts \<or> po_rebuild_index opts \<or> po_repair_indexes opts \<or> po_force_repair opts)"

definition set_since :: "(tm \<Rightarrow> int) \<Rightarrow> PlayerOptions \<Rightarrow> PlayerOptions option" where
  "set_since mktime opts =
     (case po_since_arg opts of
        None \<Rightarrow> Some opts
      | Some txt \<Rightarrow>
          if is_cursor_arg (Some txt) then Some (opts\<lparr>po_since_cursor := Some txt\<rparr>)
          else map_option (\<lambda>ts. opts\<lparr>po_since_ts := Some ts\<rparr>) (parse_time_arg mktime txt))"

definition set_until :: "(tm \<Rightarrow> int) \<Rightarrow> PlayerOptions \<Rightarrow> PlayerOptions option" where
  "set_until mktime opts =
     (case po_until_arg opts of
        None \<Rightarrow> Some opts
      | Some txt \<Rightarrow>
          if is_cursor_arg (Some txt) then Some (opts\<lparr>po_until_cursor := Some txt\<rparr>)
          else map_option (\<lambda>ts. opts\<lparr>po_until_ts := Some ts\<rparr>) (parse_time_arg mktime txt))"

definition times_ordered :: "PlayerOptions \<Rightarrow> bool" where
  "times_ordered opts \<longleftrightarrow>
     (\<forall>s \<in> set_option (po_since_ts opts). \<forall>u \<in> set_option (po_until_ts opts). \<not> s > u)"

definition parse_options :: "string \<Rightarrow> (tm \<Rightarrow> int) \<Rightarrow> string list \<Rightarrow> PlayerOptions option" where
  "parse_options log_dir mktime argv =
     (case parse_args argv initial_options of
        None \<Rightarrow> None
      | Some opts \<Rightarrow>
          if po_dir_path opts \<noteq> None \<and> po_file_path opts \<noteq> None \<or> contradictory opts \<or> bad_batch opts then None
          else
            let path = (case po_file_path opts of
                          Some p \<Rightarrow> p
                        | None \<Rightarrow> (case po_dir_path opts of Some p \<Rightarrow> p | None \<Rightarrow> log_dir))
            in (case set_since mktime (opts\<lparr>po_path := path\<rparr>) of
                  None \<Rightarrow> None
                | Some opts1 \<Rightarrow>
                    (case set_until mktime opts1 of
                       None \<Rightarrow> None
                     | Some opts2 \<Rightarrow> if times_ordered opts2 then Some opts2 else None)))"

subsection \<open>What an accepted command line guarantees\<close>

definition same_bounds :: "PlayerOptions \<Rightarrow> PlayerOptions \<Rightarrow> bool" where
  "same_bounds opts opts' \<longleftrightarrow>
     po_since_cursor opts' = po_since_cursor opts \<and> po_until_cursor opts' = po_until_cursor opts \<and>
     po_since_ts opts' = po_since_ts opts \<and> po_until_ts opts' = po_until_ts opts"

definition keeps_bounds :: "PlayerOptions \<Rightarrow> (PlayerOptions \<times> nat) option \<Rightarrow> bool" where
  "keeps_bounds opts res \<longleftrightarrow> (\<forall>opts' n. res = Some (opts', n) \<longrightarrow> same_bounds opts opts')"

lemma keeps_bounds_intros:
  "keeps_bounds opts None"
  "keeps_bounds opts x \<Longrightarrow> keeps_bounds opts y \<Longrightarrow> keeps_bounds opts (if b then x else y)"
  "same_bounds opts opts' \<Longrightarrow> keeps_bounds opts (flag opts')"
  "(\<And>v opts'. f v = Some opts' \<Longrightarrow> same_bounds opts opts') \<Longrightarrow> keeps_bounds opts (separate rest f)"
  "(\<And>v opts'. f v = Some opts' \<Longrightarrow> same_bounds opts opts') \<Longrightarrow> keeps_bounds opts (attached n arg f)"
  by (auto simp: keeps_bounds_def flag_def separate_def attached_def split: list.splits)

lemma setter_bounds:
  "set_line_count opts v = Some opts' \<Longrightarrow> same_bounds opts opts'"
  "set_batch_size opts v = Some opts' \<Longrightarrow> same_bounds opts opts'"
  "set_sort opts v = Some opts' \<Longrightarrow> same_bounds opts opts'"
  "add_group_option v opts = Some opts' \<Longrightarrow> same_bounds opts opts'"
  by (auto simp: set_line_count_def set_batch_size_def set_sort_def add_group_option_def same_bounds_def split: if_splits)

lemma parse_arg_keeps: "keeps_bounds opts (parse_arg arg rest opts)"
  unfolding parse_arg_def parse_value_arg_def
  by (intro keeps_bounds_intros; (erule setter_bounds | simp add: same_bounds_def | drule sym, simp add: same_bounds_def))

lemma parse_args_keeps: "parse_args argv opts = Some opts' \<Longrightarrow> same_bounds opts opts'"
proof (induction argv opts rule: parse_args.induct)
  case (2 arg rest opts)
  then obtain opts1 n where "parse_arg arg rest opts = Some (opts1, n)" "same_bounds opts1 opts'"
    by (auto split: option.splits)
  then show ?case using parse_arg_keeps [of opts arg rest] by (auto simp: keeps_bounds_def same_bounds_def)
qed (simp add: same_bounds_def)

text \<open>
  An accepted command line names a directory or a file but not both, its times are in order, a
  bound is a time or a cursor but not both, and following starts from no cursor.
\<close>

lemma parse_options_accepted:
  assumes "parse_options log_dir mktime argv = Some opts"
  shows "(po_dir_path opts = None \<or> po_file_path opts = None) \<and> times_ordered opts \<and>
    (po_since_ts opts = None \<or> po_since_cursor opts = None) \<and> (po_until_ts opts = None \<or> po_until_cursor opts = None) \<and>
    (po_follow opts \<longrightarrow> po_since_cursor opts = None \<and> po_until_cursor opts = None)"
proof -
  obtain opts0 where p: "parse_args argv initial_options = Some opts0" and c: "\<not> contradictory opts0"
    and d: "po_dir_path opts0 = None \<or> po_file_path opts0 = None"
    using assms by (auto simp: parse_options_def Let_def split: option.splits if_splits)
  have "po_since_cursor opts0 = None" "po_until_cursor opts0 = None" "po_since_ts opts0 = None" "po_until_ts opts0 = None"
    using parse_args_keeps [OF p] by (simp_all add: initial_options_def same_bounds_def)
  moreover have "po_follow opts0 \<Longrightarrow> \<not> is_cursor_arg (po_since_arg opts0) \<and> \<not> is_cursor_arg (po_until_arg opts0)"
    using c by (simp add: contradictory_def)
  ultimately show ?thesis
    using assms p d by (auto simp: parse_options_def set_since_def set_until_def Let_def split: option.splits if_splits)
qed

text \<open>With the separator \<^verbatim>\<open>T\<close> a time may carry trailing garbage; with a space it is refused.\<close>

lemma datetime_garbage:
  "parse_datetime_fields ''2024-01-02T10:11:12x'' =
     Some \<lparr>tm_year = 124, tm_mon = 0, tm_mday = 2, tm_hour = 10, tm_min = 11, tm_sec = 12\<rparr>"
  "parse_datetime_fields ''2024-01-02 10:11:12x'' = None"
  by code_simp+

end
