(* ===== verification/Player_Stats.thy ===== *)
theory Player_Stats
  imports Reader_Source Player_Options
begin

text \<open>
  The summaries of a store: \<^verbatim>\<open>rec_player_get_group_stats\<close> of \<^verbatim>\<open>src/librecorder.c\<close>, and of
  \<^verbatim>\<open>src/player.c\<close> the statistics, the disk usage, the list of boots with the boot filter, and the
  rebuilding of an index. The time zone (\<^verbatim>\<open>localtime_r\<close> with \<^verbatim>\<open>strftime\<close>), the block counts of
  files are parameters.
\<close>

subsection \<open>Statistics of the groups\<close>

record RecorderGroupStats =
  gs_name :: string
  gs_entry_count :: u64
  gs_first_realtime_usec :: u64
  gs_last_realtime_usec :: u64
  gs_disk_bytes :: u64

definition no_stats :: "string \<Rightarrow> RecorderGroupStats" where
  "no_stats name =
     \<lparr>gs_name = name, gs_entry_count = 0, gs_first_realtime_usec = 0, gs_last_realtime_usec = 0, gs_disk_bytes = 0\<rparr>"

definition group_stats_add_entries ::
    "RecorderGroupStats \<Rightarrow> u64 \<Rightarrow> u64 \<Rightarrow> u64 \<Rightarrow> RecorderGroupStats option" where
  "group_stats_add_entries stats cnt first lst =
     (if cnt = 0 then Some stats
      else if UINT64_MAX - gs_entry_count stats < cnt then None
      else
        let s1 = (if gs_entry_count stats = 0 \<or> first < gs_first_realtime_usec stats
                  then stats\<lparr>gs_first_realtime_usec := first\<rparr> else stats);
            s2 = (if gs_entry_count s1 = 0 \<or> lst > gs_last_realtime_usec s1
                  then s1\<lparr>gs_last_realtime_usec := lst\<rparr> else s1)
        in Some (s2\<lparr>gs_entry_count := gs_entry_count s2 + cnt\<rparr>))"

definition as_callback :: "'s option \<Rightarrow> 's \<Rightarrow> int \<times> 's" where
  "as_callback res s = (case res of None \<Rightarrow> (- 1, s) | Some s' \<Rightarrow> (0, s'))"

definition group_stats_index_frame :: "IndexFrame \<Rightarrow> RecorderGroupStats \<Rightarrow> int \<times> RecorderGroupStats" where
  "group_stats_index_frame frame s =
     as_callback (group_stats_add_entries s (ucast (ix_entry_count frame)) (ix_min_realtime_ts frame) (ix_max_realtime_ts frame)) s"

definition group_stats_entry :: "RecorderGroupStats rec_player_entry_cb" where
  "group_stats_entry e s = as_callback (group_stats_add_entries s 1 (re_realtime_ts e) (re_realtime_ts e)) s"

definition group_stats_add_file_bytes :: "RecorderGroupStats \<Rightarrow> int \<Rightarrow> RecorderGroupStats option" where
  "group_stats_add_file_bytes stats st_blocks =
     (if st_blocks < 0 \<or> (of_int st_blocks :: u64) > UINT64_MAX div 512 then None
      else
        let bytes = (of_int st_blocks :: u64) * 512 in
        if gs_disk_bytes stats > UINT64_MAX - bytes then None
        else Some (stats\<lparr>gs_disk_bytes := gs_disk_bytes stats + bytes\<rparr>))"

definition compare_group_stats :: "RecorderGroupStats \<Rightarrow> RecorderGroupStats \<Rightarrow> int" where
  "compare_group_stats left right = strcmp (gs_name left) (gs_name right)"

text \<open>The statistics of one segment: its blocks and those of its index, and its entries from the index or from a scan.\<close>

definition segment_file_bytes ::
    "(string \<Rightarrow> int) \<Rightarrow> world \<Rightarrow> string \<Rightarrow> string \<Rightarrow> RecorderGroupStats option" where
  "segment_file_bytes blocks w path index_path =
     (case group_stats_add_file_bytes (no_stats []) (blocks path) of
        None \<Rightarrow> None
      | Some s \<Rightarrow> if stat index_path w \<noteq> None then group_stats_add_file_bytes s (blocks index_path) else Some s)"

definition segment_stats ::
    "reader_env \<Rightarrow> (string \<Rightarrow> int) \<Rightarrow> RecorderPlayer \<Rightarrow> world \<Rightarrow> string \<Rightarrow> RecorderGroupStats option" where
  "segment_stats E blocks unfiltered w path =
     (case segment_index_path path 512 of
        None \<Rightarrow> None
      | Some index_path \<Rightarrow>
          (case segment_file_bytes blocks w path index_path of
             None \<Rightarrow> None
           | Some s \<Rightarrow>
               (case index_scan_frames (read_file index_path w) (read_file path w) group_stats_index_frame s of
                  (True, s') \<Rightarrow> Some s'
                | (False, s') \<Rightarrow>
                    (case rec_player_scan_file E unfiltered w path group_stats_entry
                            (s'\<lparr>gs_entry_count := 0, gs_first_realtime_usec := 0, gs_last_realtime_usec := 0\<rparr>) 0 of
                       (Inl _, _) \<Rightarrow> None
                     | (Inr _, s'') \<Rightarrow> Some s''))))"

definition merge_stats :: "RecorderGroupStats \<Rightarrow> RecorderGroupStats \<Rightarrow> RecorderGroupStats option" where
  "merge_stats grp s =
     (if gs_disk_bytes grp > UINT64_MAX - gs_disk_bytes s then None
      else group_stats_add_entries (grp\<lparr>gs_disk_bytes := gs_disk_bytes grp + gs_disk_bytes s\<rparr>)
             (gs_entry_count s) (gs_first_realtime_usec s) (gs_last_realtime_usec s))"

fun add_to_stats ::
    "string \<Rightarrow> RecorderGroupStats \<Rightarrow> RecorderGroupStats list \<Rightarrow> RecorderGroupStats list option" where
  "add_to_stats name s [] = map_option (\<lambda>g. [g]) (merge_stats (no_stats name) s)"
| "add_to_stats name s (g # gs) =
     (if gs_name g = name then map_option (\<lambda>g'. g' # gs) (merge_stats g s)
      else map_option ((#) g) (add_to_stats name s gs))"

fun collect_group_stats ::
    "reader_env \<Rightarrow> (string \<Rightarrow> int) \<Rightarrow> RecorderPlayer \<Rightarrow> world \<Rightarrow> SegmentPath list \<Rightarrow> RecorderGroupStats list \<Rightarrow>
     RecorderGroupStats list option" where
  "collect_group_stats E blocks r w [] groups = Some groups"
| "collect_group_stats E blocks r w (p # ps) groups =
     (if stat (sp_path p) w = None then collect_group_stats E blocks r w ps groups
      else case group_from_path (sp_path p) (reader_root r) of
        None \<Rightarrow> None
      | Some name \<Rightarrow>
          (case segment_stats E blocks r w (sp_path p) of
             None \<Rightarrow> None
           | Some s \<Rightarrow>
               (case add_to_stats name s groups of
                  None \<Rightarrow> None
                | Some groups' \<Rightarrow> collect_group_stats E blocks r w ps groups')))"

definition rec_player_get_group_stats ::
    "reader_env \<Rightarrow> (string \<Rightarrow> int) \<Rightarrow> RecorderPlayer \<Rightarrow> world \<Rightarrow> RecorderGroupStats list option" where
  "rec_player_get_group_stats E blocks r w =
     (let unfiltered = r\<lparr>rp_group_filter := [], rp_unit_filter := None\<rparr> in
      case (if rp_path_is_directory r then collect_segment_paths unfiltered w
            else add_segment_path [] (rp_path r) 0) of
        None \<Rightarrow> None
      | Some paths \<Rightarrow> map_option (qsort compare_group_stats) (collect_group_stats E blocks unfiltered w paths []))"

subsection \<open>Disk usage\<close>

text \<open>
  \<^verbatim>\<open>disk_usage_path\<close> walks the tree below a path. A path that does not fit its buffer of 512 bytes
  stops the walk, so the recursion ends.
\<close>

function disk_usage_path :: "(string \<Rightarrow> u64) \<Rightarrow> world \<Rightarrow> string \<Rightarrow> u64 option" where
  "disk_usage_path blocks w path =
     (if is_dir path w
      then foldr (\<lambda>name total.
             if length (path @ ''/'' @ name) \<ge> 512 then None
             else case (disk_usage_path blocks w (path @ ''/'' @ name), total) of
                    (Some bytes, Some acc) \<Rightarrow> Some (acc + bytes)
                  | _ \<Rightarrow> None)
           (rev (readdir path w)) (Some 0)
      else if stat path w \<noteq> None then Some (blocks path * 512)
      else None)"
  by pat_completeness auto
termination by (relation "measure (\<lambda>(blocks, w, path). 512 - length path)") auto

definition disk_usage_groups :: "(string \<Rightarrow> u64) \<Rightarrow> world \<Rightarrow> string \<Rightarrow> (string \<times> u64) list option" where
  "disk_usage_groups blocks w root_path =
     foldr (\<lambda>name groups.
         let path = root_path @ ''/'' @ name in
         if \<not> group_name_valid name \<or> length path \<ge> 512 \<or> \<not> is_dir path w then groups
         else case (disk_usage_path blocks w path, groups) of
                (Some bytes, Some gs) \<Rightarrow> Some (gs @ [(name, bytes)])
              | _ \<Rightarrow> None)
       (rev (readdir root_path w)) (Some [])"

definition pad_right :: "nat \<Rightarrow> string \<Rightarrow> string" where
  "pad_right n s = s @ replicate (n - length s) CHR '' ''"

definition pad_left :: "nat \<Rightarrow> string \<Rightarrow> string" where
  "pad_left n s = replicate (n - length s) CHR '' '' @ s"

text \<open>Printed lines carry no newline character.\<close>

definition print_disk_usage :: "(string \<Rightarrow> u64) \<Rightarrow> world \<Rightarrow> string \<Rightarrow> bool \<times> string list" where
  "print_disk_usage blocks w root_path =
     (case disk_usage_path blocks w root_path of
        None \<Rightarrow> (False, [])
      | Some total_bytes \<Rightarrow>
          (if \<not> is_dir root_path w then (False, [])
           else case disk_usage_groups blocks w root_path of
             None \<Rightarrow> (False, [])
           | Some unsorted \<Rightarrow>
               let groups = qsort (\<lambda>a b. strcmp (fst a) (fst b)) unsorted;
                   label_width = foldl (\<lambda>n (name, _). max n (length name)) (length ''Total'') groups;
                   value_width = foldl (\<lambda>n (_, bytes). max n (length (decimal (unat bytes)))) (length (decimal (unat total_bytes))) groups;
                   line = (\<lambda>name bytes. pad_right label_width name @ '': '' @ pad_left value_width (decimal (unat bytes)) @ '' bytes'')
               in (True, map (\<lambda>(name, bytes). line name bytes) groups @ (if groups \<noteq> [] then [''''] else []) @
                     [line ''Total'' total_bytes])))"

subsection \<open>Statistics of the player\<close>

record player_env =
  pv_reader :: reader_env
  pv_strftime :: "string \<Rightarrow> u64 \<Rightarrow> string option"
  pv_json :: jansson
  pv_blocks :: "string \<Rightarrow> u64"

definition pv_decryptor :: "player_env \<Rightarrow> string \<Rightarrow> pkey option" where
  "pv_decryptor P path =
     (case segment_decryptor_create (rv_lib (pv_reader P)) path of Inl _ \<Rightarrow> None | Inr key \<Rightarrow> Some key)"

text \<open>\<^verbatim>\<open>localtime_r\<close> and \<^verbatim>\<open>strftime\<close> on the seconds; where there is no local time the number is printed.\<close>

definition format_realtime :: "player_env \<Rightarrow> u64 \<Rightarrow> string" where
  "format_realtime P ts =
     (case pv_strftime P ''%b %d %H:%M:%S'' (ts div 1000000) of Some s \<Rightarrow> s | None \<Rightarrow> decimal (unat ts))"

definition format_realtime_full :: "player_env \<Rightarrow> u64 \<Rightarrow> string" where
  "format_realtime_full P ts =
     (case pv_strftime P ''%Y-%m-%d %H:%M:%S'' (ts div 1000000) of Some s \<Rightarrow> s | None \<Rightarrow> decimal (unat ts))"

record StatsGroup =
  sg_name :: string
  sg_count :: u64
  sg_first_realtime_ts :: u64
  sg_last_realtime_ts :: u64

record StatsContext =
  sc_groups :: "StatsGroup list"
  sc_total_count :: u64

definition empty_stats :: StatsContext where
  "empty_stats = \<lparr>sc_groups = [], sc_total_count = 0\<rparr>"

definition extend_group :: "u64 \<Rightarrow> u64 \<Rightarrow> u64 \<Rightarrow> StatsGroup \<Rightarrow> StatsGroup" where
  "extend_group cnt first lst g =
     g\<lparr>sg_first_realtime_ts := (if sg_count g = 0 \<or> first < sg_first_realtime_ts g then first else sg_first_realtime_ts g),
       sg_last_realtime_ts := (if sg_count g = 0 \<or> lst > sg_last_realtime_ts g then lst else sg_last_realtime_ts g),
       sg_count := sg_count g + cnt\<rparr>"

text \<open>\<^verbatim>\<open>stats_get_group\<close> with the update of the group it returns: the first of that name, or a new one.\<close>

fun stats_get_group :: "string \<Rightarrow> (StatsGroup \<Rightarrow> StatsGroup) \<Rightarrow> StatsGroup list \<Rightarrow> StatsGroup list option" where
  "stats_get_group name f [] =
     (if length name \<ge> 64 then None
      else Some [f \<lparr>sg_name = name, sg_count = 0, sg_first_realtime_ts = 0, sg_last_realtime_ts = 0\<rparr>])"
| "stats_get_group name f (g # gs) =
     (if sg_name g = name then Some (f g # gs) else map_option ((#) g) (stats_get_group name f gs))"

definition stats_add :: "StatsContext \<Rightarrow> string \<Rightarrow> u64 \<Rightarrow> u64 \<Rightarrow> u64 \<Rightarrow> StatsContext option" where
  "stats_add stats name cnt first lst =
     (if cnt = 0 then Some stats
      else map_option (\<lambda>gs. \<lparr>sc_groups = gs, sc_total_count = sc_total_count stats + cnt\<rparr>)
             (stats_get_group name (extend_group cnt first lst) (sc_groups stats)))"

definition collect_stats_frame :: "string \<Rightarrow> IndexFrame \<Rightarrow> StatsContext \<Rightarrow> int \<times> StatsContext" where
  "collect_stats_frame name frame stats =
     as_callback (stats_add stats name (ucast (ix_entry_count frame)) (ix_min_realtime_ts frame) (ix_max_realtime_ts frame)) stats"

fun stats_merge :: "StatsGroup list \<Rightarrow> StatsContext \<Rightarrow> StatsContext option" where
  "stats_merge [] stats = Some stats"
| "stats_merge (g # gs) stats =
     (case stats_add stats (sg_name g) (sg_count g) (sg_first_realtime_ts g) (sg_last_realtime_ts g) of
        None \<Rightarrow> None
      | Some stats' \<Rightarrow> stats_merge gs stats')"

definition stats_scan_index :: "string \<Rightarrow> string \<Rightarrow> string \<Rightarrow> world \<Rightarrow> StatsContext \<Rightarrow> StatsContext option" where
  "stats_scan_index path segment_path name w stats =
     (case index_scan_frames (read_file path w) (read_file segment_path w) (collect_stats_frame name) empty_stats of
        (False, _) \<Rightarrow> None
      | (True, scanned) \<Rightarrow> stats_merge (sc_groups scanned) stats)"

definition collect_stats_entry :: "string \<Rightarrow> StatsContext rec_player_entry_cb" where
  "collect_stats_entry name e stats = as_callback (stats_add stats name 1 (re_realtime_ts e) (re_realtime_ts e)) stats"

definition stats_scan_segment ::
    "reader_env \<Rightarrow> RecorderPlayer \<Rightarrow> world \<Rightarrow> string \<Rightarrow> string \<Rightarrow> StatsContext \<Rightarrow> StatsContext option" where
  "stats_scan_segment E r w path name stats =
     (case rec_player_scan_file E r w path (collect_stats_entry name) stats 0 of
        (Inl _, _) \<Rightarrow> None
      | (Inr _, stats') \<Rightarrow> Some stats')"

definition segment_is_latest :: "world \<Rightarrow> string \<Rightarrow> bool option" where
  "segment_is_latest w segment_path =
     (let name = (if CHR ''/'' \<in> set segment_path
                  then rev (takeWhile (\<lambda>c. c \<noteq> CHR ''/'') (rev segment_path)) else segment_path);
          before = (case dir_of_path segment_path of None \<Rightarrow> [] | Some d \<Rightarrow> d);
          directory = (if before = [] then ''.'' else before)
      in case segment_seq_of_name name of
           None \<Rightarrow> None
         | Some sq \<Rightarrow>
             if length before \<ge> PATH_MAX \<or> \<not> is_dir directory w then None
             else
               let found = List.map_filter segment_seq_of_name (readdir directory w)
               in if found = [] then None else Some (sq = foldl max (hd found) (tl found)))"

definition repair_index_file ::
    "player_env \<Rightarrow> string \<Rightarrow> string \<Rightarrow> string option \<Rightarrow> bool \<Rightarrow> world \<Rightarrow> bool \<times> world" where
  "repair_index_file P segment_path index_path private_key require_finalized w =
     (case (case private_key of None \<Rightarrow> Some None | Some p \<Rightarrow> map_option Some (pv_decryptor P p)) of
        None \<Rightarrow> (False, w)
      | Some decryptor \<Rightarrow>
          (case stat segment_path w of
             None \<Rightarrow> (False, w)
           | Some st \<Rightarrow>
               (case segment_scan_path (rv_lib (pv_reader P)) (read_file segment_path w) decryptor
                       (None :: unit segment_frame_cb option) () of
                  (Inl _, _) \<Rightarrow> (False, w)
                | (Inr (_, footer, committed_end), _) \<Rightarrow>
                    if require_finalized \<and> (\<not> ft_present footer \<or> committed_end \<noteq> length (f_data st)) then (False, w)
                    else rebuild_index_with (pv_reader P) segment_path index_path decryptor w)))"

definition stats_scan_segment_with_fallback ::
    "player_env \<Rightarrow> RecorderPlayer \<Rightarrow> PlayerOptions \<Rightarrow> string \<Rightarrow> string \<Rightarrow> StatsContext \<times> world \<Rightarrow>
     bool \<times> StatsContext \<times> world" where
  "stats_scan_segment_with_fallback P r opts segment_path name s =
     (case segment_index_path segment_path 512 of
        None \<Rightarrow> (False, s)
      | Some index_path \<Rightarrow>
          (case stats_scan_index index_path segment_path name (snd s) (fst s) of
             Some stats \<Rightarrow> (True, stats, snd s)
           | None \<Rightarrow>
               let repaired =
                 (if po_repair_indexes opts \<and> segment_is_latest (snd s) segment_path \<noteq> None \<and>
                     (po_force_repair opts \<or> segment_is_latest (snd s) segment_path = Some False)
                  then repair_index_file P segment_path index_path (po_encryption_private_key opts) True (snd s)
                  else (False, snd s))
               in case (if fst repaired then stats_scan_index index_path segment_path name (snd repaired) (fst s) else None) of
                    Some stats \<Rightarrow> (True, stats, snd repaired)
                  | None \<Rightarrow>
                      (case stats_scan_segment (pv_reader P) r (snd repaired) segment_path name (fst s) of
                         None \<Rightarrow> (False, fst s, snd repaired)
                       | Some stats \<Rightarrow> (True, stats, snd repaired))))"

fun stats_scan_names ::
    "player_env \<Rightarrow> RecorderPlayer \<Rightarrow> PlayerOptions \<Rightarrow> string \<Rightarrow> string \<Rightarrow> string list \<Rightarrow> StatsContext \<times> world \<Rightarrow>
     bool \<times> StatsContext \<times> world" where
  "stats_scan_names P r opts path grp [] s = (True, s)"
| "stats_scan_names P r opts path grp (name # names) s =
     (let child = path @ ''/'' @ name in
      if length name < 5 \<or> \<not> ends_with name ''.seg'' \<or> length child \<ge> 512 \<or> stat child (snd s) = None
      then stats_scan_names P r opts path grp names s
      else case stats_scan_segment_with_fallback P r opts child grp s of
        (False, s') \<Rightarrow> (False, s')
      | (True, s') \<Rightarrow> stats_scan_names P r opts path grp names s')"

definition stats_scan_directory ::
    "player_env \<Rightarrow> RecorderPlayer \<Rightarrow> PlayerOptions \<Rightarrow> string \<Rightarrow> string \<Rightarrow> StatsContext \<times> world \<Rightarrow>
     bool \<times> StatsContext \<times> world" where
  "stats_scan_directory P r opts path grp s =
     (if is_dir path (snd s) then stats_scan_names P r opts path grp (readdir path (snd s)) s else (False, s))"

fun stats_scan_groups ::
    "player_env \<Rightarrow> RecorderPlayer \<Rightarrow> PlayerOptions \<Rightarrow> string \<Rightarrow> string list \<Rightarrow> StatsContext \<times> world \<Rightarrow>
     bool \<times> StatsContext \<times> world" where
  "stats_scan_groups P r opts path [] s = (True, s)"
| "stats_scan_groups P r opts path (name # names) s =
     (let child = path @ ''/'' @ name in
      if length child < 512 \<and> is_dir child (snd s) \<and> group_name_valid name
      then (case stats_scan_directory P r opts child name s of
              (False, s') \<Rightarrow> (False, s')
            | (True, s') \<Rightarrow> stats_scan_groups P r opts path names s')
      else stats_scan_groups P r opts path names s)"

definition scan_stats_path ::
    "player_env \<Rightarrow> RecorderPlayer \<Rightarrow> PlayerOptions \<Rightarrow> string \<Rightarrow> bool \<Rightarrow> StatsContext \<times> world \<Rightarrow>
     bool \<times> StatsContext \<times> world" where
  "scan_stats_path P r opts path is_directory s =
     (if \<not> is_directory
      then (case group_from_path path None of
              None \<Rightarrow> (False, s)
            | Some grp \<Rightarrow> stats_scan_segment_with_fallback P r opts path grp s)
      else if is_dir path (snd s) then stats_scan_groups P r opts path (readdir path (snd s)) s
      else (False, s))"

definition stats_lines :: "player_env \<Rightarrow> StatsContext \<Rightarrow> string list" where
  "stats_lines P stats =
     (let groups = qsort (\<lambda>a b. strcmp (sg_name a) (sg_name b)) (sc_groups stats);
          label_width = foldl (\<lambda>n g. max n (length (sg_name g))) (length ''Group'') groups;
          count_width = foldl (\<lambda>n g. max n (length (decimal (unat (sg_count g))))) (length ''Lines'') groups;
          row = (\<lambda>label cnt. pad_right label_width label @ '' '' @ pad_left count_width cnt);
          times = (\<lambda>first lst. ''  '' @ pad_right 19 first @ ''  '' @ pad_right 19 lst)
      in (row ''Group'' ''Lines'' @ times ''First entry'' ''Latest timestamp'') #
         map (\<lambda>g. row (sg_name g) (decimal (unat (sg_count g))) @
                  times (format_realtime_full P (sg_first_realtime_ts g)) (format_realtime_full P (sg_last_realtime_ts g))) groups @
         ['''', row ''Total'' (decimal (unat (sc_total_count stats)))])"

text \<open>Opening the reader for a summary: the private key and the repair flag are set, no filter.\<close>

definition open_for_stats :: "player_env \<Rightarrow> PlayerOptions \<Rightarrow> world \<Rightarrow> RecorderPlayer option" where
  "open_for_stats P opts w =
     (case rec_player_open (pv_reader P) (po_path opts) w of
        None \<Rightarrow> None
      | Some r \<Rightarrow>
          (case (case po_encryption_private_key opts of
                   None \<Rightarrow> (True, r)
                 | Some key \<Rightarrow> rec_player_set_private_key (pv_decryptor P) (Some key) r) of
             (False, _) \<Rightarrow> None
           | (True, r') \<Rightarrow> Some (if po_repair_indexes opts then rec_player_set_repair_indexes True r' else r')))"

definition print_stats :: "player_env \<Rightarrow> PlayerOptions \<Rightarrow> world \<Rightarrow> bool \<times> string list \<times> world" where
  "print_stats P opts w =
     (case open_for_stats P opts w of
        None \<Rightarrow> (False, [], w)
      | Some r \<Rightarrow>
          (case scan_stats_path P r opts (po_path opts) (po_dir_path opts \<noteq> None \<or> po_file_path opts = None) (empty_stats, w) of
             (False, _, w') \<Rightarrow> (False, [], w')
           | (True, stats, w') \<Rightarrow> (True, stats_lines P stats, w')))"

subsection \<open>Rebuilding an index\<close>

definition player_rebuild_index :: "player_env \<Rightarrow> PlayerOptions \<Rightarrow> world \<Rightarrow> bool \<times> string list \<times> world" where
  "player_rebuild_index P opts w =
     (if po_file_path opts = None then (False, [], w)
      else case segment_index_path (po_path opts) 512 of
        None \<Rightarrow> (False, [], w)
      | Some index_path \<Rightarrow>
          if \<not> po_force_repair opts \<and> segment_is_latest w (po_path opts) \<noteq> Some False then (False, [], w)
          else
            (case repair_index_file P (po_path opts) index_path (po_encryption_private_key opts)
                    (\<not> po_force_repair opts) w of
               (False, w') \<Rightarrow> (False, [], w')
             | (True, w') \<Rightarrow> (True, [''rebuilt '' @ index_path], w')))"

subsection \<open>Boots\<close>

record BootInfo =
  bi_boot_seq :: u32
  bi_boot_id :: string
  bi_first_realtime_ts :: u64
  bi_last_realtime_ts :: u64
  bi_first_segment_seq :: u64

text \<open>The exchange sorts of the segments and of the boots.\<close>

fun exchange_inner :: "('a \<Rightarrow> 'a \<Rightarrow> bool) \<Rightarrow> 'a \<Rightarrow> 'a list \<Rightarrow> 'a \<times> 'a list" where
  "exchange_inner before x [] = (x, [])"
| "exchange_inner before x (y # ys) =
     (if before y x then (case exchange_inner before y ys of (m, r) \<Rightarrow> (m, x # r))
      else (case exchange_inner before x ys of (m, r) \<Rightarrow> (m, y # r)))"

lemma exchange_inner_length: "length (snd (exchange_inner before x ys)) = length ys"
  by (induction ys arbitrary: x) (simp_all add: case_prod_beta)

function exchange_sort :: "('a \<Rightarrow> 'a \<Rightarrow> bool) \<Rightarrow> 'a list \<Rightarrow> 'a list" where
  "exchange_sort before [] = []"
| "exchange_sort before (x # xs) = (case exchange_inner before x xs of (m, r) \<Rightarrow> m # exchange_sort before r)"
  by pat_completeness auto
termination
proof (relation "measure (length \<circ> snd)")
  fix before :: "'a \<Rightarrow> 'a \<Rightarrow> bool" and x xs m r
  assume "(m, r) = exchange_inner before x xs"
  with exchange_inner_length [of before x xs] have "length r = length xs" by (metis snd_conv)
  then show "((before, r), before, x # xs) \<in> measure (length \<circ> snd)" by simp
qed simp

definition sort_segment_files :: "SegmentPath list \<Rightarrow> SegmentPath list" where
  "sort_segment_files items = exchange_sort (\<lambda>a b. sp_segment_seq a < sp_segment_seq b) items"

definition sort_boots :: "BootInfo list \<Rightarrow> BootInfo list" where
  "sort_boots boots = exchange_sort (\<lambda>a b. bi_boot_seq a < bi_boot_seq b) boots"

text \<open>\<^verbatim>\<open>find_boot\<close> with the update \<^verbatim>\<open>add_boot\<close> makes: a boot is known by its number or by its id.\<close>

definition find_boot :: "u32 \<Rightarrow> string \<Rightarrow> BootInfo \<Rightarrow> bool" where
  "find_boot boot_seq boot_id b \<longleftrightarrow> bi_boot_seq b = boot_seq \<or> take 32 (bi_boot_id b) = take 32 boot_id"

definition boot_last_ts :: "SegmentHeader \<Rightarrow> SegmentFooter \<Rightarrow> u64" where
  "boot_last_ts header footer =
     (if ft_last_realtime_ts footer \<noteq> 0 then ft_last_realtime_ts footer else sh_first_realtime_ts header)"

definition extend_boot :: "SegmentHeader \<Rightarrow> SegmentFooter \<Rightarrow> BootInfo \<Rightarrow> BootInfo" where
  "extend_boot header footer b =
     b\<lparr>bi_first_realtime_ts :=
         (if sh_first_realtime_ts header \<noteq> 0 \<and>
             (bi_first_realtime_ts b = 0 \<or> sh_first_realtime_ts header < bi_first_realtime_ts b)
          then sh_first_realtime_ts header else bi_first_realtime_ts b),
       bi_last_realtime_ts := max (bi_last_realtime_ts b) (boot_last_ts header footer),
       bi_first_segment_seq := min (bi_first_segment_seq b) (sh_segment_seq header)\<rparr>"

fun add_boot :: "SegmentHeader \<Rightarrow> SegmentFooter \<Rightarrow> BootInfo list \<Rightarrow> BootInfo list" where
  "add_boot header footer [] =
     [\<lparr>bi_boot_seq = sh_boot_seq header, bi_boot_id = bytes_str (cstr (take 32 (sh_boot_id header))),
       bi_first_realtime_ts = sh_first_realtime_ts header, bi_last_realtime_ts = boot_last_ts header footer,
       bi_first_segment_seq = sh_segment_seq header\<rparr>]"
| "add_boot header footer (b # bs) =
     (if find_boot (sh_boot_seq header) (bytes_str (cstr (sh_boot_id header))) b then extend_boot header footer b # bs
      else b # add_boot header footer bs)"

definition add_segment_file :: "SegmentPath list \<Rightarrow> string \<Rightarrow> u64 \<Rightarrow> SegmentPath list option" where
  "add_segment_file items path sq =
     (if length path \<ge> PATH_MAX then None else Some (items @ [\<lparr>sp_path = path, sp_segment_seq = sq\<rparr>]))"

fun collect_dir_names :: "string \<Rightarrow> string list \<Rightarrow> SegmentPath list \<Rightarrow> SegmentPath list option" where
  "collect_dir_names dir_path [] items = Some items"
| "collect_dir_names dir_path (name # names) items =
     (case segment_seq_of_name name of
        None \<Rightarrow> collect_dir_names dir_path names items
      | Some sq \<Rightarrow>
          (case join_path_component PATH_MAX dir_path name of
             None \<Rightarrow> None
           | Some path \<Rightarrow>
               (case add_segment_file items path sq of
                  None \<Rightarrow> None
                | Some items' \<Rightarrow> collect_dir_names dir_path names items')))"

definition collect_segments_in_dir :: "string \<Rightarrow> world \<Rightarrow> SegmentPath list \<Rightarrow> SegmentPath list option" where
  "collect_segments_in_dir dir_path w items =
     (if is_dir dir_path w then collect_dir_names dir_path (readdir dir_path w) items else None)"

fun collect_root_names :: "string \<Rightarrow> world \<Rightarrow> string list \<Rightarrow> SegmentPath list \<Rightarrow> SegmentPath list option" where
  "collect_root_names root_path w [] items = Some items"
| "collect_root_names root_path w (name # names) items =
     (case join_path_component PATH_MAX root_path name of
        None \<Rightarrow> None
      | Some path \<Rightarrow>
          (case (if is_dir path w
                 then (if group_name_valid name then collect_segments_in_dir path w items else Some items)
                 else if stat path w = None then Some items
                 else case segment_seq_of_name name of
                   None \<Rightarrow> Some items
                 | Some sq \<Rightarrow> add_segment_file items path sq) of
             None \<Rightarrow> None
           | Some items' \<Rightarrow> collect_root_names root_path w names items'))"

definition collect_log_segments :: "string \<Rightarrow> world \<Rightarrow> SegmentPath list option" where
  "collect_log_segments root_path w =
     (if is_dir root_path w then collect_root_names root_path w (readdir root_path w) [] else None)"

fun add_segment_boots :: "player_env \<Rightarrow> world \<Rightarrow> SegmentPath list \<Rightarrow> BootInfo list \<Rightarrow> BootInfo list option" where
  "add_segment_boots P w [] boots = Some boots"
| "add_segment_boots P w (p # ps) boots =
     (case segment_scan_path (rv_lib (pv_reader P)) (read_file (sp_path p) w) None (None :: unit segment_frame_cb option) () of
        (Inl _, _) \<Rightarrow> None
      | (Inr (header, footer, _), _) \<Rightarrow> add_segment_boots P w ps (add_boot header footer boots))"

definition collect_boots_from_segments :: "player_env \<Rightarrow> world \<Rightarrow> SegmentPath list \<Rightarrow> BootInfo list option" where
  "collect_boots_from_segments P w items = map_option sort_boots (add_segment_boots P w items [])"

definition collect_boots_for_path :: "player_env \<Rightarrow> world \<Rightarrow> string \<Rightarrow> BootInfo list option" where
  "collect_boots_for_path P w path =
     (if is_dir path w
      then (case collect_log_segments path w of
              None \<Rightarrow> None
            | Some items \<Rightarrow> collect_boots_from_segments P w (sort_segment_files items))
      else if stat path w = None then None
      else case add_segment_file [] path (case segment_seq_of_name path of None \<Rightarrow> 0 | Some sq \<Rightarrow> sq) of
             None \<Rightarrow> None
           | Some items \<Rightarrow> collect_boots_from_segments P w items)"

definition int_text :: "int \<Rightarrow> string" where
  "int_text i = (if i < 0 then CHR ''-'' # decimal (nat (- i)) else decimal (nat i))"

definition print_boots :: "player_env \<Rightarrow> PlayerOptions \<Rightarrow> world \<Rightarrow> bool \<times> string list" where
  "print_boots P opts w =
     (case collect_boots_for_path P w (po_path opts) of
        None \<Rightarrow> (False, [])
      | Some boots \<Rightarrow>
          (True, (pad_left 4 ''idx'' @ '' '' @ pad_right 32 ''boot-id'' @ '' '' @ pad_right 19 ''first entry'' @ '' - '' @ ''last entry'') #
             map (\<lambda>(i, b). pad_left 4 (int_text (int i - int (length boots) + 1)) @ '' '' @ pad_right 32 (bi_boot_id b) @ '' '' @
                     format_realtime_full P (bi_first_realtime_ts b) @ '' - '' @ format_realtime_full P (bi_last_realtime_ts b))
               (enumerate 0 boots)))"

definition resolve_boot_filter :: "player_env \<Rightarrow> world \<Rightarrow> PlayerOptions \<Rightarrow> PlayerOptions option" where
  "resolve_boot_filter P w opts0 =
     (let opts = opts0\<lparr>po_boot_id_filter := po_boot_filter opts0, po_boot_seq_filter := None\<rparr> in
      case po_boot_filter opts of
        None \<Rightarrow> Some opts
      | Some txt \<Rightarrow>
          (case parse_i32 txt of
             Some offset \<Rightarrow>
               if offset \<le> 0
               then (case collect_boots_for_path P w (po_path opts) of
                       None \<Rightarrow> None
                     | Some boots \<Rightarrow>
                         if boots = [] \<or> offset < 0 \<and> nat (- offset) \<ge> length boots then None
                         else Some (opts\<lparr>po_boot_seq_filter := Some (bi_boot_seq (boots ! nat (int (length boots) - 1 + offset))),
                                         po_boot_id_filter := None\<rparr>))
               else Some (case parse_u32 txt of
                            None \<Rightarrow> opts
                          | Some sq \<Rightarrow> opts\<lparr>po_boot_seq_filter := Some sq, po_boot_id_filter := None\<rparr>)
           | None \<Rightarrow>
               Some (case parse_u32 txt of
                       None \<Rightarrow> opts
                     | Some sq \<Rightarrow> opts\<lparr>po_boot_seq_filter := Some sq, po_boot_id_filter := None\<rparr>)))"

subsection \<open>The sorts and the boot list\<close>

lemma exchange_inner_mset: "exchange_inner before x ys = (m, r) \<Longrightarrow> add_mset m (mset r) = add_mset x (mset ys)"
proof (induction ys arbitrary: x m r)
  case (Cons y ys)
  then show ?case by (auto split: if_splits prod.splits)
qed simp

lemma exchange_sort_mset: "mset (exchange_sort before xs) = mset xs"
  by (induction before xs rule: exchange_sort.induct) (auto split: prod.splits dest: exchange_inner_mset)

lemma exchange_inner_least:
  assumes "exchange_inner (\<lambda>a b. key a < (key b :: 'k :: linorder)) x ys = (m, r)"
  shows "key m \<le> key x \<and> (\<forall>y \<in> set r. key m \<le> key y)"
  using assms
proof (induction ys arbitrary: x m r)
  case (Cons y ys)
  then show ?case by (fastforce split: if_splits prod.splits dest: less_imp_le order_trans)
qed simp

lemma exchange_sort_sorted:
  "sorted_wrt (\<lambda>a b. key a \<le> key b) (exchange_sort (\<lambda>a b. key a < (key b :: 'k :: linorder)) xs)"
proof (induction "\<lambda>a b. key a < key b" xs rule: exchange_sort.induct)
  case (2 x xs)
  obtain m r where mr: "exchange_inner (\<lambda>a b. key a < key b) x xs = (m, r)" by fastforce
  have "set (exchange_sort (\<lambda>a b. key a < key b) r) = set r" by (metis exchange_sort_mset set_mset_mset)
  then show ?case using 2 [OF mr [symmetric]] exchange_inner_least [OF mr] mr by simp
qed simp

text \<open>The boots of a store are listed by their numbers, each number once.\<close>

lemma add_boot_numbers:
  "distinct (map bi_boot_seq bs) \<Longrightarrow>
   distinct (map bi_boot_seq (add_boot header footer bs)) \<and>
   set (map bi_boot_seq (add_boot header footer bs)) \<subseteq> insert (sh_boot_seq header) (set (map bi_boot_seq bs))"
  by (induction bs) (auto simp: find_boot_def extend_boot_def)

lemma add_segment_boots_numbers:
  "add_segment_boots P w items bs = Some bs' \<Longrightarrow> distinct (map bi_boot_seq bs) \<Longrightarrow> distinct (map bi_boot_seq bs')"
  by (induction items arbitrary: bs) (auto split: prod.splits sum.splits simp: add_boot_numbers [THEN conjunct1])

lemma boots_listed:
  assumes "collect_boots_for_path P w path = Some boots"
  shows "sorted_wrt (<) (map bi_boot_seq boots)"
proof -
  obtain items bs where b: "add_segment_boots P w items [] = Some bs" "boots = sort_boots bs"
    using assms by (auto simp: collect_boots_for_path_def collect_boots_from_segments_def split: if_splits option.splits)
  have "mset (map bi_boot_seq boots) = mset (map bi_boot_seq bs)" by (simp add: b(2) sort_boots_def exchange_sort_mset)
  then have "distinct (map bi_boot_seq boots)"
    using add_segment_boots_numbers [OF b(1)] mset_eq_imp_distinct_iff by fastforce
  moreover have "sorted (map bi_boot_seq boots)"
    using exchange_sort_sorted [of bi_boot_seq bs] by (simp add: b(2) sort_boots_def sorted_wrt_map)
  ultimately show ?thesis by (simp add: strict_sorted_iff)
qed

lemma later_ones:
  "sorted_wrt (\<lambda>a b. key a < (key b :: 'k :: linorder)) xs \<Longrightarrow> i < length xs \<Longrightarrow>
   filter (\<lambda>c. key (xs ! i) < key c) xs = drop (Suc i) xs"
proof (induction xs arbitrary: i)
  case (Cons x xs)
  show ?case
  proof (cases i)
    case 0
    then show ?thesis using Cons.prems(1) by simp
  next
    case (Suc j)
    then have "j < length xs" using Cons.prems(2) by simp
    moreover from this have "\<not> key (xs ! j) < key x" using Cons.prems(1) nth_mem [of j xs] by (metis less_asym sorted_wrt.simps(2))
    ultimately show ?thesis using Suc Cons.IH [of j] Cons.prems(1) by simp
  qed
qed simp

text \<open>A boot filter 0 or \<^verbatim>\<open>-n\<close> selects the boot that has exactly \<^verbatim>\<open>n\<close> later ones.\<close>

lemma boot_offset_selects:
  assumes "resolve_boot_filter P w opts = Some opts'" and "po_boot_filter opts = Some txt"
    and "parse_i32 txt = Some offset" and "offset \<le> 0" and "collect_boots_for_path P w (po_path opts) = Some boots"
  shows "\<exists>b \<in> set boots. po_boot_seq_filter opts' = Some (bi_boot_seq b) \<and>
    length (filter (\<lambda>c. bi_boot_seq b < bi_boot_seq c) boots) = nat (- offset)"
proof -
  let ?i = "nat (int (length boots) - 1 + offset)"
  have "(if boots = [] \<or> offset < 0 \<and> nat (- offset) \<ge> length boots then None
      else Some (opts\<lparr>po_boot_id_filter := Some txt, po_boot_seq_filter := None,
        po_boot_seq_filter := Some (bi_boot_seq (boots ! ?i)), po_boot_id_filter := None\<rparr>)) = Some opts'"
    using assms by (simp add: resolve_boot_filter_def Let_def)
  then have r: "boots \<noteq> []" "nat (- offset) < length boots" "po_boot_seq_filter opts' = Some (bi_boot_seq (boots ! ?i))"
    using assms(4) by (auto split: if_splits)
  then have i: "?i < length boots" "length boots - Suc ?i = nat (- offset)" using assms(4) by linarith+
  have s: "sorted_wrt (\<lambda>a b. bi_boot_seq a < bi_boot_seq b) boots" using boots_listed [OF assms(5)] by (simp add: sorted_wrt_map)
  have "filter (\<lambda>c. bi_boot_seq (boots ! ?i) < bi_boot_seq c) boots = drop (Suc ?i) boots" by (rule later_ones [OF s i(1)])
  then show ?thesis using r(3) i(2) nth_mem [OF i(1)] by (intro bexI [of _ "boots ! ?i"]) simp_all
qed

end
