(* ===== verification/Player.thy ===== *)
theory Player
  imports Player_Stats Reader_Iter Reader_Wallclock
begin

text \<open>
  The player (\<^verbatim>\<open>src/player.c\<close>): which entries it selects, how it prints them, the scans it drives
  through the reader library in its modes (recorded or wall clock order, between cursors, in
  batches, following), and its \<^verbatim>\<open>main\<close>. Standard output is a list of printed pieces, one for each
  entry or line, without the final newline. While the player waits for a change, the world moves
  on: each wait consumes one \<^verbatim>\<open>wakeup\<close>, the file system after the wait and what the inotify
  descriptor delivers.
\<close>

subsection \<open>Selecting\<close>

record PlayerEntry =
  pe_entry :: RecorderEntry
  pe_order :: nat
  pe_follow_new :: bool

record PrintContext =
  pc_unit_filter :: "string option"
  pc_boot_id_filter :: "string option"
  pc_boot_seq_filter :: "u32 option"
  pc_since_ts :: "u64 option"
  pc_until_ts :: "u64 option"
  pc_min_frame_offset :: u64
  pc_follow_start_ts :: u64
  pc_initial_follow_scan :: bool
  pc_stream_output :: bool
  pc_sanitize_output :: bool
  pc_json_output :: bool
  pc_entries :: "PlayerEntry list"
  pc_entry_count :: nat
  pc_out :: "string list"

definition boot_matches :: "PrintContext \<Rightarrow> u32 \<Rightarrow> string option \<Rightarrow> bool" where
  "boot_matches pc boot_seq boot_id \<longleftrightarrow>
     (case pc_boot_seq_filter pc of
        Some sq \<Rightarrow> boot_seq = sq
      | None \<Rightarrow>
          (case pc_boot_id_filter pc of
             None \<Rightarrow> True
           | Some f \<Rightarrow> f \<noteq> [] \<and> (case boot_id of None \<Rightarrow> False | Some s \<Rightarrow> take (length f) s = f)))"

definition entry_matches_values :: "PrintContext \<Rightarrow> u64 \<Rightarrow> string option \<Rightarrow> bool" where
  "entry_matches_values pc realtime_ts unit_name \<longleftrightarrow>
     (case pc_since_ts pc of None \<Rightarrow> True | Some t \<Rightarrow> \<not> realtime_ts < t) \<and>
     (case pc_until_ts pc of None \<Rightarrow> True | Some t \<Rightarrow> \<not> realtime_ts > t) \<and>
     (case pc_unit_filter pc of None \<Rightarrow> True | Some u \<Rightarrow> unit_name = Some u)"

definition append_player_entry :: "RecorderEntry \<Rightarrow> PrintContext \<Rightarrow> PrintContext" where
  "append_player_entry e pc =
     pc\<lparr>pc_entries := pc_entries pc @
          [\<lparr>pe_entry = e, pe_order = pc_entry_count pc,
            pe_follow_new = (pc_initial_follow_scan pc \<and> re_realtime_ts e \<ge> pc_follow_start_ts pc)\<rparr>],
        pc_entry_count := pc_entry_count pc + 1\<rparr>"

definition compare_player_entries :: "PlayerEntry \<Rightarrow> PlayerEntry \<Rightarrow> int" where
  "compare_player_entries a b =
     first_nonzero [cmp3 (re_realtime_ts (pe_entry a)) (re_realtime_ts (pe_entry b)), cmp3 (pe_order a) (pe_order b)]"

subsection \<open>Printing\<close>

definition hex_upper :: "nat \<Rightarrow> char" where
  "hex_upper d = (if d < 10 then digit_char d else char_of (d + 55))"

definition print_player_char :: "bool \<Rightarrow> char \<Rightarrow> string" where
  "print_player_char sanitize c =
     (let n = (of_char c :: nat) in
      if sanitize \<and> (n < 0x20 \<and> n \<noteq> 10 \<and> n \<noteq> 9 \<or> n = 0x7f)
      then [CHR 0x5C, CHR ''x'', hex_upper (n div 16), hex_upper (n mod 16)] else [c])"

definition print_player_field :: "bool \<Rightarrow> string \<Rightarrow> string" where
  "print_player_field sanitize v = concat (map (print_player_char sanitize) v)"

definition json_text :: "jansson \<Rightarrow> string \<Rightarrow> json option" where
  "json_text J s = (if json_utf8 J (str_bytes s) then Some (JString (str_bytes s)) else None)"

definition json_text_or_null :: "jansson \<Rightarrow> string option \<Rightarrow> json option" where
  "json_text_or_null J s = (case s of None \<Rightarrow> Some JOther | Some t \<Rightarrow> json_text J t)"

text \<open>
  \<^verbatim>\<open>json_object_set_new\<close> ignores a value that could not be built: a member whose text Jansson does
  not accept is left out. \<^verbatim>\<open>JOther\<close> is the null value.
\<close>

definition json_members :: "(string \<times> json option) list \<Rightarrow> json" where
  "json_members kvs = JObject (List.map_filter (\<lambda>(k, v). map_option (Pair k) v) kvs)"

definition entry_json :: "player_env \<Rightarrow> RecorderEntry \<Rightarrow> json" where
  "entry_json P e =
     (let J = pv_json P; num = (\<lambda>n. Some (JInteger n)) in
      json_members
       [(''boot_seq'', num (ucast (re_boot_seq e))), (''boot_id'', json_text_or_null J (re_boot_id e)),
        (''segment_seq'', num (re_segment_seq e)), (''frame_offset'', num (re_frame_offset e)),
        (''frame_entry_index'', num (ucast (re_frame_entry_index e))),
        (''timestamp'', json_text J (format_realtime P (re_realtime_ts e))),
        (''realtime_usec'', num (re_realtime_ts e)), (''monotonic_usec'', num (re_monotonic_ts e)),
        (''pid'', num (ucast (re_pid e))), (''uid'', num (ucast (re_uid e))), (''gid'', num (ucast (re_gid e))),
        (''priority'', num (ucast (re_priority e))), (''errno'', num (ucast (re_errno_value e))),
        (''hostname'', json_text_or_null J (re_hostname e)), (''comm'', json_text_or_null J (re_comm e)),
        (''unit'', json_text_or_null J (re_unit e)), (''exe'', json_text_or_null J (re_exe e)),
        (''message'', json_text J (case re_message e of None \<Rightarrow> [] | Some m \<Rightarrow> m)),
        (''message_id'', json_text_or_null J (re_message_id e)), (''group'', json_text_or_null J (re_group e)),
        (''fields'', Some (JArray (map (\<lambda>f.
            json_members [(''name'', json_text_or_null J (rf_name f)),
                          (''value'', Some (JArray (map (\<lambda>b. JInteger (ucast b)) (rf_value f))))]) (re_fields e))))])"

definition print_entry_json :: "player_env \<Rightarrow> RecorderEntry \<Rightarrow> string list" where
  "print_entry_json P e = (case json_dumps (pv_json P) (entry_json P e) of None \<Rightarrow> [] | Some s \<Rightarrow> [s])"

definition nonempty_text :: "string option \<Rightarrow> bool" where
  "nonempty_text s \<longleftrightarrow> (case s of None \<Rightarrow> False | Some t \<Rightarrow> t \<noteq> [])"

definition entry_identifier :: "RecorderEntry \<Rightarrow> string option" where
  "entry_identifier e =
     (let i1 = (if nonempty_text (re_comm e) then re_comm e else re_unit e) in
      if \<not> nonempty_text i1 \<and> nonempty_text (re_exe e)
      then Some (rev (takeWhile (\<lambda>c. c \<noteq> CHR ''/'') (rev (the (re_exe e))))) else i1)"

definition print_entry :: "player_env \<Rightarrow> bool \<Rightarrow> bool \<Rightarrow> RecorderEntry \<Rightarrow> string list" where
  "print_entry P sanitize json_output e =
     (if json_output then print_entry_json P e
      else
        let field = print_player_field sanitize;
            message = field (case re_message e of None \<Rightarrow> [] | Some m \<Rightarrow> m);
            host = (if nonempty_text (re_hostname e) \<and> re_hostname e \<noteq> Some ''-''
                    then '' '' @ field (the (re_hostname e)) else []);
            identifier = entry_identifier e
        in [format_realtime P (re_realtime_ts e) @ host @ '' '' @
              (if nonempty_text identifier
               then field (the identifier) @
                 (if re_pid e \<noteq> 0 then ''['' @ decimal (unat (re_pid e)) @ '']: '' else '': '')
               else []) @ message])"

definition print_record_cb :: "player_env \<Rightarrow> PrintContext rec_player_entry_cb" where
  "print_record_cb P e pc =
     (if re_frame_offset e < pc_min_frame_offset pc \<or> \<not> boot_matches pc (re_boot_seq e) (re_boot_id e) then (0, pc)
      else if \<not> entry_matches_values pc (re_realtime_ts e) (re_unit e) then (0, pc)
      else if pc_stream_output pc
      then (0, pc\<lparr>pc_out := pc_out pc @ print_entry P (pc_sanitize_output pc) (pc_json_output pc) e,
                  pc_entry_count := pc_entry_count pc + 1\<rparr>)
      else (0, append_player_entry e pc))"

definition FOLLOW_INITIAL_ENTRY_COUNT :: nat where "FOLLOW_INITIAL_ENTRY_COUNT = 10"

fun follow_selection :: "nat \<Rightarrow> nat \<Rightarrow> nat \<Rightarrow> PlayerEntry list \<Rightarrow> PlayerEntry list" where
  "follow_selection initial_count old_count old_seen [] = []"
| "follow_selection initial_count old_count old_seen (e # es) =
     (if pe_follow_new e \<or> old_count - old_seen \<le> initial_count then [e] else []) @
     follow_selection initial_count old_count (if pe_follow_new e then old_seen else old_seen + 1) es"

definition selected_entries :: "PlayerOptions \<Rightarrow> bool \<Rightarrow> PlayerEntry list \<Rightarrow> PlayerEntry list" where
  "selected_entries opts initial_follow_scan entries =
     (if \<not> initial_follow_scan
      then (case po_line_count opts of
              None \<Rightarrow> entries
            | Some n \<Rightarrow>
                if po_lines_from_head opts then take n entries
                else if length entries > n then drop (length entries - n) entries else entries)
      else follow_selection (case po_line_count opts of None \<Rightarrow> FOLLOW_INITIAL_ENTRY_COUNT | Some n \<Rightarrow> n)
             (length (filter (\<lambda>e. \<not> pe_follow_new e) entries)) 0 entries)"

definition print_selected_entries :: "player_env \<Rightarrow> PlayerOptions \<Rightarrow> bool \<Rightarrow> PlayerEntry list \<Rightarrow> string list" where
  "print_selected_entries P opts initial_follow_scan entries =
     concat (map (\<lambda>e. print_entry P (po_sanitize_output opts) (po_json_output opts) (pe_entry e))
       (selected_entries opts initial_follow_scan entries))"

subsection \<open>Waiting\<close>

record wakeup =
  wk_world :: world
  wk_revents :: bool
  wk_reads :: "inotify_read list"

record player_state =
  ps_reader :: RecorderPlayer
  ps_world :: world
  ps_ctx :: PrintContext

text \<open>The timeout of \<^verbatim>\<open>poll\<close> in milliseconds, from the deadline and the current monotonic time.\<close>

definition poll_timeout_ms :: "u64 \<Rightarrow> u64 \<Rightarrow> int" where
  "poll_timeout_ms deadline current =
     (if deadline = UINT64_MAX then - 1
      else to_int32 (uint (((if deadline > current then deadline - current else 0) + 999) div 1000)))"

definition wait_for_reader_change :: "reader_env \<Rightarrow> wakeup \<Rightarrow> player_state \<Rightarrow> player_state" where
  "wait_for_reader_change E k s =
     s\<lparr>ps_world := wk_world k,
       ps_reader := (if rp_inotify_fd (ps_reader s) \<and> wk_revents k
                     then snd (rec_player_process E (wk_reads k) (wk_world k) (ps_reader s)) else ps_reader s)\<rparr>"

subsection \<open>The scans\<close>

definition initial_context :: "PlayerOptions \<Rightarrow> bool \<Rightarrow> PrintContext" where
  "initial_context opts initial_follow_scan =
     \<lparr>pc_unit_filter = po_unit_filter opts, pc_boot_id_filter = po_boot_id_filter opts,
      pc_boot_seq_filter = po_boot_seq_filter opts, pc_since_ts = po_since_ts opts, pc_until_ts = po_until_ts opts,
      pc_min_frame_offset = 0, pc_follow_start_ts = po_follow_start_ts opts,
      pc_initial_follow_scan = initial_follow_scan,
      pc_stream_output = (po_sort_wallclock opts \<and> \<not> po_follow opts \<and> po_line_count opts = None \<and>
                          po_since_cursor opts = None \<and> po_until_cursor opts = None),
      pc_sanitize_output = po_sanitize_output opts, pc_json_output = po_json_output opts,
      pc_entries = [], pc_entry_count = 0, pc_out = []\<rparr>"

definition reached_cursor :: "string option \<Rightarrow> RecorderPlayer \<Rightarrow> bool" where
  "reached_cursor until_cursor r \<longleftrightarrow>
     (case until_cursor of None \<Rightarrow> False | Some c \<Rightarrow> rec_player_test_cursor r c = 1)"

text \<open>One entry: \<^verbatim>\<open>rec_player_next\<close>, \<^verbatim>\<open>rec_player_get_entry\<close> and \<^verbatim>\<open>print_record\<close>. The result is that of the code's \<^verbatim>\<open>rc\<close>.\<close>

definition take_entry :: "player_env \<Rightarrow> player_state \<Rightarrow> int \<times> player_state" where
  "take_entry P s =
     (case rec_player_next (pv_reader P) (ps_reader s) (ps_world s) of
        (rc, r, w) \<Rightarrow>
          let s1 = s\<lparr>ps_reader := r, ps_world := w\<rparr> in
          if rc \<le> 0 then (rc, s1)
          else case rec_player_get_entry r of
            None \<Rightarrow> (- 1, s1)
          | Some e \<Rightarrow>
              (case print_record_cb P e (ps_ctx s1) of
                 (rv, ctx) \<Rightarrow> if rv \<noteq> 0 then (- 1, s1\<lparr>ps_ctx := ctx\<rparr>) else (rc, s1\<lparr>ps_ctx := ctx\<rparr>)))"

text \<open>The walk from one cursor to another; \<^verbatim>\<open>None\<close> where it does not end.\<close>

partial_function (option) cursor_walk ::
    "player_env \<Rightarrow> string option \<Rightarrow> player_state \<Rightarrow> (bool \<times> player_state) option" where
  "cursor_walk P until_cursor s =
     (let res = take_entry P s in
      if fst res \<le> 0 then Some (fst res = 0 \<and> until_cursor = None, snd res)
      else if reached_cursor until_cursor (ps_reader (snd res)) then Some (True, snd res)
      else cursor_walk P until_cursor (snd res))"

definition seek_start ::
    "player_env \<Rightarrow> PlayerOptions \<Rightarrow> bool \<Rightarrow> player_state \<Rightarrow> bool \<times> player_state" where
  "seek_start P opts use_time s =
     (case (case po_since_cursor opts of
              Some c \<Rightarrow>
                (case rec_player_seek_cursor (pv_reader P) c (ps_reader s) (ps_world s) of
                   (res, r, w) \<Rightarrow> (res = Inr (), r, w))
            | None \<Rightarrow>
                (case (if use_time then po_since_ts opts else None) of
                   Some t \<Rightarrow> rec_player_seek_realtime_usec (pv_reader P) t (ps_reader s) (ps_world s)
                 | None \<Rightarrow> rec_player_seek_head (pv_reader P) (ps_reader s) (ps_world s))) of
        (ok, r, w) \<Rightarrow> (ok, s\<lparr>ps_reader := r, ps_world := w\<rparr>))"

text \<open>
  Batches. \<^verbatim>\<open>batch_entries\<close> is the inner loop: the code's \<^verbatim>\<open>rc\<close>, whether the end was reached, the
  cursor behind the last entry.
\<close>

fun batch_entries ::
    "player_env \<Rightarrow> PlayerOptions \<Rightarrow> nat \<Rightarrow> int \<Rightarrow> string option \<Rightarrow> player_state \<Rightarrow>
     int \<times> bool \<times> string option \<times> player_state" where
  "batch_entries P opts 0 rc cursor s = (rc, False, cursor, s)"
| "batch_entries P opts (Suc n) rc cursor s =
     (case take_entry P s of
        (rc', s') \<Rightarrow>
          if rc' \<le> 0 then (rc', False, cursor, s')
          else case rec_player_get_cursor (ps_reader s') of
            None \<Rightarrow> (- 1, False, cursor, s')
          | Some c \<Rightarrow>
              if reached_cursor (po_until_cursor opts) (ps_reader s') then (0, True, Some c, s')
              else if (case po_line_count opts of None \<Rightarrow> False | Some k \<Rightarrow> pc_entry_count (ps_ctx s') \<ge> k)
              then (0, True, Some c, s')
              else batch_entries P opts n rc' (Some c) s')"

text \<open>The next batch goes back to the last entry with its cursor and must find it again.\<close>

definition resume_batch :: "player_env \<Rightarrow> string option \<Rightarrow> player_state \<Rightarrow> bool \<times> player_state" where
  "resume_batch P cursor s =
     (case cursor of
        None \<Rightarrow> (True, s)
      | Some c \<Rightarrow>
          (case rec_player_seek_cursor (pv_reader P) c (ps_reader s) (ps_world s) of
             (Inl _, r, w) \<Rightarrow> (False, s\<lparr>ps_reader := r, ps_world := w\<rparr>)
           | (Inr _, r, w) \<Rightarrow>
               (case rec_player_next (pv_reader P) r w of
                  (rc, r', w') \<Rightarrow> (rc = 1 \<and> rec_player_test_cursor r' c = 1, s\<lparr>ps_reader := r', ps_world := w'\<rparr>))))"

datatype scan_result = ScanDone bool | ScanWaiting

definition flush_initial :: "player_env \<Rightarrow> PlayerOptions \<Rightarrow> bool \<Rightarrow> PrintContext \<Rightarrow> PrintContext" where
  "flush_initial P opts initial_follow_scan pc =
     (if initial_follow_scan
      then pc\<lparr>pc_out := pc_out pc @ print_selected_entries P opts True (pc_entries pc), pc_entries := [],
              pc_entry_count := 0, pc_initial_follow_scan := False, pc_stream_output := True\<rparr>
      else pc)"

partial_function (option) batch_loop ::
    "player_env \<Rightarrow> PlayerOptions \<Rightarrow> nat \<Rightarrow> bool \<Rightarrow> wakeup list \<Rightarrow> string option \<Rightarrow> player_state \<Rightarrow>
     (scan_result \<times> player_state) option" where
  "batch_loop P opts batch_size initial wakeups cursor s =
     (let resumed = resume_batch P cursor s in
      if \<not> fst resumed then Some (ScanDone False, snd resumed)
      else
        let res = batch_entries P opts batch_size 0 cursor (snd resumed);
            rc = fst res; reached = fst (snd res); cursor' = fst (snd (snd res)); s' = snd (snd (snd res))
        in
        if rc < 0 then Some (ScanDone False, s')
        else if reached then Some (ScanDone True, s')
        else if rc \<noteq> 0 then batch_loop P opts batch_size initial wakeups cursor' s'
        else if \<not> po_follow opts then Some (ScanDone (po_until_cursor opts = None), s')
        else
          let s'' = s'\<lparr>ps_ctx := flush_initial P opts initial (ps_ctx s')\<rparr>
          in if wakeups = [] then Some (ScanWaiting, s'')
             else batch_loop P opts batch_size False (tl wakeups) cursor'
                    (wait_for_reader_change (pv_reader P) (hd wakeups) s''))"

definition batch_scan ::
    "player_env \<Rightarrow> PlayerOptions \<Rightarrow> nat \<Rightarrow> bool \<Rightarrow> wakeup list \<Rightarrow> player_state \<Rightarrow> (scan_result \<times> player_state) option" where
  "batch_scan P opts batch_size initial wakeups s0 =
     (let s = s0\<lparr>ps_ctx := (ps_ctx s0)\<lparr>pc_stream_output := \<not> po_follow opts\<rparr>\<rparr> in
      if po_line_count opts = Some 0 then Some (ScanDone True, s)
      else case seek_start P opts True s of
        (False, s1) \<Rightarrow> Some (ScanDone False, s1)
      | (True, s1) \<Rightarrow> batch_loop P opts batch_size initial wakeups None s1)"

text \<open>
  The scans without batches. The conditions of the code's chain are exhaustive before its last
  branch, which walks with the iterator and is never taken.
\<close>

definition plain_scan :: "player_env \<Rightarrow> PlayerOptions \<Rightarrow> player_state \<Rightarrow> (bool \<times> player_state) option" where
  "plain_scan P opts s =
     (if po_follow opts
      then (case rec_player_scan_follow (pv_reader P) (ps_world s) (print_record_cb P)
                   (case po_line_count opts of None \<Rightarrow> FOLLOW_INITIAL_ENTRY_COUNT | Some n \<Rightarrow> n) (ps_reader s) (ps_ctx s) of
              (ok, r, ctx) \<Rightarrow> Some (ok, s\<lparr>ps_reader := r, ps_ctx := ctx\<rparr>))
      else if po_since_cursor opts = None \<and> po_until_cursor opts = None
      then (if po_sort_wallclock opts
            then (case rec_player_scan_wallclock (pv_reader P) (ps_reader s) (ps_world s) (print_record_cb P) (ps_ctx s) of
                    (ok, ctx, w) \<Rightarrow> Some (ok, s\<lparr>ps_world := w, ps_ctx := ctx\<rparr>))
            else (case rec_player_scan_all (pv_reader P) (ps_reader s) (ps_world s) (print_record_cb P) (ps_ctx s) of
                    (ok, ctx) \<Rightarrow> Some (ok, s\<lparr>ps_ctx := ctx\<rparr>)))
      else case seek_start P opts False s of
        (False, s1) \<Rightarrow> Some (False, s1)
      | (True, s1) \<Rightarrow> cursor_walk P (po_until_cursor opts) s1)"

definition output_preordered :: "PlayerOptions \<Rightarrow> bool" where
  "output_preordered opts \<longleftrightarrow>
     \<not> po_follow opts \<and> po_sort_wallclock opts \<and> po_since_cursor opts = None \<and> po_until_cursor opts = None"

definition finish_scan :: "player_env \<Rightarrow> PlayerOptions \<Rightarrow> bool \<Rightarrow> PrintContext \<Rightarrow> PrintContext" where
  "finish_scan P opts initial_follow_scan pc =
     (let entries = (if po_sort_wallclock opts \<and> \<not> output_preordered opts
                     then qsort compare_player_entries (pc_entries pc) else pc_entries pc)
      in if pc_stream_output pc then pc
         else pc\<lparr>pc_out := pc_out pc @ print_selected_entries P opts initial_follow_scan entries\<rparr>)"

definition scan_log_once ::
    "player_env \<Rightarrow> PlayerOptions \<Rightarrow> bool \<Rightarrow> wakeup list \<Rightarrow> RecorderPlayer \<Rightarrow> world \<Rightarrow>
     (scan_result \<times> player_state) option" where
  "scan_log_once P opts follow_initialized wakeups r w =
     (let initial = po_follow opts \<and> \<not> follow_initialized;
          s = \<lparr>ps_reader = r, ps_world = w, ps_ctx = initial_context opts initial\<rparr>
      in case po_batch_size opts of
           Some batch_size \<Rightarrow> batch_scan P opts batch_size initial wakeups s
         | None \<Rightarrow>
             (case plain_scan P opts s of
                None \<Rightarrow> None
              | Some (False, s') \<Rightarrow> Some (ScanDone False, s')
              | Some (True, s') \<Rightarrow> Some (ScanDone True, s'\<lparr>ps_ctx := finish_scan P opts initial (ps_ctx s')\<rparr>)))"

subsection \<open>The program\<close>

definition configure_reader :: "player_env \<Rightarrow> PlayerOptions \<Rightarrow> world \<Rightarrow> RecorderPlayer option" where
  "configure_reader P opts w =
     (case rec_player_open (pv_reader P) (po_path opts) w of
        None \<Rightarrow> None
      | Some r0 \<Rightarrow>
          (case (case po_encryption_private_key opts of
                   None \<Rightarrow> (True, r0)
                 | Some key \<Rightarrow> rec_player_set_private_key (pv_decryptor P) (Some key) r0) of
             (False, _) \<Rightarrow> None
           | (True, r1) \<Rightarrow>
               let r2 = (if po_repair_indexes opts then rec_player_set_repair_indexes True r1 else r1);
                   r3 = (if po_force_repair opts then rec_player_set_force_repair_indexes True r2 else r2);
                   r4 = (if po_batch_size opts \<noteq> None \<and> po_sort_wallclock opts
                         then rec_player_set_order OrderWallclock r3 else r3)
               in (case (case po_unit_filter opts of None \<Rightarrow> (True, r4) | Some u \<Rightarrow> rec_player_set_unit_filter (Some u) r4) of
                     (False, _) \<Rightarrow> None
                   | (True, r5) \<Rightarrow>
                       (case (if po_groups opts = [] then (True, r5) else rec_player_set_group_filter (po_groups opts) r5) of
                          (False, _) \<Rightarrow> None
                        | (True, r6) \<Rightarrow> Some r6))))"

text \<open>
  The loop of \<^verbatim>\<open>scan_log_root\<close>: one scan, or in follow mode a scan after every wakeup. The flag tells
  whether the player is still waiting at the end of the given wakeups.
\<close>

fun scan_rounds ::
    "player_env \<Rightarrow> PlayerOptions \<Rightarrow> bool \<Rightarrow> wakeup list \<Rightarrow> RecorderPlayer \<Rightarrow> world \<Rightarrow> string list \<Rightarrow>
     (scan_result \<times> string list) option" where
  "scan_rounds P opts follow_initialized [] r w out =
     (case scan_log_once P opts follow_initialized [] r w of
        None \<Rightarrow> None
      | Some (res, s) \<Rightarrow>
          Some (if res = ScanDone True \<and> po_follow opts then ScanWaiting else res, out @ pc_out (ps_ctx s)))"
| "scan_rounds P opts follow_initialized (k # wakeups) r w out =
     (case scan_log_once P opts follow_initialized (k # wakeups) r w of
        None \<Rightarrow> None
      | Some (res, s) \<Rightarrow>
          if res \<noteq> ScanDone True \<or> \<not> po_follow opts then Some (res, out @ pc_out (ps_ctx s))
          else
            let s' = wait_for_reader_change (pv_reader P) k s
            in scan_rounds P opts True wakeups (ps_reader s') (ps_world s') (out @ pc_out (ps_ctx s)))"

definition scan_log_root ::
    "player_env \<Rightarrow> PlayerOptions \<Rightarrow> wakeup list \<Rightarrow> world \<Rightarrow> (scan_result \<times> string list) option" where
  "scan_log_root P opts wakeups w =
     (case configure_reader P opts w of
        None \<Rightarrow> Some (ScanDone False, [])
      | Some r \<Rightarrow> scan_rounds P opts False wakeups r w [])"

definition finished :: "bool \<times> string list \<Rightarrow> (scan_result \<times> string list) option" where
  "finished res = Some (ScanDone (fst res), snd res)"

definition player_main ::
    "player_env \<Rightarrow> string \<Rightarrow> (tm \<Rightarrow> int) \<Rightarrow> u64 \<Rightarrow> string list \<Rightarrow> wakeup list \<Rightarrow> world \<Rightarrow>
     (scan_result \<times> string list) option" where
  "player_main P log_dir mktime now argv wakeups w =
     (case parse_options log_dir mktime argv of
        None \<Rightarrow> finished (False, [])
      | Some opts \<Rightarrow>
          if \<not> is_dir (po_path opts) w \<and> stat (po_path opts) w = None then finished (False, [])
          else if po_list_boots opts then finished (print_boots P opts w)
          else if po_rebuild_index opts
          then finished (case player_rebuild_index P opts w of (ok, out, _) \<Rightarrow> (ok, out))
          else if po_stats opts
          then finished (case print_stats P opts w of (ok, out, _) \<Rightarrow> (ok, out))
          else case resolve_boot_filter P w opts of
            None \<Rightarrow> finished (False, [])
          | Some opts1 \<Rightarrow>
              let opts2 = (if po_follow opts1 then opts1\<lparr>po_follow_start_ts := now\<rparr> else opts1) in
              if is_dir (po_path opts2) w
              then (if po_disk_usage opts2 then finished (print_disk_usage (pv_blocks P) w (po_path opts2))
                    else scan_log_root P opts2 wakeups w)
              else if po_disk_usage opts2 \<or> po_dir_path opts2 \<noteq> None \<or> po_follow opts2 then finished (False, [])
              else scan_log_root P opts2 wakeups w)"

subsection \<open>What is printed\<close>

text \<open>The filter of \<^verbatim>\<open>print_record\<close> for a given command line.\<close>

definition wanted :: "PrintContext \<Rightarrow> RecorderEntry \<Rightarrow> bool" where
  "wanted pc e \<longleftrightarrow>
     \<not> re_frame_offset e < pc_min_frame_offset pc \<and> boot_matches pc (re_boot_seq e) (re_boot_id e) \<and>
     entry_matches_values pc (re_realtime_ts e) (re_unit e)"

lemma wanted_updates [simp]:
  "wanted (pc\<lparr>pc_entries := es, pc_entry_count := n\<rparr>) = wanted pc"
  "wanted (pc\<lparr>pc_out := out, pc_entry_count := n\<rparr>) = wanted pc"
  by (simp_all add: wanted_def boot_matches_def entry_matches_values_def fun_eq_iff split: option.split)

lemma print_record_keeps:
  "fst (print_record_cb P e pc) = 0" "wanted (snd (print_record_cb P e pc)) = wanted pc"
  by (simp_all add: print_record_cb_def append_player_entry_def)

text \<open>Feeding the entries of a scan to \<^verbatim>\<open>print_record\<close>: the wanted ones are kept, or printed.\<close>

definition player_entries :: "PrintContext \<Rightarrow> RecorderEntry list \<Rightarrow> PlayerEntry list" where
  "player_entries pc es =
     map (\<lambda>(i, e). \<lparr>pe_entry = e, pe_order = i,
            pe_follow_new = (pc_initial_follow_scan pc \<and> re_realtime_ts e \<ge> pc_follow_start_ts pc)\<rparr>)
       (enumerate (pc_entry_count pc) (filter (wanted pc) es))"

lemma call_print_record_collects:
  assumes "\<not> pc_stream_output pc"
  shows "call_entries (print_record_cb P) es pc =
    (0, pc\<lparr>pc_entries := pc_entries pc @ player_entries pc es,
           pc_entry_count := pc_entry_count pc + length (filter (wanted pc) es)\<rparr>)"
  using assms
proof (induction es arbitrary: pc)
  case (Cons e es)
  obtain pc' where pc': "print_record_cb P e pc = (0, pc')" using print_record_keeps(1) by (metis prod.collapse)
  have w: "wanted pc' = wanted pc" using print_record_keeps(2) [of P e pc] pc' by simp
  have s: "pc' = (if wanted pc e then append_player_entry e pc else pc)"
    using pc' Cons.prems by (auto simp: print_record_cb_def wanted_def split: if_splits)
  then have "\<not> pc_stream_output pc'" using Cons.prems by (simp add: append_player_entry_def)
  from Cons.IH [OF this] pc' w s show ?case
    by (auto simp: append_player_entry_def player_entries_def)
qed (simp add: player_entries_def)

lemma call_print_record_prints:
  assumes "pc_stream_output pc"
  shows "call_entries (print_record_cb P) es pc =
    (0, pc\<lparr>pc_out := pc_out pc @
             concat (map (print_entry P (pc_sanitize_output pc) (pc_json_output pc)) (filter (wanted pc) es)),
           pc_entry_count := pc_entry_count pc + length (filter (wanted pc) es)\<rparr>)"
  using assms
proof (induction es arbitrary: pc)
  case (Cons e es)
  obtain pc' where pc': "print_record_cb P e pc = (0, pc')" using print_record_keeps(1) by (metis prod.collapse)
  have w: "wanted pc' = wanted pc" using print_record_keeps(2) [of P e pc] pc' by simp
  have s: "pc' = (if wanted pc e
      then pc\<lparr>pc_out := pc_out pc @ print_entry P (pc_sanitize_output pc) (pc_json_output pc) e, pc_entry_count := pc_entry_count pc + 1\<rparr>
      else pc)"
    using pc' Cons.prems by (auto simp: print_record_cb_def wanted_def split: if_splits)
  then have "pc_stream_output pc'" using Cons.prems by simp
  from Cons.IH [OF this] pc' w s show ?case by auto
qed simp

end
