(* ===== verification/Player_Props.thy ===== *)
theory Player_Props
  imports Player Walk_Props
begin

text \<open>
  The player from its command line options to its output: the reader's scans hand every entry to
  \<^verbatim>\<open>print_record\<close>, and what is printed is the selection of the scanned entries.
\<close>

subsection \<open>A callback that never stops a scan\<close>

text \<open>Such a scan gives the callback the entries that a collecting scan lists.\<close>

locale total_callback =
  fixes cb :: "'u rec_player_entry_cb"
  assumes never_stops: "fst (cb e u) = 0"
begin

definition run :: "RecorderEntry list \<Rightarrow> 'u \<Rightarrow> 'u" where
  "run es u = snd (call_entries cb es u)"

lemma call_entries_Cons: "call_entries cb (e # es) u = call_entries cb es (snd (cb e u))"
  using never_stops [of e u] by (simp add: case_prod_beta)

lemma run_Cons: "run (e # es) u = run es (snd (cb e u))"
  by (simp only: run_def call_entries_Cons)

lemma call_entries_run: "call_entries cb es u = (0, run es u)"
proof (induction es arbitrary: u)
  case (Cons e es)
  then show ?case by (simp only: call_entries_Cons run_Cons)
qed (simp add: run_def)

lemma run_concat: "run (xs @ ys) u = run ys (run xs u)"
proof (induction xs arbitrary: u)
  case (Cons x xs)
  then show ?case by (simp add: run_Cons)
qed (simp add: run_def)

lemma run_carries: "carries (\<lambda>es. run es u) (scan_frame E grp k append_stored_entry) (scan_frame E grp k cb)"
  by (simp add: carries_def scan_frame_def call_entries_append call_entries_run run_concat)

lemma run_scan_file: "rec_player_scan_file E r w path cb u 0 = map_prod id (\<lambda>es. run es u) (file_scan E r w path)"
proof -
  have u: "run [] u = u" by (simp add: run_def)
  show ?thesis
    using scan_impl_carries [OF run_carries [of u], where x = "[]", unfolded u]
    by (auto simp: file_scan_def rec_player_scan_file_def segment_scan_path_from_offset_def u
        split: option.splits if_splits prod.splits sum.splits)
qed

lemma run_scan_paths:
  "scan_paths E r w append_stored_entry ps v = (True, v') \<Longrightarrow>
   \<exists>es. v' = v @ es \<and> (\<forall>u. scan_paths E r w cb ps u = (True, run es u))"
proof (induction ps arbitrary: v)
  case (Cons p ps)
  obtain res new where f: "file_scan E r w (sp_path p) = (res, new)" by fastforce
  from Cons.prems f obtain e where res: "res = Inr e" and rest: "scan_paths E r w append_stored_entry ps (v @ new) = (True, v')"
    by (cases res) (auto simp: scan_file_appends)
  from Cons.IH [OF rest] obtain es where "v' = (v @ new) @ es" "\<forall>u. scan_paths E r w cb ps u = (True, run es u)" by blast
  then show ?case using f res by (intro exI [of _ "new @ es"]) (simp add: run_scan_file run_concat)
qed (simp add: run_def)

lemma run_merge:
  "wallclock_merge E r append_stored_entry sources heap w v = (True, v', w') \<Longrightarrow>
   \<exists>es. v' = v @ es \<and> (\<forall>u. wallclock_merge E r cb sources heap w u = (True, run es u, w'))"
proof (induction E r "append_stored_entry" sources heap w v rule: wallclock_merge.induct)
  case (1 E r sources heap w v)
  let ?i = "hd heap"
  let ?e = "source_current (sources ! ?i)"
  show ?case
  proof (cases "heap = []")
    case True
    then show ?thesis using "1.prems" by (simp add: wallclock_merge.simps run_def)
  next
    case False
    obtain rc s w1 where a: "source_advance E r Forward (sources ! ?i) w = (rc, s, w1)" by (cases "source_advance E r Forward (sources ! ?i) w") auto
    let ?h = "if source_has_current s then heap else heap_drop_root heap"
    let ?h' = "if ?h \<noteq> [] then wallclock_heap_sift_down (sources[?i := s]) ?h 0 else ?h"
    have m: "?i < length sources" "\<not> rc < 0"
      "wallclock_merge E r append_stored_entry (sources[?i := s]) ?h' w1 (v @ [?e]) = (True, v', w')"
      using "1.prems" False a
      by (subst (asm) wallclock_merge.simps, simp add: Let_def append_stored_entry_def split: if_splits)+
    from "1.hyps" [OF False refl _ _ _ a [symmetric] _ m(2) refl refl m(3)] m(1)
    obtain es where es: "v' = (v @ [?e]) @ es" "\<forall>u. wallclock_merge E r cb (sources[?i := s]) ?h' w1 u = (True, run es u, w')"
      by (auto simp: append_stored_entry_def)
    have "wallclock_merge E r cb sources heap w u = (True, run (?e # es) u, w')" for u
    proof -
      have "cb ?e u = (0, run [?e] u)" using never_stops [of ?e u] by (simp add: run_Cons prod_eq_iff) (simp add: run_def)
      then show ?thesis using False m(1,2) a es(2) run_concat [of "[?e]" es u]
        by (subst wallclock_merge.simps) (simp add: Let_def)
    qed
    then show ?thesis using es(1) by (intro exI [of _ "?e # es"]) simp
  qed
qed

end

interpretation printing: total_callback "print_record_cb P" for P
  by unfold_locales (rule print_record_keeps)

subsection \<open>What the player prints\<close>

text \<open>The entries of the store in the order the command line asks for, as a collecting scan lists them.\<close>

definition listed ::
    "player_env \<Rightarrow> PlayerOptions \<Rightarrow> RecorderPlayer \<Rightarrow> world \<Rightarrow> RecorderEntry list \<Rightarrow> world \<Rightarrow> bool" where
  "listed P opts r w es w' \<longleftrightarrow>
     (if po_sort_wallclock opts
      then rec_player_scan_wallclock (pv_reader P) r w append_stored_entry [] = (True, es, w')
      else rec_player_scan_all (pv_reader P) r w append_stored_entry [] = (True, es) \<and> w' = w)"

text \<open>The lines \<^verbatim>\<open>-n\<close> selects: the newest, or with a plus sign the oldest.\<close>

definition line_selection :: "PlayerOptions \<Rightarrow> 'a list \<Rightarrow> 'a list" where
  "line_selection opts es =
     (case po_line_count opts of
        None \<Rightarrow> es
      | Some n \<Rightarrow> if po_lines_from_head opts then take n es else drop (length es - n) es)"

lemma selected_is_line_selection:
  "map pe_entry (selected_entries opts False entries) = line_selection opts (map pe_entry entries)"
  by (simp add: selected_entries_def line_selection_def take_map drop_map split: option.split)

lemma map_player_entries: "map pe_entry (player_entries pc es) = filter (wanted pc) es"
proof -
  have "map pe_entry (map (\<lambda>(i, e). \<lparr>pe_entry = e, pe_order = i, pe_follow_new = f e\<rparr>) ies) = map snd ies" for f ies
    by (simp add: case_prod_beta)
  then show ?thesis by (simp only: player_entries_def) (simp only: map_snd_enumerate)
qed

lemma listed_runs:
  assumes "listed P opts r w es w'" and "\<not> po_follow opts" and "po_since_cursor opts = None" "po_until_cursor opts = None"
  shows "plain_scan P opts \<lparr>ps_reader = r, ps_world = w, ps_ctx = pc\<rparr> =
    Some (True, \<lparr>ps_reader = r, ps_world = w', ps_ctx = snd (call_entries (print_record_cb P) es pc)\<rparr>)"
proof (cases "po_sort_wallclock opts")
  case True
  then have s: "rec_player_scan_wallclock (pv_reader P) r w append_stored_entry [] = (True, es, w')" using assms(1) by (simp add: listed_def)
  then obtain paths segments sources heap w1 where "reader_paths r w = Some paths"
      "wallclock_segments (pv_reader P) r w paths False [] = Some segments"
      "prepare_sources (pv_reader P) r segments [] [] w = (True, sources, heap, w1)"
      and m: "wallclock_merge (pv_reader P) r append_stored_entry sources heap w1 [] = (True, es, w')"
    by (auto simp: rec_player_scan_wallclock_def split: option.splits prod.splits bool.splits)
  then have "rec_player_scan_wallclock (pv_reader P) r w (print_record_cb P) pc = (True, printing.run P es pc, w')"
    using printing.run_merge [OF m, of P] by (auto simp: rec_player_scan_wallclock_def)
  then show ?thesis using assms(2-) True by (simp add: plain_scan_def printing.run_def)
next
  case False
  then have "rec_player_scan_all (pv_reader P) r w append_stored_entry [] = (True, es)" "w' = w" using assms(1) by (simp_all add: listed_def)
  moreover from this obtain paths where "reader_paths r w = Some paths"
      and s: "scan_paths (pv_reader P) r w append_stored_entry paths [] = (True, es)"
    by (auto simp: rec_player_scan_all_def split: option.splits)
  ultimately have "rec_player_scan_all (pv_reader P) r w (print_record_cb P) pc = (True, printing.run P es pc)"
    using printing.run_scan_paths [OF s, of P] by (auto simp: rec_player_scan_all_def)
  then show ?thesis using assms(2-) False \<open>w' = w\<close> by (simp add: plain_scan_def printing.run_def)
qed

text \<open>
  C12. The player prints what its command line asks for. Without following, cursors or batches,
  whenever the reader can list the entries of the store (in recorded order, or sorted by wall
  clock with \<^verbatim>\<open>--sort wallclock\<close>), \<^verbatim>\<open>scan_log_once\<close> succeeds and its output is the rendering, entry by
  entry and in that order, of the entries that match the boot filter, the time bounds and the unit,
  cut to the newest \<^verbatim>\<open>-n\<close> of them or, with a plus sign, to the oldest; the streaming of the wall
  clock order and the collecting of the other modes give the same.
\<close>

theorem player_prints_selection:
  assumes "listed P opts r w es w'" and "\<not> po_follow opts" and "po_since_cursor opts = None" "po_until_cursor opts = None"
    and "po_batch_size opts = None"
  shows "\<exists>s. scan_log_once P opts follow_initialized wakeups r w = Some (ScanDone True, s) \<and>
    pc_out (ps_ctx s) = concat (map (print_entry P (po_sanitize_output opts) (po_json_output opts))
      (line_selection opts (filter (wanted (initial_context opts False)) es)))"
proof -
  let ?pc = "initial_context opts False"
  have once: "scan_log_once P opts follow_initialized wakeups r w =
      Some (ScanDone True, \<lparr>ps_reader = r, ps_world = w', ps_ctx = finish_scan P opts False (snd (call_entries (print_record_cb P) es ?pc))\<rparr>)"
    using listed_runs [OF assms(1-4), of ?pc] assms(2,5) by (simp add: scan_log_once_def Let_def)
  have pc: "pc_entries ?pc = []" "pc_out ?pc = []" "pc_sanitize_output ?pc = po_sanitize_output opts"
    "pc_json_output ?pc = po_json_output opts"
    "pc_stream_output ?pc \<longleftrightarrow> po_sort_wallclock opts \<and> po_line_count opts = None"
    using assms(2-4) by (simp_all add: initial_context_def)
  have unsorted: "\<not> (po_sort_wallclock opts \<and> \<not> output_preordered opts)" using assms(2-4) by (simp add: output_preordered_def)
  show ?thesis
  proof (cases "pc_stream_output ?pc")
    case True
    then have "line_selection opts es' = es'" for es' :: "RecorderEntry list" using pc(5) by (simp add: line_selection_def)
    then show ?thesis using once call_print_record_prints [OF True, of P es] pc True by (simp add: finish_scan_def Let_def)
  next
    case False
    have r: "concat (map (\<lambda>e. print_entry P a b (pe_entry e)) xs) = concat (map (print_entry P a b) (map pe_entry xs))" for a b xs
      by (simp add: comp_def)
    have "print_selected_entries P opts False (player_entries ?pc es) =
        concat (map (print_entry P (po_sanitize_output opts) (po_json_output opts)) (line_selection opts (filter (wanted ?pc) es)))"
      by (simp only: print_selected_entries_def r selected_is_line_selection map_player_entries)
    then show ?thesis using once call_print_record_collects [OF False, of P es] pc(1,2) False unsorted by (simp add: finish_scan_def Let_def)
  qed
qed

subsection \<open>Sanitized output\<close>

text \<open>A sanitized field carries no control character but newline and tabulator, and no delete.\<close>

lemma sanitized_char:
  assumes "c \<in> set (print_player_char True d)"
  shows "of_char c = (9 :: nat) \<or> of_char c = (10 :: nat) \<or> (0x20 \<le> (of_char c :: nat) \<and> of_char c \<noteq> (0x7f :: nat))"
proof -
  have h: "of_char (hex_upper n) \<in> {48..57} \<union> {65..<71 :: nat}" if "n < 16" for n
    using that by (auto simp: hex_upper_def digit_char_def)
  show ?thesis
  proof (cases "(of_char d :: nat) < 0x20 \<and> of_char d \<noteq> (10 :: nat) \<and> of_char d \<noteq> (9 :: nat) \<or> of_char d = (0x7f :: nat)")
    case True
    have "(of_char d :: nat) div 16 < 16" "(of_char d :: nat) mod 16 < 16" using True by auto
    then show ?thesis using assms True h [of "of_char d div 16"] h [of "of_char d mod 16"]
      by (auto simp: print_player_char_def Let_def)
  next
    case False
    then show ?thesis using assms by (auto simp: print_player_char_def Let_def)
  qed
qed

lemma sanitized_field:
  "c \<in> set (print_player_field True v) \<Longrightarrow>
   of_char c = (9 :: nat) \<or> of_char c = (10 :: nat) \<or> (0x20 \<le> (of_char c :: nat) \<and> of_char c \<noteq> (0x7f :: nat))"
  using sanitized_char by (auto simp: print_player_field_def)

subsection \<open>The example store\<close>

definition walk_player :: player_env where
  "walk_player = \<lparr>pv_reader = walk_env, pv_strftime = \<lambda>f t. None,
     pv_json = \<lparr>json_utf8 = \<lambda>b. True, json_dumps = \<lambda>v. None, json_loads = \<lambda>s. None\<rparr>,
     pv_blocks = \<lambda>p. 0\<rparr>"

definition three_lines :: PlayerOptions where
  "three_lines = initial_options\<lparr>po_path := ''/l'', po_line_count := Some 3\<rparr>"

theorem player_prints_selection_witness:
  "\<exists>s. scan_log_once walk_player three_lines False [] walk_reader walk_store = Some (ScanDone True, s) \<and>
    length (pc_out (ps_ctx s)) = 3"
proof -
  obtain e es e' es' where f: "file_scan walk_env walk_reader walk_store ''/l/p3/3.seg'' = (Inr e, es)"
      "map re_realtime_ts es = [1001, 1002]"
      "file_scan walk_env walk_reader walk_store ''/l/p4/7.seg'' = (Inr e', es')" "map re_realtime_ts es' = [1001, 1002]"
    using demo_scans by (elim exE conjE)
  have o: "\<not> po_follow three_lines" "po_since_cursor three_lines = None" "po_until_cursor three_lines = None"
    "po_batch_size three_lines = None" "po_line_count three_lines = Some 3" "\<not> po_lines_from_head three_lines"
    "\<not> po_sort_wallclock three_lines" "\<not> po_json_output three_lines"
    by (simp_all add: three_lines_def initial_options_def)
  have "listed walk_player three_lines walk_reader walk_store (es @ es') walk_store"
    using f o by (simp add: listed_def walk_player_def rec_player_scan_all_def walk_reader_paths scan_file_appends)
  from player_prints_selection [OF this o(1-4), of False "[]"] obtain s
    where s: "scan_log_once walk_player three_lines False [] walk_reader walk_store = Some (ScanDone True, s)"
      "pc_out (ps_ctx s) = concat (map (print_entry walk_player (po_sanitize_output three_lines) (po_json_output three_lines))
        (line_selection three_lines (filter (wanted (initial_context three_lines False)) (es @ es'))))" by blast
  have "wanted (initial_context three_lines False) = (\<lambda>e. True)"
    by (simp add: wanted_def boot_matches_def entry_matches_values_def initial_context_def three_lines_def initial_options_def fun_eq_iff)
  moreover have "length (es @ es') = 4" using f(2,4) by (auto simp: map_eq_Cons_conv)
  moreover have "length (concat (map (print_entry P a False) xs)) = length xs" for P a xs
    by (induction xs) (simp_all add: print_entry_def Let_def)
  ultimately have "length (pc_out (ps_ctx s)) = 3" using s(2) o by (simp add: line_selection_def)
  then show ?thesis using s(1) by blast
qed

end
