(* ===== verification/Batch_Reader.thy ===== *)
theory Batch_Reader
  imports Player
begin

text \<open>
  The batch reader (\<^verbatim>\<open>src/batch_reader.c\<close>): it prints a store in batches and resumes each batch from
  the cursor of the one before. Its wait for a change is the player's.
\<close>

record batch_options =
  bo_follow :: bool
  bo_batch_size :: nat
  bo_order :: RecorderPlayerOrder

definition default_batch_options :: batch_options where
  "default_batch_options = \<lparr>bo_follow = False, bo_batch_size = 50, bo_order = OrderRecorded\<rparr>"

fun parse_batch_args :: "string list \<Rightarrow> batch_options \<Rightarrow> (batch_options \<times> string) option" where
  "parse_batch_args [] o1 = None"
| "parse_batch_args (arg # rest) o1 =
     (if arg = [] \<or> hd arg \<noteq> CHR ''-'' then (if rest = [] then Some (o1, arg) else None)
      else if arg = ''-f'' then parse_batch_args rest (o1\<lparr>bo_follow := True\<rparr>)
      else if arg = ''-b''
      then (case rest of
              [] \<Rightarrow> None
            | v # rest' \<Rightarrow>
                let r = strtoull v in
                if st_range_error r \<or> st_end r \<noteq> [] \<or> st_value r = 0 then None
                else parse_batch_args rest' (o1\<lparr>bo_batch_size := unat (st_value r)\<rparr>))
      else if arg = ''--sort''
      then (case rest of
              [] \<Rightarrow> None
            | v # rest' \<Rightarrow>
                if v = ''wallclock'' then parse_batch_args rest' (o1\<lparr>bo_order := OrderWallclock\<rparr>) else None)
      else if arg = ''--sort=wallclock'' then parse_batch_args rest (o1\<lparr>bo_order := OrderWallclock\<rparr>)
      else None)"

record batch_state =
  bs_reader :: RecorderPlayer
  bs_world :: world
  bs_cursor :: "string option"
  bs_entries :: nat
  bs_batches :: nat
  bs_resumes :: nat
  bs_rc :: int
  bs_out :: "string list"

definition batch_line :: "RecorderEntry \<Rightarrow> string" where
  "batch_line e =
     decimal (unat (re_realtime_ts e)) @ '' '' @ (case re_group e of None \<Rightarrow> ''-'' | Some g \<Rightarrow> g) @ '':'' @
     decimal (unat (re_segment_seq e)) @ '':'' @ decimal (unat (re_frame_offset e)) @ '':'' @
     decimal (unat (re_frame_entry_index e)) @ '' '' @ (case re_message e of None \<Rightarrow> [] | Some m \<Rightarrow> m)"

text \<open>The resumption: \<^verbatim>\<open>False\<close> where the program gives up.\<close>

definition batch_resume :: "reader_env \<Rightarrow> batch_state \<Rightarrow> bool \<times> batch_state" where
  "batch_resume E s =
     (case bs_cursor s of
        None \<Rightarrow> (True, s)
      | Some c \<Rightarrow>
          (case rec_player_seek_cursor E c (bs_reader s) (bs_world s) of
             (Inl _, r, w) \<Rightarrow> (False, s\<lparr>bs_reader := r, bs_world := w\<rparr>)
           | (Inr _, r, w) \<Rightarrow>
               (case rec_player_next E r w of
                  (rc, r', w') \<Rightarrow>
                    let s' = s\<lparr>bs_reader := r', bs_world := w'\<rparr> in
                    if rc \<noteq> 1 \<or> rec_player_test_cursor r' c \<noteq> 1 then (False, s')
                    else (True, s'\<lparr>bs_cursor := None, bs_resumes := bs_resumes s' + 1\<rparr>))))"

text \<open>The inner loop, for at most \<^verbatim>\<open>n\<close> entries; it stops early when an entry cannot be had.\<close>

fun read_batch :: "reader_env \<Rightarrow> nat \<Rightarrow> nat \<Rightarrow> batch_state \<Rightarrow> bool \<times> nat \<times> batch_state" where
  "read_batch E 0 in_batch s = (True, in_batch, s)"
| "read_batch E (Suc n) in_batch s =
     (case rec_player_next E (bs_reader s) (bs_world s) of
        (rc, r, w) \<Rightarrow>
          let s' = s\<lparr>bs_reader := r, bs_world := w, bs_rc := rc\<rparr> in
          if rc \<le> 0 then (True, in_batch, s')
          else case rec_player_get_entry r of
            None \<Rightarrow> (False, in_batch, s')
          | Some e \<Rightarrow>
              read_batch E n (in_batch + 1)
                (s'\<lparr>bs_out := bs_out s' @ [batch_line e], bs_entries := bs_entries s' + 1\<rparr>))"

datatype batch_next = BatchExit | BatchSummary | BatchAgain | BatchWait bool

text \<open>
  One round of the main loop: it gives up with the current \<^verbatim>\<open>rc\<close> as exit status, ends with the
  summary, goes on, or waits; the flag of a wait tells whether the code looks for a missing cursor
  after it.
\<close>

definition batch_round :: "reader_env \<Rightarrow> batch_options \<Rightarrow> batch_state \<Rightarrow> batch_next \<times> batch_state" where
  "batch_round E o1 s =
     (case batch_resume E s of
        (False, s1) \<Rightarrow> (BatchExit, s1)
      | (True, s1) \<Rightarrow>
          (case read_batch E (bo_batch_size o1) 0 s1 of
             (False, _, s2) \<Rightarrow> (BatchExit, s2)
           | (True, in_batch, s2) \<Rightarrow>
               if bs_rc s2 < 0 then (BatchExit, s2)
               else if in_batch = 0 then (if bo_follow o1 then BatchWait True else BatchSummary, s2)
               else
                 let s3 = s2\<lparr>bs_batches := bs_batches s2 + 1\<rparr> in
                 if (bo_follow o1 \<or> bs_rc s3 \<noteq> 0) \<and> rec_player_get_cursor (bs_reader s3) = None then (BatchExit, s3)
                 else
                   let s4 = (if bo_follow o1 \<or> bs_rc s3 \<noteq> 0
                             then s3\<lparr>bs_cursor := rec_player_get_cursor (bs_reader s3)\<rparr> else s3)
                   in (if bs_rc s4 = 0 then (if bo_follow o1 then BatchWait False else BatchSummary) else BatchAgain, s4)))"

definition batch_wait :: "reader_env \<Rightarrow> bool \<Rightarrow> wakeup \<Rightarrow> batch_state \<Rightarrow> bool \<times> batch_state" where
  "batch_wait E rewind k s0 =
     (let r = (if rp_inotify_fd (bs_reader s0) \<and> wk_revents k
               then snd (rec_player_process E (wk_reads k) (wk_world k) (bs_reader s0)) else bs_reader s0);
          s = s0\<lparr>bs_reader := r, bs_world := wk_world k\<rparr>
      in if rewind \<and> bs_cursor s = None
         then (case rec_player_seek_head E (bs_reader s) (bs_world s) of
                 (ok, r', w') \<Rightarrow> (ok, s\<lparr>bs_reader := r', bs_world := w'\<rparr>))
         else (True, s))"

definition batch_summary :: "batch_state \<Rightarrow> string list" where
  "batch_summary s =
     [''entries: '' @ decimal (bs_entries s), ''batches: '' @ decimal (bs_batches s),
      ''cursor resumes: '' @ decimal (bs_resumes s)]"

text \<open>The whole loop; \<^verbatim>\<open>None\<close> where it runs forever, no exit status while it waits.\<close>

partial_function (option) batch_main_loop ::
    "reader_env \<Rightarrow> batch_options \<Rightarrow> wakeup list \<Rightarrow> batch_state \<Rightarrow> (int option \<times> string list) option" where
  "batch_main_loop E o1 wakeups s =
     (let res = batch_round E o1 s; s' = snd res in
      case fst res of
        BatchExit \<Rightarrow> Some (Some (bs_rc s'), bs_out s')
      | BatchSummary \<Rightarrow> Some (Some 0, bs_out s' @ batch_summary s')
      | BatchAgain \<Rightarrow> batch_main_loop E o1 wakeups s'
      | BatchWait rewind \<Rightarrow>
          if wakeups = [] then Some (None, bs_out s')
          else
            let next = batch_wait E rewind (hd wakeups) s' in
            if \<not> fst next then Some (Some (bs_rc (snd next)), bs_out (snd next))
            else batch_main_loop E o1 (tl wakeups) (snd next))"

definition batch_reader_main ::
    "reader_env \<Rightarrow> string list \<Rightarrow> wakeup list \<Rightarrow> world \<Rightarrow> (int option \<times> string list) option" where
  "batch_reader_main E argv wakeups w =
     (case parse_batch_args argv default_batch_options of
        None \<Rightarrow> Some (Some 2, [])
      | Some (o1, path) \<Rightarrow>
          (case rec_player_open E path w of
             None \<Rightarrow> Some (Some 1, [])
           | Some r \<Rightarrow>
               (case rec_player_seek_head E (rec_player_set_order (bo_order o1) r) w of
                  (False, _, _) \<Rightarrow> Some (Some 1, [])
                | (True, r', w') \<Rightarrow>
                    batch_main_loop E o1 wakeups
                      \<lparr>bs_reader = r', bs_world = w', bs_cursor = None, bs_entries = 0, bs_batches = 0, bs_resumes = 0,
                       bs_rc = 1, bs_out = []\<rparr>)))"

subsection \<open>What the rounds do\<close>

lemma read_batch_counts:
  "read_batch E n k s = (ok, in_batch, s') \<Longrightarrow>
   in_batch \<le> k + n \<and> bs_entries s' = bs_entries s + (in_batch - k) \<and> k \<le> in_batch \<and>
   length (bs_out s') = length (bs_out s) + (in_batch - k) \<and> bs_cursor s' = bs_cursor s"
proof (induction n arbitrary: k s)
  case (Suc n)
  then show ?case by (fastforce simp: Let_def split: prod.splits if_splits option.splits)
qed auto

text \<open>
  A resumed round that finds no new entry has given its cursor away: after the next wakeup the
  reader stands at the head of the store again, as if the store had been empty before.
\<close>

lemma empty_round_rewinds:
  assumes "bs_cursor s = Some c" and "batch_resume E s = (True, s1)"
    and "rec_player_next E (bs_reader s1) (bs_world s1) = (0, r, w)" and "bo_follow o1" and "0 < bo_batch_size o1"
    and "rec_player_seek_head E r' (wk_world k) = (True, r'', w'')"
    and "r' = (if rp_inotify_fd r \<and> wk_revents k then snd (rec_player_process E (wk_reads k) (wk_world k) r) else r)"
  shows "\<exists>s2. batch_round E o1 s = (BatchWait True, s2) \<and>
    batch_wait E True k s2 = (True, s2\<lparr>bs_reader := r'', bs_world := w''\<rparr>) \<and> bs_cursor s2 = None"
proof -
  have c: "bs_cursor s1 = None" using assms(1,2) by (auto simp: batch_resume_def Let_def split: prod.splits sum.splits if_splits)
  obtain n where n: "bo_batch_size o1 = Suc n" using assms(5) by (cases "bo_batch_size o1") auto
  let ?s2 = "s1\<lparr>bs_reader := r, bs_world := w, bs_rc := 0\<rparr>"
  have "batch_round E o1 s = (BatchWait True, ?s2)" using assms(2,3,4) n by (simp add: batch_round_def)
  moreover have "batch_wait E True k ?s2 = (True, ?s2\<lparr>bs_reader := r'', bs_world := w''\<rparr>)"
    using c assms(6,7) by (auto simp: batch_wait_def Let_def split: if_splits)
  ultimately show ?thesis using c by (intro exI [of _ ?s2]) simp
qed

end
