(* ===== verification/Framed_Chunk.thy ===== *)
theory Framed_Chunk
  imports Segment_Scan
begin

text \<open>
  The plain chunk frames of \<^verbatim>\<open>src/helper.c\<close>: a size, four zero bytes and the chunk.
\<close>

definition RECORDER_FRAME_HEADER_SIZE :: nat where "RECORDER_FRAME_HEADER_SIZE = 8"

definition write_framed_chunk :: "FILE option \<Rightarrow> byte list \<Rightarrow> bool \<times> FILE option" where
  "write_framed_chunk fp buf =
     (case fp of
        None \<Rightarrow> (False, None)
      | Some f \<Rightarrow>
          (case write_seq [write_u32_le (of_nat (length buf)) @ write_u32_le 0, buf] f of (ok, f') \<Rightarrow> (ok, Some f')))"

definition read_framed_chunk_header :: "byte list \<Rightarrow> nat \<Rightarrow> (u32 \<times> nat) option" where
  "read_framed_chunk_header buf remaining =
     (if remaining < RECORDER_FRAME_HEADER_SIZE then None else Some (read_u32_le buf, RECORDER_FRAME_HEADER_SIZE))"

text \<open>A frame that was written without an error is found behind what the file held before.\<close>

lemma framed_chunk_roundtrip:
  assumes "write_framed_chunk (Some fp) buf = (True, Some fp')" and "length buf < 2 ^ 32"
  shows "\<exists>frame. contents fp' = contents fp @ frame \<and>
    read_framed_chunk_header (frame @ rest) (length (frame @ rest)) = Some (of_nat (length buf), 8) \<and> drop 8 frame = buf"
proof -
  have "write_seq [write_u32_le (of_nat (length buf)) @ write_u32_le 0, buf] fp = (True, fp')"
    using assms(1) by (auto simp: write_framed_chunk_def simp del: write_seq.simps split: prod.splits)
  then have c: "contents fp' = contents fp @ (write_u32_le (of_nat (length buf)) @ write_u32_le 0 @ buf)"
    using write_seq_ok by fastforce
  show ?thesis
    by (intro exI conjI, rule c)
      (simp_all add: read_framed_chunk_header_def RECORDER_FRAME_HEADER_SIZE_def read_u32_write write_u32_le_def [of 0] del: of_nat_add)
qed

end
