(* ===== verification/Spec2Isabelle.thy ===== *)
theory Spec2Isabelle
  imports Recorder_Props Cursor_Props Follow_Props Script_Worker Player_Props Batch_Reader Framed_Chunk
begin

text \<open>
  A verification development of recorder, a log recorder that stores journal entries in
  append-only segment files, and of its reader library and command line player. The theories
  follow the C sources under \<^verbatim>\<open>src/src/\<close>; definitions keep the names of the functions and
  structures they translate, and every definition states its source by its name or in the text
  before it.

  \<^bold>\<open>The program.\<close> The recording process (\<^verbatim>\<open>recorder.c\<close>) reads its configuration, takes the
  store lock, recovers the store, rebuilds the registry of boots and then, round by round, takes
  entries from the journal or from a fallback source (\<^verbatim>\<open>fallback_source.c\<close>: syslog socket and
  kernel log), extracts their fields, applies the modifiers (regular expressions, rewriting,
  rerouting, script jobs), and hands each entry to the writer of its priority group. A writer
  collects a chunk, compresses it, encrypts it if configured (\<^verbatim>\<open>recorder_crypto.c\<close>), appends it as a
  frame to its segment (\<^verbatim>\<open>segment.c\<close>) and describes it in the frame index (\<^verbatim>\<open>index.c\<close>). Segments are
  rotated by size, time and boot; retention removes closed segments by quota, age and free space.
  Cursors checkpoint the position in the journal. Scripts run in the worker of
  \<^verbatim>\<open>script_worker.c\<close>. The reader library (\<^verbatim>\<open>librecorder.c\<close>) scans segments, walks them through their
  indexes, merges groups in recorded or wall clock order, seeks by time and cursor and follows a
  growing store; the player (\<^verbatim>\<open>player.c\<close>) and the batch reader (\<^verbatim>\<open>batch_reader.c\<close>) are its clients.

  \<^bold>\<open>Modelling.\<close> Machine integers are words of their width, buffers are byte lists, C
  strings are lists of characters without the terminating byte, structures are records, enumerations
  are datatypes, failing functions return an option, a sum with the error or a flag. Mutable state
  is passed explicitly. A file opened for writing carries a script of the outcomes of its next
  writes, and the file system of \<^verbatim>\<open>Store\<close> a list of faults, one consumed by each system call
  that can fail: a theorem over all scripts and faults is a theorem over all failures. Loops are
  structural recursion or functions with a measure; the few that may run forever (walks that
  depend on the answers of the system or of a growing store) are partial functions into the
  option type, where \<^verbatim>\<open>None\<close> is not returning. The only fuel-like bounds are those of the code: path
  buffers of 512 bytes, the table of 256 boots, chunks of 512 entries. Third-party code is a
  parameter with the documented behaviour it is used for as named hypotheses: OpenSSL and zstd
  (\<^verbatim>\<open>lib\<close> of \<^verbatim>\<open>Crypto\<close>), the code flatcc generates (\<^verbatim>\<open>flatcc\<close> of \<^verbatim>\<open>Index\<close> and the chunk accessors of
  \<^verbatim>\<open>reader_env\<close>), Jansson (\<^verbatim>\<open>jansson\<close>), PCRE2 (\<^verbatim>\<open>pcre2\<close>), the journal, the clock, the time zone.

  \<^bold>\<open>Foundations.\<close> \<^verbatim>\<open>Prelude\<close> has the types, buffers and the locales \<^verbatim>\<open>record_codec\<close>, \<^verbatim>\<open>codec\<close>
  (fixed width encodings) and \<^verbatim>\<open>stepper\<close> (an invariant kept by a fold). \<^verbatim>\<open>CRuntime\<close> models streams
  and error codes, \<^verbatim>\<open>Helper\<close> and \<^verbatim>\<open>Framed_Chunk\<close> the functions of \<^verbatim>\<open>helper.c\<close>, \<^verbatim>\<open>Compare\<close> comparison
  functions, \<^verbatim>\<open>qsort\<close> and the locale \<^verbatim>\<open>comparison\<close>.

  \<^bold>\<open>Segments.\<close> \<^verbatim>\<open>Crypto\<close> models \<^verbatim>\<open>recorder_crypto.c\<close>; \<^verbatim>\<open>Segment\<close> the structures, writers and header
  parser of \<^verbatim>\<open>segment.c\<close>; \<^verbatim>\<open>Segment_Scan\<close> its readers; \<^verbatim>\<open>Segment_File\<close> what a scan makes of written,
  torn and damaged files. \<^verbatim>\<open>Segment_Props\<close> shows the round trip of a written segment (C1), that a torn
  write loses only the torn frame (C2), that recovery's truncation settles a file (C3), that any
  changed byte of a frame is detected (C4), that no two frames of a segment share a nonce (C5),
  that random access agrees with the scan (C6), and two error cases (C7, C8). \<^verbatim>\<open>Index\<close> and
  \<^verbatim>\<open>Index_Props\<close> do the same for \<^verbatim>\<open>index.c\<close>: a rebuilt index is accepted and complete (C9), its
  records cover their chunks (C10), the searches by time, two instances of the locale
  \<^verbatim>\<open>index_lookup\<close>, find the first frame (C11), damage is detected (C13).

  \<^bold>\<open>The store.\<close> \<^verbatim>\<open>Store\<close> models the log directory, its paths, segment numbers and state files
  (\<^verbatim>\<open>recorder.c\<close>, \<^verbatim>\<open>helper.c\<close>): sizes are parsed exactly (C14), state files are replaced atomically
  (C15), new segment numbers are fresh (C16). \<^verbatim>\<open>Json\<close>, \<^verbatim>\<open>Boots\<close> the boot registry: its state file
  round trips (C17), a rebuild finds every boot (C18), numbers are injective (C19). \<^verbatim>\<open>Recovery\<close> the
  recovery at start: it keeps every committed byte (C20) and settles the store (C21). \<^verbatim>\<open>Config\<close> the
  configuration: the priority groups partition the priorities (C22), comments are stripped line by
  line (C23). \<^verbatim>\<open>Retention\<close>: active segments are kept (C25), the quota removes the shortest prefix
  of the removal order (C26), reclaiming spares higher priorities (C27). \<^verbatim>\<open>Cursor\<close> the cursor
  files, store id and lock (C33).

  \<^bold>\<open>Recording.\<close> \<^verbatim>\<open>Recorder_State\<close> has the data of the process, \<^verbatim>\<open>Writer\<close> and \<^verbatim>\<open>Writer_Props\<close> the
  segment writer: what it wrote without an error is read back completely, with the index a rebuild
  would give (C28). \<^verbatim>\<open>Entries\<close> the extraction of entries and the modifiers: rerouting settles (C29),
  tie numbers count runs (C30), the journal's priority is not checked (C31). \<^verbatim>\<open>Fallback\<close> the fallback
  source (C32). \<^verbatim>\<open>Recorder\<close> composes them into the step, the flush, the main round, start and
  shutdown; \<^verbatim>\<open>Recorder_Props\<close> lifts invariants of single writers to the process with the locales
  \<^verbatim>\<open>recorder_invariant\<close>, \<^verbatim>\<open>process_invariant\<close> and \<^verbatim>\<open>writer_invariant\<close>: writers stay sound (C34), a
  checkpoint never runs ahead of what is stored (C35), a step takes journal entries in their
  order (C36).

  \<^bold>\<open>The script worker.\<close> \<^verbatim>\<open>Script_Worker\<close> models \<^verbatim>\<open>script_worker.c\<close>: the limits of a job, the
  linked queue with its pointers in a heap, the critical sections of the worker threads, of
  submission and of destruction as an interleaving step relation with signals, broadcasts and
  spurious wakeups, and the loops that feed and reap a child. An inductive invariant shows that the
  queue is bounded and first-in first-out, that every accepted job runs exactly once, that no wakeup
  is lost and no job leaked, and that destruction waits for all (C24); destruction ends after a
  number of steps that is given, and every child is reaped or killed.

  \<^bold>\<open>Reading.\<close> \<^verbatim>\<open>Reader\<close>, \<^verbatim>\<open>Reader_Source\<close>, \<^verbatim>\<open>Reader_Iter\<close> and \<^verbatim>\<open>Reader_Wallclock\<close> model
  \<^verbatim>\<open>librecorder.c\<close>: entries, filters and paths, whole-segment scans and the follow mode; the sources
  that walk a group's segments through indexes or sorted scans; the merging iterator with seeks,
  cursors, and the poll interface; the heap merge of the wall clock scan. \<^verbatim>\<open>Wallclock_Props\<close> proves
  the binary heap (locale \<^verbatim>\<open>heap_order\<close>) and the merge against a reference merge; \<^verbatim>\<open>Walk_Props\<close> that
  the indexed walk of a segment gives exactly the entries of a sequential scan (C38) and that the
  wall clock scan delivers all entries sorted (C37). \<^verbatim>\<open>Cursor_Props\<close> shows that a cursor leads back
  to its entry (C39), \<^verbatim>\<open>Follow_Props\<close> that polls deliver every new entry exactly once (C40).

  \<^bold>\<open>The player.\<close> \<^verbatim>\<open>Player_Options\<close> models the command line of \<^verbatim>\<open>player.c\<close>, \<^verbatim>\<open>Player_Stats\<close> its
  statistics, disk usage, boots and index rebuilding together with the group statistics of the
  library, \<^verbatim>\<open>Player\<close> the selection and printing of entries, the scans of all modes and \<^verbatim>\<open>main\<close>.
  \<^verbatim>\<open>Player_Props\<close> shows that the output is the requested selection of the scanned entries (C12): the
  locale \<^verbatim>\<open>total_callback\<close> carries every scan of the library over to a callback that never stops it.
  \<^verbatim>\<open>Batch_Reader\<close> models \<^verbatim>\<open>batch_reader.c\<close>.

  \<^bold>\<open>Not modelled.\<close> The code flatcc generates (a parameter), the test programs, the block of
  \<^verbatim>\<open>librecorder.c\<close> under \<^verbatim>\<open>#if 0\<close>, failing memory allocations with the clean-up they cause,
  messages to standard error, argument parsing of the recorder and its seek in the journal at start,
  and the elapsed time the batch reader prints. Signals are not modelled: the finding on the pending
  \<^verbatim>\<open>SIGPIPE\<close> of the script worker comes from reading. \<^verbatim>\<open>qsort\<close> keeps the order of equal elements,
  which the C standard leaves open; directory order is that of the model's lists and no property
  depends on it.
\<close>

end
